(* ===== verification/Errors.thy ===== *)
theory Errors
  imports Prelude
begin

text \<open>
  The typed failures of \<^verbatim>\<open>src/vfy/errors.py\<close>: one constructor per exception class that
  carries a reason code, the code, and the subclass relation that an \<open>except\<close> clause
  tests. A raised failure is an \<open>exn\<close>: its class, its message, and the location fields
  the class adds in its \<open>__init__\<close>. Python's own exceptions, where the code can let one
  through, are the second constructor. The fields that \<open>ExecutionRecordingFailed\<close> adds
  hold values of the runner and are modelled there.
\<close>

section \<open>Failure classes and their codes\<close>

datatype (plugins only: code size) err_class =
    CanonicalFormInvalid
  | FloatNotPermitted
  | SurrogateNotPermitted
  | SourceEncodingInvalid
  | SourceSyntaxInvalid
  | SourceTooDeep
  | SourceConstructUnsupported
  | ExpressionParseError
  | ExpressionTypeError
  | RulebookSemanticInvalid
  | UndeclaredEvidenceId
  | RulebookVersionCollision
  | SnapshotItemInvalid
  | SnapshotItemUndeclared
  | SnapshotItemMissing
  | SnapshotRulebookMismatch
  | SnapshotDigestMismatch
  | EvidenceOrderInvalid
  | RulebookNotAdopted
  | AuthorizationOutcomeIneligible
  | AuthorizationBindingMismatch
  | AuthorizationNotYetValid
  | AuthorizationExpired
  | AuthorizationNonceReused
  | SignatureMalformed
  | SignatureInvalid
  | SigningKeyUnknown
  | SigningKeyRetired
  | SigningKeyRevoked
  | SigningKeyInvalid
  | ReceiptOutcomeIneligible
  | ReceiptBindingMismatch
  | ReplayBodyMissing
  | ReplayBodyMismatch
  | ReplayResultMismatch
  | StorePathInvalid
  | StoreRecordMissing
  | StoreRecordIncomplete
  | StoreRecordConflict
  | StoreArtifactNoncanonical
  | StoreIndexInvalid
  | StoreCommitConflict
  | StoreConsumptionConflict
  | ExecutionCandidateUnsupported
  | ExecutionConfigurationInvalid
  | ExecutionRecordingFailed
  | EvidenceAdapterConfigInvalid
  | EvidencePathInvalid
  | CliWorkspaceInvalid
  | CliWorkspaceConflict
  | CliConfigInvalid
  | CliExecutableNotFound
  | CliPathOutsideWorkspace
  | SchemaRegistryInvalid
  | CandidateSchemaInvalid
  | RulebookSchemaInvalid
  | SnapshotSchemaInvalid
  | OutcomeSchemaInvalid
  | AuthorizationSchemaInvalid
  | ReceiptSchemaInvalid

primrec err_code :: "err_class \<Rightarrow> ustr" where
  "err_code CanonicalFormInvalid = lit ''canonical_form_invalid''"
| "err_code FloatNotPermitted = lit ''float_not_permitted''"
| "err_code SurrogateNotPermitted = lit ''surrogate_not_permitted''"
| "err_code SourceEncodingInvalid = lit ''source_encoding_invalid''"
| "err_code SourceSyntaxInvalid = lit ''source_syntax_invalid''"
| "err_code SourceTooDeep = lit ''source_too_deep''"
| "err_code SourceConstructUnsupported = lit ''source_construct_unsupported''"
| "err_code ExpressionParseError = lit ''expression_parse_error''"
| "err_code ExpressionTypeError = lit ''expression_type_error''"
| "err_code RulebookSemanticInvalid = lit ''rulebook_semantic_invalid''"
| "err_code UndeclaredEvidenceId = lit ''undeclared_evidence_id''"
| "err_code RulebookVersionCollision = lit ''rulebook_version_collision''"
| "err_code SnapshotItemInvalid = lit ''snapshot_item_invalid''"
| "err_code SnapshotItemUndeclared = lit ''snapshot_item_undeclared''"
| "err_code SnapshotItemMissing = lit ''snapshot_item_missing''"
| "err_code SnapshotRulebookMismatch = lit ''snapshot_rulebook_mismatch''"
| "err_code SnapshotDigestMismatch = lit ''snapshot_digest_mismatch''"
| "err_code EvidenceOrderInvalid = lit ''evidence_order_invalid''"
| "err_code RulebookNotAdopted = lit ''rulebook_not_adopted''"
| "err_code AuthorizationOutcomeIneligible = lit ''authorization_outcome_ineligible''"
| "err_code AuthorizationBindingMismatch = lit ''authorization_binding_mismatch''"
| "err_code AuthorizationNotYetValid = lit ''authorization_not_yet_valid''"
| "err_code AuthorizationExpired = lit ''authorization_expired''"
| "err_code AuthorizationNonceReused = lit ''authorization_nonce_reused''"
| "err_code SignatureMalformed = lit ''signature_malformed''"
| "err_code SignatureInvalid = lit ''signature_invalid''"
| "err_code SigningKeyUnknown = lit ''signing_key_unknown''"
| "err_code SigningKeyRetired = lit ''signing_key_retired''"
| "err_code SigningKeyRevoked = lit ''signing_key_revoked''"
| "err_code SigningKeyInvalid = lit ''signing_key_invalid''"
| "err_code ReceiptOutcomeIneligible = lit ''receipt_outcome_ineligible''"
| "err_code ReceiptBindingMismatch = lit ''receipt_binding_mismatch''"
| "err_code ReplayBodyMissing = lit ''replay_body_missing''"
| "err_code ReplayBodyMismatch = lit ''replay_body_mismatch''"
| "err_code ReplayResultMismatch = lit ''replay_result_mismatch''"
| "err_code StorePathInvalid = lit ''store_path_invalid''"
| "err_code StoreRecordMissing = lit ''store_record_missing''"
| "err_code StoreRecordIncomplete = lit ''store_record_incomplete''"
| "err_code StoreRecordConflict = lit ''store_record_conflict''"
| "err_code StoreArtifactNoncanonical = lit ''store_artifact_noncanonical''"
| "err_code StoreIndexInvalid = lit ''store_index_invalid''"
| "err_code StoreCommitConflict = lit ''store_commit_conflict''"
| "err_code StoreConsumptionConflict = lit ''store_consumption_conflict''"
| "err_code ExecutionCandidateUnsupported = lit ''execution_candidate_unsupported''"
| "err_code ExecutionConfigurationInvalid = lit ''execution_configuration_invalid''"
| "err_code ExecutionRecordingFailed = lit ''execution_recording_failed''"
| "err_code EvidenceAdapterConfigInvalid = lit ''evidence_adapter_config_invalid''"
| "err_code EvidencePathInvalid = lit ''evidence_path_invalid''"
| "err_code CliWorkspaceInvalid = lit ''cli_workspace_invalid''"
| "err_code CliWorkspaceConflict = lit ''cli_workspace_conflict''"
| "err_code CliConfigInvalid = lit ''cli_config_invalid''"
| "err_code CliExecutableNotFound = lit ''cli_executable_not_found''"
| "err_code CliPathOutsideWorkspace = lit ''cli_path_outside_workspace''"
| "err_code SchemaRegistryInvalid = lit ''schema_registry_invalid''"
| "err_code CandidateSchemaInvalid = lit ''candidate_schema_invalid''"
| "err_code RulebookSchemaInvalid = lit ''rulebook_schema_invalid''"
| "err_code SnapshotSchemaInvalid = lit ''snapshot_schema_invalid''"
| "err_code OutcomeSchemaInvalid = lit ''outcome_schema_invalid''"
| "err_code AuthorizationSchemaInvalid = lit ''authorization_schema_invalid''"
| "err_code ReceiptSchemaInvalid = lit ''receipt_schema_invalid''"

text \<open>\<open>SchemaInvalid\<close> and \<open>VerifyError\<close> carry no code of their own: only their subclasses are raised.\<close>

datatype err_base = VerifyErrorBase | SchemaInvalidBase | ClassBase err_class

definition schema_classes :: "err_class list" where
  "schema_classes = [CandidateSchemaInvalid, RulebookSchemaInvalid, SnapshotSchemaInvalid,
     OutcomeSchemaInvalid, AuthorizationSchemaInvalid, ReceiptSchemaInvalid]"

definition base_of :: "err_class \<Rightarrow> err_base" where
  "base_of c =
     (if c = SigningKeyRevoked then ClassBase SigningKeyRetired
      else if c \<in> set schema_classes then SchemaInvalidBase
      else VerifyErrorBase)"

text \<open>\<open>issubclass(c, b)\<close>: what \<open>except b\<close> catches.\<close>

fun is_subclass :: "err_class \<Rightarrow> err_base \<Rightarrow> bool" where
  "is_subclass c VerifyErrorBase = True"
| "is_subclass c SchemaInvalidBase = (base_of c = SchemaInvalidBase)"
| "is_subclass c (ClassBase b) = (c = b \<or> base_of c = ClassBase b)"

section \<open>Raised failures\<close>

datatype detail =
    NoDetail
  | AtToken (tok_offset: nat) (tok_line: nat) (tok_column: nat) (tok_text: ustr)
      (tok_expected: "ustr option")
  | AtSchema (instance_path: ustr) (schema_path: ustr) (schema_keyword: ustr)

datatype py_class =
    PyTypeError | PyKeyError | PyIndexError | PyValueError | PyAttributeError | PyAssertionError
  | PyRecursionError | PyOSError | PyStopIteration | PyPatternError

datatype exn =
    VErr (exn_class: err_class) (exn_message: ustr) (exn_detail: detail)
  | PyErr (exn_python: py_class) (py_message: ustr)

abbreviation fail :: "err_class \<Rightarrow> string \<Rightarrow> exn + 'a" where
  "fail c m \<equiv> Inl (VErr c (lit m) NoDetail)"

abbreviation fail_with :: "err_class \<Rightarrow> string \<Rightarrow> ustr \<Rightarrow> exn + 'a" where
  "fail_with c m x \<equiv> Inl (VErr c (lit m @ x) NoDetail)"

text \<open>\<open>except VerifyError\<close> catches exactly the first constructor.\<close>

fun is_verify_error :: "exn \<Rightarrow> bool" where
  "is_verify_error (VErr _ _ _) = True"
| "is_verify_error (PyErr _ _) = False"

section \<open>Properties\<close>

text \<open>Every class, in the order of the module; distinct codes make reports unambiguous.\<close>

definition err_classes :: "err_class list" where
  "err_classes =
    [CanonicalFormInvalid, FloatNotPermitted, SurrogateNotPermitted, SourceEncodingInvalid,
     SourceSyntaxInvalid, SourceTooDeep, SourceConstructUnsupported, ExpressionParseError,
     ExpressionTypeError, RulebookSemanticInvalid, UndeclaredEvidenceId,
     RulebookVersionCollision, SnapshotItemInvalid, SnapshotItemUndeclared,
     SnapshotItemMissing, SnapshotRulebookMismatch, SnapshotDigestMismatch,
     EvidenceOrderInvalid, RulebookNotAdopted, AuthorizationOutcomeIneligible,
     AuthorizationBindingMismatch, AuthorizationNotYetValid, AuthorizationExpired,
     AuthorizationNonceReused, SignatureMalformed, SignatureInvalid, SigningKeyUnknown,
     SigningKeyRetired, SigningKeyRevoked, SigningKeyInvalid, ReceiptOutcomeIneligible,
     ReceiptBindingMismatch, ReplayBodyMissing, ReplayBodyMismatch, ReplayResultMismatch,
     StorePathInvalid, StoreRecordMissing, StoreRecordIncomplete, StoreRecordConflict,
     StoreArtifactNoncanonical, StoreIndexInvalid, StoreCommitConflict,
     StoreConsumptionConflict, ExecutionCandidateUnsupported, ExecutionConfigurationInvalid,
     ExecutionRecordingFailed, EvidenceAdapterConfigInvalid, EvidencePathInvalid,
     CliWorkspaceInvalid, CliWorkspaceConflict, CliConfigInvalid, CliExecutableNotFound,
     CliPathOutsideWorkspace, SchemaRegistryInvalid, CandidateSchemaInvalid,
     RulebookSchemaInvalid, SnapshotSchemaInvalid, OutcomeSchemaInvalid,
     AuthorizationSchemaInvalid, ReceiptSchemaInvalid]"

lemma err_classes_all: "c \<in> set err_classes"
  by (cases c) (simp_all add: err_classes_def)

lemma err_codes_distinct: "distinct (map err_code err_classes)"
  unfolding err_classes_def by (simp only: list.map err_code.simps) simp

lemma err_code_inj: "err_code c = err_code d \<Longrightarrow> c = d"
  using err_codes_distinct err_classes_all
  by (metis distinct_map inj_onD)

lemma is_subclass_refl: "is_subclass c (ClassBase c)"
  by simp

text \<open>
  A handler for the retired-key failure also catches the revoked-key failure, and no other
  class: the hierarchy has exactly one edge below a coded class.
\<close>

lemma coded_subclass_iff:
  "is_subclass c (ClassBase b) \<longleftrightarrow> c = b \<or> (c = SigningKeyRevoked \<and> b = SigningKeyRetired)"
  by (auto simp: base_of_def)

end
