(* ===== verification/Datetime.thy ===== *)
theory Datetime
  imports Errors
begin

text \<open>
  Date-times in the frozen grammar: \<open>_DATE_TIME\<close> and \<open>_is_date_time\<close> of
  \<^verbatim>\<open>src/vfy/schema.py\<close>, the exact nanosecond instant of \<^verbatim>\<open>src/vfy/rulebook.py\<close>, and
  the rendering of an instant plus whole seconds of \<^verbatim>\<open>src/vfy/authorization.py\<close>. The lemmas
  show that the rendering is inverse to the reading from the first of March of year zero on, and
  that it is a day off before.
\<close>

section \<open>The grammar\<close>

record date_groups =
  g_year :: ustr
  g_month :: ustr
  g_day :: ustr
  g_hour :: ustr
  g_minute :: ustr
  g_second :: ustr
  g_fraction :: "ustr option"
  g_offset :: ustr

definition all_digits :: "ustr \<Rightarrow> bool" where
  "all_digits s \<longleftrightarrow> list_all is_digit s"

definition match_offset :: "ustr \<Rightarrow> bool" where
  "match_offset s \<longleftrightarrow>
     s = [90]
     \<or> (length s = 6 \<and> s ! 0 \<in> {43, 45} \<and> all_digits (take 2 (drop 1 s)) \<and> s ! 3 = 58
        \<and> all_digits (drop 4 s))"

text \<open>The optional fraction is taken greedily: one to nine digits after a point.\<close>

definition split_fraction :: "ustr \<Rightarrow> ustr option \<times> ustr" where
  "split_fraction s =
     (let ds = takeWhile is_digit (tl s)
      in if s \<noteq> [] \<and> hd s = 46 \<and> 1 \<le> length ds \<and> length ds \<le> 9
         then (Some (46 # ds), dropWhile is_digit (tl s))
         else (None, s))"

definition match_date_time :: "ustr \<Rightarrow> date_groups option" where
  "match_date_time s =
     (if 19 \<le> length s
         \<and> all_digits (take 4 s) \<and> s ! 4 = 45 \<and> all_digits (take 2 (drop 5 s)) \<and> s ! 7 = 45
         \<and> all_digits (take 2 (drop 8 s)) \<and> s ! 10 = 84 \<and> all_digits (take 2 (drop 11 s))
         \<and> s ! 13 = 58 \<and> all_digits (take 2 (drop 14 s)) \<and> s ! 16 = 58
         \<and> all_digits (take 2 (drop 17 s))
         \<and> match_offset (snd (split_fraction (drop 19 s)))
      then Some \<lparr>g_year = take 4 s, g_month = take 2 (drop 5 s), g_day = take 2 (drop 8 s),
                 g_hour = take 2 (drop 11 s), g_minute = take 2 (drop 14 s),
                 g_second = take 2 (drop 17 s), g_fraction = fst (split_fraction (drop 19 s)),
                 g_offset = snd (split_fraction (drop 19 s))\<rparr>
      else None)"

definition days_of_month :: "nat list" where
  "days_of_month = [31, 28, 31, 30, 31, 30, 31, 31, 30, 31, 30, 31]"

definition is_leap :: "nat \<Rightarrow> bool" where
  "is_leap year \<longleftrightarrow> year mod 4 = 0 \<and> (year mod 100 \<noteq> 0 \<or> year mod 400 = 0)"

definition month_limit :: "nat \<Rightarrow> nat \<Rightarrow> nat" where
  "month_limit year month = (if month = 2 \<and> is_leap year then 29 else days_of_month ! (month - 1))"

definition is_date_time :: "ustr \<Rightarrow> bool" where
  "is_date_time s =
     (case match_date_time s of
        None \<Rightarrow> False
      | Some m \<Rightarrow>
          let year = undec (g_year m); month = undec (g_month m); day = undec (g_day m);
              hour = undec (g_hour m); minute = undec (g_minute m); second = undec (g_second m);
              offset = g_offset m
          in if \<not> (1 \<le> month \<and> month \<le> 12) \<or> hour > 23 \<or> minute > 59 \<or> second > 59 then False
             else if \<not> (1 \<le> day \<and> day \<le> month_limit year month) then False
             else if offset \<noteq> [90]
                     \<and> (undec (take 2 (drop 1 offset)) > 23 \<or> undec (take 2 (drop 4 offset)) > 59)
             then False
             else True)"

section \<open>Instants\<close>

text \<open>\<open>//\<close> and \<open>%\<close> of Python round towards minus infinity, as \<open>div\<close> and \<open>mod\<close> on \<open>int\<close> do.\<close>

definition days_from_civil :: "int \<Rightarrow> int \<Rightarrow> int \<Rightarrow> int" where
  "days_from_civil year0 month day =
     (let year = year0 - (if month \<le> 2 then 1 else 0);
          era = (if year \<ge> 0 then year else year - 399) div 400;
          year_of_era = year - era * 400;
          day_of_year = (153 * (month + (if month > 2 then -3 else 9)) + 2) div 5 + day - 1;
          day_of_era = year_of_era * 365 + year_of_era div 4 - year_of_era div 100 + day_of_year
      in era * 146097 + day_of_era - 719468)"

definition nanos_per_second :: int where
  "nanos_per_second = 1000000000"

text \<open>The first nine digits of the fraction, padded with zeros on the right.\<close>

definition fraction_nanos :: "ustr option \<Rightarrow> int" where
  "fraction_nanos f =
     (case f of None \<Rightarrow> 0 | Some t \<Rightarrow> int (undec (take 9 (drop 1 t @ replicate 9 48))))"

definition offset_seconds :: "ustr \<Rightarrow> int" where
  "offset_seconds offset =
     (if offset = [90] then 0
      else (if offset ! 0 = 43 then 1 else -1)
           * (int (undec (take 2 (drop 1 offset))) * 3600 + int (undec (take 2 (drop 4 offset))) * 60))"

definition groups_seconds :: "date_groups \<Rightarrow> int" where
  "groups_seconds m =
     days_from_civil (int (undec (g_year m))) (int (undec (g_month m))) (int (undec (g_day m))) * 86400
     + int (undec (g_hour m)) * 3600 + int (undec (g_minute m)) * 60 + int (undec (g_second m))
     - offset_seconds (g_offset m)"

text \<open>\<open>_instant\<close> of \<^verbatim>\<open>rulebook.py\<close>; text outside the grammar is a \<open>TypeError\<close>.\<close>

definition instant :: "ustr \<Rightarrow> exn + int" where
  "instant t =
     (if \<not> is_date_time t
      then Inl (PyErr PyTypeError (lit ''An evaluation instant must be a date-time string in the frozen grammar; snapshot schema validation guarantees this.''))
      else case match_date_time t of
             None \<Rightarrow> Inl (PyErr PyAttributeError (lit ''no match''))
           | Some m \<Rightarrow> Inr (groups_seconds m * nanos_per_second + fraction_nanos (g_fraction m)))"

section \<open>Rendering an instant\<close>

text \<open>\<open>"%0wd" % n\<close> for a non-negative \<open>n\<close>; a negative number carries its sign inside the width.\<close>

definition pad_dec :: "nat \<Rightarrow> int \<Rightarrow> ustr" where
  "pad_dec w n =
     (if n < 0 then 45 # replicate (w - 1 - length (dec (nat (- n)))) 48 @ dec (nat (- n))
      else replicate (w - length (dec (nat n))) 48 @ dec (nat n))"

record civil =
  c_year :: int
  c_month :: int
  c_day :: int

definition civil_from_days :: "int \<Rightarrow> civil" where
  "civil_from_days days =
     (let z = days + 719468;
          era = (if z \<ge> 0 then z else z - 146096) div 146097;
          day_of_era = z - era * 146097;
          year_of_era = (day_of_era - day_of_era div 1460 + day_of_era div 36524
                         - day_of_era div 146096) div 365;
          year = year_of_era + era * 400;
          day_of_year = day_of_era - (365 * year_of_era + year_of_era div 4 - year_of_era div 100);
          month_position = (5 * day_of_year + 2) div 153;
          day = day_of_year - (153 * month_position + 2) div 5 + 1;
          month = (if month_position < 10 then month_position + 3 else month_position - 9)
      in \<lparr>c_year = year + (if month \<le> 2 then 1 else 0), c_month = month, c_day = day\<rparr>)"

definition render_seconds :: "int \<Rightarrow> ustr" where
  "render_seconds total_seconds =
     (let days = total_seconds div 86400; remainder = total_seconds mod 86400;
          c = civil_from_days days;
          hour = remainder div 3600; rest = remainder mod 3600;
          minute = rest div 60; second = rest mod 60
      in pad_dec 4 (c_year c) @ [45] @ pad_dec 2 (c_month c) @ [45] @ pad_dec 2 (c_day c) @ [84]
         @ pad_dec 2 hour @ [58] @ pad_dec 2 minute @ [58] @ pad_dec 2 second @ [90])"

definition add_seconds :: "ustr \<Rightarrow> int \<Rightarrow> exn + ustr" where
  "add_seconds t seconds =
     bindE (instant t) (\<lambda>i. Inr (render_seconds ((i + seconds * nanos_per_second) div nanos_per_second)))"

section \<open>The calendar\<close>

text \<open>
  A day of an era of 400 years: its year of era and day of year. The estimate of the source
  is exact, and the year of era is in range.
\<close>

definition era_year :: "int \<Rightarrow> int" where
  "era_year e = (e - e div 1460 + e div 36524 - e div 146096) div 365"

definition era_day :: "int \<Rightarrow> int" where
  "era_day e = e - (365 * era_year e + era_year e div 4 - era_year e div 100)"

lemma era_parts:
  assumes "0 \<le> e" "e < 146097"
  shows "0 \<le> era_year e \<and> era_year e < 400 \<and> 0 \<le> era_day e \<and> era_day e \<le> 365
    \<and> (era_day e = 365 \<longrightarrow> (era_year e + 1) mod 4 = 0
         \<and> ((era_year e + 1) mod 100 \<noteq> 0 \<or> (era_year e + 1) mod 400 = 0))"
proof (cases "e = 146096")
  case True
  then show ?thesis by (simp add: era_day_def era_year_def)
next
  case False
  define b where "b = e div 36524"
  define r where "r = e mod 36524"
  define k where "k = r div 1461"
  define t where "t = r mod 1461"
  define d where "d = (if k + t + 24 * b \<ge> 1460 then 1 else (0::int))"
  define y1 where "y1 = (t - d) div 365"
  have e: "e = 36524 * b + r" by (simp add: b_def r_def)
  have r: "r = 1461 * k + t" by (simp add: k_def t_def)
  have b: "0 \<le> b" "b \<le> 3" and r_lt: "0 \<le> r" "r < 36524"
    using assms False by (auto simp: b_def r_def)
  have k: "0 \<le> k" "k \<le> 24" and t: "0 \<le> t" "t < 1461"
    using r_lt by (auto simp: k_def t_def)
  have d1: "(k + t + 24 * b) div 1460 = d"
    using k t b by (auto simp: d_def intro: int_div_pos_eq)
  have a: "e div 1460 = 25 * b + k + d"
  proof -
    have "e = (25 * b + k) * 1460 + (k + t + 24 * b)" by (simp add: e r)
    then show ?thesis using d1 by simp
  qed
  have late: "t div 365 = 3 \<and> (t - 1) div 365 = 3" if "1460 \<le> k + t + 24 * b" "t \<noteq> 1460"
  proof -
    have "1364 \<le> t" "t \<le> 1459" using that k t b by auto
    then show ?thesis by auto
  qed
  have y1: "y1 = (if t = 1460 then 3 else t div 365)"
    using k t b late by (auto simp: y1_def d_def)
  have t365: "t div 365 \<le> 3" if "t \<noteq> 1460" using that t by auto
  then have y1_range: "0 \<le> y1" "y1 \<le> 3" using t by (auto simp: y1)
  have c: "e div 146096 = 0" using assms False by simp
  have "era_year e = (36500 * b + 1460 * k + (t - d)) div 365"
    unfolding era_year_def a c b_def [symmetric] by (simp add: e r algebra_simps)
  also have "36500 * b + 1460 * k + (t - d) = (100 * b + 4 * k) * 365 + (t - d)" by simp
  also have "\<dots> div 365 = 100 * b + 4 * k + y1" by (simp add: y1_def)
  finally have ey: "era_year e = 100 * b + 4 * k + y1" .
  have q4: "era_year e div 4 = 25 * b + k"
    unfolding ey using y1_range by (auto intro: int_div_pos_eq)
  have q100: "era_year e div 100 = b"
    unfolding ey using y1_range k by (auto intro: int_div_pos_eq)
  have ed: "era_day e = t - 365 * y1"
    unfolding era_day_def q4 q100 unfolding ey by (simp add: e r)
  have ed_range: "0 \<le> era_day e" "era_day e \<le> 365" "era_day e = 365 \<Longrightarrow> t = 1460"
    unfolding ed y1 using t minus_mult_div_eq_mod [of t 365] pos_mod_bound [of 365 t]
    by (auto split: if_splits simp del: pos_mod_bound)
  moreover have "(era_year e + 1) mod 4 = 0 \<and> (era_year e + 1) mod 100 \<noteq> 0" if "t = 1460"
  proof -
    have "k \<noteq> 24" using that r r_lt by auto
    with k have k23: "k \<le> 23" by simp
    have "era_year e + 1 = (25 * b + k + 1) * 4" using that by (simp add: ey y1)
    then have "(era_year e + 1) mod 4 = 0" by simp
    moreover have "era_year e + 1 = b * 100 + (4 * k + 4)" using that by (simp add: ey y1)
    then have "(era_year e + 1) mod 100 = (4 * k + 4) mod 100" by (simp only: mod_mult_self3)
    then have "(era_year e + 1) mod 100 = 4 * k + 4" using k23 k by simp
    ultimately show ?thesis using k by simp
  qed
  ultimately show ?thesis using y1_range k b by (auto simp: ey)
qed

lemma civil_from_days_era:
  assumes "0 \<le> days + 719468"
  defines "doe \<equiv> (days + 719468) mod 146097"
  defines "mp \<equiv> (5 * era_day doe + 2) div 153"
  defines "m \<equiv> (if mp < 10 then mp + 3 else mp - 9)"
  shows "civil_from_days days =
     \<lparr>c_year = era_year doe + (days + 719468) div 146097 * 400 + (if m \<le> 2 then 1 else 0),
      c_month = m, c_day = era_day doe - (153 * mp + 2) div 5 + 1\<rparr>"
proof -
  have doe: "days + 719468 - (days + 719468) div 146097 * 146097 = doe"
    unfolding doe_def by (rule minus_div_mult_eq_mod)
  show ?thesis
    unfolding civil_from_days_def Let_def if_P [OF assms(1)] doe
    unfolding era_year_def [symmetric] era_day_def [symmetric] mp_def [symmetric] m_def [symmetric]
    by (rule refl)
qed

text \<open>What a day of year says of its month and day: a closed statement about 366 days.\<close>

definition month_of :: "int \<Rightarrow> int" where
  "month_of doy = (let mp = (5 * doy + 2) div 153 in if mp < 10 then mp + 3 else mp - 9)"

definition day_of :: "int \<Rightarrow> int" where
  "day_of doy = doy - (153 * ((5 * doy + 2) div 153) + 2) div 5 + 1"

definition year_day_ok :: "int \<Rightarrow> bool" where
  "year_day_ok doy \<longleftrightarrow>
     1 \<le> month_of doy \<and> month_of doy \<le> 12 \<and> 1 \<le> day_of doy
     \<and> (if doy = 365 then month_of doy = 2 \<and> day_of doy = 29
        else day_of doy \<le> int (days_of_month ! nat (month_of doy - 1)))
     \<and> (153 * (month_of doy + (if month_of doy > 2 then -3 else 9)) + 2) div 5 + day_of doy - 1 = doy"

lemma year_days_checked: "list_all year_day_ok [0..365]"
  by code_simp

lemma year_day_okI: "0 \<le> doy \<Longrightarrow> doy \<le> 365 \<Longrightarrow> year_day_ok doy"
  using year_days_checked by (simp add: list_all_iff)

lemma is_leap_int:
  assumes "0 \<le> y"
  shows "is_leap (nat y) \<longleftrightarrow> y mod 4 = 0 \<and> (y mod 100 \<noteq> 0 \<or> y mod 400 = 0)"
proof -
  have "int (nat y mod n) = y mod int n" for n
    using assms by (simp add: of_nat_mod)
  then have "nat y mod n = 0 \<longleftrightarrow> y mod int n = 0" for n
    by (metis of_nat_0_eq_iff)
  from this [of 4] this [of 100] this [of 400] show ?thesis by (simp add: is_leap_def)
qed

text \<open>From the first of March of year zero on, the two conversions are inverse.\<close>

theorem days_civil_days:
  assumes "0 \<le> days + 719468"
  shows "let c = civil_from_days days in
    days_from_civil (c_year c) (c_month c) (c_day c) = days
    \<and> 0 \<le> c_year c \<and> 1 \<le> c_month c \<and> c_month c \<le> 12 \<and> 1 \<le> c_day c
    \<and> c_day c \<le> int (month_limit (nat (c_year c)) (nat (c_month c)))"
proof -
  define era where "era = (days + 719468) div 146097"
  define doe where "doe = (days + 719468) mod 146097"
  define y where "y = era_year doe"
  define doy where "doy = era_day doe"
  have z: "days + 719468 = era * 146097 + doe" by (simp add: era_def doe_def)
  have era0: "0 \<le> era" using assms by (simp add: era_def pos_imp_zdiv_nonneg_iff)
  have "0 \<le> doe" "doe < 146097" by (simp_all add: doe_def)
  from era_parts [OF this] have
    y: "0 \<le> y" "y < 400" and doy: "0 \<le> doy" "doy \<le> 365"
    and leap: "doy = 365 \<Longrightarrow> (y + 1) mod 4 = 0 \<and> ((y + 1) mod 100 \<noteq> 0 \<or> (y + 1) mod 400 = 0)"
    by (auto simp: y_def doy_def)
  from year_day_okI [OF doy] have md: "year_day_ok doy" .
  define yr where "yr = y + era * 400 + (if month_of doy \<le> 2 then 1 else 0)"
  have c: "civil_from_days days = \<lparr>c_year = yr, c_month = month_of doy, c_day = day_of doy\<rparr>"
    unfolding civil_from_days_era [OF assms]
    unfolding era_def [symmetric] doe_def [symmetric] y_def [symmetric] doy_def [symmetric]
      yr_def month_of_def day_of_def Let_def by (rule refl)
  have yera: "(y + era * 400) div 400 = era" using y by simp
  have yr': "yr - (if month_of doy \<le> 2 then 1 else 0) = y + era * 400" by (simp add: yr_def)
  have "days_from_civil yr (month_of doy) (day_of doy)
      = era * 146097 + (y * 365 + y div 4 - y div 100 + doy) - 719468"
  proof -
    have "0 \<le> y + era * 400" using era0 y by simp
    moreover have "(153 * (month_of doy + (if month_of doy > 2 then -3 else 9)) + 2) div 5 + day_of doy - 1 = doy"
      using md by (simp only: year_day_ok_def)
    ultimately show ?thesis
      unfolding days_from_civil_def Let_def yr' by (simp only: if_True yera) simp
  qed
  also have "y * 365 + y div 4 - y div 100 + doy = doe"
    by (simp add: doy_def era_day_def y_def)
  also have "era * 146097 + doe - 719468 = days" using z by simp
  finally have days_back: "days_from_civil yr (month_of doy) (day_of doy) = days" .
  have leap_yr: "is_leap (nat yr)" if "doy = 365"
  proof -
    from md that have "yr = y + 1 + era * 400" by (simp add: year_day_ok_def yr_def)
    then have "yr = y + 1 + era * 100 * 4" "yr = y + 1 + era * 4 * 100" "yr = y + 1 + era * 400"
      by simp_all
    then have "yr mod 4 = (y + 1) mod 4" "yr mod 100 = (y + 1) mod 100" "yr mod 400 = (y + 1) mod 400"
      by (metis mod_mult_self1)+
    with leap [OF that] have "yr mod 4 = 0 \<and> (yr mod 100 \<noteq> 0 \<or> yr mod 400 = 0)" by simp
    moreover have "0 \<le> yr" using y era0 by (simp add: yr_def)
    ultimately show ?thesis by (simp add: is_leap_int)
  qed
  have "day_of doy \<le> int (month_limit (nat yr) (nat (month_of doy)))"
    using md leap_yr by (auto simp: year_day_ok_def month_limit_def days_of_month_def nat_diff_distrib'
        split: if_splits)
  with days_back md y era0 show ?thesis unfolding c Let_def
    by (auto simp: year_day_ok_def yr_def)
qed

text \<open>Before it, the rounding idiom of the rendering is off by one: the first day of year zero.\<close>

lemma civil_day_off: "civil_from_days (-719528) = \<lparr>c_year = 0, c_month = 1, c_day = 2\<rparr>"
  by code_simp

lemma first_day: "days_from_civil 0 1 1 = -719528"
  by code_simp

section \<open>The rendering is read back\<close>

lemma length_pad:
  assumes "0 \<le> n" "n < 10 ^ w" "0 < w"
  shows "length (pad_dec w n) = w \<and> all_digits (pad_dec w n) \<and> undec (pad_dec w n) = nat n"
proof -
  have len: "length (dec (nat n)) \<le> w"
    using assms by (intro length_dec) (simp_all add: nat_less_iff)
  have zeros: "undec (replicate k 48 @ ds) = undec ds" for k ds
  proof -
    have "foldl (\<lambda>n d. 10 * n + (d - 48)) 0 (replicate k 48) = (0 :: nat)" by (induction k) auto
    then show ?thesis by (simp add: undec_def)
  qed
  have "list_all is_digit (replicate k 48)" for k by (simp add: list_all_iff is_digit_def)
  with assms(1) len zeros dec_digits show ?thesis
    by (auto simp: pad_dec_def all_digits_def)
qed

lemma instant_rendered:
  assumes "length Y = 4" "length M = 2" "length D = 2" "length H = 2" "length N = 2" "length S = 2"
    and "all_digits Y" "all_digits M" "all_digits D" "all_digits H" "all_digits N" "all_digits S"
    and "1 \<le> undec M" "undec M \<le> 12" "1 \<le> undec D" "undec D \<le> month_limit (undec Y) (undec M)"
    and "undec H \<le> 23" "undec N \<le> 59" "undec S \<le> 59"
  shows "instant (Y @ [45] @ M @ [45] @ D @ [84] @ H @ [58] @ N @ [58] @ S @ [90])
    = Inr ((days_from_civil (int (undec Y)) (int (undec M)) (int (undec D)) * 86400
       + int (undec H) * 3600 + int (undec N) * 60 + int (undec S)) * nanos_per_second)"
proof -
  let ?t = "Y @ [45] @ M @ [45] @ D @ [84] @ H @ [58] @ N @ [58] @ S @ [90]"
  obtain y1 y2 y3 y4 m1 m2 d1 d2 h1 h2 n1 n2 s1 s2 where
    eqs: "Y = [y1, y2, y3, y4]" "M = [m1, m2]" "D = [d1, d2]" "H = [h1, h2]" "N = [n1, n2]" "S = [s1, s2]"
    using assms(1-6) by (auto simp: length_Suc_conv numeral_2_eq_2 numeral_eq_Suc)
  have m: "match_date_time ?t = Some \<lparr>g_year = Y, g_month = M, g_day = D, g_hour = H, g_minute = N,
      g_second = S, g_fraction = None, g_offset = [90]\<rparr>"
    using assms(7-12) by (simp add: match_date_time_def eqs split_fraction_def match_offset_def)
  have "is_date_time ?t"
    using assms(13-) unfolding is_date_time_def m by (simp add: Let_def)
  then show ?thesis
    unfolding instant_def m groups_seconds_def fraction_nanos_def offset_seconds_def by simp
qed

text \<open>Seconds whose date is in the range of the grammar and of the conversion.\<close>

definition renderable :: "int \<Rightarrow> bool" where
  "renderable s \<longleftrightarrow> 0 \<le> s div 86400 + 719468 \<and> c_year (civil_from_days (s div 86400)) \<le> 9999"

theorem instant_render:
  assumes "renderable s"
  shows "instant (render_seconds s) = Inr (s * nanos_per_second)"
proof -
  define c where "c = civil_from_days (s div 86400)"
  define r where "r = s mod 86400"
  have days: "days_from_civil (c_year c) (c_month c) (c_day c) = s div 86400"
    and c: "0 \<le> c_year c" "1 \<le> c_month c" "c_month c \<le> 12" "1 \<le> c_day c"
      "c_day c \<le> int (month_limit (nat (c_year c)) (nat (c_month c)))"
    using days_civil_days [of "s div 86400"] assms by (auto simp: renderable_def c_def Let_def)
  have yr: "c_year c < 10 ^ 4" using assms by (simp add: renderable_def c_def)
  have lim: "month_limit y m \<le> 31" if "1 \<le> m" "m \<le> 12" for y m
  proof -
    have "days_of_month ! (m - 1) \<in> set days_of_month"
      using that by (intro nth_mem) (simp add: days_of_month_def)
    then show ?thesis by (auto simp: month_limit_def days_of_month_def)
  qed
  have "month_limit (nat (c_year c)) (nat (c_month c)) \<le> 31" using c by (intro lim) auto
  with c have day: "c_day c < 10 ^ 2" by simp
  have r: "0 \<le> r" "r < 86400" by (simp_all add: r_def)
  have h: "0 \<le> r div 3600" "r div 3600 \<le> 23"
    using zdiv_mono1 [of r 86399 3600] zdiv_mono1 [of 0 r 3600] r by simp_all
  have "0 \<le> r mod 3600" "r mod 3600 \<le> 3599"
    using pos_mod_bound [of 3600 r] pos_mod_sign [of 3600 r] by simp_all
  then have n: "0 \<le> r mod 3600 div 60" "r mod 3600 div 60 \<le> 59"
    using zdiv_mono1 [of "r mod 3600" 3599 60] zdiv_mono1 [of 0 "r mod 3600" 60] by simp_all
  have sec: "0 \<le> r mod 3600 mod 60" "r mod 3600 mod 60 \<le> 59"
    using pos_mod_bound [of 60 "r mod 3600"] pos_mod_sign [of 60 "r mod 3600"] by linarith+
  have pads:
    "length (pad_dec 4 (c_year c)) = 4" "all_digits (pad_dec 4 (c_year c))" "undec (pad_dec 4 (c_year c)) = nat (c_year c)"
    "length (pad_dec 2 (c_month c)) = 2" "all_digits (pad_dec 2 (c_month c))" "undec (pad_dec 2 (c_month c)) = nat (c_month c)"
    "length (pad_dec 2 (c_day c)) = 2" "all_digits (pad_dec 2 (c_day c))" "undec (pad_dec 2 (c_day c)) = nat (c_day c)"
    using length_pad [of "c_year c" 4] length_pad [of "c_month c" 2] length_pad [of "c_day c" 2] c yr day
    by simp_all
  have tpads: "length (pad_dec 2 x) = 2 \<and> all_digits (pad_dec 2 x) \<and> undec (pad_dec 2 x) = nat x"
    if "0 \<le> x" "x \<le> 59" for x
    using length_pad [of x 2] that by simp
  have recompose: "r div 3600 * 3600 + r mod 3600 div 60 * 60 + r mod 3600 mod 60 = r"
    using div_mult_mod_eq [of r 3600] div_mult_mod_eq [of "r mod 3600" 60] by linarith
  note H = tpads [of "r div 3600"] and N = tpads [of "r mod 3600 div 60"] and S = tpads [of "r mod 3600 mod 60"]
  have h': "r div 3600 \<le> 59" using h by simp
  note H = H [OF h(1) h'] and N = N [OF n] and S = S [OF sec]
  have ranges: "1 \<le> undec (pad_dec 2 (c_month c))" "undec (pad_dec 2 (c_month c)) \<le> 12"
      "1 \<le> undec (pad_dec 2 (c_day c))"
      "undec (pad_dec 2 (c_day c)) \<le> month_limit (undec (pad_dec 4 (c_year c))) (undec (pad_dec 2 (c_month c)))"
      "undec (pad_dec 2 (r div 3600)) \<le> 23" "undec (pad_dec 2 (r mod 3600 div 60)) \<le> 59"
      "undec (pad_dec 2 (r mod 3600 mod 60)) \<le> 59"
    unfolding pads H [THEN conjunct2, THEN conjunct2] N [THEN conjunct2, THEN conjunct2]
      S [THEN conjunct2, THEN conjunct2]
    subgoal by (simp only: le_nat_iff [OF order_trans [OF zero_le_one c(2)]] of_nat_1 c(2))
    subgoal using c(3) by (simp only: nat_le_iff of_nat_numeral)
    subgoal by (simp only: le_nat_iff [OF order_trans [OF zero_le_one c(4)]] of_nat_1 c(4))
    subgoal using c(5) by (simp only: nat_le_iff)
    subgoal using h(2) by (simp only: nat_le_iff of_nat_numeral)
    subgoal using n(2) by (simp only: nat_le_iff of_nat_numeral)
    subgoal using sec(2) by (simp only: nat_le_iff of_nat_numeral)
    done
  have "instant (render_seconds s) =
      Inr ((days_from_civil (int (nat (c_year c))) (int (nat (c_month c))) (int (nat (c_day c))) * 86400
         + int (nat (r div 3600)) * 3600 + int (nat (r mod 3600 div 60)) * 60
         + int (nat (r mod 3600 mod 60))) * nanos_per_second)"
    unfolding render_seconds_def Let_def c_def [symmetric] r_def [symmetric]
    using instant_rendered [OF pads(1) pads(4) pads(7) H [THEN conjunct1] N [THEN conjunct1] S [THEN conjunct1]
        pads(2) pads(5) pads(8) H [THEN conjunct2, THEN conjunct1] N [THEN conjunct2, THEN conjunct1]
        S [THEN conjunct2, THEN conjunct1] ranges]
    unfolding pads H [THEN conjunct2, THEN conjunct2] N [THEN conjunct2, THEN conjunct2]
      S [THEN conjunct2, THEN conjunct2] .
  also have "\<dots> = Inr ((days_from_civil (c_year c) (c_month c) (c_day c) * 86400
         + r div 3600 * 3600 + r mod 3600 div 60 * 60 + r mod 3600 mod 60) * nanos_per_second)"
    using c(2,4) by (simp only: nat_0_le c(1) h(1) n(1) sec(1) order_trans [OF zero_le_one])
  also have "days_from_civil (c_year c) (c_month c) (c_day c) * 86400
         + r div 3600 * 3600 + r mod 3600 div 60 * 60 + r mod 3600 mod 60 = s"
    using recompose div_mult_mod_eq [of s 86400] unfolding days r_def by linarith
  finally show ?thesis .
qed

text \<open>
  The expiry that issuing renders is the one verification recomputes: the issuing instant in whole
  seconds, plus the seconds.
\<close>

theorem add_seconds_instant:
  assumes "instant t = Inr i" and "renderable (i div nanos_per_second + n)"
  shows "\<exists>t'. add_seconds t n = Inr t' \<and> instant t' = Inr ((i div nanos_per_second + n) * nanos_per_second)"
proof -
  have "(i + n * nanos_per_second) div nanos_per_second = i div nanos_per_second + n"
    by (simp add: nanos_per_second_def)
  with assms instant_render [OF assms(2)] show ?thesis by (simp add: add_seconds_def)
qed

end
