(* ===== verification/Regex.thy ===== *)
theory Regex
  imports Prelude
begin

text \<open>
  Regular expressions of the kind the sources write with \<open>re.compile\<close>, for the patterns that the
  model transcribes literally. Matching is executable, by derivatives; its meaning is the language
  of the expression, and \<open>rmatch_iff\<close> shows that the two agree.
\<close>

datatype rex =
    Nothing
  | Eps
  | OneOf "(nat \<times> nat) list"
  | Seq rex rex
  | Alt rex rex
  | Many rex

definition in_ranges :: "(nat \<times> nat) list \<Rightarrow> nat \<Rightarrow> bool" where
  "in_ranges rs c \<longleftrightarrow> list_ex (\<lambda>(lo, hi). lo \<le> c \<and> c \<le> hi) rs"

fun nullable :: "rex \<Rightarrow> bool" where
  "nullable Nothing = False"
| "nullable Eps = True"
| "nullable (OneOf rs) = False"
| "nullable (Seq r s) = (nullable r \<and> nullable s)"
| "nullable (Alt r s) = (nullable r \<or> nullable s)"
| "nullable (Many r) = True"

fun deriv :: "nat \<Rightarrow> rex \<Rightarrow> rex" where
  "deriv c Nothing = Nothing"
| "deriv c Eps = Nothing"
| "deriv c (OneOf rs) = (if in_ranges rs c then Eps else Nothing)"
| "deriv c (Seq r s) = (if nullable r then Alt (Seq (deriv c r) s) (deriv c s) else Seq (deriv c r) s)"
| "deriv c (Alt r s) = Alt (deriv c r) (deriv c s)"
| "deriv c (Many r) = Seq (deriv c r) (Many r)"

text \<open>\<open>rmatch r s\<close>: the pattern \<open>\A r \Z\<close> matches \<open>s\<close>.\<close>

definition rmatch :: "rex \<Rightarrow> ustr \<Rightarrow> bool" where
  "rmatch r s = nullable (fold deriv s r)"

text \<open>Notation of the sources as functions.\<close>

definition chars :: "string \<Rightarrow> rex" where
  "chars cs = OneOf (map (\<lambda>c. (of_char c, of_char c)) cs)"

definition from_to :: "char \<Rightarrow> char \<Rightarrow> nat \<times> nat" where
  "from_to lo hi = (of_char lo, of_char hi)"

definition digit :: rex where
  "digit = OneOf [from_to CHR ''0'' CHR ''9'']"

definition exactly :: "string \<Rightarrow> rex" where
  "exactly cs = foldr (\<lambda>c r. Seq (chars [c]) r) cs Eps"

definition maybe :: "rex \<Rightarrow> rex" where
  "maybe r = Alt Eps r"

definition some_of :: "rex \<Rightarrow> rex" where
  "some_of r = Seq r (Many r)"

fun seqs :: "rex list \<Rightarrow> rex" where
  "seqs [] = Eps"
| "seqs [r] = r"
| "seqs (r # rs) = Seq r (seqs rs)"

fun alts :: "rex list \<Rightarrow> rex" where
  "alts [] = Nothing"
| "alts [r] = r"
| "alts (r # rs) = Alt r (alts rs)"

fun times :: "nat \<Rightarrow> rex \<Rightarrow> rex" where
  "times 0 r = Eps"
| "times (Suc n) r = Seq r (times n r)"

section \<open>Languages\<close>

inductive_set star :: "ustr set \<Rightarrow> ustr set" for A where
  star_Nil: "[] \<in> star A"
| star_Cons: "s \<in> A \<Longrightarrow> t \<in> star A \<Longrightarrow> s @ t \<in> star A"

fun lang :: "rex \<Rightarrow> ustr set" where
  "lang Nothing = {}"
| "lang Eps = {[]}"
| "lang (OneOf rs) = {[c] | c. in_ranges rs c}"
| "lang (Seq r s) = {x @ y | x y. x \<in> lang r \<and> y \<in> lang s}"
| "lang (Alt r s) = lang r \<union> lang s"
| "lang (Many r) = star (lang r)"

lemma nullable_iff: "nullable r \<longleftrightarrow> [] \<in> lang r"
  by (induction r) (auto intro: star_Nil)

lemma star_Cons_split:
  "w \<in> star A \<Longrightarrow> w = c # s \<Longrightarrow> \<exists>x y. s = x @ y \<and> c # x \<in> A \<and> y \<in> star A"
proof (induction arbitrary: c s rule: star.induct)
  case (star_Cons x y)
  show ?case
  proof (cases x)
    case Nil
    with star_Cons show ?thesis by simp
  next
    case (Cons d x')
    with star_Cons.prems star_Cons.hyps show ?thesis by auto
  qed
qed simp

lemma deriv_iff: "s \<in> lang (deriv c r) \<longleftrightarrow> c # s \<in> lang r"
proof (induction r arbitrary: s)
  case (Seq r1 r2)
  have "c # s \<in> lang (Seq r1 r2) \<longleftrightarrow>
      (\<exists>x y. s = x @ y \<and> c # x \<in> lang r1 \<and> y \<in> lang r2) \<or> ([] \<in> lang r1 \<and> c # s \<in> lang r2)"
    by (auto simp: Cons_eq_append_conv)
  then show ?case by (auto simp: Seq.IH nullable_iff)
next
  case (Many r)
  have "c # s \<in> star (lang r) \<longleftrightarrow> (\<exists>x y. s = x @ y \<and> c # x \<in> lang r \<and> y \<in> star (lang r))"
    using star_Cons_split [of "c # s" "lang r" c s] star_Cons [of "c # _" "lang r"] by fastforce
  then show ?case by (auto simp: Many.IH)
qed auto

lemma rmatch_iff: "rmatch r s \<longleftrightarrow> s \<in> lang r"
proof -
  have "nullable (fold deriv s r) \<longleftrightarrow> s \<in> lang r" for r
    by (induction s arbitrary: r) (auto simp: nullable_iff deriv_iff)
  then show ?thesis by (simp add: rmatch_def)
qed

end
