(* ===== verification/Values.thy ===== *)
theory Values
  imports Errors
begin

text \<open>
  The value model of the runtime: the JSON-shaped Python values that the loaders produce and
  every other module passes around. A \<open>dict\<close> is an insertion-ordered association list from
  text to values. This theory holds the readings of a value that the code uses implicitly
  (subscription, \<open>.get\<close>, \<open>in\<close>, \<open>isinstance\<close>, Python's \<open>==\<close>), the
  well-formedness that every Python \<open>dict\<close> and \<open>str\<close> has by construction, and
  the normal form in which keys are sorted at every level.
\<close>

datatype json =
    JNull
  | JBool bool
  | JInt int
  | JStr ustr
  | JList "json list"
  | JDict "(ustr \<times> json) list"

section \<open>Reading values\<close>

fun is_dict :: "json \<Rightarrow> bool" where
  "is_dict (JDict _) = True"
| "is_dict _ = False"

fun is_list :: "json \<Rightarrow> bool" where
  "is_list (JList _) = True"
| "is_list _ = False"

fun is_str :: "json \<Rightarrow> bool" where
  "is_str (JStr _) = True"
| "is_str _ = False"

fun is_bool :: "json \<Rightarrow> bool" where
  "is_bool (JBool _) = True"
| "is_bool _ = False"

text \<open>\<open>isinstance(v, int)\<close> holds of a boolean in Python; \<open>is_int\<close> is the exact type.\<close>

fun is_int :: "json \<Rightarrow> bool" where
  "is_int (JInt _) = True"
| "is_int _ = False"

fun the_str :: "json \<Rightarrow> ustr" where
  "the_str (JStr s) = s"
| "the_str _ = []"

text \<open>\<open>d.get(name)\<close> of a dictionary, \<open>None\<close> when the member is absent.\<close>

fun dict_get :: "json \<Rightarrow> ustr \<Rightarrow> json option" where
  "dict_get (JDict d) k = map_of d k"
| "dict_get _ k = None"

abbreviation get_lit :: "json \<Rightarrow> string \<Rightarrow> json option" where
  "get_lit v k \<equiv> dict_get v (lit k)"

text \<open>
  \<open>d[name]\<close>: \<open>KeyError\<close> when absent, \<open>TypeError\<close> when the value has no string
  subscript.
\<close>

fun subscript :: "json \<Rightarrow> ustr \<Rightarrow> exn + json" where
  "subscript (JDict d) k =
     (case map_of d k of Some v \<Rightarrow> Inr v | None \<Rightarrow> Inl (PyErr PyKeyError k))"
| "subscript _ k = Inl (PyErr PyTypeError (lit ''not subscriptable with a string''))"

abbreviation sub_lit :: "json \<Rightarrow> string \<Rightarrow> exn + json" where
  "sub_lit v k \<equiv> subscript v (lit k)"

fun items :: "json \<Rightarrow> (ustr \<times> json) list" where
  "items (JDict d) = d"
| "items _ = []"

text \<open>\<open>{key: member for key, member in value.items() if key != name}\<close>.\<close>

definition json_without :: "string \<Rightarrow> json \<Rightarrow> json" where
  "json_without k v = JDict (dwithout (lit k) (items v))"

text \<open>Python truth of a value, as \<open>not v\<close> and \<open>v or w\<close> test it.\<close>

fun truthy :: "json \<Rightarrow> bool" where
  "truthy JNull = False"
| "truthy (JBool b) = b"
| "truthy (JInt i) = (i \<noteq> 0)"
| "truthy (JStr s) = (s \<noteq> [])"
| "truthy (JList vs) = (vs \<noteq> [])"
| "truthy (JDict d) = (d \<noteq> [])"

section \<open>Python equality\<close>

text \<open>
  \<open>==\<close> compares a boolean as the integer 0 or 1, at every depth, and dictionaries
  without their order.
\<close>

fun num_of :: "json \<Rightarrow> int option" where
  "num_of (JBool b) = Some (if b then 1 else 0)"
| "num_of (JInt i) = Some i"
| "num_of _ = None"

function (sequential) py_eq :: "json \<Rightarrow> json \<Rightarrow> bool" where
  "py_eq (JList vs) (JList ws) =
     (length vs = length ws \<and> (\<forall>(v, w) \<in> set (zip vs ws). py_eq v w))"
| "py_eq (JDict d) (JDict e) =
     (length d = length e \<and>
      (\<forall>(k, v) \<in> set d. case map_of e k of None \<Rightarrow> False | Some w \<Rightarrow> py_eq v w))"
| "py_eq (JStr s) (JStr t) = (s = t)"
| "py_eq JNull JNull = True"
| "py_eq v w = (num_of v \<noteq> None \<and> num_of v = num_of w)"
  by pat_completeness auto
termination
proof (relation "measure (\<lambda>(v, w). size v)", goal_cases)
  case (2 vs ws x v w)
  then have "v \<in> set vs" by (auto dest: set_zip_leftD)
  then show ?case by (auto dest: size_list_estimation' [where f = size, OF _ order_refl])
next
  case (3 d e x k v w)
  then have "(k, v) \<in> set d" by auto
  then have "size_prod (\<lambda>x. 0) size (k, v) < Suc (size_list (size_prod (\<lambda>x. 0) size) d)"
    by (meson le_imp_less_Suc order_refl size_list_estimation')
  then show ?case by simp
qed auto

section \<open>Well-formed values\<close>

text \<open>
  What Python guarantees of every \<open>str\<close> and \<open>dict\<close>: code points below
  \<open>0x110000\<close>, and one entry per key.
\<close>

definition wf_str :: "ustr \<Rightarrow> bool" where
  "wf_str s \<longleftrightarrow> list_all (\<lambda>c. c < 1114112) s"

fun wf_json :: "json \<Rightarrow> bool" where
  "wf_json (JStr s) = wf_str s"
| "wf_json (JList vs) = (\<forall>v \<in> set vs. wf_json v)"
| "wf_json (JDict d) =
     (distinct (keys d) \<and> (\<forall>(k, v) \<in> set d. wf_str k \<and> wf_json v))"
| "wf_json _ = True"

text \<open>The container nesting of a value, as the depth check of the loader counts it.\<close>

fun jdepth :: "json \<Rightarrow> nat" where
  "jdepth (JList vs) = Suc (foldr max (map jdepth vs) 0)"
| "jdepth (JDict d) = Suc (foldr max (map (\<lambda>(k, v). jdepth v) d) 0)"
| "jdepth _ = 0"

text \<open>Keys sorted by code point at every level.\<close>

fun sort_json :: "json \<Rightarrow> json" where
  "sort_json (JList vs) = JList (map sort_json vs)"
| "sort_json (JDict d) = JDict (sort_key fst (map (\<lambda>(k, v). (k, sort_json v)) d))"
| "sort_json v = v"

lemma wf_lit [simp]: "wf_str (lit s)"
  unfolding wf_str_def list_all_iff using lit_code_points [of _ s] by fastforce

lemma wf_dict_get: "wf_json v \<Longrightarrow> dict_get v k = Some w \<Longrightarrow> wf_json w"
  by (cases v) (auto dest!: map_of_SomeD)

lemma insort_key_map_snd:
  "insort_key fst (k, f v) (map (\<lambda>(k, v). (k, f v)) d)
     = map (\<lambda>(k, v). (k, f v)) (insort_key fst (k, v) d)"
  by (induction d) auto

lemma sort_key_map_snd:
  "sort_key fst (map (\<lambda>(k, v). (k, f v)) d) = map (\<lambda>(k, v). (k, f v)) (sort_key fst d)"
  by (induction d) (auto simp: insort_key_map_snd)

lemma keys_map_snd [simp]: "keys (map (\<lambda>(k, v). (k, f v)) d) = keys d"
  by (induction d) (auto simp: keys_def)

lemma sort_json_dict: "sort_json (JDict d) = JDict (map (\<lambda>(k, v). (k, sort_json v)) (sort_key fst d))"
  by (simp add: sort_key_map_snd)

lemma jdepth_child:
  "(k, w) \<in> set d \<Longrightarrow> Suc (jdepth w) \<le> jdepth (JDict d)"
  "w \<in> set vs \<Longrightarrow> Suc (jdepth w) \<le> jdepth (JList vs)"
  by (force intro!: foldr_max_ge)+

end
