(* ===== verification/Utf8.thy ===== *)
theory Utf8
  imports Values
begin

text \<open>
  Strict UTF-8, as \<open>str.encode("utf-8")\<close> and \<open>bytes.decode("utf-8")\<close> of the standard
  library do it: a surrogate cannot be encoded, and decoding refuses overlong forms,
  surrogates and values above \<open>0x10FFFF\<close>.
\<close>

definition is_surrogate :: "nat \<Rightarrow> bool" where
  "is_surrogate c \<longleftrightarrow> 55296 \<le> c \<and> c \<le> 57343"

definition encode_char :: "nat \<Rightarrow> bytes" where
  "encode_char c =
     (if c < 128 then [c]
      else if c < 2048 then [192 + c div 64, 128 + c mod 64]
      else if c < 65536 then [224 + c div 4096, 128 + c div 64 mod 64, 128 + c mod 64]
      else [240 + c div 262144, 128 + c div 4096 mod 64, 128 + c div 64 mod 64, 128 + c mod 64])"

text \<open>\<open>None\<close> is \<open>UnicodeEncodeError\<close>.\<close>

fun utf8_encode :: "ustr \<Rightarrow> bytes option" where
  "utf8_encode [] = Some []"
| "utf8_encode (c # s) =
     (if is_surrogate c then None else map_option ((@) (encode_char c)) (utf8_encode s))"

definition is_cont :: "nat \<Rightarrow> bool" where
  "is_cont b \<longleftrightarrow> 128 \<le> b \<and> b < 192"

text \<open>One character off the front: its code point and what is left; \<open>None\<close> when malformed.\<close>

fun decode_char :: "bytes \<Rightarrow> (nat \<times> bytes) option" where
  "decode_char [] = None"
| "decode_char (b # bs) =
     (if b < 128 then Some (b, bs)
      else if 194 \<le> b \<and> b < 224 then
        (case bs of
           b1 # r \<Rightarrow> if is_cont b1 then Some ((b - 192) * 64 + (b1 - 128), r) else None
         | _ \<Rightarrow> None)
      else if 224 \<le> b \<and> b < 240 then
        (case bs of
           b1 # b2 # r \<Rightarrow>
             let c = (b - 224) * 4096 + (b1 - 128) * 64 + (b2 - 128)
             in if is_cont b1 \<and> is_cont b2 \<and> 2048 \<le> c \<and> \<not> is_surrogate c then Some (c, r) else None
         | _ \<Rightarrow> None)
      else if 240 \<le> b \<and> b < 245 then
        (case bs of
           b1 # b2 # b3 # r \<Rightarrow>
             let c = (b - 240) * 262144 + (b1 - 128) * 4096 + (b2 - 128) * 64 + (b3 - 128)
             in if is_cont b1 \<and> is_cont b2 \<and> is_cont b3 \<and> 65536 \<le> c \<and> c < 1114112
                then Some (c, r) else None
         | _ \<Rightarrow> None)
      else None)"

lemma decode_char_shorter: "decode_char bs = Some (c, r) \<Longrightarrow> length r < length bs"
  by (cases bs) (auto simp: Let_def split: if_splits list.splits)

text \<open>\<open>None\<close> is \<open>UnicodeDecodeError\<close>.\<close>

function utf8_decode :: "bytes \<Rightarrow> ustr option" where
  "utf8_decode bs =
     (if bs = [] then Some []
      else case decode_char bs of
             None \<Rightarrow> None
           | Some (c, r) \<Rightarrow> map_option ((#) c) (utf8_decode r))"
  by pat_completeness auto
termination
  by (relation "measure length") (auto dest: decode_char_shorter)

declare utf8_decode.simps [simp del]

text \<open>A text with no surrogate, all of whose code points exist.\<close>

definition scalar_text :: "ustr \<Rightarrow> bool" where
  "scalar_text s \<longleftrightarrow> list_all (\<lambda>c. c < 1114112 \<and> \<not> is_surrogate c) s"

lemma split_3: "c div 4096 * 4096 + c div 64 mod 64 * 64 + c mod 64 = (c::nat)"
proof -
  have "c div 4096 = c div 64 div 64" by (simp flip: div_mult2_eq)
  moreover have "c div 64 div 64 * 64 + c div 64 mod 64 = c div 64" "c div 64 * 64 + c mod 64 = c"
    by simp_all
  ultimately show ?thesis by linarith
qed

lemma split_4:
  "c div 262144 * 262144 + c div 4096 mod 64 * 4096 + c div 64 mod 64 * 64 + c mod 64 = (c::nat)"
proof -
  have "c div 262144 = c div 4096 div 64" by (simp flip: div_mult2_eq)
  moreover have "c div 4096 div 64 * 64 + c div 4096 mod 64 = c div 4096" by simp
  ultimately show ?thesis using split_3 [of c] by linarith
qed

lemma is_cont_mod [simp]: "is_cont (128 + c mod 64)"
  by (simp add: is_cont_def)

lemma decode_encode_char:
  assumes "c < 1114112" and "\<not> is_surrogate c"
  shows "decode_char (encode_char c @ r) = Some (c, r)"
proof -
  consider "c < 128" | "128 \<le> c" "c < 2048" | "2048 \<le> c" "c < 65536" | "65536 \<le> c"
    by linarith
  then show ?thesis
  proof cases
    case 2
    then have "2 \<le> c div 64" "c div 64 < 32" by auto
    with 2 show ?thesis by (simp add: encode_char_def is_cont_def)
  next
    case 3
    from 3 have lo: "c div 4096 < 16" by auto
    from 3 have "encode_char c = [224 + c div 4096, 128 + c div 64 mod 64, 128 + c mod 64]"
      by (simp add: encode_char_def)
    with 3 lo assms split_3 [of c] show ?thesis by (simp add: Let_def)
  next
    case 4
    from assms have lo: "c div 262144 < 5" by auto
    from 4 have "encode_char c = [240 + c div 262144, 128 + c div 4096 mod 64,
        128 + c div 64 mod 64, 128 + c mod 64]"
      by (simp add: encode_char_def)
    with 4 lo assms split_4 [of c] show ?thesis by (simp add: Let_def)
  qed (simp add: encode_char_def)
qed

lemma encode_char_not_Nil [simp]: "encode_char c \<noteq> []"
  by (simp add: encode_char_def)

text \<open>Every scalar text is encodable, and decoding gives it back.\<close>

lemma utf8_encode_scalar: "scalar_text s \<Longrightarrow> utf8_encode s = Some (concat (map encode_char s))"
  by (induction s) (auto simp: scalar_text_def)

lemma utf8_roundtrip:
  "scalar_text s \<Longrightarrow> utf8_decode (concat (map encode_char s)) = Some s"
proof (induction s)
  case Nil
  then show ?case by (simp add: utf8_decode.simps)
next
  case (Cons c s)
  then have "decode_char (encode_char c @ concat (map encode_char s)) = Some (c, concat (map encode_char s))"
    by (intro decode_encode_char) (auto simp: scalar_text_def)
  with Cons show ?case
    by (subst utf8_decode.simps) (auto simp: scalar_text_def)
qed

lemma utf8_encode_None_iff: "utf8_encode s = None \<longleftrightarrow> (\<exists>c \<in> set s. is_surrogate c)"
  by (induction s) auto

lemma utf8_encode_inj:
  assumes "utf8_encode s = Some b" and "utf8_encode t = Some b"
    and "wf_str s" and "wf_str t"
  shows "s = t"
proof -
  have sc: "scalar_text x" if "utf8_encode x = Some b" "wf_str x" for x
    using that utf8_encode_None_iff [of x]
    by (auto simp: scalar_text_def wf_str_def list_all_iff)
  from assms sc have "scalar_text s" "scalar_text t" by blast+
  with assms utf8_roundtrip utf8_encode_scalar show ?thesis by (metis option.inject)
qed

text \<open>What is encoded is bytes.\<close>

lemma encode_char_bytes: "c < 1114112 \<Longrightarrow> b \<in> set (encode_char c) \<Longrightarrow> b < 256"
  by (auto simp: encode_char_def split: if_splits)

end
