(* ===== verification/Canon.thy ===== *)
theory Canon
  imports Utf8
begin

text \<open>
  \<^verbatim>\<open>src/vfy/canon.py\<close>: the canonical text of a value, its UTF-8 bytes and digest, and the
  one accepted spelling of a signature. \<open>canonicalize\<close> is the source's explicit work stack;
  \<open>render\<close> is the recursive walk it stands for, and \<open>canonicalize_eq_render\<close> says that
  they agree on every value, on the failure reported included. \<open>hashlib.sha256\<close> is the
  argument \<open>H\<close>, a function from bytes to hexadecimal text.
\<close>

section \<open>Python values handed to the canonicalizer\<close>

text \<open>
  The canonicalizer is the place where values outside the model are refused, so its input is
  wider than \<open>json\<close>: floats, dictionaries with any keys, and objects of other classes (with
  their class name).
\<close>

datatype pyval =
    PNone
  | PBool bool
  | PFloat
  | PInt int
  | PStr ustr
  | PList "pyval list"
  | PDict "(pyval \<times> pyval) list"
  | POther ustr

fun type_name :: "pyval \<Rightarrow> ustr" where
  "type_name PNone = lit ''NoneType''"
| "type_name (PBool _) = lit ''bool''"
| "type_name PFloat = lit ''float''"
| "type_name (PInt _) = lit ''int''"
| "type_name (PStr _) = lit ''str''"
| "type_name (PList _) = lit ''list''"
| "type_name (PDict _) = lit ''dict''"
| "type_name (POther n) = n"

fun py_is_str :: "pyval \<Rightarrow> bool" where
  "py_is_str (PStr _) = True"
| "py_is_str _ = False"

fun py_the_str :: "pyval \<Rightarrow> ustr" where
  "py_the_str (PStr s) = s"
| "py_the_str _ = []"

text \<open>The embedding of the value model.\<close>

fun py :: "json \<Rightarrow> pyval" where
  "py JNull = PNone"
| "py (JBool b) = PBool b"
| "py (JInt i) = PInt i"
| "py (JStr s) = PStr s"
| "py (JList vs) = PList (map py vs)"
| "py (JDict d) = PDict (map (\<lambda>(k, v). (PStr k, py v)) d)"

section \<open>Text of leaves\<close>

definition max_safe_integer :: int where
  "max_safe_integer = 2 ^ 53 - 1"

definition min_safe_integer :: int where
  "min_safe_integer = - (2 ^ 53 - 1)"

definition integer_text :: "int \<Rightarrow> exn + ustr" where
  "integer_text value =
     (if value < min_safe_integer \<or> value > max_safe_integer
      then fail CanonicalFormInvalid ''Integer outside the range every implementation holds exactly.''
      else Inr (int_str value))"

definition named_escape :: "nat \<Rightarrow> ustr option" where
  "named_escape c =
     (if c = 34 then Some [92, 34]
      else if c = 92 then Some [92, 92]
      else if c = 8 then Some [92, 98]
      else if c = 9 then Some [92, 116]
      else if c = 10 then Some [92, 110]
      else if c = 12 then Some [92, 102]
      else if c = 13 then Some [92, 114]
      else None)"

definition hex_digit :: "nat \<Rightarrow> nat" where
  "hex_digit n = (if n < 10 then 48 + n else 87 + n)"

text \<open>\<open>"\\u%04x" % c\<close> for \<open>c < 0x10000\<close>.\<close>

definition unicode_escape :: "nat \<Rightarrow> ustr" where
  "unicode_escape c =
     [92, 117, hex_digit (c div 4096), hex_digit (c div 256 mod 16),
      hex_digit (c div 16 mod 16), hex_digit (c mod 16)]"

definition surrogate_failure :: exn where
  "surrogate_failure =
     VErr SurrogateNotPermitted (lit ''A string may not carry a code point in U+D800-U+DFFF.'') NoDetail"

definition char_text :: "nat \<Rightarrow> exn + ustr" where
  "char_text c =
     (case named_escape c of
        Some escape \<Rightarrow> Inr escape
      | None \<Rightarrow>
          if c < 32 then Inr (unicode_escape c)
          else if is_surrogate c then Inl surrogate_failure
          else Inr [c])"

definition string_text :: "ustr \<Rightarrow> exn + ustr" where
  "string_text value =
     bindE (mapE char_text value) (\<lambda>pieces. Inr ([34] @ concat pieces @ [34]))"

section \<open>The work stack\<close>

datatype frame = FText ustr | FValue pyval | FKey ustr

fun comma_frames :: "frame list list \<Rightarrow> frame list" where
  "comma_frames [] = []"
| "comma_frames [fs] = fs"
| "comma_frames (fs # gs # fss) = fs @ FText (lit '','') # comma_frames (gs # fss)"

definition array_frames :: "pyval list \<Rightarrow> frame list" where
  "array_frames value =
     FText (lit ''['') # comma_frames (map (\<lambda>item. [FValue item]) value) @ [FText (lit '']'')]"

text \<open>The members of a dictionary in the order of \<open>sorted(value)\<close>.\<close>

definition sorted_members :: "(pyval \<times> pyval) list \<Rightarrow> (ustr \<times> pyval) list" where
  "sorted_members d = sort_key fst (map (\<lambda>(k, v). (py_the_str k, v)) d)"

definition object_frames :: "(pyval \<times> pyval) list \<Rightarrow> exn + frame list" where
  "object_frames value =
     (case find (\<lambda>(k, v). \<not> py_is_str k) value of
        Some (k, v) \<Rightarrow>
          fail_with CanonicalFormInvalid ''Object keys are always strings; got '' (type_name k @ lit ''.'')
      | None \<Rightarrow>
          Inr (FText (lit ''{'')
               # comma_frames (map (\<lambda>(k, v). [FKey k, FValue v]) (sorted_members value))
               @ [FText (lit ''}'')]))"

fun frame_weight :: "frame \<Rightarrow> nat" where
  "frame_weight (FText _) = 1"
| "frame_weight (FKey _) = 1"
| "frame_weight (FValue v) = 4 * size v + 1"

abbreviation stack_weight :: "frame list \<Rightarrow> nat" where
  "stack_weight st \<equiv> sum_list (map frame_weight st)"

lemma comma_frames_weight:
  "stack_weight (comma_frames fss) + 1 \<le> sum_list (map (\<lambda>fs. stack_weight fs + 1) fss) + 1"
  by (induction fss rule: comma_frames.induct) auto

lemma size_list_sum: "size_list f xs = sum_list (map (\<lambda>x. Suc (f x)) xs)"
  by (induction xs) auto

lemma array_frames_weight: "stack_weight (array_frames vs) < 4 * size (PList vs) + 1"
proof -
  have "stack_weight (comma_frames (map (\<lambda>v. [FValue v]) vs)) \<le> sum_list (map (\<lambda>v. 4 * size v + 2) vs)"
    using comma_frames_weight [of "map (\<lambda>v. [FValue v]) vs"] by (simp add: comp_def)
  also have "\<dots> \<le> 4 * size_list size vs"
    unfolding size_list_sum by (induction vs) auto
  finally show ?thesis by (simp add: array_frames_def)
qed

lemma sum_list_sort_key: "sum_list (map f (sort_key g xs)) = sum_list (map f (xs :: 'a list))" for f :: "'a \<Rightarrow> nat"
  by (metis mset_map mset_sort sum_mset_sum_list)

lemma object_frames_weight:
  assumes "object_frames d = Inr fs"
  shows "stack_weight fs < 4 * size (PDict d) + 1"
proof -
  let ?m = "sorted_members d"
  have fs: "fs = FText (lit ''{'') # comma_frames (map (\<lambda>(k, v). [FKey k, FValue v]) ?m) @ [FText (lit ''}'')]"
    using assms by (auto simp: object_frames_def split: option.splits)
  have "stack_weight (comma_frames (map (\<lambda>(k, v). [FKey k, FValue v]) ?m))
      \<le> sum_list (map (\<lambda>(k, v). 4 * size v + 3) ?m)"
    using comma_frames_weight [of "map (\<lambda>(k, v). [FKey k, FValue v]) ?m"]
    by (simp add: comp_def case_prod_unfold numeral_3_eq_3)
  also have "\<dots> = sum_list (map (\<lambda>(k, v). 4 * size v + 3) (map (\<lambda>(k, v). (py_the_str k, v)) d))"
    unfolding sorted_members_def by (rule sum_list_sort_key)
  also have "\<dots> \<le> 4 * size_list (size_prod size size) d"
    unfolding size_list_sum by (induction d) auto
  finally show ?thesis by (simp add: fs)
qed

text \<open>
  The loop of \<open>canonicalize\<close>: pop a frame, emit its text or push the frames it expands to.
  The stack's top is the head of the list, so frames are pushed in document order.
\<close>

function canon_loop :: "frame list \<Rightarrow> ustr list \<Rightarrow> exn + ustr list" where
  "canon_loop [] out = Inr out"
| "canon_loop (FText t # st) out = canon_loop st (out @ [t])"
| "canon_loop (FKey k # st) out =
     bindE (string_text k) (\<lambda>t. canon_loop st (out @ [t @ lit '':'']))"
| "canon_loop (FValue item # st) out =
     (case item of
        PNone \<Rightarrow> canon_loop st (out @ [lit ''null''])
      | PBool b \<Rightarrow> canon_loop st (out @ [if b then lit ''true'' else lit ''false''])
      | PFloat \<Rightarrow>
          fail FloatNotPermitted ''A float is never valid input; carry non-integer numbers as canonical decimal strings.''
      | PInt i \<Rightarrow> bindE (integer_text i) (\<lambda>t. canon_loop st (out @ [t]))
      | PStr s \<Rightarrow> bindE (string_text s) (\<lambda>t. canon_loop st (out @ [t]))
      | PList vs \<Rightarrow> canon_loop (array_frames vs @ st) out
      | PDict d \<Rightarrow> bindE (object_frames d) (\<lambda>fs. canon_loop (fs @ st) out)
      | POther n \<Rightarrow>
          fail_with CanonicalFormInvalid ''Only JSON's own types are canonicalizable; got '' (n @ lit ''.''))"
  by pat_completeness auto
termination
proof (relation "measure (\<lambda>(st, out). stack_weight st)", goal_cases)
  case (8 item st out vs)
  then show ?case using array_frames_weight [of vs] by simp
next
  case (9 item st out d fs)
  then show ?case using object_frames_weight [of d fs] by simp
qed auto

definition canonicalize :: "pyval \<Rightarrow> exn + ustr" where
  "canonicalize value = bindE (canon_loop [FValue value] []) (\<lambda>out. Inr (concat out))"

section \<open>The recursive reading\<close>

fun intersperse_comma :: "ustr list \<Rightarrow> ustr" where
  "intersperse_comma [] = []"
| "intersperse_comma [t] = t"
| "intersperse_comma (t # u # ts) = t @ lit '','' @ intersperse_comma (u # ts)"

function render :: "pyval \<Rightarrow> exn + ustr" where
  "render PNone = Inr (lit ''null'')"
| "render (PBool b) = Inr (if b then lit ''true'' else lit ''false'')"
| "render PFloat =
     fail FloatNotPermitted ''A float is never valid input; carry non-integer numbers as canonical decimal strings.''"
| "render (PInt i) = integer_text i"
| "render (PStr s) = string_text s"
| "render (PList vs) =
     bindE (mapE render vs) (\<lambda>ts. Inr (lit ''['' @ intersperse_comma ts @ lit '']''))"
| "render (PDict d) =
     (case find (\<lambda>(k, v). \<not> py_is_str k) d of
        Some (k, v) \<Rightarrow>
          fail_with CanonicalFormInvalid ''Object keys are always strings; got '' (type_name k @ lit ''.'')
      | None \<Rightarrow>
          bindE (mapE (\<lambda>(k, v). bindE (string_text k) (\<lambda>kt. bindE (render v) (\<lambda>vt. Inr (kt @ lit '':'' @ vt))))
                      (sorted_members d))
                (\<lambda>ts. Inr (lit ''{'' @ intersperse_comma ts @ lit ''}'')))"
| "render (POther n) =
     fail_with CanonicalFormInvalid ''Only JSON's own types are canonicalizable; got '' (n @ lit ''.'')"
  by pat_completeness auto
termination
proof (relation "measure size", goal_cases)
  case (2 vs v)
  then show ?case by (auto dest: size_list_estimation' [where f = size, OF _ order_refl])
next
  case (3 d x k v kt)
  then have "(k, v) \<in> (\<lambda>(k, v). (py_the_str k, v)) ` set d"
    by (auto simp: sorted_members_def)
  then obtain k' where "(k', v) \<in> set d" by auto
  then have "size_prod size size (k', v) \<le> size_list (size_prod size size) d"
    by (meson order_refl size_list_estimation')
  then show ?case by simp
qed auto

text \<open>What a stack of frames will emit, frame by frame.\<close>

fun frame_text :: "frame \<Rightarrow> exn + ustr" where
  "frame_text (FText t) = Inr t"
| "frame_text (FKey k) = bindE (string_text k) (\<lambda>t. Inr (t @ lit '':''))"
| "frame_text (FValue v) = render v"

definition stack_text :: "frame list \<Rightarrow> exn + ustr" where
  "stack_text st = bindE (mapE frame_text st) (\<lambda>ts. Inr (concat ts))"

lemma mapE_append:
  "mapE f (xs @ ys) = bindE (mapE f xs) (\<lambda>us. bindE (mapE f ys) (\<lambda>vs. Inr (us @ vs)))"
  by (induction xs) (simp_all add: bindE_assoc)

lemma stack_text_Nil [simp]: "stack_text [] = Inr []"
  by (simp add: stack_text_def)

lemma stack_text_Cons [simp]:
  "stack_text (fr # st) = bindE (frame_text fr) (\<lambda>t. bindE (stack_text st) (\<lambda>u. Inr (t @ u)))"
  by (simp add: stack_text_def bindE_assoc)

lemma stack_text_append:
  "stack_text (st @ st') = bindE (stack_text st) (\<lambda>t. bindE (stack_text st') (\<lambda>u. Inr (t @ u)))"
  by (induction st) (simp_all add: bindE_assoc)

lemma stack_text_comma:
  "stack_text (comma_frames fss) = bindE (mapE stack_text fss) (\<lambda>ts. Inr (intersperse_comma ts))"
proof (induction fss rule: comma_frames.induct)
  case (3 fs gs fss)
  then show ?case by (auto simp: stack_text_append bindE_def split: sum.splits)
qed (simp_all add: bindE_assoc)

lemma mapE_map: "mapE f (map g xs) = mapE (f \<circ> g) xs"
  by (induction xs) auto

lemma stack_text_array: "stack_text (array_frames vs) = render (PList vs)"
proof -
  have "mapE (stack_text \<circ> (\<lambda>v. [FValue v])) vs = mapE render vs"
    by (rule mapE_cong) (auto simp: bindE_assoc)
  then show ?thesis
    by (simp add: array_frames_def stack_text_append stack_text_comma mapE_map bindE_assoc)
qed

lemma stack_text_object:
  "bindE (object_frames d) stack_text = render (PDict d)"
proof -
  have "mapE (stack_text \<circ> (\<lambda>(k, v). [FKey k, FValue v])) m
      = mapE (\<lambda>(k, v). bindE (string_text k) (\<lambda>kt. bindE (render v) (\<lambda>vt. Inr (kt @ lit '':'' @ vt)))) m" for m
    by (rule mapE_cong) (auto simp: bindE_assoc)
  then show ?thesis
    by (simp add: object_frames_def stack_text_append stack_text_comma mapE_map bindE_assoc
        split: option.splits)
qed

lemma canon_loop_stack_text:
  "bindE (canon_loop st out) (\<lambda>ps. Inr (concat ps))
     = bindE (stack_text st) (\<lambda>t. Inr (concat out @ t))"
proof (induction st out rule: canon_loop.induct)
  case (4 item st out)
  show ?case
  proof (cases item)
    case (PList vs)
    with 4 show ?thesis by (simp add: stack_text_append stack_text_array bindE_assoc)
  next
    case (PDict d)
    show ?thesis
    proof (cases "object_frames d")
      case (Inl e)
      with PDict stack_text_object [of d] show ?thesis by (simp del: render.simps) (metis bindE_simps(1))
    next
      case (Inr fs)
      with PDict stack_text_object [of d] have "stack_text fs = render item" by simp
      moreover from 4(6) [OF PDict Inr] PDict Inr
      have "bindE (canon_loop (FValue item # st) out) (\<lambda>ps. Inr (concat ps))
          = bindE (stack_text (fs @ st)) (\<lambda>t. Inr (concat out @ t))" by simp
      ultimately show ?thesis by (simp add: stack_text_append bindE_assoc)
    qed
  next
    case (PInt i)
    with 4 show ?thesis by (cases "integer_text i") (simp_all add: bindE_assoc)
  next
    case (PStr s)
    with 4 show ?thesis by (cases "string_text s") (simp_all add: bindE_assoc)
  qed (use 4 in \<open>simp_all add: bindE_assoc\<close>)
next
  case (3 k st out)
  then show ?case by (cases "string_text k") (simp_all add: bindE_assoc)
qed (simp_all add: bindE_assoc)

theorem canonicalize_eq_render: "canonicalize v = render v"
  using canon_loop_stack_text [of "[FValue v]" "[]"] by (simp add: canonicalize_def bindE_assoc)

section \<open>Bytes and digests\<close>

definition utf8_bytes :: "ustr \<Rightarrow> exn + bytes" where
  "utf8_bytes t =
     (case utf8_encode t of
        Some b \<Rightarrow> Inr b
      | None \<Rightarrow> Inl (PyErr PyValueError (lit ''surrogates not allowed'')))"

definition canonical_bytes :: "pyval \<Rightarrow> exn + bytes" where
  "canonical_bytes value = bindE (canonicalize value) utf8_bytes"

definition hex_digest_of_text :: "(bytes \<Rightarrow> ustr) \<Rightarrow> ustr \<Rightarrow> exn + ustr" where
  "hex_digest_of_text H t =
     (case utf8_encode t of
        None \<Rightarrow> Inl surrogate_failure
      | Some encoded \<Rightarrow> Inr (H encoded))"

definition digest :: "(bytes \<Rightarrow> ustr) \<Rightarrow> json \<Rightarrow> exn + ustr" where
  "digest H value = bindE (canonical_bytes (py value)) (\<lambda>b. Inr (lit ''sha256:'' @ H b))"

abbreviation canon_json :: "json \<Rightarrow> exn + ustr" where
  "canon_json v \<equiv> canonicalize (py v)"

section \<open>Canonical text of the value model\<close>

text \<open>
  On the value model the canonical text is a total function of an acceptable value:
  \<open>canon_ok\<close> is acceptance, \<open>jtext\<close> the text.
\<close>

definition quoted :: "ustr \<Rightarrow> ustr" where
  "quoted s = [34] @ concat (map (\<lambda>c. case char_text c of Inr t \<Rightarrow> t | Inl _ \<Rightarrow> []) s) @ [34]"

definition safe_int :: "int \<Rightarrow> bool" where
  "safe_int i \<longleftrightarrow> min_safe_integer \<le> i \<and> i \<le> max_safe_integer"

definition no_surrogate :: "ustr \<Rightarrow> bool" where
  "no_surrogate s \<longleftrightarrow> (\<forall>c \<in> set s. \<not> is_surrogate c)"

fun canon_ok :: "json \<Rightarrow> bool" where
  "canon_ok (JInt i) = safe_int i"
| "canon_ok (JStr s) = no_surrogate s"
| "canon_ok (JList vs) = (\<forall>v \<in> set vs. canon_ok v)"
| "canon_ok (JDict d) = (\<forall>(k, v) \<in> set d. no_surrogate k \<and> canon_ok v)"
| "canon_ok _ = True"

fun jtext :: "json \<Rightarrow> ustr" where
  "jtext JNull = lit ''null''"
| "jtext (JBool b) = (if b then lit ''true'' else lit ''false'')"
| "jtext (JInt i) = int_str i"
| "jtext (JStr s) = quoted s"
| "jtext (JList vs) = lit ''['' @ intersperse_comma (map jtext vs) @ lit '']''"
| "jtext (JDict d) =
     lit ''{''
     @ intersperse_comma (map (\<lambda>(k, t). quoted k @ lit '':'' @ t)
         (sort_key fst (map (\<lambda>(k, v). (k, jtext v)) d)))
     @ lit ''}''"

lemma char_text_ok: "\<not> is_surrogate c \<Longrightarrow> \<exists>t. char_text c = Inr t"
  by (auto simp: char_text_def split: option.splits)

lemma char_text_surrogate: "is_surrogate c \<Longrightarrow> char_text c = Inl surrogate_failure"
  by (auto simp: char_text_def named_escape_def is_surrogate_def split: option.splits if_splits)

lemma string_text_ok: "no_surrogate s \<Longrightarrow> string_text s = Inr (quoted s)"
proof -
  assume "no_surrogate s"
  then have "mapE char_text s = Inr (map (\<lambda>c. case char_text c of Inr t \<Rightarrow> t | Inl _ \<Rightarrow> []) s)"
    by (intro mapE_Inr) (use char_text_ok in \<open>fastforce simp: no_surrogate_def\<close>)
  then show ?thesis by (simp add: string_text_def quoted_def)
qed

lemma string_text_bad: "\<not> no_surrogate s \<Longrightarrow> string_text s = Inl surrogate_failure"
proof -
  assume "\<not> no_surrogate s"
  then have "mapE char_text s = Inl surrogate_failure"
  proof (induction s)
    case (Cons c s)
    then show ?case
      using char_text_ok [of c] char_text_surrogate [of c] by (cases "is_surrogate c") (auto simp: no_surrogate_def)
  qed (simp add: no_surrogate_def)
  then show ?thesis by (simp add: string_text_def)
qed

lemma integer_text_ok: "integer_text i = Inr t \<longleftrightarrow> safe_int i \<and> t = int_str i"
  by (auto simp: integer_text_def safe_int_def)

lemma sorted_members_py:
  "sorted_members (map (\<lambda>(k, v). (PStr k, py v)) d) = map (\<lambda>(k, v). (k, py v)) (sort_key fst d)"
proof -
  have "map (\<lambda>(k, v). (py_the_str k, v)) (map (\<lambda>(k, v). (PStr k, py v)) d)
      = map (\<lambda>(k, v). (k, py v)) d"
    by (induction d) auto
  then show ?thesis by (simp only: sorted_members_def sort_key_map_snd)
qed

lemma render_py_dict:
  "render (py (JDict d)) =
     bindE (mapE (\<lambda>(k, v). bindE (string_text k) (\<lambda>kt. bindE (render (py v)) (\<lambda>vt. Inr (kt @ lit '':'' @ vt))))
                 (sort_key fst d))
           (\<lambda>ts. Inr (lit ''{'' @ intersperse_comma ts @ lit ''}''))"
proof -
  have "find (\<lambda>(k, v). \<not> py_is_str k) (map (\<lambda>(k, v). (PStr k, py v)) d) = None"
    by (auto simp: find_None_iff)
  moreover have "mapE (\<lambda>(k, v). bindE (string_text k) (\<lambda>kt. bindE (render v) (\<lambda>vt. Inr (kt @ lit '':'' @ vt))))
      (map (\<lambda>(k, v). (k, py v)) e)
    = mapE (\<lambda>(k, v). bindE (string_text k) (\<lambda>kt. bindE (render (py v)) (\<lambda>vt. Inr (kt @ lit '':'' @ vt)))) e" for e
    unfolding mapE_map by (rule mapE_cong) auto
  ultimately show ?thesis by (simp add: sorted_members_py)
qed

lemma render_py_ok: "canon_ok v \<Longrightarrow> render (py v) = Inr (jtext v)"
proof (induction v rule: jtext.induct)
  case (5 vs)
  then have "mapE render (map py vs) = Inr (map jtext vs)"
    unfolding mapE_map by (intro mapE_Inr) auto
  then show ?case by simp
next
  case (6 d)
  have "mapE (\<lambda>(k, v). bindE (string_text k) (\<lambda>kt. bindE (render (py v)) (\<lambda>vt. Inr (kt @ lit '':'' @ vt))))
      (sort_key fst d) = Inr (map (\<lambda>(k, v). quoted k @ lit '':'' @ jtext v) (sort_key fst d))"
    using 6 by (intro mapE_Inr) (auto simp: string_text_ok)
  then show ?case
    unfolding render_py_dict sort_key_map_snd jtext.simps by (simp add: comp_def case_prod_unfold)
qed (auto simp: integer_text_ok string_text_ok)

lemma string_text_Inr: "string_text s = Inr t \<Longrightarrow> no_surrogate s"
  using string_text_bad [of s] by fastforce

lemma render_py_Inr: "render (py v) = Inr t \<Longrightarrow> canon_ok v"
proof (induction v arbitrary: t rule: jtext.induct)
  case (5 vs)
  then obtain ts where "mapE render (map py vs) = Inr ts"
    by (auto simp: bindE_Inr_iff)
  then have "\<exists>t. render (py v) = Inr t" if "v \<in> set vs" for v
    using that mapE_each [of render "map py vs" ts "py v"] by auto
  with 5(1) have "\<forall>v \<in> set vs. canon_ok v" by blast
  then show ?case by simp
next
  case (6 d)
  let ?f = "\<lambda>(k, v). bindE (string_text k) (\<lambda>kt. bindE (render (py v)) (\<lambda>vt. Inr (kt @ lit '':'' @ vt)))"
  from 6(2) obtain ts where ts: "mapE ?f (sort_key fst d) = Inr ts"
    unfolding render_py_dict by (simp only: bindE_Inr_iff) blast
  have "no_surrogate k \<and> canon_ok v" if kv: "(k, v) \<in> set d" for k v
  proof -
    from kv mapE_each [OF ts, of "(k, v)"] obtain t' where
      "\<exists>s. string_text k = Inr s" "render (py v) = Inr t'"
      by (auto simp: bindE_Inr_iff)
    with 6(1) [OF kv refl] string_text_Inr [of k] show ?thesis by blast
  qed
  then show ?case by auto
qed (auto simp: integer_text_ok dest: string_text_Inr)

text \<open>The domain of the canonicalizer on the value model, and its result there.\<close>

lemma canon_json_iff: "canon_json v = Inr t \<longleftrightarrow> canon_ok v \<and> t = jtext v"
  using render_py_ok [of v] render_py_Inr [of v t] by (auto simp: canonicalize_eq_render)

text \<open>A refusal is always one of the three typed ones.\<close>

definition canon_error :: "exn \<Rightarrow> bool" where
  "canon_error e \<longleftrightarrow> is_verify_error e
     \<and> exn_class e \<in> {CanonicalFormInvalid, FloatNotPermitted, SurrogateNotPermitted}"

lemma string_text_error: "string_text s = Inl e \<Longrightarrow> canon_error e"
  using string_text_ok [of s] string_text_bad [of s]
  by (cases "no_surrogate s") (auto simp: canon_error_def surrogate_failure_def)

lemma render_error: "render v = Inl e \<Longrightarrow> canon_error e"
proof (induction v arbitrary: e rule: render.induct)
  case (6 vs)
  then show ?case by (auto simp: bindE_Inl_iff dest!: mapE_Inl)
next
  case (7 d)
  show ?case
  proof (cases "find (\<lambda>(k, v). \<not> py_is_str k) d")
    case None
    with 7(2) have "\<exists>x \<in> set (sorted_members d). (case x of (k, v) \<Rightarrow>
        bindE (string_text k) (\<lambda>kt. bindE (render v) (\<lambda>vt. Inr (kt @ lit '':'' @ vt)))) = Inl e"
      by (auto simp: bindE_Inl_iff dest!: mapE_Inl)
    with 7(1) [OF None] string_text_error show ?thesis
      by (fastforce simp: bindE_Inl_iff)
  next
    case (Some kv)
    with 7(2) show ?thesis by (cases kv) (auto simp: canon_error_def)
  qed
qed (auto simp: canon_error_def integer_text_def dest!: string_text_error split: if_splits)

lemma canonicalize_error: "canonicalize v = Inl e \<Longrightarrow> canon_error e"
  using render_error by (simp add: canonicalize_eq_render)

section \<open>The text is encodable\<close>

lemma char_text_chars:
  "char_text c = Inr t \<Longrightarrow> c < 1114112 \<Longrightarrow> x \<in> set t \<Longrightarrow> x < 1114112 \<and> \<not> is_surrogate x"
  by (auto simp: char_text_def named_escape_def unicode_escape_def hex_digit_def is_surrogate_def
      split: option.splits if_splits)

lemma scalar_append [simp]: "scalar_text (s @ t) \<longleftrightarrow> scalar_text s \<and> scalar_text t"
  by (auto simp: scalar_text_def)

lemma scalar_Nil [simp]: "scalar_text []"
  by (simp add: scalar_text_def)

lemma scalar_Cons [simp]:
  "scalar_text (c # s) \<longleftrightarrow> c < 1114112 \<and> \<not> is_surrogate c \<and> scalar_text s"
  by (simp add: scalar_text_def)

lemma scalar_concat: "scalar_text (concat ts) \<longleftrightarrow> (\<forall>t \<in> set ts. scalar_text t)"
  by (induction ts) auto

lemma scalar_lit [simp]: "scalar_text (lit s)"
  unfolding scalar_text_def list_all_iff is_surrogate_def using lit_code_points [of _ s] by fastforce

lemma scalar_quoted: "wf_str s \<Longrightarrow> scalar_text (quoted s)"
proof -
  assume "wf_str s"
  then have "\<forall>c \<in> set s. scalar_text (case char_text c of Inr t \<Rightarrow> t | Inl _ \<Rightarrow> [])"
    by (auto simp: scalar_text_def list_all_iff wf_str_def split: sum.split
        dest: char_text_chars [OF sym])
  then show ?thesis by (simp add: quoted_def scalar_concat is_surrogate_def)
qed

lemma scalar_digits: "list_all is_digit s \<Longrightarrow> scalar_text s"
  by (auto simp: scalar_text_def list_all_iff is_digit_def is_surrogate_def)

lemma scalar_int_str: "scalar_text (int_str i)"
  by (simp add: int_str_def scalar_digits dec_digits is_surrogate_def)

lemma scalar_intersperse:
  "\<forall>t \<in> set ts. scalar_text t \<Longrightarrow> scalar_text (intersperse_comma ts)"
  by (induction ts rule: intersperse_comma.induct) auto

lemma scalar_jtext: "wf_json v \<Longrightarrow> scalar_text (jtext v)"
proof (induction v rule: jtext.induct)
  case (5 vs)
  then show ?case by (auto intro!: scalar_intersperse)
next
  case (6 d)
  then have "\<forall>(k, v) \<in> set d. scalar_text (quoted k) \<and> scalar_text (jtext v)"
    by (auto simp: scalar_quoted)
  then show ?case
    by (simp only: jtext.simps scalar_append)
       (fastforce intro!: scalar_intersperse)
qed (auto simp: scalar_quoted scalar_int_str)

text \<open>
  On a Python value the encoding step cannot fail: \<open>canonical_bytes\<close> fails exactly where
  \<open>canonicalize\<close> does.
\<close>

lemma canonical_bytes_iff:
  assumes "wf_json v"
  shows "canonical_bytes (py v) = Inr b \<longleftrightarrow> canon_ok v \<and> b = concat (map encode_char (jtext v))"
  using scalar_jtext [OF assms]
  by (auto simp: canonical_bytes_def bindE_Inr_iff canon_json_iff utf8_bytes_def utf8_encode_scalar)

lemma digest_iff:
  assumes "wf_json v"
  shows "digest H v = Inr h \<longleftrightarrow> canon_ok v \<and> h = lit ''sha256:'' @ H (concat (map encode_char (jtext v)))"
  by (auto simp: digest_def bindE_Inr_iff canonical_bytes_iff [OF assms])

section \<open>Signature text\<close>

text \<open>
  \<open>base64.b64encode\<close> and the strict \<open>base64.b64decode\<close> of the standard library. Decoding
  ignores the unused trailing bits of the last character, which is what makes several texts
  decode to the same bytes; \<open>decode_signature\<close> re-encodes to refuse all but one of them.
\<close>

definition b64_char :: "nat \<Rightarrow> nat" where
  "b64_char n =
     (if n < 26 then 65 + n
      else if n < 52 then 71 + n
      else if n < 62 then n - 4
      else if n = 62 then 43 else 47)"

definition b64_value :: "nat \<Rightarrow> nat option" where
  "b64_value c =
     (if 65 \<le> c \<and> c \<le> 90 then Some (c - 65)
      else if 97 \<le> c \<and> c \<le> 122 then Some (c - 71)
      else if 48 \<le> c \<and> c \<le> 57 then Some (c + 4)
      else if c = 43 then Some 62
      else if c = 47 then Some 63
      else None)"

fun b64encode :: "bytes \<Rightarrow> ustr" where
  "b64encode [] = []"
| "b64encode [x] = [b64_char (x div 4), b64_char (x mod 4 * 16), 61, 61]"
| "b64encode [x, y] =
     [b64_char (x div 4), b64_char (x mod 4 * 16 + y div 16), b64_char (y mod 16 * 4), 61]"
| "b64encode (x # y # z # r) =
     [b64_char (x div 4), b64_char (x mod 4 * 16 + y div 16),
      b64_char (y mod 16 * 4 + z div 64), b64_char (z mod 64)] @ b64encode r"

fun b64decode :: "ustr \<Rightarrow> bytes option" where
  "b64decode [] = Some []"
| "b64decode (a # b # c # d # r) =
     (case (b64_value a, b64_value b) of
        (Some va, Some vb) \<Rightarrow>
          (if c = 61 \<and> d = 61 \<and> r = [] then Some [va * 4 + vb div 16]
           else case b64_value c of
                  None \<Rightarrow> None
                | Some vc \<Rightarrow>
                    if d = 61 \<and> r = [] then Some [va * 4 + vb div 16, vb mod 16 * 16 + vc div 4]
                    else case b64_value d of
                           None \<Rightarrow> None
                         | Some vd \<Rightarrow>
                             map_option ((@) [va * 4 + vb div 16, vb mod 16 * 16 + vc div 4,
                                              vc mod 4 * 64 + vd]) (b64decode r))
      | _ \<Rightarrow> None)"
| "b64decode _ = None"

text \<open>A value that is not text is refused before decoding.\<close>

definition decode_signature :: "json \<Rightarrow> exn + bytes" where
  "decode_signature t =
     (case t of
        JStr text \<Rightarrow>
          (case b64decode text of
             None \<Rightarrow> fail CanonicalFormInvalid ''The signature value is not valid base64.''
           | Some raw \<Rightarrow>
               if b64encode raw \<noteq> text
               then fail CanonicalFormInvalid
                 ''The signature value is not the canonical base64 encoding of its own bytes.''
               else Inr raw)
      | _ \<Rightarrow> fail CanonicalFormInvalid ''A signature value must be a string.'')"

lemma b64_value_char [simp]: "n < 64 \<Longrightarrow> b64_value (b64_char n) = Some n"
  by (auto simp: b64_char_def b64_value_def)

lemma b64_char_not_pad [simp]: "n < 64 \<Longrightarrow> b64_char n \<noteq> 61"
  by (auto simp: b64_char_def)

lemma join_div: "q < m \<Longrightarrow> (p * m + q) div m = (p::nat)"
  by (simp add: div_add1_eq)

lemma join_mod: "q < m \<Longrightarrow> (p * m + q) mod m = (q::nat)"
  by simp

lemma join_less: "p < k \<Longrightarrow> q < m \<Longrightarrow> p * m + q < k * (m::nat)"
proof -
  assume "p < k" "q < m"
  then have "p * m + q < p * m + m" by simp
  also have "\<dots> = (p + 1) * m" by simp
  also from \<open>p < k\<close> have "\<dots> \<le> k * m" by (intro mult_right_mono) auto
  finally show ?thesis .
qed

lemma byte_parts:
  assumes "x < 256"
  shows "x div 4 < 64" "x div 16 < 16" "x div 64 < 4" "x mod 4 < 4" "x mod 16 < 16" "x mod 64 < (64::nat)"
  using assms by auto

lemma b64_decode_encode: "\<forall>b \<in> set bs. b < 256 \<Longrightarrow> b64decode (b64encode bs) = Some bs"
proof (induction bs rule: b64encode.induct)
  case (4 x y z r)
  then have "x < 256" "y < 256" "z < 256" by auto
  note parts = this [THEN byte_parts(1)] this [THEN byte_parts(2)] this [THEN byte_parts(3)]
  have joins: "x mod 4 * 16 + y div 16 < 64" "y mod 16 * 4 + z div 64 < 64"
    using parts join_less [of "x mod 4" 4 "y div 16" 16] join_less [of "y mod 16" 16 "z div 64" 4]
    by simp_all
  have "x div 4 * 4 + x mod 4 = x" "y div 16 * 16 + y mod 16 = y" "z div 64 * 64 + z mod 64 = z"
    by simp_all
  moreover have "z div 64 div 4 = 0" "z div 64 mod 4 = z div 64"
    using \<open>z < 256\<close> by simp_all
  ultimately show ?case using 4 parts joins by (simp add: join_div join_mod)
next
  case (3 x y)
  then have "x < 256" "y < 256" by auto
  note parts = this [THEN byte_parts(1)] this [THEN byte_parts(2)]
  have "x mod 4 * 16 + y div 16 < 64" "y mod 16 * 4 < 64"
    using parts join_less [of "x mod 4" 4 "y div 16" 16] join_less [of "y mod 16" 16 0 4]
    by simp_all
  moreover have "x div 4 * 4 + x mod 4 = x" "y div 16 * 16 + y mod 16 = y"
    by simp_all
  ultimately show ?case using parts by (simp add: join_div join_mod)
next
  case (2 x)
  then have "x div 4 < 64" "x mod 4 * 16 < 64" "x div 4 * 4 + x mod 4 = x"
    using join_less [of "x mod 4" 4 0 16] by auto
  then show ?case by simp
qed simp

text \<open>One signature, one text: the encoding is accepted, and it is the only accepted text.\<close>

lemma decode_signature_encode:
  "\<forall>b \<in> set bs. b < 256 \<Longrightarrow> decode_signature (JStr (b64encode bs)) = Inr bs"
  by (simp add: decode_signature_def b64_decode_encode)

lemma decode_signature_Inr: "decode_signature t = Inr raw \<Longrightarrow> t = JStr (b64encode raw)"
  by (auto simp: decode_signature_def split: json.splits option.splits if_splits)

lemma decode_signature_error: "decode_signature t = Inl e \<Longrightarrow> canon_error e"
  by (auto simp: decode_signature_def canon_error_def split: json.splits option.splits if_splits)

end
