(* ===== verification/JsonText.thy ===== *)
theory JsonText
  imports Canon
begin

text \<open>
  The JSON half of \<^verbatim>\<open>src/vfy/load.py\<close>: strict decoding, the nesting bound read from the
  source text, the parse with the hooks that refuse floats, out-of-range integers, non-JSON
  constants and duplicate keys, and the final check against the canonicalizer. The scanner of the
  standard library's \<open>json\<close> module (\<open>json.loads\<close>, strict mode) is modelled as far as
  the loader uses it; it reports every malformed text with one exception, so the reason is not kept.
  The main result is the round trip \<open>load_json_canonical\<close>.
\<close>

section \<open>Integers from text\<close>

text \<open>
  \<open>int(text)\<close> of a decimal literal. CPython refuses to convert more digits than
  \<open>sys.int_max_str_digits\<close>, 4300 unless the host changes it, with a \<open>ValueError\<close>.
\<close>

definition int_max_str_digits :: nat where
  "int_max_str_digits = 4300"

fun signed_value :: "ustr \<Rightarrow> int" where
  "signed_value [] = 0"
| "signed_value (c # ds) = (if c = 45 then - int (undec ds) else int (undec (c # ds)))"

definition digit_count :: "ustr \<Rightarrow> nat" where
  "digit_count t = length (filter is_digit t)"

definition py_int :: "ustr \<Rightarrow> exn + int" where
  "py_int t =
     (if digit_count t > int_max_str_digits
      then Inl (PyErr PyValueError (lit ''Exceeds the limit (4300 digits) for integer string conversion''))
      else Inr (signed_value t))"

definition integer_within_interval :: "ustr \<Rightarrow> exn + int" where
  "integer_within_interval t =
     bindE (py_int t) (\<lambda>value.
       if value < min_safe_integer \<or> value > max_safe_integer
       then fail CanonicalFormInvalid ''Integer outside the range every implementation holds exactly.''
       else Inr value)"

section \<open>Failures of the parse\<close>

definition syntax_failure :: exn where
  "syntax_failure =
     VErr SourceSyntaxInvalid (lit ''Source is not well-formed JSON, carries trailing content, holds more than one document, or is empty.'') NoDetail"

definition reject_float :: "exn + 'a" where
  "reject_float = fail FloatNotPermitted ''A number with a fraction or an exponent is a float and is never valid input; carry non-integer numbers as canonical decimal strings.''"

definition reject_non_json_constant :: "string \<Rightarrow> exn + 'a" where
  "reject_non_json_constant name =
     Inl (VErr SourceSyntaxInvalid (lit name @ lit '' is not JSON; a parser that accepts it is extending the format.'') NoDetail)"

definition object_from_pairs :: "(ustr \<times> json) list \<Rightarrow> exn + (ustr \<times> json) list" where
  "object_from_pairs pairs =
     (if distinct (keys pairs) then Inr pairs
      else fail CanonicalFormInvalid ''Duplicate object key in source.'')"

text \<open>The scanner's recursion ran out of fuel; \<open>json_loads_terminates\<close> shows it never does.\<close>

definition out_of_fuel :: exn where
  "out_of_fuel = PyErr PyRecursionError (lit ''fuel'')"

section \<open>The scanner of the standard library\<close>

definition is_ws :: "nat \<Rightarrow> bool" where
  "is_ws c \<longleftrightarrow> c = 32 \<or> c = 9 \<or> c = 10 \<or> c = 13"

definition skip_ws :: "ustr \<Rightarrow> ustr" where
  "skip_ws s = dropWhile is_ws s"

definition hex_value :: "nat \<Rightarrow> nat option" where
  "hex_value c =
     (if 48 \<le> c \<and> c \<le> 57 then Some (c - 48)
      else if 97 \<le> c \<and> c \<le> 102 then Some (c - 87)
      else if 65 \<le> c \<and> c \<le> 70 then Some (c - 55)
      else None)"

fun hex4 :: "ustr \<Rightarrow> (nat \<times> ustr) option" where
  "hex4 (a # b # c # d # r) =
     (case (hex_value a, hex_value b, hex_value c, hex_value d) of
        (Some w, Some x, Some y, Some z) \<Rightarrow> Some (w * 4096 + x * 256 + y * 16 + z, r)
      | _ \<Rightarrow> None)"
| "hex4 _ = None"

lemma hex4_shorter: "hex4 s = Some (u, r) \<Longrightarrow> length r < length s"
  by (induction s rule: hex4.induct) (auto split: option.splits)

definition backslash :: "nat \<Rightarrow> nat option" where
  "backslash e =
     (if e = 34 then Some 34 else if e = 92 then Some 92 else if e = 47 then Some 47
      else if e = 98 then Some 8 else if e = 102 then Some 12 else if e = 110 then Some 10
      else if e = 114 then Some 13 else if e = 116 then Some 9 else None)"

definition high_surrogate :: "nat \<Rightarrow> bool" where
  "high_surrogate u \<longleftrightarrow> 55296 \<le> u \<and> u \<le> 56319"

definition low_surrogate :: "nat \<Rightarrow> bool" where
  "low_surrogate u \<longleftrightarrow> 56320 \<le> u \<and> u \<le> 57343"

definition cons_char :: "nat \<Rightarrow> exn + ustr \<times> ustr \<Rightarrow> exn + ustr \<times> ustr" where
  "cons_char c r = bindE r (\<lambda>(t, rest). Inr (c # t, rest))"

text \<open>The text after an opening quote: the string's value and the text after its closing quote.\<close>

function scanstring :: "ustr \<Rightarrow> exn + ustr \<times> ustr" where
  "scanstring [] = Inl syntax_failure"
| "scanstring (c # r) =
     (if c = 34 then Inr ([], r)
      else if c < 32 then Inl syntax_failure
      else if c \<noteq> 92 then cons_char c (scanstring r)
      else (case r of
              [] \<Rightarrow> Inl syntax_failure
            | e # r1 \<Rightarrow>
                if e \<noteq> 117
                then (case backslash e of
                        None \<Rightarrow> Inl syntax_failure
                      | Some x \<Rightarrow> cons_char x (scanstring r1))
                else (case hex4 r1 of
                        None \<Rightarrow> Inl syntax_failure
                      | Some (u, r2) \<Rightarrow>
                          if high_surrogate u \<and> take 2 r2 = [92, 117]
                          then (case hex4 (drop 2 r2) of
                                  None \<Rightarrow> Inl syntax_failure
                                | Some (u2, r3) \<Rightarrow>
                                    if low_surrogate u2
                                    then cons_char (65536 + (u - 55296) * 1024 + (u2 - 56320)) (scanstring r3)
                                    else cons_char u (scanstring r2))
                          else cons_char u (scanstring r2))))"
  by pat_completeness auto
termination
  by (relation "measure length") (auto dest!: hex4_shorter)

lemma cons_char_Inr [simp]: "cons_char c (Inr (t, r)) = Inr (c # t, r)"
  by (simp add: cons_char_def)

lemma cons_char_Inr_iff: "cons_char c x = Inr (t, r) \<longleftrightarrow> (\<exists>t'. x = Inr (t', r) \<and> t = c # t')"
  by (auto simp: cons_char_def bindE_Inr_iff)

lemma cons_char_Inl_iff: "cons_char c x = Inl e \<longleftrightarrow> x = Inl e"
  by (auto simp: cons_char_def bindE_Inl_iff)

text \<open>
  \<open>NUMBER_RE\<close>: the integer part, whether a fraction or exponent follows, and the rest.
\<close>

definition scan_fraction :: "ustr \<Rightarrow> bool \<times> ustr" where
  "scan_fraction s =
     (case s of
        c # r \<Rightarrow>
          if c = 46 \<and> takeWhile is_digit r \<noteq> [] then (True, dropWhile is_digit r) else (False, s)
      | [] \<Rightarrow> (False, s))"

definition scan_exponent :: "ustr \<Rightarrow> bool \<times> ustr" where
  "scan_exponent s =
     (case s of
        c # r \<Rightarrow>
          if c = 101 \<or> c = 69
          then (let r' = (case r of d # q \<Rightarrow> if d = 43 \<or> d = 45 then q else r | [] \<Rightarrow> r)
                in if takeWhile is_digit r' \<noteq> [] then (True, dropWhile is_digit r') else (False, s))
          else (False, s)
      | [] \<Rightarrow> (False, s))"

definition scan_integer :: "ustr \<Rightarrow> (ustr \<times> ustr) option" where
  "scan_integer s =
     (let (sign, r) = (if s \<noteq> [] \<and> hd s = 45 then ([45], tl s) else ([], s))
      in case r of
           [] \<Rightarrow> None
         | d # q \<Rightarrow>
             if d = 48 then Some (sign @ [48], q)
             else if is_digit d then Some (sign @ takeWhile is_digit r, dropWhile is_digit r)
             else None)"

definition match_number :: "ustr \<Rightarrow> (ustr \<times> bool \<times> ustr) option" where
  "match_number s =
     (case scan_integer s of
        None \<Rightarrow> None
      | Some (t, r) \<Rightarrow>
          (let (f, r1) = scan_fraction r; (e, r2) = scan_exponent r1
           in Some (t, f \<or> e, r2)))"

definition starts :: "string \<Rightarrow> ustr \<Rightarrow> bool" where
  "starts p s \<longleftrightarrow> take (length p) s = lit p"

text \<open>
  \<open>scan_once\<close>, \<open>JSONArray\<close> and \<open>JSONObject\<close>. The text argument starts at the value; for
  \<open>scan_array\<close> at the first item, for \<open>scan_object\<close> just after the quote of a key.
\<close>

fun scan_once :: "nat \<Rightarrow> ustr \<Rightarrow> exn + json \<times> ustr"
and scan_array :: "nat \<Rightarrow> ustr \<Rightarrow> exn + json list \<times> ustr"
and scan_object :: "nat \<Rightarrow> ustr \<Rightarrow> exn + (ustr \<times> json) list \<times> ustr"
where
  "scan_once 0 s = Inl out_of_fuel"
| "scan_once (Suc n) s =
     (case s of
        [] \<Rightarrow> Inl syntax_failure
      | c # r \<Rightarrow>
          if c = 34 then bindE (scanstring r) (\<lambda>(t, r'). Inr (JStr t, r'))
          else if c = 123 then
            (case skip_ws r of
               [] \<Rightarrow> Inl syntax_failure
             | c' # r' \<Rightarrow>
                 if c' = 125 then Inr (JDict [], r')
                 else if c' = 34 then
                   bindE (scan_object n r') (\<lambda>(pairs, r''). bindE (object_from_pairs pairs) (\<lambda>d. Inr (JDict d, r'')))
                 else Inl syntax_failure)
          else if c = 91 then
            (case skip_ws r of
               [] \<Rightarrow> Inl syntax_failure
             | c' # r' \<Rightarrow>
                 if c' = 93 then Inr (JList [], r')
                 else bindE (scan_array n (c' # r')) (\<lambda>(vs, r''). Inr (JList vs, r'')))
          else if starts ''null'' s then Inr (JNull, drop 4 s)
          else if starts ''true'' s then Inr (JBool True, drop 4 s)
          else if starts ''false'' s then Inr (JBool False, drop 5 s)
          else (case match_number s of
                  Some (t, is_float, r') \<Rightarrow>
                    if is_float then reject_float
                    else bindE (integer_within_interval t) (\<lambda>i. Inr (JInt i, r'))
                | None \<Rightarrow>
                    if starts ''NaN'' s then reject_non_json_constant ''NaN''
                    else if starts ''Infinity'' s then reject_non_json_constant ''Infinity''
                    else if starts ''-Infinity'' s then reject_non_json_constant ''-Infinity''
                    else Inl syntax_failure))"
| "scan_array 0 s = Inl out_of_fuel"
| "scan_array (Suc n) s =
     bindE (scan_once n s) (\<lambda>(v, r).
       case skip_ws r of
         [] \<Rightarrow> Inl syntax_failure
       | c # r' \<Rightarrow>
           if c = 93 then Inr ([v], r')
           else if c = 44 then bindE (scan_array n (skip_ws r')) (\<lambda>(vs, r''). Inr (v # vs, r''))
           else Inl syntax_failure)"
| "scan_object 0 s = Inl out_of_fuel"
| "scan_object (Suc n) s =
     bindE (scanstring s) (\<lambda>(k, r).
       case skip_ws r of
         [] \<Rightarrow> Inl syntax_failure
       | c # r' \<Rightarrow>
           if c \<noteq> 58 then Inl syntax_failure
           else bindE (scan_once n (skip_ws r')) (\<lambda>(v, r1).
             case skip_ws r1 of
               [] \<Rightarrow> Inl syntax_failure
             | c1 # r2 \<Rightarrow>
                 if c1 = 125 then Inr ([(k, v)], r2)
                 else if c1 \<noteq> 44 then Inl syntax_failure
                 else (case skip_ws r2 of
                         [] \<Rightarrow> Inl syntax_failure
                       | c2 # r3 \<Rightarrow>
                           if c2 \<noteq> 34 then Inl syntax_failure
                           else bindE (scan_object n r3) (\<lambda>(ps, r4). Inr ((k, v) # ps, r4)))))"

definition json_loads :: "ustr \<Rightarrow> exn + json" where
  "json_loads t =
     bindE (scan_once (2 * length t + 1) (skip_ws t)) (\<lambda>(v, r).
       if skip_ws r = [] then Inr v else Inl syntax_failure)"

section \<open>The loader\<close>

definition max_depth :: nat where
  "max_depth = 64"

definition utf8_bom :: bytes where
  "utf8_bom = [239, 187, 191]"

definition decode_utf8 :: "bytes \<Rightarrow> exn + ustr" where
  "decode_utf8 data =
     (if take 3 data = utf8_bom
      then fail SourceEncodingInvalid ''Source carries a UTF-8 byte-order mark.''
      else case utf8_decode data of
             None \<Rightarrow> fail SourceEncodingInvalid ''Source bytes are not UTF-8.''
           | Some t \<Rightarrow> Inr t)"

definition too_deep :: exn where
  "too_deep = VErr SourceTooDeep (lit ''Source nests deeper than the declared maximum of 64.'') NoDetail"

text \<open>The scan of \<open>_reject_excess_depth\<close>: depth, inside a string, after a backslash.\<close>

fun depth_scan :: "int \<Rightarrow> bool \<Rightarrow> bool \<Rightarrow> ustr \<Rightarrow> exn + unit" where
  "depth_scan depth in_string escaped [] = Inr ()"
| "depth_scan depth in_string escaped (c # s) =
     (if in_string then
        (if escaped then depth_scan depth True False s
         else if c = 92 then depth_scan depth True True s
         else if c = 34 then depth_scan depth False escaped s
         else depth_scan depth True escaped s)
      else if c = 34 then depth_scan depth True escaped s
      else if c = 123 \<or> c = 91 then
        (if depth + 1 > int max_depth then Inl too_deep else depth_scan (depth + 1) False escaped s)
      else if c = 125 \<or> c = 93 then depth_scan (depth - 1) False escaped s
      else depth_scan depth False escaped s)"

definition reject_excess_depth :: "ustr \<Rightarrow> exn + unit" where
  "reject_excess_depth t = depth_scan 0 False False t"

definition load_json_bytes :: "bytes \<Rightarrow> exn + json" where
  "load_json_bytes data =
     bindE (decode_utf8 data) (\<lambda>t.
     bindE (reject_excess_depth t) (\<lambda>_.
     bindE (json_loads t) (\<lambda>value.
     bindE (canon_json value) (\<lambda>_. Inr value))))"

section \<open>Termination\<close>

lemma skip_ws_shorter: "length (skip_ws s) \<le> length s"
  by (simp add: skip_ws_def length_dropWhile_le)

lemma scanstring_shorter: "scanstring s = Inr (t, r) \<Longrightarrow> length r < length s"
proof (induction "length s" arbitrary: s t rule: less_induct)
  case less
  have IH: "scanstring s' = Inr (t', r) \<Longrightarrow> length s' < length s \<Longrightarrow> length r < length s" for s' t'
    using less.hyps [of s' t'] by linarith
  show ?case
  proof (cases s)
    case (Cons c q)
    with less.prems have "scanstring (c # q) = Inr (t, r)" by simp
    then show ?thesis
      unfolding Cons using IH
      by (auto simp: cons_char_Inr_iff Cons split: if_splits list.splits option.splits
          dest!: hex4_shorter)
  qed (use less.prems in simp)
qed

lemma drop_digits: "length (dropWhile is_digit q) < Suc (length q)"
  using length_dropWhile_le [of is_digit q] by simp

lemma scan_integer_shorter:
  assumes "scan_integer s = Some (t, r)"
  shows "length r < length s"
proof -
  obtain sign q where sq: "(if s \<noteq> [] \<and> hd s = 45 then ([45], tl s) else ([], s)) = (sign, q)"
    by (meson surj_pair)
  then have "length q \<le> length s" by (auto split: if_splits)
  moreover from assms sq have "length r < length q"
    by (auto simp: scan_integer_def drop_digits split: list.splits if_splits)
  ultimately show ?thesis by linarith
qed

lemma scan_fraction_shorter: "scan_fraction s = (f, r) \<Longrightarrow> length r \<le> length s"
  by (auto simp: scan_fraction_def le_SucI length_dropWhile_le split: list.splits if_splits)

lemma scan_exponent_shorter: "scan_exponent s = (e, r) \<Longrightarrow> length r \<le> length s"
  by (auto simp: scan_exponent_def Let_def le_SucI length_dropWhile_le split: list.splits if_splits)

lemma match_number_shorter: "match_number s = Some (t, f, r) \<Longrightarrow> length r < length s"
  by (auto simp: match_number_def split: option.splits prod.splits
      dest!: scan_integer_shorter scan_fraction_shorter scan_exponent_shorter)

definition no_fuel_error :: "exn + 'a \<Rightarrow> bool" where
  "no_fuel_error r \<longleftrightarrow> r \<noteq> Inl out_of_fuel"

lemma scanstring_no_fuel: "scanstring s \<noteq> Inl out_of_fuel"
proof (induction s rule: scanstring.induct)
  case (2 c r)
  then show ?case
    by (auto simp: cons_char_Inl_iff syntax_failure_def out_of_fuel_def split: list.splits option.splits)
qed (simp add: syntax_failure_def out_of_fuel_def)

lemma integer_no_fuel: "integer_within_interval t \<noteq> Inl out_of_fuel"
  by (auto simp: integer_within_interval_def py_int_def out_of_fuel_def)

lemma no_fuel_simps [simp]:
  "no_fuel_error (Inr x)"
  "no_fuel_error (Inl syntax_failure)"
  "no_fuel_error reject_float"
  "no_fuel_error (reject_non_json_constant m)"
  by (simp_all add: no_fuel_error_def syntax_failure_def out_of_fuel_def reject_float_def
      reject_non_json_constant_def)

lemma no_fuel_bind:
  "no_fuel_error (bindE x f) \<longleftrightarrow> no_fuel_error x \<and> (\<forall>y. x = Inr y \<longrightarrow> no_fuel_error (f y))"
  by (cases x) (auto simp: no_fuel_error_def)

lemma no_fuel_object [simp]: "no_fuel_error (object_from_pairs ps)"
  by (simp add: object_from_pairs_def no_fuel_error_def out_of_fuel_def)

lemma no_fuel_integer [simp]: "no_fuel_error (integer_within_interval t)"
  by (simp add: no_fuel_error_def integer_no_fuel)

lemma no_fuel_scanstring [simp]: "no_fuel_error (scanstring t)"
  by (simp add: no_fuel_error_def scanstring_no_fuel)

text \<open>A scanner returns, and what is left is shorter than what it was given.\<close>

definition progress :: "nat \<Rightarrow> exn + 'a \<times> ustr \<Rightarrow> bool" where
  "progress m x \<longleftrightarrow> no_fuel_error x \<and> (\<forall>v r. x = Inr (v, r) \<longrightarrow> length r < m)"

lemma progress_simps [simp]:
  "progress m (Inr (v, r)) \<longleftrightarrow> length r < m"
  "progress m (Inl syntax_failure)"
  "progress m reject_float"
  "progress m (reject_non_json_constant t)"
  by (auto simp: progress_def reject_float_def reject_non_json_constant_def no_fuel_error_def
      out_of_fuel_def syntax_failure_def)

lemma progress_if:
  "(b \<Longrightarrow> progress m x) \<Longrightarrow> (\<not> b \<Longrightarrow> progress m y) \<Longrightarrow> progress m (if b then x else y)"
  by simp

lemma progress_case_list:
  "progress m x \<Longrightarrow> (\<And>c r. xs = c # r \<Longrightarrow> progress m (f c r))
     \<Longrightarrow> progress m (case xs of [] \<Rightarrow> x | c # r \<Rightarrow> f c r)"
  by (cases xs) auto

lemma progress_bind:
  assumes "progress m' x" and "\<And>v r. x = Inr (v, r) \<Longrightarrow> length r < m' \<Longrightarrow> progress m (f (v, r))"
  shows "progress m (bindE x f)"
proof (cases x)
  case (Inr p)
  with assms show ?thesis by (cases p) (simp add: progress_def)
next
  case (Inl e)
  with assms(1) show ?thesis by (simp add: progress_def no_fuel_error_def)
qed

lemma progress_scanstring: "progress (length s) (scanstring s)"
  by (simp add: progress_def scanstring_shorter)

lemma progress_integer:
  "length r < m \<Longrightarrow> progress m (bindE (integer_within_interval t) (\<lambda>i. Inr (JInt i, r)))"
  by (auto simp: progress_def no_fuel_bind bindE_Inr_iff)

lemma progress_object:
  "length r < m \<Longrightarrow> progress m (bindE (object_from_pairs ps) (\<lambda>d. Inr (JDict d, r)))"
  by (auto simp: progress_def no_fuel_bind bindE_Inr_iff)

lemma skip_ws_Cons: "skip_ws s = c # r \<Longrightarrow> length r < length s"
  using skip_ws_shorter [of s] by simp

lemma scan_enough_fuel:
  "2 * length s < n \<Longrightarrow> progress (length s) (scan_once n s)"
  "2 * length s + 1 < n \<Longrightarrow> progress (length s) (scan_array n s)"
  "2 * length s + 1 < n \<Longrightarrow> progress (length s) (scan_object n s)"
proof (induction n s and n s and n s rule: scan_once_scan_array_scan_object.induct)
  case (2 n s)
  show ?case
  proof (cases s)
    case (Cons c r)
    have obj: "progress (length s) (bindE (scan_object n r')
        (\<lambda>(pairs, r''). bindE (object_from_pairs pairs) (\<lambda>d. Inr (JDict d, r''))))"
      if "c = 123" "skip_ws r = 34 # r'" for r'
      using 2(1) [OF Cons _ that(1,2)] skip_ws_Cons [OF that(2)] "2.prems" Cons that(1)
      by (intro progress_bind [of "length r'"]) (auto intro!: progress_object)
    have arr: "progress (length s) (bindE (scan_array n (c' # r')) (\<lambda>(vs, r''). Inr (JList vs, r'')))"
      if "c = 91" "skip_ws r = c' # r'" "c' \<noteq> 93" for c' r'
      using 2(2) [OF Cons _ _ that(1,2,3)] skip_ws_Cons [OF that(2)] "2.prems" Cons that(1)
      by (intro progress_bind [of "length (c' # r')"]) auto
    have str: "progress (length s) (bindE (scanstring r) (\<lambda>(t, r'). Inr (JStr t, r')))"
      using Cons by (intro progress_bind [OF progress_scanstring]) auto
    have num: "progress (length s) (case match_number s of
        Some (t, is_float, r') \<Rightarrow>
          if is_float then reject_float else bindE (integer_within_interval t) (\<lambda>i. Inr (JInt i, r'))
      | None \<Rightarrow> if starts ''NaN'' s then reject_non_json_constant ''NaN''
          else if starts ''Infinity'' s then reject_non_json_constant ''Infinity''
          else if starts ''-Infinity'' s then reject_non_json_constant ''-Infinity''
          else Inl syntax_failure)"
      by (auto split: option.split intro!: progress_integer dest: match_number_shorter)
    show ?thesis
      unfolding scan_once.simps list.case Cons
      by (intro progress_if progress_case_list num [unfolded Cons] str [unfolded Cons])
        (use obj arr Cons in \<open>auto dest: skip_ws_Cons\<close>)
  qed simp
next
  case (4 n s)
  show ?case
    unfolding scan_array.simps
  proof (rule progress_bind)
    show "progress (length s) (scan_once n s)" using 4 by simp
    fix v r assume v: "scan_once n s = Inr (v, r)" "length r < length s"
    show "progress (length s) (case (v, r) of (v, r) \<Rightarrow> case skip_ws r of
          [] \<Rightarrow> Inl syntax_failure
        | c # r' \<Rightarrow> if c = 93 then Inr ([v], r')
            else if c = 44 then bindE (scan_array n (skip_ws r')) (\<lambda>(vs, r''). Inr (v # vs, r''))
            else Inl syntax_failure)"
    proof (cases "skip_ws r")
      case (Cons c r')
      with v skip_ws_Cons [OF Cons] skip_ws_shorter [of r'] 4 show ?thesis
        by (auto intro!: progress_bind [of "length (skip_ws r')"])
    qed simp
  qed
next
  case (6 n s)
  show ?case
    unfolding scan_object.simps
  proof (rule progress_bind [OF progress_scanstring], simp only: case_prod_conv, goal_cases)
    case (1 k r)
    show ?case
    proof (rule progress_case_list, simp, rule progress_if, simp,
        rule progress_bind [of "length r"], goal_cases)
      case (1 c r')
      then have "2 * length (skip_ws r') < n"
        using skip_ws_Cons [of r c r'] skip_ws_shorter [of r'] "6.prems" \<open>length r < length s\<close> by simp
      then have "progress (length (skip_ws r')) (scan_once n (skip_ws r'))"
        using 6(1) [of "(k, r)"] 1 \<open>scanstring s = _\<close> by auto
      with 1 skip_ws_Cons [of r c r'] skip_ws_shorter [of r'] show ?case
        by (force simp: progress_def)
    next
      case (2 c r' v r1)
      have IH: "progress (length r3) (scan_object n r3)" if "skip_ws r1 = 44 # r2" "skip_ws r2 = 34 # r3" for r2 r3
        using 6(2) that 2 "6.prems" skip_ws_Cons [OF that(1)] skip_ws_Cons [OF that(2)] \<open>length r < length s\<close>
          \<open>scanstring s = _\<close> by auto
      show ?case
        unfolding case_prod_conv
        by (intro progress_if progress_case_list)
          (use 2 \<open>length r < length s\<close> in \<open>fastforce dest: skip_ws_Cons intro: progress_bind [OF IH]\<close>)+
    qed
  qed
qed simp_all

text \<open>The parse always returns: its fuel is enough for any text.\<close>

lemma json_loads_terminates: "json_loads t \<noteq> Inl out_of_fuel"
proof -
  have "progress (length (skip_ws t)) (scan_once (2 * length t + 1) (skip_ws t))"
    using skip_ws_shorter [of t] by (intro scan_enough_fuel) simp
  then show ?thesis
    by (auto simp: json_loads_def bindE_Inl_iff progress_def no_fuel_error_def syntax_failure_def
        out_of_fuel_def split: if_splits)
qed

section \<open>Round trip\<close>

subsection \<open>Strings\<close>

definition qbody :: "ustr \<Rightarrow> ustr" where
  "qbody s = concat (map (\<lambda>c. case char_text c of Inr t \<Rightarrow> t | Inl _ \<Rightarrow> []) s)"

lemma quoted_qbody: "quoted s = 34 # qbody s @ [34]"
  by (simp add: quoted_def qbody_def)

lemma hex_value_digit [simp]: "n < 16 \<Longrightarrow> hex_value (hex_digit n) = Some n"
  by (auto simp: hex_value_def hex_digit_def)

lemma hex4_escape: "c < 32 \<Longrightarrow> hex4 (drop 2 (unicode_escape c) @ r) = Some (c, r)"
proof -
  assume "c < 32"
  then have "c div 4096 = 0" "c div 256 = 0" "c div 16 < 16" by auto
  then show ?thesis by (simp add: unicode_escape_def)
qed

lemma scanstring_char:
  assumes "char_text c = Inr t"
  shows "scanstring (t @ r) = cons_char c (scanstring r)"
proof (cases "named_escape c")
  case (Some e)
  with assms have "t = e" by (simp add: char_text_def)
  with Some show ?thesis
    by (auto simp: named_escape_def backslash_def split: if_splits)
next
  case None
  show ?thesis
  proof (cases "c < 32")
    case True
    with None assms have "t = unicode_escape c" by (simp add: char_text_def)
    then have t: "t = 92 # 117 # drop 2 (unicode_escape c)" by (simp add: unicode_escape_def)
    show ?thesis using hex4_escape [OF True, of r] True by (simp add: t high_surrogate_def)
  next
    case False
    with None assms have "t = [c]" by (auto simp: char_text_def split: if_splits)
    with False None show ?thesis by (auto simp: named_escape_def split: if_splits)
  qed
qed

lemma scanstring_qbody: "no_surrogate s \<Longrightarrow> scanstring (qbody s @ 34 # r) = Inr (s, r)"
proof (induction s)
  case (Cons c s)
  then obtain t where t: "char_text c = Inr t" using char_text_ok [of c] by (auto simp: no_surrogate_def)
  have "qbody (c # s) = t @ qbody s" by (simp add: qbody_def t)
  with Cons scanstring_char [OF t] show ?case by (simp add: no_surrogate_def)
qed (simp add: qbody_def)

subsection \<open>Integers\<close>

definition value_end :: "ustr \<Rightarrow> bool" where
  "value_end r \<longleftrightarrow> r = [] \<or> hd r \<in> {44, 93, 125}"

lemma value_end_digit: "value_end r \<Longrightarrow> r = [] \<or> \<not> is_digit (hd r)"
  by (auto simp: value_end_def is_digit_def)

lemma scan_integer_dec:
  assumes "value_end r" and that: "sign = [] \<or> sign = [45]"
  shows "scan_integer (sign @ dec n @ r) = Some (sign @ dec n, r)"
proof -
  obtain d q where dq: "dec n = d # q" by (cases "dec n") auto
  then have dig: "is_digit d" "list_all is_digit (d # q)" using dec_digits [of n] by simp_all
  have split: "(if sign @ dec n @ r \<noteq> [] \<and> hd (sign @ dec n @ r) = 45
      then ([45], tl (sign @ dec n @ r)) else ([], sign @ dec n @ r)) = (sign, d # q @ r)"
    using that dq dig by (auto simp: is_digit_def)
  have tw: "takeWhile is_digit (d # q @ r) = d # q" "dropWhile is_digit (d # q @ r) = r"
    using takeWhile_append_stop [OF dig(2) value_end_digit [OF assms(1)]]
      dropWhile_append_stop [OF dig(2) value_end_digit [OF assms(1)]] by simp_all
  have "q = []" if "d = 48"
    using hd_dec_zero [of n] dq that by auto
  with split tw dig dq show ?thesis by (auto simp: scan_integer_def)
qed

lemma match_number_int:
  assumes "value_end r"
  shows "match_number (int_str i @ r) = Some (int_str i, False, r)"
proof -
  have "scan_integer (int_str i @ r) = Some (int_str i, r)"
    using scan_integer_dec [OF assms, of "[45]"] scan_integer_dec [OF assms, of "[]"]
    by (auto simp: int_str_def)
  moreover have "scan_fraction r = (False, r)" "scan_exponent r = (False, r)"
    using assms by (auto simp: scan_fraction_def scan_exponent_def value_end_def split: list.split)
  ultimately show ?thesis by (simp add: match_number_def)
qed

lemma digit_count_int: "safe_int i \<Longrightarrow> digit_count (int_str i) \<le> 16"
proof -
  assume "safe_int i"
  then have "nat \<bar>i\<bar> < 10 ^ 16"
    by (auto simp: safe_int_def min_safe_integer_def max_safe_integer_def)
  then have "length (dec (nat \<bar>i\<bar>)) \<le> 16" by (intro length_dec) auto
  moreover have "filter is_digit (dec m) = dec m" for m
    using dec_digits [of m] by (simp add: list_all_iff)
  moreover have "\<not> is_digit 45" by (simp add: is_digit_def)
  ultimately show ?thesis by (auto simp: digit_count_def int_str_def abs_if)
qed

lemma signed_value_int [simp]: "signed_value (int_str i) = i"
proof -
  have "signed_value (dec m) = int m" for m
    using dec_digits [of m] by (cases "dec m") (auto simp: is_digit_def dest: arg_cong [of _ _ undec])
  then show ?thesis by (simp add: int_str_def)
qed

lemma integer_interval_int: "safe_int i \<Longrightarrow> integer_within_interval (int_str i) = Inr i"
  using digit_count_int [of i]
  by (simp add: integer_within_interval_def py_int_def int_max_str_digits_def safe_int_def)

subsection \<open>Values\<close>

lemma int_str_hd: "\<exists>c t. int_str i = c # t \<and> (is_digit c \<or> c = 45)"
proof (cases "i < 0")
  case False
  then show ?thesis using dec_digits [of "nat i"] dec_not_Nil [of "nat i"]
    by (cases "dec (nat i)") (auto simp: int_str_def)
qed (simp add: int_str_def)

lemma jtext_hd: "\<exists>c t. jtext v = c # t \<and> \<not> is_ws c \<and> c \<notin> {93, 125, 44}"
proof (cases v)
  case (JInt i)
  with int_str_hd [of i] show ?thesis by (auto simp: is_ws_def is_digit_def)
qed (auto simp: quoted_qbody lit_def is_ws_def)

lemma jtext_small_hd: "\<exists>c t. jtext v = c # t \<and> c < 128"
proof (cases v)
  case (JInt i)
  with int_str_hd [of i] show ?thesis by (auto simp: is_digit_def)
qed (auto simp: quoted_qbody lit_def)

lemma skip_ws_jtext [simp]: "skip_ws (jtext v @ r) = jtext v @ r"
  using jtext_hd [of v] by (auto simp: skip_ws_def)

lemma skip_ws_stop [simp]: "\<not> is_ws c \<Longrightarrow> skip_ws (c # r) = c # r"
  by (simp add: skip_ws_def)

lemma no_ws_marks [simp]: "\<not> is_ws 34" "\<not> is_ws 44" "\<not> is_ws 58" "\<not> is_ws 93" "\<not> is_ws 125"
  by (simp_all add: is_ws_def)

definition member_text :: "ustr \<times> json \<Rightarrow> ustr" where
  "member_text m = quoted (fst m) @ lit '':'' @ jtext (snd m)"

lemma jtext_dict: "jtext (JDict d) = 123 # intersperse_comma (map member_text (sort_key fst d)) @ [125]"
  unfolding jtext.simps sort_key_map_snd
  by (simp add: member_text_def [abs_def] comp_def case_prod_unfold lit_def)

lemma member_text_pair: "member_text (k, v) = 34 # qbody k @ 34 # 58 # jtext v"
  by (simp add: member_text_def quoted_qbody lit_def)

lemma jtext_list: "jtext (JList vs) = 91 # intersperse_comma (map jtext vs) @ [93]"
  by (simp add: lit_def)

lemma intersperse_Cons:
  "intersperse_comma (t # ts) = t @ (if ts = [] then [] else 44 # intersperse_comma ts)"
  by (cases ts) (simp_all add: lit_def)

lemma scan_array_texts:
  assumes "\<And>v m r. v \<in> set vs \<Longrightarrow> value_end r \<Longrightarrow> 2 * length (jtext v @ r) < m
      \<Longrightarrow> scan_once m (jtext v @ r) = Inr (sort_json v, r)"
    and "vs \<noteq> []" and "2 * length (intersperse_comma (map jtext vs) @ 93 # rest) + 1 < n"
  shows "scan_array n (intersperse_comma (map jtext vs) @ 93 # rest) = Inr (map sort_json vs, rest)"
  using assms
proof (induction vs arbitrary: n)
  case (Cons v vs)
  let ?r = "(if vs = [] then [] else 44 # intersperse_comma (map jtext vs)) @ 93 # rest"
  from Cons.prems(3) obtain m where m: "n = Suc m" by (cases n) auto
  have "scan_once m (jtext v @ ?r) = Inr (sort_json v, ?r)"
    using Cons.prems m by (intro Cons.prems(1)) (auto simp: value_end_def intersperse_Cons)
  moreover have "scan_array m (intersperse_comma (map jtext vs) @ 93 # rest) = Inr (map sort_json vs, rest)"
    if "vs \<noteq> []"
    using Cons.prems that m by (intro Cons.IH) (auto simp: intersperse_Cons)
  moreover have "skip_ws (intersperse_comma (map jtext vs) @ 93 # rest) = intersperse_comma (map jtext vs) @ 93 # rest"
    by (cases vs) (simp_all add: intersperse_Cons)
  ultimately show ?case by (auto simp: m intersperse_Cons)
qed simp

lemma scan_object_texts:
  assumes "\<And>k v m r. (k, v) \<in> set d \<Longrightarrow> value_end r \<Longrightarrow> 2 * length (jtext v @ r) < m
      \<Longrightarrow> scan_once m (jtext v @ r) = Inr (sort_json v, r)"
    and "\<And>k v. (k, v) \<in> set d \<Longrightarrow> no_surrogate k"
    and "d \<noteq> []" and "intersperse_comma (map member_text d) @ 125 # rest = 34 # s"
    and "2 * length s + 1 < n"
  shows "scan_object n s = Inr (map (\<lambda>(k, v). (k, sort_json v)) d, rest)"
  using assms
proof (induction d arbitrary: n s)
  case (Cons p d)
  obtain k v where p: "p = (k, v)" by force
  let ?r = "(if d = [] then [] else 44 # intersperse_comma (map member_text d)) @ 125 # rest"
  have s: "s = qbody k @ 34 # 58 # jtext v @ ?r"
    using Cons.prems(4) by (cases "d = []") (simp_all add: intersperse_Cons member_text_pair p)
  from Cons.prems(5) obtain m where m: "n = Suc m" by (cases n) auto
  have "scan_once m (jtext v @ ?r) = Inr (sort_json v, ?r)"
    using Cons.prems(5) m by (intro Cons.prems(1) [of k]) (auto simp: p s value_end_def)
  moreover have "scanstring s = Inr (k, 58 # jtext v @ ?r)"
    using Cons.prems(2) [of k v] by (simp add: p s scanstring_qbody)
  moreover have "scan_object m q = Inr (map (\<lambda>(k, v). (k, sort_json v)) d, rest)"
    if "d \<noteq> []" "intersperse_comma (map member_text d) @ 125 # rest = 34 # q" for q
  proof (rule Cons.IH [OF _ _ that])
    have "length (intersperse_comma (map member_text d) @ 125 # rest) = Suc (length q)"
      by (simp add: that(2))
    with Cons.prems(5) m that(1) show "2 * length q + 1 < m" by (simp add: s)
  next
    show "scan_once m (jtext v @ r) = Inr (sort_json v, r)"
      if "(k, v) \<in> set d" "value_end r" "2 * length (jtext v @ r) < m" for k v m r
      using that Cons.prems(1) [of k v r m] by simp
    show "no_surrogate k" if "(k, v) \<in> set d" for k v
      using that Cons.prems(2) [of k v] by simp
  qed
  moreover have "\<exists>q. intersperse_comma (map member_text d) @ 125 # rest = 34 # q" if "d \<noteq> []"
    using that by (cases d) (auto simp: intersperse_Cons member_text_def quoted_qbody)
  ultimately show ?case by (auto simp: m p)
qed simp

lemma scan_once_jtext:
  "wf_json v \<Longrightarrow> canon_ok v \<Longrightarrow> value_end r \<Longrightarrow> 2 * length (jtext v @ r) < n
     \<Longrightarrow> scan_once n (jtext v @ r) = Inr (sort_json v, r)"
proof (induction v arbitrary: n r rule: jtext.induct)
  case 1
  then show ?case by (cases n) (auto simp: starts_def lit_def)
next
  case (2 b)
  then show ?case by (cases n; cases b) (auto simp: starts_def lit_def)
next
  case (3 i)
  then obtain m where m: "n = Suc m" by (cases n) auto
  obtain c t where ct: "int_str i = c # t" "is_digit c \<or> c = 45" using int_str_hd by blast
  have "match_number (c # t @ r) = Some (int_str i, False, r)"
    using match_number_int [OF 3(3), of i] by (simp add: ct)
  moreover have "integer_within_interval (c # t) = Inr i"
    using integer_interval_int [of i] 3(2) by (simp add: ct)
  ultimately show ?case using ct by (auto simp: m starts_def lit_def is_digit_def)
next
  case (4 s)
  then show ?case by (cases n) (simp_all add: quoted_qbody scanstring_qbody)
next
  case (5 vs)
  then obtain m where m: "n = Suc m" by (cases n) auto
  show ?case
  proof (cases "vs = []")
    case False
    then obtain w ws where vs: "vs = w # ws" by (cases vs) auto
    have whole: "jtext (JList vs) @ r = 91 # intersperse_comma (map jtext vs) @ 93 # r"
      by (simp only: jtext_list append_Cons append_assoc append_Nil)
    have "scan_array m (intersperse_comma (map jtext vs) @ 93 # r) = Inr (map sort_json vs, r)"
    proof (rule scan_array_texts [OF _ False])
      show "2 * length (intersperse_comma (map jtext vs) @ 93 # r) + 1 < m"
        using 5(5) unfolding whole m by simp
      show "scan_once k (jtext v @ q) = Inr (sort_json v, q)"
        if "v \<in> set vs" "value_end q" "2 * length (jtext v @ q) < k" for v k q
        using that 5 by auto
    qed
    moreover obtain c t where "intersperse_comma (map jtext vs) @ 93 # r = c # t" "\<not> is_ws c" "c \<noteq> 93"
      using jtext_hd [of w] by (auto simp: vs intersperse_Cons)
    ultimately show ?thesis unfolding whole m by simp
  qed (simp add: m lit_def)
next
  case (6 d)
  then obtain m where m: "n = Suc m" by (cases n) auto
  let ?d = "sort_key fst d"
  have whole: "jtext (JDict d) @ r = 123 # intersperse_comma (map member_text ?d) @ 125 # r"
    by (simp only: jtext_dict append_Cons append_assoc append_Nil)
  show ?case
  proof (cases "d = []")
    case True
    then show ?thesis by (simp add: m lit_def object_from_pairs_def keys_def)
  next
    case False
    then have ne: "?d \<noteq> []" by (metis set_empty set_sort)
    then obtain p e where "?d = p # e" by (cases ?d) auto
    then obtain s where s: "intersperse_comma (map member_text ?d) @ 125 # r = 34 # s"
      by (cases p) (simp add: intersperse_Cons member_text_pair)
    have "scan_object m s = Inr (map (\<lambda>(k, v). (k, sort_json v)) ?d, r)"
    proof (rule scan_object_texts [OF _ _ ne s])
      show "2 * length s + 1 < m" using 6(5) unfolding whole s m by simp
      show "scan_once k (jtext v @ q) = Inr (sort_json v, q)"
        if "(x, v) \<in> set ?d" "value_end q" "2 * length (jtext v @ q) < k" for x v k q
        using that 6(1) [of "(x, v)" x v q k] 6(2,3) by auto
      show "no_surrogate x" if "(x, v) \<in> set ?d" for x v
        using that 6(3) by auto
    qed
    moreover have "distinct (keys (map (\<lambda>(k, v). (k, sort_json v)) ?d))"
      using 6(2) by (simp add: distinct_keys_sort)
    ultimately show ?thesis
      unfolding whole s m sort_json_dict by (simp add: object_from_pairs_def)
  qed
qed

lemma json_loads_jtext: "wf_json v \<Longrightarrow> canon_ok v \<Longrightarrow> json_loads (jtext v) = Inr (sort_json v)"
proof -
  assume "wf_json v" "canon_ok v"
  then have "scan_once (2 * length (jtext v) + 1) (skip_ws (jtext v)) = Inr (sort_json v, [])"
    using scan_once_jtext [of v "[]"] skip_ws_jtext [of v "[]"] by (simp add: value_end_def del: scan_once.simps)
  then show ?thesis unfolding json_loads_def by (simp add: skip_ws_def del: scan_once.simps)
qed

text \<open>Canonical text determines the value up to the order of its members.\<close>

lemma jtext_inj:
  assumes "wf_json v" "canon_ok v" "wf_json w" "canon_ok w" and "jtext v = jtext w"
  shows "sort_json v = sort_json w"
  using json_loads_jtext [of v] json_loads_jtext [of w] assms by simp

subsection \<open>The nesting bound\<close>

lemma depth_scan_outside:
  "list_all (\<lambda>c. c \<notin> {34, 91, 93, 123, 125}) t \<Longrightarrow> depth_scan d False False (t @ r) = depth_scan d False False r"
  by (induction t) auto

lemma char_text_scan:
  "char_text c = Inr t \<Longrightarrow> depth_scan d True False (t @ r) = depth_scan d True False r"
proof (cases "named_escape c")
  case None
  assume t: "char_text c = Inr t"
  show ?thesis
  proof (cases "c < 32")
    case True
    then have "c div 4096 = 0" "c div 256 = 0" "c div 16 < 16" by auto
    with None t True show ?thesis by (auto simp: char_text_def unicode_escape_def hex_digit_def)
  next
    case False
    with None t show ?thesis
      by (auto simp: char_text_def named_escape_def split: if_splits)
  qed
qed (auto simp: char_text_def named_escape_def split: if_splits)

lemma depth_scan_qbody:
  "no_surrogate s \<Longrightarrow> depth_scan d True False (qbody s @ 34 # r) = depth_scan d False False r"
proof (induction s)
  case (Cons c s)
  then obtain t where t: "char_text c = Inr t" using char_text_ok [of c] by (auto simp: no_surrogate_def)
  with Cons char_text_scan [OF t] show ?case by (simp add: qbody_def no_surrogate_def)
qed (simp add: qbody_def)

lemma int_str_plain: "list_all (\<lambda>c. c \<notin> {34, 91, 93, 123, 125}) (int_str i)"
proof -
  have "list_all (\<lambda>c. c \<notin> {34, 91, 93, 123, 125}) (dec n)" for n
    using dec_digits [of n] by (auto simp: list_all_iff is_digit_def)
  then show ?thesis by (simp add: int_str_def)
qed

text \<open>
  What the scan does over the texts of several values at one depth: it passes exactly when every
  value fits below the bound.
\<close>

definition scans :: "ustr \<Rightarrow> nat \<Rightarrow> bool" where
  "scans t k \<longleftrightarrow> (\<forall>d r. d \<le> 64 \<longrightarrow>
     depth_scan (int d) False False (t @ r) =
       (if d + k \<le> 64 then depth_scan (int d) False False r else Inl too_deep))"

lemma scans_D: "scans t k \<Longrightarrow> d \<le> 64 \<Longrightarrow>
   depth_scan (int d) False False (t @ r) =
     (if d + k \<le> 64 then depth_scan (int d) False False r else Inl too_deep)"
  by (simp add: scans_def)

lemma scans_intersperse:
  "list_all2 scans ts ks \<Longrightarrow> d \<le> 64 \<Longrightarrow>
   depth_scan (int d) False False (intersperse_comma ts @ r) =
     (if d + foldr max ks 0 \<le> 64 then depth_scan (int d) False False r else Inl too_deep)"
proof (induction ts ks rule: list_all2_induct)
  case (Cons t ts k ks)
  from Cons(1) have "depth_scan (int d) False False (t @ q) =
      (if d + k \<le> 64 then depth_scan (int d) False False q else Inl too_deep)" for q
    by (rule scans_D) (rule Cons.prems)
  with Cons show ?case by (cases ts) (auto simp: intersperse_Cons)
qed simp

text \<open>A bracketed text is one level deeper than its contents.\<close>

lemma scans_bracket:
  assumes "list_all2 scans ts ks" and "a \<in> {91, 123}" "b \<in> {93, 125}"
  shows "scans (a # intersperse_comma ts @ [b]) (Suc (foldr max ks 0))"
proof -
  have "depth_scan (int d) False False (a # intersperse_comma ts @ b # r) =
      (if d + Suc (foldr max ks 0) \<le> 64 then depth_scan (int d) False False r else Inl too_deep)"
    if "d \<le> 64" for d r
  proof (cases "d = 64")
    case False
    with that have "depth_scan (int (Suc d)) False False (intersperse_comma ts @ b # r) =
        (if Suc d + foldr max ks 0 \<le> 64 then depth_scan (int (Suc d)) False False (b # r) else Inl too_deep)"
      by (intro scans_intersperse assms(1)) simp
    with False that assms show ?thesis by (auto simp: max_depth_def add.commute)
  qed (use assms in \<open>auto simp: max_depth_def\<close>)
  then show ?thesis by (simp add: scans_def)
qed

lemma scans_plain: "list_all (\<lambda>c. c \<notin> {34, 91, 93, 123, 125}) t \<Longrightarrow> scans t 0"
  by (simp add: scans_def depth_scan_outside)

lemma scans_member:
  "no_surrogate k \<Longrightarrow> scans (jtext v) n \<Longrightarrow> scans (member_text (k, v)) n"
  by (simp add: scans_def member_text_pair depth_scan_qbody)

lemma scans_jtext: "canon_ok v \<Longrightarrow> scans (jtext v) (jdepth v)"
proof (induction v rule: jtext.induct)
  case (4 s)
  then show ?case by (simp add: scans_def quoted_qbody depth_scan_qbody)
next
  case (5 vs)
  then have "list_all2 scans (map jtext vs) (map jdepth vs)"
    by (auto simp: list_all2_conv_all_nth)
  then show ?case unfolding jtext_list jdepth.simps by (rule scans_bracket) auto
next
  case (6 d)
  let ?d = "sort_key fst d"
  have "list_all2 scans (map member_text ?d) (map (\<lambda>(k, v). jdepth v) ?d)"
    using 6 by (auto simp: list_all2_map1 list_all2_map2 list_all2_same intro!: scans_member)
  then have "scans (jtext (JDict d)) (Suc (foldr max (map (\<lambda>(k, v). jdepth v) ?d) 0))"
    unfolding jtext_dict by (rule scans_bracket) auto
  moreover have "foldr max (map (\<lambda>(k, v). jdepth v) ?d) 0 = foldr max (map (\<lambda>(k, v). jdepth v) d) 0"
    by (rule foldr_max_set) simp
  ultimately show ?case by simp
next
  case (3 i)
  then show ?case using int_str_plain by (simp add: scans_plain del: insert_iff)
qed (auto intro!: scans_plain simp: lit_def)

lemma reject_depth_jtext:
  "canon_ok v \<Longrightarrow> reject_excess_depth (jtext v) = (if jdepth v \<le> 64 then Inr () else Inl too_deep)"
  using scans_D [OF scans_jtext, of v 0 "[]"] by (simp add: reject_excess_depth_def)

subsection \<open>Loading what was canonicalized\<close>

lemma decode_canonical: "wf_json v \<Longrightarrow> decode_utf8 (concat (map encode_char (jtext v))) = Inr (jtext v)"
proof -
  assume wf: "wf_json v"
  obtain c t where ct: "jtext v = c # t" "c < 128"
    using jtext_small_hd [of v] by blast
  have "take 3 (concat (map encode_char (jtext v))) \<noteq> utf8_bom"
    using ct(2) by (auto simp: ct(1) encode_char_def utf8_bom_def)
  with utf8_roundtrip [OF scalar_jtext [OF wf]] show ?thesis by (simp add: decode_utf8_def)
qed

lemma set_sorted_dict: "set (sort_key fst (map (\<lambda>(k, v). (k, f v)) d)) = (\<lambda>(k, v). (k, f v)) ` set d"
  by simp

lemma canon_ok_sort [simp]: "canon_ok (sort_json v) = canon_ok v"
  by (induction v rule: sort_json.induct) auto

lemma wf_sort [simp]: "wf_json (sort_json v) = wf_json v"
proof (induction v rule: sort_json.induct)
  case (2 d)
  have "distinct (keys (sort_key fst (map (\<lambda>(k, v). (k, sort_json v)) d))) = distinct (keys d)"
    by simp
  with 2 show ?case unfolding sort_json.simps wf_json.simps by auto
qed auto

lemma jdepth_sort [simp]: "jdepth (sort_json v) = jdepth v"
proof (induction v rule: sort_json.induct)
  case (2 d)
  have "foldr max (map (\<lambda>(k, v). jdepth v) (sort_key fst (map (\<lambda>(k, v). (k, sort_json v)) d))) 0
      = foldr max (map (\<lambda>(k, v). jdepth v) d) 0"
  proof (rule foldr_max_set)
    have "jdepth (sort_json w) = jdepth w" if "(k, w) \<in> set d" for k w
      using that 2 by blast
    then show "set (map (\<lambda>(k, v). jdepth v) (sort_key fst (map (\<lambda>(k, v). (k, sort_json v)) d)))
        = set (map (\<lambda>(k, v). jdepth v) d)"
      unfolding set_map set_sort_key_fst image_image by (intro image_cong) auto
  qed
  then show ?case unfolding sort_json.simps jdepth.simps by simp
next
  case (1 vs)
  then show ?case by (simp add: comp_def cong: map_cong)
qed auto

lemma sort_key_idem: "sort_key f (sort_key f xs) = sort_key f xs"
  by (rule sort_key_id_if_sorted) simp

lemma jtext_sort [simp]: "jtext (sort_json v) = jtext v"
proof (induction v rule: sort_json.induct)
  case (2 d)
  let ?m = "map (\<lambda>(k, v). (k, sort_json v)) (sort_key fst d)"
  have "sort_key fst ?m = ?m"
    unfolding sort_key_map_snd by (simp only: sort_key_idem)
  moreover have "map member_text ?m = map member_text (sort_key fst d)"
    using 2 by (auto simp: member_text_def)
  ultimately show ?case unfolding sort_json_dict jtext_dict by (simp only:)
next
  case (1 vs)
  then show ?case by (simp add: comp_def cong: map_cong)
qed auto

text \<open>
  The bytes of an acceptable value load back to the value with its members sorted, if it nests no
  deeper than the declared maximum, and are refused as too deep otherwise.
\<close>

theorem load_json_canonical:
  assumes "wf_json v" and "canonical_bytes (py v) = Inr b"
  shows "load_json_bytes b = (if jdepth v \<le> max_depth then Inr (sort_json v) else Inl too_deep)"
proof -
  from assms have ok: "canon_ok v" and b: "b = concat (map encode_char (jtext v))"
    by (simp_all add: canonical_bytes_iff)
  have "canon_json (sort_json v) = Inr (jtext v)"
    using ok by (simp add: canon_json_iff)
  then show ?thesis
    using assms(1) ok
    by (simp add: load_json_bytes_def b decode_canonical reject_depth_jtext json_loads_jtext max_depth_def)
qed

end
