(* ===== verification/Frozen.thy ===== *)
theory Frozen
  imports JsonText
begin

text \<open>
  Frozen artifacts. Parsed expressions, rulebooks, snapshots, results, authorizations and receipts all
  keep their canonical text as the authority and rebuild their value from it with the strict
  loader: \<open>reload\<close> is \<open>load_json_bytes(canonical.encode("utf-8"))\<close>. The locale
  \<open>canonical_form\<close> states what the clients of such a pair rely on; canonicalization and
  reloading provide it.
\<close>

definition reload :: "ustr \<Rightarrow> exn + json" where
  "reload canonical = bindE (utf8_bytes canonical) load_json_bytes"

section \<open>The interface\<close>

locale canonical_form =
  fixes enc :: "'a \<Rightarrow> 'e + 't"
    and dcd :: "'t \<Rightarrow> 'e + 'a"
    and normal :: "'a \<Rightarrow> 'a"
    and carrier :: "'a \<Rightarrow> bool"
  assumes dcd_enc: "carrier v \<Longrightarrow> enc v = Inr t \<Longrightarrow> dcd t = Inr (normal v)"
    and enc_normal: "enc v = Inr t \<Longrightarrow> enc (normal v) = Inr t"
    and carrier_normal: "carrier v \<Longrightarrow> carrier (normal v)"
begin

lemma same_text_same_value:
  "carrier v \<Longrightarrow> carrier w \<Longrightarrow> enc v = Inr t \<Longrightarrow> enc w = Inr t \<Longrightarrow> normal v = normal w"
  using dcd_enc by (metis sum.inject(2))

lemma recode: "carrier v \<Longrightarrow> enc v = Inr t \<Longrightarrow> dcd t = Inr w \<Longrightarrow> enc w = Inr t"
  using dcd_enc enc_normal by (metis sum.inject(2))

lemma normal_idem: "carrier v \<Longrightarrow> enc v = Inr t \<Longrightarrow> normal (normal v) = normal v"
  using dcd_enc [of "normal v" t] dcd_enc [of v t] carrier_normal enc_normal by auto

lemma reload_normal: "carrier v \<Longrightarrow> enc v = Inr t \<Longrightarrow> dcd t = Inr w \<Longrightarrow> normal w = w"
  using dcd_enc normal_idem by (metis sum.inject(2))

end

section \<open>The implementation\<close>

definition loadable :: "json \<Rightarrow> bool" where
  "loadable v \<longleftrightarrow> wf_json v \<and> jdepth v \<le> max_depth"

lemma canon_json_bytes:
  assumes "wf_json v" "canon_json v = Inr c"
  shows "utf8_bytes c = Inr (concat (map encode_char c))" and "canonical_bytes (py v) = utf8_bytes c"
proof -
  have "canonical_bytes (py v) = Inr (concat (map encode_char (jtext v)))"
    using assms by (simp add: canonical_bytes_iff canon_json_iff)
  moreover show "canonical_bytes (py v) = utf8_bytes c"
    using assms(2) by (simp add: canonical_bytes_def)
  ultimately show "utf8_bytes c = Inr (concat (map encode_char c))"
    using assms(2) by (simp add: canon_json_iff)
qed

lemma reload_canonical:
  assumes "wf_json v" "canon_json v = Inr c"
  shows "reload c = (if jdepth v \<le> max_depth then Inr (sort_json v) else Inl too_deep)"
  using load_json_canonical [OF assms(1)] canon_json_bytes [OF assms]
  by (simp add: reload_def)

lemma canon_json_sort: "canon_json v = Inr c \<Longrightarrow> canon_json (sort_json v) = Inr c"
  using canon_json_iff [of v c] canon_json_iff [of "sort_json v" c] by simp

interpretation json_text: canonical_form canon_json reload sort_json loadable
proof
  fix v t
  assume "loadable v" "canon_json v = Inr t"
  then show "reload t = Inr (sort_json v)" 
    using reload_canonical [of v t] by (simp add: loadable_def)
qed (auto simp: canon_json_sort loadable_def)

end
