(* ===== verification/Decimal.thy ===== *)
theory Decimal
  imports Values
begin

text \<open>
  Exact numeric operands: \<open>_DECIMAL\<close>, \<open>_numeric_parts\<close>, \<open>_compare_magnitude\<close> and
  \<open>_compare_numeric\<close> of \<^verbatim>\<open>src/vfy/gate.py\<close>, which compare digit text without building a number,
  and the \<open>_DECIMAL_STRING\<close> of \<^verbatim>\<open>src/vfy/expr.py\<close>. The lemmas relate the comparison of
  digit text to the order of the rational numbers that the texts denote, written as a comparison of integers
  after scaling both sides to a common number of fraction digits.
\<close>

section \<open>Decimal text\<close>

text \<open>The groups of \<open>_DECIMAL\<close>: the sign, the integer digits and the fraction digits.\<close>

definition canonical_digits :: "ustr \<Rightarrow> bool" where
  "canonical_digits ds \<longleftrightarrow> ds \<noteq> [] \<and> list_all is_digit ds \<and> (hd ds = 48 \<longrightarrow> ds = [48])"

definition split_unsigned :: "ustr \<Rightarrow> (ustr \<times> ustr) option" where
  "split_unsigned t =
     (let whole = takeWhile is_digit t; rest = dropWhile is_digit t
      in if \<not> canonical_digits whole then None
         else (case rest of
                 [] \<Rightarrow> Some (whole, [])
               | c # fraction \<Rightarrow>
                   if c = 46 \<and> fraction \<noteq> [] \<and> list_all is_digit fraction
                   then Some (whole, fraction) else None))"

definition split_decimal :: "ustr \<Rightarrow> (bool \<times> ustr \<times> ustr) option" where
  "split_decimal t =
     (case t of
        c # r \<Rightarrow>
          if c = 45 then map_option (Pair True) (split_unsigned r)
          else map_option (Pair False) (split_unsigned t)
      | [] \<Rightarrow> None)"

definition decimal_string :: "ustr \<Rightarrow> bool" where
  "decimal_string t \<longleftrightarrow> split_decimal t \<noteq> None"

section \<open>Numeric parts\<close>

definition max_numeric_digits :: nat where
  "max_numeric_digits = 1024"

definition lstrip_zeros :: "ustr \<Rightarrow> ustr" where
  "lstrip_zeros ds = dropWhile (\<lambda>c. c = 48) ds"

definition rstrip_zeros :: "ustr \<Rightarrow> ustr" where
  "rstrip_zeros ds = rev (dropWhile (\<lambda>c. c = 48) (rev ds))"

text \<open>The sign 1 or -1, the integer digits and the fraction digits.\<close>

type_synonym numeric_parts = "int \<times> ustr \<times> ustr"

definition numeric_parts :: "json \<Rightarrow> numeric_parts option" where
  "numeric_parts v =
     (case v of
        JInt i \<Rightarrow> Some (if i < 0 then -1 else 1, dec (nat \<bar>i\<bar>), [])
      | JStr t \<Rightarrow>
          (case split_decimal t of
             None \<Rightarrow> None
           | Some (sign, whole, fraction) \<Rightarrow>
               if length whole + length fraction > max_numeric_digits then None
               else
                 (let whole = (if lstrip_zeros whole = [] then [48] else lstrip_zeros whole);
                      fraction = rstrip_zeros fraction;
                      negative = (sign \<and> (whole \<noteq> [48] \<or> fraction \<noteq> []))
                  in Some (if negative then -1 else 1, whole, fraction)))
      | _ \<Rightarrow> None)"

definition ljust_zeros :: "nat \<Rightarrow> ustr \<Rightarrow> ustr" where
  "ljust_zeros width ds = ds @ replicate (width - length ds) 48"

definition compare_magnitude :: "numeric_parts \<Rightarrow> numeric_parts \<Rightarrow> int" where
  "compare_magnitude first second =
     (let (_, whole_a, frac_a) = first; (_, whole_b, frac_b) = second
      in if length whole_a \<noteq> length whole_b
         then (if length whole_a < length whole_b then -1 else 1)
         else if whole_a \<noteq> whole_b
         then (if whole_a < whole_b then -1 else 1)
         else
           (let width = max (length frac_a) (length frac_b);
                padded_a = ljust_zeros width frac_a;
                padded_b = ljust_zeros width frac_b
            in if padded_a = padded_b then 0
               else if padded_a < padded_b then -1 else 1))"

definition compare_numeric :: "json \<Rightarrow> json \<Rightarrow> int option" where
  "compare_numeric left right =
     (case (numeric_parts left, numeric_parts right) of
        (Some first, Some second) \<Rightarrow>
          (if fst first \<noteq> fst second
           then Some (if fst first < fst second then -1 else 1)
           else
             (let order = compare_magnitude first second
              in Some (if fst first > 0 then order else - order)))
      | _ \<Rightarrow> None)"

section \<open>Digit text and numbers\<close>

text \<open>
  \<open>digits_number ds\<close> is the number that digits denote; \<open>scaled w (whole, frac)\<close> the value
  of a magnitude times ten to the power \<open>w\<close>.
\<close>

lemma undec_Nil [simp]: "undec [] = 0"
  by (simp add: undec_def)

lemma undec_append: "undec (xs @ ys) = undec xs * 10 ^ length ys + undec ys"
proof (induction ys rule: rev_induct)
  case (snoc y ys)
  have "undec (xs @ ys @ [y]) = 10 * undec (xs @ ys) + (y - 48)"
    by (metis append_assoc undec_snoc)
  with snoc show ?case by (simp add: undec_snoc algebra_simps)
qed simp

lemma undec_Cons: "undec (c # ds) = (c - 48) * 10 ^ length ds + undec ds"
  using undec_append [of "[c]" ds] by (simp add: undec_def)

lemma undec_zeros [simp]: "undec (replicate n 48) = 0"
  by (induction n) (simp_all add: undec_Cons)

lemma undec_less: "list_all is_digit ds \<Longrightarrow> undec ds < 10 ^ length ds"
proof (induction ds)
  case (Cons c ds)
  then have "c - 48 \<le> 9" "undec ds < 10 ^ length ds" by (auto simp: is_digit_def)
  then have "(c - 48) * 10 ^ length ds + undec ds < 9 * 10 ^ length ds + 10 ^ length ds"
    by (intro add_le_less_mono mult_right_mono) auto
  then show ?case by (simp add: undec_Cons)
qed simp

lemma undec_digits_less_iff:
  "list_all is_digit xs \<Longrightarrow> list_all is_digit ys \<Longrightarrow> length xs = length ys \<Longrightarrow>
     (undec xs < undec ys \<longleftrightarrow> xs < ys) \<and> (undec xs = undec ys \<longleftrightarrow> xs = ys)"
proof (induction xs arbitrary: ys)
  case (Cons x xs)
  then obtain y ys' where ys: "ys = y # ys'" by (cases ys) auto
  let ?n = "10 ^ length xs :: nat"
  have xy: "48 \<le> x" "48 \<le> y"
    using Cons.prems ys by (auto simp: is_digit_def)
  have ds: "list_all is_digit xs" "list_all is_digit ys'" and len: "length xs = length ys'"
    using Cons.prems ys by auto
  have b: "undec xs < ?n" "undec ys' < ?n"
    using undec_less [OF ds(1)] undec_less [OF ds(2)] len by simp_all
  have u: "undec (x # xs) = (x - 48) * ?n + undec xs" "undec ys = (y - 48) * ?n + undec ys'"
    using ys len by (simp_all add: undec_Cons)
  note IH = Cons.IH [OF ds len]
  consider "x < y" | "x = y" | "y < x" by linarith
  then show ?case
  proof cases
    case 1
    then have "(x - 48) * ?n + ?n \<le> (y - 48) * ?n"
      using xy mult_le_mono1 [of "Suc (x - 48)" "y - 48" ?n] by (simp add: Suc_le_eq diff_less_mono)
    with u b have "undec (x # xs) < undec ys" by linarith
    with 1 ys show ?thesis by simp
  next
    case 2
    with u IH ys show ?thesis by simp
  next
    case 3
    then have "(y - 48) * ?n + ?n \<le> (x - 48) * ?n"
      using xy mult_le_mono1 [of "Suc (y - 48)" "x - 48" ?n] by (simp add: Suc_le_eq diff_less_mono)
    with u b have "undec ys < undec (x # xs)" by linarith
    with 3 ys show ?thesis by simp
  qed
qed simp

section \<open>Comparison of magnitudes\<close>

definition scaled :: "nat \<Rightarrow> ustr \<Rightarrow> ustr \<Rightarrow> nat" where
  "scaled w whole frac = undec whole * 10 ^ w + undec frac * 10 ^ (w - length frac)"

lemma undec_ljust: "length frac \<le> w \<Longrightarrow> undec (ljust_zeros w frac) = undec frac * 10 ^ (w - length frac)"
  by (simp add: ljust_zeros_def undec_append)

lemma length_ljust: "length frac \<le> w \<Longrightarrow> length (ljust_zeros w frac) = w"
  by (simp add: ljust_zeros_def)

lemma digits_ljust: "list_all is_digit frac \<Longrightarrow> list_all is_digit (ljust_zeros w frac)"
  by (auto simp: ljust_zeros_def list_all_iff is_digit_def)

lemma fraction_less:
  assumes "list_all is_digit frac" "length frac \<le> w"
  shows "undec frac * 10 ^ (w - length frac) < 10 ^ w"
  using undec_less [OF digits_ljust [OF assms(1), of w]] assms(2)
  by (simp add: undec_ljust length_ljust)

lemma scaled_less:
  assumes "undec a < undec b" "list_all is_digit f" "length f \<le> w"
  shows "scaled w a f < scaled w b g"
proof -
  have "scaled w a f < undec a * 10 ^ w + 10 ^ w"
    unfolding scaled_def using fraction_less [OF assms(2,3)] by simp
  also have "\<dots> = Suc (undec a) * 10 ^ w" by simp
  also have "\<dots> \<le> undec b * 10 ^ w" using assms(1) by (intro mult_le_mono1) simp
  also have "\<dots> \<le> scaled w b g" by (simp add: scaled_def)
  finally show ?thesis .
qed

lemma canonical_lower:
  assumes "canonical_digits ds" "1 < length ds"
  shows "10 ^ (length ds - 1) \<le> undec ds"
proof -
  obtain c r where ds: "ds = c # r" using assms(2) by (cases ds) auto
  have "hd ds \<noteq> 48" using assms by (auto simp: canonical_digits_def)
  moreover have "48 \<le> c" using assms(1) ds by (simp add: canonical_digits_def is_digit_def)
  ultimately have "1 \<le> c - 48" using ds by simp
  then have "1 * 10 ^ length r \<le> (c - 48) * 10 ^ length r" by (rule mult_le_mono1)
  also have "\<dots> \<le> undec ds" by (simp add: ds undec_Cons)
  finally show ?thesis by (simp add: ds)
qed

lemma canonical_length_less:
  assumes "canonical_digits a" "canonical_digits b" "length a < length b"
  shows "undec a < undec b"
proof -
  have "undec a < 10 ^ length a" using assms(1) by (intro undec_less) (simp add: canonical_digits_def)
  also have "\<dots> \<le> 10 ^ (length b - 1)" using assms(3) by (intro power_increasing) auto
  also have "\<dots> \<le> undec b"
  proof (rule canonical_lower [OF assms(2)])
    have "a \<noteq> []" using assms(1) by (simp add: canonical_digits_def)
    then have "0 < length a" by simp
    with assms(3) show "1 < length b" by linarith
  qed
  finally show ?thesis .
qed

definition good_parts :: "numeric_parts \<Rightarrow> bool" where
  "good_parts p \<longleftrightarrow> (case p of (sign, whole, frac) \<Rightarrow> canonical_digits whole \<and> list_all is_digit frac)"

lemma compare_magnitude_sgn:
  assumes "good_parts (sa, a, f)" "good_parts (sb, b, g)" and "length f \<le> w" "length g \<le> w"
  shows "compare_magnitude (sa, a, f) (sb, b, g) = sgn (int (scaled w a f) - int (scaled w b g))"
proof -
  have ca: "canonical_digits a" and cb: "canonical_digits b"
    and df: "list_all is_digit f" and dg: "list_all is_digit g"
    and da: "list_all is_digit a" and db: "list_all is_digit b"
    using assms(1,2) by (auto simp: good_parts_def canonical_digits_def)
  note up = scaled_less [of a b f w g, OF _ df assms(3)] scaled_less [of b a g w f, OF _ dg assms(4)]
  let ?m = "max (length f) (length g)"
  show ?thesis
  proof (cases "length a = length b")
    case False
    then show ?thesis
      using up canonical_length_less [OF ca cb] canonical_length_less [OF cb ca]
      by (cases "length a < length b") (auto simp: compare_magnitude_def)
  next
    case len: True
    note ab = undec_digits_less_iff [OF da db len] undec_digits_less_iff [OF db da len [symmetric]]
    show ?thesis
    proof (cases "a = b")
      case False
      then show ?thesis
        using up ab len by (cases "a < b") (auto simp: compare_magnitude_def)
    next
      case True
      let ?p = "ljust_zeros ?m f" and ?q = "ljust_zeros ?m g"
      have pq: "(undec ?p < undec ?q \<longleftrightarrow> ?p < ?q) \<and> (undec ?p = undec ?q \<longleftrightarrow> ?p = ?q)"
        by (intro undec_digits_less_iff digits_ljust df dg) (simp add: length_ljust)
      have w: "scaled w a f = undec a * 10 ^ w + undec ?p * 10 ^ (w - ?m)"
        "scaled w b g = undec b * 10 ^ w + undec ?q * 10 ^ (w - ?m)"
        using assms(3,4) by (simp_all add: scaled_def undec_ljust mult.assoc flip: power_add)
      have ten: "(0 :: nat) < 10 ^ (w - ?m)" by simp
      have "compare_magnitude (sa, a, f) (sb, b, g) =
          (if undec ?p = undec ?q then 0 else if undec ?p < undec ?q then -1 else 1)"
        using pq True by (simp add: compare_magnitude_def Let_def)
      also have "\<dots> = sgn (int (undec ?p * 10 ^ (w - ?m)) - int (undec ?q * 10 ^ (w - ?m)))"
        using ten by (auto simp: sgn_if mult_less_cancel2 simp del: of_nat_mult)
      also have "\<dots> = sgn (int (scaled w a f) - int (scaled w b g))"
        unfolding w by (simp add: True)
      finally show ?thesis .
    qed
  qed
qed

section \<open>Comparison of operands\<close>

text \<open>
  The exact value of an operand, a numerator over a power of ten: what the comparison is meant to
  order. Text beyond the declared number of digits has no value.
\<close>

definition operand_value :: "json \<Rightarrow> (int \<times> nat) option" where
  "operand_value v =
     (case v of
        JInt i \<Rightarrow> Some (i, 0)
      | JStr t \<Rightarrow>
          (case split_decimal t of
             None \<Rightarrow> None
           | Some (sign, whole, fraction) \<Rightarrow>
               if length whole + length fraction > max_numeric_digits then None
               else Some ((if sign then -1 else 1) * int (undec (whole @ fraction)), length fraction))
      | _ \<Rightarrow> None)"

text \<open>\<open>parts_value w\<close> is the value of numeric parts times ten to the power \<open>w\<close>.\<close>

fun parts_value :: "nat \<Rightarrow> numeric_parts \<Rightarrow> int" where
  "parts_value w (sign, whole, frac) = sign * int (scaled w whole frac)"

definition parts_ok :: "numeric_parts \<Rightarrow> int \<Rightarrow> nat \<Rightarrow> bool" where
  "parts_ok p n s \<longleftrightarrow> good_parts p \<and> fst p \<in> {-1, 1} \<and> (fst p = -1 \<longrightarrow> n < 0) \<and>
     length (snd (snd p)) \<le> s \<and> parts_value s p = n"

lemma scaled_raise: "length frac \<le> s \<Longrightarrow> scaled (s + k) whole frac = scaled s whole frac * 10 ^ k"
proof -
  assume "length frac \<le> s"
  then have "s + k - length frac = (s - length frac) + k" by simp
  then show ?thesis by (simp add: scaled_def algebra_simps power_add)
qed

lemma parts_value_raise:
  "length (snd (snd p)) \<le> s \<Longrightarrow> parts_value (s + k) p = parts_value s p * 10 ^ k"
  by (cases p) (simp add: scaled_raise)

lemma split_unsigned_digits:
  "split_unsigned t = Some (whole, fraction) \<Longrightarrow> canonical_digits whole \<and> list_all is_digit fraction"
  by (auto simp: split_unsigned_def Let_def split: if_splits list.splits)

lemma split_decimal_digits:
  "split_decimal t = Some (sign, whole, fraction) \<Longrightarrow> canonical_digits whole \<and> list_all is_digit fraction"
  using split_unsigned_digits by (fastforce simp: split_decimal_def split: list.splits if_splits)

lemma lstrip_canonical:
  "canonical_digits ds \<Longrightarrow> (if lstrip_zeros ds = [] then [48] else lstrip_zeros ds) = ds"
  by (cases ds) (auto simp: canonical_digits_def lstrip_zeros_def)

lemma rstrip_replicate: "\<exists>k. ds = rstrip_zeros ds @ replicate k 48"
proof (induction ds rule: rev_induct)
  case (snoc d ds)
  show ?case
  proof (cases "d = 48")
    case True
    from snoc obtain k where "ds = rstrip_zeros ds @ replicate k 48" ..
    then have "ds @ [d] = rstrip_zeros ds @ replicate (Suc k) 48"
      using True by (metis append.assoc replicate_append_same replicate_Suc)
    moreover have "rstrip_zeros (ds @ [d]) = rstrip_zeros ds" using True by (simp add: rstrip_zeros_def)
    ultimately show ?thesis by metis
  next
    case False
    then have "rstrip_zeros (ds @ [d]) = ds @ [d]" by (simp add: rstrip_zeros_def)
    then show ?thesis by (metis append_Nil2 replicate_0)
  qed
qed (simp add: rstrip_zeros_def)

lemma rstrip_scaled:
  "length frac \<le> s \<Longrightarrow> scaled s whole (rstrip_zeros frac) = scaled s whole frac"
proof -
  assume s: "length frac \<le> s"
  obtain k where k: "frac = rstrip_zeros frac @ replicate k 48" using rstrip_replicate ..
  let ?r = "rstrip_zeros frac"
  have l: "length frac = length ?r + k" by (subst k) simp
  have "undec frac = undec ?r * 10 ^ k" by (subst k) (simp add: undec_append)
  moreover have "s - length ?r = k + (s - length frac)" using s l by simp
  ultimately show ?thesis by (simp add: scaled_def power_add)
qed

lemma rstrip_length: "length (rstrip_zeros frac) \<le> length frac"
  by (metis rstrip_replicate length_append le_add1)

lemma rstrip_digits: "list_all is_digit frac \<Longrightarrow> list_all is_digit (rstrip_zeros frac)"
  by (metis rstrip_replicate list_all_append)

lemma rstrip_Nil: "rstrip_zeros frac = [] \<Longrightarrow> undec frac = 0"
  by (metis rstrip_replicate append_Nil undec_zeros)

lemma canonical_dec: "canonical_digits (dec n)"
proof -
  have "dec n = [48]" if "hd (dec n) = 48" using hd_dec_zero [OF that] by simp
  then show ?thesis by (auto simp: canonical_digits_def dec_digits)
qed

lemma rstrip_all_zeros [simp]: "rstrip_zeros (replicate n 48) = []"
  by (simp add: rstrip_zeros_def dropWhile_replicate)

lemma undec_zero_iff:
  assumes "list_all is_digit ds"
  shows "undec ds = 0 \<longleftrightarrow> ds = replicate (length ds) 48"
proof -
  have "list_all is_digit (replicate (length ds) 48)" by (simp add: list_all_iff is_digit_def)
  from undec_digits_less_iff [OF assms this] show ?thesis by simp
qed

lemma zero_magnitude:
  assumes "canonical_digits whole" "list_all is_digit frac"
    and "undec whole * 10 ^ length frac + undec frac = 0"
  shows "whole = [48] \<and> rstrip_zeros frac = []"
proof
  from assms(3) have z: "undec whole = 0" "undec frac = 0" by auto
  have c: "list_all is_digit whole" "whole \<noteq> []" using assms(1) by (auto simp: canonical_digits_def)
  then have "whole = replicate (length whole) 48" using z(1) undec_zero_iff by blast
  then have "hd whole = 48" using c(2) by (metis hd_replicate length_0_conv)
  then show "whole = [48]" using assms(1) by (simp add: canonical_digits_def)
  have "frac = replicate (length frac) 48" using z(2) assms(2) undec_zero_iff by blast
  then show "rstrip_zeros frac = []" by (metis rstrip_all_zeros)
qed

lemma operand_parts:
  "operand_value v = Some (n, s) \<Longrightarrow> \<exists>p. numeric_parts v = Some p \<and> parts_ok p n s"
proof (cases v)
  case (JInt i)
  assume "operand_value v = Some (n, s)"
  with JInt have "n = i" "s = 0" by (simp_all add: operand_value_def)
  then show ?thesis
    using JInt canonical_dec
    by (auto simp: numeric_parts_def parts_ok_def good_parts_def scaled_def)
next
  case (JStr t)
  assume ov: "operand_value v = Some (n, s)"
  with JStr obtain sign whole fraction where t: "split_decimal t = Some (sign, whole, fraction)"
    and len: "\<not> length whole + length fraction > max_numeric_digits"
    and n: "n = (if sign then -1 else 1) * int (undec (whole @ fraction))" and s: "s = length fraction"
    by (auto simp: operand_value_def split: option.splits if_splits)
  note d = split_decimal_digits [OF t]
  let ?neg = "sign \<and> (whole \<noteq> [48] \<or> rstrip_zeros fraction \<noteq> [])"
  let ?p = "(if ?neg then -1 else 1 :: int, whole, rstrip_zeros fraction)"
  have np: "numeric_parts v = Some ?p"
    using JStr t len d lstrip_canonical [of whole] by (simp add: numeric_parts_def Let_def)
  have val: "scaled s whole (rstrip_zeros fraction) = undec (whole @ fraction)"
    unfolding s by (simp add: rstrip_scaled scaled_def [of _ _ fraction] undec_append)
  have pos: "0 < undec (whole @ fraction)" if ?neg
  proof (rule ccontr)
    assume "\<not> 0 < undec (whole @ fraction)"
    then have "undec whole * 10 ^ length fraction + undec fraction = 0" by (simp add: undec_append)
    with zero_magnitude [of whole fraction] d that show False by blast
  qed
  have zero: "undec (whole @ fraction) = 0" if "\<not> ?neg" sign
    using that rstrip_Nil [of fraction] by (auto simp: undec_append undec_Cons)
  have "parts_value s ?p = n"
    using n val zero by (cases ?neg) auto
  with pos d n s have "parts_ok ?p n s"
    by (auto simp: parts_ok_def good_parts_def rstrip_digits rstrip_length)
  with np show ?thesis by blast
qed (simp_all add: operand_value_def)

lemma operand_no_parts: "operand_value v = None \<Longrightarrow> numeric_parts v = None"
  by (cases v) (auto simp: operand_value_def numeric_parts_def split: option.splits if_splits)

lemma compare_numeric_exact:
  assumes l: "operand_value left = Some (n, s)" and r: "operand_value right = Some (m, k)"
  shows "compare_numeric left right = Some (sgn (n * 10 ^ k - m * 10 ^ s))"
proof -
  obtain p where p: "numeric_parts left = Some p" "parts_ok p n s" using operand_parts [OF l] by blast
  obtain q where q: "numeric_parts right = Some q" "parts_ok q m k" using operand_parts [OF r] by blast
  obtain sp a f where pp: "p = (sp, a, f)" by (cases p)
  obtain sq b g where qq: "q = (sq, b, g)" by (cases q)
  let ?A = "int (scaled (s + k) a f)" and ?B = "int (scaled (s + k) b g)"
  have vp: "sp * ?A = n * 10 ^ k"
    using p(2) pp parts_value_raise [of p s k] by (simp add: parts_ok_def)
  have vq: "sq * ?B = m * 10 ^ s"
    using q(2) qq parts_value_raise [of q k s] by (simp add: parts_ok_def add.commute)
  have sgn: "sp = -1 \<or> sp = 1" "sq = -1 \<or> sq = 1" "sp = -1 \<Longrightarrow> n < 0" "sq = -1 \<Longrightarrow> m < 0"
    using p(2) q(2) pp qq by (auto simp: parts_ok_def)
  have pos: "sp = 1 \<Longrightarrow> 0 \<le> n * 10 ^ k" "sq = 1 \<Longrightarrow> 0 \<le> m * 10 ^ s"
    using vp vq by (metis mult_1 of_nat_0_le_iff)+
  have neg: "sp = -1 \<Longrightarrow> n * 10 ^ k < 0" "sq = -1 \<Longrightarrow> m * 10 ^ s < 0"
    using sgn(3,4) by (auto simp: mult_less_0_iff)
  have mag: "compare_magnitude p q = sgn (?A - ?B)"
    unfolding pp qq using p(2) q(2) pp qq
    by (intro compare_magnitude_sgn) (auto simp: parts_ok_def)
  show ?thesis
  proof (cases "sp = sq")
    case True
    have "sgn (n * 10 ^ k - m * 10 ^ s) = sgn (sp * (?A - ?B))"
      using vp vq True by (simp add: right_diff_distrib)
    also have "\<dots> = sp * sgn (?A - ?B)" using sgn(1) by (auto simp: sgn_if)
    finally show ?thesis
      using p(1) q(1) pp qq True mag sgn(1) by (auto simp: compare_numeric_def Let_def)
  next
    case False
    then show ?thesis
      using p(1) q(1) pp qq sgn(1,2) pos neg by (auto simp: compare_numeric_def sgn_if)
  qed
qed

section \<open>Property\<close>

text \<open>
  C21. The comparison of digit text orders operands exactly as the decimal numbers they denote, at
  any difference of scale, and leaves every other operand, or one with more than 1024 digits,
  unordered.
\<close>

theorem compare_numeric_correct:
  "compare_numeric left right =
     (case (operand_value left, operand_value right) of
        (Some (n, s), Some (m, k)) \<Rightarrow> Some (sgn (n * 10 ^ k - m * 10 ^ s))
      | _ \<Rightarrow> None)"
proof -
  consider (l) "operand_value left = None" | (r) "operand_value right = None"
    | (both) n s m k where "operand_value left = Some (n, s)" "operand_value right = Some (m, k)"
    by (cases "operand_value left"; cases "operand_value right") auto
  then show ?thesis
  proof cases
    case l
    then show ?thesis by (simp add: compare_numeric_def operand_no_parts)
  next
    case r
    then show ?thesis
      by (auto simp: compare_numeric_def operand_no_parts split: option.split)
  next
    case both
    then show ?thesis by (simp add: compare_numeric_exact)
  qed
qed

end
