(* ===== verification/Yaml.thy ===== *)
theory Yaml
  imports Regex Frozen Decimal
begin

text \<open>
  The YAML half of \<^verbatim>\<open>src/vfy/load.py\<close>: the typing of plain scalars and the construction of
  the value from the parser's event stream. The parser itself is PyYAML's \<open>yaml.parse\<close>, a
  parameter that gives the events of a text, \<open>None\<close> for a \<open>YAMLError\<close>.
\<close>

section \<open>Events\<close>

datatype yaml_event =
    StreamStart
  | StreamEnd
  | DocumentStart
  | DocumentEnd
  | AliasEvent
  | Scalar (ev_anchor: "ustr option") (ev_tag: "ustr option") (ev_style: "ustr option") (ev_value: ustr)
  | MappingStart (ev_anchor: "ustr option") (ev_tag: "ustr option")
  | SequenceStart (ev_anchor: "ustr option") (ev_tag: "ustr option")
  | MappingEnd
  | SequenceEnd

definition truthy_text :: "ustr option \<Rightarrow> bool" where
  "truthy_text t \<longleftrightarrow> t \<noteq> None \<and> t \<noteq> Some []"

definition plain_style :: "ustr option \<Rightarrow> bool" where
  "plain_style s \<longleftrightarrow> s = None \<or> s = Some []"

text \<open>\<open>getattr(event, "anchor", None)\<close>.\<close>

fun anchored :: "yaml_event \<Rightarrow> bool" where
  "anchored (Scalar a t s v) = truthy_text a"
| "anchored (MappingStart a t) = truthy_text a"
| "anchored (SequenceStart a t) = truthy_text a"
| "anchored _ = False"

section \<open>Plain scalars\<close>

definition canonical_integer :: rex where
  "canonical_integer =
     Seq (maybe (chars ''-''))
       (Alt (chars ''0'') (Seq (OneOf [from_to CHR ''1'' CHR ''9'']) (Many digit)))"

definition reserved_booleans :: "ustr list" where
  "reserved_booleans = map lit
     [''True'', ''False'', ''TRUE'', ''FALSE'', ''yes'', ''Yes'', ''YES'', ''no'', ''No'', ''NO'',
      ''on'', ''On'', ''ON'', ''off'', ''Off'', ''OFF'']"

definition reserved_nulls :: "ustr list" where
  "reserved_nulls = map lit [''~'', ''Null'', ''NULL'', '''']"

definition sign :: rex where
  "sign = chars ''-+''"

definition reserved_integer_notation :: rex where
  "reserved_integer_notation = alts
     [seqs [maybe sign, chars ''0'', chars ''xX'',
            some_of (OneOf [from_to CHR ''0'' CHR ''9'', from_to CHR ''a'' CHR ''f'',
                         from_to CHR ''A'' CHR ''F'', from_to CHR ''_'' CHR ''_''])],
      seqs [maybe sign, chars ''0'', chars ''bB'', some_of (chars ''01_'')],
      seqs [maybe sign, chars ''0'', chars ''oO'',
            some_of (OneOf [from_to CHR ''0'' CHR ''7'', from_to CHR ''_'' CHR ''_''])],
      seqs [maybe sign, digit, Many (Alt digit (chars ''_'')),
            some_of (seqs [chars '':'', maybe (OneOf [from_to CHR ''0'' CHR ''5'']), digit])],
      seqs [chars ''+'', some_of digit],
      seqs [maybe (chars ''-''), chars ''0'', some_of digit]]"

definition one_or_two_digits :: rex where
  "one_or_two_digits = Seq digit (maybe digit)"

definition reserved_timestamp :: rex where
  "reserved_timestamp =
     seqs [times 4 digit, chars ''-'', one_or_two_digits, chars ''-'', one_or_two_digits,
           maybe (seqs [chars ''Tt '', one_or_two_digits, chars '':'', times 2 digit, chars '':'', times 2 digit,
                        maybe (seqs [chars ''.'', Many digit]),
                        maybe (seqs [Many (chars '' ''),
                          maybe (Alt (chars ''Zz'')
                                   (seqs [sign, one_or_two_digits,
                                          maybe (seqs [chars '':'', times 2 digit])]))])])]"

definition reserved_float :: rex where
  "reserved_float = alts
     [seqs [maybe sign,
            Alt (seqs [chars ''.'', some_of digit])
                (seqs [some_of digit, maybe (seqs [chars ''.'', Many digit])]),
            maybe (seqs [chars ''eE'', maybe sign, some_of digit])],
      seqs [maybe sign, chars ''.'',
            alts (map exactly [''inf'', ''Inf'', ''INF'', ''nan'', ''NaN'', ''NAN''])]]"

definition plain_scalar :: "ustr \<Rightarrow> exn + json" where
  "plain_scalar t =
     (if t = lit ''true'' then Inr (JBool True)
      else if t = lit ''false'' then Inr (JBool False)
      else if t = lit ''null'' then Inr JNull
      else if rmatch canonical_integer t
      then bindE (integer_within_interval t) (\<lambda>value. Inr (JInt value))
      else if t \<in> set reserved_booleans \<or> t \<in> set reserved_nulls
      then fail SourceConstructUnsupported ''Only lowercase true, false, and null are typed; quote this scalar or write it canonically.''
      else if rmatch reserved_integer_notation t \<or> rmatch reserved_timestamp t
      then fail SourceConstructUnsupported ''This plain scalar resolves to a number or a timestamp in some YAML implementations; quote it or write a canonical integer.''
      else if rmatch reserved_float t then reject_float
      else Inr (JStr t))"

definition yaml_scalar_value :: "ustr option \<Rightarrow> ustr option \<Rightarrow> ustr \<Rightarrow> exn + json" where
  "yaml_scalar_value tag style value =
     (if truthy_text tag
      then fail_with SourceConstructUnsupported ''An explicit tag is not part of the subset: '' (the tag)
      else if plain_style style then plain_scalar value
      else Inr (JStr value))"

section \<open>Building the value\<close>

datatype yaml_frame =
    MapFrame "(ustr \<times> json) list" "ustr option" "ustr list"
  | SeqFrame "json list"

type_synonym yaml_state = "yaml_frame list \<times> json option"

definition merge_key :: ustr where
  "merge_key = lit ''<<''"

fun place :: "yaml_state \<Rightarrow> json \<Rightarrow> exn + yaml_state" where
  "place ([], root) value = Inr ([], Some value)"
| "place (SeqFrame vs # stack, root) value = Inr (SeqFrame (vs @ [value]) # stack, root)"
| "place (MapFrame m None ks # stack, root) value =
     (case value of
        JStr key \<Rightarrow>
          (if key = merge_key
           then fail SourceConstructUnsupported ''A merge key is not part of the subset.''
           else if key \<in> set ks
           then fail CanonicalFormInvalid ''Duplicate mapping key in source.''
           else Inr (MapFrame m (Some key) (ks @ [key]) # stack, root))
      | _ \<Rightarrow> fail CanonicalFormInvalid ''Mapping keys are always strings in the subset.'')"
| "place (MapFrame m (Some key) ks # stack, root) value =
     Inr (MapFrame (dset key value m) None ks # stack, root)"

definition open_frame :: "ustr option \<Rightarrow> yaml_frame \<Rightarrow> yaml_state \<Rightarrow> exn + yaml_state" where
  "open_frame tag frame st =
     (if truthy_text tag
      then fail_with SourceConstructUnsupported ''An explicit tag is not part of the subset: '' (the tag)
      else if Suc (length (fst st)) > max_depth then Inl too_deep
      else Inr (frame # fst st, snd st))"

fun close_frame :: "yaml_state \<Rightarrow> exn + yaml_state" where
  "close_frame ([], root) = Inl (PyErr PyIndexError (lit ''pop from empty list''))"
| "close_frame (MapFrame m (Some key) ks # stack, root) =
     fail SourceSyntaxInvalid ''Mapping ended with a key and no value.''"
| "close_frame (MapFrame m None ks # stack, root) = place (stack, root) (JDict m)"
| "close_frame (SeqFrame vs # stack, root) = place (stack, root) (JList vs)"

definition yaml_step :: "yaml_state \<Rightarrow> yaml_event \<Rightarrow> exn + yaml_state" where
  "yaml_step st event =
     (if event = AliasEvent
      then fail SourceConstructUnsupported ''An alias is not part of the subset.''
      else if anchored event
      then fail SourceConstructUnsupported ''An anchor is not part of the subset.''
      else case event of
        Scalar anchor tag style value \<Rightarrow> bindE (yaml_scalar_value tag style value) (place st)
      | MappingStart anchor tag \<Rightarrow> open_frame tag (MapFrame [] None []) st
      | SequenceStart anchor tag \<Rightarrow> open_frame tag (SeqFrame []) st
      | MappingEnd \<Rightarrow> close_frame st
      | SequenceEnd \<Rightarrow> close_frame st
      | _ \<Rightarrow> Inr st)"

fun yaml_run :: "yaml_state \<Rightarrow> yaml_event list \<Rightarrow> exn + yaml_state" where
  "yaml_run st [] = Inr st"
| "yaml_run st (event # events) = bindE (yaml_step st event) (\<lambda>st. yaml_run st events)"

definition malformed_yaml :: "exn + 'a" where
  "malformed_yaml = fail SourceSyntaxInvalid ''Source is not well-formed YAML.''"

text \<open>The document between its start and end events: the checks on its root, and the loop.\<close>

fun empty_document :: "yaml_event list \<Rightarrow> bool" where
  "empty_document [Scalar anchor tag style value] = (plain_style style \<and> value = [])"
| "empty_document _ = False"

fun mapping_root :: "yaml_event list \<Rightarrow> bool" where
  "mapping_root (MappingStart anchor tag # _) = True"
| "mapping_root _ = False"

fun yaml_root :: "yaml_state \<Rightarrow> exn + json" where
  "yaml_root ([], Some value) = Inr value"
| "yaml_root _ = malformed_yaml"

definition value_of_body :: "yaml_event list \<Rightarrow> exn + json" where
  "value_of_body body =
     (if empty_document body
      then fail SourceSyntaxInvalid ''Source contains an empty document.''
      else if \<not> mapping_root body
      then fail SourceConstructUnsupported ''The root of a YAML document must be a mapping.''
      else bindE (yaml_run ([], None) body) yaml_root)"

definition value_from_yaml_events :: "yaml_event list \<Rightarrow> exn + json" where
  "value_from_yaml_events events =
     (let starts = filter (\<lambda>i. events ! i = DocumentStart) [0 ..< length events];
          ends = filter (\<lambda>i. events ! i = DocumentEnd) [0 ..< length events]
      in if starts = [] then fail SourceSyntaxInvalid ''Source contains no document.''
         else if length starts > 1 then fail SourceSyntaxInvalid ''Source contains more than one document.''
         else if ends = [] then Inl (PyErr PyStopIteration [])
         else value_of_body (drop (hd starts + 1) (take (hd ends) events)))"

definition load_yaml_bytes :: "(ustr \<Rightarrow> yaml_event list option) \<Rightarrow> bytes \<Rightarrow> exn + json" where
  "load_yaml_bytes yaml_parse data =
     bindE (decode_utf8 data) (\<lambda>text.
       case yaml_parse text of
         None \<Rightarrow> malformed_yaml
       | Some events \<Rightarrow>
           bindE (value_from_yaml_events events) (\<lambda>value.
           bindE (canon_json value) (\<lambda>_. Inr value)))"

section \<open>What the builder admits\<close>

text \<open>
  Frames hold well-formed values that leave room for the containers around them. The strings of the
  events are Python strings.
\<close>

fun event_strings_ok :: "yaml_event \<Rightarrow> bool" where
  "event_strings_ok (Scalar a t s v) = wf_str v"
| "event_strings_ok _ = True"

definition fits :: "nat \<Rightarrow> json \<Rightarrow> bool" where
  "fits h v \<longleftrightarrow> wf_json v \<and> h + jdepth v \<le> max_depth"

fun frame_ok :: "nat \<Rightarrow> yaml_frame \<Rightarrow> bool" where
  "frame_ok h (SeqFrame vs) \<longleftrightarrow> (\<forall>v \<in> set vs. fits h v)"
| "frame_ok h (MapFrame m p ks) \<longleftrightarrow>
     distinct (keys m) \<and> (\<forall>(k, v) \<in> set m. wf_str k \<and> fits h v) \<and> (\<forall>k. p = Some k \<longrightarrow> wf_str k)"

fun frames_ok :: "yaml_frame list \<Rightarrow> bool" where
  "frames_ok [] \<longleftrightarrow> True"
| "frames_ok (f # fs) \<longleftrightarrow> Suc (length fs) \<le> max_depth \<and> frame_ok (Suc (length fs)) f \<and> frames_ok fs"

definition yaml_state_ok :: "yaml_state \<Rightarrow> bool" where
  "yaml_state_ok st \<longleftrightarrow> frames_ok (fst st) \<and> (\<forall>v. snd st = Some v \<longrightarrow> fits 0 v)"

lemma dset_in: "(k', v') \<in> set (dset k v d) \<Longrightarrow> (k', v') = (k, v) \<or> (k', v') \<in> set d"
  by (induction d) (auto split: if_splits)

lemma place_ok:
  "place st v = Inr st' \<Longrightarrow> yaml_state_ok st \<Longrightarrow> fits (length (fst st)) v \<Longrightarrow> yaml_state_ok st'"
proof (induction st v rule: place.induct)
  case (3 m ks stack root v)
  then show ?case
    by (auto simp: yaml_state_ok_def fits_def split: json.splits if_splits)
next
  case (4 m key ks stack root v)
  then show ?case
    by (auto simp: yaml_state_ok_def distinct_keys_dset dest!: dset_in)
qed (auto simp: yaml_state_ok_def)

lemma place_length: "place st v = Inr st' \<Longrightarrow> length (fst st') = length (fst st)"
  by (induction st v rule: place.induct) (auto split: json.splits if_splits)

lemma plain_scalar_fits: "plain_scalar t = Inr v \<Longrightarrow> wf_str t \<Longrightarrow> wf_json v \<and> jdepth v = 0"
  by (auto simp: plain_scalar_def result_simps reject_float_def split: if_splits)

lemma yaml_scalar_fits: "yaml_scalar_value tag style t = Inr v \<Longrightarrow> wf_str t \<Longrightarrow> wf_json v \<and> jdepth v = 0"
  using plain_scalar_fits by (auto simp: yaml_scalar_value_def split: if_splits)

lemma frames_length: "frames_ok fs \<Longrightarrow> length fs \<le> max_depth"
  by (cases fs) auto

lemma fits_list: "\<forall>v \<in> set vs. fits (Suc h) v \<Longrightarrow> Suc h \<le> max_depth \<Longrightarrow> fits h (JList vs)"
proof -
  assume a: "\<forall>v \<in> set vs. fits (Suc h) v" "Suc h \<le> max_depth"
  then have "foldr max (map jdepth vs) 0 \<le> max_depth - Suc h"
    unfolding foldr_max_le_iff by (auto simp: fits_def)
  with a show ?thesis by (auto simp: fits_def)
qed

lemma fits_dict:
  assumes "distinct (keys m)" "\<forall>(k, v) \<in> set m. wf_str k \<and> fits (Suc h) v" "Suc h \<le> max_depth"
  shows "fits h (JDict m)"
proof -
  have "foldr max (map (\<lambda>(k, v). jdepth v) m) 0 \<le> max_depth - Suc h"
    unfolding foldr_max_le_iff using assms(2) by (auto simp: fits_def)
  with assms show ?thesis by (auto simp: fits_def)
qed

lemma close_ok: "close_frame st = Inr st' \<Longrightarrow> yaml_state_ok st \<Longrightarrow> yaml_state_ok st'"
proof (induction st rule: close_frame.induct)
  case (3 m ks stack root)
  then have ok: "yaml_state_ok (stack, root)" "Suc (length stack) \<le> max_depth"
    "frame_ok (Suc (length stack)) (MapFrame m None ks)" by (simp_all add: yaml_state_ok_def)
  have "fits (length (fst (stack, root))) (JDict m)"
    using fits_dict [of m "length stack"] ok(2,3) by simp
  with "3.prems"(1) ok(1) show ?case by (simp only: close_frame.simps place_ok)
next
  case (4 vs stack root)
  then have ok: "yaml_state_ok (stack, root)" "Suc (length stack) \<le> max_depth"
    "frame_ok (Suc (length stack)) (SeqFrame vs)" by (simp_all add: yaml_state_ok_def)
  have "fits (length (fst (stack, root))) (JList vs)"
    using fits_list [of vs "length stack"] ok(2,3) by simp
  with "4.prems"(1) ok(1) show ?case by (simp only: close_frame.simps place_ok)
qed simp_all

lemma open_ok:
  "open_frame tag f st = Inr st' \<Longrightarrow> yaml_state_ok st \<Longrightarrow> frame_ok (Suc (length (fst st))) f \<Longrightarrow> yaml_state_ok st'"
  by (auto simp: open_frame_def yaml_state_ok_def split: if_splits)

lemma yaml_step_event:
  "yaml_step st (MappingStart a t) = Inr st' \<Longrightarrow> open_frame t (MapFrame [] None []) st = Inr st'"
  "yaml_step st (SequenceStart a t) = Inr st' \<Longrightarrow> open_frame t (SeqFrame []) st = Inr st'"
  "yaml_step st MappingEnd = close_frame st" "yaml_step st SequenceEnd = close_frame st"
  "yaml_step st (Scalar a t s v) = Inr st' \<Longrightarrow> bindE (yaml_scalar_value t s v) (place st) = Inr st'"
  "yaml_step st StreamStart = Inr st" "yaml_step st StreamEnd = Inr st"
  "yaml_step st DocumentStart = Inr st" "yaml_step st DocumentEnd = Inr st"
  "yaml_step st AliasEvent = Inr st' \<Longrightarrow> False"
  by (simp_all add: yaml_step_def split: if_splits)

lemma yaml_step_ok:
  assumes "yaml_step st event = Inr st'" "yaml_state_ok st" "event_strings_ok event"
  shows "yaml_state_ok st'"
proof (cases event)
  case (Scalar a t s v)
  with assms(1) have "bindE (yaml_scalar_value t s v) (place st) = Inr st'"
    by (simp add: yaml_step_event(5))
  then obtain w where w: "yaml_scalar_value t s v = Inr w" "place st w = Inr st'"
    unfolding bindE_Inr_iff by blast
  with assms(3) Scalar have "wf_json w \<and> jdepth w = 0" using yaml_scalar_fits by auto
  moreover have "length (fst st) \<le> max_depth"
    using assms(2) frames_length by (simp add: yaml_state_ok_def)
  ultimately show ?thesis using place_ok [OF w(2) assms(2)] by (simp add: fits_def)
next
  case (MappingStart a t)
  with assms(1) yaml_step_event(1) have "open_frame t (MapFrame [] None []) st = Inr st'" by blast
  then show ?thesis using assms(2) by (rule open_ok) (simp add: keys_def)
next
  case (SequenceStart a t)
  with assms(1) yaml_step_event(2) have "open_frame t (SeqFrame []) st = Inr st'" by blast
  then show ?thesis using assms(2) by (rule open_ok) simp
next
  case MappingEnd
  with assms yaml_step_event(3) show ?thesis by (auto intro: close_ok)
next
  case SequenceEnd
  with assms yaml_step_event(4) show ?thesis by (auto intro: close_ok)
next
  case AliasEvent
  with assms(1) yaml_step_event(10) show ?thesis by blast
qed (use assms yaml_step_event(6-9) in simp_all)

lemma yaml_run_ok:
  "yaml_run st events = Inr st' \<Longrightarrow> yaml_state_ok st \<Longrightarrow> (\<forall>e \<in> set events. event_strings_ok e) \<Longrightarrow> yaml_state_ok st'"
  by (induction st events rule: yaml_run.induct) (auto simp: result_simps intro: yaml_step_ok)

lemma value_of_body_run: "value_of_body body = Inr v \<Longrightarrow> yaml_run ([], None) body = Inr ([], Some v)"
  by (auto simp: value_of_body_def bindE_Inr_iff malformed_yaml_def split: if_splits elim: yaml_root.elims)

lemma value_from_events_fits:
  assumes "value_from_yaml_events events = Inr v" "\<forall>e \<in> set events. event_strings_ok e"
  shows "fits 0 v"
proof -
  obtain n m where "value_of_body (drop n (take m events)) = Inr v"
    using assms(1) by (auto simp: value_from_yaml_events_def Let_def split: if_splits)
  from yaml_run_ok [OF value_of_body_run [OF this]] assms(2) show ?thesis
    by (auto simp: yaml_state_ok_def dest: in_set_dropD in_set_takeD)
qed

lemma load_yaml_loadable:
  assumes "load_yaml_bytes parser data = Inr v"
    and "\<And>t events. parser t = Some events \<Longrightarrow> \<forall>e \<in> set events. event_strings_ok e"
  shows "loadable v \<and> canon_ok v"
proof -
  obtain t events where "parser t = Some events" "value_from_yaml_events events = Inr v"
    and c: "\<exists>c. canon_json v = Inr c"
    using assms(1) by (auto simp: load_yaml_bytes_def result_simps malformed_yaml_def split: option.splits)
  moreover from c have "canon_ok v" using canon_json_iff by blast
  ultimately show ?thesis
    using value_from_events_fits assms(2) by (fastforce simp: loadable_def fits_def)
qed

section \<open>Writing a value as events\<close>

text \<open>
  The specification of the builder: \<open>events_of v\<close> is the stream in which every string is quoted
  and every other scalar plain, as a YAML writer of canonical values emits it.
\<close>

fun events_of :: "json \<Rightarrow> yaml_event list" where
  "events_of (JStr s) = [Scalar None None (Some [34]) s]"
| "events_of (JInt i) = [Scalar None None None (int_str i)]"
| "events_of (JBool b) = [Scalar None None None (lit (if b then ''true'' else ''false''))]"
| "events_of JNull = [Scalar None None None (lit ''null'')]"
| "events_of (JList vs) = SequenceStart None None # concat (map events_of vs) @ [SequenceEnd]"
| "events_of (JDict d) = MappingStart None None #
     concat (map (\<lambda>(k, v). Scalar None None (Some [34]) k # events_of v) d) @ [MappingEnd]"

fun no_merge :: "json \<Rightarrow> bool" where
  "no_merge (JList vs) = (\<forall>v \<in> set vs. no_merge v)"
| "no_merge (JDict d) = (\<forall>(k, v) \<in> set d. k \<noteq> merge_key \<and> no_merge v)"
| "no_merge _ = True"

lemma digits_star: "list_all is_digit ds \<Longrightarrow> ds \<in> star (lang digit)"
proof (induction ds)
  case (Cons c ds)
  then have "[c] \<in> lang digit"
    by (simp add: digit_def in_ranges_def from_to_def is_digit_def)
  moreover have "ds \<in> star (lang digit)" using Cons by simp
  ultimately have "[c] @ ds \<in> star (lang digit)" by (rule star_Cons)
  then show ?case by simp
qed (simp add: star_Nil)

lemma canonical_digits_lang:
  assumes "canonical_digits ds"
  shows "ds \<in> lang (Alt (chars ''0'') (Seq (OneOf [from_to CHR ''1'' CHR ''9'']) (Many digit)))"
proof -
  obtain c r where ds: "ds = c # r" using assms by (cases ds) (auto simp: canonical_digits_def)
  show ?thesis
  proof (cases "c = 48")
    case True
    with assms ds have "ds = [48]" by (simp add: canonical_digits_def)
    then show ?thesis by (simp add: chars_def in_ranges_def)
  next
    case False
    with assms ds have "49 \<le> c" "c \<le> 57" "list_all is_digit r"
      by (auto simp: canonical_digits_def is_digit_def [of c])
    then have "[c] \<in> lang (OneOf [from_to CHR ''1'' CHR ''9''])" "r \<in> lang (Many digit)"
      by (simp_all add: in_ranges_def from_to_def digits_star)
    then have "[c] @ r \<in> lang (Seq (OneOf [from_to CHR ''1'' CHR ''9'']) (Many digit))"
      unfolding lang.simps(4) by blast
    then show ?thesis using ds by simp
  qed
qed

lemma canonical_integer_int_str: "rmatch canonical_integer (int_str i)"
proof -
  have d: "dec n \<in> lang (Alt (chars ''0'') (Seq (OneOf [from_to CHR ''1'' CHR ''9'']) (Many digit)))" for n
    by (intro canonical_digits_lang canonical_dec)
  have "[] \<in> lang (maybe (chars ''-''))" "[45] \<in> lang (maybe (chars ''-''))"
    by (simp_all add: maybe_def chars_def in_ranges_def)
  then have "[] @ dec n \<in> lang canonical_integer" "[45] @ dec n \<in> lang canonical_integer" for n
    unfolding canonical_integer_def lang.simps(4) using d by blast+
  then show ?thesis by (simp add: rmatch_iff int_str_def)
qed

lemma int_str_not_word: "int_str i \<noteq> lit ''true''" "int_str i \<noteq> lit ''false''" "int_str i \<noteq> lit ''null''"
  using int_str_hd [of i] by (auto simp: lit_def is_digit_def)

lemma plain_scalar_int: "safe_int i \<Longrightarrow> plain_scalar (int_str i) = Inr (JInt i)"
  by (simp add: plain_scalar_def int_str_not_word canonical_integer_int_str integer_interval_int)

lemma yaml_step_scalar [simp]:
  "yaml_step st (Scalar None None (Some [34]) s) = place st (JStr s)"
  by (simp add: yaml_step_def truthy_text_def yaml_scalar_value_def plain_style_def)

lemma yaml_step_plain:
  "plain_scalar t = Inr v \<Longrightarrow> yaml_step st (Scalar None None None t) = place st v"
  by (simp add: yaml_step_def truthy_text_def yaml_scalar_value_def plain_style_def)

lemma yaml_step_open [simp]:
  "length (fst st) < max_depth \<Longrightarrow> yaml_step st (MappingStart None None) = Inr (MapFrame [] None [] # fst st, snd st)"
  "length (fst st) < max_depth \<Longrightarrow> yaml_step st (SequenceStart None None) = Inr (SeqFrame [] # fst st, snd st)"
  "yaml_step st MappingEnd = close_frame st" "yaml_step st SequenceEnd = close_frame st"
  by (simp_all add: yaml_step_def truthy_text_def open_frame_def)

lemma yaml_run_append: "yaml_run st (es @ fs) = bindE (yaml_run st es) (\<lambda>st. yaml_run st fs)"
  by (induction st es rule: yaml_run.induct) (simp_all add: bindE_assoc cong: bindE_cong)

lemma dset_fresh: "k \<notin> set (keys d) \<Longrightarrow> dset k v d = d @ [(k, v)]"
  by (induction d) (auto simp: keys_def)

definition runs_as :: "json \<Rightarrow> bool" where
  "runs_as v \<longleftrightarrow> (\<forall>stack root. length stack + jdepth v \<le> max_depth \<longrightarrow>
     yaml_run (stack, root) (events_of v) = place (stack, root) v)"

lemma run_items:
  assumes "\<forall>v \<in> set vs. runs_as v \<and> Suc (length stack) + jdepth v \<le> max_depth"
  shows "yaml_run (SeqFrame us # stack, root) (concat (map events_of vs)) = Inr (SeqFrame (us @ vs) # stack, root)"
  using assms
proof (induction vs arbitrary: us)
  case (Cons v vs)
  then have "yaml_run (SeqFrame us # stack, root) (events_of v) = Inr (SeqFrame (us @ [v]) # stack, root)"
    by (simp add: runs_as_def)
  with Cons show ?case by (simp add: yaml_run_append)
qed simp

lemma run_members:
  assumes "\<forall>(k, v) \<in> set d. k \<noteq> merge_key \<and> runs_as v \<and> Suc (length stack) + jdepth v \<le> max_depth"
    and "distinct (keys (e @ d))"
  shows "yaml_run (MapFrame e None (keys e) # stack, root)
      (concat (map (\<lambda>(k, v). Scalar None None (Some [34]) k # events_of v) d)) =
    Inr (MapFrame (e @ d) None (keys (e @ d)) # stack, root)"
  using assms
proof (induction d arbitrary: e)
  case (Cons p d)
  obtain k v where p: "p = (k, v)" by (cases p)
  have k: "k \<notin> set (keys e)" "k \<noteq> merge_key" and dist: "distinct (keys ((e @ [(k, v)]) @ d))"
    using Cons.prems p by (auto simp: keys_def)
  have "yaml_run (MapFrame e (Some k) (keys e @ [k]) # stack, root) (events_of v) =
      Inr (MapFrame (e @ [(k, v)]) None (keys (e @ [(k, v)])) # stack, root)"
    using Cons.prems(1) p k by (simp add: runs_as_def dset_fresh) (simp add: keys_def)
  with Cons.IH [of "e @ [(k, v)]"] Cons.prems(1) p k dist show ?case
    by (simp add: yaml_run_append)
qed simp

lemma events_run: "wf_json v \<Longrightarrow> canon_ok v \<Longrightarrow> no_merge v \<Longrightarrow> runs_as v"
proof (induction v rule: events_of.induct)
  case (5 vs)
  show ?case
    unfolding runs_as_def
  proof (intro allI impI)
    fix stack :: "yaml_frame list" and root
    assume d: "length stack + jdepth (JList vs) \<le> max_depth"
    have "runs_as v \<and> Suc (length stack) + jdepth v \<le> max_depth" if "v \<in> set vs" for v
      using "5.IH" "5.prems" that d jdepth_child(2) [OF that] by fastforce
    from run_items [of vs stack "[]" root] this d
    show "yaml_run (stack, root) (events_of (JList vs)) = place (stack, root) (JList vs)"
      by (simp add: yaml_run_append)
  qed
next
  case (6 d)
  show ?case
    unfolding runs_as_def
  proof (intro allI impI)
    fix stack :: "yaml_frame list" and root
    assume b: "length stack + jdepth (JDict d) \<le> max_depth"
    have "k \<noteq> merge_key \<and> runs_as v \<and> Suc (length stack) + jdepth v \<le> max_depth" if "(k, v) \<in> set d" for k v
      using "6.IH" [of "(k, v)" k v] "6.prems" that b jdepth_child(1) [OF that] by fastforce
    then have "\<forall>(k, v) \<in> set d. k \<noteq> merge_key \<and> runs_as v \<and> Suc (length stack) + jdepth v \<le> max_depth"
      by blast
    from run_members [OF this, of "[]" root] "6.prems" b
    show "yaml_run (stack, root) (events_of (JDict d)) = place (stack, root) (JDict d)"
      by (simp add: yaml_run_append keys_def)
  qed
qed (auto simp: runs_as_def yaml_step_plain yaml_step_plain [OF plain_scalar_int] plain_scalar_def)

lemma only_index:
  assumes "x \<notin> set xs" "x \<notin> set ys"
  shows "filter (\<lambda>i. (xs @ x # ys) ! i = x) [0 ..< length (xs @ x # ys)] = [length xs]"
proof -
  let ?l = "xs @ x # ys"
  have "[0 ..< length ?l] = [0 ..< length xs] @ length xs # [Suc (length xs) ..< length ?l]"
    using upt_add_eq_append [of 0 "length xs" "Suc (length ys)"] upt_conv_Cons [of "length xs" "length ?l"] by simp
  moreover have "filter (\<lambda>i. ?l ! i = x) [0 ..< length xs] = []"
    using assms(1) by (auto simp: filter_empty_conv nth_append)
  moreover have "filter (\<lambda>i. ?l ! i = x) [Suc (length xs) ..< length ?l] = []"
    using assms(2) by (auto simp: filter_empty_conv nth_append nth_Cons' split: if_splits)
  ultimately show ?thesis by simp
qed

lemma no_document_events: "DocumentStart \<notin> set (events_of v)" "DocumentEnd \<notin> set (events_of v)"
  by (induction v rule: events_of.induct) auto

section \<open>Properties\<close>

text \<open>
  The event-stream builder inverts the writer: the document whose strings are quoted and whose
  other scalars are plain loads as exactly the mapping it was written from, members in order, when
  the mapping nests within the declared depth and uses no merge key.
\<close>

theorem yaml_events_roundtrip:
  assumes "wf_json (JDict d)" "canon_ok (JDict d)" "no_merge (JDict d)" "jdepth (JDict d) \<le> max_depth"
  shows "value_from_yaml_events ([StreamStart, DocumentStart] @ events_of (JDict d) @ [DocumentEnd, StreamEnd])
    = Inr (JDict d)"
proof -
  let ?b = "events_of (JDict d)"
  let ?es = "[StreamStart, DocumentStart] @ ?b @ [DocumentEnd, StreamEnd]"
  have "filter (\<lambda>i. ?es ! i = DocumentStart) [0 ..< length ?es] = [1]"
    using only_index [of DocumentStart "[StreamStart]" "?b @ [DocumentEnd, StreamEnd]"] no_document_events [of "JDict d"]
    by simp
  moreover have "filter (\<lambda>i. ?es ! i = DocumentEnd) [0 ..< length ?es] = [2 + length ?b]"
    using only_index [of DocumentEnd "[StreamStart, DocumentStart] @ ?b" "[StreamEnd]"] no_document_events [of "JDict d"]
    by simp
  ultimately have "value_from_yaml_events ?es = value_of_body (drop 2 (take (2 + length ?b) ?es))"
    unfolding value_from_yaml_events_def Let_def by (simp del: events_of.simps)
  also have "\<dots> = value_of_body ?b" by (simp del: events_of.simps)
  also have "\<dots> = bindE (yaml_run ([], None) ?b) yaml_root" by (simp add: value_of_body_def)
  also have "yaml_run ([], None) ?b = Inr ([], Some (JDict d))"
    using events_run [OF assms(1-3)] assms(4) unfolding runs_as_def by (simp del: events_of.simps)
  finally show ?thesis by simp
qed

theorem yaml_events_roundtrip_witness:
  "value_from_yaml_events ([StreamStart, DocumentStart]
     @ events_of (JDict [(lit ''b'', JInt 7), (lit ''a'', JList [JStr (lit ''true'')])]) @ [DocumentEnd, StreamEnd])
   = Inr (JDict [(lit ''b'', JInt 7), (lit ''a'', JList [JStr (lit ''true'')])])"
  by (rule yaml_events_roundtrip)
     (simp_all add: keys_def merge_key_def max_depth_def safe_int_def min_safe_integer_def
        max_safe_integer_def no_surrogate_def is_surrogate_def lit_def wf_str_def)

text \<open>
  C26. What the strict YAML loader returns is always inside the frozen value model: keys are
  distinct at every level, the value has a canonical form and it nests within the declared depth, for
  every parser whose scalar events carry Python strings.
\<close>

theorem yaml_loads_frozen_values:
  assumes "load_yaml_bytes parser data = Inr v"
    and "\<And>t events. parser t = Some events \<Longrightarrow> \<forall>e \<in> set events. event_strings_ok e"
  shows "wf_json v \<and> (\<exists>c. canon_json v = Inr c) \<and> jdepth v \<le> max_depth"
  using load_yaml_loadable [OF assms] canon_json_iff [of v "jtext v"] by (auto simp: loadable_def)

theorem yaml_loads_frozen_values_witness:
  "wf_json (JDict [(lit ''a'', JNull)]) \<and> (\<exists>c. canon_json (JDict [(lit ''a'', JNull)]) = Inr c)"
proof -
  let ?es = "[StreamStart, DocumentStart] @ events_of (JDict [(lit ''a'', JNull)]) @ [DocumentEnd, StreamEnd]"
  let ?p = "\<lambda>t. if t = [120] then Some ?es else None"
  have "load_yaml_bytes ?p [120] = Inr (JDict [(lit ''a'', JNull)])"
  proof -
    have d: "decode_utf8 [120] = Inr [120]" by code_simp
    have v: "value_from_yaml_events ?es = Inr (JDict [(lit ''a'', JNull)])" by code_simp
    have c: "canon_json (JDict [(lit ''a'', JNull)]) = Inr (jtext (JDict [(lit ''a'', JNull)]))"
      unfolding canon_json_iff by (simp add: keys_def no_surrogate_def is_surrogate_def lit_def)
    show ?thesis unfolding load_yaml_bytes_def d by (simp only: bindE_simps if_True option.case v c simp_thms)
  qed
  then have "wf_json (JDict [(lit ''a'', JNull)]) \<and> (\<exists>c. canon_json (JDict [(lit ''a'', JNull)]) = Inr c) \<and>
      jdepth (JDict [(lit ''a'', JNull)]) \<le> max_depth"
    by (rule yaml_loads_frozen_values) (simp split: if_splits, auto)
  then show ?thesis by blast
qed

end
