(* ===== verification/Externals.thy ===== *)
theory Externals
  imports Datetime Yaml
begin

text \<open>
  What the runtime uses of code that is not part of the repository, as one record of functions that
  the definitions take as an argument: the host's regular-expression engine and its bound on nested
  calls, PyYAML's event parser, \<open>hashlib.sha256\<close>, and the Ed25519 operations of the \<open>cryptography\<close>
  package. \<open>None\<close> of an Ed25519 operation is an exception of that package.
\<close>

record externals =
  re_compiles :: "ustr \<Rightarrow> bool"
  re_fullmatch :: "ustr \<Rightarrow> ustr \<Rightarrow> bool"
  recursion_limit :: nat
  yaml_parse :: "ustr \<Rightarrow> yaml_event list option"
  sha256_hex :: "bytes \<Rightarrow> ustr"
  ed25519_sign :: "bytes \<Rightarrow> bytes \<Rightarrow> bytes option"
  ed25519_loads :: "bytes \<Rightarrow> bool"
  ed25519_verify :: "bytes \<Rightarrow> bytes \<Rightarrow> bytes \<Rightarrow> bool"

text \<open>The schema registry: a dictionary from \<open>$id\<close> to schema document.\<close>

type_synonym registry = "(ustr \<times> json) list"

text \<open>Iterating over a value, as a \<open>for\<close> loop or \<open>any\<close> does.\<close>

fun py_iter :: "json \<Rightarrow> exn + json list" where
  "py_iter (JList vs) = Inr vs"
| "py_iter (JDict d) = Inr (map (\<lambda>(k, v). JStr k) d)"
| "py_iter (JStr s) = Inr (map (\<lambda>c. JStr [c]) s)"
| "py_iter _ = Inl (PyErr PyTypeError (lit ''not iterable''))"

text \<open>\<open>a < b\<close> for an integer \<open>a\<close>; a bound that is not a number is a \<open>TypeError\<close>.\<close>

definition py_int_less :: "int \<Rightarrow> json \<Rightarrow> exn + bool" where
  "py_int_less a b =
     (case num_of b of
        Some n \<Rightarrow> Inr (a < n)
      | None \<Rightarrow> Inl (PyErr PyTypeError (lit ''unorderable types'')))"

end
