(* ===== verification/Schema.thy ===== *)
theory Schema
  imports Externals
begin

text \<open>
  \<^verbatim>\<open>src/vfy/schema.py\<close>: the registry of schema documents and its check, and validation of a
  value against one of them. Each nested call of \<open>validate_node\<close> or \<open>validate_object\<close>
  uses one unit of the host's bound on nested calls, \<open>recursion_limit\<close>; running out of it is
  Python's \<open>RecursionError\<close>. Where a message of the source shows a value with \<open>%r\<close> the
  model keeps the two characters.
\<close>

section \<open>The supported subset\<close>

definition schema_max_depth :: nat where
  "schema_max_depth = 64"

definition supported_keywords :: "ustr list" where
  "supported_keywords = map lit
     [''type'', ''required'', ''properties'', ''additionalProperties'', ''items'', ''enum'', ''const'',
      ''pattern'', ''format'', ''minItems'', ''minLength'', ''minimum'',
      ''$schema'', ''$id'', ''title'', ''description'', ''default'', ''$defs'', ''$ref'']"

definition supported_types :: "ustr list" where
  "supported_types = map lit [''object'', ''array'', ''string'', ''integer'', ''boolean'']"

definition supported_formats :: "ustr list" where
  "supported_formats = map lit [''date-time'']"

definition code_by_id :: "(ustr \<times> err_class) list" where
  "code_by_id =
     [(lit ''https://verifyrun.com/spec/v1/candidate.schema.json'', CandidateSchemaInvalid),
      (lit ''https://verifyrun.com/spec/v1/rulebook.schema.json'', RulebookSchemaInvalid),
      (lit ''https://verifyrun.com/spec/v1/evidence.schema.json'', SnapshotSchemaInvalid),
      (lit ''https://verifyrun.com/spec/v1/outcome.schema.json'', OutcomeSchemaInvalid),
      (lit ''https://verifyrun.com/spec/v1/authorization.schema.json'', AuthorizationSchemaInvalid),
      (lit ''https://verifyrun.com/spec/v1/receipt.schema.json'', ReceiptSchemaInvalid)]"

definition forbidden_regex :: "ustr list" where
  "forbidden_regex = map lit
     [''(?='', ''(?!'', ''(?<'', ''(?P'', ''(?i'', ''(?m'', ''(?s'', ''(?x'']
   @ map (\<lambda>c. 92 # lit [c]) ''dwsbBAZzG''"

fun infix_of :: "ustr \<Rightarrow> ustr \<Rightarrow> bool" where
  "infix_of p [] = (p = [])"
| "infix_of p (c # s) = (take (length p) (c # s) = p \<or> infix_of p s)"

text \<open>\<open>_BACKREFERENCE.search\<close>: a backslash followed by a digit from 1 to 9.\<close>

fun has_backreference :: "ustr \<Rightarrow> bool" where
  "has_backreference (a # b # s) = ((a = 92 \<and> 49 \<le> b \<and> b \<le> 57) \<or> has_backreference (b # s))"
| "has_backreference _ = False"

definition check_pattern :: "externals \<Rightarrow> json \<Rightarrow> ustr \<Rightarrow> exn + unit" where
  "check_pattern X p identifier =
     (case p of
        JStr pattern \<Rightarrow>
          (if \<not> (take 1 pattern = [94] \<and> (pattern \<noteq> [] \<and> last pattern = 36))
           then fail_with SchemaRegistryInvalid ''A pattern must be anchored ^...$ so full-match and search agree: %r in '' identifier
           else if \<exists>construct \<in> set forbidden_regex. infix_of construct pattern
           then fail_with SchemaRegistryInvalid ''Regex construct %r is outside the subset: %r in '' identifier
           else if has_backreference pattern
           then fail_with SchemaRegistryInvalid ''A backreference is outside the subset: %r in '' identifier
           else if \<not> re_compiles X pattern
           then fail_with SchemaRegistryInvalid ''A pattern does not compile: %r in '' identifier
           else Inr ())
      | _ \<Rightarrow> fail_with SchemaRegistryInvalid ''A pattern must be a string in '' identifier)"

section \<open>References\<close>

text \<open>\<open>s.partition("#")\<close> without its middle part, \<open>split("/")\<close> and \<open>replace\<close>.\<close>

definition partition_hash :: "ustr \<Rightarrow> ustr \<times> ustr" where
  "partition_hash s = (takeWhile (\<lambda>c. c \<noteq> 35) s, drop 1 (dropWhile (\<lambda>c. c \<noteq> 35) s))"

fun split_slash :: "ustr \<Rightarrow> ustr list" where
  "split_slash [] = [[]]"
| "split_slash (c # s) =
     (if c = 47 then [] # split_slash s
      else (case split_slash s of [] \<Rightarrow> [[c]] | p # ps \<Rightarrow> (c # p) # ps))"

fun replace2 :: "nat \<Rightarrow> nat \<Rightarrow> nat \<Rightarrow> ustr \<Rightarrow> ustr" where
  "replace2 a b x (c # d # s) =
     (if c = a \<and> d = b then x # replace2 a b x s else c # replace2 a b x (d # s))"
| "replace2 a b x s = s"

definition unescape_step :: "ustr \<Rightarrow> ustr" where
  "unescape_step step = replace2 126 48 126 (replace2 126 49 47 step)"

fun follow_steps :: "ustr \<Rightarrow> json \<Rightarrow> ustr list \<Rightarrow> exn + json" where
  "follow_steps reference node [] = Inr node"
| "follow_steps reference node (step # steps) =
     (case dict_get node (unescape_step step) of
        None \<Rightarrow> fail_with SchemaRegistryInvalid ''A $ref fragment does not resolve: '' reference
      | Some child \<Rightarrow> follow_steps reference child steps)"

definition resolve_ref :: "json \<Rightarrow> ustr \<Rightarrow> registry \<Rightarrow> exn + json \<times> ustr" where
  "resolve_ref r identifier registry =
     (case r of
        JStr reference \<Rightarrow>
          (if reference = []
           then fail_with SchemaRegistryInvalid ''A $ref must be a non-empty string in '' identifier
           else
             (let (head, fragment) = partition_hash reference;
                  document_id = (if head = [] then identifier else head)
              in case map_of registry document_id of
                   None \<Rightarrow> fail_with SchemaRegistryInvalid
                     ''A $ref names a schema outside the registry, and nothing is ever fetched: '' reference
                 | Some document \<Rightarrow>
                     if fragment = [] then Inr (document, document_id)
                     else if hd fragment \<noteq> 47
                     then fail_with SchemaRegistryInvalid ''Unsupported $ref fragment: '' reference
                     else bindE (follow_steps reference document (split_slash (tl fragment)))
                            (\<lambda>node. Inr (node, document_id))))
      | _ \<Rightarrow> fail_with SchemaRegistryInvalid ''A $ref must be a non-empty string in '' identifier)"

section \<open>Checking the registry\<close>

definition check_keywords :: "ustr \<Rightarrow> (ustr \<times> json) list \<Rightarrow> exn + unit" where
  "check_keywords identifier node =
     forE (\<lambda>keyword.
       if keyword \<notin> set supported_keywords
       then fail_with SchemaRegistryInvalid ''Unsupported schema keyword %r in '' identifier
       else Inr ()) (sort (keys node))"

definition check_declared_type :: "ustr \<Rightarrow> (ustr \<times> json) list \<Rightarrow> exn + unit" where
  "check_declared_type identifier node =
     (case map_of node (lit ''type'') of
        None \<Rightarrow> Inr ()
      | Some JNull \<Rightarrow> Inr ()
      | Some t \<Rightarrow>
          if \<not> is_str t \<or> the_str t \<notin> set supported_types
          then fail_with SchemaRegistryInvalid ''Unsupported schema type %r in '' identifier
          else Inr ())"

definition check_format :: "ustr \<Rightarrow> (ustr \<times> json) list \<Rightarrow> exn + unit" where
  "check_format identifier node =
     (case map_of node (lit ''format'') of
        None \<Rightarrow> Inr ()
      | Some f \<Rightarrow>
          if is_list f \<or> is_dict f then Inl (PyErr PyTypeError (lit ''unhashable type''))
          else if \<not> is_str f \<or> the_str f \<notin> set supported_formats
          then fail_with SchemaRegistryInvalid ''Unsupported format %r in '' identifier
          else Inr ())"

text \<open>The members \<open>node.get(key, {})\<close> of a keyword that holds named child schemas.\<close>

definition children_of :: "string \<Rightarrow> (ustr \<times> json) list \<Rightarrow> exn + (ustr \<times> json) list" where
  "children_of key node =
     (case map_of node (lit key) of
        None \<Rightarrow> Inr []
      | Some (JDict d) \<Rightarrow> Inr d
      | Some _ \<Rightarrow> Inl (PyErr PyAttributeError (lit ''items'')))"

lemma map_of_json_size: "map_of node k = Some v \<Longrightarrow> size v < size (JDict node)"
proof -
  assume "map_of node k = Some v"
  then have "(k, v) \<in> set node" by (rule map_of_SomeD)
  then have "size_prod (\<lambda>x. 0) size (k, v) \<le> size_list (size_prod (\<lambda>x. 0) size) node"
    by (meson order_refl size_list_estimation')
  then show ?thesis by simp
qed

lemma children_size:
  "children_of key node = Inr d \<Longrightarrow> (name, child) \<in> set d \<Longrightarrow> size child < size (JDict node)"
proof -
  assume c: "children_of key node = Inr d" "(name, child) \<in> set d"
  then have "map_of node (lit key) = Some (JDict d)"
    by (auto simp: children_of_def split: option.splits json.splits)
  from map_of_json_size [OF this] have "size (JDict d) < size (JDict node)" .
  moreover have "size_prod (\<lambda>x. 0) size (name, child) \<le> size_list (size_prod (\<lambda>x. 0) size) d"
    using c(2) by (meson order_refl size_list_estimation')
  ultimately show ?thesis by simp
qed

function check_schema_node :: "externals \<Rightarrow> registry \<Rightarrow> ustr \<Rightarrow> json \<Rightarrow> exn + unit" where
  "check_schema_node X registry identifier v =
     (case v of
        JDict node \<Rightarrow>
          bindE (check_keywords identifier node) (\<lambda>_.
          bindE (check_declared_type identifier node) (\<lambda>_.
          bindE (check_format identifier node) (\<lambda>_.
          bindE (case map_of node (lit ''pattern'') of
                   None \<Rightarrow> Inr () | Some p \<Rightarrow> check_pattern X p identifier) (\<lambda>_.
          bindE (case map_of node (lit ''$ref'') of
                   None \<Rightarrow> Inr () | Some r \<Rightarrow> bindE (resolve_ref r identifier registry) (\<lambda>_. Inr ())) (\<lambda>_.
          bindE (case children_of ''properties'' node of
                   Inl e \<Rightarrow> Inl e
                 | Inr d \<Rightarrow> forE (\<lambda>p. check_schema_node X registry identifier (snd p)) d) (\<lambda>_.
          bindE (case children_of ''$defs'' node of
                   Inl e \<Rightarrow> Inl e
                 | Inr d \<Rightarrow> forE (\<lambda>p. check_schema_node X registry identifier (snd p)) d) (\<lambda>_.
          bindE (case map_of node (lit ''items'') of
                   Some child \<Rightarrow> if is_dict child then check_schema_node X registry identifier child else Inr ()
                 | None \<Rightarrow> Inr ()) (\<lambda>_.
          (case map_of node (lit ''additionalProperties'') of
             Some child \<Rightarrow> if is_dict child then check_schema_node X registry identifier child else Inr ()
           | None \<Rightarrow> Inr ())))))))))
      | _ \<Rightarrow> fail_with SchemaRegistryInvalid ''A schema node must be an object in '' identifier)"
  by pat_completeness auto
termination
proof (relation "measure (\<lambda>(X, registry, identifier, v). size v)", goal_cases)
  case (2 X registry ident v node x1 x2 x3 x4 x5 d p)
  then show ?case using children_size [of "''properties''" node d "fst p" "snd p"] by simp
next
  case (3 X registry ident v node x1 x2 x3 x4 x5 x6 d p)
  then show ?case using children_size [of "''$defs''" node d "fst p" "snd p"] by simp
next
  case (4 X registry ident v node x1 x2 x3 x4 x5 x6 x7 child)
  then show ?case using map_of_json_size [of node _ child] by simp
next
  case (5 X registry ident v node x1 x2 x3 x4 x5 x6 x7 x8 child)
  then show ?case using map_of_json_size [of node _ child] by simp
qed simp

declare check_schema_node.simps [simp del]

fun register_documents :: "registry \<Rightarrow> json list \<Rightarrow> exn + registry" where
  "register_documents registry [] = Inr registry"
| "register_documents registry (document # documents) =
     (if \<not> is_dict document
      then fail SchemaRegistryInvalid ''A schema document must be an object.''
      else case get_lit document ''$id'' of
             Some (JStr identifier) \<Rightarrow>
               (if identifier = []
                then fail SchemaRegistryInvalid ''A schema document must declare a string $id.''
                else if identifier \<in> set (keys registry)
                then fail_with SchemaRegistryInvalid ''Duplicate $id in the registry: '' identifier
                else register_documents (registry @ [(identifier, document)]) documents)
           | _ \<Rightarrow> fail SchemaRegistryInvalid ''A schema document must declare a string $id.'')"

definition build_registry :: "externals \<Rightarrow> json list \<Rightarrow> exn + registry" where
  "build_registry X documents =
     bindE (register_documents [] documents) (\<lambda>registry.
     bindE (forE (\<lambda>(identifier, document). check_schema_node X registry identifier document) registry)
       (\<lambda>_. Inr registry))"

end
