(* ===== verification/Validate.thy ===== *)
theory Validate
  imports Schema
begin

text \<open>
  The instance half of \<^verbatim>\<open>src/vfy/schema.py\<close>: the paths of a failure, exact canonical
  equality, and the validation of a value against a schema node. A value that is not the shape the
  code expects of a schema gives the exception that Python raises there. Below the definitions: the
  comparison of constants is equality of canonical values, and validation accepts exactly the values
  that conform to the schema in the sense of an inductive relation without paths, depth or order.
\<close>

section \<open>Paths\<close>

definition name_start :: "nat \<Rightarrow> bool" where
  "name_start c \<longleftrightarrow> (65 \<le> c \<and> c \<le> 90) \<or> (97 \<le> c \<and> c \<le> 122) \<or> c = 95"

definition name_part :: "nat \<Rightarrow> bool" where
  "name_part c \<longleftrightarrow> name_start c \<or> is_digit c"

definition plain_member :: "ustr \<Rightarrow> bool" where
  "plain_member name \<longleftrightarrow> (case name of [] \<Rightarrow> False | c # rest \<Rightarrow> name_start c \<and> list_all name_part rest)"

definition json_string :: "ustr \<Rightarrow> ustr" where
  "json_string text =
     [34] @ concat (map (\<lambda>c. if c = 34 \<or> c = 92 then [92, c]
                              else if c < 32 then unicode_escape c
                              else [c]) text) @ [34]"

definition member :: "ustr \<Rightarrow> ustr \<Rightarrow> ustr" where
  "member path name =
     (if plain_member name then path @ lit ''.'' @ name
      else path @ lit ''['' @ json_string name @ lit '']'')"

definition item_path :: "ustr \<Rightarrow> nat \<Rightarrow> ustr" where
  "item_path path index = path @ lit ''['' @ dec index @ lit '']''"

section \<open>Types and exact equality\<close>

fun type_of :: "json \<Rightarrow> ustr" where
  "type_of (JBool _) = lit ''boolean''"
| "type_of (JInt _) = lit ''integer''"
| "type_of (JStr _) = lit ''string''"
| "type_of (JDict _) = lit ''object''"
| "type_of (JList _) = lit ''array''"
| "type_of JNull = lit ''null''"

function (sequential) exact_eq :: "json \<Rightarrow> json \<Rightarrow> bool" where
  "exact_eq (JDict d) (JDict e) =
     (set (keys d) = set (keys e) \<and>
      (\<forall>(k, v) \<in> set d. case map_of e k of None \<Rightarrow> False | Some w \<Rightarrow> exact_eq v w))"
| "exact_eq (JList vs) (JList ws) =
     (length vs = length ws \<and> (\<forall>(v, w) \<in> set (zip vs ws). exact_eq v w))"
| "exact_eq (JBool a) (JBool b) = (a = b)"
| "exact_eq (JInt a) (JInt b) = (a = b)"
| "exact_eq (JStr a) (JStr b) = (a = b)"
| "exact_eq JNull JNull = True"
| "exact_eq _ _ = False"
  by pat_completeness auto
termination
proof (relation "measure (\<lambda>(v, w). size v)", goal_cases)
  case (2 d e x k v w)
  then have "(k, v) \<in> set d" by auto
  then have "size_prod (\<lambda>x. 0) size (k, v) < Suc (size_list (size_prod (\<lambda>x. 0) size) d)"
    by (meson le_imp_less_Suc order_refl size_list_estimation')
  then show ?case by simp
next
  case (3 vs ws x v w)
  then have "v \<in> set vs" by (auto dest: set_zip_leftD)
  then show ?case by (auto dest: size_list_estimation' [where f = size, OF _ order_refl])
qed auto

section \<open>Validation of a node\<close>

text \<open>
  \<open>name in container\<close> for a string: a key of a dictionary, an element of a list, a part of a
  string.
\<close>

fun py_contains :: "ustr \<Rightarrow> json \<Rightarrow> exn + bool" where
  "py_contains name (JDict d) = Inr (name \<in> set (keys d))"
| "py_contains name (JList vs) = Inr (\<exists>v \<in> set vs. v = JStr name)"
| "py_contains name (JStr s) = Inr (infix_of name s)"
| "py_contains name _ = Inl (PyErr PyTypeError (lit ''not a container''))"

definition reject :: "err_class \<Rightarrow> string \<Rightarrow> ustr \<Rightarrow> ustr \<Rightarrow> string \<Rightarrow> exn + 'a" where
  "reject failure message path spath keyword =
     Inl (VErr failure (lit message) (AtSchema path spath (lit keyword)))"

text \<open>The keywords that look at the value alone, before and after the object and array keywords.\<close>

definition check_type :: "err_class \<Rightarrow> json \<Rightarrow> (ustr \<times> json) list \<Rightarrow> ustr \<Rightarrow> ustr \<Rightarrow> exn + unit" where
  "check_type failure value schema path spath =
     (case map_of schema (lit ''type'') of
        None \<Rightarrow> Inr ()
      | Some declared \<Rightarrow>
          if declared \<noteq> JNull \<and> JStr (type_of value) \<noteq> declared
          then reject failure ''Value is not of the declared type.'' path
                 (spath @ lit ''.type'') ''type''
          else Inr ())"

definition check_values :: "err_class \<Rightarrow> json \<Rightarrow> (ustr \<times> json) list \<Rightarrow> ustr \<Rightarrow> ustr \<Rightarrow> exn + unit" where
  "check_values failure value schema path spath =
     bindE (case map_of schema (lit ''enum'') of
              None \<Rightarrow> Inr ()
            | Some enum \<Rightarrow>
                bindE (py_iter enum) (\<lambda>members.
                  if \<not> list_ex (exact_eq value) members
                  then reject failure ''Value is not one of the enumerated values.'' path
                         (spath @ lit ''.enum'') ''enum''
                  else Inr ())) (\<lambda>_.
     (case map_of schema (lit ''const'') of
        None \<Rightarrow> Inr ()
      | Some const \<Rightarrow>
          if \<not> exact_eq value const
          then reject failure ''Value is not the constant value.'' path
                 (spath @ lit ''.const'') ''const''
          else Inr ()))"

definition check_min_items ::
  "err_class \<Rightarrow> json list \<Rightarrow> (ustr \<times> json) list \<Rightarrow> ustr \<Rightarrow> ustr \<Rightarrow> exn + unit" where
  "check_min_items failure vs schema path spath =
     (case map_of schema (lit ''minItems'') of
        None \<Rightarrow> Inr ()
      | Some bound \<Rightarrow>
          bindE (py_int_less (int (length vs)) bound) (\<lambda>less.
            if less
            then reject failure ''Array has too few items.'' path
                   (spath @ lit ''.minItems'') ''minItems''
            else Inr ()))"

definition pattern_matches :: "externals \<Rightarrow> json \<Rightarrow> ustr \<Rightarrow> exn + bool" where
  "pattern_matches X p s =
     (case p of
        JStr pattern \<Rightarrow>
          (if re_compiles X pattern then Inr (re_fullmatch X pattern s)
           else Inl (PyErr PyPatternError (lit ''re.error'')))
      | _ \<Rightarrow> Inl (PyErr PyTypeError (lit ''first argument must be string or compiled pattern'')))"

definition check_string ::
  "externals \<Rightarrow> err_class \<Rightarrow> ustr \<Rightarrow> (ustr \<times> json) list \<Rightarrow> ustr \<Rightarrow> ustr \<Rightarrow> exn + unit" where
  "check_string X failure s schema path spath =
     bindE (case map_of schema (lit ''minLength'') of
              None \<Rightarrow> Inr ()
            | Some bound \<Rightarrow>
                bindE (py_int_less (int (length s)) bound) (\<lambda>less.
                  if less
                  then reject failure ''String is shorter than the minimum length.'' path
                         (spath @ lit ''.minLength'') ''minLength''
                  else Inr ())) (\<lambda>_.
     bindE (case map_of schema (lit ''pattern'') of
              None \<Rightarrow> Inr ()
            | Some p \<Rightarrow>
                bindE (pattern_matches X p s) (\<lambda>matched.
                  if \<not> matched
                  then reject failure ''String does not match the required pattern.'' path
                         (spath @ lit ''.pattern'') ''pattern''
                  else Inr ())) (\<lambda>_.
     if map_of schema (lit ''format'') = Some (JStr (lit ''date-time'')) \<and> \<not> is_date_time s
     then reject failure ''String is not a date-time in the accepted grammar.'' path
            (spath @ lit ''.format'') ''format''
     else Inr ()))"

definition check_minimum :: "err_class \<Rightarrow> int \<Rightarrow> (ustr \<times> json) list \<Rightarrow> ustr \<Rightarrow> ustr \<Rightarrow> exn + unit" where
  "check_minimum failure i schema path spath =
     (case map_of schema (lit ''minimum'') of
        None \<Rightarrow> Inr ()
      | Some bound \<Rightarrow>
          bindE (py_int_less i bound) (\<lambda>less.
            if less
            then reject failure ''Integer is below the minimum.'' path
                   (spath @ lit ''.minimum'') ''minimum''
            else Inr ()))"

text \<open>\<open>for name in schema.get("required", [])\<close>; a name that is not text raises \<open>TypeError\<close>.\<close>

fun check_required :: "err_class \<Rightarrow> (ustr \<times> json) list \<Rightarrow> json list \<Rightarrow> ustr \<Rightarrow> ustr \<Rightarrow> exn + unit" where
  "check_required failure value [] path spath = Inr ()"
| "check_required failure value (r # names) path spath =
     (case r of
        JStr name \<Rightarrow>
          (if name \<notin> set (keys value)
           then reject failure ''Required member is missing.'' (member path name)
                  (spath @ lit ''.required'') ''required''
           else check_required failure value names path spath)
      | _ \<Rightarrow> Inl (PyErr PyTypeError (lit ''expected string'')))"

text \<open>
  \<open>_validate_object\<close>, given the check of a member: \<open>check value schema path
  spath\<close>.
\<close>

type_synonym node_check = "json \<Rightarrow> json \<Rightarrow> ustr \<Rightarrow> ustr \<Rightarrow> exn + unit"

definition declared_members ::
  "node_check \<Rightarrow> (ustr \<times> json) list \<Rightarrow> json \<Rightarrow> ustr \<Rightarrow> ustr \<Rightarrow> exn + unit" where
  "declared_members check value properties path spath =
     forE (\<lambda>(name, v).
       bindE (py_contains name properties) (\<lambda>declared.
         if declared
         then bindE (subscript properties name) (\<lambda>s.
                check v s (member path name) (member (spath @ lit ''.properties'') name))
         else Inr ())) (sort_key fst value)"

definition additional_members ::
  "node_check \<Rightarrow> err_class \<Rightarrow> (ustr \<times> json) list \<Rightarrow> json \<Rightarrow> json \<Rightarrow> ustr \<Rightarrow> ustr \<Rightarrow> exn + unit" where
  "additional_members check failure value properties additional path spath =
     forE (\<lambda>(name, v).
       bindE (py_contains name properties) (\<lambda>declared.
         if declared then Inr ()
         else if additional = JBool False
         then reject failure ''Undeclared member is not permitted.'' (member path name)
                (spath @ lit ''.additionalProperties'') ''additionalProperties''
         else if is_dict additional
         then check v additional (member path name) (spath @ lit ''.additionalProperties'')
         else Inr ())) (sort_key fst value)"

definition validate_object ::
  "node_check \<Rightarrow> err_class \<Rightarrow> json \<Rightarrow> (ustr \<times> json) list \<Rightarrow> ustr \<Rightarrow> ustr \<Rightarrow> exn + unit" where
  "validate_object check failure v schema path spath =
     (case v of
        JDict value \<Rightarrow>
          (let properties = (case map_of schema (lit ''properties'') of
                               None \<Rightarrow> JDict [] | Some p \<Rightarrow> p)
           in bindE (case map_of schema (lit ''required'') of
                       None \<Rightarrow> Inr [] | Some names \<Rightarrow> py_iter names) (\<lambda>names.
              bindE (check_required failure value names path spath) (\<lambda>_.
              bindE (declared_members check value properties path spath) (\<lambda>_.
              (case map_of schema (lit ''additionalProperties'') of
                 None \<Rightarrow> Inr ()
               | Some additional \<Rightarrow>
                   if additional = JNull then Inr ()
                   else additional_members check failure value properties additional path
                          spath)))))
      | _ \<Rightarrow> Inr ())"

definition ref_target_path :: "ustr \<Rightarrow> ustr" where
  "ref_target_path reference =
     (if 35 \<notin> set reference then lit ''$''
      else lit ''$'' @ map (\<lambda>c. if c = 47 then 46 else c) (snd (partition_hash reference)))"

text \<open>
  A schema that is no dictionary: \<open>"$ref" in schema\<close> decides whether the failing step is the
  subscription, the \<open>.get\<close>, or the test itself.
\<close>

definition not_a_schema :: "json \<Rightarrow> exn + unit" where
  "not_a_schema schema =
     bindE (py_contains (lit ''$ref'') schema) (\<lambda>found.
       if found then bindE (sub_lit schema ''$ref'') (\<lambda>_. Inr ())
       else Inl (PyErr PyAttributeError (lit ''get'')))"

text \<open>The blocks of \<open>_validate_node\<close> for a list, a string and an integer.\<close>

definition check_kind ::
  "node_check \<Rightarrow> externals \<Rightarrow> err_class \<Rightarrow> json \<Rightarrow> (ustr \<times> json) list \<Rightarrow> ustr \<Rightarrow> ustr \<Rightarrow> exn + unit" where
  "check_kind check X failure value s path spath =
     (case value of
        JList vs \<Rightarrow>
          bindE (check_min_items failure vs s path spath) (\<lambda>_.
          (case map_of s (lit ''items'') of
             None \<Rightarrow> Inr ()
           | Some item_schema \<Rightarrow>
               if is_dict item_schema
               then forE (\<lambda>(index, item). check item item_schema
                            (item_path path index) (spath @ lit ''.items''))
                      (enumerate 0 vs)
               else Inr ()))
      | JStr t \<Rightarrow> check_string X failure t s path spath
      | JInt i \<Rightarrow> check_minimum failure i s path spath
      | _ \<Rightarrow> Inr ())"

fun validate_node ::
  "externals \<Rightarrow> registry \<Rightarrow> err_class \<Rightarrow> nat \<Rightarrow> json \<Rightarrow> json \<Rightarrow> ustr \<Rightarrow> ustr \<Rightarrow> ustr \<Rightarrow> nat \<Rightarrow> exn + unit"
where
  "validate_node X registry failure 0 value schema path spath identifier depth =
     Inl (PyErr PyRecursionError (lit ''maximum recursion depth exceeded''))"
| "validate_node X registry failure (Suc calls) value schema path spath identifier depth =
     (if depth > schema_max_depth
      then reject failure ''Value nests deeper than the loader admits.'' path spath ''depth''
      else case schema of
        JDict s \<Rightarrow>
          (case map_of s (lit ''$ref'') of
             Some r \<Rightarrow>
               bindE (resolve_ref r identifier registry) (\<lambda>(target, target_id).
                 validate_node X registry failure calls value target path
                   (ref_target_path (the_str r)) target_id depth)
           | None \<Rightarrow>
               (let check = (\<lambda>v s p sp. validate_node X registry failure calls v s p sp identifier (depth + 1))
                in bindE (check_type failure value s path spath) (\<lambda>_.
                   bindE (validate_object check failure value s path spath) (\<lambda>_.
                   bindE (check_values failure value s path spath) (\<lambda>_.
                   check_kind check X failure value s path spath)))))
      | _ \<Rightarrow> not_a_schema schema)"

definition validate :: "externals \<Rightarrow> json \<Rightarrow> ustr \<Rightarrow> registry \<Rightarrow> exn + unit" where
  "validate X value schema_id registry =
     (case map_of registry schema_id of
        None \<Rightarrow> fail_with SchemaRegistryInvalid ''No schema in the registry with $id '' schema_id
      | Some schema \<Rightarrow>
          (case map_of code_by_id schema_id of
             None \<Rightarrow> fail_with SchemaRegistryInvalid ''No reason code is declared for schema '' schema_id
           | Some failure \<Rightarrow>
               validate_node X registry failure (recursion_limit X) value schema
                 (lit ''$'') (lit ''$'') schema_id 0))"

declare validate_node.simps [simp del]

section \<open>Exact equality is equality of canonical values\<close>

lemma sort_key_eq_iff:
  assumes "distinct (keys d)" "distinct (keys e)"
  shows "sort_key fst d = sort_key fst e \<longleftrightarrow> map_of d = map_of e"
proof
  assume "sort_key fst d = sort_key fst e"
  then show "map_of d = map_of e" using assms by (metis map_of_sort_key)
next
  assume m: "map_of d = map_of e"
  have "set d = set e"
    using assms m map_of_eq_Some_iff [of d] map_of_eq_Some_iff [of e] unfolding keys_def by auto
  then have s: "set (sort_key fst d) = set (sort_key fst e)" by simp
  have i: "inj_on fst (set (sort_key fst d) \<union> set (sort_key fst e))"
    using assms(1) unfolding s Un_absorb set_sort_key_fst keys_def \<open>set d = set e\<close> [symmetric]
    by (simp add: distinct_map)
  have dd: "distinct (map fst (sort_key fst d))" "distinct (map fst (sort_key fst e))"
    using assms distinct_keys_sort [of d] distinct_keys_sort [of e] by (simp_all add: keys_def)
  show "sort_key fst d = sort_key fst e"
    by (rule map_sorted_distinct_set_unique [OF i sorted_sort_key dd(1) sorted_sort_key dd(2) s])
qed

lemma map_of_map_snd: "map_of (map (\<lambda>(k, v). (k, f v)) d) k = map_option f (map_of d k)"
  by (induction d) auto

lemma list_eq_zip: "length xs = length ys \<Longrightarrow>
  map f xs = map f ys \<longleftrightarrow> (\<forall>(x, y) \<in> set (zip xs ys). f x = f y)"
  by (induction xs ys rule: list_induct2) auto

lemma dict_agree:
  assumes "distinct (keys d)" "distinct (keys e)"
  shows "map_option f \<circ> map_of d = map_option f \<circ> map_of e \<longleftrightarrow>
    set (keys d) = set (keys e) \<and>
    (\<forall>(k, v) \<in> set d. case map_of e k of None \<Rightarrow> False | Some w \<Rightarrow> f v = f w)" (is "?l \<longleftrightarrow> ?r")
proof
  assume l: ?l
  then have o: "map_option f (map_of d k) = map_option f (map_of e k)" for k
    by (metis comp_apply)
  have "k \<in> set (keys d) \<longleftrightarrow> k \<in> set (keys e)" for k
    using o [of k] map_of_None_keys [of d k] map_of_None_keys [of e k] by auto
  moreover have "case map_of e k of None \<Rightarrow> False | Some w \<Rightarrow> f v = f w" if "(k, v) \<in> set d" for k v
    using o [of k] map_of_is_SomeI [of d k v] assms(1) that
    by (cases "map_of e k") (auto simp: keys_def)
  ultimately show ?r by auto
next
  assume r: ?r
  have "map_option f (map_of d k) = map_option f (map_of e k)" for k
  proof (cases "map_of d k")
    case None
    with r have "map_of e k = None" by (metis map_of_None_keys)
    with None show ?thesis by simp
  next
    case (Some v)
    with r have "case map_of e k of None \<Rightarrow> False | Some w \<Rightarrow> f v = f w"
      by (auto dest!: map_of_SomeD)
    with Some show ?thesis by (auto split: option.splits)
  qed
  then show ?l by (simp add: fun_eq_iff)
qed

lemma exact_eq_sort:
  "wf_json v \<Longrightarrow> wf_json w \<Longrightarrow> exact_eq v w \<longleftrightarrow> sort_json v = sort_json w"
proof (induction v w rule: exact_eq.induct)
  case (1 d e)
  have wd: "distinct (keys d)" "distinct (keys e)" using "1.prems" by auto
  have step: "(k, v) \<in> set d \<Longrightarrow> map_of e k = Some w \<Longrightarrow> exact_eq v w \<longleftrightarrow> sort_json v = sort_json w" for k v w
    using "1.IH" [of "(k, v)" k v w] "1.prems" by (auto dest!: map_of_SomeD)
  have "exact_eq (JDict d) (JDict e) \<longleftrightarrow> set (keys d) = set (keys e) \<and>
     (\<forall>(k, v) \<in> set d. case map_of e k of None \<Rightarrow> False | Some w \<Rightarrow> sort_json v = sort_json w)"
    using step by (auto split: option.splits)
  also have "\<dots> \<longleftrightarrow> map_option sort_json \<circ> map_of d = map_option sort_json \<circ> map_of e"
    using dict_agree [OF wd, of sort_json] by simp
  also have "\<dots> \<longleftrightarrow> sort_json (JDict d) = sort_json (JDict e)"
    using wd by (simp add: sort_key_eq_iff map_of_map_snd fun_eq_iff)
  finally show ?case .
next
  case (2 vs ws)
  have "exact_eq v w \<longleftrightarrow> sort_json v = sort_json w" if "(v, w) \<in> set (zip vs ws)" for v w
    using "2.IH" [of "(v, w)" v w] that "2.prems" by (auto dest: set_zip_leftD set_zip_rightD)
  then have "exact_eq (JList vs) (JList ws) \<longleftrightarrow>
      length vs = length ws \<and> (\<forall>(v, w) \<in> set (zip vs ws). sort_json v = sort_json w)"
    by auto
  also have "\<dots> \<longleftrightarrow> map sort_json vs = map sort_json ws"
    using list_eq_zip [of vs ws sort_json] map_eq_imp_length_eq [of sort_json vs sort_json ws] by blast
  finally show ?case by simp
qed simp_all

section \<open>What validation accepts\<close>

text \<open>
  The specification: \<open>governing s name\<close> is the schema that a member called \<open>name\<close> must meet
  under the node \<open>s\<close>, \<open>Inr None\<close> when the node says nothing of it, an exception when the node
  refuses the member; \<open>meets X v s\<close> are the keywords that look at the value itself. The relation
  \<open>conforms\<close> closes them under members, items and references. It knows no order, path, depth or
  bound on nested calls.
\<close>

definition properties_of :: "(ustr \<times> json) list \<Rightarrow> json" where
  "properties_of s = (case map_of s (lit ''properties'') of None \<Rightarrow> JDict [] | Some p \<Rightarrow> p)"

definition required_of :: "(ustr \<times> json) list \<Rightarrow> exn + json list" where
  "required_of s = (case map_of s (lit ''required'') of None \<Rightarrow> Inr [] | Some r \<Rightarrow> py_iter r)"

definition governing :: "(ustr \<times> json) list \<Rightarrow> ustr \<Rightarrow> json option option" where
  "governing s name =
     (case py_contains name (properties_of s) of
        Inl _ \<Rightarrow> None
      | Inr True \<Rightarrow>
          (case subscript (properties_of s) name of Inl _ \<Rightarrow> None | Inr t \<Rightarrow> Some (Some t))
      | Inr False \<Rightarrow>
          (case map_of s (lit ''additionalProperties'') of
             None \<Rightarrow> Some None
           | Some a \<Rightarrow>
               if a = JBool False then None
               else if is_dict a then Some (Some a)
               else Some None))"

definition required_present :: "(ustr \<times> json) list \<Rightarrow> json \<Rightarrow> bool" where
  "required_present s v \<longleftrightarrow>
     (\<exists>names. required_of s = Inr names \<and>
        (\<forall>r \<in> set names. \<exists>name. r = JStr name \<and> name \<in> set (keys (items v))))"

fun meets_kind :: "externals \<Rightarrow> json \<Rightarrow> (ustr \<times> json) list \<Rightarrow> bool" where
  "meets_kind X (JDict d) s \<longleftrightarrow> required_present s (JDict d)"
| "meets_kind X (JList vs) s \<longleftrightarrow>
     (\<forall>b. map_of s (lit ''minItems'') = Some b \<longrightarrow> py_int_less (int (length vs)) b = Inr False)"
| "meets_kind X (JStr t) s \<longleftrightarrow>
     (\<forall>b. map_of s (lit ''minLength'') = Some b \<longrightarrow> py_int_less (int (length t)) b = Inr False) \<and>
     (\<forall>p. map_of s (lit ''pattern'') = Some p \<longrightarrow> pattern_matches X p t = Inr True) \<and>
     (map_of s (lit ''format'') = Some (JStr (lit ''date-time'')) \<longrightarrow> is_date_time t)"
| "meets_kind X (JInt i) s \<longleftrightarrow>
     (\<forall>b. map_of s (lit ''minimum'') = Some b \<longrightarrow> py_int_less i b = Inr False)"
| "meets_kind X _ s \<longleftrightarrow> True"

definition meets :: "externals \<Rightarrow> json \<Rightarrow> (ustr \<times> json) list \<Rightarrow> bool" where
  "meets X v s \<longleftrightarrow>
     map_of s (lit ''type'') \<in> {None, Some JNull, Some (JStr (type_of v))} \<and>
     (\<forall>e. map_of s (lit ''enum'') = Some e \<longrightarrow> (\<exists>ms. py_iter e = Inr ms \<and> list_ex (exact_eq v) ms)) \<and>
     (\<forall>c. map_of s (lit ''const'') = Some c \<longrightarrow> exact_eq v c) \<and>
     meets_kind X v s"

inductive conforms :: "externals \<Rightarrow> registry \<Rightarrow> json \<Rightarrow> json \<Rightarrow> ustr \<Rightarrow> bool"
  for X :: externals and registry :: registry
where
  conforms_ref:
    "map_of s (lit ''$ref'') = Some r \<Longrightarrow> resolve_ref r identifier registry = Inr (t, target) \<Longrightarrow>
     conforms X registry v t target \<Longrightarrow> conforms X registry v (JDict s) identifier"
| conforms_node:
    "map_of s (lit ''$ref'') = None \<Longrightarrow> meets X v s \<Longrightarrow>
     (\<And>name w. (name, w) \<in> set (items v) \<Longrightarrow>
        \<exists>g. governing s name = Some g \<and> (\<forall>t. g = Some t \<longrightarrow> conforms X registry w t identifier)) \<Longrightarrow>
     (\<And>vs t w. v = JList vs \<Longrightarrow> map_of s (lit ''items'') = Some t \<Longrightarrow> is_dict t \<Longrightarrow> w \<in> set vs \<Longrightarrow>
        conforms X registry w t identifier) \<Longrightarrow>
     conforms X registry v (JDict s) identifier"

inductive_cases conforms_dictE: "conforms X registry v (JDict s) identifier"

subsection \<open>The leaf checks\<close>

lemma check_type_iff:
  "check_type failure v s p sp = Inr () \<longleftrightarrow>
     map_of s (lit ''type'') \<in> {None, Some JNull, Some (JStr (type_of v))}"
  by (auto simp: check_type_def reject_def split: option.splits)

lemma check_values_iff:
  "check_values failure v s p sp = Inr () \<longleftrightarrow>
     (\<forall>e. map_of s (lit ''enum'') = Some e \<longrightarrow> (\<exists>ms. py_iter e = Inr ms \<and> list_ex (exact_eq v) ms)) \<and>
     (\<forall>c. map_of s (lit ''const'') = Some c \<longrightarrow> exact_eq v c)"
  by (auto simp: check_values_def reject_def result_simps split: option.splits if_splits)

lemma check_min_items_iff:
  "check_min_items failure vs s p sp = Inr () \<longleftrightarrow>
     (\<forall>b. map_of s (lit ''minItems'') = Some b \<longrightarrow> py_int_less (int (length vs)) b = Inr False)"
  by (auto simp: check_min_items_def reject_def result_simps split: option.splits if_splits)

lemma check_string_iff:
  "check_string X failure t s p sp = Inr () \<longleftrightarrow> meets_kind X (JStr t) s"
  by (auto simp: check_string_def reject_def result_simps split: option.splits if_splits)

lemma check_minimum_iff:
  "check_minimum failure i s p sp = Inr () \<longleftrightarrow> meets_kind X (JInt i) s"
  by (auto simp: check_minimum_def reject_def result_simps split: option.splits if_splits)

lemma check_required_iff:
  "check_required failure d names p sp = Inr () \<longleftrightarrow>
     (\<forall>r \<in> set names. \<exists>name. r = JStr name \<and> name \<in> set (keys d))"
  by (induction failure d names p sp rule: check_required.induct)
     (auto simp: reject_def split: json.splits if_splits)

lemma required_iff:
  "bindE (required_of s) (\<lambda>names. check_required failure d names p sp) = Inr () \<longleftrightarrow>
     required_present s (JDict d)"
  by (auto simp: result_simps check_required_iff required_present_def)

text \<open>The two loops over members, together, check each member against its governing schema.\<close>

definition member_ok :: "(json \<Rightarrow> json \<Rightarrow> bool) \<Rightarrow> (ustr \<times> json) list \<Rightarrow> (ustr \<times> json) list \<Rightarrow> bool" where
  "member_ok P d s \<longleftrightarrow>
     (\<forall>(name, w) \<in> set d. \<exists>g. governing s name = Some g \<and> (\<forall>t. g = Some t \<longrightarrow> P w t))"

definition additional_ok :: "node_check \<Rightarrow> err_class \<Rightarrow> (ustr \<times> json) list \<Rightarrow> (ustr \<times> json) list \<Rightarrow> ustr \<Rightarrow> ustr \<Rightarrow> exn + unit" where
  "additional_ok check failure d s p sp =
     (case map_of s (lit ''additionalProperties'') of
        None \<Rightarrow> Inr ()
      | Some additional \<Rightarrow>
          if additional = JNull then Inr ()
          else additional_members check failure d (properties_of s) additional p sp)"

lemma validate_object_unfold:
  "validate_object check failure (JDict d) s p sp =
     bindE (bindE (required_of s) (\<lambda>names. check_required failure d names p sp)) (\<lambda>_.
     bindE (declared_members check d (properties_of s) p sp) (\<lambda>_.
     additional_ok check failure d s p sp))"
  unfolding validate_object_def bindE_assoc required_of_def properties_of_def additional_ok_def Let_def
  by simp

lemma loops_sound:
  assumes "declared_members check d (properties_of s) p sp = Inr ()"
    and "additional_ok check failure d s p sp = Inr ()"
    and "\<And>v t p sp. check v t p sp = Inr () \<Longrightarrow> P v t"
  shows "member_ok P d s"
  unfolding member_ok_def
proof (clarify, goal_cases)
  case (1 name w)
  have dm: "bindE (py_contains name (properties_of s)) (\<lambda>declared.
         if declared
         then bindE (subscript (properties_of s) name) (\<lambda>t.
                check w t (member p name) (member (sp @ lit ''.properties'') name))
         else Inr ()) = Inr ()"
    using assms(1) [unfolded declared_members_def forE_Inr_iff set_sort_key_fst, THEN bspec, OF 1] by simp
  then consider (yes) t where "py_contains name (properties_of s) = Inr True"
      "subscript (properties_of s) name = Inr t" "P w t"
    | (no) "py_contains name (properties_of s) = Inr False"
    by (auto simp: result_simps assms(3) split: if_splits)
  then show ?case
  proof cases
    case yes
    then show ?thesis by (simp add: governing_def)
  next
    case no
    show ?thesis
    proof (cases "map_of s (lit ''additionalProperties'')")
      case None
      with no show ?thesis by (simp add: governing_def)
    next
      case (Some a)
      have "a \<noteq> JBool False \<and> (is_dict a \<longrightarrow> P w a)" if "a \<noteq> JNull"
      proof -
        from assms(2) Some that
        have "additional_members check failure d (properties_of s) a p sp = Inr ()"
          by (simp add: additional_ok_def)
        from this [unfolded additional_members_def forE_Inr_iff set_sort_key_fst, THEN bspec, OF 1] no
        show ?thesis by (auto simp: reject_def assms(3) split: if_splits)
      qed
      with Some no show ?thesis by (cases a) (auto simp: governing_def)
    qed
  qed
qed

lemma loops_complete:
  assumes "member_ok (\<lambda>v t. \<forall>p sp. check v t p sp = Inr ()) d s"
  shows "declared_members check d (properties_of s) p sp = Inr ()"
    and "additional_ok check failure d s p sp = Inr ()"
proof -
  have g: "\<exists>g. governing s name = Some g \<and> (\<forall>t. g = Some t \<longrightarrow> (\<forall>p sp. check w t p sp = Inr ()))"
    if "(name, w) \<in> set d" for name w
    using assms that by (auto simp: member_ok_def)
  show "declared_members check d (properties_of s) p sp = Inr ()"
    unfolding declared_members_def forE_Inr_iff
  proof (clarsimp, goal_cases)
    case (1 name w)
    from g [OF 1] show ?case
      by (auto simp: governing_def split: sum.splits bool.splits)
  qed
  show "additional_ok check failure d s p sp = Inr ()"
    unfolding additional_ok_def additional_members_def
  proof (clarsimp simp: forE_Inr_iff split: option.splits, goal_cases)
    case (1 a name w)
    from g [OF 1(3)] 1(1,2) show ?case
      by (auto simp: governing_def split: sum.splits bool.splits if_splits)
  qed
qed

subsection \<open>Soundness and completeness\<close>

definition items_ok :: "(json \<Rightarrow> json \<Rightarrow> bool) \<Rightarrow> json \<Rightarrow> (ustr \<times> json) list \<Rightarrow> bool" where
  "items_ok P v s \<longleftrightarrow>
     (\<forall>vs t w. v = JList vs \<longrightarrow> map_of s (lit ''items'') = Some t \<longrightarrow> is_dict t \<longrightarrow> w \<in> set vs \<longrightarrow> P w t)"

lemma conforms_nodeI:
  assumes "map_of s (lit ''$ref'') = None" "meets X v s"
    and "member_ok (\<lambda>w t. conforms X registry w t identifier) (items v) s"
    and "items_ok (\<lambda>w t. conforms X registry w t identifier) v s"
  shows "conforms X registry v (JDict s) identifier"
  using assms by (intro conforms_node) (auto simp: member_ok_def items_ok_def)

lemma not_a_schema_fails: "\<not> is_dict schema \<Longrightarrow> not_a_schema schema \<noteq> Inr ()"
  by (cases schema) (auto simp: not_a_schema_def result_simps split: if_splits)

lemma kind_check_sound:
  assumes "check_kind check X failure v s p sp = Inr ()"
    and "\<And>v t p sp. check v t p sp = Inr () \<Longrightarrow> P v t"
    and "\<And>d. v = JDict d \<Longrightarrow> required_present s v"
  shows "meets_kind X v s" and "items_ok P v s"
proof -
  show "meets_kind X v s"
    using assms(1,3)
    by (cases v) (auto simp: check_kind_def check_min_items_iff check_string_iff bindE_Inr_iff
        check_minimum_iff [where X = X] simp del: meets_kind.simps(3,4))
  show "items_ok P v s"
    unfolding items_ok_def
  proof (intro allI impI)
    fix vs t w
    assume v: "v = JList vs" "map_of s (lit ''items'') = Some t" "is_dict t" "w \<in> set vs"
    from assms(1) v(1-3)
    have all: "forE (\<lambda>(index, item). check item t (item_path p index) (sp @ lit ''.items''))
        (enumerate 0 vs) = Inr ()"
      by (simp add: check_kind_def bindE_Inr_iff)
    from v(4) obtain i where "i < length vs" "w = vs ! i" by (auto simp: in_set_conv_nth)
    then have "(i, w) \<in> set (enumerate 0 vs)" by (auto simp: in_set_enumerate_eq)
    with all have "check w t (item_path p i) (sp @ lit ''.items'') = Inr ()"
      unfolding forE_Inr_iff by force
    then show "P w t" by (rule assms(2))
  qed
qed

lemma validate_node_sound:
  "validate_node X registry failure n v schema p sp ident depth = Inr () \<Longrightarrow>
     conforms X registry v schema ident"
proof (induction n arbitrary: v schema p sp ident depth)
  case 0
  then show ?case by (simp add: validate_node.simps)
next
  case (Suc n)
  note run = Suc.prems [unfolded validate_node.simps(2)]
  from run obtain s where s: "schema = JDict s"
    using not_a_schema_fails [of schema]
    by (auto simp: reject_def split: if_splits json.splits)
  show ?case
  proof (cases "map_of s (lit ''$ref'')")
    case (Some r)
    with run s obtain t target where "resolve_ref r ident registry = Inr (t, target)"
      "validate_node X registry failure n v t p (ref_target_path (the_str r)) target depth = Inr ()"
      by (auto simp: bindE_Inr_iff reject_def split: if_splits)
    with Suc.IH Some s show ?thesis by (blast intro: conforms_ref)
  next
    case None
    let ?check = "\<lambda>v s p sp. validate_node X registry failure n v s p sp ident (depth + 1)"
    let ?P = "\<lambda>w t. conforms X registry w t ident"
    have P: "?check v t p sp = Inr () \<Longrightarrow> ?P v t" for v t p sp by (rule Suc.IH)
    from run s None have ty: "check_type failure v s p sp = Inr ()"
      and ob: "validate_object ?check failure v s p sp = Inr ()"
      and va: "check_values failure v s p sp = Inr ()"
      by (auto simp: bindE_Inr_iff reject_def Let_def split: if_splits)
    from run s None have ki: "check_kind ?check X failure v s p sp = Inr ()"
      by (auto simp: bindE_Inr_iff reject_def Let_def split: if_splits)
    have dict: "required_present s v \<and> member_ok ?P (items v) s" if "v = JDict d" for d
    proof -
      from ob [unfolded that validate_object_unfold bindE_Inr_iff]
      have r: "bindE (required_of s) (\<lambda>names. check_required failure d names p sp) = Inr ()"
        and l: "declared_members ?check d (properties_of s) p sp = Inr ()"
               "additional_ok ?check failure d s p sp = Inr ()"
        by (auto simp: bindE_Inr_iff)
      from r loops_sound [where P = ?P, OF l P] show ?thesis
        unfolding that required_iff by simp
    qed
    have mem: "member_ok ?P (items v) s"
      by (cases v) (use dict in \<open>auto simp: member_ok_def\<close>)
    have "meets_kind X v s" "items_ok ?P v s"
      using kind_check_sound [where P = ?P, OF ki P] dict by auto
    then show ?thesis
      unfolding s using None ty va mem
      by (intro conforms_nodeI) (simp_all add: meets_def check_type_iff check_values_iff)
  qed
qed

text \<open>
  The converse: a conforming value of admissible nesting is accepted under every bound on nested
  calls above some bound, whatever the paths. \<open>accepts n\<close> says so for one value; a finite
  number of values has a common bound.
\<close>

definition accepts :: "externals \<Rightarrow> registry \<Rightarrow> err_class \<Rightarrow> json \<Rightarrow> json \<Rightarrow> ustr \<Rightarrow> nat \<Rightarrow> bool" where
  "accepts X registry failure v schema ident n \<longleftrightarrow>
     (\<forall>m \<ge> n. \<forall>p sp depth. depth + jdepth v \<le> schema_max_depth \<longrightarrow>
        validate_node X registry failure m v schema p sp ident depth = Inr ())"

lemma common_bound:
  assumes "\<And>a n m. Q a n \<Longrightarrow> n \<le> m \<Longrightarrow> Q a (m :: nat)" and "finite A"
    and "\<And>a. a \<in> A \<Longrightarrow> \<exists>n. Q a n"
  shows "\<exists>n. \<forall>a \<in> A. Q a n"
  using assms(2,3)
proof (induction rule: finite_induct)
  case (insert a A)
  from insert.IH insert.prems obtain n where "\<forall>a \<in> A. Q a n" by blast
  moreover from insert.prems obtain k where "Q a k" by blast
  ultimately have "\<forall>b \<in> insert a A. Q b (max n k)"
    using assms(1) by (metis insert_iff max.cobounded1 max.cobounded2)
  then show ?case by blast
qed simp

lemma accepts_mono: "accepts X registry failure v t i n \<Longrightarrow> n \<le> m \<Longrightarrow> accepts X registry failure v t i m"
  by (auto simp: accepts_def)

lemma accepts_node:
  assumes "map_of s (lit ''$ref'') = None" "meets X v s"
    and "member_ok (\<lambda>w t. accepts X registry failure w t ident n) (items v) s"
    and "items_ok (\<lambda>w t. accepts X registry failure w t ident n) v s"
  shows "accepts X registry failure v (JDict s) ident (Suc n)"
  unfolding accepts_def
proof (clarify, goal_cases)
  case (1 m p sp depth)
  then obtain k where m: "m = Suc k" "n \<le> k" by (cases m) auto
  let ?check = "\<lambda>v s p sp. validate_node X registry failure k v s p sp ident (depth + 1)"
  have child: "\<forall>p sp. ?check w t p sp = Inr ()"
    if "accepts X registry failure w t ident n" "Suc (jdepth w) \<le> jdepth v" for w t
    using that 1(2) m(2) by (auto simp: accepts_def)
  have mem: "member_ok (\<lambda>w t. \<forall>p sp. ?check w t p sp = Inr ()) d s" if "v = JDict d" for d
    unfolding member_ok_def
  proof (clarify, goal_cases)
    case (1 name w)
    with that jdepth_child(1) have "Suc (jdepth w) \<le> jdepth v" by blast
    with assms(3) 1 that child show ?case by (fastforce simp: member_ok_def)
  qed
  have "validate_object ?check failure v s p sp = Inr ()"
  proof (cases v)
    case (JDict d)
    then have "required_present s (JDict d)" using assms(2) by (simp add: meets_def)
    then show ?thesis
      using loops_complete [OF mem [OF JDict]] JDict required_iff [of s failure d p sp]
      by (simp add: validate_object_unfold)
  qed (simp_all add: validate_object_def)
  moreover have "check_kind ?check X failure v s p sp = Inr ()"
  proof (cases v)
    case (JList vs)
    have "?check w t q sq = Inr ()"
      if "map_of s (lit ''items'') = Some t" "is_dict t" "w \<in> set vs" for t w q sq
    proof -
      from that JList jdepth_child(2) have "Suc (jdepth w) \<le> jdepth v" by blast
      with assms(4) that JList child show ?thesis by (fastforce simp: items_ok_def)
    qed
    moreover have "w \<in> set vs" if "(i, w) \<in> set (enumerate 0 vs)" for i w
      using that by (auto simp: in_set_enumerate_eq)
    ultimately show ?thesis
      using assms(2) JList
      by (auto simp: check_kind_def check_min_items_iff bindE_Inr_iff forE_Inr_iff meets_def split: option.splits)
  next
    case (JStr t)
    with assms(2) show ?thesis
      by (simp add: check_kind_def check_string_iff meets_def del: meets_kind.simps)
  next
    case (JInt i)
    with assms(2) show ?thesis
      by (simp add: check_kind_def check_minimum_iff [where X = X] meets_def del: meets_kind.simps)
  qed (simp_all add: check_kind_def)
  moreover have "check_type failure v s p sp = Inr ()" "check_values failure v s p sp = Inr ()"
    using assms(2) by (auto simp: meets_def check_type_iff check_values_iff)
  moreover have "\<not> depth > schema_max_depth" using 1(2) by simp
  ultimately show ?case
    using assms(1) m by (simp add: validate_node.simps(2) Let_def)
qed

lemma member_ok_bound:
  assumes "member_ok (\<lambda>w t. \<exists>n. accepts X registry failure w t ident n) d s"
  shows "\<exists>n. member_ok (\<lambda>w t. accepts X registry failure w t ident n) d s"
proof -
  let ?Q = "\<lambda>(name, w) n. \<exists>g. governing s name = Some g \<and>
    (\<forall>t. g = Some t \<longrightarrow> accepts X registry failure w t ident n)"
  have "\<exists>n. \<forall>a \<in> set d. ?Q a n"
  proof (rule common_bound)
    fix a n m
    assume "?Q a n" "n \<le> (m :: nat)"
    then show "?Q a m" by (auto intro: accepts_mono)
  next
    fix a
    assume a: "a \<in> set d"
    obtain name w where "a = (name, w)" by (cases a)
    moreover from this assms a obtain g where "governing s name = Some g"
      "\<forall>t. g = Some t \<longrightarrow> (\<exists>n. accepts X registry failure w t ident n)"
      by (auto simp: member_ok_def)
    ultimately show "\<exists>n. ?Q a n" by (cases g) auto
  qed simp
  then show ?thesis unfolding member_ok_def by (simp add: case_prod_unfold)
qed

lemma items_ok_bound:
  assumes "items_ok (\<lambda>w t. \<exists>n. accepts X registry failure w t ident n) v s"
  shows "\<exists>n. items_ok (\<lambda>w t. accepts X registry failure w t ident n) v s"
proof (cases "\<exists>vs t. v = JList vs \<and> map_of s (lit ''items'') = Some t \<and> is_dict t")
  case True
  then obtain vs t where v: "v = JList vs" "map_of s (lit ''items'') = Some t" "is_dict t" by blast
  have "\<exists>n. \<forall>w \<in> set vs. accepts X registry failure w t ident n"
    by (rule common_bound) (use assms v in \<open>auto simp: items_ok_def intro: accepts_mono\<close>)
  with v show ?thesis by (auto simp: items_ok_def)
qed (auto simp: items_ok_def)

lemma member_ok_mono: "member_ok P d s \<Longrightarrow> (\<And>w t. P w t \<Longrightarrow> Q w t) \<Longrightarrow> member_ok Q d s"
  unfolding member_ok_def by fast

lemma items_ok_mono: "items_ok P v s \<Longrightarrow> (\<And>w t. P w t \<Longrightarrow> Q w t) \<Longrightarrow> items_ok Q v s"
  unfolding items_ok_def by blast

lemma conforms_accepts:
  "conforms X registry v schema ident \<Longrightarrow> \<exists>n. accepts X registry failure v schema ident n"
proof (induction rule: conforms.induct)
  case (conforms_ref s r ident t target v)
  then obtain n where n: "accepts X registry failure v t target n" by blast
  have "accepts X registry failure v (JDict s) ident (Suc n)"
    unfolding accepts_def
  proof (clarify, goal_cases)
    case (1 m p sp depth)
    then obtain k where m: "m = Suc k" "n \<le> k" by (cases m) auto
    with n 1 conforms_ref(1,2) show ?case
      by (auto simp: validate_node.simps(2) accepts_def)
  qed
  then show ?case ..
next
  case (conforms_node s v ident)
  have "member_ok (\<lambda>w t. \<exists>n. accepts X registry failure w t ident n) (items v) s"
    unfolding member_ok_def using conforms_node.IH(1) by (simp add: case_prod_unfold) (metis prod.collapse)
  then obtain n where n: "member_ok (\<lambda>w t. accepts X registry failure w t ident n) (items v) s"
    using member_ok_bound by blast
  have "items_ok (\<lambda>w t. \<exists>n. accepts X registry failure w t ident n) v s"
    using conforms_node.IH(2) unfolding items_ok_def by blast
  then obtain k where k: "items_ok (\<lambda>w t. accepts X registry failure w t ident k) v s"
    using items_ok_bound by blast
  have "accepts X registry failure v (JDict s) ident (Suc (max n k))"
    by (intro accepts_node conforms_node.hyps(1,2) member_ok_mono [OF n] items_ok_mono [OF k])
       (auto elim: accepts_mono)
  then show ?case ..
qed

subsection \<open>The bound on nested calls does not enter the relation\<close>

lemma pattern_matches_limit [simp]: "pattern_matches (X\<lparr>recursion_limit := m\<rparr>) p t = pattern_matches X p t"
  by (simp add: pattern_matches_def split: json.splits)

lemma meets_limit [simp]: "meets (X\<lparr>recursion_limit := m\<rparr>) v s = meets X v s"
  by (cases v) (simp_all add: meets_def)

lemma conforms_limit_intro: "conforms X registry v s ident \<Longrightarrow> conforms (X\<lparr>recursion_limit := m\<rparr>) registry v s ident"
proof (induction rule: conforms.induct)
  case (conforms_ref s r ident t target v)
  then show ?case by (blast intro: conforms.conforms_ref)
next
  case (conforms_node s v ident)
  show ?case
  proof (rule conforms_nodeI)
    show "member_ok (\<lambda>w t. conforms (X\<lparr>recursion_limit := m\<rparr>) registry w t ident) (items v) s"
      unfolding member_ok_def using conforms_node.IH(1)
      by (simp add: case_prod_unfold) (metis prod.collapse)
  qed (use conforms_node in \<open>auto simp: items_ok_def\<close>)
qed

lemma conforms_limit [simp]: "conforms (X\<lparr>recursion_limit := m\<rparr>) registry v s ident = conforms X registry v s ident"
proof
  assume "conforms (X\<lparr>recursion_limit := m\<rparr>) registry v s ident"
  from conforms_limit_intro [OF this, of "recursion_limit X"] show "conforms X registry v s ident" by simp
qed (rule conforms_limit_intro)

lemma check_kind_limit: "check_kind check (X\<lparr>recursion_limit := m\<rparr>) = check_kind check X"
  unfolding check_kind_def check_string_def pattern_matches_limit by simp

lemma validate_node_limit [simp]:
  "validate_node (X\<lparr>recursion_limit := m\<rparr>) registry failure n v schema p sp ident depth =
   validate_node X registry failure n v schema p sp ident depth"
proof (induction n arbitrary: v schema p sp ident depth)
  case (Suc n)
  show ?case by (simp only: validate_node.simps(2) Suc check_kind_limit)
qed (simp add: validate_node.simps)

section \<open>Properties\<close>

lemmas text_eval = lit_def keys_def wf_str_def safe_int_def min_safe_integer_def max_safe_integer_def
  no_surrogate_def is_surrogate_def quoted_def char_text_def named_escape_def int_str_def dec.simps

text \<open>
  C20. The comparison behind \<open>enum\<close> and \<open>const\<close> is equality of canonical forms: two
  well-formed values that have canonical forms are equal for \<open>_equal\<close> exactly when
  \<open>canonicalize\<close> gives them the same text, so that a boolean never equals an integer and the
  order of members never matters.
\<close>

theorem exact_eq_canonical:
  assumes "wf_json v" "wf_json w" "canon_json v = Inr s" "canon_json w = Inr t"
  shows "exact_eq v w \<longleftrightarrow> s = t"
proof -
  have "canon_ok v" "canon_ok w" "s = jtext v" "t = jtext w"
    using assms(3,4) by (simp_all add: canon_json_iff)
  with assms(1,2) show ?thesis
    using exact_eq_sort jtext_inj jtext_sort by metis
qed

theorem exact_eq_canonical_witness:
  "exact_eq (JDict [(lit ''b'', JInt 1), (lit ''a'', JBool True)])
            (JDict [(lit ''a'', JBool True), (lit ''b'', JInt 1)]) \<and>
   \<not> exact_eq (JList [JInt 1]) (JList [JBool True])"
proof
  let ?v = "JDict [(lit ''b'', JInt 1), (lit ''a'', JBool True)]"
  let ?w = "JDict [(lit ''a'', JBool True), (lit ''b'', JInt 1)]"
  have "wf_json ?v" "wf_json ?w" "canon_json ?v = Inr (lit ''{\"a\":true,\"b\":1}'')"
    "canon_json ?w = Inr (lit ''{\"a\":true,\"b\":1}'')"
    unfolding canon_json_iff by (simp_all add: text_eval)
  from exact_eq_canonical [OF this] show "exact_eq ?v ?w" by simp
  have "wf_json (JList [JInt 1])" "wf_json (JList [JBool True])"
    "canon_json (JList [JInt 1]) = Inr (lit ''[1]'')"
    "canon_json (JList [JBool True]) = Inr (lit ''[true]'')"
    unfolding canon_json_iff by (simp_all add: text_eval)
  from exact_eq_canonical [OF this] show "\<not> exact_eq (JList [JInt 1]) (JList [JBool True])"
    by (simp add: lit_def)
qed

text \<open>
  C19. Validation refines the conformance relation: for a declared schema and a value of admissible
  nesting, the value conforms exactly when \<open>validate\<close> returns under every sufficiently large
  bound on nested calls.
\<close>

theorem validate_refines:
  assumes "map_of registry ident = Some schema" "map_of code_by_id ident = Some failure"
    and "jdepth v \<le> schema_max_depth"
  shows "conforms X registry v schema ident \<longleftrightarrow>
    (\<exists>n. \<forall>m \<ge> n. validate (X\<lparr>recursion_limit := m\<rparr>) v ident registry = Inr ())"
proof
  assume "conforms X registry v schema ident"
  from conforms_accepts [OF this] obtain n where
    "accepts X registry failure v schema ident n" by blast
  then have "\<forall>m \<ge> n. validate (X\<lparr>recursion_limit := m\<rparr>) v ident registry = Inr ()"
    using assms by (simp add: validate_def accepts_def)
  then show "\<exists>n. \<forall>m \<ge> n. validate (X\<lparr>recursion_limit := m\<rparr>) v ident registry = Inr ()" ..
next
  assume "\<exists>n. \<forall>m \<ge> n. validate (X\<lparr>recursion_limit := m\<rparr>) v ident registry = Inr ()"
  then obtain m where "validate (X\<lparr>recursion_limit := m\<rparr>) v ident registry = Inr ()" by blast
  with assms(1,2) have "validate_node (X\<lparr>recursion_limit := m\<rparr>) registry failure m v schema (lit ''$'') (lit ''$'') ident 0 = Inr ()"
    by (simp add: validate_def)
  from validate_node_sound [OF this] show "conforms X registry v schema ident" by simp
qed

text \<open>Witness of the refinement: the empty schema accepts \<open>null\<close>.\<close>

theorem validate_refines_witness:
  "\<forall>X. \<exists>n. validate (X\<lparr>recursion_limit := n\<rparr>) JNull
     (lit ''https://verifyrun.com/spec/v1/candidate.schema.json'')
     [(lit ''https://verifyrun.com/spec/v1/candidate.schema.json'', JDict [])] = Inr ()"
proof
  fix X
  let ?i = "lit ''https://verifyrun.com/spec/v1/candidate.schema.json''"
  have "map_of [(?i, JDict [])] ?i = Some (JDict [])" by simp
  moreover have "map_of code_by_id ?i = Some CandidateSchemaInvalid" by (simp add: code_by_id_def)
  moreover have "jdepth JNull \<le> schema_max_depth" by simp
  moreover have "conforms X [(?i, JDict [])] JNull (JDict []) ?i"
    by (rule conforms_nodeI) (simp_all add: meets_def member_ok_def items_ok_def)
  ultimately show "\<exists>n. validate (X\<lparr>recursion_limit := n\<rparr>) JNull ?i [(?i, JDict [])] = Inr ()"
    using validate_refines by blast
qed

definition cyclic_document :: json where
  "cyclic_document = JDict [(lit ''$id'', JStr (lit ''https://verifyrun.com/spec/v1/candidate.schema.json'')),
                            (lit ''$ref'', JStr (lit ''#''))]"

lemma resolve_self:
  "map_of registry ident = Some document \<Longrightarrow>
     resolve_ref (JStr (lit ''#'')) ident registry = Inr (document, ident)"
  by (simp add: resolve_ref_def partition_hash_def lit_def Let_def)

lemma validate_cycle:
  "validate_node X [(lit ''https://verifyrun.com/spec/v1/candidate.schema.json'', cyclic_document)]
     failure n v cyclic_document p sp (lit ''https://verifyrun.com/spec/v1/candidate.schema.json'') 0
   = Inl (PyErr PyRecursionError (lit ''maximum recursion depth exceeded''))"
proof (induction n arbitrary: p sp)
  case (Suc n)
  obtain d where d: "cyclic_document = JDict d" "map_of d (lit ''$ref'') = Some (JStr (lit ''#''))"
    by (simp add: cyclic_document_def)
  show ?case
    by (subst (2) d(1)) (simp add: validate_node.simps(2) d(2) resolve_self Suc)
qed (simp add: validate_node.simps)

text \<open>
  C39. A registry whose one document refers to itself passes \<open>build_registry\<close>, and validating
  anything against it exhausts every bound on nested calls: reference cycles are not refused.
\<close>

theorem reference_cycle_admitted:
  "build_registry X [cyclic_document] =
     Inr [(lit ''https://verifyrun.com/spec/v1/candidate.schema.json'', cyclic_document)] \<and>
   validate X v (lit ''https://verifyrun.com/spec/v1/candidate.schema.json'')
     [(lit ''https://verifyrun.com/spec/v1/candidate.schema.json'', cyclic_document)]
   = Inl (PyErr PyRecursionError (lit ''maximum recursion depth exceeded''))"
proof
  show "build_registry X [cyclic_document] =
     Inr [(lit ''https://verifyrun.com/spec/v1/candidate.schema.json'', cyclic_document)]"
    by (simp add: build_registry_def cyclic_document_def keys_def check_schema_node.simps
        check_keywords_def supported_keywords_def check_declared_type_def check_format_def
        resolve_self children_of_def)
  show "validate X v (lit ''https://verifyrun.com/spec/v1/candidate.schema.json'')
     [(lit ''https://verifyrun.com/spec/v1/candidate.schema.json'', cyclic_document)]
   = Inl (PyErr PyRecursionError (lit ''maximum recursion depth exceeded''))"
    using validate_cycle by (simp add: validate_def code_by_id_def)
qed

end
