(* ===== verification/Expression.thy ===== *)
theory Expression
  imports Validate Decimal Frozen
begin

text \<open>
  \<^verbatim>\<open>src/vfy/expr.py\<close>: the lexer and the recursive-descent parser of \<open>when\<close> expressions.
  The parser object's \<open>source\<close> is the first argument of every definition and its
  \<open>position\<close> is threaded through. Its \<open>nesting\<close> counter is passed down as the number
  \<open>d\<close> of levels that are left, \<open>64 - nesting\<close>: it goes up and down in pairs around each
  recursive call, and a failure ends the parse. The recursion through parentheses and through nested
  lists is therefore structural in \<open>d\<close>; the loops over operands, path segments and list members
  take one unit of fuel per round, and each round consumes a character, so that one after than the
  length of the source is enough (\<open>parse_terminates\<close>).
\<close>

section \<open>Trees\<close>

datatype segment = Member ustr | Index int

datatype node =
    Literal json
  | Path (path_root: ustr) (path_segments: "segment list")
  | And_node "node list"
  | Or_node "node list"
  | Not_node node
  | Compare ustr node node
  | Membership ustr node "json list"
  | Fresh ustr
  | Present ustr
  | Matches node ustr

abbreviation typed :: "string \<Rightarrow> (ustr \<times> json) list \<Rightarrow> json" where
  "typed kind members \<equiv> JDict ((lit ''type'', JStr (lit kind)) # members)"

fun segment_value :: "segment \<Rightarrow> json" where
  "segment_value (Member name) = JDict [(lit ''member'', JStr name)]"
| "segment_value (Index i) = JDict [(lit ''index'', JInt i)]"

fun node_value :: "node \<Rightarrow> json" where
  "node_value (Literal v) = typed ''literal'' [(lit ''value'', v)]"
| "node_value (Path root segments) =
     typed ''path'' [(lit ''root'', JStr root), (lit ''segments'', JList (map segment_value segments))]"
| "node_value (And_node operands) = typed ''and'' [(lit ''operands'', JList (map node_value operands))]"
| "node_value (Or_node operands) = typed ''or'' [(lit ''operands'', JList (map node_value operands))]"
| "node_value (Not_node operand) = typed ''not'' [(lit ''operand'', node_value operand)]"
| "node_value (Compare operator left right) =
     typed ''compare'' [(lit ''operator'', JStr operator), (lit ''left'', node_value left),
                        (lit ''right'', node_value right)]"
| "node_value (Membership operator operand members) =
     typed ''membership'' [(lit ''operator'', JStr operator), (lit ''operand'', node_value operand),
       (lit ''list'', typed ''literal'' [(lit ''value'', JList members)])]"
| "node_value (Fresh i) = typed ''fresh'' [(lit ''evidence_id'', JStr i)]"
| "node_value (Present i) = typed ''present'' [(lit ''evidence_id'', JStr i)]"
| "node_value (Matches path pattern) =
     typed ''matches'' [(lit ''path'', node_value path), (lit ''pattern'', JStr pattern)]"

definition append_once :: "ustr list \<Rightarrow> ustr \<Rightarrow> ustr list" where
  "append_once out i = (if i \<in> set out then out else out @ [i])"

fun collect_evidence_ids :: "node \<Rightarrow> ustr list \<Rightarrow> ustr list" where
  "collect_evidence_ids (Fresh i) out = append_once out i"
| "collect_evidence_ids (Present i) out = append_once out i"
| "collect_evidence_ids (Path root segments) out =
     (if root = lit ''evidence''
      then (case segments of Member name # _ \<Rightarrow> append_once out name | _ \<Rightarrow> out)
      else out)"
| "collect_evidence_ids (And_node operands) out = fold collect_evidence_ids operands out"
| "collect_evidence_ids (Or_node operands) out = fold collect_evidence_ids operands out"
| "collect_evidence_ids (Not_node operand) out = collect_evidence_ids operand out"
| "collect_evidence_ids (Compare operator left right) out =
     collect_evidence_ids right (collect_evidence_ids left out)"
| "collect_evidence_ids (Membership operator operand members) out = collect_evidence_ids operand out"
| "collect_evidence_ids (Matches path pattern) out = collect_evidence_ids path out"
| "collect_evidence_ids (Literal v) out = out"

section \<open>Vocabulary\<close>

definition max_nesting :: nat where
  "max_nesting = 64"

definition path_roots :: "ustr list" where
  "path_roots = map lit [''candidate'', ''evidence'', ''identity'']"

definition function_names :: "ustr list" where
  "function_names = map lit [''fresh'', ''present'', ''matches'']"

definition keyword_names :: "ustr list" where
  "keyword_names = map lit [''and'', ''or'', ''not'', ''in'', ''true'', ''false''] @ function_names"

definition comparison_operators :: "ustr list" where
  "comparison_operators = map lit [''=='', ''!='', ''<='', ''>='', ''<'', ''>'']"

section \<open>Failures\<close>

definition line_column :: "ustr \<Rightarrow> nat \<Rightarrow> nat \<times> nat" where
  "line_column src offset =
     (let prefix = take offset src
      in (length (filter (\<lambda>c. c = 10) prefix) + 1,
          offset - (length prefix - length (takeWhile (\<lambda>c. c \<noteq> 10) (rev prefix))) + 1))"

definition char_at :: "ustr \<Rightarrow> nat \<Rightarrow> ustr" where
  "char_at src offset = take 1 (drop offset src)"

definition fail_at :: "ustr \<Rightarrow> ustr \<Rightarrow> string \<Rightarrow> nat \<Rightarrow> ustr \<Rightarrow> exn + 'a" where
  "fail_at src message expected offset token =
     (let (line, column) = line_column src offset
      in Inl (VErr ExpressionParseError message (AtToken offset line column token (Some (lit expected)))))"

definition fail_here :: "ustr \<Rightarrow> string \<Rightarrow> string \<Rightarrow> nat \<Rightarrow> exn + 'a" where
  "fail_here src message expected p = fail_at src (lit message) expected p (char_at src p)"

definition type_fail :: "ustr \<Rightarrow> ustr \<Rightarrow> nat \<Rightarrow> ustr \<Rightarrow> exn + 'a" where
  "type_fail src message offset token =
     (let (line, column) = line_column src offset
      in Inl (VErr ExpressionTypeError message (AtToken offset line column token None)))"

definition too_nested :: "ustr \<Rightarrow> nat \<Rightarrow> exn + 'a" where
  "too_nested src p =
     fail_here src ''Expression nests deeper than the declared maximum of 64.'' ''expression'' p"

section \<open>Lexing\<close>

definition is_blank :: "nat \<Rightarrow> bool" where
  "is_blank c \<longleftrightarrow> c = 32 \<or> c = 9 \<or> c = 13 \<or> c = 10"

definition skip_whitespace :: "ustr \<Rightarrow> nat \<Rightarrow> nat" where
  "skip_whitespace src p = p + length (takeWhile is_blank (drop p src))"

definition at_end :: "ustr \<Rightarrow> nat \<Rightarrow> bool \<times> nat" where
  "at_end src p = (let q = skip_whitespace src p in (length src \<le> q, q))"

definition match_identifier :: "ustr \<Rightarrow> ustr option" where
  "match_identifier s =
     (case s of [] \<Rightarrow> None
      | c # r \<Rightarrow> if name_start c then Some (c # takeWhile name_part r) else None)"

definition peek_word :: "ustr \<Rightarrow> nat \<Rightarrow> ustr option \<times> nat" where
  "peek_word src p = (let q = skip_whitespace src p in (match_identifier (drop q src), q))"

definition take_word :: "ustr \<Rightarrow> nat \<Rightarrow> exn + ustr \<times> nat" where
  "take_word src p =
     (case peek_word src p of
        (None, q) \<Rightarrow> fail_here src ''An identifier was expected.'' ''identifier'' q
      | (Some word, q) \<Rightarrow> Inr (word, q + length word))"

definition starts_at :: "ustr \<Rightarrow> ustr \<Rightarrow> nat \<Rightarrow> bool" where
  "starts_at src symbol p = (take (length symbol) (drop p src) = symbol)"

definition peek_symbol :: "ustr \<Rightarrow> string \<Rightarrow> nat \<Rightarrow> bool \<times> nat" where
  "peek_symbol src symbol p =
     (let q = skip_whitespace src p in (starts_at src (lit symbol) q, q))"

definition take_symbol :: "ustr \<Rightarrow> string \<Rightarrow> string \<Rightarrow> nat \<Rightarrow> exn + nat" where
  "take_symbol src symbol expected p =
     (case peek_symbol src symbol p of
        (False, q) \<Rightarrow> fail_at src ([39] @ lit symbol @ [39] @ lit '' was expected.'') expected q (char_at src q)
      | (True, q) \<Rightarrow> Inr (q + length symbol))"

definition take_keyword_if :: "ustr \<Rightarrow> string \<Rightarrow> nat \<Rightarrow> bool \<times> nat" where
  "take_keyword_if src word p =
     (case peek_word src p of
        (w, q) \<Rightarrow> if w = Some (lit word) then (True, q + length word) else (False, q))"

text \<open>\<open>_INTEGER.match\<close> and \<open>_INDEX.match\<close>: the matched text.\<close>

definition match_index :: "ustr \<Rightarrow> ustr option" where
  "match_index s =
     (case s of [] \<Rightarrow> None
      | c # r \<Rightarrow>
          if c = 48 then Some [c]
          else if is_digit c then Some (c # takeWhile is_digit r)
          else None)"

definition match_integer :: "ustr \<Rightarrow> ustr option" where
  "match_integer s =
     (case s of
        c # r \<Rightarrow> if c = 45 then map_option (Cons 45) (match_index r) else match_index s
      | [] \<Rightarrow> None)"

section \<open>Literals\<close>

definition integer_literal :: "ustr \<Rightarrow> ustr \<Rightarrow> nat \<Rightarrow> exn + int \<times> nat" where
  "integer_literal src text offset =
     (let p = offset + length text; following = char_at src p
      in if following \<in> {[46], [101], [69]}
         then fail_at src (lit ''Numbers are integers only; carry decimals as quoted strings.'') ''integer'' offset
                (text @ following)
         else bindE (py_int text) (\<lambda>value.
                if value < min_safe_integer \<or> value > max_safe_integer
                then fail_at src (lit ''Integer outside the range every implementation holds exactly.'') ''integer'' offset text
                else Inr (value, p)))"

definition string_escape :: "nat \<Rightarrow> nat option" where
  "string_escape marker =
     (if marker = 34 then Some 34 else if marker = 92 then Some 92
      else if marker = 98 then Some 8 else if marker = 116 then Some 9
      else if marker = 110 then Some 10 else if marker = 102 then Some 12
      else if marker = 114 then Some 13 else None)"

text \<open>The loop of \<open>_string_literal\<close> at \<open>position\<close> \<open>p\<close>, with \<open>rest\<close> the source from there.\<close>

definition add_char :: "nat \<Rightarrow> exn + ustr \<times> nat \<Rightarrow> exn + ustr \<times> nat" where
  "add_char c r = bindE r (\<lambda>(t, p). Inr (c # t, p))"

function string_body :: "ustr \<Rightarrow> nat \<Rightarrow> nat \<Rightarrow> ustr \<Rightarrow> exn + ustr \<times> nat" where
  "string_body src start p [] =
     fail_at src (lit ''Unterminated string literal.'') ''closing quote'' start [34]"
| "string_body src start p (c # rest) =
     (if c = 34 then Inr ([], p + 1)
      else if c = 10
      then fail_here src ''A literal newline is not permitted inside a string.'' ''string content'' p
      else if c = 92
      then (case rest of
              [] \<Rightarrow> fail_here src ''Unterminated escape sequence.'' ''escape'' (p + 1)
            | marker # after \<Rightarrow>
                (case string_escape marker of
                   Some e \<Rightarrow> add_char e (string_body src start (p + 2) after)
                 | None \<Rightarrow>
                     if marker = 117
                     then (case hex4 after of
                             None \<Rightarrow> fail_here src (''A '' @ [CHR 92] @ ''u escape needs four hexadecimal digits.'')
                                       ''escape'' (p + 1)
                           | Some (code_point, after') \<Rightarrow>
                               if is_surrogate code_point then Inl surrogate_failure
                               else add_char code_point (string_body src start (p + 6) after'))
                     else fail_at src (lit ''Unsupported escape sequence.'') ''escape'' (p + 1)
                            [92, marker]))
      else add_char c (string_body src start (p + 1) rest))"
  by pat_completeness auto
termination
  by (relation "measure (\<lambda>(src, start, p, rest). length rest)") (auto dest: hex4_shorter)

declare string_body.simps [simp del]

definition string_literal :: "ustr \<Rightarrow> nat \<Rightarrow> exn + ustr \<times> nat" where
  "string_literal src p =
     (let start = skip_whitespace src p
      in bindE (take_symbol src (''\"'') ''string'' start) (\<lambda>q.
           string_body src start q (drop q src)))"

text \<open>
  \<open>_list_member\<close> given the parser of a nested list, the loop of \<open>_list_literal\<close>, and
  \<open>_list_literal\<close> itself.
\<close>

definition is_boolean_word :: "ustr option \<Rightarrow> bool" where
  "is_boolean_word w \<longleftrightarrow> w = Some (lit ''true'') \<or> w = Some (lit ''false'')"

definition list_member ::
  "ustr \<Rightarrow> (nat \<Rightarrow> exn + json list \<times> nat) \<Rightarrow> nat \<Rightarrow> exn + json \<times> nat" where
  "list_member src inner p =
     (case peek_word src p of
        (word, q) \<Rightarrow>
          if is_boolean_word word
          then Inr (JBool (word = Some (lit ''true'')), q + length (the word))
          else if starts_at src (lit ''\"'') q
          then bindE (string_literal src q) (\<lambda>(s, r). Inr (JStr s, r))
          else if starts_at src (lit ''['') q
          then bindE (inner q) (\<lambda>(vs, r). Inr (JList vs, r))
          else (case match_integer (drop q src) of
                  Some text \<Rightarrow> bindE (integer_literal src text q) (\<lambda>(i, r). Inr (JInt i, r))
                | None \<Rightarrow> fail_here src ''A list holds literals only.'' ''literal'' q))"

fun list_members ::
  "ustr \<Rightarrow> (nat \<Rightarrow> exn + json \<times> nat) \<Rightarrow> nat \<Rightarrow> nat \<Rightarrow> exn + json list \<times> nat" where
  "list_members src item 0 p = Inl out_of_fuel"
| "list_members src item (Suc fuel) p =
     bindE (item p) (\<lambda>(v, q).
       (case peek_symbol src '','' q of
          (True, q) \<Rightarrow>
            (case peek_symbol src '']'' (q + 1) of
               (True, q) \<Rightarrow> fail_here src ''A trailing comma is not permitted in a list.'' ''literal'' q
             | (False, q) \<Rightarrow>
                 bindE (list_members src item fuel q) (\<lambda>(vs, r). Inr (v # vs, r)))
        | (False, q) \<Rightarrow>
            bindE (take_symbol src '']'' ''closing bracket or comma'' q) (\<lambda>r. Inr ([v], r))))"

fun list_literal :: "ustr \<Rightarrow> nat \<Rightarrow> nat \<Rightarrow> exn + json list \<times> nat" where
  "list_literal src 0 p = too_nested src p"
| "list_literal src (Suc d) p =
     bindE (take_symbol src ''['' ''opening bracket'' p) (\<lambda>q.
       (case peek_symbol src '']'' q of
          (True, q) \<Rightarrow> Inr ([], q + 1)
        | (False, q) \<Rightarrow>
            list_members src (list_member src (list_literal src d)) (Suc (length src)) q))"

section \<open>Paths and operands\<close>

fun path_rest :: "ustr \<Rightarrow> nat \<Rightarrow> nat \<Rightarrow> exn + segment list \<times> nat" where
  "path_rest src 0 p = Inl out_of_fuel"
| "path_rest src (Suc fuel) p =
     (case peek_symbol src ''.'' p of
        (True, q) \<Rightarrow>
          bindE (take_word src (q + 1)) (\<lambda>(name, r).
          bindE (path_rest src fuel r) (\<lambda>(segments, e). Inr (Member name # segments, e)))
      | (False, q) \<Rightarrow>
          (case peek_symbol src ''['' q of
             (True, q) \<Rightarrow>
               (let q = skip_whitespace src (q + 1)
                in case match_index (drop q src) of
                     None \<Rightarrow> fail_here src ''An index must be a non-negative canonical integer.'' ''index'' q
                   | Some text \<Rightarrow>
                       bindE (py_int text) (\<lambda>i.
                       bindE (take_symbol src '']'' ''closing bracket'' (q + length text)) (\<lambda>r.
                       bindE (path_rest src fuel r) (\<lambda>(segments, e). Inr (Index i # segments, e)))))
           | (False, q) \<Rightarrow> Inr ([], q)))"

definition path :: "ustr \<Rightarrow> nat \<Rightarrow> exn + node \<times> nat" where
  "path src p =
     bindE (take_word src p) (\<lambda>(root, q).
     bindE (take_symbol src ''.'' ''dot'' q) (\<lambda>q.
     bindE (take_word src q) (\<lambda>(name, q).
     bindE (path_rest src (Suc (length src)) q) (\<lambda>(segments, r).
     Inr (Path root (Member name # segments), r)))))"

definition is_path_root :: "ustr option \<Rightarrow> bool" where
  "is_path_root w = (case w of None \<Rightarrow> False | Some word \<Rightarrow> word \<in> set path_roots)"

definition operand :: "ustr \<Rightarrow> nat \<Rightarrow> nat \<Rightarrow> exn + node \<times> nat" where
  "operand src d p =
     (case peek_word src p of
        (word, q) \<Rightarrow>
          if is_path_root word then path src q
          else if is_boolean_word word
          then Inr (Literal (JBool (word = Some (lit ''true''))), q + length (the word))
          else if starts_at src (lit ''\"'') q
          then bindE (string_literal src q) (\<lambda>(s, r). Inr (Literal (JStr s), r))
          else if starts_at src (lit ''['') q
          then bindE (list_literal src d q) (\<lambda>(vs, r). Inr (Literal (JList vs), r))
          else (case match_integer (drop q src) of
                  Some text \<Rightarrow> bindE (integer_literal src text q) (\<lambda>(i, r). Inr (Literal (JInt i), r))
                | None \<Rightarrow> fail_here src ''An operand was expected.'' ''operand'' q))"

section \<open>Function calls\<close>

definition backquoted :: "string \<Rightarrow> ustr \<Rightarrow> string \<Rightarrow> ustr" where
  "backquoted lead name suffix = lit lead @ [96] @ name @ [96] @ lit suffix"

definition arity_message :: "ustr \<Rightarrow> nat \<Rightarrow> ustr" where
  "arity_message name arity =
     backquoted [] name '' takes exactly '' @ dec arity @ lit '' argument(s).''"

definition close_call :: "ustr \<Rightarrow> ustr \<Rightarrow> nat \<Rightarrow> nat \<Rightarrow> exn + nat" where
  "close_call src name arity p =
     (case peek_symbol src '')'' p of
        (False, q) \<Rightarrow> type_fail src (arity_message name arity) q (char_at src q)
      | (True, q) \<Rightarrow> Inr (q + 1))"

definition reject_extra_arguments :: "ustr \<Rightarrow> ustr \<Rightarrow> nat \<Rightarrow> nat \<Rightarrow> exn + nat" where
  "reject_extra_arguments src name arity p =
     (case peek_symbol src '','' p of
        (True, q) \<Rightarrow> type_fail src (arity_message name arity) q (lit '','')
      | (False, q) \<Rightarrow> Inr q)"

definition evidence_call :: "ustr \<Rightarrow> ustr \<Rightarrow> nat \<Rightarrow> exn + node \<times> nat" where
  "evidence_call src name p =
     (case peek_word src p of
        (word, argument) \<Rightarrow>
          if word = None \<or> the word \<in> set keyword_names
          then type_fail src (backquoted [] name '' takes one evidence identifier.'') argument
                 (char_at src argument)
          else
            (let q = skip_whitespace src (argument + length (the word))
             in if starts_at src (lit ''.'') q \<or> starts_at src (lit ''['') q
                then type_fail src (backquoted [] name '' names a declared evidence id, not a path.'')
                       argument (the word)
                else bindE (reject_extra_arguments src name 1 q) (\<lambda>q.
                     bindE (close_call src name 1 q) (\<lambda>r.
                     Inr (if name = lit ''fresh'' then Fresh (the word) else Present (the word), r)))))"

definition matches_call :: "ustr \<Rightarrow> nat \<Rightarrow> exn + node \<times> nat" where
  "matches_call src p =
     (case peek_word src p of
        (word, argument) \<Rightarrow>
          if \<not> is_path_root word
          then type_fail src (backquoted [] (lit ''matches'') '' takes a path as its first argument.'') argument
                 (char_at src argument)
          else bindE (path src argument) (\<lambda>(first, q).
            (case peek_symbol src '','' q of
               (False, q) \<Rightarrow>
                 type_fail src (backquoted [] (lit ''matches'') '' takes exactly 2 arguments.'') q (char_at src q)
             | (True, q) \<Rightarrow>
                 (case peek_symbol src ''\"'' (q + 1) of
                    (False, q) \<Rightarrow>
                      type_fail src (backquoted [] (lit ''matches'') '' takes a string pattern as its second argument.'')
                        q (char_at src q)
                  | (True, q) \<Rightarrow>
                      bindE (string_literal src q) (\<lambda>(text, q).
                      bindE (reject_extra_arguments src (lit ''matches'') 2 q) (\<lambda>q.
                      bindE (close_call src (lit ''matches'') 2 q) (\<lambda>r.
                      Inr (Matches first text, r))))))))"

definition function_call :: "ustr \<Rightarrow> nat \<Rightarrow> exn + node \<times> nat" where
  "function_call src p =
     bindE (take_word src p) (\<lambda>(name, q).
     bindE (take_symbol src ''('' ''opening parenthesis'' q) (\<lambda>q.
     if name = lit ''fresh'' \<or> name = lit ''present'' then evidence_call src name q
     else matches_call src q))"

section \<open>Comparisons\<close>

fun canonical_kind :: "json \<Rightarrow> ustr" where
  "canonical_kind (JBool _) = lit ''boolean''"
| "canonical_kind (JInt _) = lit ''integer''"
| "canonical_kind (JStr _) = lit ''string''"
| "canonical_kind _ = lit ''list''"

fun is_numeric :: "json \<Rightarrow> bool" where
  "is_numeric (JInt _) = True"
| "is_numeric (JStr s) = decimal_string s"
| "is_numeric _ = False"

definition ordering_operators :: "ustr list" where
  "ordering_operators = map lit [''<'', ''<='', ''>'', ''>='']"

definition check_literal_comparison ::
  "ustr \<Rightarrow> node \<Rightarrow> node \<Rightarrow> nat \<Rightarrow> ustr \<Rightarrow> exn + unit" where
  "check_literal_comparison src left right offset operator =
     (case (left, right) of
        (Literal first, Literal second) \<Rightarrow>
          (if canonical_kind first \<noteq> canonical_kind second
           then type_fail src (lit ''A literal is compared to a literal of another type.'') offset operator
           else if operator \<in> set ordering_operators \<and> \<not> (is_numeric first \<and> is_numeric second)
           then type_fail src (lit ''An ordering comparison needs numeric operands.'') offset operator
           else Inr ())
      | _ \<Rightarrow> Inr ())"

definition operator_at :: "ustr \<Rightarrow> nat \<Rightarrow> ustr option" where
  "operator_at src p = find (\<lambda>operator. starts_at src operator p) comparison_operators"

definition reject_chained_comparison :: "ustr \<Rightarrow> nat \<Rightarrow> exn + nat" where
  "reject_chained_comparison src p =
     (let q = skip_whitespace src p
      in case operator_at src q of
           Some operator \<Rightarrow> fail_here src ''Comparisons do not chain.'' ''end of comparison'' q
         | None \<Rightarrow> Inr q)"

definition membership :: "ustr \<Rightarrow> nat \<Rightarrow> node \<Rightarrow> string \<Rightarrow> nat \<Rightarrow> exn + node \<times> nat" where
  "membership src d left operator p =
     (case peek_symbol src ''['' p of
        (False, q) \<Rightarrow>
          type_fail src (backquoted ''The right operand of '' (lit operator) '' must be a list literal.'') q
            (char_at src q)
      | (True, q) \<Rightarrow>
          bindE (list_literal src d q) (\<lambda>(members, r). Inr (Membership (lit operator) left members, r)))"

text \<open>\<open>strip()\<close> of source text between two positions, which begins and ends with grammar characters.\<close>

definition strip_text :: "ustr \<Rightarrow> ustr" where
  "strip_text t = rev (dropWhile is_blank (rev (dropWhile is_blank t)))"

definition comparison :: "ustr \<Rightarrow> nat \<Rightarrow> nat \<Rightarrow> exn + node \<times> nat" where
  "comparison src d p =
     (case peek_word src p of
        (word, start) \<Rightarrow>
          if word \<noteq> None \<and> the word \<in> set function_names then function_call src start
          else bindE (operand src d start) (\<lambda>(left, q).
            (case take_keyword_if src ''not'' q of
               (True, q) \<Rightarrow>
                 (case take_keyword_if src ''in'' q of
                    (False, q) \<Rightarrow> fail_at src ([96] @ lit ''in'' @ [96] @ lit '' was expected after '' @ [96] @ lit ''not'' @ [96] @ lit ''.'') ''in'' q (char_at src q)
                  | (True, q) \<Rightarrow> membership src d left ''not in'' q)
             | (False, q) \<Rightarrow>
                 (case take_keyword_if src ''in'' q of
                    (True, q) \<Rightarrow> membership src d left ''in'' q
                  | (False, q) \<Rightarrow>
                      (let q = skip_whitespace src q
                       in case operator_at src q of
                            Some operator \<Rightarrow>
                              bindE (operand src d (q + length operator)) (\<lambda>(right, r).
                              bindE (reject_chained_comparison src r) (\<lambda>r.
                              bindE (check_literal_comparison src left right q operator) (\<lambda>_.
                              Inr (Compare operator left right, r))))
                          | None \<Rightarrow>
                              (let token = strip_text (drop start (take q src))
                               in fail_at src (lit ''A bare operand is not a predicate.'') ''comparison operator'' start
                                    (if token = [] then char_at src start else token)))))))"

section \<open>Predicates\<close>

text \<open>\<open>inner\<close> parses what stands in parentheses, \<open>None\<close> when no level of nesting is left.\<close>

definition not_expression ::
  "ustr \<Rightarrow> nat \<Rightarrow> (nat \<Rightarrow> exn + node \<times> nat) option \<Rightarrow> nat \<Rightarrow> exn + node \<times> nat" where
  "not_expression src d inner p =
     (case take_keyword_if src ''not'' p of
        (negated, q) \<Rightarrow>
          if negated \<and> fst (peek_word src q) = Some (lit ''not'')
          then fail_at src ([96] @ lit ''not not'' @ [96] @ lit '' is not derivable; write '' @ [96] @ lit ''not (not '' @ [8230] @ lit '')'' @ [96] @ lit ''.'')
                 ''predicate'' (skip_whitespace src q) (char_at src (skip_whitespace src q))
          else bindE (case peek_symbol src ''('' q of
                        (True, q) \<Rightarrow>
                          (case inner of
                             None \<Rightarrow> too_nested src q
                           | Some expression \<Rightarrow>
                               bindE (expression (q + 1)) (\<lambda>(node, r).
                               bindE (take_symbol src '')'' ''closing parenthesis'' r) (\<lambda>r. Inr (node, r))))
                      | (False, q) \<Rightarrow> comparison src d q)
                 (\<lambda>(node, r). Inr (if negated then Not_node node else node, r)))"

text \<open>The operands that follow the first one, each after the keyword.\<close>

fun more_operands ::
  "ustr \<Rightarrow> string \<Rightarrow> (nat \<Rightarrow> exn + node \<times> nat) \<Rightarrow> nat \<Rightarrow> nat \<Rightarrow> exn + node list \<times> nat" where
  "more_operands src word item 0 p = Inl out_of_fuel"
| "more_operands src word item (Suc fuel) p =
     (case take_keyword_if src word p of
        (False, q) \<Rightarrow> Inr ([], q)
      | (True, q) \<Rightarrow>
          bindE (item q) (\<lambda>(node, r).
          bindE (more_operands src word item fuel r) (\<lambda>(nodes, e). Inr (node # nodes, e))))"

definition joined ::
  "ustr \<Rightarrow> string \<Rightarrow> (node list \<Rightarrow> node) \<Rightarrow> (nat \<Rightarrow> exn + node \<times> nat) \<Rightarrow> nat \<Rightarrow> exn + node \<times> nat" where
  "joined src word build item p =
     bindE (item p) (\<lambda>(first, q).
     bindE (more_operands src word item (Suc (length src)) q) (\<lambda>(others, r).
     Inr (if others = [] then first else build (first # others), r)))"

definition or_expression :: "ustr \<Rightarrow> nat \<Rightarrow> (nat \<Rightarrow> exn + node \<times> nat) option \<Rightarrow> nat \<Rightarrow> exn + node \<times> nat" where
  "or_expression src d inner =
     joined src ''or'' Or_node (joined src ''and'' And_node (not_expression src d inner))"

fun expression :: "ustr \<Rightarrow> nat \<Rightarrow> nat \<Rightarrow> exn + node \<times> nat" where
  "expression src 0 p = or_expression src 0 None p"
| "expression src (Suc d) p = or_expression src (Suc d) (Some (expression src d)) p"

definition parse :: "ustr \<Rightarrow> exn + node" where
  "parse src =
     (case at_end src 0 of
        (True, p) \<Rightarrow> fail_at src (lit ''An expression was expected.'') ''expression'' (length src) []
      | (False, p) \<Rightarrow>
          bindE (expression src max_nesting p) (\<lambda>(tree, q).
            (case at_end src q of
               (False, q) \<Rightarrow> fail_here src ''Unexpected trailing input.'' ''end of expression'' q
             | (True, q) \<Rightarrow> Inr tree)))"

section \<open>Parsed expressions\<close>

text \<open>
  \<open>ParsedExpression\<close>. The field \<open>tree\<close> is what \<open>ast()\<close> reconstructs: the theorem
  \<open>ast_reloads\<close> shows that the loader returns its value from \<open>canonical\<close>.
\<close>

record parsed_expression =
  expr_source :: ustr
  expr_canonical :: ustr
  expr_evidence_ids :: "ustr list"
  expr_tree :: node

definition ast_json :: "parsed_expression \<Rightarrow> exn + json" where
  "ast_json parsed = reload (expr_canonical parsed)"

definition parse_expression :: "json \<Rightarrow> exn + parsed_expression" where
  "parse_expression source =
     (case source of
        JStr src \<Rightarrow>
          bindE (parse src) (\<lambda>tree.
            let referenced = collect_evidence_ids tree []
            in bindE (canon_json (node_value tree)) (\<lambda>canonical.
               bindE (reload canonical) (\<lambda>_.
               Inr \<lparr>expr_source = src, expr_canonical = canonical,
                    expr_evidence_ids = referenced, expr_tree = tree\<rparr>)))
      | _ \<Rightarrow> Inl (PyErr PyTypeError (lit ''parse_expression takes a string'')))"

end
