(* ===== verification/Grammar.thy ===== *)
theory Grammar
  imports Expression
begin

text \<open>
  What the parser of \<^verbatim>\<open>src/vfy/expr.py\<close> guarantees: it returns on every source (fuel never runs
  out), every tree it returns is well formed (\<open>predicate_ok\<close>: the shapes the evaluator
  relies on), and the tree of a \<open>ParsedExpression\<close> is what \<open>ast()\<close> reloads from its
  canonical text.
\<close>

section \<open>Well-formed trees\<close>

fun literal_ok :: "json \<Rightarrow> bool" where
  "literal_ok (JBool _) = True"
| "literal_ok (JInt i) = safe_int i"
| "literal_ok (JStr s) = wf_str s"
| "literal_ok (JList vs) = (\<forall>v \<in> set vs. literal_ok v)"
| "literal_ok _ = False"

fun segment_ok :: "segment \<Rightarrow> bool" where
  "segment_ok (Member name) = plain_member name"
| "segment_ok (Index i) = (0 \<le> i)"

fun path_ok :: "node \<Rightarrow> bool" where
  "path_ok (Path root segments) =
     (root \<in> set path_roots \<and> (\<exists>name rest. segments = Member name # rest) \<and>
      (\<forall>s \<in> set segments. segment_ok s))"
| "path_ok _ = False"

fun operand_ok :: "node \<Rightarrow> bool" where
  "operand_ok (Literal v) = literal_ok v"
| "operand_ok n = path_ok n"

fun statically_comparable :: "ustr \<Rightarrow> node \<Rightarrow> node \<Rightarrow> bool" where
  "statically_comparable operator (Literal v) (Literal w) =
     (canonical_kind v = canonical_kind w \<and>
      (operator \<in> set ordering_operators \<longrightarrow> is_numeric v \<and> is_numeric w))"
| "statically_comparable operator left right = True"

fun predicate_ok :: "node \<Rightarrow> bool" where
  "predicate_ok (And_node ns) = (2 \<le> length ns \<and> (\<forall>n \<in> set ns. predicate_ok n))"
| "predicate_ok (Or_node ns) = (2 \<le> length ns \<and> (\<forall>n \<in> set ns. predicate_ok n))"
| "predicate_ok (Not_node n) = predicate_ok n"
| "predicate_ok (Compare operator left right) =
     (operator \<in> set comparison_operators \<and> operand_ok left \<and> operand_ok right \<and>
      statically_comparable operator left right)"
| "predicate_ok (Membership operator left members) =
     (operator \<in> {lit ''in'', lit ''not in''} \<and> operand_ok left \<and> (\<forall>v \<in> set members. literal_ok v))"
| "predicate_ok (Fresh i) = (plain_member i \<and> i \<notin> set keyword_names)"
| "predicate_ok (Present i) = (plain_member i \<and> i \<notin> set keyword_names)"
| "predicate_ok (Matches first pat) = (path_ok first \<and> wf_str pat)"
| "predicate_ok _ = False"

section \<open>Runs of the parser\<close>

text \<open>
  A step started at \<open>p\<close> either raises something other than exhaustion of the fuel, or moves on
  to a position not before \<open>p\<close> with a result that satisfies \<open>Q\<close>.
\<close>

definition runs :: "nat \<Rightarrow> ('a \<Rightarrow> bool) \<Rightarrow> exn + 'a \<times> nat \<Rightarrow> bool" where
  "runs p Q r = (case r of Inl e \<Rightarrow> e \<noteq> out_of_fuel | Inr (x, q) \<Rightarrow> p \<le> q \<and> Q x)"

definition moves :: "nat \<Rightarrow> exn + nat \<Rightarrow> bool" where
  "moves p r = (case r of Inl e \<Rightarrow> e \<noteq> out_of_fuel | Inr q \<Rightarrow> p \<le> q)"

lemma runs_simps [simp]:
  "runs p Q (Inl e) \<longleftrightarrow> e \<noteq> out_of_fuel"
  "runs p Q (Inr (x, q)) \<longleftrightarrow> p \<le> q \<and> Q x"
  "moves p (Inl e) \<longleftrightarrow> e \<noteq> out_of_fuel"
  "moves p (Inr q) \<longleftrightarrow> p \<le> q"
  by (simp_all add: runs_def moves_def)

lemma runs_bind:
  "runs p R r \<Longrightarrow> (\<And>x q. p \<le> q \<Longrightarrow> R x \<Longrightarrow> runs p Q (f (x, q))) \<Longrightarrow> runs p Q (bindE r f)"
  by (cases r) (auto simp: runs_def)

lemma runs_moves:
  "moves p r \<Longrightarrow> (\<And>q. p \<le> q \<Longrightarrow> runs p Q (f q)) \<Longrightarrow> runs p Q (bindE r f)"
  by (cases r) (auto simp: moves_def)

lemma runs_value:
  "r \<noteq> Inl out_of_fuel \<Longrightarrow> (\<And>x. r = Inr x \<Longrightarrow> runs p Q (f x)) \<Longrightarrow> runs p Q (bindE r f)"
  by (cases r) auto

lemma runs_later: "runs q Q r \<Longrightarrow> p \<le> q \<Longrightarrow> runs p Q r"
  by (auto simp: runs_def split: sum.splits)

lemma moves_later: "moves q r \<Longrightarrow> p \<le> q \<Longrightarrow> moves p r"
  by (auto simp: moves_def split: sum.splits)

lemma runs_weaken: "runs p Q r \<Longrightarrow> (\<And>x. Q x \<Longrightarrow> R x) \<Longrightarrow> runs p R r"
  by (auto simp: runs_def split: sum.splits)

lemma runs_if: "(c \<Longrightarrow> runs p Q a) \<Longrightarrow> (\<not> c \<Longrightarrow> runs p Q b) \<Longrightarrow> runs p Q (if c then a else b)"
  by simp

lemma failures_run [simp]:
  "runs p Q (fail_at src m e k t)" "runs p Q (fail_here src m' e k)" "runs p Q (type_fail src m k t)"
  "runs p Q (too_nested src k)"
  "moves p (fail_at src m e k t)" "moves p (fail_here src m' e k)" "moves p (type_fail src m k t)"
  by (simp_all add: fail_at_def fail_here_def type_fail_def too_nested_def out_of_fuel_def split_beta)

lemma py_int_no_fuel [simp]: "py_int t \<noteq> Inl out_of_fuel"
  by (simp add: py_int_def out_of_fuel_def)

lemma surrogate_failure_not_fuel [simp]: "surrogate_failure \<noteq> out_of_fuel"
  by (simp add: surrogate_failure_def out_of_fuel_def)

section \<open>Lexical steps\<close>

lemma skip_whitespace_ge [simp]: "p \<le> skip_whitespace src p"
  by (simp add: skip_whitespace_def)

lemma identifier_plain: "match_identifier s = Some w \<Longrightarrow> plain_member w"
  by (auto simp: match_identifier_def plain_member_def list_all_iff split: list.splits if_splits
      dest: set_takeWhileD)

lemma identifier_prefix: "match_identifier s = Some w \<Longrightarrow> w \<noteq> [] \<and> length w \<le> length s"
  by (auto simp: match_identifier_def length_takeWhile_le split: list.splits if_splits)

lemma peek_word_ge: "peek_word src p = (w, q) \<Longrightarrow> p \<le> q"
  by (auto simp: peek_word_def Let_def)

lemma peek_word_plain: "peek_word src p = (Some w, q) \<Longrightarrow> plain_member w"
  by (auto simp: peek_word_def Let_def identifier_plain)

lemma peek_symbol_ge: "peek_symbol src s p = (b, q) \<Longrightarrow> p \<le> q"
  by (auto simp: peek_symbol_def Let_def)

lemma peek_symbol_found:
  "peek_symbol src s p = (True, q) \<Longrightarrow> s \<noteq> [] \<Longrightarrow> p \<le> q \<and> q < length src"
proof -
  assume "peek_symbol src s p = (True, q)" "s \<noteq> []"
  then have q: "q = skip_whitespace src p" and t: "take (length s) (drop q src) = lit s"
    by (auto simp: peek_symbol_def Let_def starts_at_def)
  from t \<open>s \<noteq> []\<close> have "drop q src \<noteq> []" by auto
  with q show ?thesis by simp
qed

lemma take_word_runs: "runs p plain_member (take_word src p)"
  by (auto simp: take_word_def peek_word_plain split: prod.splits option.splits dest!: peek_word_ge)

lemma take_symbol_moves: "moves p (take_symbol src s e p)"
  by (auto simp: take_symbol_def split: prod.splits bool.splits dest!: peek_symbol_ge)

lemma take_keyword_ge: "take_keyword_if src w p = (b, q) \<Longrightarrow> p \<le> q"
  by (auto simp: take_keyword_if_def split: prod.splits if_splits dest!: peek_word_ge)

lemma take_keyword_found:
  "take_keyword_if src w p = (True, q) \<Longrightarrow> p < q \<and> q \<le> length src"
proof -
  assume "take_keyword_if src w p = (True, q)"
  then obtain q' where q': "peek_word src p = (Some (lit w), q')" "q = q' + length w"
    by (auto simp: take_keyword_if_def split: prod.splits if_splits)
  then have "match_identifier (drop q' src) = Some (lit w)" by (auto simp: peek_word_def Let_def)
  from identifier_prefix [OF this] have "w \<noteq> []" "length w \<le> length src - q'" by auto
  with q' peek_word_ge [OF q'(1)] show ?thesis by (cases w) auto
qed

lemma wf_lit_chars [simp]: "wf_str [c] \<longleftrightarrow> c < 1114112"
  by (simp add: wf_str_def)

lemma wf_Nil [simp]: "wf_str []"
  by (simp add: wf_str_def)

lemma wf_drop: "wf_str s \<Longrightarrow> wf_str (drop n s)"
  by (auto simp: wf_str_def list_all_iff dest: in_set_dropD)

section \<open>Literals\<close>

lemma integer_literal_runs: "runs p safe_int (integer_literal src text p)"
  by (auto simp: integer_literal_def Let_def safe_int_def intro!: runs_value)

lemma add_char_runs:
  "runs p wf_str r \<Longrightarrow> c < 1114112 \<Longrightarrow> runs p wf_str (add_char c r)"
  unfolding add_char_def by (erule runs_bind) (simp add: wf_str_def)

lemma hex4_bound: "hex4 s = Some (u, r) \<Longrightarrow> wf_str s \<Longrightarrow> u < 65536 \<and> wf_str r"
proof -
  assume h: "hex4 s = Some (u, r)" "wf_str s"
  then obtain a b c d w x y z where s: "s = a # b # c # d # r"
    "hex_value a = Some w" "hex_value b = Some x" "hex_value c = Some y" "hex_value d = Some z"
    "u = w * 4096 + x * 256 + y * 16 + z"
    by (auto elim!: hex4.elims split: option.splits)
  have "hex_value n = Some v \<Longrightarrow> v < 16" for n v by (auto simp: hex_value_def split: if_splits)
  with s have "w < 16" "x < 16" "y < 16" "z < 16" by blast+
  with s h(2) show ?thesis by (simp add: wf_str_def)
qed

lemma string_escape_bound: "string_escape m = Some e \<Longrightarrow> e < 1114112"
  by (auto simp: string_escape_def split: if_splits)

lemma string_body_runs: "wf_str rest \<Longrightarrow> runs p wf_str (string_body src start p rest)"
proof (induction src start p rest rule: string_body.induct)
  case (2 src start p c rest)
  have wf: "c < 1114112" "wf_str rest" using "2.prems" by (simp_all add: wf_str_def)
  show ?case
  proof (cases "c = 92")
    case False
    then show ?thesis
      using "2.IH"(3) wf by (auto simp: string_body.simps intro!: add_char_runs elim!: runs_later)
  next
    case True
    show ?thesis
    proof (cases rest)
      case Nil
      then show ?thesis using True by (simp add: string_body.simps)
    next
      case (Cons m after)
      have wa: "wf_str after" using wf Cons by (simp add: wf_str_def)
      show ?thesis
      proof (cases "string_escape m")
        case (Some e)
        have "runs (p + 2) wf_str (string_body src start (p + 2) after)"
          by (rule "2.IH"(2) [OF _ _ True Cons Some wa]) (simp_all add: True)
        then show ?thesis
          using True Cons Some string_escape_bound [OF Some]
          by (auto simp: string_body.simps intro!: add_char_runs elim!: runs_later)
      next
        case None
        have "runs (p + 6) wf_str (string_body src start (p + 6) r) \<and> u < 1114112"
          if "m = 117" "hex4 after = Some (u, r)" "\<not> is_surrogate u" for u r
          using "2.IH"(1) [of m after "(u, r)" u r] True Cons None that hex4_bound [OF that(2) wa] by simp
        then show ?thesis
          using True Cons None
          by (auto simp: string_body.simps intro!: add_char_runs elim!: runs_later split: option.splits)
      qed
    qed
  qed
qed (simp add: string_body.simps)

lemma string_literal_runs: "wf_str src \<Longrightarrow> runs p wf_str (string_literal src p)"
  unfolding string_literal_def Let_def
  by (intro runs_moves [OF moves_later [OF take_symbol_moves]] runs_later [OF string_body_runs])
     (auto simp: wf_drop elim: order_trans [rotated])

lemma list_member_runs:
  assumes "wf_str src" "\<And>q. runs q (\<lambda>vs. \<forall>v \<in> set vs. literal_ok v) (inner q)"
  shows "runs p literal_ok (list_member src inner p)"
proof -
  obtain w q where pw: "peek_word src p = (w, q)" by (cases "peek_word src p")
  have "runs q literal_ok (list_member src inner p)"
    unfolding list_member_def pw
    using assms
    by (auto simp: safe_int_def [symmetric] split: option.split
        intro!: runs_bind [OF string_literal_runs] runs_bind [OF integer_literal_runs] runs_bind [OF assms(2)])
  then show ?thesis using peek_word_ge [OF pw] by (rule runs_later)
qed

lemma list_members_runs:
  assumes item: "\<And>q. runs q literal_ok (item q)"
  shows "0 < n \<Longrightarrow> length src < p + n \<Longrightarrow>
    runs p (\<lambda>vs. \<forall>v \<in> set vs. literal_ok v) (list_members src item n p)"
proof (induction n arbitrary: p)
  case (Suc n)
  show ?case
    unfolding list_members.simps
  proof (rule runs_bind [OF item], simp only: prod.case, goal_cases)
    case (1 v q)
    obtain comma q1 where q1: "peek_symbol src '','' q = (comma, q1)"
      by (cases "peek_symbol src '','' q")
    show ?case
    proof (cases comma)
      case False
      have "runs q1 (\<lambda>vs. \<forall>v \<in> set vs. literal_ok v)
          (bindE (take_symbol src '']'' ''closing bracket or comma'' q1) (\<lambda>r. Inr ([v], r)))"
        by (rule runs_moves [OF take_symbol_moves]) (use 1 in simp)
      then show ?thesis
        using False q1 peek_symbol_ge [OF q1] 1 by (auto elim: runs_later)
    next
      case True
      obtain close q2 where q2: "peek_symbol src '']'' (q1 + 1) = (close, q2)"
        by (cases "peek_symbol src '']'' (q1 + 1)")
      have b: "q \<le> q1" "q1 < length src" "q1 + 1 \<le> q2"
        using peek_symbol_found q1 True peek_symbol_ge [OF q2] by auto
      have "runs q2 (\<lambda>vs. \<forall>v \<in> set vs. literal_ok v) (list_members src item n q2)"
        using b 1 Suc.prems by (intro Suc.IH) auto
      then have "runs q2 (\<lambda>vs. \<forall>v \<in> set vs. literal_ok v)
          (bindE (list_members src item n q2) (\<lambda>(vs, r). Inr (v # vs, r)))"
        by (rule runs_bind) (use 1 in auto)
      then show ?thesis
        using True q1 q2 b 1 by (auto elim: runs_later split: bool.split)
    qed
  qed
qed simp

lemma list_literal_runs:
  "wf_str src \<Longrightarrow> runs p (\<lambda>vs. \<forall>v \<in> set vs. literal_ok v) (list_literal src d p)"
proof (induction d arbitrary: p)
  case (Suc d)
  show ?case
    unfolding list_literal.simps
  proof (rule runs_moves [OF take_symbol_moves], goal_cases)
    case (1 q)
    obtain b q1 where q1: "peek_symbol src '']'' q = (b, q1)" by (cases "peek_symbol src '']'' q")
    have "runs q1 (\<lambda>vs. \<forall>v \<in> set vs. literal_ok v)
        (list_members src (list_member src (list_literal src d)) (Suc (length src)) q1)"
      by (intro list_members_runs list_member_runs Suc) auto
    then show ?case
      using q1 peek_symbol_ge [OF q1] 1 by (cases b) (auto elim: runs_later simp del: list_members.simps)
  qed
qed simp

section \<open>Paths and operands\<close>

lemma match_index_digits: "match_index s = Some t \<Longrightarrow> t \<noteq> [] \<and> list_all is_digit t"
  by (auto simp: match_index_def list_all_iff is_digit_def [of 48] split: list.splits if_splits dest: set_takeWhileD)

lemma py_int_index: "match_index s = Some t \<Longrightarrow> py_int t = Inr i \<Longrightarrow> 0 \<le> i"
  by (drule match_index_digits)
     (auto simp: py_int_def is_digit_def neq_Nil_conv split: if_splits)

lemma path_rest_runs:
  "0 < n \<Longrightarrow> length src < p + n \<Longrightarrow> runs p (\<lambda>ss. \<forall>s \<in> set ss. segment_ok s) (path_rest src n p)"
proof (induction n arbitrary: p)
  case (Suc n)
  let ?Q = "\<lambda>ss. \<forall>s \<in> set ss. segment_ok s"
  have again: "runs r ?Q (bindE (path_rest src n r) (\<lambda>(ss, e). Inr (s # ss, e)))"
    if "segment_ok s" "q < length src" "p \<le> q" "q < r" for s q r
  proof (rule runs_bind)
    show "runs r ?Q (path_rest src n r)" using that Suc.prems by (intro Suc.IH) auto
  qed (use that in auto)
  obtain dot q1 where q1: "peek_symbol src ''.'' p = (dot, q1)" by (cases "peek_symbol src ''.'' p")
  show ?case
  proof (cases dot)
    case True
    then have b: "p \<le> q1" "q1 < length src" using q1 peek_symbol_found by auto
    have "runs (q1 + 1) ?Q (bindE (take_word src (q1 + 1)) (\<lambda>(name, r).
          bindE (path_rest src n r) (\<lambda>(segments, e). Inr (Member name # segments, e))))"
      by (rule runs_bind [OF take_word_runs]) (use b in \<open>auto intro!: runs_later [OF again [of _ q1]]\<close>)
    then show ?thesis using True q1 b by (auto elim: runs_later)
  next
    case False
    obtain bracket q2 where q2: "peek_symbol src ''['' q1 = (bracket, q2)"
      by (cases "peek_symbol src ''['' q1")
    have p12: "p \<le> q1" "q1 \<le> q2" using peek_symbol_ge [OF q1] peek_symbol_ge [OF q2] by auto
    show ?thesis
    proof (cases bracket)
      case True
      then have b: "q2 < length src" using q2 peek_symbol_found by auto
      let ?q = "skip_whitespace src (q2 + 1)"
      have ge: "q2 + 1 \<le> ?q" by simp
      show ?thesis
      proof (cases "match_index (drop ?q src)")
        case None
        then show ?thesis using q1 q2 False True by (simp add: Let_def)
      next
        case (Some t)
        have "runs ?q ?Q (bindE (py_int t) (\<lambda>i.
            bindE (take_symbol src '']'' ''closing bracket'' (?q + length t)) (\<lambda>r.
            bindE (path_rest src n r) (\<lambda>(segments, e). Inr (Index i # segments, e)))))"
        proof (rule runs_value, goal_cases)
          case (2 i)
          show ?case
          proof (rule runs_moves [OF moves_later [OF take_symbol_moves]], goal_cases)
            case (2 r)
            show ?case
              using again [of "Index i" q2 r] py_int_index [OF Some \<open>py_int t = Inr i\<close>] b p12 2 ge
              by (auto intro: runs_later)
          qed simp
        qed simp
        moreover have "p \<le> ?q" using ge p12 by linarith
        ultimately have "runs p ?Q (bindE (py_int t) (\<lambda>i.
            bindE (take_symbol src '']'' ''closing bracket'' (?q + length t)) (\<lambda>r.
            bindE (path_rest src n r) (\<lambda>(segments, e). Inr (Index i # segments, e)))))"
          by (rule runs_later)
        then show ?thesis
          using q1 q2 False True Some by (simp add: Let_def)
      qed
    next
      case b: False
      then show ?thesis using q1 q2 False p12 by simp
    qed
  qed
qed simp

lemma plain_roots: "is_path_root w \<Longrightarrow> \<exists>root. w = Some root \<and> root \<in> set path_roots"
  by (auto simp: is_path_root_def split: option.splits)

text \<open>A path starts with the word under the cursor; a root stands there when it is called.\<close>

lemma path_runs:
  assumes "is_path_root (fst (peek_word src p))"
  shows "runs p path_ok (path src p)"
proof -
  obtain root q where pw: "peek_word src p = (Some root, q)" "root \<in> set path_roots"
    using plain_roots [OF assms] by (metis prod.collapse)
  then have tw: "take_word src p = Inr (root, q + length root)" by (simp add: take_word_def)
  have q: "p \<le> q + length root" using peek_word_ge [OF pw(1)] by simp
  have "runs (q + length root) path_ok (bindE (take_symbol src ''.'' ''dot'' (q + length root)) (\<lambda>q.
     bindE (take_word src q) (\<lambda>(name, q).
     bindE (path_rest src (Suc (length src)) q) (\<lambda>(segments, r).
     Inr (Path root (Member name # segments), r)))))"
  proof (rule runs_moves [OF take_symbol_moves], rule runs_later, rule runs_bind [OF take_word_runs],
      simp only: prod.case, goal_cases)
    case (1 a name b)
    have "runs b path_ok (bindE (path_rest src (Suc (length src)) b) (\<lambda>(segments, r).
        Inr (Path root (Member name # segments), r)))"
      by (rule runs_bind [OF path_rest_runs]) (use 1 pw(2) in auto)
    then show ?case using 1 by (auto elim: runs_later)
  qed auto
  with q have "runs p path_ok (bindE (take_symbol src ''.'' ''dot'' (q + length root)) (\<lambda>q.
     bindE (take_word src q) (\<lambda>(name, q).
     bindE (path_rest src (Suc (length src)) q) (\<lambda>(segments, r).
     Inr (Path root (Member name # segments), r)))))" by (elim runs_later)
  then show ?thesis by (simp add: path_def tw)
qed

lemma peek_word_again: "peek_word src p = (w, q) \<Longrightarrow> peek_word src q = (w, q)"
proof -
  have skip: "skip_whitespace src (skip_whitespace src p) = skip_whitespace src p" for p
  proof -
    have "drop (skip_whitespace src p) src = dropWhile is_blank (drop p src)"
      by (simp add: skip_whitespace_def add.commute dropWhile_eq_drop)
    then have "takeWhile is_blank (drop (skip_whitespace src p) src) = []"
      by (metis hd_dropWhile takeWhile_eq_Nil_iff)
    then show ?thesis unfolding skip_whitespace_def [of src "skip_whitespace src p"] by simp
  qed
  assume "peek_word src p = (w, q)"
  then show ?thesis by (auto simp: peek_word_def Let_def skip)
qed

lemma operand_runs:
  assumes "wf_str src"
  shows "runs p operand_ok (operand src d p)"
proof -
  obtain w q where pw: "peek_word src p = (w, q)" by (cases "peek_word src p")
  have path: "runs q operand_ok (path src q)" if "is_path_root w"
  proof (rule runs_weaken)
    show "runs q path_ok (path src q)"
      by (rule path_runs) (simp add: peek_word_again [OF pw] that)
  next
    fix n
    show "operand_ok n" if "path_ok n" using that by (cases n) auto
  qed
  have string: "runs q operand_ok (bindE (string_literal src q) (\<lambda>(s, r). Inr (Literal (JStr s), r)))"
    by (rule runs_bind [OF string_literal_runs [OF assms]]) auto
  have list: "runs q operand_ok (bindE (list_literal src d q) (\<lambda>(vs, r). Inr (Literal (JList vs), r)))"
    by (rule runs_bind [OF list_literal_runs [OF assms]]) auto
  have integer: "runs q operand_ok (bindE (integer_literal src t q) (\<lambda>(i, r). Inr (Literal (JInt i), r)))" for t
    by (rule runs_bind [OF integer_literal_runs]) auto
  have "runs q operand_ok (operand src d p)"
    using path string list integer by (simp add: operand_def pw split: option.split)
  then show ?thesis using peek_word_ge [OF pw] by (rule runs_later)
qed

section \<open>Predicates\<close>

lemma close_call_moves: "moves p (close_call src name n p)"
  by (auto simp: close_call_def split: prod.splits bool.splits dest!: peek_symbol_ge)

lemma reject_extra_moves: "moves p (reject_extra_arguments src name n p)"
  by (auto simp: reject_extra_arguments_def split: prod.splits bool.splits dest!: peek_symbol_ge)

lemma evidence_call_runs: "runs p predicate_ok (evidence_call src name p)"
proof -
  obtain w q where pw: "peek_word src p = (w, q)" by (cases "peek_word src p")
  have "runs q predicate_ok (evidence_call src name p)"
  proof (cases "w = None \<or> the w \<in> set keyword_names")
    case True
    then show ?thesis by (simp add: evidence_call_def pw)
  next
    case False
    then obtain word where w: "w = Some word" "word \<notin> set keyword_names" by auto
    with pw peek_word_plain have "plain_member word" by blast
    let ?q = "skip_whitespace src (q + length word)"
    have "runs ?q predicate_ok (bindE (reject_extra_arguments src name 1 ?q) (\<lambda>q.
                     bindE (close_call src name 1 q) (\<lambda>r.
                     Inr (if name = lit ''fresh'' then Fresh word else Present word, r))))"
    proof (rule runs_moves [OF reject_extra_moves], goal_cases)
      case (1 r)
      have "runs r predicate_ok (bindE (close_call src name 1 r) (\<lambda>r.
          Inr (if name = lit ''fresh'' then Fresh word else Present word, r)))"
        by (rule runs_moves [OF close_call_moves]) (use w \<open>plain_member word\<close> in simp)
      then show ?case using 1 by (rule runs_later)
    qed
    moreover have "q \<le> ?q"
      by (rule order_trans [of _ "q + length word"]) simp_all
    ultimately have "runs q predicate_ok (bindE (reject_extra_arguments src name 1 ?q) (\<lambda>q.
                     bindE (close_call src name 1 q) (\<lambda>r.
                     Inr (if name = lit ''fresh'' then Fresh word else Present word, r))))"
      by (rule runs_later)
    then show ?thesis
      using w by (cases "name = lit ''fresh''") (simp_all add: evidence_call_def pw Let_def)
  qed
  then show ?thesis using peek_word_ge [OF pw] by (rule runs_later)
qed

lemma matches_call_runs:
  assumes "wf_str src"
  shows "runs p predicate_ok (matches_call src p)"
proof -
  obtain w q where pw: "peek_word src p = (w, q)" by (cases "peek_word src p")
  have "runs q predicate_ok (matches_call src p)"
  proof (cases "is_path_root w")
    case False
    then show ?thesis by (simp add: matches_call_def pw)
  next
    case True
    have root: "runs q path_ok (path src q)"
      by (rule path_runs) (simp add: peek_word_again [OF pw] True)
    show ?thesis
      unfolding matches_call_def pw prod.case
    proof (simp only: True not_True_eq_False if_False, rule runs_bind [OF root], simp only: prod.case, goal_cases)
      case (1 first q')
      obtain c q1 where q1: "peek_symbol src '','' q' = (c, q1)" by (cases "peek_symbol src '','' q'")
      obtain s q2 where q2: "peek_symbol src ''\"'' (q1 + 1) = (s, q2)"
        by (cases "peek_symbol src ''\"'' (q1 + 1)")
      have ge: "q \<le> q2" using 1 peek_symbol_ge [OF q1] peek_symbol_ge [OF q2] by simp
      have "runs q2 predicate_ok (bindE (string_literal src q2) (\<lambda>(text, q).
                      bindE (reject_extra_arguments src (lit ''matches'') 2 q) (\<lambda>q.
                      bindE (close_call src (lit ''matches'') 2 q) (\<lambda>r.
                      Inr (Matches first text, r)))))"
      proof (rule runs_bind [OF string_literal_runs [OF assms]], simp only: prod.case,
          rule runs_moves [OF moves_later [OF reject_extra_moves]], assumption, goal_cases)
        case (1 t r r')
        have "runs r' predicate_ok (bindE (close_call src (lit ''matches'') 2 r') (\<lambda>r. Inr (Matches first t, r)))"
          by (rule runs_moves [OF close_call_moves]) (use 1 \<open>path_ok first\<close> in simp)
        then show ?case using 1 by (auto elim: runs_later)
      qed
      then have "runs q predicate_ok (bindE (string_literal src q2) (\<lambda>(text, q).
                      bindE (reject_extra_arguments src (lit ''matches'') 2 q) (\<lambda>q.
                      bindE (close_call src (lit ''matches'') 2 q) (\<lambda>r.
                      Inr (Matches first text, r)))))" using ge by (rule runs_later)
      then show ?case using q1 q2 by (simp split: bool.split)
    qed
  qed
  then show ?thesis using peek_word_ge [OF pw] by (rule runs_later)
qed

lemma function_call_runs:
  assumes "wf_str src"
  shows "runs p predicate_ok (function_call src p)"
  unfolding function_call_def
proof (rule runs_bind [OF take_word_runs], simp only: prod.case,
    rule runs_moves [OF moves_later [OF take_symbol_moves]], assumption, goal_cases)
  case (1 name q r)
  have "runs r predicate_ok (if name = lit ''fresh'' \<or> name = lit ''present'' then evidence_call src name r
      else matches_call src r)"
    using evidence_call_runs matches_call_runs [OF assms] by simp
  then show ?case using 1 by (auto elim: runs_later)
qed

lemma operator_found: "operator_at src p = Some operator \<Longrightarrow> operator \<in> set comparison_operators"
  by (auto simp: operator_at_def find_Some_iff)

lemma reject_chained_moves: "moves p (reject_chained_comparison src p)"
  by (simp add: reject_chained_comparison_def Let_def split: option.split)

lemma check_literal_value: "check_literal_comparison src l r k operator \<noteq> Inl out_of_fuel"
  by (auto simp: check_literal_comparison_def type_fail_def out_of_fuel_def split_beta split: node.splits)

lemma check_literal_comparable:
  "check_literal_comparison src l r k operator = Inr () \<Longrightarrow> statically_comparable operator l r"
  by (cases "(operator, l, r)" rule: statically_comparable.cases)
     (auto simp: check_literal_comparison_def type_fail_def split_beta split: if_splits)

lemma membership_runs:
  assumes "wf_str src" "operand_ok left" "operator \<in> {''in'', ''not in''}"
  shows "runs p predicate_ok (membership src d left operator p)"
proof -
  obtain b q where q: "peek_symbol src ''['' p = (b, q)" by (cases "peek_symbol src ''['' p")
  have "runs q predicate_ok (bindE (list_literal src d q) (\<lambda>(members, r). Inr (Membership (lit operator) left members, r)))"
    by (rule runs_bind [OF list_literal_runs [OF assms(1)]]) (use assms in auto)
  then show ?thesis
    using peek_symbol_ge [OF q] by (auto simp: membership_def q split: bool.split elim: runs_later)
qed

lemma comparison_runs:
  assumes wf: "wf_str src"
  shows "runs p predicate_ok (comparison src d p)"
proof -
  obtain w q where pw: "peek_word src p = (w, q)" by (cases "peek_word src p")
  have compare: "runs k predicate_ok (bindE (operand src d (k + n)) (\<lambda>(right, r).
      bindE (reject_chained_comparison src r) (\<lambda>r.
      bindE (check_literal_comparison src left right k operator) (\<lambda>_.
      Inr (Compare operator left right, r)))))"
    if "operand_ok left" "operator \<in> set comparison_operators" for k n left operator
  proof (rule runs_later, rule runs_bind [OF operand_runs [OF wf]], simp only: prod.case, goal_cases)
    case (1 right r)
    have "runs r predicate_ok (bindE (reject_chained_comparison src r) (\<lambda>r.
      bindE (check_literal_comparison src left right k operator) (\<lambda>_.
      Inr (Compare operator left right, r))))"
      by (rule runs_moves [OF reject_chained_moves], rule runs_value)
         (use that 1 in \<open>auto simp: check_literal_value check_literal_comparable\<close>)
    then show ?case using 1 by (auto elim: runs_later)
  qed simp
  have "runs q predicate_ok (comparison src d p)"
  proof (cases "w \<noteq> None \<and> the w \<in> set function_names")
    case True
    then show ?thesis using function_call_runs [OF wf] by (simp add: comparison_def pw)
  next
    case False
    have "runs q predicate_ok (bindE (operand src d q) (\<lambda>(left, q').
            (case take_keyword_if src ''not'' q' of
               (True, q') \<Rightarrow>
                 (case take_keyword_if src ''in'' q' of
                    (False, q') \<Rightarrow> fail_at src ([96] @ lit ''in'' @ [96] @ lit '' was expected after '' @ [96] @ lit ''not'' @ [96] @ lit ''.'') ''in'' q' (char_at src q')
                  | (True, q') \<Rightarrow> membership src d left ''not in'' q')
             | (False, q') \<Rightarrow>
                 (case take_keyword_if src ''in'' q' of
                    (True, q') \<Rightarrow> membership src d left ''in'' q'
                  | (False, q') \<Rightarrow>
                      (let q' = skip_whitespace src q'
                       in case operator_at src q' of
                            Some operator \<Rightarrow>
                              bindE (operand src d (q' + length operator)) (\<lambda>(right, r).
                              bindE (reject_chained_comparison src r) (\<lambda>r.
                              bindE (check_literal_comparison src left right q' operator) (\<lambda>_.
                              Inr (Compare operator left right, r))))
                          | None \<Rightarrow>
                              (let token = strip_text (drop q (take q' src))
                               in fail_at src (lit ''A bare operand is not a predicate.'') ''comparison operator'' q
                                    (if token = [] then char_at src q else token)))))))"
    proof (rule runs_bind [OF operand_runs [OF wf]], simp only: prod.case, goal_cases)
      case (1 left q')
      obtain n q1 where q1: "take_keyword_if src ''not'' q' = (n, q1)" by (cases "take_keyword_if src ''not'' q'")
      obtain i q2 where q2: "take_keyword_if src ''in'' q1 = (i, q2)" by (cases "take_keyword_if src ''in'' q1")
      have ge: "q \<le> q2" using 1 take_keyword_ge [OF q1] take_keyword_ge [OF q2] by simp
      have mem: "runs q predicate_ok (membership src d left ''not in'' q2)"
        "runs q predicate_ok (membership src d left ''in'' q2)"
        by (rule runs_later [OF membership_runs [OF wf 1(2)] ge], simp)+
      have "q \<le> skip_whitespace src q2" using ge by (rule order_trans) simp
      then have cmp: "runs q predicate_ok (bindE (operand src d (skip_whitespace src q2 + length operator)) (\<lambda>(right, r).
          bindE (reject_chained_comparison src r) (\<lambda>r.
          bindE (check_literal_comparison src left right (skip_whitespace src q2) operator) (\<lambda>_.
          Inr (Compare operator left right, r)))))" if "operator_at src (skip_whitespace src q2) = Some operator" for operator
        by (rule runs_later [OF compare [OF 1(2) operator_found [OF that]]])
      show ?case
        using q1 q2 mem cmp by (cases n; cases i) (auto simp: Let_def split: option.split)
    qed
    then show ?thesis
      unfolding comparison_def pw prod.case by (rule runs_if [rotated]) (use False in simp)
  qed
  then show ?thesis using peek_word_ge [OF pw] by (rule runs_later)
qed

lemma not_expression_runs:
  assumes wf: "wf_str src" and inner: "\<And>f q. inner = Some f \<Longrightarrow> runs q predicate_ok (f q)"
  shows "runs p predicate_ok (not_expression src d inner p)"
proof -
  obtain negated q where q: "take_keyword_if src ''not'' p = (negated, q)" by (cases "take_keyword_if src ''not'' p")
  obtain b q1 where q1: "peek_symbol src ''('' q = (b, q1)" by (cases "peek_symbol src ''('' q")
  have ge: "q \<le> q1" by (rule peek_symbol_ge [OF q1])
  have paren: "runs (q1 + 1) predicate_ok (bindE (f (q1 + 1)) (\<lambda>(node, r).
      bindE (take_symbol src '')'' ''closing parenthesis'' r) (\<lambda>r. Inr (node, r))))" if "inner = Some f" for f
  proof (rule runs_bind [OF inner [OF that]], simp only: prod.case, goal_cases)
    case (1 node r)
    have "runs r predicate_ok (bindE (take_symbol src '')'' ''closing parenthesis'' r) (\<lambda>r. Inr (node, r)))"
      by (rule runs_moves [OF take_symbol_moves]) (use 1 in simp)
    then show ?case using 1 by (auto elim: runs_later)
  qed
  have body: "runs q predicate_ok (case peek_symbol src ''('' q of
      (True, q) \<Rightarrow> (case inner of
          None \<Rightarrow> too_nested src q
        | Some f \<Rightarrow> bindE (f (q + 1)) (\<lambda>(node, r).
            bindE (take_symbol src '')'' ''closing parenthesis'' r) (\<lambda>r. Inr (node, r))))
    | (False, q) \<Rightarrow> comparison src d q)"
    using ge paren runs_later [OF comparison_runs [OF wf] ge]
    by (auto simp: q1 split: bool.split option.split elim!: runs_later)
  have "runs q predicate_ok (not_expression src d inner p)"
    unfolding not_expression_def q prod.case
    by (rule runs_if) (simp only: failures_run, rule runs_bind [OF body], auto)
  then show ?thesis using take_keyword_ge [OF q] by (rule runs_later)
qed

lemma more_operands_runs:
  assumes item: "\<And>q. runs q predicate_ok (item q)"
  shows "0 < n \<Longrightarrow> length src < p + n \<Longrightarrow>
    runs p (\<lambda>ns. \<forall>m \<in> set ns. predicate_ok m) (more_operands src word item n p)"
proof (induction n arbitrary: p)
  case (Suc n)
  obtain b q where q: "take_keyword_if src word p = (b, q)" by (cases "take_keyword_if src word p")
  show ?case
  proof (cases b)
    case False
    then show ?thesis using q take_keyword_ge [OF q] by simp
  next
    case True
    have b: "p < q" "q \<le> length src" using take_keyword_found q True by auto
    have "runs q (\<lambda>ns. \<forall>m \<in> set ns. predicate_ok m) (bindE (item q) (\<lambda>(node, r).
          bindE (more_operands src word item n r) (\<lambda>(nodes, e). Inr (node # nodes, e))))"
    proof (rule runs_bind [OF item], simp only: prod.case, goal_cases)
      case (1 node r)
      have "runs r (\<lambda>ns. \<forall>m \<in> set ns. predicate_ok m) (bindE (more_operands src word item n r) (\<lambda>(nodes, e). Inr (node # nodes, e)))"
      proof (rule runs_bind)
        show "runs r (\<lambda>ns. \<forall>m \<in> set ns. predicate_ok m) (more_operands src word item n r)"
          using b 1 Suc.prems by (intro Suc.IH) auto
      qed (use 1 in auto)
      then show ?case using 1 by (auto elim: runs_later)
    qed
    then show ?thesis using True q b by (auto elim: runs_later)
  qed
qed simp

lemma joined_runs:
  assumes item: "\<And>q. runs q predicate_ok (item q)" and build: "build = And_node \<or> build = Or_node"
  shows "runs p predicate_ok (joined src word build item p)"
  unfolding joined_def
proof (rule runs_bind [OF item], simp only: prod.case, goal_cases)
  case (1 first q)
  have "runs q predicate_ok (bindE (more_operands src word item (Suc (length src)) q) (\<lambda>(others, r).
     Inr (if others = [] then first else build (first # others), r)))"
    by (rule runs_bind [OF more_operands_runs [OF item]])
       (use 1 build in \<open>auto simp: neq_Nil_conv simp del: more_operands.simps\<close>)
  then show ?case using 1 by (auto elim: runs_later)
qed

lemma or_expression_runs:
  assumes "wf_str src" "\<And>f q. inner = Some f \<Longrightarrow> runs q predicate_ok (f q)"
  shows "runs p predicate_ok (or_expression src d inner p)"
  unfolding or_expression_def by (intro joined_runs not_expression_runs assms) auto

lemma expression_runs: "wf_str src \<Longrightarrow> runs p predicate_ok (expression src d p)"
  by (induction d arbitrary: p) (auto intro!: or_expression_runs)

lemma parse_runs:
  assumes "wf_str src"
  shows "parse src \<noteq> Inl out_of_fuel" and "parse src = Inr tree \<Longrightarrow> predicate_ok tree"
proof -
  obtain b p where p: "at_end src 0 = (b, p)" by (cases "at_end src 0")
  have "runs p predicate_ok (expression src max_nesting p)" by (rule expression_runs [OF assms])
  then show "parse src \<noteq> Inl out_of_fuel" "parse src = Inr tree \<Longrightarrow> predicate_ok tree"
    by (auto simp: parse_def p runs_def bindE_Inl_iff fail_at_def fail_here_def out_of_fuel_def split_beta
        split: bool.splits sum.splits prod.splits)
qed

section \<open>Trees as documents\<close>

lemma plain_member_wf: "plain_member w \<Longrightarrow> wf_str w"
  by (auto simp: plain_member_def wf_str_def name_part_def name_start_def is_digit_def list_all_iff
      split: list.splits)

lemma literal_wf: "literal_ok v \<Longrightarrow> wf_json v \<and> sort_json v = v"
  by (induction v) (auto simp: map_idI)

lemma segment_wf: "segment_ok s \<Longrightarrow> wf_json (segment_value s)"
  by (cases s) (auto simp: keys_def plain_member_wf)

lemma path_wf: "path_ok n \<Longrightarrow> wf_json (node_value n)"
proof (cases n)
  case (Path root segments)
  assume "path_ok n"
  with Path have "wf_str root" "\<forall>s \<in> set segments. wf_json (segment_value s)"
    by (auto simp: path_roots_def segment_wf simp del: segment_ok.simps)
  with Path show ?thesis by (auto simp: keys_def)
qed auto

lemma operand_wf: "operand_ok n \<Longrightarrow> wf_json (node_value n)"
proof (cases n)
  case (Literal v)
  assume "operand_ok n"
  with Literal show ?thesis by (simp add: keys_def literal_wf)
next
  case (Path root segments)
  assume "operand_ok n"
  with Path path_wf [of n] show ?thesis by simp
qed auto

lemma comparison_operator_wf: "operator \<in> set comparison_operators \<Longrightarrow> wf_str operator"
  by (auto simp: comparison_operators_def)

lemma predicate_wf: "predicate_ok n \<Longrightarrow> wf_json (node_value n)"
proof (induction n)
  case (Compare operator l r)
  then show ?case by (auto simp: keys_def operand_wf comparison_operator_wf)
next
  case (Membership operator l ms)
  then show ?case by (auto simp: keys_def operand_wf literal_wf)
next
  case (Matches l pat)
  then show ?case by (auto simp: keys_def path_wf)
qed (auto simp: keys_def plain_member_wf)

lemma parse_expression_Inr:
  assumes "parse_expression source = Inr e" "wf_json source"
  shows "predicate_ok (expr_tree e)" "canon_json (node_value (expr_tree e)) = Inr (expr_canonical e)"
    "ast_json e = Inr (sort_json (node_value (expr_tree e)))"
    "source = JStr (expr_source e)" "parse (expr_source e) = Inr (expr_tree e)"
    "expr_evidence_ids e = collect_evidence_ids (expr_tree e) []"
proof -
  obtain src tree c v where s: "source = JStr src" "parse src = Inr tree" "canon_json (node_value tree) = Inr c"
    "reload c = Inr v"
    "e = \<lparr>expr_source = src, expr_canonical = c, expr_evidence_ids = collect_evidence_ids tree [], expr_tree = tree\<rparr>"
    using assms(1) by (auto simp: parse_expression_def result_simps Let_def split: json.splits)
  have ok: "predicate_ok tree" using parse_runs(2) s(1,2) assms(2) by simp
  have "jdepth (node_value tree) \<le> max_depth"
    using reload_canonical [OF predicate_wf [OF ok] s(3)] s(4) by (auto split: if_splits)
  with reload_canonical [OF predicate_wf [OF ok] s(3)]
  have "reload c = Inr (sort_json (node_value tree))" by simp
  with s ok show "predicate_ok (expr_tree e)" "canon_json (node_value (expr_tree e)) = Inr (expr_canonical e)"
    "ast_json e = Inr (sort_json (node_value (expr_tree e)))"
    "source = JStr (expr_source e)" "parse (expr_source e) = Inr (expr_tree e)"
    "expr_evidence_ids e = collect_evidence_ids (expr_tree e) []"
    by (simp_all add: ast_json_def)
qed

lemma parse_expression_intro:
  assumes "parse src = Inr tree" "wf_str src" "canon_ok (node_value tree)"
    and "jdepth (node_value tree) \<le> max_depth"
  shows "parse_expression (JStr src) = Inr \<lparr>expr_source = src, expr_canonical = jtext (node_value tree),
    expr_evidence_ids = collect_evidence_ids tree [], expr_tree = tree\<rparr>"
proof -
  have c: "canon_json (node_value tree) = Inr (jtext (node_value tree))"
    using assms(3) by (simp only: canon_json_iff)
  have "predicate_ok tree" using parse_runs(2) assms(1,2) by blast
  with reload_canonical [OF predicate_wf c] assms(1,4) c show ?thesis
    by (simp add: parse_expression_def Let_def)
qed

section \<open>Evidence ids\<close>

text \<open>The ids a tree names, as a set, and that the collection lists each of them once.\<close>

fun evidence_names :: "node \<Rightarrow> ustr set" where
  "evidence_names (Fresh i) = {i}"
| "evidence_names (Present i) = {i}"
| "evidence_names (Path root segments) =
     (case segments of Member name # _ \<Rightarrow> if root = lit ''evidence'' then {name} else {} | _ \<Rightarrow> {})"
| "evidence_names (And_node ns) = \<Union> (evidence_names ` set ns)"
| "evidence_names (Or_node ns) = \<Union> (evidence_names ` set ns)"
| "evidence_names (Not_node n) = evidence_names n"
| "evidence_names (Compare operator l r) = evidence_names l \<union> evidence_names r"
| "evidence_names (Membership operator l ms) = evidence_names l"
| "evidence_names (Matches first pat) = evidence_names first"
| "evidence_names (Literal v) = {}"

lemma append_once_set [simp]: "set (append_once out i) = insert i (set out)"
  and append_once_distinct [simp]: "distinct (append_once out i) = distinct out"
  by (auto simp: append_once_def)

lemma collect_fold:
  assumes "\<And>n out. n \<in> set ns \<Longrightarrow> set (f n out) = set out \<union> g n \<and> (distinct out \<longrightarrow> distinct (f n out))"
  shows "set (fold f ns out) = set out \<union> \<Union> (g ` set ns) \<and> (distinct out \<longrightarrow> distinct (fold f ns out))"
  using assms by (induction ns arbitrary: out) auto

lemma collect_evidence:
  "set (collect_evidence_ids n out) = set out \<union> evidence_names n \<and>
     (distinct out \<longrightarrow> distinct (collect_evidence_ids n out))"
proof (induction n arbitrary: out)
  case (And_node ns)
  then show ?case using collect_fold [of ns collect_evidence_ids evidence_names out] by simp
next
  case (Or_node ns)
  then show ?case using collect_fold [of ns collect_evidence_ids evidence_names out] by simp
qed (auto split: list.splits segment.splits)

section \<open>Properties\<close>

text \<open>
  C23. The parser returns on every source text: the loops of the parser object end within the length
  of the source, and what it raises is a failure of its own vocabulary or of the host's integer
  conversion, never exhaustion.
\<close>

theorem parse_terminates:
  assumes "wf_str src"
  shows "parse src \<noteq> Inl out_of_fuel"
  using assms by (rule parse_runs)

theorem parse_terminates_witness: "parse (lit ''fresh(x)'') \<noteq> Inl out_of_fuel"
  by (rule parse_terminates) simp

text \<open>
  C24. An accepted expression has the declared grammar: every tree the parser returns is a predicate
  whose operands, operators, paths, evidence ids and literals have the shapes of the language, and
  literal comparisons pass the static check.
\<close>

theorem parse_well_formed:
  assumes "wf_str src" "parse src = Inr tree"
  shows "predicate_ok tree"
  using assms by (rule parse_runs)

theorem parse_well_formed_witness:
  "parse (lit ''fresh(x)'') = Inr (Fresh (lit ''x'')) \<and> predicate_ok (Fresh (lit ''x''))"
proof -
  have p: "parse (lit ''fresh(x)'') = Inr (Fresh (lit ''x''))" by code_simp
  with parse_well_formed [OF wf_lit p] show ?thesis by simp
qed

text \<open>
  An accepted expression is always usable: \<open>ast()\<close> reloads from the canonical text, the
  value of the parsed tree with its members in canonical order, and the recorded evidence ids are
  exactly the ids that the tree names, each once.
\<close>

theorem parsed_expression_reloads:
  assumes "wf_json source" "parse_expression source = Inr e"
  shows "ast_json e = Inr (sort_json (node_value (expr_tree e))) \<and>
    set (expr_evidence_ids e) = evidence_names (expr_tree e) \<and> distinct (expr_evidence_ids e)"
  using parse_expression_Inr [OF assms(2,1)] collect_evidence [of "expr_tree e" "[]"] by simp

theorem parsed_expression_reloads_witness:
  "\<exists>e. parse_expression (JStr (lit ''fresh(x)'')) = Inr e \<and> expr_tree e = Fresh (lit ''x'') \<and>
     ast_json e = Inr (sort_json (node_value (Fresh (lit ''x'')))) \<and> set (expr_evidence_ids e) = {lit ''x''}"
proof -
  have p: "parse (lit ''fresh(x)'') = Inr (Fresh (lit ''x''))" by code_simp
  have ok: "canon_ok (node_value (Fresh (lit ''x'')))" "jdepth (node_value (Fresh (lit ''x''))) \<le> max_depth"
    by (simp_all add: text_eval max_depth_def)
  have wf: "wf_json (JStr (lit ''fresh(x)''))" by simp
  from parse_expression_intro [OF p wf_lit ok] obtain e where
    e: "parse_expression (JStr (lit ''fresh(x)'')) = Inr e" "expr_tree e = Fresh (lit ''x'')" by simp
  with parsed_expression_reloads [OF wf e(1)] show ?thesis by auto
qed

end
