(* ===== verification/Reordering.thy ===== *)
theory Reordering
  imports Frozen Validate
begin

text \<open>
  Member order carries no information: lookups, exact equality, schema validation, canonical text
  and digest of a well-formed value are those of its sorted form. The artifacts rely on it, because
  the value that a verifier rebuilds from canonical text has its members in another order than the
  value that was sealed.
\<close>

section \<open>Lookups\<close>

lemma sort_key_again [simp]: "sort_key f (sort_key f xs) = sort_key f xs"
  by (simp add: sort_key_id_if_sorted)

lemma dict_get_sort: "wf_json v \<Longrightarrow> dict_get (sort_json v) k = map_option sort_json (dict_get v k)"
  by (cases v) (auto simp: map_of_map_snd)

lemma subscript_sort: "wf_json v \<Longrightarrow> subscript (sort_json v) k = map_sum id sort_json (subscript v k)"
  by (cases v) (auto simp: map_of_map_snd split: option.splits)

lemma keys_items_sort [simp]: "set (keys (items (sort_json v))) = set (keys (items v))"
proof (cases v)
  case (JDict d)
  have "set (keys (sort_key fst e)) = set (keys e)" for e :: "(ustr \<times> json) list"
    by (simp add: keys_def)
  with JDict show ?thesis by simp
qed (simp_all add: keys_def)

lemma sort_scalar [simp]: "sort_json (JStr s) = JStr s" "sort_json JNull = JNull"
  "sort_json (JInt i) = JInt i" "sort_json (JBool b) = JBool b" by simp_all

lemma sort_json_shape [simp]:
  "is_dict (sort_json v) = is_dict v" "is_list (sort_json v) = is_list v"
  "is_str (sort_json v) = is_str v" "is_bool (sort_json v) = is_bool v"
  "is_int (sort_json v) = is_int v" "type_of (sort_json v) = type_of v"
  "the_str (sort_json v) = the_str v"
  by (cases v; simp)+

lemma sort_json_eq_scalar [simp]:
  "sort_json v = JStr s \<longleftrightarrow> v = JStr s" "sort_json v = JNull \<longleftrightarrow> v = JNull"
  "sort_json v = JInt i \<longleftrightarrow> v = JInt i" "sort_json v = JBool b \<longleftrightarrow> v = JBool b"
  by (cases v; simp)+

lemma truthy_sort [simp]: "truthy (sort_json v) = truthy v"
proof (cases v)
  case (JDict d)
  have "length (sort_key fst (map (\<lambda>(k, v). (k, sort_json v)) d)) = length d" by simp
  then have "sort_key fst (map (\<lambda>(k, v). (k, sort_json v)) d) = [] \<longleftrightarrow> d = []"
    by (metis length_0_conv)
  with JDict show ?thesis by simp
qed simp_all

section \<open>Exact equality\<close>

lemma exact_eq_sort_left: "wf_json v \<Longrightarrow> exact_eq (sort_json v) w = exact_eq v w"
proof (induction v w rule: exact_eq.induct)
  case (1 d e)
  let ?f = "\<lambda>(k, v). (k, sort_json v)"
  have step: "exact_eq (sort_json v) w = exact_eq v w" if "(k, v) \<in> set d" "map_of e k = Some w" for k v w
    using "1.IH" [of "(k, v)" k v w] "1.prems" that by auto
  have "(case map_of e (fst (?f p)) of None \<Rightarrow> False | Some w \<Rightarrow> exact_eq (snd (?f p)) w)
      = (case map_of e (fst p) of None \<Rightarrow> False | Some w \<Rightarrow> exact_eq (snd p) w)" if "p \<in> set d" for p
    using step that by (cases p) (auto split: option.split)
  then have all: "(\<forall>p \<in> set (sort_key fst (map ?f d)).
        case map_of e (fst p) of None \<Rightarrow> False | Some w \<Rightarrow> exact_eq (snd p) w)
      = (\<forall>p \<in> set d. case map_of e (fst p) of None \<Rightarrow> False | Some w \<Rightarrow> exact_eq (snd p) w)"
    by simp
  have keys: "set (keys (sort_key fst (map ?f d))) = set (keys d)"
    using keys_items_sort [of "JDict d"] by simp
  show ?case using all keys by (simp only: sort_json.simps exact_eq.simps case_prod_unfold)
next
  case (2 vs ws)
  have "exact_eq (sort_json v) w = exact_eq v w" if "(v, w) \<in> set (zip vs ws)" for v w
    using "2.IH" [of "(v, w)" v w] that "2.prems" by (auto dest: set_zip_leftD)
  then have "(\<forall>p \<in> set (zip vs ws). exact_eq (sort_json (fst p)) (snd p))
      = (\<forall>p \<in> set (zip vs ws). exact_eq (fst p) (snd p))"
    by auto
  then show ?case by (simp add: zip_map1 case_prod_unfold)
qed auto

section \<open>Validation\<close>

lemma forE_map: "forE f (map g xs) = forE (f \<circ> g) xs"
  by (induction xs) auto

lemma sorted_members_of:
  assumes "distinct (keys d)"
  shows "sort_key fst (sort_key fst (map (\<lambda>(k, v). (k, f v)) d)) = map (\<lambda>(k, v). (k, f v)) (sort_key fst d)"
  by (simp add: sort_key_map_snd)

lemma check_required_keys:
  "set (keys d) = set (keys e) \<Longrightarrow>
   check_required failure d names path spath = check_required failure e names path spath"
  by (induction names) (auto split: json.splits)

lemma validate_object_sort:
  assumes "wf_json (JDict d)"
    and "\<And>k w s p sp. (k, w) \<in> set d \<Longrightarrow> check (sort_json w) s p sp = check w s p sp"
  shows "validate_object check failure (sort_json (JDict d)) schema path spath
       = validate_object check failure (JDict d) schema path spath"
proof -
  let ?e = "sort_key fst (map (\<lambda>(k, v). (k, sort_json v)) d)"
  have k: "set (keys ?e) = set (keys d)" using keys_items_sort [of "JDict d"] by simp
  have d: "distinct (keys d)" using assms(1) by simp
  have "declared_members check ?e ps path spath = declared_members check d ps path spath" for ps
    unfolding declared_members_def sorted_members_of [OF d] forE_map
    by (rule forE_cong) (auto simp: assms(2) intro!: bindE_cong)
  moreover have "additional_members check failure ?e ps a path spath
      = additional_members check failure d ps a path spath" for ps a
    unfolding additional_members_def sorted_members_of [OF d] forE_map
    by (rule forE_cong) (auto simp: assms(2) intro!: bindE_cong)
  ultimately show ?thesis
    by (simp add: validate_object_def Let_def check_required_keys [OF k] cong: bindE_cong option.case_cong if_cong)
qed

lemma check_values_sort:
  "wf_json v \<Longrightarrow> check_values failure (sort_json v) s path spath = check_values failure v s path spath"
proof -
  assume "wf_json v"
  then have "exact_eq (sort_json v) = exact_eq v" by (intro ext exact_eq_sort_left)
  then show ?thesis by (simp only: check_values_def)
qed

lemma check_kind_sort:
  assumes "\<And>vs w s p sp. v = JList vs \<Longrightarrow> w \<in> set vs \<Longrightarrow> check (sort_json w) s p sp = check w s p sp"
  shows "check_kind check X failure (sort_json v) s path spath = check_kind check X failure v s path spath"
proof (cases v)
  case (JList vs)
  have "forE (\<lambda>(i, w). check w t (item_path path i) (spath @ lit ''.items'')) (enumerate 0 (map sort_json vs))
      = forE (\<lambda>(i, w). check w t (item_path path i) (spath @ lit ''.items'')) (enumerate 0 vs)" for t
  proof -
    have e: "enumerate 0 (map sort_json vs) = map (\<lambda>(i, w). (i, sort_json w)) (enumerate 0 vs)"
      by (simp add: enumerate_eq_zip zip_map2)
    show ?thesis
      unfolding e forE_map
      by (rule forE_cong) (auto simp: JList assms enumerate_eq_zip dest: set_zip_rightD)
  qed
  then show ?thesis unfolding check_kind_def JList
    by (simp add: check_min_items_def cong: option.case_cong bindE_cong if_cong)
qed (simp_all add: check_kind_def)

lemma check_type_sort: "check_type failure (sort_json v) = check_type failure v"
  by (simp only: check_type_def [abs_def] sort_json_shape)

lemma validate_node_sort:
  "wf_json v \<Longrightarrow> validate_node X registry failure n (sort_json v) schema path spath ident depth
     = validate_node X registry failure n v schema path spath ident depth"
proof (induction n arbitrary: v schema path spath ident depth)
  case 0
  show ?case by (simp add: validate_node.simps)
next
  case (Suc n)
  have wf: "wf_json v" by (rule Suc.prems)
  define check where "check = (\<lambda>v s p sp. validate_node X registry failure n v s p sp ident (depth + 1))"
  have ih: "check (sort_json w) s p sp = check w s p sp" if "wf_json w" for w s p sp
    by (simp add: check_def Suc.IH [OF that])
  have obj: "validate_object check failure (sort_json v) s path spath
      = validate_object check failure v s path spath" for s
  proof (cases v)
    case (JDict d)
    show ?thesis unfolding JDict
      by (rule validate_object_sort) (use wf JDict ih in auto)
  qed (simp_all add: validate_object_def)
  have kind: "check_kind check X failure (sort_json v) s path spath
      = check_kind check X failure v s path spath" for s
    by (rule check_kind_sort) (use wf ih in auto)
  have "validate_node X registry failure (Suc n) u schema path spath ident depth =
     (if depth > schema_max_depth
      then reject failure ''Value nests deeper than the loader admits.'' path spath ''depth''
      else case schema of
        JDict s \<Rightarrow>
          (case map_of s (lit ''$ref'') of
             Some r \<Rightarrow>
               bindE (resolve_ref r ident registry) (\<lambda>(target, target_id).
                 validate_node X registry failure n u target path
                   (ref_target_path (the_str r)) target_id depth)
           | None \<Rightarrow>
               bindE (check_type failure u s path spath) (\<lambda>_.
                   bindE (validate_object check failure u s path spath) (\<lambda>_.
                   bindE (check_values failure u s path spath) (\<lambda>_.
                   check_kind check X failure u s path spath))))
      | _ \<Rightarrow> not_a_schema schema)" for u
    unfolding validate_node.simps Let_def check_def ..
  then show ?case
    by (simp only: obj kind check_values_sort [OF wf] check_type_sort Suc.IH [OF wf])
qed

lemma validate_sort:
  "wf_json v \<Longrightarrow> validate X (sort_json v) schema_id registry = validate X v schema_id registry"
  by (simp only: validate_def validate_node_sort)

section \<open>Canonical text and digest\<close>

lemma canon_json_sort_iff [simp]: "canon_json (sort_json v) = Inr c \<longleftrightarrow> canon_json v = Inr c"
  using canon_json_iff [of v c] canon_json_iff [of "sort_json v" c] by simp

lemma digest_sort:
  assumes "digest H v = Inr d"
  shows "digest H (sort_json v) = Inr d"
proof -
  from assms obtain c where "canon_json v = Inr c"
    by (auto simp: digest_def canonical_bytes_def bindE_Inr_iff)
  then have "canon_json (sort_json v) = canon_json v" by simp
  then show ?thesis using assms by (simp add: digest_def canonical_bytes_def)
qed

lemma json_without_sort:
  "json_without k (sort_json (JDict d)) = sort_json (json_without k (JDict d))"
proof -
  let ?P = "\<lambda>p :: ustr \<times> json. case p of (k', v) \<Rightarrow> k' \<noteq> lit k"
  have "filter ?P (sort_key fst (map (\<lambda>(k, v). (k, sort_json v)) d))
      = sort_key fst (filter ?P (map (\<lambda>(k, v). (k, sort_json v)) d))"
    by (rule filter_sort)
  also have "filter ?P (map (\<lambda>(k, v). (k, sort_json v)) d) = map (\<lambda>(k, v). (k, sort_json v)) (filter ?P d)"
    by (simp add: filter_map comp_def case_prod_unfold)
  finally show ?thesis by (simp add: json_without_def dwithout_def)
qed

section \<open>Subscripts of dictionaries\<close>

lemma subscript_Inr_iff: "subscript v k = Inr w \<longleftrightarrow> dict_get v k = Some w"
  by (cases v) (auto split: option.splits)

lemma keys_items_iff: "k \<in> set (keys (items v)) \<longleftrightarrow> dict_get v k \<noteq> None"
  by (cases v) (auto simp: keys_def map_of_eq_None_iff image_iff)

section \<open>Python equality\<close>

lemma num_of_sort [simp]: "num_of (sort_json v) = num_of v"
  by (cases v) simp_all

lemma sort_json_idem [simp]: "sort_json (sort_json v) = sort_json v"
proof (induction v rule: sort_json.induct)
  case (2 d)
  then have "sort_json (sort_json v) = sort_json v" if "(k, v) \<in> set d" for k v
    using that by auto
  then have "map (\<lambda>(k, v). (k, sort_json v)) (map (\<lambda>(k, v). (k, sort_json v)) (sort_key fst d))
      = map (\<lambda>(k, v). (k, sort_json v)) (sort_key fst d)"
    unfolding map_map by (intro map_cong) auto
  then show ?case by (simp only: sort_json_dict sort_key_map_snd sort_key_again)
qed auto

lemma py_eq_sort_left: "py_eq (sort_json v) w = py_eq v w"
proof (induction v w rule: py_eq.induct)
  case (1 vs ws)
  have "py_eq (sort_json v) w = py_eq v w" if "(v, w) \<in> set (zip vs ws)" for v w
    using "1.IH" [of "(v, w)" v w] that by (auto dest: set_zip_leftD)
  then have "(\<forall>p \<in> set (zip vs ws). py_eq (sort_json (fst p)) (snd p)) = (\<forall>p \<in> set (zip vs ws). py_eq (fst p) (snd p))"
    by auto
  then show ?case by (simp add: zip_map1 case_prod_unfold)
next
  case (2 d e)
  let ?f = "\<lambda>(k, v). (k, sort_json v)"
  have step: "py_eq (sort_json v) w = py_eq v w" if "(k, v) \<in> set d" "map_of e k = Some w" for k v w
    using "2.IH" [of "(k, v)" k v w] that by auto
  have "(case map_of e (fst (?f p)) of None \<Rightarrow> False | Some w \<Rightarrow> py_eq (snd (?f p)) w)
      = (case map_of e (fst p) of None \<Rightarrow> False | Some w \<Rightarrow> py_eq (snd p) w)" if "p \<in> set d" for p
    using step that by (cases p) (auto split: option.split)
  then have "(\<forall>p \<in> set (sort_key fst (map ?f d)).
        case map_of e (fst p) of None \<Rightarrow> False | Some w \<Rightarrow> py_eq (snd p) w)
      = (\<forall>p \<in> set d. case map_of e (fst p) of None \<Rightarrow> False | Some w \<Rightarrow> py_eq (snd p) w)"
    by simp
  then show ?case by (simp only: sort_json.simps py_eq.simps length_sort length_map case_prod_unfold)
qed auto

lemma py_eq_sort_right: "wf_json w \<Longrightarrow> py_eq v (sort_json w) = py_eq v w"
proof (induction v w rule: py_eq.induct)
  case (1 vs ws)
  have "py_eq v (sort_json w) = py_eq v w" if "(v, w) \<in> set (zip vs ws)" for v w
    using "1.IH" [of "(v, w)" v w] that "1.prems" by (auto dest: set_zip_rightD)
  then have "(\<forall>p \<in> set (zip vs ws). py_eq (fst p) (sort_json (snd p))) = (\<forall>p \<in> set (zip vs ws). py_eq (fst p) (snd p))"
    by auto
  then show ?case by (simp add: zip_map2 case_prod_unfold)
next
  case (2 d e)
  have w: "distinct (keys e)" using "2.prems" by simp
  have step: "py_eq v (sort_json w) = py_eq v w" if "(k, v) \<in> set d" "map_of e k = Some w" for k v w
    using "2.IH" [of "(k, v)" k v w] that "2.prems" by (auto dest!: map_of_SomeD)
  have m: "map_of (sort_key fst (map (\<lambda>(k, v). (k, sort_json v)) e)) k = map_option sort_json (map_of e k)" for k
    using w by (simp add: map_of_map_snd)
  have "(case map_option sort_json (map_of e (fst p)) of None \<Rightarrow> False | Some w \<Rightarrow> py_eq (snd p) w)
      = (case map_of e (fst p) of None \<Rightarrow> False | Some w \<Rightarrow> py_eq (snd p) w)" if "p \<in> set d" for p
    using step that by (cases p) (auto split: option.split)
  then have "(\<forall>p \<in> set d. case map_option sort_json (map_of e (fst p)) of None \<Rightarrow> False | Some w \<Rightarrow> py_eq (snd p) w)
      = (\<forall>p \<in> set d. case map_of e (fst p) of None \<Rightarrow> False | Some w \<Rightarrow> py_eq (snd p) w)"
    by simp
  then show ?case by (simp only: sort_json.simps py_eq.simps length_sort length_map m [unfolded case_prod_unfold] case_prod_unfold)
qed auto

end
