(* ===== verification/Loading.thy ===== *)
theory Loading
  imports Grammar Reordering
begin

text \<open>
  What the strict JSON loader of \<^verbatim>\<open>src/vfy/load.py\<close> returns, for any bytes: one entry per key, Python
  strings, a canonical form, and at most the declared nesting. The depth scan runs before the parser and
  shares no code with it; the main lemma relates the two.
\<close>

abbreviation scan_ok :: "int \<Rightarrow> ustr \<Rightarrow> bool" where
  "scan_ok d s \<equiv> depth_scan d False False s = Inr ()"

definition structural :: "nat \<Rightarrow> bool" where
  "structural c \<longleftrightarrow> c \<in> {34, 91, 93, 123, 125}"

lemma scan_ok_append: "\<forall>c \<in> set p. \<not> structural c \<Longrightarrow> scan_ok d (p @ r) = scan_ok d r"
  by (induction p) (auto simp: structural_def)

lemma scan_ok_skip [simp]: "scan_ok d (skip_ws s) = scan_ok d s"
proof -
  have "s = takeWhile is_ws s @ skip_ws s" by (simp add: skip_ws_def)
  moreover have "\<forall>c \<in> set (takeWhile is_ws s). \<not> structural c"
    by (auto simp: structural_def is_ws_def dest: set_takeWhileD)
  ultimately show ?thesis by (metis scan_ok_append)
qed

lemma wf_str_append [simp]: "wf_str (s @ t) \<longleftrightarrow> wf_str s \<and> wf_str t"
  by (simp add: wf_str_def)

lemma wf_str_Cons [simp]: "wf_str (c # s) \<longleftrightarrow> c < 1114112 \<and> wf_str s"
  by (simp add: wf_str_def)

lemma wf_str_dropWhile: "wf_str s \<Longrightarrow> wf_str (dropWhile P s)"
  by (auto simp: wf_str_def list_all_iff dest: set_dropWhileD)

lemma wf_skip_ws: "wf_str s \<Longrightarrow> wf_str (skip_ws s)"
  by (simp add: skip_ws_def wf_str_dropWhile)

section \<open>Strings\<close>

lemma hex4_shape:
  assumes "hex4 s = Some (u, r)"
  obtains a b c d where "s = a # b # c # d # r" "{a, b, c, d} \<inter> {34, 92} = {}"
proof -
  have "hex_value x \<noteq> None \<Longrightarrow> x \<noteq> 34 \<and> x \<noteq> 92" for x by (auto simp: hex_value_def)
  with assms show ?thesis
    by (cases s rule: hex4.cases) (auto split: option.splits intro!: that)
qed

lemma hex4_scan: "hex4 s = Some (u, r) \<Longrightarrow> depth_scan d True False s = depth_scan d True False r"
  by (erule hex4_shape) auto

definition string_scan :: "ustr \<Rightarrow> exn + ustr \<times> ustr \<Rightarrow> bool" where
  "string_scan s x \<longleftrightarrow>
     (\<forall>t r. x = Inr (t, r) \<longrightarrow> wf_str t \<and> wf_str r \<and>
        (\<forall>d. depth_scan d True False s = Inr () \<longrightarrow> scan_ok d r))"

lemma string_scan_cons:
  assumes "string_scan s x" "c < 1114112" "\<And>d. depth_scan d True False s' = depth_scan d True False s"
  shows "string_scan s' (cons_char c x)"
  using assms by (auto simp: string_scan_def cons_char_Inr_iff)

lemma string_scan_Inl [simp]: "string_scan s (Inl e)"
  by (simp add: string_scan_def)

lemma scanstring_scan: "wf_str s \<Longrightarrow> string_scan s (scanstring s)"
proof (induction s rule: scanstring.induct)
  case 1
  show ?case by simp
next
  case (2 c r)
  note IH = "2.IH"
  from "2.prems" have c: "c < 1114112" and r: "wf_str r" by auto
  consider (quote) "c = 34" | (control) "c \<noteq> 34" "c < 32" | (plain) "c \<noteq> 34" "\<not> c < 32" "c \<noteq> 92"
    | (escape) "c = 92" by blast
  then show ?case
  proof cases
    case quote
    with r show ?thesis by (simp add: string_scan_def)
  next
    case control
    then show ?thesis by simp
  next
    case plain
    then have "string_scan r (scanstring r)" using IH(1) r by blast
    then have "string_scan (c # r) (cons_char c (scanstring r))"
      by (rule string_scan_cons) (use plain c in auto)
    with plain show ?thesis by simp
  next
    case escape
    show ?thesis
    proof (cases r)
      case (Cons e r1)
      show ?thesis
      proof (cases "e = 117")
        case False
        show ?thesis
        proof (cases "backslash e")
          case (Some x)
          have "string_scan r1 (scanstring r1)" using IH(2) escape Cons False Some r by auto
          then have "string_scan (c # r) (cons_char x (scanstring r1))"
            by (rule string_scan_cons) (use Some escape Cons in \<open>auto simp: backslash_def split: if_splits\<close>)
          with escape Cons False Some show ?thesis by simp
        qed (use escape Cons False in simp)
      next
        case u: True
        show ?thesis
        proof (cases "hex4 r1")
          case (Some p)
          obtain v r2 where h: "hex4 r1 = Some (v, r2)" using Some by (cases p) auto
          have b: "v < 65536" "wf_str r2" using hex4_bound [OF h] r Cons by auto
          have s2: "depth_scan d True False (c # r) = depth_scan d True False r2" for d
            using escape Cons u hex4_scan [OF h] by simp
          show ?thesis
          proof (cases "high_surrogate v \<and> take 2 r2 = [92, 117]")
            case pair: True
            then have r2: "r2 = 92 # 117 # drop 2 r2" by (cases r2; cases "tl r2") auto
            have w2: "wf_str (drop 2 r2)" using b(2) by (rule wf_drop)
            show ?thesis
            proof (cases "hex4 (drop 2 r2)")
              case (Some q)
              obtain v2 r3 where h2: "hex4 (drop 2 r2) = Some (v2, r3)" using Some by (cases q) auto
              have b2: "v2 < 65536" "wf_str r3" using hex4_bound [OF h2] w2 by auto
              have s3: "depth_scan d True False r2 = depth_scan d True False r3" for d
                by (subst r2) (simp add: hex4_scan [OF h2])
              show ?thesis
              proof (cases "low_surrogate v2")
                case True
                have "string_scan r3 (scanstring r3)"
                  by (rule IH(3) [OF _ _ _ Cons _ h _ pair h2 _ True b2(2)]) (simp_all add: escape u)
                then have "string_scan (c # r)
                    (cons_char (65536 + (v - 55296) * 1024 + (v2 - 56320)) (scanstring r3))"
                  by (rule string_scan_cons)
                    (use s2 s3 True pair in \<open>auto simp: high_surrogate_def low_surrogate_def\<close>)
                with escape Cons u h pair h2 True show ?thesis by simp
              next
                case False
                have "string_scan r2 (scanstring r2)"
                  by (rule IH(4) [OF _ _ _ Cons _ h _ pair h2 _ False b(2)]) (simp_all add: escape u)
                then have "string_scan (c # r) (cons_char v (scanstring r2))"
                  by (rule string_scan_cons) (use s2 b in auto)
                with escape Cons u h pair h2 False show ?thesis by simp
              qed
            qed (use escape Cons u h pair in simp)
          next
            case single: False
            have "string_scan r2 (scanstring r2)"
              by (rule IH(5) [OF _ _ _ Cons _ h _ single b(2)]) (simp_all add: escape u)
            then have "string_scan (c # r) (cons_char v (scanstring r2))"
              by (rule string_scan_cons) (use s2 b in auto)
            with escape Cons u h single show ?thesis by auto
          qed
        qed (use escape Cons u in simp)
      qed
    qed (use escape in simp)
  qed
qed

section \<open>Numbers and constants\<close>

lemma scan_integer_shape:
  assumes "scan_integer s = Some (t, r)"
  shows "\<exists>p. s = p @ r \<and> (\<forall>c \<in> set p. \<not> structural c)"
proof -
  define sign where "sign = (if s \<noteq> [] \<and> hd s = 45 then [45 :: nat] else [])"
  define q where "q = (if s \<noteq> [] \<and> hd s = 45 then tl s else s)"
  have s: "s = sign @ q" "\<forall>c \<in> set sign. \<not> structural c"
    by (cases s; simp add: sign_def q_def structural_def)+
  have d: "is_digit c \<Longrightarrow> \<not> structural c" for c by (auto simp: is_digit_def structural_def)
  from assms have "q = 48 # r \<or> q = takeWhile is_digit q @ r"
    by (auto simp: scan_integer_def sign_def q_def split: list.splits if_splits)
  then obtain p where "q = p @ r" "\<forall>c \<in> set p. \<not> structural c"
  proof
    assume "q = 48 # r"
    then show ?thesis using that [of "[48]"] by (simp add: structural_def)
  next
    assume "q = takeWhile is_digit q @ r"
    then show ?thesis using that [of "takeWhile is_digit q"] d by (auto dest: set_takeWhileD)
  qed
  with s show ?thesis by (intro exI [of _ "sign @ p"]) auto
qed

lemma digits_shape: "\<exists>p. r = p @ dropWhile is_digit r \<and> (\<forall>c \<in> set p. \<not> structural c)"
  by (rule exI [of _ "takeWhile is_digit r"])
    (auto simp: is_digit_def structural_def dest: set_takeWhileD)

lemma scan_fraction_shape:
  "scan_fraction s = (f, r) \<Longrightarrow> \<exists>p. s = p @ r \<and> (\<forall>c \<in> set p. \<not> structural c)"
proof (cases s)
  case (Cons c q)
  obtain p where p: "q = p @ dropWhile is_digit q" "\<forall>c \<in> set p. \<not> structural c" using digits_shape by blast
  assume "scan_fraction s = (f, r)"
  then have "r = s \<or> c = 46 \<and> r = dropWhile is_digit q"
    by (auto simp: scan_fraction_def Cons split: if_splits)
  then show ?thesis
  proof
    assume "c = 46 \<and> r = dropWhile is_digit q"
    with p Cons show ?thesis by (intro exI [of _ "46 # p"]) (auto simp: structural_def)
  qed (intro exI [of _ "[]"], simp)
qed (auto simp: scan_fraction_def)

lemma digits_plain: "c \<in> set (takeWhile is_digit r) \<Longrightarrow> \<not> structural c"
  by (auto simp: is_digit_def structural_def dest: set_takeWhileD)

definition unsigned :: "ustr \<Rightarrow> ustr" where
  "unsigned q = (case q of d # z \<Rightarrow> if d = 43 \<or> d = 45 then z else q | [] \<Rightarrow> q)"

lemma unsigned_shape: "\<exists>p. q = p @ unsigned q \<and> (\<forall>c \<in> set p. \<not> structural c)"
proof (cases q)
  case (Cons d z)
  show ?thesis
  proof (cases "d = 43 \<or> d = 45")
    case True
    then show ?thesis unfolding Cons by (intro exI [of _ "[d]"]) (auto simp: unsigned_def structural_def)
  next
    case False
    then show ?thesis unfolding Cons by (intro exI [of _ "[]"]) (simp add: unsigned_def)
  qed
qed (simp add: unsigned_def)

lemma scan_exponent_shape:
  assumes "scan_exponent s = (f, r)"
  shows "\<exists>p. s = p @ r \<and> (\<forall>c \<in> set p. \<not> structural c)"
proof (cases "r = s")
  case False
  with assms obtain c q where s: "s = c # q" "c = 101 \<or> c = 69" "r = dropWhile is_digit (unsigned q)"
    by (auto simp: scan_exponent_def Let_def unsigned_def split: list.split_asm if_split_asm)
  obtain p where p: "q = p @ unsigned q" "\<forall>c \<in> set p. \<not> structural c" using unsigned_shape by blast
  have "unsigned q = takeWhile is_digit (unsigned q) @ r" by (simp add: s(3))
  then have "s = (c # p @ takeWhile is_digit (unsigned q)) @ r"
    using p(1) s(1) by (metis append_Cons append_assoc)
  moreover have "\<forall>x \<in> set (c # p @ takeWhile is_digit (unsigned q)). \<not> structural x"
    using s(2) p(2) digits_plain by (auto simp: structural_def)
  ultimately show ?thesis by blast
qed (intro exI [of _ "[]"], simp)

lemma match_number_scan:
  assumes "match_number s = Some (t, f, r)"
  shows "scan_ok d s = scan_ok d r" and "wf_str s \<Longrightarrow> wf_str r"
proof -
  from assms obtain r0 f1 r1 f2 where "scan_integer s = Some (t, r0)" "scan_fraction r0 = (f1, r1)"
    "scan_exponent r1 = (f2, r)"
    by (auto simp: match_number_def Let_def split: option.splits prod.splits)
  then obtain p p1 p2 where "s = p @ r0" "r0 = p1 @ r1" "r1 = p2 @ r"
    "\<forall>c \<in> set p. \<not> structural c" "\<forall>c \<in> set p1. \<not> structural c" "\<forall>c \<in> set p2. \<not> structural c"
    using scan_integer_shape [of s t r0] scan_fraction_shape [of r0 f1 r1] scan_exponent_shape [of r1 f2 r]
    by blast
  then have "s = (p @ p1 @ p2) @ r" "\<forall>c \<in> set (p @ p1 @ p2). \<not> structural c" by auto
  then show "scan_ok d s = scan_ok d r" "wf_str s \<Longrightarrow> wf_str r"
    using scan_ok_append [of "p @ p1 @ p2" d r] by auto
qed

lemma starts_scan:
  assumes "starts p s" "\<forall>c \<in> set (lit p). \<not> structural c"
  shows "scan_ok d (drop (length p) s) = scan_ok d s"
proof -
  have "s = lit p @ drop (length p) s" using assms(1) by (metis append_take_drop_id starts_def)
  then show ?thesis using scan_ok_append [OF assms(2)] by metis
qed

section \<open>Values\<close>

text \<open>
  Scanned at depth \<open>d\<close>: every value the parser produced is well formed and nests within what the depth
  scan admits, and the depth scan of what is left continues at depth \<open>d - k\<close>.
\<close>

definition value_scan :: "('a \<Rightarrow> bool) \<Rightarrow> ('a \<Rightarrow> nat) \<Rightarrow> (int \<Rightarrow> bool) \<Rightarrow> int \<Rightarrow> exn + 'a \<times> ustr \<Rightarrow> bool" where
  "value_scan good depth start k x \<longleftrightarrow>
     (\<forall>v r. x = Inr (v, r) \<longrightarrow> good v \<and> wf_str r \<and>
        (\<forall>d. start d \<longrightarrow> d \<le> int max_depth \<longrightarrow> d + int (depth v) \<le> int max_depth \<and> scan_ok (d - k) r))"

abbreviation list_depth :: "json list \<Rightarrow> nat" where
  "list_depth vs \<equiv> foldr max (map jdepth vs) 0"

abbreviation pairs_depth :: "(ustr \<times> json) list \<Rightarrow> nat" where
  "pairs_depth ps \<equiv> foldr max (map (\<lambda>(k, v). jdepth v) ps) 0"

abbreviation wf_pairs :: "(ustr \<times> json) list \<Rightarrow> bool" where
  "wf_pairs ps \<equiv> \<forall>(k, v) \<in> set ps. wf_str k \<and> wf_json v"

lemma value_scan_Inl [simp]: "value_scan good depth start k (Inl e)"
  by (simp add: value_scan_def)

lemma value_scan_failures [simp]:
  "value_scan good depth start k reject_float" "value_scan good depth start k (reject_non_json_constant t)"
  by (simp_all add: reject_float_def reject_non_json_constant_def)

lemma value_scan_if:
  "(b \<Longrightarrow> value_scan good depth start k x) \<Longrightarrow> (\<not> b \<Longrightarrow> value_scan good depth start k y)
     \<Longrightarrow> value_scan good depth start k (if b then x else y)"
  by simp

lemma scan_ok_le: "scan_ok d (c # r) \<Longrightarrow> c = 123 \<or> c = 91 \<Longrightarrow> d + 1 \<le> int max_depth \<and> scan_ok (d + 1) r"
  by (auto split: if_splits)

lemma list_case_Inr:
  "(case xs of [] \<Rightarrow> Inl e | c # r \<Rightarrow> f c r) = Inr y \<longleftrightarrow> (\<exists>c r. xs = c # r \<and> f c r = Inr y)"
  by (cases xs) auto

lemma scan_values:
  "wf_str s \<Longrightarrow> value_scan wf_json jdepth (\<lambda>d. scan_ok d s) 0 (scan_once n s)"
  "wf_str s \<Longrightarrow> value_scan (\<lambda>vs. \<forall>v \<in> set vs. wf_json v) list_depth (\<lambda>d. scan_ok d s) 1 (scan_array n s)"
  "wf_str s \<Longrightarrow> value_scan wf_pairs pairs_depth (\<lambda>d. depth_scan d True False s = Inr ()) 1 (scan_object n s)"
proof (induction n s and n s and n s rule: scan_once_scan_array_scan_object.induct)
  case (2 n s)
  show ?case
  proof (cases s)
    case (Cons c r)
    have r: "wf_str r" using "2.prems" Cons by simp
    have str: "value_scan wf_json jdepth (\<lambda>d. scan_ok d s) 0 (bindE (scanstring r) (\<lambda>(t, r'). Inr (JStr t, r')))"
      if "c = 34"
      using scanstring_scan [OF r] that
      by (auto simp: value_scan_def string_scan_def bindE_Inr_iff Cons)
    have obj: "value_scan wf_json jdepth (\<lambda>d. scan_ok d s) 0 (bindE (scan_object n r')
        (\<lambda>(pairs, r''). bindE (object_from_pairs pairs) (\<lambda>d. Inr (JDict d, r''))))"
      if "c = 123" "skip_ws r = 34 # r'" for r'
    proof -
      have "wf_str r'" using wf_skip_ws [OF r] that by simp
      then have IH: "value_scan wf_pairs pairs_depth (\<lambda>d. depth_scan d True False r' = Inr ()) 1 (scan_object n r')"
        using 2(1) [OF Cons _ that(1,2)] that by simp
      have "d + 1 \<le> int max_depth \<and> depth_scan (d + 1) True False r' = Inr ()" if d: "scan_ok d s" for d
      proof -
        have "d + 1 \<le> int max_depth \<and> scan_ok (d + 1) (skip_ws r)"
          using scan_ok_le [of d c r] d Cons \<open>c = 123\<close> by simp
        with \<open>skip_ws r = 34 # r'\<close> show ?thesis by simp
      qed
      with IH show ?thesis
        unfolding value_scan_def
        by (fastforce simp: bindE_Inr_iff object_from_pairs_def split: if_splits)
    qed
    have arr: "value_scan wf_json jdepth (\<lambda>d. scan_ok d s) 0
        (bindE (scan_array n (c' # r')) (\<lambda>(vs, r''). Inr (JList vs, r'')))"
      if "c = 91" "skip_ws r = c' # r'" "c' \<noteq> 93" for c' r'
    proof -
      have "wf_str (c' # r')" using wf_skip_ws [OF r] that by simp
      then have IH: "value_scan (\<lambda>vs. \<forall>v \<in> set vs. wf_json v) list_depth (\<lambda>d. scan_ok d (c' # r')) 1
          (scan_array n (c' # r'))"
        using 2(2) [OF Cons _ _ that(1,2,3)] that by simp
      have "d + 1 \<le> int max_depth \<and> scan_ok (d + 1) (c' # r')" if d: "scan_ok d s" for d
      proof -
        have "d + 1 \<le> int max_depth \<and> scan_ok (d + 1) (skip_ws r)"
          using scan_ok_le [of d c r] d Cons \<open>c = 91\<close> by simp
        with \<open>skip_ws r = c' # r'\<close> show ?thesis by simp
      qed
      with IH show ?thesis
        unfolding value_scan_def by (fastforce simp: bindE_Inr_iff)
    qed
    have lits: "starts ''null'' s \<Longrightarrow> value_scan wf_json jdepth (\<lambda>d. scan_ok d s) 0 (Inr (JNull, drop 4 s))"
      "starts ''true'' s \<Longrightarrow> value_scan wf_json jdepth (\<lambda>d. scan_ok d s) 0 (Inr (JBool True, drop 4 s))"
      "starts ''false'' s \<Longrightarrow> value_scan wf_json jdepth (\<lambda>d. scan_ok d s) 0 (Inr (JBool False, drop 5 s))"
      using starts_scan [of "''null''" s] starts_scan [of "''true''" s] starts_scan [of "''false''" s]
        wf_drop [OF "2.prems"]
      by (auto simp: value_scan_def lit_def structural_def eval_nat_numeral)
    have num: "value_scan wf_json jdepth (\<lambda>d. scan_ok d s) 0 (case match_number s of
        Some (t, is_float, r') \<Rightarrow>
          if is_float then reject_float else bindE (integer_within_interval t) (\<lambda>i. Inr (JInt i, r'))
      | None \<Rightarrow> if starts ''NaN'' s then reject_non_json_constant ''NaN''
          else if starts ''Infinity'' s then reject_non_json_constant ''Infinity''
          else if starts ''-Infinity'' s then reject_non_json_constant ''-Infinity''
          else Inl syntax_failure)"
    proof (cases "match_number s")
      case (Some p)
      obtain t f r' where p: "p = (t, f, r')" by (cases p) auto
      have "match_number s = Some (t, f, r')" using Some p by simp
      from match_number_scan [OF this] "2.prems" show ?thesis
        unfolding Some p by (auto simp: value_scan_def bindE_Inr_iff reject_float_def)
    qed simp
    have empty: "skip_ws r = 125 # r' \<Longrightarrow> c = 123 \<Longrightarrow> value_scan wf_json jdepth (\<lambda>d. scan_ok d s) 0 (Inr (JDict [], r'))"
      "skip_ws r = 93 # r' \<Longrightarrow> c = 91 \<Longrightarrow> value_scan wf_json jdepth (\<lambda>d. scan_ok d s) 0 (Inr (JList [], r'))" for r'
      using scan_ok_le [of _ c r] wf_skip_ws [OF r] Cons scan_ok_skip [of "_ + 1" r]
      by (auto simp: value_scan_def keys_def simp del: scan_ok_skip split: if_split_asm)
    have dict: "c = 123 \<Longrightarrow> value_scan wf_json jdepth (\<lambda>d. scan_ok d s) 0 (case skip_ws r of
               [] \<Rightarrow> Inl syntax_failure
             | c' # r' \<Rightarrow>
                 if c' = 125 then Inr (JDict [], r')
                 else if c' = 34 then
                   bindE (scan_object n r') (\<lambda>(pairs, r''). bindE (object_from_pairs pairs) (\<lambda>d. Inr (JDict d, r'')))
                 else Inl syntax_failure)"
      using obj empty(1) by (cases "skip_ws r") auto
    have arrs: "c = 91 \<Longrightarrow> value_scan wf_json jdepth (\<lambda>d. scan_ok d s) 0 (case skip_ws r of
               [] \<Rightarrow> Inl syntax_failure
             | c' # r' \<Rightarrow>
                 if c' = 93 then Inr (JList [], r')
                 else bindE (scan_array n (c' # r')) (\<lambda>(vs, r''). Inr (JList vs, r'')))"
      using arr empty(2) by (cases "skip_ws r") auto
    show ?thesis
      unfolding scan_once.simps list.case Cons
      by (intro value_scan_if num [unfolded Cons] str [unfolded Cons] dict [unfolded Cons] arrs [unfolded Cons]
          lits [unfolded Cons])
  qed simp
next
  case (4 n s)
  show ?case
    unfolding scan_array.simps value_scan_def
  proof (intro allI impI)
    fix vs r
    assume "bindE (scan_once n s) (\<lambda>(v, r). case skip_ws r of [] \<Rightarrow> Inl syntax_failure
       | c # r' \<Rightarrow> if c = 93 then Inr ([v], r')
           else if c = 44 then bindE (scan_array n (skip_ws r')) (\<lambda>(vs, r''). Inr (v # vs, r''))
           else Inl syntax_failure) = Inr (vs, r)"
    then obtain v r1 c r' where v: "scan_once n s = Inr (v, r1)" and c: "skip_ws r1 = c # r'"
      and rest: "(if c = 93 then Inr ([v], r')
           else if c = 44 then bindE (scan_array n (skip_ws r')) (\<lambda>(vs, r''). Inr (v # vs, r''))
           else Inl syntax_failure) = Inr (vs, r)"
      by (auto simp: bindE_Inr_iff list_case_Inr)
    from 4(1) [OF "4.prems"] v have one: "wf_json v" "wf_str r1"
      "\<And>d. scan_ok d s \<Longrightarrow> d \<le> int max_depth \<Longrightarrow> d + int (jdepth v) \<le> int max_depth \<and> scan_ok d r1"
      by (auto simp: value_scan_def)
    have w: "wf_str r'" using wf_skip_ws [OF one(2)] c by simp
    have go: "scan_ok d r1 \<Longrightarrow> scan_ok d (c # r')" for d using scan_ok_skip [of d r1] c by metis
    show "(\<forall>v \<in> set vs. wf_json v) \<and> wf_str r \<and> (\<forall>d. scan_ok d s \<longrightarrow> d \<le> int max_depth \<longrightarrow>
        d + int (list_depth vs) \<le> int max_depth \<and> scan_ok (d - 1) r)"
    proof (cases "c = 93")
      case True
      with rest have "vs = [v]" "r = r'" by auto
      with one w go True show ?thesis by fastforce
    next
      case False
      with rest have c44: "c = 44" by (auto split: if_splits)
      with rest False obtain us where us: "scan_array n (skip_ws r') = Inr (us, r)" "vs = v # us"
        by (auto simp: bindE_Inr_iff)
      have "value_scan (\<lambda>vs. \<forall>v \<in> set vs. wf_json v) list_depth (\<lambda>d. scan_ok d (skip_ws r')) 1
          (scan_array n (skip_ws r'))"
        using 4(2) [of "(v, r1)" v r1 c r'] v c c44 wf_skip_ws [OF w] by simp
      with us have more: "\<forall>v \<in> set us. wf_json v" "wf_str r"
        "\<And>d. scan_ok d r' \<Longrightarrow> d \<le> int max_depth \<Longrightarrow> d + int (list_depth us) \<le> int max_depth \<and> scan_ok (d - 1) r"
        by (auto simp: value_scan_def)
      have "d + int (list_depth vs) \<le> int max_depth \<and> scan_ok (d - 1) r" if "scan_ok d s" "d \<le> int max_depth" for d
      proof -
        have "d + int (jdepth v) \<le> int max_depth" "scan_ok d r'"
          using one(3) [OF that] go [of d] c44 by auto
        with more(3) [of d] that(2) us(2) show ?thesis by auto
      qed
      with one more us show ?thesis by simp
    qed
  qed
next
  case (6 n s)
  show ?case
    unfolding scan_object.simps value_scan_def
  proof (intro allI impI)
    fix ps r
    assume "bindE (scanstring s) (\<lambda>(k, r).
       case skip_ws r of
         [] \<Rightarrow> Inl syntax_failure
       | c # r' \<Rightarrow>
           if c \<noteq> 58 then Inl syntax_failure
           else bindE (scan_once n (skip_ws r')) (\<lambda>(v, r1).
             case skip_ws r1 of
               [] \<Rightarrow> Inl syntax_failure
             | c1 # r2 \<Rightarrow>
                 if c1 = 125 then Inr ([(k, v)], r2)
                 else if c1 \<noteq> 44 then Inl syntax_failure
                 else (case skip_ws r2 of
                         [] \<Rightarrow> Inl syntax_failure
                       | c2 # r3 \<Rightarrow>
                           if c2 \<noteq> 34 then Inl syntax_failure
                           else bindE (scan_object n r3) (\<lambda>(ps, r4). Inr ((k, v) # ps, r4))))) = Inr (ps, r)"
    then obtain k r0 r' v r1 c1 r2 where k: "scanstring s = Inr (k, r0)" and c: "skip_ws r0 = 58 # r'"
      and v: "scan_once n (skip_ws r') = Inr (v, r1)" and c1: "skip_ws r1 = c1 # r2"
      and rest: "(if c1 = 125 then Inr ([(k, v)], r2)
                 else if c1 \<noteq> 44 then Inl syntax_failure
                 else (case skip_ws r2 of
                         [] \<Rightarrow> Inl syntax_failure
                       | c2 # r3 \<Rightarrow>
                           if c2 \<noteq> 34 then Inl syntax_failure
                           else bindE (scan_object n r3) (\<lambda>(ps, r4). Inr ((k, v) # ps, r4)))) = Inr (ps, r)"
      by (auto simp: bindE_Inr_iff list_case_Inr split: if_split_asm)
    from scanstring_scan [OF "6.prems"] k have key: "wf_str k" "wf_str r0"
      "\<And>d. depth_scan d True False s = Inr () \<Longrightarrow> scan_ok d r0"
      by (auto simp: string_scan_def)
    have w: "wf_str r'" using wf_skip_ws [OF key(2)] c by simp
    have "value_scan wf_json jdepth (\<lambda>d. scan_ok d (skip_ws r')) 0 (scan_once n (skip_ws r'))"
      using 6(1) [of "(k, r0)" k r0 58 r'] k c wf_skip_ws [OF w] by simp
    with v have one: "wf_json v" "wf_str r1"
      "\<And>d. scan_ok d r' \<Longrightarrow> d \<le> int max_depth \<Longrightarrow> d + int (jdepth v) \<le> int max_depth \<and> scan_ok d r1"
      by (auto simp: value_scan_def)
    have w2: "wf_str r2" using wf_skip_ws [OF one(2)] c1 by simp
    have go: "d + int (jdepth v) \<le> int max_depth \<and> scan_ok d (c1 # r2)"
      if "depth_scan d True False s = Inr ()" "d \<le> int max_depth" for d
    proof -
      have "scan_ok d (58 # r')" using key(3) [OF that(1)] scan_ok_skip [of d r0] c by metis
      then have "scan_ok d r'" by simp
      with one(3) that(2) have "d + int (jdepth v) \<le> int max_depth" "scan_ok d r1" by auto
      with scan_ok_skip [of d r1] c1 show ?thesis by metis
    qed
    show "wf_pairs ps \<and> wf_str r \<and> (\<forall>d. depth_scan d True False s = Inr () \<longrightarrow> d \<le> int max_depth \<longrightarrow>
        d + int (pairs_depth ps) \<le> int max_depth \<and> scan_ok (d - 1) r)"
    proof (cases "c1 = 125")
      case True
      with rest have "ps = [(k, v)]" "r = r2" by auto
      with key one w2 go True show ?thesis by fastforce
    next
      case False
      with rest obtain r3 qs where c44: "c1 = 44" and c2: "skip_ws r2 = 34 # r3"
        and qs: "scan_object n r3 = Inr (qs, r)" "ps = (k, v) # qs"
        by (auto simp: bindE_Inr_iff list_case_Inr split: if_split_asm)
      have w3: "wf_str r3" using wf_skip_ws [OF w2] c2 by simp
      have "value_scan wf_pairs pairs_depth (\<lambda>d. depth_scan d True False r3 = Inr ()) 1 (scan_object n r3)"
        using 6(2) [of "(k, r0)" k r0 58 r' "(v, r1)" v r1 c1 r2 34 r3] k c v c1 c44 c2 w3 by simp
      with qs have more: "wf_pairs qs" "wf_str r"
        "\<And>d. depth_scan d True False r3 = Inr () \<Longrightarrow> d \<le> int max_depth \<Longrightarrow>
           d + int (pairs_depth qs) \<le> int max_depth \<and> scan_ok (d - 1) r"
        by (auto simp: value_scan_def)
      have "d + int (pairs_depth ps) \<le> int max_depth \<and> scan_ok (d - 1) r"
        if "depth_scan d True False s = Inr ()" "d \<le> int max_depth" for d
      proof -
        have g: "d + int (jdepth v) \<le> int max_depth" "scan_ok d r2" using go [OF that] c44 by auto
        then have "scan_ok d (34 # r3)" using scan_ok_skip [of d r2] c2 by metis
        with more(3) [of d] that(2) g(1) qs(2) show ?thesis by auto
      qed
      with key one more qs show ?thesis by auto
    qed
  qed
qed simp_all

section \<open>The loader\<close>

lemma decode_char_bound: "decode_char bs = Some (c, r) \<Longrightarrow> c < 1114112"
proof (cases bs)
  case (Cons b bs')
  assume "decode_char bs = Some (c, r)"
  then consider "b < 128" "c = b"
    | b1 where "194 \<le> b" "b < 224" "is_cont b1" "c = (b - 192) * 64 + (b1 - 128)"
    | b1 b2 where "224 \<le> b" "b < 240" "is_cont b1" "is_cont b2" "c = (b - 224) * 4096 + (b1 - 128) * 64 + (b2 - 128)"
    | "c < 1114112"
    unfolding Cons by (auto simp: Let_def split: if_split_asm list.split_asm)
  then show ?thesis by cases (auto simp: is_cont_def)
qed simp

lemma utf8_decode_wf: "utf8_decode bs = Some t \<Longrightarrow> wf_str t"
proof (induction bs arbitrary: t rule: utf8_decode.induct)
  case (1 bs)
  show ?case
  proof (cases "bs = []")
    case True
    with "1.prems" show ?thesis by (simp add: utf8_decode.simps)
  next
    case False
    with "1.prems" obtain c r t' where d: "decode_char bs = Some (c, r)" "utf8_decode r = Some t'" "t = c # t'"
      by (subst (asm) utf8_decode.simps) (auto split: option.splits)
    with "1.IH" [OF False d(1) refl d(2)] decode_char_bound show ?thesis by simp
  qed
qed

lemma load_json_loadable:
  assumes "load_json_bytes b = Inr v"
  shows "loadable v" and "canon_json v = Inr (jtext v)"
proof -
  from assms obtain t where t: "decode_utf8 b = Inr t" "reject_excess_depth t = Inr ()" "json_loads t = Inr v"
    and c: "\<exists>c. canon_json v = Inr c"
    by (auto simp: load_json_bytes_def bindE_Inr_iff)
  have "utf8_decode b = Some t" using t(1) by (auto simp: decode_utf8_def split: if_splits option.splits)
  then have "wf_str (skip_ws t)" by (intro wf_skip_ws utf8_decode_wf)
  then have "value_scan wf_json jdepth (\<lambda>d. scan_ok d (skip_ws t)) 0 (scan_once (2 * length t + 1) (skip_ws t))"
    by (rule scan_values)
  moreover obtain r where "scan_once (2 * length t + 1) (skip_ws t) = Inr (v, r)"
    using t(3) by (auto simp: json_loads_def bindE_Inr_iff split: if_splits)
  moreover have "scan_ok 0 (skip_ws t)" using t(2) by (simp add: reject_excess_depth_def)
  ultimately show "loadable v" unfolding value_scan_def loadable_def by fastforce
  from c show "canon_json v = Inr (jtext v)" using canon_json_iff by blast
qed

lemma reload_loadable: "reload t = Inr v \<Longrightarrow> loadable v \<and> canon_json v = Inr (jtext v)"
  using load_json_loadable by (auto simp: reload_def bindE_Inr_iff)

section \<open>Properties\<close>

text \<open>
  C25. The strict JSON loader accepts only values inside the frozen value model: whatever the bytes,
  an accepted value has one entry per key at every level, Python strings, a canonical text, and at most
  64 levels of nesting; loading its canonical text again gives the same value with its keys sorted.
\<close>

theorem json_loads_frozen_values:
  assumes "load_json_bytes b = Inr v"
  shows "wf_json v \<and> jdepth v \<le> 64 \<and> (\<exists>c. canon_json v = Inr c \<and> reload c = Inr (sort_json v))"
  using load_json_loadable [OF assms] json_text.dcd_enc [of v "jtext v"]
  by (auto simp: loadable_def max_depth_def)

theorem json_loads_frozen_values_witness:
  "let v = JList [JDict [(lit ''b'', JInt 1), (lit ''a'', JNull)]] in
   wf_json v \<and> jdepth v \<le> 64 \<and> (\<exists>c. canon_json v = Inr c \<and> reload c = Inr (sort_json v))"
proof -
  have t: "json_loads (lit ''[{\"b\":1,\"a\":null}]'')
      = Inr (JList [JDict [(lit ''b'', JInt 1), (lit ''a'', JNull)]])"
    by code_simp
  have d: "decode_utf8 (lit ''[{\"b\":1,\"a\":null}]'') = Inr (lit ''[{\"b\":1,\"a\":null}]'')" by code_simp
  have x: "reject_excess_depth (lit ''[{\"b\":1,\"a\":null}]'') = Inr ()" by code_simp
  have c: "canon_json (JList [JDict [(lit ''b'', JInt 1), (lit ''a'', JNull)]])
      = Inr (jtext (JList [JDict [(lit ''b'', JInt 1), (lit ''a'', JNull)]]))"
    unfolding canon_json_iff by (simp add: text_eval no_surrogate_def is_surrogate_def)
  have "load_json_bytes (lit ''[{\"b\":1,\"a\":null}]'')
      = Inr (JList [JDict [(lit ''b'', JInt 1), (lit ''a'', JNull)]])"
    by (simp only: load_json_bytes_def d x t c bindE_simps)
  then show ?thesis unfolding Let_def by (rule json_loads_frozen_values)
qed

end
