(* ===== verification/Samples.thy ===== *)
theory Samples
  imports Loading Externals
begin

text \<open>
  What the development assumes of SHA-256 where it matters, and one concrete instance of the code that
  is not part of the repository, with a registry whose schemas admit every value. The witnesses of the
  properties run on it.
\<close>

section \<open>Documented behaviour of the externals\<close>

text \<open>The documented behaviour of \<open>hexdigest()\<close>: 64 lower-case hexadecimal digits.\<close>

definition hex_char :: "nat \<Rightarrow> bool" where
  "hex_char c \<longleftrightarrow> 48 \<le> c \<and> c \<le> 57 \<or> 97 \<le> c \<and> c \<le> 102"

definition hash_text_ok :: "externals \<Rightarrow> bool" where
  "hash_text_ok X \<longleftrightarrow> (\<forall>b. length (sha256_hex X b) = 64 \<and> list_all hex_char (sha256_hex X b))"

text \<open>The scalar events of the YAML parser carry Python strings.\<close>

definition yaml_strings_ok :: "externals \<Rightarrow> bool" where
  "yaml_strings_ok X \<longleftrightarrow> (\<forall>t events. yaml_parse X t = Some events \<longrightarrow> list_all event_strings_ok events)"

section \<open>A sample instance\<close>

text \<open>Concrete stand-ins for the code that is not part of the repository.\<close>

definition sample_document :: json where
  "sample_document =
     JDict [(lit ''rulebook_id'', JStr (lit ''r'')), (lit ''version'', JStr (lit ''1'')),
            (lit ''adopted_at'', JStr (lit ''2024-01-01T00:00:00Z'')),
            (lit ''evidence'', JList [JDict [(lit ''id'', JStr (lit ''a''))]]),
            (lit ''rules'', JList [JDict [(lit ''id'', JStr (lit ''q'')), (lit ''when'', JStr (lit ''present(a)'')),
               (lit ''requires_evidence'', JList [JStr (lit ''a'')]), (lit ''outcome'', JStr (lit ''ALLOW'')),
               (lit ''reason'', JStr (lit ''observed''))]]),
            (lit ''default_outcome'', JStr (lit ''HOLD''))]"

definition sample_externals :: externals where
  "sample_externals =
     \<lparr>re_compiles = \<lambda>p. True, re_fullmatch = \<lambda>p t. True, recursion_limit = 1000,
      yaml_parse = \<lambda>t. Some ([StreamStart, DocumentStart] @ events_of sample_document @ [DocumentEnd, StreamEnd]),
      sha256_hex = \<lambda>b. replicate 64 48,
      ed25519_sign = \<lambda>k m. Some (replicate 64 0), ed25519_loads = \<lambda>k. True,
      ed25519_verify = \<lambda>k s m. s = replicate 64 0\<rparr>"

lemma sample_hash: "hash_text_ok sample_externals"
  by (simp add: hash_text_ok_def sample_externals_def list_all_iff hex_char_def)

text \<open>The schema that says nothing admits every value.\<close>

lemma validate_empty_schema:
  assumes "map_of registry schema_id = Some (JDict [])" "map_of code_by_id schema_id = Some failure"
    "0 < recursion_limit X"
  shows "validate X v schema_id registry = Inr ()"
proof -
  obtain n where n: "recursion_limit X = Suc n" using assms(3) by (cases "recursion_limit X") auto
  have "forE (\<lambda>(name, w). Inr ()) d = Inr ()" for d :: "(ustr \<times> json) list" by (induction d) auto
  then show ?thesis
    using assms(1,2) n
    by (cases v) (auto simp: validate_def validate_node.simps Let_def check_type_def validate_object_def
        declared_members_def check_values_def check_kind_def check_min_items_def check_string_def
        check_minimum_def keys_def schema_max_depth_def)
qed

definition sample_registry :: registry where
  "sample_registry = map (\<lambda>(i, c). (i, JDict [])) code_by_id"

lemma sample_registry_lookup:
  "map_of code_by_id i = Some c \<Longrightarrow> validate sample_externals v i sample_registry = Inr ()"
  by (rule validate_empty_schema) (simp_all add: sample_registry_def map_of_map_snd sample_externals_def)

definition sample_instant :: ustr where
  "sample_instant = lit ''2024-01-01T00:00:00Z''"

lemma sample_yaml: "yaml_strings_ok sample_externals"
  by (simp add: yaml_strings_ok_def sample_externals_def sample_document_def)

lemma sample_decode: "decode_utf8 [120] = Inr [120]" "decode_utf8 [] = Inr []"
  by code_simp+

lemma sample_load_yaml:
  assumes d: "decode_utf8 data = Inr t"
  shows "load_yaml_bytes (yaml_parse sample_externals) data = Inr sample_document"
proof -
  have v: "value_from_yaml_events ([StreamStart, DocumentStart] @ events_of sample_document @ [DocumentEnd, StreamEnd])
      = Inr sample_document" by code_simp
  have c: "canon_json sample_document = Inr (jtext sample_document)"
    unfolding canon_json_iff by (simp add: sample_document_def no_surrogate_def is_surrogate_def lit_def)
  have y: "yaml_parse sample_externals t
      = Some ([StreamStart, DocumentStart] @ events_of sample_document @ [DocumentEnd, StreamEnd])" for t
    by (simp add: sample_externals_def)
  show ?thesis unfolding load_yaml_bytes_def d y by (simp only: bindE_simps option.case v c)
qed

end
