(* ===== verification/Rulebook.thy ===== *)
theory Rulebook
  imports Grammar Loading Samples
begin

text \<open>
  \<^verbatim>\<open>src/vfy/rulebook.py\<close>: loading and pinning of a rulebook, and \<open>validate_expression\<close> of
  \<^verbatim>\<open>src/vfy/expr.py\<close>, which reads the pinned rulebook. The instants are those of the theory
  \<open>Datetime\<close>.
\<close>

section \<open>Values of other types\<close>

text \<open>\<open>_instant\<close> of a value: what is not text raises the same \<open>TypeError\<close>.\<close>

definition instant_of :: "json \<Rightarrow> exn + int" where
  "instant_of v = (case v of JStr t \<Rightarrow> instant t | _ \<Rightarrow> instant [])"

text \<open>\<open>v in seen\<close> for a set of values, and \<open>v in values\<close> for a list of texts.\<close>

definition py_in_set :: "json \<Rightarrow> json list \<Rightarrow> exn + bool" where
  "py_in_set v seen =
     (if is_list v \<or> is_dict v then Inl (PyErr PyTypeError (lit ''unhashable type''))
      else Inr (list_ex (py_eq v) seen))"

definition is_one_of :: "json \<Rightarrow> ustr list \<Rightarrow> bool" where
  "is_one_of v texts \<longleftrightarrow> is_str v \<and> the_str v \<in> set texts"

text \<open>
  \<open>{d["id"]: d for d in values}\<close>. The pinned artifacts hold text ids; the model refuses others
  with the \<open>TypeError\<close> that their use as text raises.
\<close>

fun index_by_id :: "json list \<Rightarrow> (ustr \<times> json) list \<Rightarrow> exn + (ustr \<times> json) list" where
  "index_by_id [] d = Inr d"
| "index_by_id (v # vs) d =
     bindE (sub_lit v ''id'') (\<lambda>i.
       case i of
         JStr k \<Rightarrow> index_by_id vs (dset k v d)
       | _ \<Rightarrow> Inl (PyErr PyTypeError (lit ''expected string'')))"

text \<open>\<open>for x in v[name]\<close>.\<close>

definition items_of :: "json \<Rightarrow> string \<Rightarrow> exn + json list" where
  "items_of v name = bindE (sub_lit v name) py_iter"

section \<open>The pinned rulebook\<close>

definition rulebook_schema_id :: ustr where
  "rulebook_schema_id = lit ''https://verifyrun.com/spec/v1/rulebook.schema.json''"

record loaded_rulebook =
  rb_canonical :: ustr
  rb_digest :: ustr
  rb_id :: json
  rb_version :: json
  rb_adopted_at :: json

definition rulebook_value :: "loaded_rulebook \<Rightarrow> exn + json" where
  "rulebook_value pinned = reload (rb_canonical pinned)"

definition rulebook_identity :: "loaded_rulebook \<Rightarrow> json \<times> json" where
  "rulebook_identity pinned = (rb_id pinned, rb_version pinned)"

section \<open>Load-time semantics\<close>

fun check_declarations :: "json list \<Rightarrow> ustr list \<Rightarrow> exn + ustr list" where
  "check_declarations [] declared = Inr declared"
| "check_declarations (item # others) declared =
     bindE (sub_lit item ''id'') (\<lambda>i.
       case i of
         JStr identifier \<Rightarrow>
           (if \<not> plain_member identifier
            then fail RulebookSemanticInvalid ''An evidence id must lex as an identifier so expressions can name it.''
            else if identifier \<in> set declared
            then fail RulebookSemanticInvalid ''Duplicate evidence id in the rulebook.''
            else check_declarations others (declared @ [identifier]))
       | _ \<Rightarrow> Inl (PyErr PyTypeError (lit ''expected string'')))"

definition check_requirements :: "ustr list \<Rightarrow> json \<Rightarrow> exn + unit" where
  "check_requirements declared rule =
     bindE (case get_lit rule ''requires_evidence'' of None \<Rightarrow> Inr [] | Some needed \<Rightarrow> py_iter needed)
       (forE (\<lambda>needed.
          if \<not> is_one_of needed declared
          then fail UndeclaredEvidenceId ''A rule requires evidence the rulebook does not declare.''
          else Inr ()))"

fun check_rules :: "ustr list \<Rightarrow> json list \<Rightarrow> json list \<Rightarrow> exn + unit" where
  "check_rules declared [] seen_rules = Inr ()"
| "check_rules declared (rule # others) seen_rules =
     bindE (sub_lit rule ''id'') (\<lambda>identifier.
     bindE (py_in_set identifier seen_rules) (\<lambda>seen.
       if seen then fail RulebookSemanticInvalid ''Duplicate rule id in the rulebook.''
       else bindE (check_requirements declared rule) (\<lambda>_.
            check_rules declared others (identifier # seen_rules))))"

definition check_load_time_semantics :: "json \<Rightarrow> exn + unit" where
  "check_load_time_semantics value =
     bindE (items_of value ''evidence'') (\<lambda>evidence.
     bindE (check_declarations evidence []) (\<lambda>declared.
     bindE (items_of value ''rules'') (\<lambda>rules.
     check_rules declared rules [])))"

section \<open>Loading\<close>

definition load_rulebook_bytes :: "externals \<Rightarrow> bytes \<Rightarrow> registry \<Rightarrow> exn + loaded_rulebook" where
  "load_rulebook_bytes X data registry =
     bindE (load_yaml_bytes (yaml_parse X) data) (\<lambda>value.
     bindE (validate X value rulebook_schema_id registry) (\<lambda>_.
     bindE (check_load_time_semantics value) (\<lambda>_.
     bindE (canon_json value) (\<lambda>canonical.
     bindE (hex_digest_of_text (sha256_hex X) canonical) (\<lambda>h.
     bindE (sub_lit value ''rulebook_id'') (\<lambda>rulebook_id.
     bindE (sub_lit value ''version'') (\<lambda>version.
     bindE (sub_lit value ''adopted_at'') (\<lambda>adopted_at.
     Inr \<lparr>rb_canonical = canonical, rb_digest = lit ''sha256:'' @ h, rb_id = rulebook_id,
          rb_version = version, rb_adopted_at = adopted_at\<rparr>))))))))"

definition rulebook_applies :: "loaded_rulebook \<Rightarrow> json \<Rightarrow> exn + bool" where
  "rulebook_applies loaded evaluation_instant =
     bindE (instant_of evaluation_instant) (\<lambda>evaluated.
     bindE (instant_of (rb_adopted_at loaded)) (\<lambda>adopted.
     Inr (evaluated \<ge> adopted)))"

definition check_no_version_collision :: "loaded_rulebook \<Rightarrow> loaded_rulebook \<Rightarrow> exn + unit" where
  "check_no_version_collision first second =
     (if py_eq (fst (rulebook_identity first)) (fst (rulebook_identity second)) \<and>
         py_eq (snd (rulebook_identity first)) (snd (rulebook_identity second)) \<and>
         rb_digest first \<noteq> rb_digest second
      then fail_with RulebookVersionCollision
             ''Two rulebooks share (rulebook_id, version) but differ in content: ''
             (the_str (rb_id first) @ lit '' '' @ the_str (rb_version first))
      else Inr ())"

section \<open>Expressions against the rulebook\<close>

fun first_undeclared :: "ustr list \<Rightarrow> ustr list \<Rightarrow> exn + unit" where
  "first_undeclared declared [] = Inr ()"
| "first_undeclared declared (identifier # others) =
     (if identifier \<notin> set declared
      then fail_with UndeclaredEvidenceId
             ''An expression names an evidence id the rulebook does not declare: '' identifier
      else first_undeclared declared others)"

definition validate_expression :: "parsed_expression \<Rightarrow> loaded_rulebook \<Rightarrow> exn + unit" where
  "validate_expression parsed loaded =
     bindE (rulebook_value loaded) (\<lambda>value.
     bindE (items_of value ''evidence'') (\<lambda>evidence.
     bindE (index_by_id evidence []) (\<lambda>declared.
     first_undeclared (keys declared) (expr_evidence_ids parsed))))"

section \<open>What loading establishes\<close>

lemma load_rulebook_Inr:
  assumes "load_rulebook_bytes X data registry = Inr r"
  obtains w where "load_yaml_bytes (yaml_parse X) data = Inr w"
    "validate X w rulebook_schema_id registry = Inr ()" "check_load_time_semantics w = Inr ()"
    "canon_json w = Inr (rb_canonical r)"
    "hex_digest_of_text (sha256_hex X) (rb_canonical r) = Inr (drop 7 (rb_digest r))"
    "rb_digest r = lit ''sha256:'' @ drop 7 (rb_digest r)"
    "sub_lit w ''rulebook_id'' = Inr (rb_id r)" "sub_lit w ''version'' = Inr (rb_version r)"
    "sub_lit w ''adopted_at'' = Inr (rb_adopted_at r)"
  using assms by (auto simp: load_rulebook_bytes_def bindE_Inr_iff lit_def)

text \<open>The digest of the canonical text is the digest of the w.\<close>

lemma hex_digest_canonical:
  assumes "wf_json v" "canon_json v = Inr c"
  shows "hex_digest_of_text H c = Inr (H (concat (map encode_char c)))"
    and "digest H v = Inr (lit ''sha256:'' @ H (concat (map encode_char c)))"
proof -
  have "utf8_encode c = Some (concat (map encode_char c))"
    using canon_json_bytes [OF assms] by (auto simp: utf8_bytes_def split: option.splits)
  then show "hex_digest_of_text H c = Inr (H (concat (map encode_char c)))"
    by (simp add: hex_digest_of_text_def)
  show "digest H v = Inr (lit ''sha256:'' @ H (concat (map encode_char c)))"
    using canon_json_bytes [OF assms] by (simp add: digest_def)
qed

lemma load_rulebook_pins:
  assumes "load_rulebook_bytes X data registry = Inr r" "yaml_strings_ok X"
  obtains w where "loadable w" "canon_json w = Inr (rb_canonical r)"
    "rulebook_value r = Inr (sort_json w)" "digest (sha256_hex X) w = Inr (rb_digest r)"
    "validate X w rulebook_schema_id registry = Inr ()" "check_load_time_semantics w = Inr ()"
    "get_lit w ''rulebook_id'' = Some (rb_id r)" "get_lit w ''version'' = Some (rb_version r)"
    "get_lit w ''adopted_at'' = Some (rb_adopted_at r)"
proof -
  from assms(1) obtain w where v: "load_yaml_bytes (yaml_parse X) data = Inr w"
    "validate X w rulebook_schema_id registry = Inr ()" "check_load_time_semantics w = Inr ()"
    "canon_json w = Inr (rb_canonical r)"
    "hex_digest_of_text (sha256_hex X) (rb_canonical r) = Inr (drop 7 (rb_digest r))"
    "rb_digest r = lit ''sha256:'' @ drop 7 (rb_digest r)"
    "sub_lit w ''rulebook_id'' = Inr (rb_id r)" "sub_lit w ''version'' = Inr (rb_version r)"
    "sub_lit w ''adopted_at'' = Inr (rb_adopted_at r)"
    by (rule load_rulebook_Inr)
  have l: "loadable w"
    using load_yaml_loadable [OF v(1)] assms(2) by (fastforce simp: yaml_strings_ok_def list_all_iff)
  then have wf: "wf_json w" by (simp add: loadable_def)
  have get: "get_lit w k = Some z" if "sub_lit w k = Inr z" for k z
    using that by (cases w) (auto split: option.splits)
  have rv: "rulebook_value r = Inr (sort_json w)"
    unfolding rulebook_value_def by (rule json_text.dcd_enc [OF l v(4)])
  have "drop 7 (rb_digest r) = sha256_hex X (concat (map encode_char (rb_canonical r)))"
    using v(5) hex_digest_canonical(1) [OF wf v(4)] by simp
  then have dg: "digest (sha256_hex X) w = Inr (rb_digest r)"
    using hex_digest_canonical(2) [OF wf v(4), of "sha256_hex X"] v(6) by simp
  show ?thesis by (rule that [OF l v(4) rv dg v(2,3) get [OF v(7)] get [OF v(8)] get [OF v(9)]])
qed

section \<open>Load-time semantics, declaratively\<close>

lemma check_declarations_Inr:
  assumes "check_declarations evidence declared = Inr all"
  shows "\<exists>names. all = declared @ names \<and>
     map (\<lambda>e. dict_get e (lit ''id'')) evidence = map (\<lambda>n. Some (JStr n)) names \<and>
     list_all plain_member names \<and> (distinct declared \<longrightarrow> distinct all)"
  using assms
proof (induction evidence arbitrary: declared)
  case (Cons e evidence)
  obtain x where x: "sub_lit e ''id'' = Inr x" using Cons.prems by (cases "sub_lit e ''id''") auto
  with Cons.prems obtain n where n: "x = JStr n" by (cases x) auto
  with x Cons.prems have c: "plain_member n" "n \<notin> set declared"
    "check_declarations evidence (declared @ [n]) = Inr all"
    by (auto split: if_split_asm)
  from Cons.IH [OF c(3)] obtain names where i: "all = (declared @ [n]) @ names"
    "map (\<lambda>e. dict_get e (lit ''id'')) evidence = map (\<lambda>n. Some (JStr n)) names"
    "list_all plain_member names" "distinct (declared @ [n]) \<longrightarrow> distinct all"
    by blast
  have "dict_get e (lit ''id'') = Some (JStr n)" using x n by (cases e) (auto split: option.split_asm)
  with i c show ?case by (intro exI [of _ "n # names"]) auto
qed simp

lemma check_requirements_Inr:
  assumes "check_requirements declared rule = Inr z" "get_lit rule ''requires_evidence'' = Some needed"
    "py_iter needed = Inr ns"
  shows "set ns \<subseteq> JStr ` set declared"
proof -
  from assms have "forE (\<lambda>n. if \<not> is_one_of n declared
      then fail UndeclaredEvidenceId ''A rule requires evidence the rulebook does not declare.'' else Inr ()) ns = Inr ()"
    by (auto simp: check_requirements_def)
  then have "\<forall>n \<in> set ns. is_one_of n declared" by (auto simp: forE_Inr_iff split: if_split_asm)
  moreover have "is_one_of n declared \<Longrightarrow> n \<in> JStr ` set declared" for n
    by (cases n) (auto simp: is_one_of_def)
  ultimately show ?thesis by blast
qed

lemma check_rules_Inr:
  assumes "check_rules declared rules seen = Inr z"
  shows "\<exists>ids. map (\<lambda>r. dict_get r (lit ''id'')) rules = map Some ids \<and>
     (\<forall>j < length ids. \<forall>s \<in> set seen \<union> set (take j ids). \<not> py_eq (ids ! j) s) \<and>
     (\<forall>r \<in> set rules. check_requirements declared r = Inr ())"
  using assms
proof (induction rules arbitrary: seen)
  case (Cons r rules)
  from Cons.prems obtain i where i: "sub_lit r ''id'' = Inr i" "py_in_set i seen = Inr False"
    "check_requirements declared r = Inr ()" "check_rules declared rules (i # seen) = Inr z"
    by (auto simp: bindE_Inr_iff split: if_split_asm)
  from Cons.IH [OF i(4)] obtain ids where ids: "map (\<lambda>r. dict_get r (lit ''id'')) rules = map Some ids"
    "\<And>j s. j < length ids \<Longrightarrow> s \<in> set (i # seen) \<union> set (take j ids) \<Longrightarrow> \<not> py_eq (ids ! j) s"
    "\<forall>r \<in> set rules. check_requirements declared r = Inr ()"
    by blast
  have "dict_get r (lit ''id'') = Some i" using i(1) by (cases r) (auto split: option.split_asm)
  moreover have "\<not> py_eq ((i # ids) ! j) s" if "j < length (i # ids)" "s \<in> set seen \<union> set (take j (i # ids))" for j s
    using that ids(2) i(2) by (cases j) (auto simp: py_in_set_def list_ex_iff split: if_split_asm)
  ultimately show ?case using ids(1,3) i(3) by (intro exI [of _ "i # ids"]) auto
qed auto

text \<open>The reference meaning of the load-time checks.\<close>

definition rulebook_consistent :: "json \<Rightarrow> bool" where
  "rulebook_consistent w \<longleftrightarrow>
     (\<exists>evidence rules names ids. items_of w ''evidence'' = Inr evidence \<and> items_of w ''rules'' = Inr rules \<and>
        map (\<lambda>e. dict_get e (lit ''id'')) evidence = map (\<lambda>n. Some (JStr n)) names \<and>
        list_all plain_member names \<and> distinct names \<and>
        map (\<lambda>r. dict_get r (lit ''id'')) rules = map Some ids \<and>
        (\<forall>i j. i < j \<longrightarrow> j < length ids \<longrightarrow> \<not> py_eq (ids ! j) (ids ! i)) \<and>
        (\<forall>rule \<in> set rules. \<forall>needed ns. get_lit rule ''requires_evidence'' = Some needed \<longrightarrow>
           py_iter needed = Inr ns \<longrightarrow> set ns \<subseteq> JStr ` set names))"

lemma load_time_consistent:
  assumes "check_load_time_semantics w = Inr z"
  shows "rulebook_consistent w"
proof -
  from assms obtain evidence declared rules where s: "items_of w ''evidence'' = Inr evidence"
    "check_declarations evidence [] = Inr declared" "items_of w ''rules'' = Inr rules"
    "check_rules declared rules [] = Inr z"
    by (auto simp: check_load_time_semantics_def bindE_Inr_iff)
  from check_declarations_Inr [OF s(2)] have d:
    "map (\<lambda>e. dict_get e (lit ''id'')) evidence = map (\<lambda>n. Some (JStr n)) declared"
    "list_all plain_member declared" "distinct declared" by auto
  from check_rules_Inr [OF s(4)] obtain ids where r:
    "map (\<lambda>r. dict_get r (lit ''id'')) rules = map Some ids"
    "\<And>j s. j < length ids \<Longrightarrow> s \<in> set (take j ids) \<Longrightarrow> \<not> py_eq (ids ! j) s"
    "\<forall>r \<in> set rules. check_requirements declared r = Inr ()"
    by auto
  have "\<not> py_eq (ids ! j) (ids ! i)" if "i < j" "j < length ids" for i j
    using r(2) [OF that(2)] that by (force simp: in_set_conv_nth)
  moreover have "\<forall>rule \<in> set rules. \<forall>needed ns. get_lit rule ''requires_evidence'' = Some needed \<longrightarrow>
      py_iter needed = Inr ns \<longrightarrow> set ns \<subseteq> JStr ` set declared"
    using r(3) by (intro ballI allI impI) (rule check_requirements_Inr [where z = "()"], simp_all)
  ultimately show ?thesis
    unfolding rulebook_consistent_def using s(1,3) d r(1)
    by (intro exI [of _ evidence] exI [of _ rules] exI [of _ declared] exI [of _ ids] conjI) simp_all
qed

section \<open>Properties\<close>

text \<open>
  C27. A loaded rulebook is pinned. Its value was accepted by the schema and by every load-time check
  (identifiers that lex, declared once, rules named once, no requirement undeclared), its digest is the
  digest of that value, \<open>value()\<close> always rebuilds it with sorted keys and the same digest, and the
  identity and adoption instant are those it carries.
\<close>

theorem loaded_rulebook_pinned:
  assumes "load_rulebook_bytes X data registry = Inr r" "yaml_strings_ok X"
  shows "\<exists>w. validate X w rulebook_schema_id registry = Inr () \<and> rulebook_consistent w \<and>
     rulebook_value r = Inr (sort_json w) \<and> canon_json w = Inr (rb_canonical r) \<and>
     digest (sha256_hex X) w = Inr (rb_digest r) \<and> digest (sha256_hex X) (sort_json w) = Inr (rb_digest r) \<and>
     get_lit w ''rulebook_id'' = Some (rb_id r) \<and> get_lit w ''version'' = Some (rb_version r) \<and>
     get_lit w ''adopted_at'' = Some (rb_adopted_at r)"
proof -
  from assms obtain w where w: "loadable w" "canon_json w = Inr (rb_canonical r)"
    "rulebook_value r = Inr (sort_json w)" "digest (sha256_hex X) w = Inr (rb_digest r)"
    "validate X w rulebook_schema_id registry = Inr ()" "check_load_time_semantics w = Inr ()"
    "get_lit w ''rulebook_id'' = Some (rb_id r)" "get_lit w ''version'' = Some (rb_version r)"
    "get_lit w ''adopted_at'' = Some (rb_adopted_at r)"
    by (rule load_rulebook_pins)
  with load_time_consistent [OF w(6)] digest_sort [OF w(4)] show ?thesis by blast
qed

text \<open>
  One identity means one content: of two loaded rulebooks that share their identity and pass the
  collision check, both reload to the same value, unless SHA-256 collides on their two texts.
\<close>

theorem version_names_one_content:
  assumes "load_rulebook_bytes X data registry = Inr r" "load_rulebook_bytes X data' registry' = Inr r'"
    and "check_no_version_collision r r' = Inr ()"
    and "py_eq (rb_id r) (rb_id r')" "py_eq (rb_version r) (rb_version r')"
    and "\<And>b b'. utf8_bytes (rb_canonical r) = Inr b \<Longrightarrow> utf8_bytes (rb_canonical r') = Inr b' \<Longrightarrow>
           sha256_hex X b = sha256_hex X b' \<Longrightarrow> b = b'"
    and "yaml_strings_ok X"
  shows "rulebook_value r = rulebook_value r'"
proof -
  from assms(3-5) have same: "rb_digest r = rb_digest r'"
    by (auto simp: check_no_version_collision_def rulebook_identity_def split: if_split_asm)
  from assms(1,7) obtain w where w: "loadable w" "canon_json w = Inr (rb_canonical r)"
    "digest (sha256_hex X) w = Inr (rb_digest r)"
    by (rule load_rulebook_pins)
  from assms(2,7) obtain w' where w': "loadable w'" "canon_json w' = Inr (rb_canonical r')"
    "digest (sha256_hex X) w' = Inr (rb_digest r')"
    by (rule load_rulebook_pins)
  have b: "utf8_bytes (rb_canonical r) = Inr (concat (map encode_char (rb_canonical r)))"
    "utf8_bytes (rb_canonical r') = Inr (concat (map encode_char (rb_canonical r')))"
    using canon_json_bytes(1) w(1,2) w'(1,2) by (auto simp: loadable_def)
  from hex_digest_canonical(2) [of w "rb_canonical r" "sha256_hex X"] hex_digest_canonical(2) [of w' "rb_canonical r'" "sha256_hex X"]
  have "sha256_hex X (concat (map encode_char (rb_canonical r))) = sha256_hex X (concat (map encode_char (rb_canonical r')))"
    using w w' same by (simp add: loadable_def)
  with assms(6) [OF b] have "utf8_bytes (rb_canonical r) = utf8_bytes (rb_canonical r')" using b by simp
  then show ?thesis by (simp add: rulebook_value_def reload_def)
qed

section \<open>Witnesses\<close>

lemma sample_instant_value: "instant_of (JStr sample_instant) = Inr 1704067200000000000"
  unfolding instant_of_def json.case sample_instant_def by code_simp

lemma sample_load_time: "check_load_time_semantics sample_document = Inr ()"
  by (simp add: check_load_time_semantics_def sample_document_def items_of_def plain_member_def name_start_def
      name_part_def check_requirements_def py_in_set_def is_one_of_def lit_def)

definition sample_pinned :: loaded_rulebook where
  "sample_pinned =
     \<lparr>rb_canonical = jtext sample_document, rb_digest = lit ''sha256:'' @ replicate 64 48,
      rb_id = JStr (lit ''r''), rb_version = JStr (lit ''1''), rb_adopted_at = JStr sample_instant\<rparr>"

lemma sample_document_ok: "wf_json sample_document" "canon_json sample_document = Inr (jtext sample_document)"
  "loadable sample_document"
  unfolding canon_json_iff
  by (simp_all add: sample_document_def keys_def no_surrogate_def is_surrogate_def lit_def wf_str_def
      loadable_def max_depth_def)

lemma sample_load:
  assumes d: "decode_utf8 data = Inr t"
  shows "load_rulebook_bytes sample_externals data sample_registry = Inr sample_pinned"
proof -
  have v: "validate sample_externals sample_document rulebook_schema_id sample_registry = Inr ()"
    by (rule sample_registry_lookup [where c = RulebookSchemaInvalid])
      (simp add: code_by_id_def rulebook_schema_id_def)
  have g: "sub_lit sample_document ''rulebook_id'' = Inr (JStr (lit ''r''))"
    "sub_lit sample_document ''version'' = Inr (JStr (lit ''1''))"
    "sub_lit sample_document ''adopted_at'' = Inr (JStr sample_instant)"
    by (simp_all add: sample_document_def sample_instant_def)
  show ?thesis
    unfolding load_rulebook_bytes_def sample_load_yaml [OF d] bindE_simps v sample_load_time sample_document_ok(2)
      hex_digest_canonical(1) [OF sample_document_ok(1,2)] g
    by (simp add: sample_pinned_def sample_externals_def)
qed

lemma sample_value: "rulebook_value sample_pinned = Inr (sort_json sample_document)"
  using json_text.dcd_enc [OF sample_document_ok(3,2)] by (simp add: rulebook_value_def sample_pinned_def)

theorem loaded_rulebook_pinned_witness:
  "\<exists>w. rulebook_consistent w \<and> rulebook_value sample_pinned = Inr (sort_json w)"
  using loaded_rulebook_pinned [OF sample_load [OF sample_decode(1)] sample_yaml] by blast

theorem version_names_one_content_witness:
  "rulebook_value sample_pinned = rulebook_value sample_pinned \<and>
   load_rulebook_bytes sample_externals [120] sample_registry = Inr sample_pinned \<and>
   load_rulebook_bytes sample_externals [] sample_registry = Inr sample_pinned"
proof -
  have c: "check_no_version_collision sample_pinned sample_pinned = Inr ()" by (simp add: check_no_version_collision_def)
  have p: "py_eq (rb_id sample_pinned) (rb_id sample_pinned)" "py_eq (rb_version sample_pinned) (rb_version sample_pinned)"
    by (simp_all add: sample_pinned_def)
  note l = sample_load [OF sample_decode(1)] sample_load [OF sample_decode(2)]
  show ?thesis
    using version_names_one_content [OF l c p _ sample_yaml] l by simp
qed

end
