(* ===== verification/Snapshot.thy ===== *)
theory Snapshot
  imports Rulebook
begin

text \<open>
  \<^verbatim>\<open>src/vfy/snapshot.py\<close>: construction, sealing and verification of evidence snapshots. What
  \<open>build_snapshot\<close> seals, \<open>verify_snapshot_value\<close> accepts, and what it accepts is bound to the pinned
  rulebook, ordered, complete and not acquired after the freeze.
\<close>

section \<open>Python steps on values\<close>

text \<open>\<open>try: rulebook._instant(text) except TypeError: raise c(field + ...)\<close>.\<close>

definition instant_or :: "err_class \<Rightarrow> json \<Rightarrow> string \<Rightarrow> exn + int" where
  "instant_or c v field =
     (case instant_of v of
        Inl (PyErr PyTypeError _) \<Rightarrow>
          Inl (VErr c (lit field @ lit '' is not a date-time in the frozen grammar.'') NoDetail)
      | r \<Rightarrow> r)"

abbreviation instant_or_raise :: "json \<Rightarrow> string \<Rightarrow> exn + int" where
  "instant_or_raise \<equiv> instant_or EvidenceOrderInvalid"

text \<open>\<open>raise c(message + v)\<close>: the concatenation needs text.\<close>

definition fail_naming :: "err_class \<Rightarrow> string \<Rightarrow> json \<Rightarrow> exn + 'a" where
  "fail_naming c message v =
     (case v of
        JStr s \<Rightarrow> fail_with c message s
      | _ \<Rightarrow> Inl (PyErr PyTypeError (lit ''can only concatenate str'')))"

section \<open>Snapshots\<close>

definition snapshot_schema_id :: ustr where
  "snapshot_schema_id = lit ''https://verifyrun.com/spec/v1/evidence.schema.json''"

definition item_statuses :: "ustr list" where
  "item_statuses = map lit [''ok'', ''missing'', ''stale'', ''error'']"

definition acquisition_required :: "ustr list" where
  "acquisition_required = map lit [''id'', ''status'', ''acquired_at'']"

definition acquisition_permitted :: "ustr list" where
  "acquisition_permitted = acquisition_required @ [lit ''value'']"

record frozen_snapshot =
  sn_canonical :: ustr
  sn_digest :: json
  sn_frozen_at :: json
  sn_id :: json

definition snapshot_value :: "frozen_snapshot \<Rightarrow> exn + json" where
  "snapshot_value s = reload (sn_canonical s)"

subsection \<open>Checks on one item\<close>

definition duplicate_item :: "ustr \<Rightarrow> nat \<Rightarrow> exn + 'a" where
  "duplicate_item identifier position =
     Inl (VErr SnapshotSchemaInvalid (lit ''Duplicate evidence id: '' @ identifier)
            (AtSchema (lit ''$.items['' @ dec position @ lit ''].id'') (lit ''$.properties.items'')
               (lit ''unique'')))"

definition check_acquisition_shape :: "json \<Rightarrow> exn + unit" where
  "check_acquisition_shape acquisition =
     (case acquisition of
        JDict d \<Rightarrow>
          if \<exists>k \<in> set acquisition_required. k \<notin> set (keys d)
          then fail SnapshotItemInvalid ''An acquisition needs id, status, and acquired_at.''
          else (case find (\<lambda>k. k \<notin> set acquisition_permitted) (keys d) of
              Some k \<Rightarrow> fail_with SnapshotItemInvalid ''An acquisition carries an unexpected field: '' k
            | None \<Rightarrow>
                bindE (sub_lit acquisition ''id'') (\<lambda>identifier.
                if \<not> is_str identifier \<or> \<not> truthy identifier
                then fail SnapshotItemInvalid ''An acquisition id must be a non-empty string.''
                else bindE (sub_lit acquisition ''status'') (\<lambda>status.
                if \<not> is_one_of status item_statuses
                then fail SnapshotItemInvalid ''An acquisition status must be one of the four declared.''
                else Inr ())))
      | _ \<Rightarrow> fail SnapshotItemInvalid ''An acquisition must be a mapping.'')"

definition check_status_and_value :: "json \<Rightarrow> exn + unit" where
  "check_status_and_value item =
     bindE (sub_lit item ''status'') (\<lambda>status.
     let has_value = lit ''value'' \<in> set (keys (items item))
     in if status = JStr (lit ''ok'') \<and> \<not> has_value
        then bindE (sub_lit item ''id'')
               (fail_naming SnapshotItemInvalid ''An ok item records nothing without a value: '')
        else if status = JStr (lit ''missing'') \<and> has_value
        then bindE (sub_lit item ''id'')
               (fail_naming SnapshotItemInvalid ''A missing item observed nothing to record: '')
        else Inr ())"

text \<open>\<open>declaration.get("required", True)\<close>.\<close>

definition is_required :: "json \<Rightarrow> bool" where
  "is_required declaration =
     (case get_lit declaration ''required'' of None \<Rightarrow> True | Some r \<Rightarrow> truthy r)"

definition undeclared_item :: "ustr \<Rightarrow> exn + 'a" where
  "undeclared_item identifier =
     fail_with SnapshotItemUndeclared ''The rulebook does not declare this evidence id: '' identifier"

definition acquired_late :: "ustr \<Rightarrow> exn + 'a" where
  "acquired_late identifier =
     fail_with EvidenceOrderInvalid ''Evidence was acquired after the freeze: '' identifier"

text \<open>\<open>{d["id"]: d for d in pinned.value()["evidence"]}\<close>.\<close>

definition declarations_of :: "loaded_rulebook \<Rightarrow> exn + (ustr \<times> json) list" where
  "declarations_of pinned =
     bindE (rulebook_value pinned) (\<lambda>value.
     bindE (items_of value ''evidence'') (\<lambda>evidence. index_by_id evidence []))"

definition adopted_by :: "loaded_rulebook \<Rightarrow> json \<Rightarrow> exn + unit" where
  "adopted_by pinned frozen_at =
     bindE (rulebook_applies pinned frozen_at) (\<lambda>applies.
       if applies then Inr ()
       else fail RulebookNotAdopted ''The rulebook was not adopted when this run started.'')"

subsection \<open>Building\<close>

definition item_of :: "json \<Rightarrow> nat \<Rightarrow> json \<Rightarrow> json \<Rightarrow> json option \<Rightarrow> json" where
  "item_of identifier position status acquired_at v =
     JDict ([(lit ''id'', identifier), (lit ''order'', JInt (int position)),
             (lit ''status'', status), (lit ''acquired_at'', acquired_at)]
            @ (case v of None \<Rightarrow> [] | Some w \<Rightarrow> [(lit ''value'', w)]))"

text \<open>One pass of the acquisition loop: the item, and the identifier that joins \<open>seen\<close>.\<close>

definition freeze_item ::
  "int \<Rightarrow> (ustr \<times> json) list \<Rightarrow> nat \<Rightarrow> json \<Rightarrow> ustr list \<Rightarrow> exn + json \<times> ustr" where
  "freeze_item frozen_instant declarations position acquisition seen =
     bindE (check_acquisition_shape acquisition) (\<lambda>_.
     bindE (sub_lit acquisition ''id'') (\<lambda>identifier.
     let name = the_str identifier in
     if name \<notin> set (keys declarations) then undeclared_item name
     else if name \<in> set seen then duplicate_item name position
     else bindE (check_status_and_value acquisition) (\<lambda>_.
          bindE (sub_lit acquisition ''acquired_at'') (\<lambda>acquired_at.
          bindE (instant_or_raise acquired_at ''acquired_at'') (\<lambda>acquired.
          if acquired > frozen_instant then acquired_late name
          else bindE (sub_lit acquisition ''status'') (\<lambda>status.
               Inr (item_of identifier position status acquired_at (get_lit acquisition ''value''),
                    name)))))))"

fun freeze_items ::
  "int \<Rightarrow> (ustr \<times> json) list \<Rightarrow> nat \<Rightarrow> json list \<Rightarrow> ustr list \<Rightarrow> exn + json list \<times> ustr list" where
  "freeze_items frozen_instant declarations position [] seen = Inr ([], seen)"
| "freeze_items frozen_instant declarations position (acquisition # others) seen =
     bindE (freeze_item frozen_instant declarations position acquisition seen) (\<lambda>(item, name).
     bindE (freeze_items frozen_instant declarations (Suc position) others (seen @ [name]))
       (\<lambda>(frozen, all_seen). Inr (item # frozen, all_seen)))"

fun missing_items :: "json \<Rightarrow> ustr list \<Rightarrow> nat \<Rightarrow> (ustr \<times> json) list \<Rightarrow> json list" where
  "missing_items frozen_at seen n [] = []"
| "missing_items frozen_at seen n ((identifier, declaration) # others) =
     (if identifier \<in> set seen then missing_items frozen_at seen n others
      else if is_required declaration
      then item_of (JStr identifier) n (JStr (lit ''missing'')) frozen_at None
           # missing_items frozen_at seen (Suc n) others
      else missing_items frozen_at seen n others)"

definition seal :: "externals \<Rightarrow> json \<Rightarrow> registry \<Rightarrow> exn + frozen_snapshot" where
  "seal X payload registry =
     bindE (digest (sha256_hex X) payload) (\<lambda>d.
     let completed = JDict (dset (lit ''snapshot_digest'') (JStr d) (items payload)) in
     bindE (validate X completed snapshot_schema_id registry) (\<lambda>_.
     bindE (canon_json completed) (\<lambda>canonical.
     bindE (sub_lit payload ''frozen_at'') (\<lambda>frozen_at.
     bindE (sub_lit payload ''snapshot_id'') (\<lambda>snapshot_id.
     Inr \<lparr>sn_canonical = canonical, sn_digest = JStr d, sn_frozen_at = frozen_at,
          sn_id = snapshot_id\<rparr>)))))"

definition snapshot_payload :: "json \<Rightarrow> ustr \<Rightarrow> json \<Rightarrow> json list \<Rightarrow> json" where
  "snapshot_payload snapshot_id rulebook_digest frozen_at its =
     JDict [(lit ''snapshot_id'', snapshot_id), (lit ''rulebook_digest'', JStr rulebook_digest),
            (lit ''frozen_at'', frozen_at), (lit ''items'', JList its)]"

definition build_snapshot ::
  "externals \<Rightarrow> loaded_rulebook \<Rightarrow> json \<Rightarrow> json \<Rightarrow> json \<Rightarrow> registry \<Rightarrow> exn + frozen_snapshot" where
  "build_snapshot X pinned snapshot_id frozen_at acquisitions registry =
     (if \<not> is_str snapshot_id then Inl (PyErr PyTypeError (lit ''snapshot_id must be a string''))
      else case acquisitions of
        JList acquired \<Rightarrow>
          bindE (instant_or_raise frozen_at ''frozen_at'') (\<lambda>frozen_instant.
          bindE (adopted_by pinned frozen_at) (\<lambda>_.
          bindE (declarations_of pinned) (\<lambda>declarations.
          bindE (freeze_items frozen_instant declarations 0 acquired []) (\<lambda>(frozen, seen).
          seal X (snapshot_payload snapshot_id (rb_digest pinned) frozen_at
                    (frozen @ missing_items frozen_at seen (length frozen) declarations)) registry))))
      | _ \<Rightarrow> Inl (PyErr PyTypeError (lit ''acquisitions must be a sequence'')))"

subsection \<open>Verifying\<close>

text \<open>
  An identifier that is not text ends the pass with a \<open>TypeError\<close> in either way the code can take:
  a set cannot hold a container, and the message of an undeclared identifier is a concatenation.
\<close>

definition verify_item ::
  "int \<Rightarrow> (ustr \<times> json) list \<Rightarrow> nat \<Rightarrow> json \<Rightarrow> ustr list \<Rightarrow> exn + ustr" where
  "verify_item frozen_instant declarations position item seen =
     bindE (sub_lit item ''id'') (\<lambda>identifier.
       case identifier of
         JStr name \<Rightarrow>
           (if name \<notin> set (keys declarations) then undeclared_item name
            else if name \<in> set seen then duplicate_item name position
            else bindE (sub_lit item ''order'') (\<lambda>order.
              if \<not> py_eq order (JInt (int position))
              then fail EvidenceOrderInvalid ''Item order must be 0..n-1 in array order.''
              else bindE (check_status_and_value item) (\<lambda>_.
                   bindE (sub_lit item ''acquired_at'') (\<lambda>acquired_at.
                   bindE (instant_or_raise acquired_at ''acquired_at'') (\<lambda>acquired.
                   if acquired > frozen_instant then acquired_late name
                   else Inr name)))))
       | _ \<Rightarrow> Inl (PyErr PyTypeError (lit ''expected string'')))"

fun verify_items ::
  "int \<Rightarrow> (ustr \<times> json) list \<Rightarrow> nat \<Rightarrow> json list \<Rightarrow> ustr list \<Rightarrow> exn + ustr list" where
  "verify_items frozen_instant declarations position [] seen = Inr seen"
| "verify_items frozen_instant declarations position (item # others) seen =
     bindE (verify_item frozen_instant declarations position item seen) (\<lambda>name.
       verify_items frozen_instant declarations (Suc position) others (seen @ [name]))"

fun check_required_items :: "ustr list \<Rightarrow> (ustr \<times> json) list \<Rightarrow> exn + unit" where
  "check_required_items seen [] = Inr ()"
| "check_required_items seen ((identifier, declaration) # others) =
     (if is_required declaration \<and> identifier \<notin> set seen
      then fail_with SnapshotItemMissing
             ''A required evidence declaration has no snapshot item: '' identifier
      else check_required_items seen others)"

definition check_items :: "loaded_rulebook \<Rightarrow> int \<Rightarrow> json \<Rightarrow> exn + unit" where
  "check_items pinned frozen_instant value =
     bindE (declarations_of pinned) (\<lambda>declarations.
     bindE (items_of value ''items'') (\<lambda>its.
     bindE (verify_items frozen_instant declarations 0 its []) (\<lambda>seen.
     check_required_items seen declarations)))"

definition verify_snapshot_value ::
  "externals \<Rightarrow> json \<Rightarrow> loaded_rulebook \<Rightarrow> registry \<Rightarrow> exn + frozen_snapshot" where
  "verify_snapshot_value X value pinned registry =
     (if \<not> is_dict value then Inl (PyErr PyTypeError (lit ''a snapshot value must be a mapping''))
      else
        bindE (validate X value snapshot_schema_id registry) (\<lambda>_.
        bindE (digest (sha256_hex X) (json_without ''snapshot_digest'' value)) (\<lambda>recomputed.
        bindE (sub_lit value ''snapshot_digest'') (\<lambda>embedded.
        if JStr recomputed \<noteq> embedded
        then fail SnapshotDigestMismatch
               ''The embedded snapshot digest does not match the snapshot's own payload.''
        else
          bindE (sub_lit value ''rulebook_digest'') (\<lambda>named.
          if named \<noteq> JStr (rb_digest pinned)
          then fail SnapshotRulebookMismatch ''The snapshot names a rulebook other than the pinned one.''
          else
            bindE (sub_lit value ''frozen_at'') (\<lambda>frozen_at.
            bindE (instant_or_raise frozen_at ''frozen_at'') (\<lambda>frozen_instant.
            bindE (adopted_by pinned frozen_at) (\<lambda>_.
            bindE (check_items pinned frozen_instant value) (\<lambda>_.
            bindE (canon_json value) (\<lambda>canonical.
            bindE (sub_lit value ''snapshot_id'') (\<lambda>snapshot_id.
            Inr \<lparr>sn_canonical = canonical, sn_digest = embedded, sn_frozen_at = frozen_at,
                 sn_id = snapshot_id\<rparr>)))))))))))"

section \<open>What each step establishes\<close>

lemma instant_or_Inr_iff: "instant_or c v field = Inr t \<longleftrightarrow> instant_of v = Inr t"
  by (auto simp: instant_or_def split: sum.splits exn.splits py_class.splits)

lemma instant_of_text: "instant_of v = Inr t \<Longrightarrow> \<exists>s. v = JStr s"
proof (rule ccontr)
  assume "instant_of v = Inr t" "\<nexists>s. v = JStr s"
  then have "instant [] = Inr t" by (cases v) (simp_all add: instant_of_def)
  moreover have "\<exists>e. instant [] = Inl e"
    by (simp add: instant_def is_date_time_def match_date_time_def)
  ultimately show False by auto
qed

lemma fail_naming_Inr [simp]: "fail_naming c m v \<noteq> Inr x"
  by (simp add: fail_naming_def split: json.splits)

lemma item_failures [simp]:
  "undeclared_item i \<noteq> Inr x" "acquired_late i \<noteq> Inr x" "duplicate_item i n \<noteq> Inr x"
  by (simp_all add: undeclared_item_def acquired_late_def duplicate_item_def)

lemma check_status_iff:
  "check_status_and_value item = Inr z \<longleftrightarrow>
     (\<exists>status. get_lit item ''status'' = Some status \<and>
        (status = JStr (lit ''ok'') \<longrightarrow> get_lit item ''value'' \<noteq> None) \<and>
        (status = JStr (lit ''missing'') \<longrightarrow> get_lit item ''value'' = None))"
  by (auto simp: check_status_and_value_def bindE_Inr_iff Let_def subscript_Inr_iff keys_items_iff)

lemma required_items_iff:
  "check_required_items seen ds = Inr z \<longleftrightarrow> (\<forall>(k, d) \<in> set ds. is_required d \<longrightarrow> k \<in> set seen)"
  by (induction ds) (auto split: if_splits)

lemma index_by_id_distinct: "index_by_id vs d = Inr d' \<Longrightarrow> distinct (keys d) \<Longrightarrow> distinct (keys d')"
proof (induction vs arbitrary: d)
  case (Cons v vs)
  from Cons.prems(1) obtain x where "sub_lit v ''id'' = Inr x" by (cases "sub_lit v ''id''") auto
  with Cons.prems(1) obtain k where "index_by_id vs (dset k v d) = Inr d'" by (cases x) auto
  then show ?case by (rule Cons.IH) (rule distinct_keys_dset [OF Cons.prems(2)])
qed simp

lemma declarations_distinct: "declarations_of pinned = Inr ds \<Longrightarrow> distinct (keys ds)"
  by (auto simp: declarations_of_def bindE_Inr_iff keys_def dest!: index_by_id_distinct)

lemma shape_Inr:
  assumes "check_acquisition_shape a = Inr z"
  obtains name status where "get_lit a ''id'' = Some (JStr name)" "get_lit a ''status'' = Some status"
    "is_one_of status item_statuses"
proof -
  from assms obtain i status where "get_lit a ''id'' = Some i" "is_str i" "get_lit a ''status'' = Some status"
    "is_one_of status item_statuses"
    by (auto simp: check_acquisition_shape_def bindE_Inr_iff subscript_Inr_iff split: json.splits if_splits option.splits)
  then show ?thesis using that by (cases i) auto
qed

subsection \<open>Items\<close>

text \<open>The reference meaning of one admitted item.\<close>

definition item_admitted :: "int \<Rightarrow> nat \<Rightarrow> json \<Rightarrow> ustr \<Rightarrow> bool" where
  "item_admitted frozen_instant position item name \<longleftrightarrow>
     get_lit item ''id'' = Some (JStr name) \<and>
     (\<exists>order. get_lit item ''order'' = Some order \<and> py_eq order (JInt (int position))) \<and>
     (\<exists>status. get_lit item ''status'' = Some status \<and>
        (status = JStr (lit ''ok'') \<longrightarrow> get_lit item ''value'' \<noteq> None) \<and>
        (status = JStr (lit ''missing'') \<longrightarrow> get_lit item ''value'' = None)) \<and>
     (\<exists>at t. get_lit item ''acquired_at'' = Some at \<and> instant_of at = Inr t \<and> t \<le> frozen_instant)"

lemma verify_item_iff:
  "verify_item frozen ds position item seen = Inr name \<longleftrightarrow>
     item_admitted frozen position item name \<and> name \<in> set (keys ds) \<and> name \<notin> set seen"
proof
  assume "verify_item frozen ds position item seen = Inr name"
  then obtain i where i: "get_lit item ''id'' = Some i" and
    r: "(case i of
         JStr name \<Rightarrow>
           (if name \<notin> set (keys ds) then undeclared_item name
            else if name \<in> set seen then duplicate_item name position
            else bindE (sub_lit item ''order'') (\<lambda>order.
              if \<not> py_eq order (JInt (int position))
              then fail EvidenceOrderInvalid ''Item order must be 0..n-1 in array order.''
              else bindE (check_status_and_value item) (\<lambda>_.
                   bindE (sub_lit item ''acquired_at'') (\<lambda>acquired_at.
                   bindE (instant_or_raise acquired_at ''acquired_at'') (\<lambda>acquired.
                   if acquired > frozen then acquired_late name
                   else Inr name)))))
       | _ \<Rightarrow> Inl (PyErr PyTypeError (lit ''expected string''))) = Inr name"
    by (auto simp: verify_item_def bindE_Inr_iff subscript_Inr_iff)
  from r obtain n where n: "i = JStr n" by (cases i) auto
  show "item_admitted frozen position item name \<and> name \<in> set (keys ds) \<and> name \<notin> set seen"
    using r i unfolding n item_admitted_def
    by (auto simp: bindE_Inr_iff subscript_Inr_iff check_status_iff instant_or_Inr_iff split: if_splits)
next
  assume "item_admitted frozen position item name \<and> name \<in> set (keys ds) \<and> name \<notin> set seen"
  moreover then have "check_status_and_value item = Inr ()"
    by (auto simp: check_status_iff item_admitted_def)
  moreover from calculation obtain at t where at: "get_lit item ''acquired_at'' = Some at"
    "instant_of at = Inr t" "t \<le> frozen" by (auto simp: item_admitted_def)
  moreover from at have "instant_or_raise at ''acquired_at'' = Inr t" by (simp add: instant_or_Inr_iff)
  ultimately show "verify_item frozen ds position item seen = Inr name"
    by (auto simp: verify_item_def item_admitted_def bindE_Inr_iff subscript_Inr_iff)
qed

lemma verify_items_iff:
  "verify_items frozen ds position its seen = Inr all \<longleftrightarrow>
     (\<exists>names. all = seen @ names \<and> length names = length its \<and>
        (\<forall>k < length its. item_admitted frozen (position + k) (its ! k) (names ! k)) \<and>
        set names \<subseteq> set (keys ds) \<and> distinct names \<and> set names \<inter> set seen = {})"
proof (induction its arbitrary: position seen)
  case (Cons item its)
  show ?case
  proof
    assume "verify_items frozen ds position (item # its) seen = Inr all"
    then obtain name where v: "verify_item frozen ds position item seen = Inr name"
      and r: "verify_items frozen ds (Suc position) its (seen @ [name]) = Inr all"
      by (auto simp: bindE_Inr_iff)
    from r obtain names where n: "all = (seen @ [name]) @ names" "length names = length its"
      "\<And>k. k < length its \<Longrightarrow> item_admitted frozen (Suc position + k) (its ! k) (names ! k)"
      "set names \<subseteq> set (keys ds)" "distinct names" "set names \<inter> set (seen @ [name]) = {}"
      unfolding Cons.IH by blast
    have "item_admitted frozen (position + k) ((item # its) ! k) ((name # names) ! k)"
      if "k < length (item # its)" for k
      using that n(3) v by (cases k) (auto simp: verify_item_iff)
    with n v show "\<exists>names. all = seen @ names \<and> length names = length (item # its) \<and>
        (\<forall>k < length (item # its). item_admitted frozen (position + k) ((item # its) ! k) (names ! k)) \<and>
        set names \<subseteq> set (keys ds) \<and> distinct names \<and> set names \<inter> set seen = {}"
      by (intro exI [of _ "name # names"]) (auto simp: verify_item_iff)
  next
    assume "\<exists>names. all = seen @ names \<and> length names = length (item # its) \<and>
        (\<forall>k < length (item # its). item_admitted frozen (position + k) ((item # its) ! k) (names ! k)) \<and>
        set names \<subseteq> set (keys ds) \<and> distinct names \<and> set names \<inter> set seen = {}"
    then obtain name names where n: "all = seen @ name # names" "length names = length its"
      "\<And>k. k < Suc (length its) \<Longrightarrow>
         item_admitted frozen (position + k) ((item # its) ! k) ((name # names) ! k)"
      "set (name # names) \<subseteq> set (keys ds)" "distinct (name # names)" "set (name # names) \<inter> set seen = {}"
      by (auto simp: length_Suc_conv)
    have "verify_item frozen ds position item seen = Inr name"
      using n(3) [of 0] n(4-) by (auto simp: verify_item_iff)
    moreover have "verify_items frozen ds (Suc position) its (seen @ [name]) = Inr all"
      unfolding Cons.IH using n(3) [of "Suc _"] n by (intro exI [of _ names]) auto
    ultimately show "verify_items frozen ds position (item # its) seen = Inr all" by simp
  qed
qed auto

subsection \<open>Built items are admitted in their sorted form\<close>

lemma admitted_sort:
  assumes "wf_json item" "item_admitted frozen position item name"
  shows "item_admitted frozen position (sort_json item) name"
proof -
  from assms(2) obtain order status at t where g: "get_lit item ''id'' = Some (JStr name)"
    "get_lit item ''order'' = Some order" "py_eq order (JInt (int position))"
    "get_lit item ''status'' = Some status"
    "status = JStr (lit ''ok'') \<longrightarrow> get_lit item ''value'' \<noteq> None"
    "status = JStr (lit ''missing'') \<longrightarrow> get_lit item ''value'' = None"
    "get_lit item ''acquired_at'' = Some at" "instant_of at = Inr t" "t \<le> frozen"
    unfolding item_admitted_def by blast
  from g(8) obtain s where "at = JStr s" using instant_of_text by blast
  moreover from g(3) have "sort_json order = order" by (cases order) auto
  ultimately show ?thesis
    using g unfolding item_admitted_def by (simp add: dict_get_sort [OF assms(1)])
qed

lemma item_of_get:
  "get_lit (item_of i n st at v) ''id'' = Some i"
  "get_lit (item_of i n st at v) ''order'' = Some (JInt (int n))"
  "get_lit (item_of i n st at v) ''status'' = Some st"
  "get_lit (item_of i n st at v) ''acquired_at'' = Some at"
  "get_lit (item_of i n st at v) ''value'' = v"
  by (simp_all add: item_of_def split: option.splits)

lemma item_of_wf:
  "wf_json i \<Longrightarrow> wf_json st \<Longrightarrow> wf_json at \<Longrightarrow> (\<And>w. v = Some w \<Longrightarrow> wf_json w) \<Longrightarrow>
   wf_json (item_of i n st at v)"
  by (auto simp: item_of_def keys_def split: option.splits)

lemma freeze_item_Inr:
  assumes "freeze_item frozen ds position a seen = Inr (item, name)"
  shows "\<exists>status at. item = item_of (JStr name) position status at (get_lit a ''value'')
     \<and> get_lit a ''id'' = Some (JStr name) \<and> get_lit a ''status'' = Some status
     \<and> get_lit a ''acquired_at'' = Some at
     \<and> item_admitted frozen position item name \<and> name \<in> set (keys ds) \<and> name \<notin> set seen"
proof -
  from assms have shape: "check_acquisition_shape a = Inr ()" by (auto simp: freeze_item_def bindE_Inr_iff)
  then obtain n status where n: "get_lit a ''id'' = Some (JStr n)" "get_lit a ''status'' = Some status"
    by (rule shape_Inr)
  have i: "sub_lit a ''id'' = Inr (JStr n)" "sub_lit a ''status'' = Inr status"
    using n by (simp_all add: subscript_Inr_iff)
  from assms have "(if n \<notin> set (keys ds) then undeclared_item n
     else if n \<in> set seen then duplicate_item n position
     else bindE (check_status_and_value a) (\<lambda>_.
          bindE (sub_lit a ''acquired_at'') (\<lambda>acquired_at.
          bindE (instant_or_raise acquired_at ''acquired_at'') (\<lambda>acquired.
          if acquired > frozen then acquired_late n
          else Inr (item_of (JStr n) position status acquired_at (get_lit a ''value''), n))))) = Inr (item, name)"
    by (simp add: freeze_item_def shape i cong: if_cong)
  then obtain at t where r: "n \<in> set (keys ds)" "n \<notin> set seen"
    "check_status_and_value a = Inr ()" "get_lit a ''acquired_at'' = Some at" "instant_of at = Inr t"
    "t \<le> frozen" "item = item_of (JStr n) position status at (get_lit a ''value'')" "name = n"
    by (auto simp: bindE_Inr_iff subscript_Inr_iff instant_or_Inr_iff split: if_split_asm)
  from r(3) n(2) have "status = JStr (lit ''ok'') \<longrightarrow> get_lit a ''value'' \<noteq> None"
    "status = JStr (lit ''missing'') \<longrightarrow> get_lit a ''value'' = None"
    by (auto simp: check_status_iff)
  then have "item_admitted frozen position item name"
    unfolding item_admitted_def r(7,8) item_of_get using r(5,6) by auto
  with r n show ?thesis by blast
qed

lemma freeze_items_Inr:
  assumes "freeze_items frozen ds position acqs seen = Inr (its, all)"
  shows "\<exists>names. all = seen @ names \<and> length names = length its \<and> length its = length acqs \<and>
        (\<forall>k < length its. item_admitted frozen (position + k) (its ! k) (names ! k)) \<and>
        set names \<subseteq> set (keys ds) \<and> distinct names \<and> set names \<inter> set seen = {}"
  using assms
proof (induction acqs arbitrary: position seen its)
  case (Cons a acqs)
  then obtain item name rest where f: "freeze_item frozen ds position a seen = Inr (item, name)"
    "freeze_items frozen ds (Suc position) acqs (seen @ [name]) = Inr (rest, all)" "its = item # rest"
    by (auto simp: bindE_Inr_iff)
  from Cons.IH [OF f(2)] obtain names where n: "all = (seen @ [name]) @ names" "length names = length rest"
    "length rest = length acqs"
    "\<And>k. k < length rest \<Longrightarrow> item_admitted frozen (Suc position + k) (rest ! k) (names ! k)"
    "set names \<subseteq> set (keys ds)" "distinct names" "set names \<inter> set (seen @ [name]) = {}"
    by blast
  have i: "item_admitted frozen position item name" "name \<in> set (keys ds)" "name \<notin> set seen"
    using freeze_item_Inr [OF f(1)] by auto
  have "item_admitted frozen (position + k) ((item # rest) ! k) ((name # names) ! k)"
    if "k < length (item # rest)" for k
    using that n(4) i(1) by (cases k) auto
  with n i f(3) show ?case by (intro exI [of _ "name # names"]) auto
qed auto

lemma freeze_items_wf:
  assumes "freeze_items frozen ds position acqs seen = Inr (its, all)" "\<forall>a \<in> set acqs. wf_json a"
  shows "(\<forall>item \<in> set its. wf_json item) \<and>
     map (\<lambda>item. get_lit item ''value'') its = map (\<lambda>a. get_lit a ''value'') acqs"
  using assms
proof (induction acqs arbitrary: position seen its)
  case (Cons a acqs)
  then obtain item name rest where f: "freeze_item frozen ds position a seen = Inr (item, name)"
    "freeze_items frozen ds (Suc position) acqs (seen @ [name]) = Inr (rest, all)" "its = item # rest"
    by (auto simp: bindE_Inr_iff)
  from freeze_item_Inr [OF f(1)] obtain status at where
    i: "item = item_of (JStr name) position status at (get_lit a ''value'')"
    "get_lit a ''id'' = Some (JStr name)" "get_lit a ''status'' = Some status" "get_lit a ''acquired_at'' = Some at"
    by blast
  have "wf_json item"
    unfolding i(1) using Cons.prems(2) i(2-4) by (intro item_of_wf) (auto dest: wf_dict_get)
  with Cons.IH [OF f(2)] Cons.prems(2) show ?case by (simp add: f(3) i(1) item_of_get)
qed simp

text \<open>The recorded gaps of required declarations.\<close>

definition missing_names :: "ustr list \<Rightarrow> (ustr \<times> json) list \<Rightarrow> ustr list" where
  "missing_names seen ds = map fst (filter (\<lambda>(k, d). k \<notin> set seen \<and> is_required d) ds)"

lemma missing_names_simps:
  "missing_names seen [] = []"
  "missing_names seen ((i, d) # ds) =
     (if i \<notin> set seen \<and> is_required d then i # missing_names seen ds else missing_names seen ds)"
  by (simp_all add: missing_names_def)

lemma missing_items_admitted:
  assumes "instant_of at = Inr frozen"
  shows "length (missing_items at seen n ds) = length (missing_names seen ds) \<and>
     (\<forall>k < length (missing_names seen ds).
        item_admitted frozen (n + k) (missing_items at seen n ds ! k) (missing_names seen ds ! k))"
proof (induction ds arbitrary: n)
  case (Cons p ds)
  obtain i d where p: "p = (i, d)" by fastforce
  let ?item = "item_of (JStr i) n (JStr (lit ''missing'')) at None"
  have one: "item_admitted frozen n ?item i"
    unfolding item_admitted_def item_of_get using assms by auto
  have "item_admitted frozen (n + k) ((?item # missing_items at seen (Suc n) ds) ! k) ((i # missing_names seen ds) ! k)"
    if "k < Suc (length (missing_names seen ds))" for k
    using that one Cons.IH [of "Suc n"] by (cases k) auto
  then show ?case using Cons.IH [of n] Cons.IH [of "Suc n"] by (auto simp: p missing_names_simps)
qed (simp add: missing_names_simps)

lemma missing_items_wf:
  assumes "wf_json at" "\<forall>k \<in> set (keys ds). wf_str k"
  shows "\<forall>item \<in> set (missing_items at seen n ds). wf_json item \<and> get_lit item ''value'' = None"
  using assms(2)
proof (induction ds arbitrary: n)
  case (Cons p ds)
  obtain i d where p: "p = (i, d)" by fastforce
  have "wf_json (item_of (JStr i) n (JStr (lit ''missing'')) at None)"
    using assms(1) Cons.prems by (intro item_of_wf) (auto simp: p keys_def)
  with Cons show ?case by (auto simp: p keys_def item_of_get)
qed simp

text \<open>What \<open>check_items\<close> accepts.\<close>

definition items_admitted :: "(ustr \<times> json) list \<Rightarrow> int \<Rightarrow> json list \<Rightarrow> bool" where
  "items_admitted ds frozen its \<longleftrightarrow>
     (\<exists>names. length names = length its \<and>
        (\<forall>k < length its. item_admitted frozen k (its ! k) (names ! k)) \<and>
        set names \<subseteq> set (keys ds) \<and> distinct names \<and>
        (\<forall>(k, d) \<in> set ds. is_required d \<longrightarrow> k \<in> set names))"

lemma check_items_iff:
  "check_items pinned frozen v = Inr z \<longleftrightarrow>
     (\<exists>ds its. declarations_of pinned = Inr ds \<and> items_of v ''items'' = Inr its \<and> items_admitted ds frozen its)"
  unfolding check_items_def items_admitted_def
  by (auto simp: bindE_Inr_iff verify_items_iff required_items_iff)

lemma built_items_admitted:
  assumes "freeze_items frozen ds 0 acqs [] = Inr (its, seen)" "instant_of at = Inr frozen"
    "distinct (keys ds)"
  shows "items_admitted ds frozen (its @ missing_items at seen (length its) ds)"
proof -
  from freeze_items_Inr [OF assms(1)] have n: "length seen = length its" "length its = length acqs"
    "\<And>k. k < length its \<Longrightarrow> item_admitted frozen k (its ! k) (seen ! k)"
    "set seen \<subseteq> set (keys ds)" "distinct seen"
    by auto
  note m = missing_items_admitted [OF assms(2), of seen "length its" ds]
  have "item_admitted frozen k ((its @ missing_items at seen (length its) ds) ! k)
         ((seen @ missing_names seen ds) ! k)"
    if "k < length (its @ missing_items at seen (length its) ds)" for k
  proof (cases "k < length its")
    case True
    with n show ?thesis by (simp add: nth_append)
  next
    case False
    with that m have "k - length its < length (missing_names seen ds)" by auto
    with m have "item_admitted frozen (length its + (k - length its))
      (missing_items at seen (length its) ds ! (k - length its)) (missing_names seen ds ! (k - length its))"
      by blast
    with False n(1) show ?thesis by (simp add: nth_append)
  qed
  moreover have "distinct (missing_names seen ds)"
    using assms(3) by (auto simp: missing_names_def keys_def distinct_map intro: inj_on_subset)
  moreover have "set (missing_names seen ds) \<inter> set seen = {}"
    "set (missing_names seen ds) \<subseteq> set (keys ds)"
    "\<forall>(k, d) \<in> set ds. is_required d \<longrightarrow> k \<in> set seen \<union> set (missing_names seen ds)"
    by (force simp: missing_names_def keys_def)+
  ultimately show ?thesis
    unfolding items_admitted_def using n m by (intro exI [of _ "seen @ missing_names seen ds"]) auto
qed

lemma items_admitted_sort:
  assumes "items_admitted ds frozen its" "\<forall>item \<in> set its. wf_json item"
  shows "items_admitted ds frozen (map sort_json its)"
proof -
  from assms(1) obtain names where n: "length names = length its"
    "\<And>k. k < length its \<Longrightarrow> item_admitted frozen k (its ! k) (names ! k)"
    "set names \<subseteq> set (keys ds)" "distinct names" "\<forall>(k, d) \<in> set ds. is_required d \<longrightarrow> k \<in> set names"
    unfolding items_admitted_def by blast
  have "item_admitted frozen k (map sort_json its ! k) (names ! k)" if "k < length its" for k
    using that n(2) assms(2) by (simp add: admitted_sort)
  with n show ?thesis unfolding items_admitted_def by (intro exI [of _ names]) simp
qed

section \<open>What is sealed\<close>

lemma digest_wf: "hash_text_ok X \<Longrightarrow> digest (sha256_hex X) v = Inr d \<Longrightarrow> wf_str d"
proof -
  assume h: "hash_text_ok X" "digest (sha256_hex X) v = Inr d"
  then obtain b where d: "d = lit ''sha256:'' @ sha256_hex X b" by (auto simp: digest_def bindE_Inr_iff)
  have "wf_str (sha256_hex X b)" using h(1) by (fastforce simp: hash_text_ok_def wf_str_def list_all_iff hex_char_def)
  then show ?thesis by (simp add: d)
qed

lemma wf_items_of: "items_of v name = Inr vs \<Longrightarrow> wf_json v \<Longrightarrow> \<forall>w \<in> set vs. wf_json w"
proof -
  assume "items_of v name = Inr vs" "wf_json v"
  then obtain u where "dict_get v (lit name) = Some u" "py_iter u = Inr vs"
    by (auto simp: items_of_def bindE_Inr_iff subscript_Inr_iff)
  with wf_dict_get [OF \<open>wf_json v\<close>] have "wf_json u" "py_iter u = Inr vs" by auto
  then show ?thesis by (cases u) (fastforce simp: wf_str_def list_all_iff)+
qed

lemma index_by_id_wf:
  "index_by_id vs d = Inr d' \<Longrightarrow> \<forall>v \<in> set vs. wf_json v \<Longrightarrow> \<forall>(k, v) \<in> set d. wf_str k \<and> wf_json v \<Longrightarrow>
   \<forall>(k, v) \<in> set d'. wf_str k \<and> wf_json v"
proof (induction vs arbitrary: d)
  case (Cons v vs)
  from Cons.prems(1) obtain x where x: "sub_lit v ''id'' = Inr x" by (cases "sub_lit v ''id''") auto
  with Cons.prems(1) obtain k where k: "x = JStr k" "index_by_id vs (dset k v d) = Inr d'" by (cases x) auto
  have "wf_json x" using x Cons.prems(2) wf_dict_get [of v] by (auto simp: subscript_Inr_iff)
  moreover have "set (dset k v d) \<subseteq> insert (k, v) (set d)" by (induction k v d rule: dset.induct) auto
  ultimately have "\<forall>(k, v) \<in> set (dset k v d). wf_str k \<and> wf_json v"
    using Cons.prems(2,3) k(1) by auto
  with Cons.IH k(2) Cons.prems(2) show ?case by simp
qed simp

lemma declarations_wf: "declarations_of pinned = Inr ds \<Longrightarrow> \<forall>k \<in> set (keys ds). wf_str k"
proof -
  assume "declarations_of pinned = Inr ds"
  then obtain v vs where "reload (rb_canonical pinned) = Inr v" "items_of v ''evidence'' = Inr vs"
    "index_by_id vs [] = Inr ds"
    by (auto simp: declarations_of_def bindE_Inr_iff rulebook_value_def)
  then have "\<forall>(k, v) \<in> set ds. wf_str k \<and> wf_json v"
    using index_by_id_wf [of vs "[]" ds] wf_items_of [of v] reload_loadable [of "rb_canonical pinned" v]
    by (auto simp: loadable_def)
  then show ?thesis by (auto simp: keys_def)
qed

text \<open>A successful build, opened once for every property.\<close>

definition sealed_value :: "json \<Rightarrow> ustr \<Rightarrow> json \<Rightarrow> json list \<Rightarrow> ustr \<Rightarrow> json" where
  "sealed_value snapshot_id rulebook_digest frozen_at its d =
     JDict (items (snapshot_payload snapshot_id rulebook_digest frozen_at its) @ [(lit ''snapshot_digest'', JStr d)])"

lemma build_snapshot_Inr:
  assumes "build_snapshot X pinned sid at acqs registry = Inr s"
  obtains acquired ds its seen frozen d where "acqs = JList acquired" "is_str sid" "instant_of at = Inr frozen"
    "adopted_by pinned at = Inr ()" "declarations_of pinned = Inr ds"
    "freeze_items frozen ds 0 acquired [] = Inr (its, seen)"
    "items_admitted ds frozen (its @ missing_items at seen (length its) ds)"
    "digest (sha256_hex X) (snapshot_payload sid (rb_digest pinned) at
        (its @ missing_items at seen (length its) ds)) = Inr d"
    "validate X (sealed_value sid (rb_digest pinned) at (its @ missing_items at seen (length its) ds) d)
       snapshot_schema_id registry = Inr ()"
    "canon_json (sealed_value sid (rb_digest pinned) at (its @ missing_items at seen (length its) ds) d)
       = Inr (sn_canonical s)"
    "sn_digest s = JStr d" "sn_frozen_at s = at" "sn_id s = sid"
proof -
  from assms obtain acquired where a: "acqs = JList acquired" "is_str sid"
    by (cases acqs) (auto simp: build_snapshot_def split: if_split_asm)
  with assms obtain frozen ds its seen where b: "instant_or_raise at ''frozen_at'' = Inr frozen"
    "adopted_by pinned at = Inr ()" "declarations_of pinned = Inr ds"
    "freeze_items frozen ds 0 acquired [] = Inr (its, seen)"
    "seal X (snapshot_payload sid (rb_digest pinned) at
        (its @ missing_items at seen (length its) ds)) registry = Inr s"
    by (auto simp: build_snapshot_def bindE_Inr_iff)
  let ?p = "snapshot_payload sid (rb_digest pinned) at (its @ missing_items at seen (length its) ds)"
  have i: "instant_of at = Inr frozen" using b(1) by (simp add: instant_or_Inr_iff)
  have e: "JDict (dset (lit ''snapshot_digest'') (JStr d) (items ?p))
      = sealed_value sid (rb_digest pinned) at (its @ missing_items at seen (length its) ds) d" for d
    by (simp add: sealed_value_def snapshot_payload_def)
  have g: "sub_lit ?p ''frozen_at'' = Inr at" "sub_lit ?p ''snapshot_id'' = Inr sid"
    by (simp_all add: snapshot_payload_def)
  from b(5) obtain d where d: "digest (sha256_hex X) ?p = Inr d"
    "validate X (sealed_value sid (rb_digest pinned) at (its @ missing_items at seen (length its) ds) d)
       snapshot_schema_id registry = Inr ()"
    "canon_json (sealed_value sid (rb_digest pinned) at (its @ missing_items at seen (length its) ds) d)
       = Inr (sn_canonical s)"
    "sn_digest s = JStr d" "sn_frozen_at s = at" "sn_id s = sid"
    unfolding seal_def Let_def e g by (auto simp: bindE_Inr_iff)
  show ?thesis
    by (rule that [OF a i b(2,3,4) built_items_admitted [OF b(4) i declarations_distinct [OF b(3)]] d])
qed

lemma payload_wf:
  "wf_json sid \<Longrightarrow> wf_str rd \<Longrightarrow> wf_json at \<Longrightarrow> \<forall>i \<in> set its. wf_json i \<Longrightarrow> wf_str d \<Longrightarrow>
   wf_json (snapshot_payload sid rd at its) \<and> wf_json (sealed_value sid rd at its d)"
  by (simp add: snapshot_payload_def sealed_value_def keys_def)

lemma sealed_lookup:
  "get_lit (sealed_value sid rd at its d) ''snapshot_digest'' = Some (JStr d)"
  "get_lit (sealed_value sid rd at its d) ''rulebook_digest'' = Some (JStr rd)"
  "get_lit (sealed_value sid rd at its d) ''frozen_at'' = Some at"
  "get_lit (sealed_value sid rd at its d) ''snapshot_id'' = Some sid"
  "get_lit (sealed_value sid rd at its d) ''items'' = Some (JList its)"
  "json_without ''snapshot_digest'' (sealed_value sid rd at its d) = snapshot_payload sid rd at its"
  by (simp_all add: sealed_value_def snapshot_payload_def json_without_def dwithout_def)

lemma adopted_by_text: "adopted_by pinned v = Inr z \<Longrightarrow> \<exists>s. v = JStr s"
proof -
  assume "adopted_by pinned v = Inr z"
  then obtain t where "instant_of v = Inr t"
    by (auto simp: adopted_by_def rulebook_applies_def bindE_Inr_iff)
  then show ?thesis by (rule instant_of_text)
qed

lemma sealed_verifies:
  assumes wf: "wf_json sid" "wf_str (rb_digest pinned)" "\<forall>i \<in> set its. wf_json i" "wf_str d" "wf_json at"
    and at: "instant_of at = Inr frozen" "adopted_by pinned at = Inr ()" "is_str sid"
    and ds: "declarations_of pinned = Inr ds" "items_admitted ds frozen its"
    and d: "digest (sha256_hex X) (snapshot_payload sid (rb_digest pinned) at its) = Inr d"
    and v: "validate X (sealed_value sid (rb_digest pinned) at its d) snapshot_schema_id registry = Inr ()"
    and c: "canon_json (sealed_value sid (rb_digest pinned) at its d) = Inr c"
  shows "verify_snapshot_value X (sort_json (sealed_value sid (rb_digest pinned) at its d)) pinned registry
     = Inr \<lparr>sn_canonical = c, sn_digest = JStr d, sn_frozen_at = at, sn_id = sid\<rparr>"
proof -
  let ?v = "sealed_value sid (rb_digest pinned) at its d"
  have w: "wf_json ?v" "wf_json (snapshot_payload sid (rb_digest pinned) at its)"
    using payload_wf [of sid "rb_digest pinned" at its d] wf by auto
  from at(1) instant_of_text obtain t where t: "at = JStr t" by blast
  have t': "sort_json at = at" by (simp add: t)
  have sid: "sort_json sid = sid" using at(3) by (cases sid) auto
  have sub: "sub_lit (sort_json ?v) k = map_sum id sort_json (sub_lit ?v k)" for k
    by (rule subscript_sort [OF w(1)])
  have get: "sub_lit (sort_json ?v) ''snapshot_digest'' = Inr (JStr d)"
    "sub_lit (sort_json ?v) ''rulebook_digest'' = Inr (JStr (rb_digest pinned))"
    "sub_lit (sort_json ?v) ''frozen_at'' = Inr at" "sub_lit (sort_json ?v) ''snapshot_id'' = Inr sid"
    by (simp_all add: subscript_Inr_iff dict_get_sort [OF w(1)] sealed_lookup t' sid)
  have dg: "digest (sha256_hex X) (json_without ''snapshot_digest'' (sort_json ?v)) = Inr d"
    using digest_sort [OF d] json_without_sort [of "''snapshot_digest''"
        "items (snapshot_payload sid (rb_digest pinned) at its) @ [(lit ''snapshot_digest'', JStr d)]"]
      sealed_lookup(6) [of sid "rb_digest pinned" at its d]
    by (simp only: sealed_value_def)
  have it: "items_of (sort_json ?v) ''items'' = Inr (map sort_json its)"
    by (simp add: items_of_def bindE_Inr_iff subscript_Inr_iff dict_get_sort [OF w(1)] sealed_lookup)
  have ok: "check_items pinned frozen (sort_json ?v) = Inr ()"
    unfolding check_items_iff using ds(1) it items_admitted_sort [OF ds(2) wf(3)] by blast
  have i: "instant_or_raise at ''frozen_at'' = Inr frozen" using at(1) by (simp add: instant_or_Inr_iff)
  have dict: "is_dict (sort_json ?v)" by (simp add: sealed_value_def)
  have v': "validate X (sort_json ?v) snapshot_schema_id registry = Inr ()"
    using v by (simp add: validate_sort [OF w(1)])
  have c': "canon_json (sort_json ?v) = Inr c" using c by simp
  show ?thesis
    unfolding verify_snapshot_value_def v' dg get ok i at(2) c' bindE_simps using dict by simp
qed

lemma built_items_wf:
  assumes "freeze_items frozen ds 0 acquired [] = Inr (its, seen)" "\<forall>a \<in> set acquired. wf_json a"
    "wf_json at" "declarations_of pinned = Inr ds"
  shows "\<forall>i \<in> set (its @ missing_items at seen (length its) ds). wf_json i"
  using freeze_items_wf [OF assms(1,2)] missing_items_wf [OF assms(3) declarations_wf [OF assms(4)]] by auto

section \<open>The depth of a sealed snapshot\<close>

definition option_depth :: "json option \<Rightarrow> nat" where
  "option_depth v = (case v of None \<Rightarrow> 0 | Some w \<Rightarrow> jdepth w)"

lemma item_depth:
  "is_str i \<Longrightarrow> is_str st \<Longrightarrow> is_str at \<Longrightarrow> jdepth (item_of i n st at v) = Suc (option_depth v)"
  by (cases i; cases st; cases at) (auto simp: item_of_def option_depth_def split: option.split)

lemma admitted_item_depth:
  assumes "item = item_of i n st at v" "item_admitted frozen k item name" "is_str st"
  shows "jdepth item = Suc (option_depth (get_lit item ''value''))"
proof -
  from assms(1,2) have "i = JStr name" "\<exists>t. instant_of at = Inr t"
    by (auto simp: item_admitted_def item_of_get)
  then have "is_str i" "is_str at" using instant_of_text by force+
  then show ?thesis using item_depth assms(1,3) by (simp add: item_of_get)
qed

lemma freeze_items_depth:
  assumes "freeze_items frozen ds position acqs seen = Inr (its, all)"
  shows "list_all2 (\<lambda>item a. jdepth item = Suc (option_depth (get_lit a ''value''))) its acqs"
  using assms
proof (induction acqs arbitrary: position seen its)
  case (Cons a acqs)
  then obtain item name rest where f: "freeze_item frozen ds position a seen = Inr (item, name)"
    "freeze_items frozen ds (Suc position) acqs (seen @ [name]) = Inr (rest, all)" "its = item # rest"
    by (auto simp: bindE_Inr_iff)
  from freeze_item_Inr [OF f(1)] obtain status at where
    i: "item = item_of (JStr name) position status at (get_lit a ''value'')"
    "get_lit a ''status'' = Some status" "item_admitted frozen position item name"
    by blast
  have "check_acquisition_shape a = Inr ()" using f(1) by (auto simp: freeze_item_def bindE_Inr_iff)
  then obtain n st where "get_lit a ''status'' = Some st" "is_one_of st item_statuses" by (rule shape_Inr)
  with i(2) have "is_str status" by (simp add: is_one_of_def)
  from admitted_item_depth [OF i(1,3) this] have "jdepth item = Suc (option_depth (get_lit a ''value''))"
    by (simp add: i(1) item_of_get)
  with Cons.IH [OF f(2)] f(3) show ?case by simp
qed simp

lemma missing_items_depth:
  "is_str at \<Longrightarrow> \<forall>item \<in> set (missing_items at seen n ds). jdepth item = 1"
proof (induction ds arbitrary: n)
  case (Cons p ds)
  then show ?case
    using item_depth [of "JStr (fst p)" "JStr (lit ''missing'')" at n None]
    by (cases p) (auto simp: option_depth_def)
qed simp

lemma sealed_depth:
  assumes "is_str sid" "is_str at"
  shows "jdepth (sealed_value sid rd at its d) = Suc (Suc (foldr max (map jdepth its) 0))"
  using assms by (cases sid; cases at) (simp_all add: sealed_value_def snapshot_payload_def)

lemma snapshot_reload_depth:
  assumes "build_snapshot X pinned sid at (JList acquired) registry = Inr s"
    and "hash_text_ok X" "wf_str (rb_digest pinned)" "wf_json sid" "wf_json at" "wf_json (JList acquired)"
  shows "if list_all (\<lambda>a. option_depth (get_lit a ''value'') \<le> 61) acquired
     then returned (snapshot_value s) else snapshot_value s = Inl too_deep"
proof -
  from assms(1) obtain ds its seen frozen d where b: "is_str sid"
    "instant_of at = Inr frozen" "declarations_of pinned = Inr ds"
    "freeze_items frozen ds 0 acquired [] = Inr (its, seen)"
    "digest (sha256_hex X) (snapshot_payload sid (rb_digest pinned) at
        (its @ missing_items at seen (length its) ds)) = Inr d"
    "canon_json (sealed_value sid (rb_digest pinned) at (its @ missing_items at seen (length its) ds) d)
       = Inr (sn_canonical s)"
    by (rule build_snapshot_Inr) auto
  let ?its = "its @ missing_items at seen (length its) ds"
  have at: "is_str at" using instant_of_text [OF b(2)] by auto
  have w: "\<forall>i \<in> set ?its. wf_json i" "wf_str d"
    using built_items_wf [OF b(4) _ assms(5) b(3)] assms(6) digest_wf [OF assms(2) b(5)] by auto
  have "jdepth (sealed_value sid (rb_digest pinned) at ?its d) \<le> max_depth
      \<longleftrightarrow> (\<forall>i \<in> set ?its. jdepth i \<le> 62)"
    using foldr_max_le_iff [of "map jdepth ?its" 62]
    unfolding sealed_depth [OF b(1) at] max_depth_def set_map by (simp del: foldr_append map_append set_append)
  also have "\<dots> \<longleftrightarrow> (\<forall>i \<in> set its. jdepth i \<le> 62)" using missing_items_depth [OF at] by auto
  also have "\<dots> \<longleftrightarrow> list_all (\<lambda>a. option_depth (get_lit a ''value'') \<le> 61) acquired"
    using freeze_items_depth [OF b(4)] by (induction its acquired rule: list_all2_induct) auto
  finally show ?thesis
    using reload_canonical [OF _ b(6)] payload_wf [OF assms(4,3,5) w] by (simp add: snapshot_value_def)
qed

section \<open>Properties\<close>

text \<open>
  C28. Building and verifying agree: the value that a sealed snapshot reloads to passes
  verification against the same rulebook, and yields the same snapshot.
\<close>

theorem built_snapshot_verifies:
  assumes "build_snapshot X pinned sid at acqs registry = Inr s" "snapshot_value s = Inr v"
    and "hash_text_ok X" "wf_str (rb_digest pinned)" "wf_json sid" "wf_json at" "wf_json acqs"
  shows "verify_snapshot_value X v pinned registry = Inr s"
proof -
  from assms(1) obtain acquired ds its seen frozen d where b: "acqs = JList acquired" "is_str sid"
    "instant_of at = Inr frozen" "adopted_by pinned at = Inr ()" "declarations_of pinned = Inr ds"
    "freeze_items frozen ds 0 acquired [] = Inr (its, seen)"
    "items_admitted ds frozen (its @ missing_items at seen (length its) ds)"
    "digest (sha256_hex X) (snapshot_payload sid (rb_digest pinned) at
        (its @ missing_items at seen (length its) ds)) = Inr d"
    "validate X (sealed_value sid (rb_digest pinned) at (its @ missing_items at seen (length its) ds) d)
       snapshot_schema_id registry = Inr ()"
    "canon_json (sealed_value sid (rb_digest pinned) at (its @ missing_items at seen (length its) ds) d)
       = Inr (sn_canonical s)"
    "sn_digest s = JStr d" "sn_frozen_at s = at" "sn_id s = sid"
    by (rule build_snapshot_Inr)
  let ?its = "its @ missing_items at seen (length its) ds"
  have w: "\<forall>i \<in> set ?its. wf_json i" "wf_str d"
    using built_items_wf [OF b(6) _ assms(6) b(5)] assms(7) b(1) digest_wf [OF assms(3) b(8)] by auto
  have "wf_json (sealed_value sid (rb_digest pinned) at ?its d)"
    using payload_wf [OF assms(5,4,6) w] by simp
  with assms(2) b(10) have "v = sort_json (sealed_value sid (rb_digest pinned) at ?its d)"
    using reload_canonical [OF _ b(10)] by (auto simp: snapshot_value_def split: if_split_asm)
  moreover have "\<lparr>sn_canonical = sn_canonical s, sn_digest = JStr d, sn_frozen_at = at, sn_id = sid\<rparr> = s"
    using b(11-13) by simp
  ultimately show ?thesis
    using sealed_verifies [OF assms(5,4) w assms(6) b(3,4,2,5,7,8,9,10)] by simp
qed

text \<open>
  C37. A sealed snapshot reloads exactly when every recorded value nests at most 61 levels, three below
  the bound of the loader: the builder and the schema put no bound on the nesting of a recorded value,
  so a value of 62 to 64 levels, which the adapters accept, is sealed into a snapshot whose
  \<open>value()\<close> fails.
\<close>

theorem snapshot_reloads_iff:
  assumes "build_snapshot X pinned sid at (JList acquired) registry = Inr s"
    and "hash_text_ok X" "wf_str (rb_digest pinned)" "wf_json sid" "wf_json at" "wf_json (JList acquired)"
  shows "if list_all (\<lambda>a. option_depth (get_lit a ''value'') \<le> 61) acquired
     then returned (snapshot_value s) else snapshot_value s = Inl too_deep"
  by (rule snapshot_reload_depth [OF assms])

text \<open>
  C29. Verification trusts nothing the snapshot carries. It accepts exactly the dictionaries that meet
  the schema, whose recomputed digest and rulebook digest are the ones they name, whose freeze is not
  before the adoption of the rulebook, and whose items are in order, declared, distinct, not acquired
  after the freeze, with every required declaration present; and it returns their canonical text.
\<close>

theorem verify_snapshot_iff:
  "verify_snapshot_value X v pinned registry = Inr s \<longleftrightarrow>
     is_dict v \<and> validate X v snapshot_schema_id registry = Inr () \<and>
     (\<exists>d. digest (sha256_hex X) (json_without ''snapshot_digest'' v) = Inr d \<and> sn_digest s = JStr d) \<and>
     get_lit v ''snapshot_digest'' = Some (sn_digest s) \<and>
     get_lit v ''rulebook_digest'' = Some (JStr (rb_digest pinned)) \<and>
     get_lit v ''frozen_at'' = Some (sn_frozen_at s) \<and> get_lit v ''snapshot_id'' = Some (sn_id s) \<and>
     rulebook_applies pinned (sn_frozen_at s) = Inr True \<and>
     (\<exists>frozen ds its. instant_of (sn_frozen_at s) = Inr frozen \<and> declarations_of pinned = Inr ds \<and>
        items_of v ''items'' = Inr its \<and> items_admitted ds frozen its) \<and>
     canon_json v = Inr (sn_canonical s)"
proof -
  have a: "adopted_by pinned at = Inr z \<longleftrightarrow> rulebook_applies pinned at = Inr True" for at z
    by (auto simp: adopted_by_def bindE_Inr_iff split: if_split_asm)
  have s: "s = \<lparr>sn_canonical = c, sn_digest = e, sn_frozen_at = at, sn_id = i\<rparr> \<longleftrightarrow>
      sn_canonical s = c \<and> sn_digest s = e \<and> sn_frozen_at s = at \<and> sn_id s = i" for c e at i
    by (cases s) auto
  have "verify_snapshot_value X v pinned registry = Inr s \<longleftrightarrow>
    is_dict v \<and> validate X v snapshot_schema_id registry = Inr () \<and>
    (\<exists>d. digest (sha256_hex X) (json_without ''snapshot_digest'' v) = Inr d \<and>
       get_lit v ''snapshot_digest'' = Some (JStr d) \<and>
       get_lit v ''rulebook_digest'' = Some (JStr (rb_digest pinned)) \<and>
       (\<exists>at frozen c i. get_lit v ''frozen_at'' = Some at \<and> instant_of at = Inr frozen \<and>
          adopted_by pinned at = Inr () \<and> check_items pinned frozen v = Inr () \<and>
          canon_json v = Inr c \<and> get_lit v ''snapshot_id'' = Some i \<and>
          s = \<lparr>sn_canonical = c, sn_digest = JStr d, sn_frozen_at = at, sn_id = i\<rparr>))"
    unfolding verify_snapshot_value_def
    by (auto simp: bindE_Inr_iff subscript_Inr_iff instant_or_Inr_iff split: if_split_asm)
  then show ?thesis unfolding a check_items_iff s by auto
qed

section \<open>Witnesses\<close>

definition sample_acquisition :: "json \<Rightarrow> json" where
  "sample_acquisition v =
     JDict [(lit ''id'', JStr (lit ''a'')), (lit ''status'', JStr (lit ''ok'')),
            (lit ''acquired_at'', JStr sample_instant), (lit ''value'', v)]"

lemma sample_declarations:
  "declarations_of sample_pinned = Inr [(lit ''a'', JDict [(lit ''id'', JStr (lit ''a''))])]"
proof -
  have e: "sort_json (JList [JDict [(lit ''id'', JStr (lit ''a''))]]) = JList [JDict [(lit ''id'', JStr (lit ''a''))]]"
    by simp
  have "items_of (sort_json sample_document) ''evidence'' = Inr [JDict [(lit ''id'', JStr (lit ''a''))]]"
    using subscript_sort [OF sample_document_ok(1), of "lit ''evidence''"]
    by (simp add: items_of_def sample_document_def e del: sort_json.simps)
  then show ?thesis by (simp add: declarations_of_def sample_value)
qed

lemma wf_zeros: "wf_str (replicate n 48)"
  by (simp add: wf_str_def list_all_iff)

lemma sample_build:
  assumes "wf_json v" "canon_ok v"
  shows "\<exists>s. build_snapshot sample_externals sample_pinned
     (JStr (lit ''s'')) (JStr sample_instant) (JList [sample_acquisition v]) sample_registry = Inr s"
proof -
  let ?r = "sample_pinned"
  let ?ds = "[(lit ''a'', JDict [(lit ''id'', JStr (lit ''a''))])]"
  let ?i = "item_of (JStr (lit ''a'')) 0 (JStr (lit ''ok'')) (JStr sample_instant) (Some v)"
  have ad: "adopted_by ?r (JStr sample_instant) = Inr ()"
    by (simp add: adopted_by_def rulebook_applies_def sample_pinned_def sample_instant_value)
  have fr: "freeze_items 1704067200000000000 ?ds 0 [sample_acquisition v] [] = Inr ([?i], [lit ''a''])"
    by (simp add: freeze_item_def check_acquisition_shape_def sample_acquisition_def acquisition_required_def
        acquisition_permitted_def keys_def is_one_of_def item_statuses_def check_status_and_value_def
        instant_or_def sample_instant_value Let_def)
  let ?p = "snapshot_payload (JStr (lit ''s'')) (rb_digest ?r) (JStr sample_instant) [?i]"
  let ?d = "lit ''sha256:'' @ replicate 64 48"
  have ok: "wf_json ?p" "canon_ok ?p"
    using assms by (simp_all add: snapshot_payload_def item_of_def keys_def sample_pinned_def wf_zeros no_surrogate_def list_all_iff
        is_surrogate_def lit_def sample_instant_def safe_int_def min_safe_integer_def max_safe_integer_def)
  then have dg: "digest (sha256_hex sample_externals) ?p = Inr ?d"
    using hex_digest_canonical(2) [of ?p "jtext ?p"] by (simp add: canon_json_iff sample_externals_def)
  let ?c = "JDict (dset (lit ''snapshot_digest'') (JStr ?d) (items ?p))"
  have c: "canon_json ?c = Inr (jtext ?c)"
    unfolding canon_json_iff using ok(2)
    by (simp add: snapshot_payload_def no_surrogate_def is_surrogate_def lit_def list_all_iff)
  have v: "validate sample_externals ?c snapshot_schema_id sample_registry = Inr ()"
    by (rule sample_registry_lookup [where c = SnapshotSchemaInvalid])
      (simp add: code_by_id_def snapshot_schema_id_def)
  have "sub_lit ?p ''frozen_at'' = Inr (JStr sample_instant)" "sub_lit ?p ''snapshot_id'' = Inr (JStr (lit ''s''))"
    by (simp_all add: snapshot_payload_def)
  then have "\<exists>s. seal sample_externals ?p sample_registry = Inr s"
    unfolding seal_def dg bindE_simps Let_def v c by simp
  moreover have "missing_items (JStr sample_instant) [lit ''a''] (length [?i]) ?ds = []" by simp
  ultimately show ?thesis
    unfolding build_snapshot_def
    by (simp add: instant_or_def sample_instant_value ad sample_declarations fr
        del: freeze_items.simps missing_items.simps)
qed

text \<open>A value of 62 levels is sealed, and its snapshot does not reload.\<close>

lemma nested_list: "wf_json (((\<lambda>v. JList [v]) ^^ n) JNull) \<and> canon_ok (((\<lambda>v. JList [v]) ^^ n) JNull) \<and>
    jdepth (((\<lambda>v. JList [v]) ^^ n) JNull) = n"
  by (induction n) auto

lemma sample_acquisition_wf: "wf_json v \<Longrightarrow> wf_json (sample_acquisition v)"
  by (simp add: sample_acquisition_def keys_def sample_instant_def)

lemma sample_wf: "wf_str (rb_digest sample_pinned)" "wf_json (JStr (lit ''s''))" "wf_json (JStr sample_instant)"
  by (simp_all add: sample_pinned_def sample_instant_def wf_zeros)

theorem snapshot_reloads_iff_witness:
  "\<exists>s. build_snapshot sample_externals sample_pinned
     (JStr (lit ''s'')) (JStr sample_instant) (JList [sample_acquisition (((\<lambda>v. JList [v]) ^^ 62) JNull)])
     sample_registry = Inr s \<and> snapshot_value s = Inl too_deep"
proof -
  let ?v = "((\<lambda>v. JList [v]) ^^ 62) JNull"
  note n = nested_list [of 62]
  obtain s where s: "build_snapshot sample_externals sample_pinned
     (JStr (lit ''s'')) (JStr sample_instant) (JList [sample_acquisition ?v]) sample_registry = Inr s"
    using sample_build n by blast
  have d: "option_depth (get_lit (sample_acquisition ?v) ''value'') = 62"
    using n by (simp add: option_depth_def sample_acquisition_def)
  have w: "wf_json (JList [sample_acquisition ?v])" using n by (simp add: sample_acquisition_wf)
  have "snapshot_value s = Inl too_deep"
    using snapshot_reloads_iff [OF s sample_hash sample_wf w] d by simp
  with s show ?thesis by blast
qed

theorem built_snapshot_verifies_witness:
  "\<exists>s v. snapshot_value s = Inr v \<and>
     verify_snapshot_value sample_externals v sample_pinned
       sample_registry = Inr s"
proof -
  have w0: "wf_json (JInt 7)" "canon_ok (JInt 7)"
    by (simp_all add: safe_int_def min_safe_integer_def max_safe_integer_def)
  obtain s where s: "build_snapshot sample_externals sample_pinned
     (JStr (lit ''s'')) (JStr sample_instant) (JList [sample_acquisition (JInt 7)]) sample_registry = Inr s"
    using sample_build [OF w0] by blast
  have w: "wf_json (JList [sample_acquisition (JInt 7)])" by (simp add: sample_acquisition_wf)
  have "option_depth (get_lit (sample_acquisition (JInt 7)) ''value'') \<le> 61"
    by (simp add: option_depth_def sample_acquisition_def)
  with snapshot_reload_depth [OF s sample_hash sample_wf w] obtain v where v: "snapshot_value s = Inr v"
    by (auto simp: returned_iff)
  show ?thesis
    using v built_snapshot_verifies [OF s v sample_hash sample_wf w] by blast
qed

end
