(* ===== verification/Glob.thy ===== *)
theory Glob
  imports Prelude
begin

text \<open>
  The portable glob of \<^verbatim>\<open>src/vfy/gate.py\<close>: \<open>_glob\<close> with its four loop variables,
  \<open>_single\<close>, \<open>_class_end\<close> and \<open>_in_class\<close>, by position in the pattern as the code has them. The
  loop takes fuel; \<open>glob_fuel\<close> is the bound \<open>|pattern| x |text|\<close> that its
  documentation claims, up to a constant. The specification reads the pattern once into elements and
  tries every split at every star; the loop, which remembers only the last star, is equivalent.
\<close>

section \<open>The code\<close>

definition class_end :: "ustr \<Rightarrow> nat \<Rightarrow> nat option" where
  "class_end pattern start =
     (let i = start + 1;
          i = (if i < length pattern \<and> pattern ! i = 33 then i + 1 else i);
          i = (if i < length pattern \<and> pattern ! i = 93 then i + 1 else i);
          i = i + length (takeWhile (\<lambda>c. c \<noteq> 93) (drop i pattern))
      in if i < length pattern then Some i else None)"

text \<open>The loop of \<open>_in_class\<close> from the character at \<open>index\<close> on.\<close>

fun class_loop :: "ustr \<Rightarrow> nat \<Rightarrow> bool \<Rightarrow> bool" where
  "class_loop (a # b # c # rest) character matched =
     (if b = 45 then class_loop rest character (if a \<le> character \<and> character \<le> c then True else matched)
      else class_loop (b # c # rest) character (if a = character then True else matched))"
| "class_loop (a # rest) character matched =
     class_loop rest character (if a = character then True else matched)"
| "class_loop [] character matched = matched"

definition in_class :: "ustr \<Rightarrow> nat \<Rightarrow> bool" where
  "in_class body character =
     (let negated = (take 1 body = [33]);
          body = (if negated then tl body else body)
      in class_loop body character False \<noteq> negated)"

definition single :: "ustr \<Rightarrow> nat \<Rightarrow> nat \<Rightarrow> nat option" where
  "single pattern position character =
     (let marker = pattern ! position
      in if marker = 42 then None
         else if marker = 63 then Some (position + 1)
         else if marker = 91
         then (case class_end pattern position of
                 None \<Rightarrow> if character = 91 then Some (position + 1) else None
               | Some e \<Rightarrow>
                   if in_class (drop (position + 1) (take e pattern)) character
                   then Some (e + 1) else None)
         else if character = marker then Some (position + 1) else None)"

text \<open>\<open>star\<close> is \<open>None\<close> for -1, and else the last star with \<open>resume\<close>.\<close>

fun glob_loop :: "nat \<Rightarrow> ustr \<Rightarrow> ustr \<Rightarrow> nat \<Rightarrow> nat \<Rightarrow> (nat \<times> nat) option \<Rightarrow> bool option" where
  "glob_loop 0 pattern txt position consumed star = None"
| "glob_loop (Suc fuel) pattern txt position consumed star =
     (if consumed < length txt
      then (case (if position < length pattern then single pattern position (txt ! consumed) else None) of
              Some step \<Rightarrow> glob_loop fuel pattern txt step (consumed + 1) star
            | None \<Rightarrow>
                if position < length pattern \<and> pattern ! position = 42
                then glob_loop fuel pattern txt (position + 1) consumed (Some (position, consumed))
                else (case star of
                        None \<Rightarrow> Some False
                      | Some (s, resume) \<Rightarrow>
                          glob_loop fuel pattern txt (s + 1) (resume + 1) (Some (s, resume + 1))))
      else Some (position + length (takeWhile (\<lambda>c. c = 42) (drop position pattern)) = length pattern))"

definition glob_fuel :: "ustr \<Rightarrow> ustr \<Rightarrow> nat" where
  "glob_fuel pattern txt = (length txt + 2) * (length pattern + 2) + length pattern + 2"

definition glob :: "ustr \<Rightarrow> ustr \<Rightarrow> bool option" where
  "glob pattern txt = glob_loop (glob_fuel pattern txt) pattern txt 0 0 None"

section \<open>The specification\<close>

datatype element = Star | AnyChar | Exactly nat | Class bool "(nat \<times> nat) list"

fun ranges :: "ustr \<Rightarrow> (nat \<times> nat) list" where
  "ranges (a # b # c # rest) =
     (if b = 45 then (a, c) # ranges rest else (a, a) # ranges (b # c # rest))"
| "ranges (a # rest) = (a, a) # ranges rest"
| "ranges [] = []"

definition class_element :: "ustr \<Rightarrow> element" where
  "class_element body =
     (case body of
        c # r \<Rightarrow> if c = 33 then Class True (ranges r) else Class False (ranges body)
      | [] \<Rightarrow> Class False [])"

function elements :: "ustr \<Rightarrow> element list" where
  "elements [] = []"
| "elements (c # r) =
     (if c = 42 then Star # elements r
      else if c = 63 then AnyChar # elements r
      else if c = 91
      then (case class_end (c # r) 0 of
              None \<Rightarrow> Exactly 91 # elements r
            | Some e \<Rightarrow> class_element (take (e - 1) r) # elements (drop e r))
      else Exactly c # elements r)"
  by pat_completeness auto
termination by (relation "measure length") auto

fun admits :: "element \<Rightarrow> nat \<Rightarrow> bool" where
  "admits Star c = False"
| "admits AnyChar c = True"
| "admits (Exactly d) c = (c = d)"
| "admits (Class negated rs) c = ((\<exists>(lo, hi) \<in> set rs. lo \<le> c \<and> c \<le> hi) \<noteq> negated)"

fun matches_elements :: "element list \<Rightarrow> ustr \<Rightarrow> bool" where
  "matches_elements [] t = (t = [])"
| "matches_elements (Star # es) t = (\<exists>i \<le> length t. matches_elements es (drop i t))"
| "matches_elements (e # es) t = (case t of [] \<Rightarrow> False | c # r \<Rightarrow> admits e c \<and> matches_elements es r)"

section \<open>One element\<close>

lemma class_loop_ranges:
  "class_loop body c m \<longleftrightarrow> m \<or> (\<exists>(lo, hi) \<in> set (ranges body). lo \<le> c \<and> c \<le> hi)"
proof (induction body c m rule: class_loop.induct)
  case (1 a b d rest c m)
  then show ?case by (cases "b = 45") auto
qed auto

lemma in_class_element: "in_class body c \<longleftrightarrow> admits (class_element body) c"
  by (cases body) (auto simp: in_class_def class_element_def class_loop_ranges Let_def)

lemma class_end_bounds: "class_end pattern start = Some e \<Longrightarrow> start < e \<and> e < length pattern"
  by (auto simp: class_end_def Let_def split: if_splits)

lemma class_end_shift:
  assumes "start < length pattern"
  shows "class_end pattern start = map_option ((+) start) (class_end (drop start pattern) 0)"
proof -
  define q where "q = drop start pattern"
  have n: "start + i < length pattern \<longleftrightarrow> i < length q" "pattern ! (start + i) = q ! i"
    "drop (start + i) pattern = drop i q" for i
    using assms by (auto simp: q_def add.commute)
  let ?i1 = "if 0 + 1 < length q \<and> q ! (0 + 1) = 33 then 0 + 1 + 1 else 0 + 1"
  let ?i2 = "if ?i1 < length q \<and> q ! ?i1 = 93 then ?i1 + 1 else ?i1"
  let ?i3 = "?i2 + length (takeWhile (\<lambda>c. c \<noteq> 93) (drop ?i2 q))"
  have q: "class_end q 0 = (if ?i3 < length q then Some ?i3 else None)"
    unfolding class_end_def Let_def ..
  have e1: "(if start + 1 < length pattern \<and> pattern ! (start + 1) = 33 then start + 1 + 1 else start + 1) = start + ?i1"
    using n(1,2) [of "0 + 1"] by simp
  have e2: "(if start + ?i1 < length pattern \<and> pattern ! (start + ?i1) = 93 then start + ?i1 + 1 else start + ?i1) = start + ?i2"
    using n(1,2) [of ?i1] by simp
  have "class_end pattern start = (if start + ?i3 < length pattern then Some (start + ?i3) else None)"
    unfolding class_end_def Let_def e1 e2 n(3) by (simp add: add.assoc)
  with q n(1) [of ?i3] show ?thesis by (simp flip: q_def)
qed

lemma elements_star:
  "position < length pattern \<Longrightarrow> pattern ! position = 42 \<Longrightarrow>
     elements (drop position pattern) = Star # elements (drop (position + 1) pattern)"
  by (simp flip: Cons_nth_drop_Suc)

lemma elements_single:
  assumes "position < length pattern" "pattern ! position \<noteq> 42"
  obtains e q where "elements (drop position pattern) = e # elements (drop q pattern)" "e \<noteq> Star"
    "position < q" "q \<le> length pattern"
    "\<And>c. single pattern position c = (if admits e c then Some q else None)"
proof -
  define r where "r = drop (position + 1) pattern"
  have d: "drop position pattern = pattern ! position # r"
    using assms(1) by (simp add: r_def Cons_nth_drop_Suc)
  show ?thesis
  proof (cases "pattern ! position = 91")
    case False
    show ?thesis
    proof (cases "pattern ! position = 63")
      case True
      then show ?thesis
        using that [of AnyChar "position + 1"] assms d by (simp add: single_def r_def)
    next
      case q: False
      then show ?thesis
        using that [of "Exactly (pattern ! position)" "position + 1"] assms False d
        by (simp add: single_def r_def)
    qed
  next
    case True
    have shift: "class_end pattern position = map_option ((+) position) (class_end (91 # r) 0)"
      using class_end_shift [OF assms(1)] d True by simp
    show ?thesis
    proof (cases "class_end (91 # r) 0")
      case None
      then show ?thesis
        using that [of "Exactly 91" "position + 1"] assms True d shift by (simp add: single_def r_def)
    next
      case (Some e)
      have e: "0 < e" "e < length (91 # r)" using class_end_bounds [OF Some] by simp_all
      have len: "length r = length pattern - (position + 1)" by (simp add: r_def)
      have body: "drop (position + 1) (take (position + e) pattern) = take (e - 1) r"
        using e by (simp add: r_def drop_take)
      have rest: "drop e r = drop (position + e + 1) pattern" by (simp add: r_def add.commute)
      show ?thesis
      proof (rule that)
        show "elements (drop position pattern) = class_element (take (e - 1) r) # elements (drop (position + e + 1) pattern)"
          using d True Some rest by simp
        show "class_element (take (e - 1) r) \<noteq> Star"
          by (simp add: class_element_def split: list.splits)
        show "position < position + e + 1" "position + e + 1 \<le> length pattern"
          using e len assms(1) by simp_all
        show "single pattern position c = (if admits (class_element (take (e - 1) r)) c then Some (position + e + 1) else None)" for c
          using True shift Some body by (simp add: single_def in_class_element)
      qed
    qed
  qed
qed

section \<open>The loop\<close>

lemma matches_segment:
  assumes "Star \<notin> set seg"
  shows "matches_elements (seg @ es) t \<longleftrightarrow>
    length seg \<le> length t \<and> list_all2 admits seg (take (length seg) t) \<and>
    matches_elements es (drop (length seg) t)"
  using assms
proof (induction seg arbitrary: t)
  case (Cons e seg)
  then show ?case by (cases e; cases t) auto
qed simp

lemma matches_step: "e \<noteq> Star \<Longrightarrow> matches_elements (e # es) (c # t) = (admits e c \<and> matches_elements es t)"
  by (cases e) auto

lemma star_eats:
  assumes "matches_elements (Star # es) (drop k t)" "i \<le> k" "k \<le> length t"
  shows "matches_elements (Star # es) (drop i t)"
proof -
  from assms(1) obtain j where "j \<le> length (drop k t)" "matches_elements es (drop j (drop k t))" by auto
  then have "k - i + j \<le> length (drop i t)" "matches_elements es (drop (k - i + j) (drop i t))"
    using assms(2,3) by (simp_all add: add.commute)
  then show ?thesis by auto
qed

lemma stars_match_Nil:
  "matches_elements (elements p) [] \<longleftrightarrow> list_all (\<lambda>c. c = 42) p"
proof (induction p rule: elements.induct)
  case (2 c r)
  show ?case
  proof (cases "c = 42")
    case False
    then have "matches_elements (elements (c # r)) [] = False"
      by (auto simp: class_element_def split: option.splits list.splits)
    with False show ?thesis by simp
  qed (use 2 in simp)
qed simp

text \<open>
  The invariant: from the element after the last star to \<open>position\<close> there is a segment without
  stars, and it has consumed the text from \<open>resume\<close> to \<open>consumed\<close>. The remaining question is
  whether the pattern from \<open>position\<close> matches from \<open>consumed\<close>, or the last star can take more.
\<close>

fun star_inv :: "ustr \<Rightarrow> ustr \<Rightarrow> nat \<Rightarrow> nat \<Rightarrow> (nat \<times> nat) option \<Rightarrow> bool" where
  "star_inv p t position consumed None \<longleftrightarrow> True"
| "star_inv p t position consumed (Some (s, r)) \<longleftrightarrow>
     s < length p \<and> r \<le> consumed \<and>
     (\<exists>seg. Star \<notin> set seg \<and> length seg = consumed - r \<and>
        elements (drop (s + 1) p) = seg @ elements (drop position p))"

fun glob_meets :: "ustr \<Rightarrow> ustr \<Rightarrow> nat \<Rightarrow> nat \<Rightarrow> (nat \<times> nat) option \<Rightarrow> bool" where
  "glob_meets p t position consumed None \<longleftrightarrow> matches_elements (elements (drop position p)) (drop consumed t)"
| "glob_meets p t position consumed (Some (s, r)) \<longleftrightarrow>
     matches_elements (elements (drop position p)) (drop consumed t) \<or>
     (\<exists>k. r < k \<and> k \<le> length t \<and> matches_elements (elements (drop (s + 1) p)) (drop k t))"

fun potential :: "ustr \<Rightarrow> ustr \<Rightarrow> nat \<Rightarrow> (nat \<times> nat) option \<Rightarrow> nat" where
  "potential p t position None = (length t + 2) * (length p + 2) + (length p + 1 - position)"
| "potential p t position (Some (s, r)) = (length t + 1 - r) * (length p + 2) + (length p + 1 - position)"

lemma outcome_rest_absorbed:
  assumes "star_inv p t position consumed star" "position < length p" "p ! position = 42"
    and "consumed \<le> length t"
  shows "glob_meets p t position consumed star \<longleftrightarrow>
    matches_elements (elements (drop position p)) (drop consumed t)"
proof (cases star)
  case (Some sr)
  obtain s r where sr: "sr = (s, r)" by (cases sr)
  from assms(1) Some sr obtain seg where seg: "Star \<notin> set seg" "length seg = consumed - r"
    "elements (drop (s + 1) p) = seg @ elements (drop position p)" "r \<le> consumed" by auto
  have el: "elements (drop position p) = Star # elements (drop (position + 1) p)"
    using assms(2,3) by (rule elements_star)
  have "matches_elements (elements (drop position p)) (drop consumed t)"
    if k: "r < k" "k \<le> length t" "matches_elements (elements (drop (s + 1) p)) (drop k t)" for k
  proof -
    from k(3) seg(1-3) have l: "consumed - r \<le> length t - k"
      and m: "matches_elements (elements (drop position p)) (drop (consumed - r) (drop k t))"
      by (auto simp: matches_segment)
    from m have "matches_elements (elements (drop position p)) (drop (consumed - r + k) t)"
      by (simp add: add.commute)
    then show ?thesis
      unfolding el using k(1,2) l seg(4) by (elim star_eats) auto
  qed
  with Some sr show ?thesis by auto
qed simp

lemma trailing_stars:
  assumes "position \<le> length p"
  shows "list_all (\<lambda>c. c = 42) (drop position p) \<longleftrightarrow>
    position + length (takeWhile (\<lambda>c. c = 42) (drop position p)) = length p"
proof -
  let ?r = "drop position p"
  have "list_all (\<lambda>c. c = 42) ?r \<longleftrightarrow> takeWhile (\<lambda>c. c = 42) ?r = ?r"
    by (simp add: takeWhile_eq_all_conv list_all_iff)
  also have "\<dots> \<longleftrightarrow> length (takeWhile (\<lambda>c. c = 42) ?r) = length ?r"
    by (metis takeWhile_eq_take take_all order_refl)
  finally show ?thesis using assms by auto
qed

lemma potential_star:
  assumes "star_inv p t position consumed star" "position < length p"
  shows "potential p t (position + 1) (Some (position, consumed)) < potential p t position star"
proof (cases star)
  case None
  have "(length t + 1 - consumed) * (length p + 2) \<le> (length t + 2) * (length p + 2)"
    by (rule mult_le_mono1) simp
  then show ?thesis
    unfolding None potential.simps using assms(2) by linarith
next
  case (Some sr)
  obtain s r where sr: "sr = (s, r)" by (cases sr)
  with assms(1) Some have "r \<le> consumed" by simp
  then have "(length t + 1 - consumed) * (length p + 2) \<le> (length t + 1 - r) * (length p + 2)"
    by (intro mult_le_mono1) simp
  then show ?thesis
    unfolding Some sr potential.simps using assms(2) by linarith
qed

lemma potential_resume:
  assumes "r < length t"
  shows "potential p t (s + 1) (Some (s, r + 1)) < potential p t position (Some (s, r))"
proof -
  have "length t + 1 - r = Suc (length t - r)" using assms by simp
  then show ?thesis by simp
qed

lemma outcome_new_star:
  assumes "elements (drop position p) = Star # elements (drop (position + 1) p)" "consumed \<le> length t"
  shows "glob_meets p t (position + 1) consumed (Some (position, consumed)) \<longleftrightarrow>
    matches_elements (elements (drop position p)) (drop consumed t)"
proof -
  let ?M = "\<lambda>k. matches_elements (elements (drop (position + 1) p)) (drop k t)"
  have "matches_elements (elements (drop position p)) (drop consumed t) \<longleftrightarrow>
      (\<exists>i \<le> length t - consumed. ?M (i + consumed))"
    unfolding assms(1) by simp
  also have "\<dots> \<longleftrightarrow> ?M consumed \<or> (\<exists>k > consumed. k \<le> length t \<and> ?M k)" (is "?l \<longleftrightarrow> ?r")
  proof
    assume ?l
    then obtain i where i: "i \<le> length t - consumed" "?M (i + consumed)" by blast
    then have "?M consumed" if "i = 0" using that by simp
    moreover have "consumed < i + consumed \<and> i + consumed \<le> length t" if "i \<noteq> 0"
      using that i(1) assms(2) by simp
    ultimately show ?r using i(2) by blast
  next
    assume ?r
    then consider "?M consumed" | k where "consumed < k" "k \<le> length t" "?M k" by blast
    then show ?l
    proof cases
      case 1
      then show ?thesis by (intro exI [of _ 0]) simp
    next
      case 2
      then show ?thesis by (intro exI [of _ "k - consumed"]) simp
    qed
  qed
  finally show ?thesis by simp
qed

lemma ex_above_split:
  "r < n \<Longrightarrow> (\<exists>k > r. k \<le> n \<and> Q k) \<longleftrightarrow> Q (r + 1) \<or> (\<exists>k > r + 1. k \<le> n \<and> Q k)" for r n :: nat
  by (metis Suc_eq_plus1 Suc_lessI Suc_lessD Suc_leI lessI)

lemma outcome_resume:
  assumes "r < length t"
  shows "glob_meets p t (s + 1) (r + 1) (Some (s, r + 1)) \<longleftrightarrow>
    (\<exists>k. r < k \<and> k \<le> length t \<and> matches_elements (elements (drop (s + 1) p)) (drop k t))"
  unfolding glob_meets.simps
  using ex_above_split [OF assms, of "\<lambda>k. matches_elements (elements (drop (s + 1) p)) (drop k t)"]
  by argo

lemma outcome_cong:
  "matches_elements (elements (drop q p)) (drop c t) = matches_elements (elements (drop q' p)) (drop c' t) \<Longrightarrow>
     glob_meets p t q c star = glob_meets p t q' c' star"
  by (cases star) auto

lemma star_inv_step:
  assumes "star_inv p t position consumed star"
    and "elements (drop position p) = e # elements (drop q p)" "e \<noteq> Star"
  shows "star_inv p t q (consumed + 1) star"
proof (cases star)
  case (Some sr)
  obtain s r where sr: "sr = (s, r)" by (cases sr)
  from assms(1) Some sr obtain seg where seg: "s < length p" "Star \<notin> set seg" "length seg = consumed - r"
    "elements (drop (s + 1) p) = seg @ elements (drop position p)" "r \<le> consumed" by auto
  then have "Star \<notin> set (seg @ [e])" "length (seg @ [e]) = consumed + 1 - r"
      "elements (drop (s + 1) p) = (seg @ [e]) @ elements (drop q p)"
    using assms(2,3) by auto
  with seg(1,5) Some sr show ?thesis unfolding Some sr star_inv.simps by (meson le_SucI Suc_eq_plus1 le_add1 order_trans)
qed simp

lemma glob_loop_correct:
  "star_inv p t position consumed star \<Longrightarrow> position \<le> length p \<Longrightarrow> consumed \<le> length t \<Longrightarrow>
     potential p t position star \<le> fuel \<Longrightarrow>
     glob_loop fuel p t position consumed star = Some (glob_meets p t position consumed star)"
proof (induction fuel arbitrary: position consumed star)
  case 0
  then show ?case by (cases star) (auto simp: not_le)
next
  case (Suc fuel)
  show ?case
  proof (cases "consumed < length t")
    case False
    then have c: "drop consumed t = []" "consumed = length t" using Suc.prems(3) by auto
    have "glob_meets p t position consumed star \<longleftrightarrow> matches_elements (elements (drop position p)) []"
      by (cases star) (use c Suc.prems(1) in \<open>auto simp: matches_segment\<close>)
    also have "\<dots> \<longleftrightarrow> position + length (takeWhile (\<lambda>c. c = 42) (drop position p)) = length p"
      unfolding stars_match_Nil using Suc.prems(2) by (rule trailing_stars)
    finally show ?thesis using False by simp
  next
    case more: True
    let ?rest = "drop consumed t"
    have dt: "?rest = t ! consumed # drop (consumed + 1) t"
      using more by (simp add: Cons_nth_drop_Suc)
    show ?thesis
    proof (cases "position < length p \<and> p ! position = 42")
      case True
      then have el: "elements (drop position p) = Star # elements (drop (position + 1) p)"
        by (intro elements_star) auto
      have "potential p t (position + 1) (Some (position, consumed)) \<le> fuel"
        using potential_star [OF Suc.prems(1)] True Suc.prems(4) by fastforce
      then have "glob_loop fuel p t (position + 1) consumed (Some (position, consumed)) =
          Some (glob_meets p t (position + 1) consumed (Some (position, consumed)))"
        using True more by (intro Suc.IH) auto
      moreover have "glob_meets p t (position + 1) consumed (Some (position, consumed)) \<longleftrightarrow>
          matches_elements (elements (drop position p)) ?rest"
        by (rule outcome_new_star [OF el Suc.prems(3)])
      ultimately show ?thesis
        using True more outcome_rest_absorbed [OF Suc.prems(1) _ _ Suc.prems(3)]
        by (simp add: single_def)
    next
      case no_star: False
      show ?thesis
      proof (cases "position < length p \<and> single p position (t ! consumed) \<noteq> None")
        case True
        then obtain e q where e: "elements (drop position p) = e # elements (drop q p)" "e \<noteq> Star"
          "position < q" "q \<le> length p" "single p position (t ! consumed) = Some q" "admits e (t ! consumed)"
          using elements_single [of position p] no_star by (metis option.distinct(1))
        have "glob_loop fuel p t q (consumed + 1) star = Some (glob_meets p t q (consumed + 1) star)"
        proof (rule Suc.IH)
          show "star_inv p t q (consumed + 1) star"
            by (rule star_inv_step [OF Suc.prems(1) e(1,2)])
          show "potential p t q star \<le> fuel"
            using Suc.prems(4) e(3,4) by (cases star) auto
        qed (use e(4) more in simp_all)
        moreover have "glob_meets p t q (consumed + 1) star = glob_meets p t position consumed star"
          using e(2,6) by (intro outcome_cong) (simp add: e(1) dt matches_step)
        ultimately show ?thesis using True more e(5) by simp
      next
        case False
        have dead: "\<not> matches_elements (elements (drop position p)) ?rest"
        proof (cases "position < length p")
          case True
          with no_star obtain e q where "elements (drop position p) = e # elements (drop q p)" "e \<noteq> Star"
            "single p position (t ! consumed) = (if admits e (t ! consumed) then Some q else None)"
            using elements_single [of position p] by metis
          with False True dt show ?thesis by (auto simp: matches_step split: if_splits)
        qed (use more in simp)
        show ?thesis
        proof (cases star)
          case None
          then show ?thesis using False no_star dead more by auto
        next
          case (Some sr)
          obtain s r where sr: "sr = (s, r)" by (cases sr)
          have inv: "s < length p" "r \<le> consumed" using Suc.prems(1) Some sr by auto
          have "glob_loop fuel p t (s + 1) (r + 1) (Some (s, r + 1)) =
              Some (glob_meets p t (s + 1) (r + 1) (Some (s, r + 1)))"
          proof (rule Suc.IH)
            show "potential p t (s + 1) (Some (s, r + 1)) \<le> fuel"
              using potential_resume [of r t p s position] inv more Suc.prems(4) Some sr by simp
          qed (use inv more in auto)
          moreover have "glob_meets p t (s + 1) (r + 1) (Some (s, r + 1)) = glob_meets p t position consumed star"
            using outcome_resume [of r t p s] inv more dead Some sr by simp
          ultimately show ?thesis using False no_star Some sr more by auto
        qed
      qed
    qed
  qed
qed

lemma glob_decides: "glob p t = Some (matches_elements (elements p) t)"
  using glob_loop_correct [of p t 0 0 None "glob_fuel p t"]
  by (simp add: glob_def glob_fuel_def)

section \<open>Property\<close>

text \<open>
  C22. The loop of \<open>_glob\<close> ends within \<open>glob_fuel\<close> rounds, a bound proportional to the product
  of the two lengths, and its answer is the declarative meaning of the pattern: remembering only the
  last star loses no match.
\<close>

theorem glob_correct: "glob p t = Some (matches_elements (elements p) t)"
  by (rule glob_decides)

end
