(* ===== verification/Gate.thy ===== *)
theory Gate
  imports Snapshot Decimal Glob
begin

text \<open>
  \<^verbatim>\<open>src/vfy/gate.py\<close>: the evaluator. The tree that \<open>ast()\<close> rebuilds is the \<open>node\<close> of the parsed
  expression (theory \<open>Grammar\<close>); \<open>ABSENT\<close> is \<open>None\<close>, and the sentinel \<open>UNSETTLED\<close>, which the code
  compares by identity, is a constructor of its own. The causes that a context collects are passed from
  step to step.
\<close>

section \<open>Exact values\<close>

function (sequential) value_equal :: "json \<Rightarrow> json \<Rightarrow> bool" where
  "value_equal (JList vs) (JList ws) =
     (length vs = length ws \<and> (\<forall>(v, w) \<in> set (zip vs ws). value_equal v w))"
| "value_equal (JDict d) (JDict e) = py_eq (JDict d) (JDict e)"
| "value_equal (JBool a) (JBool b) = (a = b)"
| "value_equal (JInt a) (JInt b) = (a = b)"
| "value_equal (JStr a) (JStr b) = (a = b)"
| "value_equal JNull JNull = True"
| "value_equal _ _ = False"
  by pat_completeness auto
termination
proof (relation "measure (\<lambda>(v, w). size v)", goal_cases)
  case (2 vs ws x v w)
  then have "v \<in> set vs" by (auto dest: set_zip_leftD)
  then show ?case by (auto dest: size_list_estimation' [where f = size, OF _ order_refl])
qed auto

fun gate_equal :: "json option \<Rightarrow> json option \<Rightarrow> bool" where
  "gate_equal None None = True"
| "gate_equal (Some v) (Some w) = value_equal v w"
| "gate_equal _ _ = False"

section \<open>Contexts and causes\<close>

datatype truth = TrueT | FalseT | UnsettledT

fun truth_text :: "truth \<Rightarrow> ustr" where
  "truth_text TrueT = lit ''true''"
| "truth_text FalseT = lit ''false''"
| "truth_text UnsettledT = lit ''unsettled''"

abbreviation truth_of :: "bool \<Rightarrow> truth" where
  "truth_of b \<equiv> (if b then TrueT else FalseT)"

text \<open>A cause: its code and, for evidence, the identifier. \<open>entry not in causes\<close> compares dictionaries.\<close>

type_synonym cause = "ustr \<times> json option"

fun same_cause :: "cause \<Rightarrow> cause \<Rightarrow> bool" where
  "same_cause (c, Some i) (d, Some j) = (c = d \<and> py_eq i j)"
| "same_cause (c, None) (d, None) = (c = d)"
| "same_cause _ _ = False"

definition note_cause :: "string \<Rightarrow> json option \<Rightarrow> cause list \<Rightarrow> cause list" where
  "note_cause code identifier causes =
     (if list_ex (same_cause (lit code, identifier)) causes then causes
      else causes @ [(lit code, identifier)])"

record gate_context =
  cx_rulebook :: json
  cx_candidate :: json
  cx_declarations :: "(ustr \<times> json) list"
  cx_items :: "(ustr \<times> json) list"
  cx_frozen_at :: int

definition make_context :: "json \<Rightarrow> json \<Rightarrow> json \<Rightarrow> exn + gate_context" where
  "make_context rulebook_val candidate snapshot =
     bindE (items_of rulebook_val ''evidence'') (\<lambda>evidence.
     bindE (index_by_id evidence []) (\<lambda>declarations.
     bindE (items_of snapshot ''items'') (\<lambda>its.
     bindE (index_by_id its []) (\<lambda>by_id.
     bindE (sub_lit snapshot ''frozen_at'') (\<lambda>frozen_at.
     bindE (instant_of frozen_at) (\<lambda>frozen.
     Inr \<lparr>cx_rulebook = rulebook_val, cx_candidate = candidate, cx_declarations = declarations,
          cx_items = by_id, cx_frozen_at = frozen\<rparr>))))))"

section \<open>Operands\<close>

datatype resolved = Unsettled | Found "json option"

fun descend :: "json option \<Rightarrow> segment list \<Rightarrow> json option" where
  "descend v [] = v"
| "descend None (s # segments) = None"
| "descend (Some v) (Member name # segments) = descend (dict_get v name) segments"
| "descend (Some v) (Index i # segments) =
     (case v of
        JList vs \<Rightarrow> if i \<ge> int (length vs) then None else descend (Some (vs ! nat i)) segments
      | _ \<Rightarrow> None)"

definition is_ok :: "json \<Rightarrow> exn + bool" where
  "is_ok item = bindE (sub_lit item ''status'') (\<lambda>status. Inr (status = JStr (lit ''ok'')))"

definition item_ok :: "gate_context \<Rightarrow> ustr \<Rightarrow> exn + bool" where
  "item_ok cx identifier =
     (case map_of (cx_items cx) identifier of None \<Rightarrow> Inr False | Some item \<Rightarrow> is_ok item)"

type_synonym 'a step = "cause list \<Rightarrow> exn + 'a \<times> cause list"

definition resolve_evidence :: "gate_context \<Rightarrow> ustr \<Rightarrow> segment list \<Rightarrow> resolved step" where
  "resolve_evidence cx identifier segments causes =
     bindE (item_ok cx identifier) (\<lambda>ok.
       case (if ok then Option.bind (map_of (cx_items cx) identifier) (\<lambda>item. get_lit item ''value'') else None) of
         Some v \<Rightarrow> Inr (Found (descend (Some v) segments), causes)
       | None \<Rightarrow> Inr (Unsettled, note_cause ''evidence_unsettled'' (Some (JStr identifier)) causes))"

definition resolve :: "gate_context \<Rightarrow> node \<Rightarrow> resolved step" where
  "resolve cx n causes =
     (case n of
        Literal v \<Rightarrow> Inr (Found (Some v), causes)
      | Path root segments \<Rightarrow>
          if root = lit ''evidence''
          then (case segments of
                  Member identifier # others \<Rightarrow> resolve_evidence cx identifier others causes
                | Index i # others \<Rightarrow> Inl (PyErr PyKeyError (lit ''member''))
                | [] \<Rightarrow> Inl (PyErr PyIndexError (lit ''list index out of range'')))
          else if root = lit ''identity''
          then Inr (Found (descend (get_lit (cx_candidate cx) ''identity'') segments), causes)
          else Inr (Found (descend (Some (cx_candidate cx)) segments), causes)
      | _ \<Rightarrow> Inl (PyErr PyKeyError (lit ''root'')))"

section \<open>Freshness\<close>

definition is_fresh :: "gate_context \<Rightarrow> ustr \<Rightarrow> exn + bool" where
  "is_fresh cx identifier =
     bindE (item_ok cx identifier) (\<lambda>ok.
       if \<not> ok then Inr False
       else
         let declaration = (case map_of (cx_declarations cx) identifier of None \<Rightarrow> JDict [] | Some d \<Rightarrow> d)
         in (case get_lit declaration ''max_age_seconds'' of
               None \<Rightarrow> Inr True
             | Some max_age \<Rightarrow>
                 bindE (case map_of (cx_items cx) identifier of
                          None \<Rightarrow> Inl (PyErr PyKeyError identifier)
                        | Some item \<Rightarrow> bindE (sub_lit item ''acquired_at'') instant_of) (\<lambda>acquired.
                 case num_of max_age of
                   None \<Rightarrow> Inl (PyErr PyTypeError (lit ''unsupported operand''))
                 | Some seconds \<Rightarrow> Inr (cx_frozen_at cx - acquired \<le> seconds * nanos_per_second))))"

section \<open>Expressions\<close>

definition settle_order :: "ustr \<Rightarrow> int \<Rightarrow> bool" where
  "settle_order operator order =
     (if operator = lit ''<'' then order < 0
      else if operator = lit ''<='' then order \<le> 0
      else if operator = lit ''>'' then order > 0
      else order \<ge> 0)"

definition evaluate_compare :: "gate_context \<Rightarrow> ustr \<Rightarrow> node \<Rightarrow> node \<Rightarrow> truth step" where
  "evaluate_compare cx operator left right causes =
     bindE (resolve cx left causes) (\<lambda>(l, causes).
     bindE (resolve cx right causes) (\<lambda>(r, causes).
       case (l, r) of
         (Found v, Found w) \<Rightarrow>
           if operator \<in> {lit ''=='', lit ''!=''}
           then Inr (truth_of (if operator = lit ''=='' then gate_equal v w else \<not> gate_equal v w), causes)
           else (case Option.bind v (\<lambda>a. Option.bind w (compare_numeric a)) of
                   None \<Rightarrow> Inr (UnsettledT, note_cause ''operand_unsettled'' None causes)
                 | Some order \<Rightarrow> Inr (truth_of (settle_order operator order), causes))
       | _ \<Rightarrow> Inr (UnsettledT, causes)))"

definition evaluate_membership :: "gate_context \<Rightarrow> ustr \<Rightarrow> node \<Rightarrow> json list \<Rightarrow> truth step" where
  "evaluate_membership cx operator n members causes =
     bindE (resolve cx n causes) (\<lambda>(v, causes).
       case v of
         Unsettled \<Rightarrow> Inr (UnsettledT, causes)
       | Found w \<Rightarrow>
           let found = list_ex (\<lambda>m. gate_equal w (Some m)) members
           in Inr (truth_of (if operator = lit ''in'' then found else \<not> found), causes))"

definition evaluate_matches :: "gate_context \<Rightarrow> node \<Rightarrow> ustr \<Rightarrow> truth step" where
  "evaluate_matches cx n pat causes =
     bindE (resolve cx n causes) (\<lambda>(v, causes).
       case v of
         Unsettled \<Rightarrow> Inr (UnsettledT, causes)
       | Found None \<Rightarrow> Inr (FalseT, causes)
       | Found (Some (JStr s)) \<Rightarrow>
           (case glob pat s of Some b \<Rightarrow> Inr (truth_of b, causes) | None \<Rightarrow> Inl out_of_fuel)
       | Found (Some _) \<Rightarrow> Inr (UnsettledT, note_cause ''operand_unsettled'' None causes))"

text \<open>\<open>[_evaluate_node(...) for operand in operands]\<close>: every operand, left to right.\<close>

fun each_state :: "('a \<Rightarrow> truth step) \<Rightarrow> 'a list \<Rightarrow> truth list step" where
  "each_state f [] causes = Inr ([], causes)"
| "each_state f (x # xs) causes =
     bindE (f x causes) (\<lambda>(state, causes).
     bindE (each_state f xs causes) (\<lambda>(states, causes). Inr (state # states, causes)))"

lemma each_state_cong [fundef_cong]:
  "xs = ys \<Longrightarrow> (\<And>x c. x \<in> set ys \<Longrightarrow> f x c = g x c) \<Longrightarrow> c = d \<Longrightarrow> each_state f xs c = each_state g ys d"
  by (induction ys arbitrary: xs c d) (auto intro!: bindE_cong)

definition combine :: "bool \<Rightarrow> truth list \<Rightarrow> truth" where
  "combine all_true states =
     (if UnsettledT \<in> set states then UnsettledT
      else truth_of (if all_true then list_all (\<lambda>s. s = TrueT) states else list_ex (\<lambda>s. s = TrueT) states))"

definition unknown_node :: "string \<Rightarrow> exn + 'a" where
  "unknown_node kind = Inl (PyErr PyAssertionError (lit ''unknown node type: '' @ lit kind))"

fun evaluate_node :: "gate_context \<Rightarrow> node \<Rightarrow> truth step" where
  "evaluate_node cx (And_node ns) causes =
     bindE (each_state (evaluate_node cx) ns causes) (\<lambda>(states, causes). Inr (combine True states, causes))"
| "evaluate_node cx (Or_node ns) causes =
     bindE (each_state (evaluate_node cx) ns causes) (\<lambda>(states, causes). Inr (combine False states, causes))"
| "evaluate_node cx (Not_node n) causes =
     bindE (evaluate_node cx n causes) (\<lambda>(inner, causes).
       Inr (if inner = UnsettledT then UnsettledT else if inner = TrueT then FalseT else TrueT, causes))"
| "evaluate_node cx (Present i) causes = bindE (item_ok cx i) (\<lambda>ok. Inr (truth_of ok, causes))"
| "evaluate_node cx (Fresh i) causes = bindE (is_fresh cx i) (\<lambda>fresh. Inr (truth_of fresh, causes))"
| "evaluate_node cx (Matches p pat) causes = evaluate_matches cx p pat causes"
| "evaluate_node cx (Membership operator n members) causes = evaluate_membership cx operator n members causes"
| "evaluate_node cx (Compare operator l r) causes = evaluate_compare cx operator l r causes"
| "evaluate_node cx (Literal v) causes = unknown_node ''literal''"
| "evaluate_node cx (Path root segments) causes = unknown_node ''path''"

section \<open>Rules\<close>

text \<open>\<open>context.items.get(identifier)\<close>: a key that is no text is absent, a container cannot be one.\<close>

definition required_item :: "gate_context \<Rightarrow> json \<Rightarrow> exn + bool" where
  "required_item cx identifier =
     (if is_list identifier \<or> is_dict identifier then Inl (PyErr PyTypeError (lit ''unhashable type''))
      else case identifier of JStr i \<Rightarrow> item_ok cx i | _ \<Rightarrow> Inr False)"

fun requirements_state :: "gate_context \<Rightarrow> json list \<Rightarrow> cause list \<Rightarrow> exn + bool \<times> cause list" where
  "requirements_state cx [] causes = Inr (True, causes)"
| "requirements_state cx (identifier # others) causes =
     bindE (required_item cx identifier) (\<lambda>ok.
       if ok then requirements_state cx others causes
       else Inr (False, note_cause ''evidence_unsettled'' (Some identifier) causes))"

definition required_evidence :: "json \<Rightarrow> exn + json list" where
  "required_evidence rule =
     (case get_lit rule ''requires_evidence'' of None \<Rightarrow> Inr [] | Some needed \<Rightarrow> py_iter needed)"

definition rule_state :: "gate_context \<Rightarrow> json \<Rightarrow> truth step" where
  "rule_state cx rule causes =
     bindE (required_evidence rule) (\<lambda>needed.
     bindE (requirements_state cx needed causes) (\<lambda>(ok, causes).
       if \<not> ok then Inr (UnsettledT, causes)
       else
         bindE (sub_lit rule ''when'') (\<lambda>source.
         bindE (parse_expression source) (\<lambda>parsed.
         bindE (ast_json parsed) (\<lambda>_.
         bindE (sub_lit rule ''id'') (\<lambda>_.
         evaluate_node cx (expr_tree parsed) causes))))))"

section \<open>Results\<close>

definition outcome_schema_id :: ustr where
  "outcome_schema_id = lit ''https://verifyrun.com/spec/v1/outcome.schema.json''"

definition candidate_schema_id :: ustr where
  "candidate_schema_id = lit ''https://verifyrun.com/spec/v1/candidate.schema.json''"

definition fixed_message :: "ustr \<Rightarrow> ustr" where
  "fixed_message code =
     (if code = lit ''evidence_unsettled'' then lit ''Evidence could not settle this rule.''
      else if code = lit ''operand_unsettled'' then lit ''An operand could not settle this rule.''
      else lit ''No rule matched.'')"

text \<open>\<open>_RULE_CODES[outcome]\<close> and \<open>_DEFAULT_CODES[outcome]\<close>: \<open>KeyError\<close> of another text.\<close>

definition code_lookup :: "(ustr \<times> ustr) list \<Rightarrow> json \<Rightarrow> exn + ustr \<times> ustr" where
  "code_lookup codes outcome =
     (case outcome of
        JStr o' \<Rightarrow>
          (case map_of codes o' of Some c \<Rightarrow> Inr (o', c) | None \<Rightarrow> Inl (PyErr PyKeyError o'))
      | _ \<Rightarrow> if is_list outcome \<or> is_dict outcome then Inl (PyErr PyTypeError (lit ''unhashable type''))
             else Inl (PyErr PyKeyError (lit ''outcome'')))"

definition rule_codes :: "(ustr \<times> ustr) list" where
  "rule_codes = [(lit ''ALLOW'', lit ''rule_allow''), (lit ''BLOCK'', lit ''rule_block''),
     (lit ''HOLD'', lit ''rule_hold'')]"

definition default_codes :: "(ustr \<times> ustr) list" where
  "default_codes = [(lit ''BLOCK'', lit ''default_outcome_block''), (lit ''HOLD'', lit ''default_outcome_hold'')]"

record evaluation_result =
  ev_canonical :: ustr
  ev_outcome :: ustr

definition result_value :: "evaluation_result \<Rightarrow> exn + json" where
  "result_value r = reload (ev_canonical r)"

definition result_document :: "ustr \<Rightarrow> json list \<Rightarrow> json option \<Rightarrow> ustr list option \<Rightarrow> json" where
  "result_document outcome reasons matched trace =
     JDict ([(lit ''outcome'', JStr outcome), (lit ''reasons'', JList reasons)]
       @ (case matched of None \<Rightarrow> [] | Some i \<Rightarrow> [(lit ''matched_rule'', i)])
       @ (case trace of None \<Rightarrow> [] | Some ts \<Rightarrow> [(lit ''trace'', JList (map JStr ts))]))"

definition make_result ::
  "externals \<Rightarrow> registry \<Rightarrow> ustr \<Rightarrow> json list \<Rightarrow> json option \<Rightarrow> ustr list option \<Rightarrow> exn + evaluation_result" where
  "make_result X registry outcome reasons matched trace =
     (let document = result_document outcome reasons matched trace
      in bindE (validate X document outcome_schema_id registry) (\<lambda>_.
         bindE (canon_json document) (\<lambda>canonical.
         Inr \<lparr>ev_canonical = canonical, ev_outcome = outcome\<rparr>)))"

definition reason :: "ustr \<Rightarrow> ustr \<Rightarrow> (ustr \<times> json) list \<Rightarrow> json" where
  "reason code message others = JDict ([(lit ''code'', JStr code), (lit ''message'', JStr message)] @ others)"

section \<open>The walk\<close>

text \<open>\<open>"%d:%s:%s"\<close>; an identifier that is no text is outside what the schema of rulebooks admits.\<close>

definition trace_entry :: "nat \<Rightarrow> json \<Rightarrow> truth \<Rightarrow> exn + ustr" where
  "trace_entry ordinal identifier state =
     (case identifier of
        JStr i \<Rightarrow> Inr (dec ordinal @ lit '':'' @ i @ lit '':'' @ truth_text state)
      | _ \<Rightarrow> Inl (PyErr PyTypeError (lit ''expected string'')))"

definition cause_reason :: "json \<Rightarrow> cause \<Rightarrow> json" where
  "cause_reason rule_id cause =
     reason (fst cause) (fixed_message (fst cause))
       ((lit ''rule_id'', rule_id) #
        (case snd cause of None \<Rightarrow> [] | Some i \<Rightarrow> [(lit ''evidence_id'', i)]))"

fun walk_rules ::
  "externals \<Rightarrow> registry \<Rightarrow> gate_context \<Rightarrow> nat \<Rightarrow> json list \<Rightarrow> ustr list \<Rightarrow> exn + evaluation_result" where
  "walk_rules X registry cx ordinal [] trace =
     bindE (sub_lit (cx_rulebook cx) ''default_outcome'') (\<lambda>default.
     bindE (code_lookup default_codes default) (\<lambda>(outcome, code).
     make_result X registry outcome [reason code (fixed_message code) []] None (Some trace)))"
| "walk_rules X registry cx ordinal (rule # others) trace =
     bindE (rule_state cx rule []) (\<lambda>(state, causes).
     bindE (sub_lit rule ''id'') (\<lambda>identifier.
     bindE (trace_entry ordinal identifier state) (\<lambda>entry.
     case state of
       TrueT \<Rightarrow>
         bindE (sub_lit rule ''outcome'') (\<lambda>declared.
         bindE (code_lookup rule_codes declared) (\<lambda>(outcome, code).
         bindE (sub_lit rule ''reason'') (\<lambda>message.
         make_result X registry outcome
           [JDict [(lit ''code'', JStr code), (lit ''message'', message), (lit ''rule_id'', identifier)]]
           (Some identifier) (Some (trace @ [entry])))))
     | UnsettledT \<Rightarrow>
         make_result X registry (lit ''HOLD'') (map (cause_reason identifier) causes) None
           (Some (trace @ [entry]))
     | FalseT \<Rightarrow> walk_rules X registry cx (Suc ordinal) others (trace @ [entry]))))"

definition walk :: "externals \<Rightarrow> registry \<Rightarrow> gate_context \<Rightarrow> exn + evaluation_result" where
  "walk X registry cx =
     bindE (items_of (cx_rulebook cx) ''rules'') (\<lambda>rules. walk_rules X registry cx 0 rules [])"

section \<open>Preparation\<close>

text \<open>
  \<open>try: ... except VerifyError as invalid: return {...}\<close>: \<open>Inr (Some reason)\<close> is a failure that the
  gate reports as its result, \<open>Inl\<close> an exception that leaves the gate.
\<close>

definition reported :: "exn + 'a \<Rightarrow> exn + json option" where
  "reported r =
     (case r of
        Inr _ \<Rightarrow> Inr None
      | Inl (VErr c message d) \<Rightarrow> Inr (Some (reason (err_code c) message []))
      | Inl e \<Rightarrow> Inl e)"

text \<open>\<open>if failure: return failure\<close>, else the next check.\<close>

definition otherwise :: "exn + json option \<Rightarrow> exn + json option \<Rightarrow> exn + json option" where
  "otherwise first second = bindE first (\<lambda>failure. if failure = None then second else Inr failure)"

fun prepare_items :: "json \<Rightarrow> json list \<Rightarrow> exn + json option" where
  "prepare_items frozen_at [] = Inr None"
| "prepare_items frozen_at (item # others) =
     bindE (bindE (sub_lit item ''acquired_at'') instant_of) (\<lambda>acquired.
     bindE (instant_of frozen_at) (\<lambda>frozen.
       if acquired > frozen
       then bindE (sub_lit item ''id'') (\<lambda>identifier.
              Inr (Some (reason (lit ''evidence_order_invalid'') (lit ''Evidence was acquired after the freeze.'')
                [(lit ''evidence_id'', identifier)])))
       else prepare_items frozen_at others))"

definition prepare_rule :: "loaded_rulebook \<Rightarrow> json \<Rightarrow> exn + json option" where
  "prepare_rule pinned rule =
     (case bindE (sub_lit rule ''when'') (\<lambda>source.
             bindE (parse_expression source) (\<lambda>parsed. validate_expression parsed pinned)) of
        Inl (VErr c message d) \<Rightarrow>
          bindE (sub_lit rule ''id'') (\<lambda>identifier.
            Inr (Some (reason (err_code c) message [(lit ''rule_id'', identifier)])))
      | Inl e \<Rightarrow> Inl e
      | Inr _ \<Rightarrow> Inr None)"

fun prepare_rules :: "loaded_rulebook \<Rightarrow> json list \<Rightarrow> exn + json option" where
  "prepare_rules pinned [] = Inr None"
| "prepare_rules pinned (rule # others) = otherwise (prepare_rule pinned rule) (prepare_rules pinned others)"

definition prepare ::
  "externals \<Rightarrow> loaded_rulebook \<Rightarrow> json \<Rightarrow> json \<Rightarrow> registry \<Rightarrow> exn + json option" where
  "prepare X pinned candidate snapshot registry =
     otherwise (reported (validate X candidate candidate_schema_id registry))
    (otherwise (reported (validate X snapshot snapshot_schema_id registry))
    (bindE (sub_lit snapshot ''frozen_at'') (\<lambda>frozen_at.
     bindE (items_of snapshot ''items'') (\<lambda>its.
     otherwise (prepare_items frozen_at its)
     (bindE (rulebook_applies pinned frozen_at) (\<lambda>applies.
        if \<not> applies
        then Inr (Some (reason (lit ''rulebook_not_adopted'') (lit ''The rulebook was not adopted when this run started.'') []))
        else
          bindE (rulebook_value pinned) (\<lambda>value.
          bindE (items_of value ''rules'') (\<lambda>rules. prepare_rules pinned rules))))))))"

definition evaluate ::
  "externals \<Rightarrow> loaded_rulebook \<Rightarrow> json \<Rightarrow> json \<Rightarrow> registry \<Rightarrow> exn + evaluation_result" where
  "evaluate X pinned candidate snapshot registry =
     (if \<not> is_dict candidate \<or> \<not> is_dict snapshot
      then Inl (PyErr PyTypeError (lit ''evaluate takes canonical mappings for candidate and snapshot''))
      else
        bindE (prepare X pinned candidate snapshot registry) (\<lambda>failure.
          case failure of
            Some r \<Rightarrow> make_result X registry (lit ''ERROR'') [r] None None
          | None \<Rightarrow>
              bindE (rulebook_value pinned) (\<lambda>value.
              bindE (make_context value candidate snapshot) (\<lambda>cx. walk X registry cx))))"

end
