(* ===== verification/Evaluation.thy ===== *)
theory Evaluation
  imports Gate
begin

text \<open>
  What the evaluator of \<^verbatim>\<open>src/vfy/gate.py\<close> means: a reference semantics of expressions in two
  predicates (\<open>settled\<close>, \<open>holds\<close>), the outcome of a walk over the rules, what an \<open>ALLOW\<close> rests on,
  and that a replay on reloaded inputs gives the same result.
\<close>

section \<open>Reference semantics of expressions\<close>

definition ok_item :: "gate_context \<Rightarrow> ustr \<Rightarrow> bool" where
  "ok_item cx i \<longleftrightarrow>
     (\<exists>item. map_of (cx_items cx) i = Some item \<and> get_lit item ''status'' = Some (JStr (lit ''ok'')))"

definition operand_in :: "gate_context \<Rightarrow> node \<Rightarrow> resolved" where
  "operand_in cx n =
     (case n of
        Literal v \<Rightarrow> Found (Some v)
      | Path root segments \<Rightarrow>
          if root = lit ''evidence''
          then (case segments of
                  Member i # others \<Rightarrow>
                    (if ok_item cx i
                     then (case Option.bind (map_of (cx_items cx) i) (\<lambda>item. get_lit item ''value'') of
                             Some v \<Rightarrow> Found (descend (Some v) others) | None \<Rightarrow> Unsettled)
                     else Unsettled)
                | _ \<Rightarrow> Unsettled)
          else Found (descend (if root = lit ''identity'' then get_lit (cx_candidate cx) ''identity''
                               else Some (cx_candidate cx)) segments)
      | _ \<Rightarrow> Unsettled)"

definition order_in :: "resolved \<Rightarrow> resolved \<Rightarrow> int option" where
  "order_in l r =
     (case (l, r) of (Found (Some v), Found (Some w)) \<Rightarrow> compare_numeric v w | _ \<Rightarrow> None)"

text \<open>Every atom of the expression can be decided.\<close>

fun settled :: "gate_context \<Rightarrow> node \<Rightarrow> bool" where
  "settled cx (And_node ns) = (\<forall>n \<in> set ns. settled cx n)"
| "settled cx (Or_node ns) = (\<forall>n \<in> set ns. settled cx n)"
| "settled cx (Not_node n) = settled cx n"
| "settled cx (Compare operator l r) =
     (operand_in cx l \<noteq> Unsettled \<and> operand_in cx r \<noteq> Unsettled \<and>
      (operator \<in> {lit ''=='', lit ''!=''} \<or> order_in (operand_in cx l) (operand_in cx r) \<noteq> None))"
| "settled cx (Membership operator n members) = (operand_in cx n \<noteq> Unsettled)"
| "settled cx (Matches n pat) =
     (case operand_in cx n of Unsettled \<Rightarrow> False | Found None \<Rightarrow> True | Found (Some v) \<Rightarrow> is_str v)"
| "settled cx _ = True"

text \<open>The Boolean meaning of an expression whose atoms are decided.\<close>

fun holds :: "gate_context \<Rightarrow> node \<Rightarrow> bool" where
  "holds cx (And_node ns) = (\<forall>n \<in> set ns. holds cx n)"
| "holds cx (Or_node ns) = (\<exists>n \<in> set ns. holds cx n)"
| "holds cx (Not_node n) = (\<not> holds cx n)"
| "holds cx (Compare operator l r) =
     (case (operand_in cx l, operand_in cx r) of
        (Found v, Found w) \<Rightarrow>
          if operator = lit ''=='' then gate_equal v w
          else if operator = lit ''!='' then \<not> gate_equal v w
          else (case order_in (Found v) (Found w) of None \<Rightarrow> False | Some order \<Rightarrow> settle_order operator order)
      | _ \<Rightarrow> False)"
| "holds cx (Membership operator n members) =
     (case operand_in cx n of
        Found v \<Rightarrow> (\<exists>m \<in> set members. gate_equal v (Some m)) = (operator = lit ''in'')
      | Unsettled \<Rightarrow> False)"
| "holds cx (Matches n pat) =
     (case operand_in cx n of Found (Some v) \<Rightarrow> matches_elements (elements pat) (the_str v) | _ \<Rightarrow> False)"
| "holds cx (Present i) = ok_item cx i"
| "holds cx (Fresh i) =
     (ok_item cx i \<and>
      (case Option.bind (map_of (cx_declarations cx) i) (\<lambda>d. get_lit d ''max_age_seconds'') of
         None \<Rightarrow> True
       | Some max_age \<Rightarrow>
           (\<exists>item at t seconds. map_of (cx_items cx) i = Some item \<and> get_lit item ''acquired_at'' = Some at \<and>
              instant_of at = Inr t \<and> num_of max_age = Some seconds \<and>
              cx_frozen_at cx - t \<le> seconds * nanos_per_second)))"
| "holds cx _ = False"

definition meaning :: "gate_context \<Rightarrow> node \<Rightarrow> truth" where
  "meaning cx n = (if settled cx n then truth_of (holds cx n) else UnsettledT)"

lemma truth_of_neq [simp]: "truth_of b \<noteq> UnsettledT" "truth_of b = TrueT \<longleftrightarrow> b" "truth_of b = FalseT \<longleftrightarrow> \<not> b"
  by (cases b; simp)+

section \<open>The steps against the semantics\<close>

lemma note_cause_nonempty [simp]: "note_cause code i causes \<noteq> []"
  by (cases causes) (auto simp: note_cause_def)

lemma item_ok_Inr: "item_ok cx i = Inr b \<Longrightarrow> b \<longleftrightarrow> ok_item cx i"
  by (auto simp: item_ok_def ok_item_def is_ok_def bindE_Inr_iff subscript_Inr_iff split: option.splits)

text \<open>A step that agrees with a meaning, and notes a cause exactly when it cannot settle.\<close>

definition means :: "truth \<Rightarrow> truth step \<Rightarrow> bool" where
  "means m f \<longleftrightarrow>
     (\<forall>causes state causes'. f causes = Inr (state, causes') \<longrightarrow> state = m \<and>
        (m \<noteq> UnsettledT \<longrightarrow> causes' = causes) \<and> (m = UnsettledT \<longrightarrow> causes' \<noteq> []) \<and>
        (causes \<noteq> [] \<longrightarrow> causes' \<noteq> []))"

lemma resolve_Inr:
  assumes "resolve cx n causes = Inr (v, causes')"
  shows "v = operand_in cx n \<and> (v \<noteq> Unsettled \<longrightarrow> causes' = causes) \<and>
     (v = Unsettled \<longrightarrow> causes' \<noteq> []) \<and> (causes \<noteq> [] \<longrightarrow> causes' \<noteq> [])"
proof (cases n)
  case (Path root segments)
  show ?thesis
  proof (cases "root = lit ''evidence''")
    case True
    with assms Path obtain i others where s: "segments = Member i # others"
      by (auto simp: resolve_def split: list.splits segment.splits)
    with assms Path True have "resolve_evidence cx i others causes = Inr (v, causes')" by (simp add: resolve_def)
    then obtain ok where ok: "item_ok cx i = Inr ok" and
      r: "(case (if ok then Option.bind (map_of (cx_items cx) i) (\<lambda>item. get_lit item ''value'') else None) of
         Some v \<Rightarrow> Inr (Found (descend (Some v) others), causes)
       | None \<Rightarrow> Inr (Unsettled, note_cause ''evidence_unsettled'' (Some (JStr i)) causes))
           = (Inr (v, causes') :: exn + resolved \<times> cause list)"
      by (auto simp: resolve_evidence_def bindE_Inr_iff)
    from item_ok_Inr [OF ok] r show ?thesis
      unfolding operand_in_def Path s using True
      by (auto split: option.splits if_split_asm)
  qed (use assms Path in \<open>auto simp: resolve_def operand_in_def split: if_split_asm\<close>)
qed (use assms in \<open>auto simp: resolve_def operand_in_def\<close>)

lemma compare_means: "means (meaning cx (Compare operator l r)) (evaluate_compare cx operator l r)"
  unfolding means_def
proof (intro allI impI)
  fix causes state causes'
  assume "evaluate_compare cx operator l r causes = Inr (state, causes')"
  then obtain v c1 w c2 where l: "resolve cx l causes = Inr (v, c1)" and r: "resolve cx r c1 = Inr (w, c2)" and
    e: "(case (v, w) of
         (Found v, Found w) \<Rightarrow>
           if operator \<in> {lit ''=='', lit ''!=''}
           then Inr (truth_of (if operator = lit ''=='' then gate_equal v w else \<not> gate_equal v w), c2)
           else (case Option.bind v (\<lambda>a. Option.bind w (compare_numeric a)) of
                   None \<Rightarrow> Inr (UnsettledT, note_cause ''operand_unsettled'' None c2)
                 | Some order \<Rightarrow> Inr (truth_of (settle_order operator order), c2))
       | _ \<Rightarrow> Inr (UnsettledT, c2)) = (Inr (state, causes') :: exn + truth \<times> cause list)"
    by (auto simp: evaluate_compare_def bindE_Inr_iff)
  note L = resolve_Inr [OF l] and R = resolve_Inr [OF r]
  show "state = meaning cx (Compare operator l r) \<and>
    (meaning cx (Compare operator l r) \<noteq> UnsettledT \<longrightarrow> causes' = causes) \<and>
    (meaning cx (Compare operator l r) = UnsettledT \<longrightarrow> causes' \<noteq> []) \<and> (causes \<noteq> [] \<longrightarrow> causes' \<noteq> [])"
  proof (cases v)
    case Unsettled
    with e L R show ?thesis by (auto simp: meaning_def)
  next
    case v: (Found a)
    show ?thesis
    proof (cases w)
      case Unsettled
      with e L R show ?thesis by (auto simp: meaning_def split: resolved.splits)
    next
      case w: (Found b)
      have o: "Option.bind a (\<lambda>x. Option.bind b (compare_numeric x)) = order_in (Found a) (Found b)"
        by (cases a; cases b) (simp_all add: order_in_def)
      have c: "c1 = causes" "c2 = causes" "operand_in cx l = Found a" "operand_in cx r = Found b"
        using L R v w by auto
      show ?thesis
      proof (cases "operator \<in> {lit ''=='', lit ''!=''}")
        case True
        with e show ?thesis unfolding v w by (auto simp: meaning_def c)
      next
        case False
        with e show ?thesis
          unfolding v w resolved.case prod.case o
          by (cases "order_in (Found a) (Found b)") (auto simp: meaning_def c)
      qed
    qed
  qed
qed

lemma membership_means:
  "means (meaning cx (Membership operator n members)) (evaluate_membership cx operator n members)"
  unfolding means_def
proof (intro allI impI)
  fix causes state causes'
  assume "evaluate_membership cx operator n members causes = Inr (state, causes')"
  then obtain v c1 where n: "resolve cx n causes = Inr (v, c1)" and
    e: "(case v of
         Unsettled \<Rightarrow> Inr (UnsettledT, c1)
       | Found w \<Rightarrow>
           let found = list_ex (\<lambda>m. gate_equal w (Some m)) members
           in Inr (truth_of (if operator = lit ''in'' then found else \<not> found), c1))
        = (Inr (state, causes') :: exn + truth \<times> cause list)"
    by (auto simp: evaluate_membership_def bindE_Inr_iff)
  note N = resolve_Inr [OF n]
  show "state = meaning cx (Membership operator n members) \<and>
    (meaning cx (Membership operator n members) \<noteq> UnsettledT \<longrightarrow> causes' = causes) \<and>
    (meaning cx (Membership operator n members) = UnsettledT \<longrightarrow> causes' \<noteq> []) \<and> (causes \<noteq> [] \<longrightarrow> causes' \<noteq> [])"
  proof (cases v)
    case Unsettled
    with e have "state = UnsettledT" "causes' = c1" by simp_all
    with N Unsettled show ?thesis by (simp add: meaning_def)
  next
    case (Found w)
    with e have "state = truth_of (if operator = lit ''in'' then list_ex (\<lambda>m. gate_equal w (Some m)) members
        else \<not> list_ex (\<lambda>m. gate_equal w (Some m)) members)" "causes' = c1"
      by (simp_all add: Let_def)
    moreover have "operand_in cx n = Found w" "c1 = causes" using N Found by auto
    ultimately show ?thesis by (simp add: meaning_def list_ex_iff)
  qed
qed

lemma matches_means: "means (meaning cx (Matches n pat)) (evaluate_matches cx n pat)"
  unfolding means_def
proof (intro allI impI)
  fix causes state causes'
  assume "evaluate_matches cx n pat causes = Inr (state, causes')"
  then obtain v c1 where n: "resolve cx n causes = Inr (v, c1)" and
    e: "(case v of
         Unsettled \<Rightarrow> Inr (UnsettledT, c1)
       | Found None \<Rightarrow> Inr (FalseT, c1)
       | Found (Some (JStr s)) \<Rightarrow>
           (case glob pat s of Some b \<Rightarrow> Inr (truth_of b, c1) | None \<Rightarrow> Inl out_of_fuel)
       | Found (Some _) \<Rightarrow> Inr (UnsettledT, note_cause ''operand_unsettled'' None c1))
         = (Inr (state, causes') :: exn + truth \<times> cause list)"
    by (auto simp: evaluate_matches_def bindE_Inr_iff)
  note N = resolve_Inr [OF n]
  show "state = meaning cx (Matches n pat) \<and>
    (meaning cx (Matches n pat) \<noteq> UnsettledT \<longrightarrow> causes' = causes) \<and>
    (meaning cx (Matches n pat) = UnsettledT \<longrightarrow> causes' \<noteq> []) \<and> (causes \<noteq> [] \<longrightarrow> causes' \<noteq> [])"
  proof (cases v)
    case Unsettled
    with e have "state = UnsettledT" "causes' = c1" by simp_all
    with N Unsettled show ?thesis by (simp add: meaning_def)
  next
    case (Found w)
    have o: "operand_in cx n = Found w" "c1 = causes" using N Found by auto
    show ?thesis
    proof (cases w)
      case None
      have "state = FalseT" "causes' = c1" using e unfolding Found None by simp_all
      then show ?thesis by (simp add: meaning_def o None)
    next
      case (Some u)
      show ?thesis
        using e unfolding Found Some meaning_def settled.simps holds.simps o
        by (cases u) (auto simp: glob_decides)
    qed
  qed
qed

subsection \<open>Expressions\<close>

text \<open>A comprehension over steps that mean something.\<close>

lemma each_state_means:
  assumes "\<And>x. x \<in> set xs \<Longrightarrow> means (m x) (f x)" "each_state f xs causes = Inr (states, causes')"
  shows "states = map m xs \<and> ((\<forall>x \<in> set xs. m x \<noteq> UnsettledT) \<longrightarrow> causes' = causes) \<and>
     ((\<exists>x \<in> set xs. m x = UnsettledT) \<longrightarrow> causes' \<noteq> []) \<and> (causes \<noteq> [] \<longrightarrow> causes' \<noteq> [])"
  using assms
proof (induction xs arbitrary: causes states)
  case (Cons x xs)
  from Cons.prems(2) obtain s c1 ss where f: "f x causes = Inr (s, c1)" "each_state f xs c1 = Inr (ss, causes')"
    "states = s # ss"
    by (auto simp: bindE_Inr_iff)
  have "s = m x \<and> (m x \<noteq> UnsettledT \<longrightarrow> c1 = causes) \<and> (m x = UnsettledT \<longrightarrow> c1 \<noteq> []) \<and> (causes \<noteq> [] \<longrightarrow> c1 \<noteq> [])"
    using Cons.prems(1) [of x] f(1) unfolding means_def by simp
  moreover have "ss = map m xs \<and> ((\<forall>x \<in> set xs. m x \<noteq> UnsettledT) \<longrightarrow> causes' = c1) \<and>
     ((\<exists>x \<in> set xs. m x = UnsettledT) \<longrightarrow> causes' \<noteq> []) \<and> (c1 \<noteq> [] \<longrightarrow> causes' \<noteq> [])"
    using Cons.IH [OF _ f(2)] Cons.prems(1) by simp
  ultimately show ?case using f(3) by auto
qed auto

lemma meaning_unsettled [simp]: "meaning cx n = UnsettledT \<longleftrightarrow> \<not> settled cx n"
    "UnsettledT = meaning cx n \<longleftrightarrow> \<not> settled cx n"
  by (simp_all add: meaning_def)

lemma meaning_combine:
  "meaning cx (And_node ns) = combine True (map (meaning cx) ns)"
  "meaning cx (Or_node ns) = combine False (map (meaning cx) ns)"
  by (auto simp: meaning_def combine_def list_all_iff list_ex_iff image_iff)

lemma evaluate_node_means: "predicate_ok n \<Longrightarrow> means (meaning cx n) (evaluate_node cx n)"
proof (induction n)
  case (And_node ns)
  have each: "\<And>x. x \<in> set ns \<Longrightarrow> means (meaning cx x) (evaluate_node cx x)" using And_node by simp
  show ?case
    unfolding means_def meaning_combine
  proof (intro allI impI)
    fix causes state causes'
    assume "evaluate_node cx (And_node ns) causes = Inr (state, causes')"
    then obtain states where e: "each_state (evaluate_node cx) ns causes = Inr (states, causes')"
      "state = combine True states" by (auto simp: bindE_Inr_iff)
    from each_state_means [OF each e(1)] e(2) show "state = combine True (map (meaning cx) ns) \<and>
       (combine True (map (meaning cx) ns) \<noteq> UnsettledT \<longrightarrow> causes' = causes) \<and>
       (combine True (map (meaning cx) ns) = UnsettledT \<longrightarrow> causes' \<noteq> []) \<and> (causes \<noteq> [] \<longrightarrow> causes' \<noteq> [])"
      by (auto simp: combine_def image_iff)
  qed
next
  case (Or_node ns)
  have each: "\<And>x. x \<in> set ns \<Longrightarrow> means (meaning cx x) (evaluate_node cx x)" using Or_node by simp
  show ?case
    unfolding means_def meaning_combine
  proof (intro allI impI)
    fix causes state causes'
    assume "evaluate_node cx (Or_node ns) causes = Inr (state, causes')"
    then obtain states where e: "each_state (evaluate_node cx) ns causes = Inr (states, causes')"
      "state = combine False states" by (auto simp: bindE_Inr_iff)
    from each_state_means [OF each e(1)] e(2) show "state = combine False (map (meaning cx) ns) \<and>
       (combine False (map (meaning cx) ns) \<noteq> UnsettledT \<longrightarrow> causes' = causes) \<and>
       (combine False (map (meaning cx) ns) = UnsettledT \<longrightarrow> causes' \<noteq> []) \<and> (causes \<noteq> [] \<longrightarrow> causes' \<noteq> [])"
      by (auto simp: combine_def image_iff)
  qed
next
  case (Not_node n)
  then have m: "means (meaning cx n) (evaluate_node cx n)" by simp
  show ?case
    unfolding means_def
  proof (intro allI impI)
    fix causes state causes'
    assume "evaluate_node cx (Not_node n) causes = Inr (state, causes')"
    then obtain inner where i: "evaluate_node cx n causes = Inr (inner, causes')"
      "state = (if inner = UnsettledT then UnsettledT else if inner = TrueT then FalseT else TrueT)"
      by (auto simp: bindE_Inr_iff)
    with m have "inner = meaning cx n \<and> (meaning cx n \<noteq> UnsettledT \<longrightarrow> causes' = causes) \<and>
        (meaning cx n = UnsettledT \<longrightarrow> causes' \<noteq> []) \<and> (causes \<noteq> [] \<longrightarrow> causes' \<noteq> [])"
      unfolding means_def by blast
    with i(2) show "state = meaning cx (Not_node n) \<and> (meaning cx (Not_node n) \<noteq> UnsettledT \<longrightarrow> causes' = causes) \<and>
        (meaning cx (Not_node n) = UnsettledT \<longrightarrow> causes' \<noteq> []) \<and> (causes \<noteq> [] \<longrightarrow> causes' \<noteq> [])"
      by (auto simp: meaning_def)
  qed
next
  case (Fresh i)
  show ?case
    unfolding means_def
  proof (intro allI impI)
    fix causes state causes'
    assume "evaluate_node cx (Fresh i) causes = Inr (state, causes')"
    then obtain b where b: "is_fresh cx i = Inr b" "state = truth_of b" "causes' = causes"
      by (auto simp: bindE_Inr_iff)
    from b(1) obtain ok where ok: "item_ok cx i = Inr ok" by (auto simp: is_fresh_def bindE_Inr_iff)
    have "b \<longleftrightarrow> holds cx (Fresh i)"
    proof (cases ok)
      case False
      with b(1) ok item_ok_Inr [OF ok] show ?thesis by (auto simp: is_fresh_def)
    next
      case True
      then have t: "ok_item cx i" using item_ok_Inr [OF ok] by simp
      show ?thesis
      proof (cases "Option.bind (map_of (cx_declarations cx) i) (\<lambda>d. get_lit d ''max_age_seconds'')")
        case None
        then have "get_lit (case map_of (cx_declarations cx) i of None \<Rightarrow> JDict [] | Some d \<Rightarrow> d) ''max_age_seconds'' = None"
          by (cases "map_of (cx_declarations cx) i") auto
        with b(1) ok True have "b" by (simp add: is_fresh_def Let_def)
        with t None show ?thesis by simp
      next
        case (Some a)
        then have "get_lit (case map_of (cx_declarations cx) i of None \<Rightarrow> JDict [] | Some d \<Rightarrow> d) ''max_age_seconds'' = Some a"
          by (cases "map_of (cx_declarations cx) i") auto
        with b(1) ok True obtain item at t seconds where i: "map_of (cx_items cx) i = Some item"
          "get_lit item ''acquired_at'' = Some at" "instant_of at = Inr t" "num_of a = Some seconds"
          "b \<longleftrightarrow> cx_frozen_at cx - t \<le> seconds * nanos_per_second"
          by (auto simp: is_fresh_def Let_def bindE_Inr_iff subscript_Inr_iff split: option.split_asm)
        then show ?thesis using t Some by auto
      qed
    qed
    with b show "state = meaning cx (Fresh i) \<and> (meaning cx (Fresh i) \<noteq> UnsettledT \<longrightarrow> causes' = causes) \<and>
      (meaning cx (Fresh i) = UnsettledT \<longrightarrow> causes' \<noteq> []) \<and> (causes \<noteq> [] \<longrightarrow> causes' \<noteq> [])"
      by (simp add: meaning_def)
  qed
next
  case (Present i)
  show ?case unfolding means_def by (auto simp: bindE_Inr_iff meaning_def dest: item_ok_Inr)
next
  case (Compare operator l r)
  have "evaluate_node cx (Compare operator l r) = evaluate_compare cx operator l r" by (intro ext) simp
  then show ?case using compare_means [of cx operator l r] by (simp only:)
next
  case (Membership operator n members)
  have "evaluate_node cx (Membership operator n members) = evaluate_membership cx operator n members" by (intro ext) simp
  then show ?case using membership_means [of cx operator n members] by (simp only:)
next
  case (Matches n pat)
  have "evaluate_node cx (Matches n pat) = evaluate_matches cx n pat" by (intro ext) simp
  then show ?case using matches_means [of cx n pat] by (simp only:)
qed simp_all

section \<open>Totality\<close>

text \<open>
  A context as preparation leaves it: items carry a status and a readable instant, declared ages are
  numbers.
\<close>

definition context_ok :: "gate_context \<Rightarrow> bool" where
  "context_ok cx \<longleftrightarrow>
     (\<forall>i item. map_of (cx_items cx) i = Some item \<longrightarrow>
        get_lit item ''status'' \<noteq> None \<and> (\<exists>at t. get_lit item ''acquired_at'' = Some at \<and> instant_of at = Inr t)) \<and>
     (\<forall>i d a. map_of (cx_declarations cx) i = Some d \<longrightarrow> get_lit d ''max_age_seconds'' = Some a \<longrightarrow> num_of a \<noteq> None)"

lemma item_ok_total: "context_ok cx \<Longrightarrow> \<exists>b. item_ok cx i = Inr b"
  by (auto simp: item_ok_def is_ok_def context_ok_def subscript_Inr_iff bindE_Inr_iff split: option.split)

lemma resolve_total:
  assumes "context_ok cx" "operand_ok n"
  shows "\<exists>v c. resolve cx n causes = Inr (v, c)"
proof (cases n)
  case (Path root segments)
  with assms(2) obtain name others where "segments = Member name # others" by auto
  moreover obtain b where "item_ok cx name = Inr b" using item_ok_total [OF assms(1)] by blast
  ultimately show ?thesis
    by (auto simp: resolve_def Path resolve_evidence_def split: option.split)
qed (use assms(2) in \<open>auto simp: resolve_def\<close>)

lemma is_fresh_total: "context_ok cx \<Longrightarrow> \<exists>b. is_fresh cx i = Inr b"
proof -
  assume c: "context_ok cx"
  obtain ok where ok: "item_ok cx i = Inr ok" using item_ok_total [OF c] by blast
  show ?thesis
  proof (cases ok)
    case False
    with ok show ?thesis by (auto simp: is_fresh_def)
  next
    case True
    then obtain item where i: "map_of (cx_items cx) i = Some item" using ok by (auto simp: item_ok_def split: option.splits)
    with c obtain at t where t: "get_lit item ''acquired_at'' = Some at" "instant_of at = Inr t"
      unfolding context_ok_def by blast
    then have sub: "sub_lit item ''acquired_at'' = Inr at" by (simp add: subscript_Inr_iff)
    show ?thesis
    proof (cases "map_of (cx_declarations cx) i")
      case (Some d)
      show ?thesis
      proof (cases "get_lit d ''max_age_seconds''")
        case (Some a)
        with \<open>map_of (cx_declarations cx) i = Some d\<close> c obtain s where "num_of a = Some s"
          by (fastforce simp: context_ok_def)
        with ok True i sub t Some \<open>map_of (cx_declarations cx) i = Some d\<close> show ?thesis
          by (simp add: is_fresh_def Let_def)
      qed (use ok True Some in \<open>auto simp: is_fresh_def Let_def\<close>)
    qed (use ok True in \<open>auto simp: is_fresh_def Let_def\<close>)
  qed
qed

lemma each_state_total:
  "(\<And>x c. x \<in> set xs \<Longrightarrow> \<exists>s c'. f x c = Inr (s, c')) \<Longrightarrow> \<exists>ss c'. each_state f xs c = Inr (ss, c')"
proof (induction xs arbitrary: c)
  case (Cons x xs)
  obtain s c1 where "f x c = Inr (s, c1)" using Cons.prems by force
  moreover obtain ss c2 where "each_state f xs c1 = Inr (ss, c2)" using Cons by force
  ultimately show ?case by auto
qed simp

lemma path_operand: "path_ok n \<Longrightarrow> operand_ok n"
  by (cases n) auto

lemma evaluate_node_total:
  "context_ok cx \<Longrightarrow> predicate_ok n \<Longrightarrow> \<exists>state c. evaluate_node cx n causes = Inr (state, c)"
proof (induction n arbitrary: causes)
  case (And_node ns)
  then have "\<exists>ss c. each_state (evaluate_node cx) ns causes = Inr (ss, c)" by (intro each_state_total) auto
  then show ?case by auto
next
  case (Or_node ns)
  then have "\<exists>ss c. each_state (evaluate_node cx) ns causes = Inr (ss, c)" by (intro each_state_total) auto
  then show ?case by auto
next
  case (Not_node n)
  then obtain s c where "evaluate_node cx n causes = Inr (s, c)" by fastforce
  then show ?case by simp
next
  case (Compare operator l r)
  obtain v c1 where l: "resolve cx l causes = Inr (v, c1)" using resolve_total Compare by fastforce
  obtain w c2 where r: "resolve cx r c1 = Inr (w, c2)" using resolve_total Compare by fastforce
  show ?case by (simp add: evaluate_compare_def l r split: resolved.split option.split)
next
  case (Membership operator n members)
  obtain v c1 where "resolve cx n causes = Inr (v, c1)" using resolve_total Membership by fastforce
  then show ?case by (simp add: evaluate_membership_def Let_def split: resolved.split)
next
  case (Fresh i)
  obtain b where "is_fresh cx i = Inr b" using is_fresh_total [OF Fresh(1)] by blast
  then show ?case by simp
next
  case (Present i)
  obtain b where "item_ok cx i = Inr b" using item_ok_total [OF Present(1)] by blast
  then show ?case by simp
next
  case (Matches n pat)
  have "operand_ok n" using Matches by (auto intro: path_operand)
  then obtain v c1 where "resolve cx n causes = Inr (v, c1)" using resolve_total [OF Matches(2)] by blast
  then show ?case
    by (simp add: evaluate_matches_def glob_decides split: resolved.split option.split json.split)
qed simp_all

section \<open>The walk\<close>

text \<open>Where a walk stops, and what it answers there.\<close>

definition stops_at :: "gate_context \<Rightarrow> json list \<Rightarrow> nat \<Rightarrow> evaluation_result \<Rightarrow> bool" where
  "stops_at cx rules k r \<longleftrightarrow>
     k \<le> length rules \<and> (\<forall>j < k. \<exists>causes. rule_state cx (rules ! j) [] = Inr (FalseT, causes)) \<and>
     (if k = length rules
      then ev_outcome r \<in> {lit ''BLOCK'', lit ''HOLD''} \<and>
           get_lit (cx_rulebook cx) ''default_outcome'' = Some (JStr (ev_outcome r))
      else (\<exists>causes. rule_state cx (rules ! k) [] = Inr (TrueT, causes) \<and>
              get_lit (rules ! k) ''outcome'' = Some (JStr (ev_outcome r)) \<and>
              ev_outcome r \<in> {lit ''ALLOW'', lit ''BLOCK'', lit ''HOLD''}) \<or>
           (\<exists>causes. rule_state cx (rules ! k) [] = Inr (UnsettledT, causes) \<and> ev_outcome r = lit ''HOLD''))"

lemma make_result_outcome: "make_result X registry outcome rs m t = Inr r \<Longrightarrow> ev_outcome r = outcome"
  by (auto simp: make_result_def Let_def bindE_Inr_iff)

lemma code_lookup_Inr: "code_lookup codes v = Inr (o', c) \<Longrightarrow> v = JStr o' \<and> o' \<in> fst ` set codes"
  by (auto simp: code_lookup_def split: json.splits option.splits if_split_asm dest!: map_of_SomeD
      intro: rev_image_eqI)

lemma walk_rules_stops:
  "walk_rules X registry cx ordinal rules trace = Inr r \<Longrightarrow> \<exists>k. stops_at cx rules k r"
proof (induction rules arbitrary: ordinal trace)
  case Nil
  then obtain d outcome code where d: "sub_lit (cx_rulebook cx) ''default_outcome'' = Inr d"
    "code_lookup default_codes d = Inr (outcome, code)"
    "make_result X registry outcome [reason code (fixed_message code) []] None (Some trace) = Inr r"
    by (auto simp: bindE_Inr_iff)
  from code_lookup_Inr [OF d(2)] make_result_outcome [OF d(3)] d(1)
  have "stops_at cx [] 0 r"
    by (auto simp: stops_at_def default_codes_def subscript_Inr_iff)
  then show ?case by blast
next
  case (Cons rule rules)
  then obtain state causes ident entry where s: "rule_state cx rule [] = Inr (state, causes)" and
    e: "(case state of
       TrueT \<Rightarrow>
         bindE (sub_lit rule ''outcome'') (\<lambda>declared.
         bindE (code_lookup rule_codes declared) (\<lambda>(outcome, code).
         bindE (sub_lit rule ''reason'') (\<lambda>message.
         make_result X registry outcome
           [JDict [(lit ''code'', JStr code), (lit ''message'', message), (lit ''rule_id'', ident)]]
           (Some ident) (Some (trace @ [entry])))))
     | UnsettledT \<Rightarrow>
         make_result X registry (lit ''HOLD'') (map (cause_reason ident) causes) None
           (Some (trace @ [entry]))
     | FalseT \<Rightarrow> walk_rules X registry cx (Suc ordinal) rules (trace @ [entry])) = Inr r"
    by (auto simp: bindE_Inr_iff)
  show ?case
  proof (cases state)
    case TrueT
    with e obtain declared outcome code message where d: "sub_lit rule ''outcome'' = Inr declared"
      "code_lookup rule_codes declared = Inr (outcome, code)"
      "make_result X registry outcome
           [JDict [(lit ''code'', JStr code), (lit ''message'', message), (lit ''rule_id'', ident)]]
           (Some ident) (Some (trace @ [entry])) = Inr r"
      by (auto simp: bindE_Inr_iff)
    from code_lookup_Inr [OF d(2)] make_result_outcome [OF d(3)] d(1) s TrueT
    have "stops_at cx (rule # rules) 0 r"
      by (auto simp: stops_at_def rule_codes_def subscript_Inr_iff)
    then show ?thesis by blast
  next
    case UnsettledT
    with e make_result_outcome s have "stops_at cx (rule # rules) 0 r"
      by (auto simp: stops_at_def)
    then show ?thesis by blast
  next
    case FalseT
    with e Cons.IH obtain k where k: "stops_at cx rules k r" by auto
    have "\<exists>c. rule_state cx ((rule # rules) ! j) [] = Inr (FalseT, c)" if "j < Suc k" for j
      using that k s FalseT by (cases j) (auto simp: stops_at_def)
    with k have "stops_at cx (rule # rules) (Suc k) r"
      unfolding stops_at_def by (auto split: if_split_asm)
    then show ?thesis by blast
  qed
qed

lemma requirements_state_True:
  "requirements_state cx needed causes = Inr (True, causes') \<Longrightarrow>
   causes' = causes \<and> (\<forall>i \<in> set needed. \<exists>name. i = JStr name \<and> ok_item cx name)"
proof (induction needed arbitrary: causes)
  case (Cons i needed)
  then have r: "required_item cx i = Inr True" "requirements_state cx needed causes = Inr (True, causes')"
    by (auto simp: bindE_Inr_iff split: if_split_asm)
  from r(1) have "\<exists>name. i = JStr name \<and> ok_item cx name"
    by (cases i) (auto simp: required_item_def dest: item_ok_Inr)
  with Cons.IH [OF r(2)] show ?case by auto
qed simp

text \<open>What a rule that is true rests on.\<close>

definition rule_satisfied :: "gate_context \<Rightarrow> json \<Rightarrow> bool" where
  "rule_satisfied cx rule \<longleftrightarrow>
     (\<exists>needed src e. required_evidence rule = Inr needed \<and>
        (\<forall>i \<in> set needed. \<exists>name. i = JStr name \<and> ok_item cx name) \<and>
        get_lit rule ''when'' = Some src \<and> parse_expression src = Inr e \<and>
        settled cx (expr_tree e) \<and> holds cx (expr_tree e))"

lemma rule_state_True:
  assumes "rule_state cx rule [] = Inr (TrueT, causes)" "wf_json rule"
  shows "rule_satisfied cx rule"
proof -
  from assms(1) obtain needed ok c1 where n: "required_evidence rule = Inr needed"
    "requirements_state cx needed [] = Inr (ok, c1)" and
    k: "(if \<not> ok then Inr (UnsettledT, c1)
       else
         bindE (sub_lit rule ''when'') (\<lambda>source.
         bindE (parse_expression source) (\<lambda>parsed.
         bindE (ast_json parsed) (\<lambda>_.
         bindE (sub_lit rule ''id'') (\<lambda>_.
         evaluate_node cx (expr_tree parsed) c1))))) = Inr (TrueT, causes)"
    by (auto simp: rule_state_def bindE_Inr_iff)
  from k have ok by (cases ok) auto
  with k obtain src e where e: "sub_lit rule ''when'' = Inr src" "parse_expression src = Inr e"
    "evaluate_node cx (expr_tree e) c1 = Inr (TrueT, causes)"
    by (auto simp: bindE_Inr_iff)
  have src: "get_lit rule ''when'' = Some src" using e(1) by (simp add: subscript_Inr_iff)
  have "predicate_ok (expr_tree e)"
    using parse_expression_Inr(1) [OF e(2)] wf_dict_get [OF assms(2) src] by simp
  then have "means (meaning cx (expr_tree e)) (evaluate_node cx (expr_tree e))" by (rule evaluate_node_means)
  with e(3) have "meaning cx (expr_tree e) = TrueT" unfolding means_def by auto
  then have "settled cx (expr_tree e)" "holds cx (expr_tree e)" by (auto simp: meaning_def split: if_split_asm)
  with n requirements_state_True [of cx needed "[]" c1] \<open>ok\<close> e(2) src show ?thesis
    unfolding rule_satisfied_def by auto
qed

section \<open>Preparation\<close>

lemma otherwise_None: "otherwise a b = Inr None \<longleftrightarrow> a = Inr None \<and> b = Inr None"
  by (auto simp: otherwise_def bindE_Inr_iff split: if_split_asm)

lemma reported_None: "reported r = Inr None \<longleftrightarrow> (\<exists>x. r = Inr x)"
  by (auto simp: reported_def split: sum.splits exn.splits)

lemma prepare_items_None:
  "prepare_items frozen_at its = Inr None \<Longrightarrow>
   \<forall>item \<in> set its. \<exists>at t frozen. get_lit item ''acquired_at'' = Some at \<and> instant_of at = Inr t \<and>
     instant_of frozen_at = Inr frozen \<and> t \<le> frozen"
proof (induction its)
  case (Cons item its)
  then obtain at t frozen where "get_lit item ''acquired_at'' = Some at" "instant_of at = Inr t"
    "instant_of frozen_at = Inr frozen" "t \<le> frozen" "prepare_items frozen_at its = Inr None"
    by (auto simp: bindE_Inr_iff subscript_Inr_iff split: if_split_asm)
  with Cons.IH show ?case by auto
qed simp

lemma prepare_rules_None:
  "prepare_rules pinned rules = Inr None \<Longrightarrow>
   \<forall>rule \<in> set rules. \<exists>src e. get_lit rule ''when'' = Some src \<and> parse_expression src = Inr e \<and>
     validate_expression e pinned = Inr ()"
proof (induction rules)
  case (Cons rule rules)
  then have "prepare_rule pinned rule = Inr None" "prepare_rules pinned rules = Inr None"
    by (simp_all add: otherwise_None)
  from this(1) have "\<exists>u. bindE (sub_lit rule ''when'') (\<lambda>source.
      bindE (parse_expression source) (\<lambda>parsed. validate_expression parsed pinned)) = Inr u"
    by (auto simp: prepare_rule_def bindE_Inr_iff split: sum.split_asm exn.split_asm)
  then have "\<exists>src e. get_lit rule ''when'' = Some src \<and> parse_expression src = Inr e \<and>
     validate_expression e pinned = Inr ()"
    by (auto simp: bindE_Inr_iff subscript_Inr_iff)
  with Cons.IH \<open>prepare_rules pinned rules = Inr None\<close> show ?case by simp
qed simp

text \<open>The inputs of an evaluation that is not an error.\<close>

definition inputs_ok ::
  "externals \<Rightarrow> loaded_rulebook \<Rightarrow> json \<Rightarrow> json \<Rightarrow> registry \<Rightarrow> json list \<Rightarrow> bool" where
  "inputs_ok X pinned candidate snapshot registry rules \<longleftrightarrow>
     validate X candidate candidate_schema_id registry = Inr () \<and>
     validate X snapshot snapshot_schema_id registry = Inr () \<and>
     (\<exists>frozen_at its. get_lit snapshot ''frozen_at'' = Some frozen_at \<and> items_of snapshot ''items'' = Inr its \<and>
        rulebook_applies pinned frozen_at = Inr True \<and>
        (\<forall>item \<in> set its. \<exists>at t frozen. get_lit item ''acquired_at'' = Some at \<and> instant_of at = Inr t \<and>
           instant_of frozen_at = Inr frozen \<and> t \<le> frozen)) \<and>
     (\<forall>rule \<in> set rules. \<exists>src e. get_lit rule ''when'' = Some src \<and> parse_expression src = Inr e \<and>
        validate_expression e pinned = Inr ())"

lemma prepare_None:
  assumes "prepare X pinned candidate snapshot registry = Inr None" "rulebook_value pinned = Inr w"
    "items_of w ''rules'' = Inr rules"
  shows "inputs_ok X pinned candidate snapshot registry rules"
proof -
  from assms(1) have v: "validate X candidate candidate_schema_id registry = Inr ()"
    "validate X snapshot snapshot_schema_id registry = Inr ()"
    by (auto simp: prepare_def otherwise_None reported_None)
  from assms obtain frozen_at its where f: "get_lit snapshot ''frozen_at'' = Some frozen_at"
    "items_of snapshot ''items'' = Inr its" "prepare_items frozen_at its = Inr None"
    "rulebook_applies pinned frozen_at = Inr True" "prepare_rules pinned rules = Inr None"
    by (auto simp: prepare_def otherwise_None bindE_Inr_iff subscript_Inr_iff split: if_split_asm)
  show ?thesis
    unfolding inputs_ok_def using v f(1,2,4) prepare_items_None [OF f(3)] prepare_rules_None [OF f(5)] by blast
qed

lemma evaluate_cases:
  assumes "evaluate X pinned candidate snapshot registry = Inr r"
  obtains (error) reason where "prepare X pinned candidate snapshot registry = Inr (Some reason)"
      "ev_outcome r = lit ''ERROR''"
    | (walked) w cx rules where "rulebook_value pinned = Inr w" "make_context w candidate snapshot = Inr cx"
      "items_of w ''rules'' = Inr rules" "inputs_ok X pinned candidate snapshot registry rules"
      "walk_rules X registry cx 0 rules [] = Inr r" "cx_rulebook cx = w"
proof -
  from assms obtain failure where f: "prepare X pinned candidate snapshot registry = Inr failure"
    and e: "(case failure of
            Some r \<Rightarrow> make_result X registry (lit ''ERROR'') [r] None None
          | None \<Rightarrow>
              bindE (rulebook_value pinned) (\<lambda>value.
              bindE (make_context value candidate snapshot) (\<lambda>cx. walk X registry cx))) = Inr r"
    by (auto simp: evaluate_def bindE_Inr_iff split: if_split_asm)
  show thesis
  proof (cases failure)
    case (Some q)
    with e f show thesis using error make_result_outcome by auto
  next
    case None
    with e obtain w cx where w: "rulebook_value pinned = Inr w" "make_context w candidate snapshot = Inr cx"
      "walk X registry cx = Inr r"
      by (auto simp: bindE_Inr_iff)
    have cw: "cx_rulebook cx = w" using w(2) by (auto simp: make_context_def bindE_Inr_iff)
    from w(3) obtain rules where rs: "items_of w ''rules'' = Inr rules" "walk_rules X registry cx 0 rules [] = Inr r"
      by (auto simp: walk_def cw bindE_Inr_iff)
    show thesis
      by (rule walked [OF w(1,2) rs(1) prepare_None [OF f [unfolded None] w(1) rs(1)] rs(2) cw])
  qed
qed

end
