(* ===== verification/Replay.thy ===== *)
theory Replay
  imports Evaluation
begin

text \<open>
  Replay of an evaluation: the gate gives the same result on the values that the strict loader rebuilds
  from canonical text, whose members come in another order.
\<close>

lemma value_equal_sort: "wf_json w \<Longrightarrow> value_equal (sort_json v) w = value_equal v w \<and> value_equal v (sort_json w) = value_equal v w"
proof (induction v w rule: value_equal.induct)
  case (1 vs ws)
  have "value_equal (sort_json v) w = value_equal v w \<and> value_equal v (sort_json w) = value_equal v w"
    if "(v, w) \<in> set (zip vs ws)" for v w
    using "1.IH" [of "(v, w)" v w] that "1.prems" by (auto dest: set_zip_rightD)
  then have "(\<forall>p \<in> set (zip vs ws). value_equal (sort_json (fst p)) (snd p)) = (\<forall>p \<in> set (zip vs ws). value_equal (fst p) (snd p))"
    "(\<forall>p \<in> set (zip vs ws). value_equal (fst p) (sort_json (snd p))) = (\<forall>p \<in> set (zip vs ws). value_equal (fst p) (snd p))"
    by auto
  then show ?case by (simp add: zip_map1 zip_map2 case_prod_unfold)
next
  case (2 d e)
  have "py_eq (sort_json (JDict d)) (JDict e) = py_eq (JDict d) (JDict e)" by (rule py_eq_sort_left)
  moreover have "py_eq (JDict d) (sort_json (JDict e)) = py_eq (JDict d) (JDict e)"
    by (rule py_eq_sort_right) (rule "2.prems")
  ultimately show ?case by (simp only: value_equal.simps sort_json.simps)
qed auto

lemma instant_of_sort [simp]: "instant_of (sort_json v) = instant_of v"
  by (cases v) (simp_all add: instant_of_def)

lemma numeric_parts_sort [simp]: "numeric_parts (sort_json v) = numeric_parts v"
  by (cases v) (simp_all add: numeric_parts_def)

lemma compare_numeric_sort [simp]:
  "compare_numeric (sort_json v) w = compare_numeric v w" "compare_numeric v (sort_json w) = compare_numeric v w"
  by (simp_all add: compare_numeric_def)

lemma descend_sort:
  "(\<And>u. v = Some u \<Longrightarrow> wf_json u) \<Longrightarrow> \<forall>s \<in> set segments. segment_ok s \<Longrightarrow>
   descend (map_option sort_json v) segments = map_option sort_json (descend v segments)"
proof (induction v segments rule: descend.induct)
  case (3 v name segments)
  have "wf_json v" using "3.prems"(1) by simp
  then show ?case using 3 by (simp add: dict_get_sort) (metis wf_dict_get)
next
  case (4 v i segments)
  have w: "wf_json v" using "4.prems"(1) by simp
  show ?case
  proof (cases v)
    case (JList vs)
    show ?thesis
    proof (cases "i \<ge> int (length vs)")
      case False
      have i: "nat i < length vs" using False "4.prems"(2) by auto
      then have "wf_json (vs ! nat i)" using w JList by simp
      then show ?thesis using 4 JList False i by simp
    qed (simp add: JList)
  qed simp_all
qed auto

text \<open>A context on sorted inputs.\<close>

definition sort_context :: "gate_context \<Rightarrow> gate_context" where
  "sort_context cx = cx\<lparr>cx_candidate := sort_json (cx_candidate cx),
     cx_items := map (\<lambda>(k, v). (k, sort_json v)) (cx_items cx)\<rparr>"

definition wf_context :: "gate_context \<Rightarrow> bool" where
  "wf_context cx \<longleftrightarrow> wf_json (cx_candidate cx) \<and> (\<forall>(k, v) \<in> set (cx_items cx). wf_json v)"

lemma wf_context_item: "wf_context cx \<Longrightarrow> map_of (cx_items cx) i = Some item \<Longrightarrow> wf_json item"
  by (auto simp: wf_context_def dest!: map_of_SomeD)

lemma sort_context_item:
  "map_of (cx_items (sort_context cx)) i = map_option sort_json (map_of (cx_items cx) i)"
  by (simp add: sort_context_def map_of_map_snd)

lemma is_ok_sort: "wf_json item \<Longrightarrow> is_ok (sort_json item) = is_ok item"
  by (cases "sub_lit item ''status''") (simp_all add: is_ok_def subscript_sort)

lemma item_ok_sort: "wf_context cx \<Longrightarrow> item_ok (sort_context cx) i = item_ok cx i"
  using wf_context_item [of cx i] by (auto simp: item_ok_def sort_context_item is_ok_sort split: option.split)

fun sort_resolved :: "resolved \<Rightarrow> resolved" where
  "sort_resolved Unsettled = Unsettled"
| "sort_resolved (Found v) = Found (map_option sort_json v)"

lemma literal_sort: "literal_ok v \<Longrightarrow> sort_json v = v"
  using literal_wf by blast

lemma resolve_sort:
  assumes "wf_context cx" "operand_ok n"
  shows "resolve (sort_context cx) n causes = map_sum id (map_prod sort_resolved id) (resolve cx n causes)"
proof (cases n)
  case (Path root segments)
  from assms(2) Path obtain name others where s: "segments = Member name # others"
    and ok: "\<forall>s \<in> set segments. segment_ok s" by auto
  have c: "cx_candidate (sort_context cx) = sort_json (cx_candidate cx)" by (simp add: sort_context_def)
  have wc: "wf_json (cx_candidate cx)" using assms(1) by (simp add: wf_context_def)
  show ?thesis
  proof (cases "root = lit ''evidence''")
    case True
    have g: "Option.bind (map_of (cx_items (sort_context cx)) name) (\<lambda>item. get_lit item ''value'')
        = map_option sort_json (Option.bind (map_of (cx_items cx) name) (\<lambda>item. get_lit item ''value''))"
      using wf_context_item [OF assms(1), of name]
      by (cases "map_of (cx_items cx) name") (simp_all add: sort_context_item dict_get_sort)
    have w: "wf_json u" if "Option.bind (map_of (cx_items cx) name) (\<lambda>item. get_lit item ''value'') = Some u" for u
      using that wf_context_item [OF assms(1), of name] wf_dict_get
      by (cases "map_of (cx_items cx) name") auto
    have d: "descend (Some (sort_json u)) others = map_option sort_json (descend (Some u) others)"
      if "Option.bind (map_of (cx_items cx) name) (\<lambda>item. get_lit item ''value'') = Some u" for u
      using descend_sort [of "Some u" others] w [OF that] ok s by simp
    show ?thesis
    proof (cases "item_ok cx name")
      case (Inr b)
      then show ?thesis
        using True d by (cases b; cases "Option.bind (map_of (cx_items cx) name) (\<lambda>item. get_lit item ''value'')")
          (simp_all add: resolve_def Path s resolve_evidence_def item_ok_sort [OF assms(1)] g)
    qed (use True in \<open>simp add: resolve_def Path s resolve_evidence_def item_ok_sort [OF assms(1)]\<close>)
  next
    case False
    have "descend (get_lit (sort_json (cx_candidate cx)) ''identity'') segments
        = map_option sort_json (descend (get_lit (cx_candidate cx) ''identity'') segments)"
      unfolding dict_get_sort [OF wc] using wf_dict_get [OF wc] by (intro descend_sort) (auto simp: ok)
    moreover have "descend (Some (sort_json (cx_candidate cx))) segments
        = map_option sort_json (descend (Some (cx_candidate cx)) segments)"
      using descend_sort [of "Some (cx_candidate cx)" segments] wc ok by simp
    ultimately show ?thesis using False by (simp add: resolve_def Path c)
  qed
qed (use assms(2) in \<open>auto simp: resolve_def literal_sort\<close>)

lemma gate_equal_sort:
  "(\<And>u. w = Some u \<Longrightarrow> wf_json u) \<Longrightarrow>
   gate_equal (map_option sort_json v) (map_option sort_json w) = gate_equal v w"
  using value_equal_sort by (cases v; cases w) auto

lemma resolved_wf:
  assumes "wf_context cx" "operand_ok n" "resolve cx n causes = Inr (Found (Some u), c)"
  shows "wf_json u"
proof -
  have d: "wf_json u" if "descend v segments = Some u" "\<And>x. v = Some x \<Longrightarrow> wf_json x" "\<forall>s \<in> set segments. segment_ok s"
    for v segments
    using that
  proof (induction v segments rule: descend.induct)
    case (3 v name segments)
    then show ?case using wf_dict_get by (metis descend.simps(3) list.set_intros(2) option.inject)
  next
    case (4 v i segments)
    show ?case
    proof (cases v)
      case (JList vs)
      with "4.prems"(1) have i: "\<not> i \<ge> int (length vs)" "descend (Some (vs ! nat i)) segments = Some u"
        by (auto split: if_split_asm)
      have "nat i < length vs" using i(1) "4.prems"(3) by auto
      then have "wf_json (vs ! nat i)" using "4.prems"(2) [of v] JList by simp
      then show ?thesis using "4.IH" [OF JList i(1)] i(2) "4.prems"(3) by simp
    qed (use "4.prems"(1) in simp_all)
  qed auto
  have wc: "wf_json (cx_candidate cx)" using assms(1) by (simp add: wf_context_def)
  show ?thesis
  proof (cases n)
    case (Literal v)
    with assms show ?thesis using literal_wf by (auto simp: resolve_def)
  next
    case (Path root segments)
    from assms(2) Path obtain name others where s: "segments = Member name # others"
      and ok: "\<forall>s \<in> set segments. segment_ok s" by auto
    show ?thesis
    proof (cases "root = lit ''evidence''")
      case True
      with assms(3) Path s have "resolve_evidence cx name others causes = Inr (Found (Some u), c)"
        by (simp add: resolve_def)
      then obtain item v where iv: "map_of (cx_items cx) name = Some item" "get_lit item ''value'' = Some v"
        "descend (Some v) others = Some u"
        by (auto simp: resolve_evidence_def bindE_Inr_iff bind_eq_Some_conv split: option.split_asm if_split_asm)
      have "wf_json v" by (rule wf_dict_get [OF wf_context_item [OF assms(1) iv(1)] iv(2)])
      then show ?thesis using d [OF iv(3)] ok s by simp
    next
      case False
      with assms(3) Path have "descend (if root = lit ''identity'' then get_lit (cx_candidate cx) ''identity''
          else Some (cx_candidate cx)) segments = Some u"
        by (auto simp: resolve_def split: if_split_asm)
      then show ?thesis using d [OF _ _ ok] wf_dict_get [OF wc] wc by (auto split: if_split_asm)
    qed
  qed (use assms(3) in \<open>auto simp: resolve_def\<close>)
qed

section \<open>Steps\<close>

lemma evaluate_compare_sort:
  assumes "wf_context cx" "operand_ok l" "operand_ok r"
  shows "evaluate_compare (sort_context cx) operator l r causes = evaluate_compare cx operator l r causes"
proof (cases "resolve cx l causes")
  case (Inr p)
  obtain v c1 where l: "resolve cx l causes = Inr (v, c1)" using Inr by (cases p) auto
  show ?thesis
  proof (cases "resolve cx r c1")
    case (Inr q)
    obtain w c2 where r: "resolve cx r c1 = Inr (w, c2)" using Inr by (cases q) auto
    have l': "resolve (sort_context cx) l causes = Inr (sort_resolved v, c1)"
      and r': "resolve (sort_context cx) r c1 = Inr (sort_resolved w, c2)"
      using resolve_sort [OF assms(1,2)] resolve_sort [OF assms(1,3)] l r by simp_all
    show ?thesis
    proof (cases "\<exists>a b. v = Found a \<and> w = Found b")
      case True
      then obtain a b where ab: "v = Found a" "w = Found b" by blast
      have "gate_equal (map_option sort_json a) (map_option sort_json b) = gate_equal a b"
        using resolved_wf [OF assms(1,3)] r ab by (intro gate_equal_sort) auto
      moreover have "Option.bind (map_option sort_json a) (\<lambda>x. Option.bind (map_option sort_json b) (compare_numeric x))
          = Option.bind a (\<lambda>x. Option.bind b (compare_numeric x))"
        by (cases a; cases b) simp_all
      ultimately show ?thesis by (simp add: evaluate_compare_def l r l' r' ab)
    next
      case False
      then show ?thesis by (cases v; cases w) (simp_all add: evaluate_compare_def l r l' r')
    qed
  qed (use resolve_sort [OF assms(1,2)] resolve_sort [OF assms(1,3)] l in \<open>simp add: evaluate_compare_def\<close>)
qed (use resolve_sort [OF assms(1,2)] in \<open>simp add: evaluate_compare_def\<close>)

lemma evaluate_membership_sort:
  assumes "wf_context cx" "operand_ok n" "\<forall>m \<in> set members. literal_ok m"
  shows "evaluate_membership (sort_context cx) operator n members causes = evaluate_membership cx operator n members causes"
proof (cases "resolve cx n causes")
  case (Inr p)
  obtain v c1 where n: "resolve cx n causes = Inr (v, c1)" using Inr by (cases p) auto
  have n': "resolve (sort_context cx) n causes = Inr (sort_resolved v, c1)"
    using resolve_sort [OF assms(1,2)] n by simp
  have "gate_equal (map_option sort_json a) (Some m) = gate_equal a (Some m)" if "m \<in> set members" for a m
    using gate_equal_sort [of "Some m" a] literal_sort literal_wf assms(3) that by auto
  then have "list_ex (\<lambda>m. gate_equal (map_option sort_json a) (Some m)) members
      = list_ex (\<lambda>m. gate_equal a (Some m)) members" for a
    by (auto simp: list_ex_iff)
  then show ?thesis by (cases v) (simp_all add: evaluate_membership_def n n')
qed (use resolve_sort [OF assms(1,2)] in \<open>simp add: evaluate_membership_def\<close>)

lemma evaluate_matches_sort:
  assumes "wf_context cx" "operand_ok n"
  shows "evaluate_matches (sort_context cx) n pat causes = evaluate_matches cx n pat causes"
proof (cases "resolve cx n causes")
  case (Inr p)
  obtain v c1 where n: "resolve cx n causes = Inr (v, c1)" using Inr by (cases p) auto
  have n': "resolve (sort_context cx) n causes = Inr (sort_resolved v, c1)"
    using resolve_sort [OF assms] n by simp
  show ?thesis
  proof (cases v)
    case (Found a)
    show ?thesis
    proof (cases a)
      case (Some u)
      show ?thesis by (cases u) (simp_all add: evaluate_matches_def n n' Found Some)
    qed (simp add: evaluate_matches_def n n' Found)
  qed (simp add: evaluate_matches_def n n')
qed (use resolve_sort [OF assms] in \<open>simp add: evaluate_matches_def\<close>)

lemma is_fresh_sort:
  assumes "wf_context cx"
  shows "is_fresh (sort_context cx) i = is_fresh cx i"
proof -
  have d: "cx_declarations (sort_context cx) = cx_declarations cx" "cx_frozen_at (sort_context cx) = cx_frozen_at cx"
    by (simp_all add: sort_context_def)
  have a: "(case map_of (cx_items (sort_context cx)) i of
        None \<Rightarrow> Inl (PyErr PyKeyError i)
      | Some item \<Rightarrow> bindE (sub_lit item ''acquired_at'') instant_of)
    = (case map_of (cx_items cx) i of
        None \<Rightarrow> Inl (PyErr PyKeyError i)
      | Some item \<Rightarrow> bindE (sub_lit item ''acquired_at'') instant_of)"
  proof (cases "map_of (cx_items cx) i")
    case (Some item)
    have "bindE (sub_lit (sort_json item) ''acquired_at'') instant_of = bindE (sub_lit item ''acquired_at'') instant_of"
      unfolding subscript_sort [OF wf_context_item [OF assms Some]]
      by (cases "sub_lit item ''acquired_at''") simp_all
    with Some show ?thesis by (simp add: sort_context_item)
  qed (simp add: sort_context_item)
  show ?thesis unfolding is_fresh_def item_ok_sort [OF assms] d a ..
qed

lemma each_state_same:
  "(\<And>x c. x \<in> set xs \<Longrightarrow> f x c = g x c) \<Longrightarrow> each_state f xs c = each_state g xs c"
  by (rule each_state_cong) auto

lemma evaluate_node_sort:
  "wf_context cx \<Longrightarrow> predicate_ok n \<Longrightarrow> evaluate_node (sort_context cx) n causes = evaluate_node cx n causes"
proof (induction n arbitrary: causes)
  case (And_node ns)
  have "each_state (evaluate_node (sort_context cx)) ns causes = each_state (evaluate_node cx) ns causes"
    by (rule each_state_same) (use And_node in auto)
  then show ?case by simp
next
  case (Or_node ns)
  have "each_state (evaluate_node (sort_context cx)) ns causes = each_state (evaluate_node cx) ns causes"
    by (rule each_state_same) (use Or_node in auto)
  then show ?case by simp
next
  case (Matches n pat)
  then show ?case using evaluate_matches_sort [OF Matches(2), of n] by (auto intro: path_operand)
qed (simp_all add: evaluate_compare_sort evaluate_membership_sort is_fresh_sort item_ok_sort)

lemma requirements_state_sort:
  "wf_context cx \<Longrightarrow> requirements_state (sort_context cx) needed causes = requirements_state cx needed causes"
proof (induction needed)
  case (Cons i needed)
  have "required_item (sort_context cx) i = required_item cx i"
    by (cases i) (simp_all add: required_item_def item_ok_sort [OF Cons.prems])
  with Cons show ?case by (simp cong: if_cong)
qed simp

lemma rule_state_sort:
  assumes "wf_context cx" "wf_json rule"
  shows "rule_state (sort_context cx) rule causes = rule_state cx rule causes"
proof -
  have "evaluate_node (sort_context cx) (expr_tree e) c = evaluate_node cx (expr_tree e) c"
    if "sub_lit rule ''when'' = Inr src" "parse_expression src = Inr e" for src e c
    using that parse_expression_Inr(1) [OF that(2)] wf_dict_get [OF assms(2)] evaluate_node_sort [OF assms(1)]
    by (auto simp: subscript_Inr_iff)
  then show ?thesis
    unfolding rule_state_def
    by (auto simp: requirements_state_sort [OF assms(1)] intro!: bindE_cong)
qed

lemma walk_rules_sort:
  "wf_context cx \<Longrightarrow> \<forall>r \<in> set rules. wf_json r \<Longrightarrow>
   walk_rules X registry (sort_context cx) ordinal rules trace = walk_rules X registry cx ordinal rules trace"
proof (induction rules arbitrary: ordinal trace)
  case Nil
  show ?case by (simp add: sort_context_def)
next
  case (Cons rule rules)
  then have "rule_state (sort_context cx) rule [] = rule_state cx rule []"
    by (intro rule_state_sort) auto
  moreover have "walk_rules X registry (sort_context cx) (Suc ordinal) rules t = walk_rules X registry cx (Suc ordinal) rules t" for t
    using Cons by simp
  ultimately show ?case by (simp cong: truth.case_cong)
qed

section \<open>Contexts and preparation\<close>

lemma items_of_sort:
  assumes "wf_json v" "items_of v name = Inr vs" "vs = [] \<or> is_dict (hd vs)"
  shows "items_of (sort_json v) name = Inr (map sort_json vs)"
proof -
  from assms(2) obtain u where u: "dict_get v (lit name) = Some u" "py_iter u = Inr vs"
    by (auto simp: items_of_def bindE_Inr_iff subscript_Inr_iff)
  have "py_iter (sort_json u) = Inr (map sort_json vs)"
  proof (cases u)
    case (JDict d)
    with u(2) assms(3) have "d = []" by (cases d) auto
    with JDict u(2) show ?thesis by simp
  next
    case (JStr t)
    with u(2) assms(3) have "t = []" by (cases t) auto
    with JStr u(2) show ?thesis by simp
  qed (use u(2) in auto)
  with u(1) show ?thesis
    by (simp add: items_of_def bindE_Inr_iff subscript_Inr_iff dict_get_sort [OF assms(1)])
qed

lemma subscript_dict: "subscript v k = Inr w \<Longrightarrow> is_dict v"
  by (cases v) auto

lemma index_by_id_dicts: "index_by_id vs d = Inr d' \<Longrightarrow> \<forall>x \<in> set vs. is_dict x"
proof (induction vs arbitrary: d)
  case (Cons v vs)
  from Cons.prems obtain x where x: "sub_lit v ''id'' = Inr x" by (cases "sub_lit v ''id''") auto
  with Cons.prems obtain k where "index_by_id vs (dset k v d) = Inr d'" by (cases x) auto
  with Cons.IH subscript_dict [OF x] show ?case by simp
qed simp

lemma dset_map_snd: "dset k (f v) (map (\<lambda>(k, v). (k, f v)) d) = map (\<lambda>(k, v). (k, f v)) (dset k v d)"
  by (induction k v d rule: dset.induct) auto

lemma index_by_id_sort:
  "index_by_id vs d = Inr d' \<Longrightarrow> \<forall>v \<in> set vs. wf_json v \<Longrightarrow>
   index_by_id (map sort_json vs) (map (\<lambda>(k, v). (k, sort_json v)) d) = Inr (map (\<lambda>(k, v). (k, sort_json v)) d')"
proof (induction vs arbitrary: d)
  case (Cons v vs)
  from Cons.prems obtain x where x: "sub_lit v ''id'' = Inr x" by (cases "sub_lit v ''id''") auto
  with Cons.prems obtain k where k: "x = JStr k" "index_by_id vs (dset k v d) = Inr d'" by (cases x) auto
  have "sub_lit (sort_json v) ''id'' = Inr (JStr k)" using x k(1) Cons.prems(2) by (simp add: subscript_sort)
  with Cons.IH [OF k(2)] Cons.prems(2) show ?case by (simp add: dset_map_snd)
qed simp

lemma make_context_sort:
  assumes "make_context w c s = Inr cx" "wf_json c" "wf_json s"
  shows "make_context w (sort_json c) (sort_json s) = Inr (sort_context cx) \<and> wf_context cx"
proof -
  from assms(1) obtain evidence ds its by_id at frozen where e: "items_of w ''evidence'' = Inr evidence"
    "index_by_id evidence [] = Inr ds" "items_of s ''items'' = Inr its" "index_by_id its [] = Inr by_id"
    "sub_lit s ''frozen_at'' = Inr at" "instant_of at = Inr frozen"
    "cx = \<lparr>cx_rulebook = w, cx_candidate = c, cx_declarations = ds, cx_items = by_id, cx_frozen_at = frozen\<rparr>"
    by (auto simp: make_context_def bindE_Inr_iff)
  have wi: "\<forall>i \<in> set its. wf_json i" using wf_items_of [OF e(3) assms(3)] .
  have i: "items_of (sort_json s) ''items'' = Inr (map sort_json its)"
    using index_by_id_dicts [OF e(4)] by (intro items_of_sort [OF assms(3) e(3)]) (cases its; simp)
  have b: "index_by_id (map sort_json its) [] = Inr (map (\<lambda>(k, v). (k, sort_json v)) by_id)"
    using index_by_id_sort [OF e(4) wi] by simp
  have f: "sub_lit (sort_json s) ''frozen_at'' = Inr (sort_json at)" using e(5) by (simp add: subscript_sort [OF assms(3)])
  have "make_context w (sort_json c) (sort_json s) = Inr (sort_context cx)"
    unfolding make_context_def e(1,2) bindE_simps i b f by (simp add: e(6,7) sort_context_def)
  moreover have "wf_context cx"
    using index_by_id_wf [OF e(4) wi] assms(2) by (auto simp: wf_context_def e(7))
  ultimately show ?thesis by blast
qed

definition late_reason :: "json \<Rightarrow> json" where
  "late_reason i = reason (lit ''evidence_order_invalid'') (lit ''Evidence was acquired after the freeze.'')
     [(lit ''evidence_id'', i)]"

text \<open>Two failures that differ at most in the member order of the identifier they report.\<close>

definition same_failure :: "json option \<Rightarrow> json option \<Rightarrow> bool" where
  "same_failure f g \<longleftrightarrow>
     f = g \<or> (\<exists>i. wf_json i \<and> f = Some (late_reason i) \<and> g = Some (late_reason (sort_json i)))"

lemma prepare_items_sort:
  assumes "prepare_items at its = Inr f" "\<forall>i \<in> set its. wf_json i"
  shows "\<exists>g. prepare_items (sort_json at) (map sort_json its) = Inr g \<and> same_failure f g"
  using assms
proof (induction its)
  case (Cons i its)
  then obtain v t u where e: "sub_lit i ''acquired_at'' = Inr v" "instant_of v = Inr t" "instant_of at = Inr u"
    and r: "(if t > u
       then bindE (sub_lit i ''id'') (\<lambda>j.
              Inr (Some (reason (lit ''evidence_order_invalid'') (lit ''Evidence was acquired after the freeze.'')
                [(lit ''evidence_id'', j)])))
       else prepare_items at its) = Inr f"
    by (auto simp: bindE_Inr_iff)
  have a: "sub_lit (sort_json i) ''acquired_at'' = Inr (sort_json v)"
    using e(1) Cons.prems(2) by (simp add: subscript_sort)
  show ?case
  proof (cases "t > u")
    case True
    with r obtain j where j: "sub_lit i ''id'' = Inr j" "f = Some (late_reason j)"
      by (auto simp: bindE_Inr_iff late_reason_def)
    have "sub_lit (sort_json i) ''id'' = Inr (sort_json j)"
      using j(1) Cons.prems(2) by (simp add: subscript_sort)
    moreover have "wf_json j" using j(1) Cons.prems(2) wf_dict_get by (auto simp: subscript_Inr_iff)
    ultimately show ?thesis using True by (auto simp: a e j(2) same_failure_def late_reason_def)
  next
    case False
    with r Cons show ?thesis by (simp add: a e)
  qed
qed (simp add: same_failure_def)

lemma otherwise_same:
  assumes "otherwise a b = Inr f"
    "\<And>h. a = Inr h \<Longrightarrow> \<exists>g. a' = Inr g \<and> same_failure h g"
    "\<And>h. b = Inr h \<Longrightarrow> \<exists>g. b' = Inr g \<and> same_failure h g"
  shows "\<exists>g. otherwise a' b' = Inr g \<and> same_failure f g"
proof -
  from assms(1) obtain h where h: "a = Inr h" "(if h = None then b else Inr h) = Inr f"
    by (auto simp: otherwise_def bindE_Inr_iff)
  from assms(2) [OF h(1)] obtain g where g: "a' = Inr g" "same_failure h g" by blast
  then have "h = None \<longleftrightarrow> g = None" by (auto simp: same_failure_def)
  with h g assms(3) show ?thesis by (auto simp: otherwise_def split: if_split_asm)
qed

lemma same_failure_refl [simp]: "same_failure f f"
  by (simp add: same_failure_def)

lemma rulebook_applies_sort [simp]: "rulebook_applies pinned (sort_json v) = rulebook_applies pinned v"
  by (simp add: rulebook_applies_def)

lemma items_with_instants: "prepare_items at its = Inr f \<Longrightarrow> is_dict (hd its) \<or> its = []"
  by (cases its) (auto simp: bindE_Inr_iff dest: subscript_dict)

lemma make_result_sort:
  assumes "make_result X registry o' [q] m t = Inr r"
    and "wf_json (result_document o' [q] m t)" "wf_json (result_document o' [q'] m t)"
    and "sort_json (result_document o' [q] m t) = sort_json (result_document o' [q'] m t)"
  shows "make_result X registry o' [q'] m t = Inr r"
proof -
  let ?d = "result_document o' [q] m t" and ?e = "result_document o' [q'] m t"
  from assms(1) obtain c where c: "validate X ?d outcome_schema_id registry = Inr ()" "canon_json ?d = Inr c"
    "r = \<lparr>ev_canonical = c, ev_outcome = o'\<rparr>"
    by (auto simp: make_result_def Let_def bindE_Inr_iff)
  have "validate X ?e outcome_schema_id registry = Inr ()"
    using c(1) validate_sort [OF assms(2), of X outcome_schema_id registry]
      validate_sort [OF assms(3), of X outcome_schema_id registry] assms(4) by simp
  moreover have "canon_json ?e = Inr c"
    using c(2) canon_json_sort_iff [of ?d c] canon_json_sort_iff [of ?e c] assms(4) by simp
  ultimately show ?thesis by (simp add: make_result_def Let_def c(3))
qed

lemma late_result_sort:
  assumes "make_result X registry (lit ''ERROR'') [late_reason i] None None = Inr r" "wf_json i"
  shows "make_result X registry (lit ''ERROR'') [late_reason (sort_json i)] None None = Inr r"
proof (rule make_result_sort [OF assms(1)])
  show "wf_json (result_document (lit ''ERROR'') [late_reason i] None None)"
    using assms(2) by (simp add: result_document_def late_reason_def reason_def keys_def)
  show "wf_json (result_document (lit ''ERROR'') [late_reason (sort_json i)] None None)"
    using assms(2) by (simp add: result_document_def late_reason_def reason_def keys_def)
  show "sort_json (result_document (lit ''ERROR'') [late_reason i] None None)
      = sort_json (result_document (lit ''ERROR'') [late_reason (sort_json i)] None None)"
    by (simp add: result_document_def late_reason_def reason_def)
qed

lemma prepare_sort:
  assumes "prepare X pinned c s registry = Inr f" "wf_json c" "wf_json s"
  shows "\<exists>g. prepare X pinned (sort_json c) (sort_json s) registry = Inr g \<and> same_failure f g"
proof -
  let ?tail = "\<lambda>at. bindE (rulebook_applies pinned at) (\<lambda>applies.
        if \<not> applies
        then Inr (Some (reason (lit ''rulebook_not_adopted'') (lit ''The rulebook was not adopted when this run started.'') []))
        else
          bindE (rulebook_value pinned) (\<lambda>value.
          bindE (items_of value ''rules'') (\<lambda>rules. prepare_rules pinned rules)))"
  let ?rest = "\<lambda>s. bindE (sub_lit s ''frozen_at'') (\<lambda>at.
     bindE (items_of s ''items'') (\<lambda>its. otherwise (prepare_items at its) (?tail at)))"
  have rest: "\<exists>g. ?rest (sort_json s) = Inr g \<and> same_failure h g" if rs: "?rest s = Inr h" for h
  proof -
    from rs obtain at its where e: "sub_lit s ''frozen_at'' = Inr at" "items_of s ''items'' = Inr its"
      "otherwise (prepare_items at its) (?tail at) = Inr h"
      by (auto simp: bindE_Inr_iff)
    from e(3) obtain k where k: "prepare_items at its = Inr k" by (auto simp: otherwise_def bindE_Inr_iff)
    have i: "items_of (sort_json s) ''items'' = Inr (map sort_json its)"
      using items_with_instants [OF k] by (intro items_of_sort [OF assms(3) e(2)]) auto
    have at: "sub_lit (sort_json s) ''frozen_at'' = Inr (sort_json at)"
      using e(1) by (simp add: subscript_sort [OF assms(3)])
    have "\<exists>g. otherwise (prepare_items (sort_json at) (map sort_json its)) (?tail (sort_json at)) = Inr g \<and> same_failure h g"
    proof (rule otherwise_same [OF e(3)])
      show "\<exists>g. prepare_items (sort_json at) (map sort_json its) = Inr g \<and> same_failure k g"
        if "prepare_items at its = Inr k" for k
        by (rule prepare_items_sort [OF that wf_items_of [OF e(2) assms(3)]])
    qed simp
    then show ?thesis by (simp add: at i)
  qed
  show ?thesis
    using assms(1) unfolding prepare_def validate_sort [OF assms(2)] validate_sort [OF assms(3)]
    by (rule otherwise_same) (use otherwise_same rest in \<open>auto simp del: rulebook_applies_sort\<close>)
qed

section \<open>The whole gate\<close>

lemma evaluate_sort:
  assumes "evaluate X pinned candidate snapshot registry = Inr r" "wf_json candidate" "wf_json snapshot"
  shows "evaluate X pinned (sort_json candidate) (sort_json snapshot) registry = Inr r"
proof -
  from assms(1) obtain failure where d: "is_dict candidate" "is_dict snapshot" and
    f: "prepare X pinned candidate snapshot registry = Inr failure" and
    k: "(case failure of
            Some r \<Rightarrow> make_result X registry (lit ''ERROR'') [r] None None
          | None \<Rightarrow>
              bindE (rulebook_value pinned) (\<lambda>value.
              bindE (make_context value candidate snapshot) (\<lambda>cx. walk X registry cx))) = Inr r"
    by (auto simp: evaluate_def bindE_Inr_iff split: if_split_asm)
  from prepare_sort [OF f assms(2,3)] obtain g where
    g: "prepare X pinned (sort_json candidate) (sort_json snapshot) registry = Inr g" "same_failure failure g" by blast
  show ?thesis
  proof (cases failure)
    case None
    with g have gn: "g = None" by (auto simp: same_failure_def)
    from k None obtain w cx where w: "rulebook_value pinned = Inr w" "make_context w candidate snapshot = Inr cx"
      "walk X registry cx = Inr r"
      by (auto simp: bindE_Inr_iff)
    from make_context_sort [OF w(2) assms(2,3)] have m: "make_context w (sort_json candidate) (sort_json snapshot)
        = Inr (sort_context cx)" and wf: "wf_context cx" by auto
    have "loadable w" using w(1) reload_loadable by (auto simp: rulebook_value_def)
    then have ww: "wf_json w" by (simp add: loadable_def)
    have cw: "cx_rulebook cx = w" "cx_rulebook (sort_context cx) = w"
      using w(2) by (auto simp: make_context_def bindE_Inr_iff sort_context_def)
    from w(3) obtain rules where rs: "items_of w ''rules'' = Inr rules" "walk_rules X registry cx 0 rules [] = Inr r"
      by (auto simp: walk_def cw bindE_Inr_iff)
    have "walk_rules X registry (sort_context cx) 0 rules [] = Inr r"
      using walk_rules_sort [OF wf wf_items_of [OF rs(1) ww]] rs(2) by simp
    then have "walk X registry (sort_context cx) = Inr r" by (simp add: walk_def cw rs(1))
    then show ?thesis using d g(1) by (simp add: evaluate_def gn w(1) m)
  next
    case (Some q)
    with k have q: "make_result X registry (lit ''ERROR'') [q] None None = Inr r" by simp
    have "\<exists>q'. g = Some q' \<and> make_result X registry (lit ''ERROR'') [q'] None None = Inr r"
      using g(2) Some q late_result_sort by (auto simp: same_failure_def)
    then show ?thesis using d g(1) by (auto simp: evaluate_def)
  qed
qed

end
