(* ===== verification/Judgement.thy ===== *)
theory Judgement
  imports Replay
begin

text \<open>
  The properties of the gate, \<^verbatim>\<open>src/vfy/gate.py\<close>, over the semantics of \<open>Evaluation\<close> and the
  reordering lemmas of \<open>Replay\<close>, with one evaluation worked out to the end.
\<close>

section \<open>A worked evaluation\<close>

definition sample_candidate :: json where
  "sample_candidate = JDict [(lit ''action'', JDict [(lit ''argv'', JList [JStr (lit ''/bin/true'')])]),
     (lit ''identity'', JDict [(lit ''name'', JStr (lit ''n''))]), (lit ''kind'', JStr (lit ''command''))]"

definition sample_snapshot_value :: json where
  "sample_snapshot_value =
     JDict [(lit ''snapshot_id'', JStr (lit ''s'')), (lit ''rulebook_digest'', JStr (lit ''sha256:'' @ replicate 64 48)),
            (lit ''frozen_at'', JStr sample_instant),
            (lit ''items'', JList [JDict [(lit ''id'', JStr (lit ''a'')), (lit ''order'', JInt 0),
               (lit ''status'', JStr (lit ''ok'')), (lit ''acquired_at'', JStr sample_instant), (lit ''value'', JInt 7)]]),
            (lit ''snapshot_digest'', JStr (lit ''sha256:'' @ replicate 64 48))]"

definition sample_rule :: json where
  "sample_rule = JDict [(lit ''id'', JStr (lit ''q'')), (lit ''outcome'', JStr (lit ''ALLOW'')),
     (lit ''reason'', JStr (lit ''observed'')), (lit ''requires_evidence'', JList [JStr (lit ''a'')]),
     (lit ''when'', JStr (lit ''present(a)''))]"

lemma sample_rules: "items_of (sort_json sample_document) ''rules'' = Inr [sample_rule]"
proof -
  have e: "sort_json (JList [JDict [(lit ''id'', JStr (lit ''q'')), (lit ''when'', JStr (lit ''present(a)'')),
               (lit ''requires_evidence'', JList [JStr (lit ''a'')]), (lit ''outcome'', JStr (lit ''ALLOW'')),
               (lit ''reason'', JStr (lit ''observed''))]]) = JList [sample_rule]"
    unfolding sample_rule_def by code_simp
  show ?thesis
    using subscript_sort [OF sample_document_ok(1), of "lit ''rules''"]
    by (simp add: items_of_def sample_document_def e del: sort_json.simps)
qed

lemma sample_default: "sub_lit (sort_json sample_document) ''default_outcome'' = Inr (JStr (lit ''HOLD''))"
  using subscript_sort [OF sample_document_ok(1), of "lit ''default_outcome''"]
  by (simp add: sample_document_def del: sort_json.simps)

lemma sample_evidence: "items_of (sort_json sample_document) ''evidence'' = Inr [JDict [(lit ''id'', JStr (lit ''a''))]]"
proof -
  have e: "sort_json (JList [JDict [(lit ''id'', JStr (lit ''a''))]]) = JList [JDict [(lit ''id'', JStr (lit ''a''))]]"
    by simp
  show ?thesis
    using subscript_sort [OF sample_document_ok(1), of "lit ''evidence''"]
    by (simp add: items_of_def sample_document_def e del: sort_json.simps)
qed

lemma sample_parse:
  obtains e where "parse_expression (JStr (lit ''present(a)'')) = Inr e" "expr_tree e = Present (lit ''a'')"
    "expr_evidence_ids e = [lit ''a'']" "\<exists>w. ast_json e = Inr w"
proof -
  have p: "parse (lit ''present(a)'') = Inr (Present (lit ''a''))" by code_simp
  have ok: "canon_ok (node_value (Present (lit ''a'')))" "jdepth (node_value (Present (lit ''a''))) \<le> max_depth"
    by (simp_all add: text_eval max_depth_def)
  from parse_expression_intro [OF p wf_lit ok] obtain e where
    e: "parse_expression (JStr (lit ''present(a)'')) = Inr e" "expr_tree e = Present (lit ''a'')"
    "expr_evidence_ids e = collect_evidence_ids (Present (lit ''a'')) []" by simp
  have wf: "wf_json (JStr (lit ''present(a)''))" by simp
  note pe = parse_expression_Inr [OF e(1) wf]
  have a: "\<exists>w. ast_json e = Inr w" using pe by blast
  have "expr_evidence_ids e = [lit ''a'']" unfolding e(3) by code_simp
  with e a show thesis by (intro that)
qed

definition sample_context :: gate_context where
  "sample_context = \<lparr>cx_rulebook = sort_json sample_document, cx_candidate = sample_candidate,
     cx_declarations = [(lit ''a'', JDict [(lit ''id'', JStr (lit ''a''))])],
     cx_items = [(lit ''a'', JDict [(lit ''id'', JStr (lit ''a'')), (lit ''order'', JInt 0),
               (lit ''status'', JStr (lit ''ok'')), (lit ''acquired_at'', JStr sample_instant), (lit ''value'', JInt 7)])],
     cx_frozen_at = 1704067200000000000\<rparr>"

lemma sample_make_context:
  "make_context (sort_json sample_document) sample_candidate sample_snapshot_value = Inr sample_context"
  unfolding make_context_def sample_evidence sample_context_def
  by (simp add: items_of_def sample_snapshot_value_def sample_instant_value)

lemma sample_rule_state: "rule_state sample_context sample_rule [] = Inr (TrueT, [])"
proof -
  have i: "item_ok sample_context (lit ''a'') = Inr True"
    by (simp add: item_ok_def sample_context_def is_ok_def)
  obtain e where e: "parse_expression (JStr (lit ''present(a)'')) = Inr e" "expr_tree e = Present (lit ''a'')"
    "\<exists>w. ast_json e = Inr w" by (rule sample_parse)
  then show ?thesis
    by (auto simp: rule_state_def required_evidence_def sample_rule_def required_item_def i)
qed

lemma sample_prepare: "prepare sample_externals sample_pinned sample_candidate sample_snapshot_value sample_registry = Inr None"
proof -
  obtain e where e: "parse_expression (JStr (lit ''present(a)'')) = Inr e"
    "expr_evidence_ids e = [lit ''a'']" by (rule sample_parse)
  have v: "validate sample_externals v snapshot_schema_id sample_registry = Inr ()"
    "validate sample_externals v candidate_schema_id sample_registry = Inr ()" for v
    by (rule sample_registry_lookup [where c = SnapshotSchemaInvalid],
        simp add: code_by_id_def snapshot_schema_id_def,
        rule sample_registry_lookup [where c = CandidateSchemaInvalid],
        simp add: code_by_id_def candidate_schema_id_def)
  have r: "prepare_rules sample_pinned [sample_rule] = Inr None"
    by (simp add: prepare_rule_def sample_rule_def e validate_expression_def sample_value sample_evidence otherwise_def keys_def)
  have a: "rulebook_applies sample_pinned (JStr sample_instant) = Inr True"
    by (simp add: rulebook_applies_def sample_pinned_def sample_instant_value)
  have p: "prepare_items (JStr sample_instant) [JDict [(lit ''id'', JStr (lit ''a'')), (lit ''order'', JInt 0),
               (lit ''status'', JStr (lit ''ok'')), (lit ''acquired_at'', JStr sample_instant), (lit ''value'', JInt 7)]] = Inr None"
    by (simp add: sample_instant_value)
  show ?thesis
    unfolding prepare_def v reported_def
    by (simp add: otherwise_def sample_snapshot_value_def items_of_def p a sample_value
        sample_rules [unfolded items_of_def] r del: prepare_items.simps prepare_rules.simps)
qed

definition sample_outcome_document :: json where
  "sample_outcome_document =
     result_document (lit ''ALLOW'') [JDict [(lit ''code'', JStr (lit ''rule_allow'')),
       (lit ''message'', JStr (lit ''observed'')), (lit ''rule_id'', JStr (lit ''q''))]]
       (Some (JStr (lit ''q''))) (Some [lit ''0:q:true''])"

lemma sample_evaluate_outcome:
  "evaluate sample_externals sample_pinned sample_candidate sample_snapshot_value sample_registry
     = Inr \<lparr>ev_canonical = jtext sample_outcome_document, ev_outcome = lit ''ALLOW''\<rparr>"
proof -
  let ?d = "result_document (lit ''ALLOW'') [JDict [(lit ''code'', JStr (lit ''rule_allow'')),
     (lit ''message'', JStr (lit ''observed'')), (lit ''rule_id'', JStr (lit ''q''))]]
     (Some (JStr (lit ''q''))) (Some [lit ''0:q:true''])"
  have v: "validate sample_externals ?d outcome_schema_id sample_registry = Inr ()"
    by (rule sample_registry_lookup [where c = OutcomeSchemaInvalid])
      (simp add: code_by_id_def outcome_schema_id_def)
  have c: "canon_json ?d = Inr (jtext ?d)"
    unfolding canon_json_iff by (simp add: result_document_def no_surrogate_def is_surrogate_def lit_def list_all_iff)
  have t: "trace_entry 0 (JStr (lit ''q'')) TrueT = Inr (lit ''0:q:true'')"
    by code_simp
  have f: "sub_lit sample_rule ''id'' = Inr (JStr (lit ''q''))" "sub_lit sample_rule ''outcome'' = Inr (JStr (lit ''ALLOW''))"
    "sub_lit sample_rule ''reason'' = Inr (JStr (lit ''observed''))"
    by (simp_all add: sample_rule_def)
  have k: "code_lookup rule_codes (JStr (lit ''ALLOW'')) = Inr (lit ''ALLOW'', lit ''rule_allow'')"
    by (simp add: code_lookup_def rule_codes_def)
  have m: "make_result sample_externals sample_registry (lit ''ALLOW'')
     [JDict [(lit ''code'', JStr (lit ''rule_allow'')), (lit ''message'', JStr (lit ''observed'')), (lit ''rule_id'', JStr (lit ''q''))]]
     (Some (JStr (lit ''q''))) (Some [lit ''0:q:true'']) = Inr \<lparr>ev_canonical = jtext ?d, ev_outcome = lit ''ALLOW''\<rparr>"
    unfolding make_result_def Let_def v c by simp
  have w: "walk sample_externals sample_registry sample_context = Inr \<lparr>ev_canonical = jtext ?d, ev_outcome = lit ''ALLOW''\<rparr>"
    unfolding walk_def
    by (simp add: sample_context_def sample_rules sample_rule_state [unfolded sample_context_def] f t k m)
  have d: "is_dict sample_candidate" "is_dict sample_snapshot_value"
    by (simp_all add: sample_candidate_def sample_snapshot_value_def)
  show ?thesis
    unfolding evaluate_def sample_prepare sample_value using d by (simp add: sample_make_context w sample_outcome_document_def)
qed

lemma sample_evaluate:
  "\<exists>r. evaluate sample_externals sample_pinned sample_candidate sample_snapshot_value sample_registry = Inr r \<and>
     ev_outcome r = lit ''ALLOW''"
  by (simp add: sample_evaluate_outcome)

lemma sample_inputs_wf: "wf_json sample_candidate" "wf_json sample_snapshot_value"
  by (simp_all add: sample_candidate_def sample_snapshot_value_def keys_def sample_instant_def wf_zeros)

section \<open>What an \<open>ALLOW\<close> rests on\<close>

lemma earned_allow:
  assumes "evaluate X pinned candidate snapshot registry = Inr r" "ev_outcome r = lit ''ALLOW''"
  shows "\<exists>w cx rules k. rulebook_value pinned = Inr w \<and> make_context w candidate snapshot = Inr cx \<and>
     items_of w ''rules'' = Inr rules \<and> inputs_ok X pinned candidate snapshot registry rules \<and>
     k < length rules \<and> rule_satisfied cx (rules ! k) \<and>
     get_lit (rules ! k) ''outcome'' = Some (JStr (lit ''ALLOW'')) \<and>
     (\<forall>j < k. \<exists>causes. rule_state cx (rules ! j) [] = Inr (FalseT, causes))"
  using assms(1)
proof (cases rule: evaluate_cases)
  case (error reason)
  with assms(2) show ?thesis by simp
next
  case (walked w cx rules)
  from walk_rules_stops [OF walked(5)] obtain k where k: "stops_at cx rules k r" by blast
  have "k < length rules"
  proof (rule ccontr)
    assume "\<not> k < length rules"
    with k have "ev_outcome r \<in> {lit ''BLOCK'', lit ''HOLD''}" by (auto simp: stops_at_def)
    with assms(2) show False by simp
  qed
  with k assms(2) obtain causes where t: "rule_state cx (rules ! k) [] = Inr (TrueT, causes)"
    "get_lit (rules ! k) ''outcome'' = Some (JStr (lit ''ALLOW''))"
    by (auto simp: stops_at_def)
  have "wf_json w" using walked(1) reload_loadable by (auto simp: rulebook_value_def loadable_def)
  then have "wf_json (rules ! k)" using wf_items_of [OF walked(3)] \<open>k < length rules\<close> by simp
  with t have "rule_satisfied cx (rules ! k)" by (intro rule_state_True)
  with walked k t \<open>k < length rules\<close> show ?thesis
    unfolding stops_at_def by blast
qed

section \<open>Properties\<close>

text \<open>
  C13. The evaluator means what the expression says. On a context whose dictionaries have the fields the
  schemas require, an accepted expression always evaluates; its state is the three-valued meaning of
  the tree, true and false exactly where every atom is decided; a decided expression leaves the causes
  alone, and an undecided one has named at least one cause.
\<close>

theorem evaluate_node_meaning:
  assumes "context_ok cx" "parse_expression source = Inr e" "wf_json source"
  shows "\<exists>causes'. evaluate_node cx (expr_tree e) causes = Inr (meaning cx (expr_tree e), causes') \<and>
     (if settled cx (expr_tree e) then causes' = causes else causes' \<noteq> [])"
proof -
  have ok: "predicate_ok (expr_tree e)" using parse_expression_Inr(1) [OF assms(2,3)] .
  obtain state causes' where r: "evaluate_node cx (expr_tree e) causes = Inr (state, causes')"
    using evaluate_node_total [OF assms(1) ok] by blast
  have m: "means (meaning cx (expr_tree e)) (evaluate_node cx (expr_tree e))"
    by (rule evaluate_node_means [OF ok])
  show ?thesis
    using r m [unfolded means_def, rule_format, OF r] by (cases "settled cx (expr_tree e)") simp_all
qed

text \<open>
  C12. \<open>ALLOW\<close> is earned. Whenever the gate answers it, candidate and snapshot met their schemas, the
  rulebook was adopted by the freeze, nothing was acquired after it, every rule parses and names declared
  evidence; and some rule with that outcome has all of its required evidence and an expression that is
  decided and true, while every earlier rule was decided false.
\<close>

theorem allow_is_earned:
  assumes "evaluate X pinned candidate snapshot registry = Inr r" "ev_outcome r = lit ''ALLOW''"
  shows "\<exists>w cx rules k. rulebook_value pinned = Inr w \<and> make_context w candidate snapshot = Inr cx \<and>
     items_of w ''rules'' = Inr rules \<and> inputs_ok X pinned candidate snapshot registry rules \<and>
     k < length rules \<and> rule_satisfied cx (rules ! k) \<and>
     get_lit (rules ! k) ''outcome'' = Some (JStr (lit ''ALLOW'')) \<and>
     (\<forall>j < k. \<exists>causes. rule_state cx (rules ! j) [] = Inr (FalseT, causes))"
  by (rule earned_allow [OF assms])

text \<open>
  C14. First match wins. A result is \<open>ERROR\<close> exactly when preparation reported a failure, and then carries that
  failure as its only reason; every other result is of inputs that preparation passed, and is the one of the
  first rule that is not false: its own outcome when the rule is true, \<open>HOLD\<close> when it cannot be decided,
  and the declared default when every rule is false.
\<close>

theorem first_match_decides:
  assumes "evaluate X pinned candidate snapshot registry = Inr r"
  shows "if ev_outcome r = lit ''ERROR''
     then \<exists>q. prepare X pinned candidate snapshot registry = Inr (Some q) \<and>
       canon_json (result_document (lit ''ERROR'') [q] None None) = Inr (ev_canonical r)
     else prepare X pinned candidate snapshot registry = Inr None \<and>
       (\<exists>w cx rules k. rulebook_value pinned = Inr w \<and> make_context w candidate snapshot = Inr cx \<and>
          items_of w ''rules'' = Inr rules \<and> stops_at cx rules k r)"
proof -
  from assms obtain failure where f: "prepare X pinned candidate snapshot registry = Inr failure"
    by (auto simp: evaluate_def bindE_Inr_iff split: if_split_asm)
  show ?thesis
  proof (cases failure)
    case (Some q)
    with assms f have "make_result X registry (lit ''ERROR'') [q] None None = Inr r"
      by (simp add: evaluate_def split: if_split_asm)
    then have "ev_outcome r = lit ''ERROR''" "canon_json (result_document (lit ''ERROR'') [q] None None) = Inr (ev_canonical r)"
      by (auto simp: make_result_def Let_def bindE_Inr_iff)
    with f Some show ?thesis by simp
  next
    case None
    from assms show ?thesis
    proof (cases rule: evaluate_cases)
      case (walked w cx rules)
      from walk_rules_stops [OF walked(5)] obtain k where k: "stops_at cx rules k r" by blast
      have "ev_outcome r \<in> {lit ''ALLOW'', lit ''BLOCK'', lit ''HOLD''}"
        using k by (auto simp: stops_at_def split: if_split_asm)
      then have "ev_outcome r \<noteq> lit ''ERROR''" by auto
      with walked k f None show ?thesis by auto
    qed (use f None in simp)
  qed
qed

text \<open>
  C30. An evaluation replays: on the candidate and the snapshot that the strict loader rebuilds from
  canonical text, with members in sorted order at every level, the gate returns the same outcome with
  the same canonical text.
\<close>

theorem evaluation_replays:
  assumes "evaluate X pinned candidate snapshot registry = Inr r" "wf_json candidate" "wf_json snapshot"
  shows "evaluate X pinned (sort_json candidate) (sort_json snapshot) registry = Inr r"
  by (rule evaluate_sort [OF assms])

section \<open>Equality of the gate\<close>

fun dict_free :: "json \<Rightarrow> bool" where
  "dict_free (JList vs) = list_all dict_free vs"
| "dict_free (JDict d) = False"
| "dict_free v = True"

lemma value_equal_dict_free: "dict_free v \<Longrightarrow> dict_free w \<Longrightarrow> value_equal v w \<longleftrightarrow> v = w"
proof (induction v w rule: value_equal.induct)
  case (1 vs ws)
  have "value_equal v w \<longleftrightarrow> v = w" if "(v, w) \<in> set (zip vs ws)" for v w
    using "1.IH" [of "(v, w)" v w] that "1.prems" by (auto simp: list_all_iff dest: set_zip_leftD set_zip_rightD)
  then have "(\<forall>(v, w) \<in> set (zip vs ws). value_equal v w) \<longleftrightarrow> (\<forall>(v, w) \<in> set (zip vs ws). v = w)" by auto
  then show ?case by (auto simp: list_eq_iff_zip_eq)
qed auto

text \<open>
  C40. Equality in expressions is exact on scalars and lists, but not on dictionaries, which the code
  compares with Python's \<open>==\<close>: an object that holds \<open>true\<close> equals one that holds \<open>1\<close>, though their
  canonical texts differ.
\<close>

theorem gate_equality_on_objects:
  "(\<forall>v w. dict_free v \<longrightarrow> dict_free w \<longrightarrow> (gate_equal (Some v) (Some w) \<longleftrightarrow> v = w)) \<and>
   gate_equal (Some (JDict [(k, JBool True)])) (Some (JDict [(k, JInt 1)])) \<and>
   jtext (JDict [(k, JBool True)]) \<noteq> jtext (JDict [(k, JInt 1)])"
  using value_equal_dict_free by (auto simp: text_eval)

section \<open>Witnesses\<close>

lemma sample_context_ok: "context_ok sample_context"
  by (simp add: context_ok_def sample_context_def sample_instant_value)

theorem evaluate_node_meaning_witness:
  "\<exists>e causes'. parse_expression (JStr (lit ''present(a)'')) = Inr e \<and>
     evaluate_node sample_context (expr_tree e) [] = Inr (meaning sample_context (expr_tree e), causes')"
proof -
  have w: "wf_json (JStr (lit ''present(a)''))" by simp
  obtain e where e: "parse_expression (JStr (lit ''present(a)'')) = Inr e" by (rule sample_parse)
  from evaluate_node_meaning [OF sample_context_ok e w, of "[]"] e show ?thesis by blast
qed

theorem allow_is_earned_witness:
  "\<exists>r w cx rules k.
     evaluate sample_externals sample_pinned sample_candidate sample_snapshot_value sample_registry = Inr r \<and>
     rulebook_value sample_pinned = Inr w \<and> make_context w sample_candidate sample_snapshot_value = Inr cx \<and>
     items_of w ''rules'' = Inr rules \<and> k < length rules \<and> rule_satisfied cx (rules ! k)"
  using sample_evaluate allow_is_earned by blast

theorem first_match_decides_witness:
  "\<exists>r w cx rules k.
     evaluate sample_externals sample_pinned sample_candidate sample_snapshot_value sample_registry = Inr r \<and>
     make_context w sample_candidate sample_snapshot_value = Inr cx \<and> stops_at cx rules k r"
proof -
  obtain r where r: "evaluate sample_externals sample_pinned sample_candidate sample_snapshot_value sample_registry = Inr r"
    "ev_outcome r = lit ''ALLOW''" using sample_evaluate by blast
  with first_match_decides [OF r(1)] show ?thesis by auto
qed

theorem evaluation_replays_witness:
  "\<exists>r. ev_outcome r = lit ''ALLOW'' \<and> evaluate sample_externals sample_pinned (sort_json sample_candidate)
     (sort_json sample_snapshot_value) sample_registry = Inr r"
  using sample_evaluate evaluation_replays [OF _ sample_inputs_wf] by blast

theorem gate_equality_on_objects_witness:
  "gate_equal (Some (JList [JInt 1])) (Some (JList [JInt 1])) \<and> \<not> gate_equal (Some (JInt 1)) (Some (JBool True))"
proof -
  have d: "dict_free (JList [JInt 1])" "dict_free (JInt 1)" "dict_free (JBool True)" by simp_all
  note g = conjunct1 [OF gate_equality_on_objects, rule_format]
  show ?thesis using g [OF d(1) d(1)] g [OF d(2) d(3)] by blast
qed

end
