(* ===== verification/Authorization.thy ===== *)
theory Authorization
  imports Judgement
begin

text \<open>
  \<^verbatim>\<open>src/vfy/authorization.py\<close>: key registries and the status of a key, issuing an authorization for
  one permitted action, and verifying one against the objects a caller holds. The Ed25519 operations
  are those of \<open>externals\<close>; a nonce view is the list of the values consumed so far. The \<open>repr\<close> of an
  identity at the end of two messages is left out.
\<close>

section \<open>Keys\<close>

text \<open>An argument that is checked by \<open>isinstance(_, bytes)\<close> is an option: \<open>None\<close> is any other value.\<close>

record key_entry =
  ke_id :: json
  ke_version :: json
  ke_public :: "bytes option"
  ke_status :: "json option"

record registered_key =
  rk_public :: bytes
  rk_status :: json

type_synonym key_identity = "json \<times> json"
type_synonym key_registry = "(key_identity \<times> registered_key) list"

definition key_length :: nat where
  "key_length = 32"

definition default_ttl :: json where
  "default_ttl = JInt 300"

definition authorization_schema_id :: ustr where
  "authorization_schema_id = lit ''https://verifyrun.com/spec/v1/authorization.schema.json''"

definition key_statuses :: "ustr list" where
  "key_statuses = [lit ''active'', lit ''retired'', lit ''revoked'']"

definition check_key_status :: "json option \<Rightarrow> bool \<Rightarrow> exn + unit" where
  "check_key_status declared historical =
     (let status = (case declared of None \<Rightarrow> JStr (lit ''active'') | Some s \<Rightarrow> s)
      in if \<not> is_one_of status key_statuses
         then fail SigningKeyInvalid ''A key status is active, retired, or revoked.''
         else if status = JStr (lit ''revoked'')
         then fail SigningKeyRevoked ''The signing key is revoked; trusted verification is refused.''
         else if status = JStr (lit ''retired'') \<and> \<not> historical
         then fail SigningKeyRetired ''The signing key is retired and authorizes nothing.''
         else Inr ())"

text \<open>A dictionary keyed by the pair: Python's \<open>==\<close> on both parts; a container cannot be a key.\<close>

definition same_identity :: "key_identity \<Rightarrow> key_identity \<Rightarrow> bool" where
  "same_identity i j \<longleftrightarrow> py_eq (fst i) (fst j) \<and> py_eq (snd i) (snd j)"

definition unhashable :: "json \<Rightarrow> bool" where
  "unhashable v \<longleftrightarrow> is_list v \<or> is_dict v"

definition key_lookup :: "key_registry \<Rightarrow> key_identity \<Rightarrow> exn + registered_key option" where
  "key_lookup ring identity =
     (if unhashable (fst identity) \<or> unhashable (snd identity)
      then Inl (PyErr PyTypeError (lit ''unhashable type''))
      else Inr (map_option snd (find (\<lambda>(i, k). same_identity i identity) ring)))"

text \<open>\<open>identities\<close> holds the public keys registered so far.\<close>

fun register_keys :: "key_entry list \<Rightarrow> key_registry \<Rightarrow> bytes list \<Rightarrow> exn + key_registry" where
  "register_keys [] registry identities = Inr registry"
| "register_keys (entry # entries) registry identities =
     (let identity = (ke_id entry, ke_version entry)
      in bindE (key_lookup registry identity) (\<lambda>known.
         if known \<noteq> None then fail SigningKeyInvalid ''Duplicate key identity in the registry.''
         else case ke_public entry of
           None \<Rightarrow> fail SigningKeyInvalid ''An Ed25519 public key is 32 bytes.''
         | Some public_key \<Rightarrow>
             if length public_key \<noteq> key_length then fail SigningKeyInvalid ''An Ed25519 public key is 32 bytes.''
             else if public_key \<in> set identities
             then fail SigningKeyInvalid ''One public key carries one identity; this key is already registered.''
             else
               let status = (case ke_status entry of None \<Rightarrow> JStr (lit ''active'') | Some s \<Rightarrow> s)
               in if \<not> is_one_of status key_statuses
                  then fail SigningKeyInvalid ''A key status is active, retired, or revoked.''
                  else register_keys entries
                         (registry @ [(identity, \<lparr>rk_public = public_key, rk_status = status\<rparr>)])
                         (public_key # identities)))"

definition build_key_registry :: "key_entry list \<Rightarrow> exn + key_registry" where
  "build_key_registry entries = register_keys entries [] []"

section \<open>Authorizations\<close>

record frozen_authorization =
  au_canonical :: ustr
  au_id :: json
  au_nonce :: json
  au_issued_at :: json
  au_expires_at :: json

definition authorization_value :: "frozen_authorization \<Rightarrow> exn + json" where
  "authorization_value a = reload (au_canonical a)"

definition freeze_authorization :: "json \<Rightarrow> exn + frozen_authorization" where
  "freeze_authorization v =
     bindE (canon_json v) (\<lambda>c.
     bindE (sub_lit v ''authorization_id'') (\<lambda>i.
     bindE (sub_lit v ''nonce'') (\<lambda>n.
     bindE (sub_lit v ''issued_at'') (\<lambda>issued.
     bindE (sub_lit v ''expires_at'') (\<lambda>expires.
     Inr \<lparr>au_canonical = c, au_id = i, au_nonce = n, au_issued_at = issued, au_expires_at = expires\<rparr>)))))"

definition bind_field :: "string \<Rightarrow> json \<Rightarrow> json \<Rightarrow> exn + unit" where
  "bind_field field bound expected =
     (if py_eq bound expected then Inr ()
      else Inl (VErr AuthorizationBindingMismatch
        (lit ''The authorization's '' @ lit field @ lit '' is not the one supplied.'') NoDetail))"

text \<open>\<open>_instant(text, field)\<close>.\<close>

abbreviation instant_field :: "json \<Rightarrow> string \<Rightarrow> exn + int" where
  "instant_field \<equiv> instant_or AuthorizationNotYetValid"

text \<open>\<open>v.get(name, default)\<close>; what is no dictionary has no \<open>get\<close>.\<close>

definition py_get :: "json \<Rightarrow> string \<Rightarrow> json \<Rightarrow> exn + json" where
  "py_get v name fallback =
     (if is_dict v then Inr (case get_lit v name of None \<Rightarrow> fallback | Some w \<Rightarrow> w)
      else Inl (PyErr PyAttributeError (lit ''get'')))"

text \<open>\<open>pinned.value().get("authorization", {}).get("ttl_seconds", DEFAULT_TTL_SECONDS)\<close>.\<close>

definition declared_ttl :: "loaded_rulebook \<Rightarrow> exn + json" where
  "declared_ttl pinned =
     bindE (rulebook_value pinned) (\<lambda>value.
     bindE (py_get value ''authorization'' (JDict [])) (\<lambda>block. py_get block ''ttl_seconds'' default_ttl))"

definition seconds_of :: "json \<Rightarrow> exn + int" where
  "seconds_of v =
     (case num_of v of None \<Rightarrow> Inl (PyErr PyTypeError (lit ''unsupported operand'')) | Some n \<Rightarrow> Inr n)"

definition require_string :: "string \<Rightarrow> json \<Rightarrow> exn + unit" where
  "require_string name v =
     (if is_str v then Inr () else Inl (PyErr PyTypeError (lit name @ lit '' must be a string'')))"

definition signing_bytes :: "json \<Rightarrow> exn + bytes" where
  "signing_bytes payload = bindE (canon_json payload) utf8_bytes"

definition signature_block :: "json \<Rightarrow> json \<Rightarrow> bytes \<Rightarrow> json" where
  "signature_block key_id key_version signature =
     JDict [(lit ''alg'', JStr (lit ''ed25519'')), (lit ''key_id'', key_id), (lit ''key_version'', key_version),
            (lit ''value'', JStr (b64encode signature))]"

definition sign_payload :: "externals \<Rightarrow> bytes \<Rightarrow> json \<Rightarrow> exn + bytes" where
  "sign_payload X private_key payload =
     bindE (signing_bytes payload) (\<lambda>message.
       case ed25519_sign X private_key message of
         None \<Rightarrow> fail SigningKeyInvalid ''The private key is not a usable Ed25519 key.''
       | Some signature \<Rightarrow> Inr signature)"

definition authorization_payload ::
  "json \<Rightarrow> json \<Rightarrow> json \<Rightarrow> ustr \<Rightarrow> json \<Rightarrow> ustr \<Rightarrow> ustr \<Rightarrow> json \<Rightarrow> json" where
  "authorization_payload i nonce issued_at expires_at runtime_id action rulebook_digest evidence =
     JDict [(lit ''authorization_id'', i), (lit ''nonce'', nonce), (lit ''issued_at'', issued_at),
            (lit ''expires_at'', JStr expires_at), (lit ''runtime_id'', runtime_id),
            (lit ''action_digest'', JStr action), (lit ''rulebook_digest'', JStr rulebook_digest),
            (lit ''evidence_digest'', evidence)]"

definition check_issue_arguments ::
  "json \<Rightarrow> json \<Rightarrow> json \<Rightarrow> json \<Rightarrow> json \<Rightarrow> json \<Rightarrow> bytes option \<Rightarrow> exn + bytes" where
  "check_issue_arguments i nonce runtime_id issued_at key_id key_version private_key =
     bindE (require_string ''authorization_id'' i) (\<lambda>_.
     bindE (require_string ''nonce'' nonce) (\<lambda>_.
     bindE (require_string ''runtime_id'' runtime_id) (\<lambda>_.
     bindE (require_string ''issued_at'' issued_at) (\<lambda>_.
     bindE (require_string ''key_id'' key_id) (\<lambda>_.
       if \<not> is_int key_version then Inl (PyErr PyTypeError (lit ''key_version must be an integer''))
       else case private_key of
         None \<Rightarrow> fail SigningKeyInvalid ''An Ed25519 private key is 32 bytes.''
       | Some k \<Rightarrow>
           if length k \<noteq> key_length then fail SigningKeyInvalid ''An Ed25519 private key is 32 bytes.''
           else Inr k)))))"

definition issue_authorization ::
  "externals \<Rightarrow> loaded_rulebook \<Rightarrow> json \<Rightarrow> frozen_snapshot \<Rightarrow> evaluation_result \<Rightarrow> json \<Rightarrow> json \<Rightarrow> json \<Rightarrow>
   json \<Rightarrow> json \<Rightarrow> json \<Rightarrow> bytes option \<Rightarrow> registry \<Rightarrow> exn + frozen_authorization" where
  "issue_authorization X pinned candidate snapshot result i nonce runtime_id issued_at key_id key_version
     private_key registry =
     bindE (check_issue_arguments i nonce runtime_id issued_at key_id key_version private_key) (\<lambda>k.
       if ev_outcome result \<noteq> lit ''ALLOW''
       then fail_with AuthorizationOutcomeIneligible
              ''Only ALLOW confers action authority; this result is '' (ev_outcome result)
       else
         bindE (instant_field issued_at ''issued_at'') (\<lambda>issued.
         bindE (instant_field (sn_frozen_at snapshot) ''frozen_at'') (\<lambda>frozen.
           if issued < frozen
           then fail AuthorizationNotYetValid
                  ''An authorization cannot be issued before the evidence it rests on was frozen.''
           else
             bindE (bindE (declared_ttl pinned) seconds_of) (\<lambda>ttl.
             bindE (add_seconds (the_str issued_at) ttl) (\<lambda>expires_at.
             bindE (digest (sha256_hex X) candidate) (\<lambda>action.
             let payload = authorization_payload i nonce issued_at expires_at runtime_id action
                             (rb_digest pinned) (sn_digest snapshot)
             in bindE (sign_payload X k payload) (\<lambda>signature.
                let completed = JDict (dset (lit ''signature'') (signature_block key_id key_version signature) (items payload))
                in bindE (validate X completed authorization_schema_id registry) (\<lambda>_.
                   freeze_authorization completed))))))))"

section \<open>Verification\<close>

text \<open>The signature block: the registered key, its status, and the signature over the payload.\<close>

definition find_key :: "key_registry \<Rightarrow> json \<Rightarrow> exn + registered_key" where
  "find_key ring block =
     bindE (sub_lit block ''key_id'') (\<lambda>key_id.
     bindE (sub_lit block ''key_version'') (\<lambda>key_version.
     bindE (key_lookup ring (key_id, key_version)) (\<lambda>found.
       case found of
         None \<Rightarrow> fail SigningKeyUnknown ''No key in the registry matches ''
       | Some entry \<Rightarrow> Inr entry)))"

definition decode_block_signature :: "json \<Rightarrow> exn + bytes" where
  "decode_block_signature block =
     bindE (sub_lit block ''value'') (\<lambda>t.
       case decode_signature t of
         Inl (VErr CanonicalFormInvalid message d) \<Rightarrow> Inl (VErr SignatureMalformed message NoDetail)
       | r \<Rightarrow> r)"

definition verify_signature :: "externals \<Rightarrow> json \<Rightarrow> registered_key \<Rightarrow> bytes \<Rightarrow> string \<Rightarrow> exn + unit" where
  "verify_signature X v entry signature subject =
     bindE (signing_bytes (json_without ''signature'' v)) (\<lambda>message.
       if \<not> ed25519_loads X (rk_public entry)
       then fail SigningKeyInvalid ''The registered key is not a usable Ed25519 key.''
       else if \<not> ed25519_verify X (rk_public entry) signature message
       then fail SignatureInvalid subject
       else Inr ())"

definition check_interval ::
  "json \<Rightarrow> loaded_rulebook \<Rightarrow> frozen_snapshot \<Rightarrow> json option \<Rightarrow> exn + unit" where
  "check_interval v pinned snapshot verification_time =
     bindE (bindE (sub_lit v ''issued_at'') (\<lambda>t. instant_field t ''issued_at'')) (\<lambda>issued.
     bindE (bindE (sub_lit v ''expires_at'') (\<lambda>t. instant_field t ''expires_at'')) (\<lambda>expires.
     bindE (instant_field (sn_frozen_at snapshot) ''frozen_at'') (\<lambda>frozen.
       if issued < frozen
       then fail AuthorizationNotYetValid
              ''The authorization was issued before the evidence it rests on was frozen.''
       else if expires \<le> issued
       then fail AuthorizationExpired ''The authorization expires at or before it was issued.''
       else
         bindE (bindE (declared_ttl pinned) seconds_of) (\<lambda>ttl.
           if expires \<noteq> (issued div nanos_per_second + ttl) * nanos_per_second
           then fail AuthorizationBindingMismatch
                  ''The authorization's expiry is not derived from the bound rulebook's TTL.''
           else case verification_time of
             None \<Rightarrow> Inr ()
           | Some t \<Rightarrow>
               bindE (instant_field t ''verification_time'') (\<lambda>now.
                 if now < issued then fail AuthorizationNotYetValid ''The authorization is not yet valid.''
                 else if now \<ge> expires then fail AuthorizationExpired ''The authorization has expired.''
                 else Inr ())))))"

definition check_nonce :: "json \<Rightarrow> json list option \<Rightarrow> exn + unit" where
  "check_nonce v consumed =
     (case consumed of
        None \<Rightarrow> Inr ()
      | Some nonces \<Rightarrow>
          bindE (sub_lit v ''nonce'') (\<lambda>nonce.
            if list_ex (py_eq nonce) nonces
            then fail AuthorizationNonceReused ''This authorization's nonce has already been consumed.''
            else Inr ()))"

definition check_result ::
  "externals \<Rightarrow> loaded_rulebook \<Rightarrow> json \<Rightarrow> frozen_snapshot \<Rightarrow> evaluation_result \<Rightarrow> registry \<Rightarrow> exn + unit" where
  "check_result X pinned candidate snapshot result registry =
     bindE (snapshot_value snapshot) (\<lambda>s.
     bindE (evaluate X pinned candidate s registry) (\<lambda>recomputed.
       if ev_canonical recomputed \<noteq> ev_canonical result
       then fail AuthorizationBindingMismatch ''The supplied result is not what the bound inputs produce.''
       else if ev_outcome recomputed \<noteq> lit ''ALLOW''
       then fail_with AuthorizationOutcomeIneligible
              ''The bound inputs do not produce ALLOW; they produce '' (ev_outcome recomputed)
       else Inr ()))"

definition verify_authorization ::
  "externals \<Rightarrow> json \<Rightarrow> loaded_rulebook \<Rightarrow> json \<Rightarrow> frozen_snapshot \<Rightarrow> evaluation_result \<Rightarrow> json \<Rightarrow>
   json option \<Rightarrow> key_registry \<Rightarrow> registry \<Rightarrow> json list option \<Rightarrow> bool \<Rightarrow> exn + frozen_authorization" where
  "verify_authorization X v pinned candidate snapshot result runtime_id verification_time ring registry
     consumed historical =
     (if \<not> is_dict v then Inl (PyErr PyTypeError (lit ''an authorization value must be a mapping''))
      else if \<not> is_str runtime_id then Inl (PyErr PyTypeError (lit ''runtime_id must be a string''))
      else
        bindE (validate X v authorization_schema_id registry) (\<lambda>_.
        bindE (sub_lit v ''signature'') (\<lambda>block.
        bindE (find_key ring block) (\<lambda>entry.
        bindE (check_key_status (Some (rk_status entry)) historical) (\<lambda>_.
        bindE (decode_block_signature block) (\<lambda>signature.
        bindE (verify_signature X v entry signature
                 ''The signature does not verify over the authorization's payload.'') (\<lambda>_.
        bindE (sub_lit v ''rulebook_digest'') (\<lambda>bound.
        bindE (bind_field ''rulebook_digest'' bound (JStr (rb_digest pinned))) (\<lambda>_.
        bindE (sub_lit v ''action_digest'') (\<lambda>bound.
        bindE (digest (sha256_hex X) candidate) (\<lambda>action.
        bindE (bind_field ''action_digest'' bound (JStr action)) (\<lambda>_.
        bindE (sub_lit v ''evidence_digest'') (\<lambda>bound.
        bindE (bind_field ''evidence_digest'' bound (sn_digest snapshot)) (\<lambda>_.
        bindE (check_result X pinned candidate snapshot result registry) (\<lambda>_.
        bindE (sub_lit v ''runtime_id'') (\<lambda>bound.
        bindE (bind_field ''runtime_id'' bound runtime_id) (\<lambda>_.
        bindE (check_interval v pinned snapshot verification_time) (\<lambda>_.
        bindE (check_nonce v consumed) (\<lambda>_.
        freeze_authorization v)))))))))))))))))))"

section \<open>The key registry\<close>

lemma py_eq_str [simp]: "py_eq v (JStr s) \<longleftrightarrow> v = JStr s"
  by (cases v) auto

lemma py_eq_num: "num_of v \<noteq> None \<Longrightarrow> py_eq v w \<longleftrightarrow> num_of v = num_of w"
  by (cases v; cases w) auto

text \<open>Among hashable values, Python's equality is an equivalence.\<close>

lemma py_eq_hashable_sym: "\<not> unhashable v \<Longrightarrow> \<not> unhashable w \<Longrightarrow> py_eq v w = py_eq w v"
  by (cases v; cases w) (auto simp: unhashable_def)

lemma py_eq_hashable_trans:
  "\<not> unhashable u \<Longrightarrow> \<not> unhashable v \<Longrightarrow> \<not> unhashable w \<Longrightarrow> py_eq u v \<Longrightarrow> py_eq v w \<Longrightarrow> py_eq u w"
  by (cases u; cases v; cases w) (auto simp: unhashable_def)

definition hashable_identity :: "key_identity \<Rightarrow> bool" where
  "hashable_identity i \<longleftrightarrow> \<not> unhashable (fst i) \<and> \<not> unhashable (snd i)"

lemma same_identity_sym: "hashable_identity i \<Longrightarrow> hashable_identity j \<Longrightarrow> same_identity i j = same_identity j i"
  by (simp add: same_identity_def hashable_identity_def py_eq_hashable_sym)

lemma same_identity_trans:
  "hashable_identity i \<Longrightarrow> hashable_identity j \<Longrightarrow> hashable_identity k \<Longrightarrow>
   same_identity i j \<Longrightarrow> same_identity j k \<Longrightarrow> same_identity i k"
  unfolding same_identity_def hashable_identity_def using py_eq_hashable_trans by blast

lemma key_lookup_Inr:
  "key_lookup ring i = Inr found \<longleftrightarrow>
     hashable_identity i \<and> found = map_option snd (find (\<lambda>(j, k). same_identity j i) ring)"
  by (auto simp: key_lookup_def hashable_identity_def)

text \<open>
  The invariant of a registry: identities are pairwise different, no public key appears twice, keys have
  their length and statuses are the known ones.
\<close>

definition ring_ok :: "key_registry \<Rightarrow> bool" where
  "ring_ok ring \<longleftrightarrow>
     (\<forall>(i, k) \<in> set ring. hashable_identity i \<and> length (rk_public k) = key_length \<and>
        is_one_of (rk_status k) key_statuses) \<and>
     distinct (map (\<lambda>(i, k). rk_public k) ring) \<and>
     pairwise (\<lambda>(i, k) (j, l). \<not> same_identity i j) (set ring)"

lemma ring_ok_snoc:
  assumes "ring_ok ring" "key_lookup ring i = Inr None" "p \<notin> set (map (\<lambda>(i, k). rk_public k) ring)"
    "length p = key_length" "is_one_of s key_statuses"
  shows "ring_ok (ring @ [(i, \<lparr>rk_public = p, rk_status = s\<rparr>)])"
proof -
  from assms(2) have h: "hashable_identity i" and n: "find (\<lambda>(j, k). same_identity j i) ring = None"
    by (auto simp: key_lookup_Inr)
  have new: "\<not> same_identity j i \<and> \<not> same_identity i j" if "(j, k) \<in> set ring" for j k
  proof -
    from n that have "\<not> same_identity j i" by (cases j) (auto simp: find_None_iff)
    moreover have "hashable_identity j" using that assms(1) by (auto simp: ring_ok_def)
    ultimately show ?thesis using same_identity_sym [OF h] by blast
  qed
  show ?thesis
    using assms(1,3-5) h new by (auto simp: ring_ok_def pairwise_insert)
qed

lemma register_keys_ok:
  assumes "register_keys entries ring seen = Inr ring'" "ring_ok ring" "set seen = set (map (\<lambda>(i, k). rk_public k) ring)"
  shows "ring_ok ring'"
  using assms
proof (induction entries ring seen rule: register_keys.induct)
  case (2 entry entries ring seen)
  let ?i = "(ke_id entry, ke_version entry)"
  let ?s = "case ke_status entry of None \<Rightarrow> JStr (lit ''active'') | Some s \<Rightarrow> s"
  from "2.prems"(1) obtain p where p: "key_lookup ring ?i = Inr None" "ke_public entry = Some p"
    "length p = key_length" "p \<notin> set seen" "is_one_of ?s key_statuses"
    "register_keys entries (ring @ [(?i, \<lparr>rk_public = p, rk_status = ?s\<rparr>)]) (p # seen) = Inr ring'"
    by (auto simp: Let_def bindE_Inr_iff simp del: py_eq.simps split: if_split_asm option.split_asm)
  have "ring_ok (ring @ [(?i, \<lparr>rk_public = p, rk_status = ?s\<rparr>)])"
    using "2.prems"(2,3) p(1,3,4,5) by (intro ring_ok_snoc) auto
  then show ?case
    using "2.IH" [OF refl p(1) _ p(2)] p(3-6) "2.prems"(3) by auto
qed simp

text \<open>Two entries of a registry that agree on the identity or on the key are the same.\<close>

lemma ring_same_entry:
  assumes "ring_ok ring" "(i, k) \<in> set ring" "(j, l) \<in> set ring" "same_identity i j \<or> rk_public k = rk_public l"
  shows "(i, k) = (j, l)"
proof (cases "rk_public k = rk_public l")
  case True
  then show ?thesis
    using assms(1-3) inj_onD [of "\<lambda>(i, k). rk_public k" "set ring" "(i, k)" "(j, l)"]
    by (auto simp: ring_ok_def distinct_map)
next
  case False
  with assms show ?thesis by (auto simp: ring_ok_def pairwise_def)
qed

lemma key_lookup_entry:
  assumes "key_lookup ring i = Inr (Some k)"
  shows "hashable_identity i \<and> (\<exists>j. (j, k) \<in> set ring \<and> same_identity j i)"
proof -
  from assms have h: "hashable_identity i" and f: "map_option snd (find (\<lambda>(j, k). same_identity j i) ring) = Some k"
    by (simp_all add: key_lookup_Inr)
  from f obtain j where "find (\<lambda>(j, k). same_identity j i) ring = Some (j, k)" by auto
  with h show ?thesis by (auto simp: find_Some_iff) (metis nth_mem)
qed

text \<open>A guard that raises.\<close>

lemma guard_Inr_iff: "(if P then Inl e else r) = Inr z \<longleftrightarrow> \<not> P \<and> r = Inr z"
  by simp

section \<open>What a verified authorization establishes\<close>

lemma freeze_authorization_Inr:
  "freeze_authorization v = Inr a \<longleftrightarrow>
     canon_json v = Inr (au_canonical a) \<and> get_lit v ''authorization_id'' = Some (au_id a) \<and>
     get_lit v ''nonce'' = Some (au_nonce a) \<and> get_lit v ''issued_at'' = Some (au_issued_at a) \<and>
     get_lit v ''expires_at'' = Some (au_expires_at a)"
  by (cases a) (auto simp: freeze_authorization_def bindE_Inr_iff subscript_Inr_iff)

lemma bind_field_Inr [simp]: "bind_field field bound expected = Inr z \<longleftrightarrow> py_eq bound expected"
  by (simp add: bind_field_def)

lemma check_key_status_Inr:
  "check_key_status (Some s) historical = Inr z \<longleftrightarrow>
     s = JStr (lit ''active'') \<or> (historical \<and> s = JStr (lit ''retired''))"
  by (cases s) (auto simp: check_key_status_def Let_def is_one_of_def key_statuses_def guard_Inr_iff)

lemma decode_block_signature_Inr:
  "decode_block_signature block = Inr raw \<longleftrightarrow> (\<exists>t. get_lit block ''value'' = Some t \<and> decode_signature t = Inr raw)"
proof -
  have "(case r of Inl (VErr CanonicalFormInvalid message d) \<Rightarrow> Inl (VErr SignatureMalformed message NoDetail)
       | r \<Rightarrow> r) = Inr raw \<longleftrightarrow> r = Inr raw" for r :: "exn + bytes"
    by (simp split: sum.split exn.split err_class.split)
  then show ?thesis by (simp add: decode_block_signature_def bindE_Inr_iff subscript_Inr_iff)
qed

lemma decode_signature_iff:
  "decode_signature t = Inr raw \<longleftrightarrow> t = JStr (b64encode raw) \<and> decode_signature (JStr (b64encode raw)) = Inr raw"
  using decode_signature_Inr by blast

lemma verify_signature_Inr:
  "verify_signature X v entry signature subject = Inr z \<longleftrightarrow>
     (\<exists>m. signing_bytes (json_without ''signature'' v) = Inr m \<and> ed25519_loads X (rk_public entry) \<and>
        ed25519_verify X (rk_public entry) signature m)"
  by (auto simp: verify_signature_def bindE_Inr_iff split: if_split_asm)

text \<open>The signature block of a value, against a registry.\<close>

definition signed_under :: "externals \<Rightarrow> key_registry \<Rightarrow> bool \<Rightarrow> json \<Rightarrow> bool" where
  "signed_under X ring historical v \<longleftrightarrow>
     (\<exists>block key_id key_version entry raw message.
        get_lit v ''signature'' = Some block \<and> get_lit block ''key_id'' = Some key_id \<and>
        get_lit block ''key_version'' = Some key_version \<and>
        key_lookup ring (key_id, key_version) = Inr (Some entry) \<and>
        (rk_status entry = JStr (lit ''active'') \<or> historical \<and> rk_status entry = JStr (lit ''retired'')) \<and>
        get_lit block ''value'' = Some (JStr (b64encode raw)) \<and>
        decode_signature (JStr (b64encode raw)) = Inr raw \<and>
        signing_bytes (json_without ''signature'' v) = Inr message \<and>
        ed25519_loads X (rk_public entry) \<and> ed25519_verify X (rk_public entry) raw message)"

text \<open>The validity interval, and the instant of the check when one is given.\<close>

definition interval_ok :: "json \<Rightarrow> loaded_rulebook \<Rightarrow> frozen_snapshot \<Rightarrow> json option \<Rightarrow> bool" where
  "interval_ok v pinned snapshot verification_time \<longleftrightarrow>
     (\<exists>at until issued expires frozen ttl seconds.
        get_lit v ''issued_at'' = Some at \<and> instant_of at = Inr issued \<and>
        get_lit v ''expires_at'' = Some until \<and> instant_of until = Inr expires \<and>
        instant_of (sn_frozen_at snapshot) = Inr frozen \<and> frozen \<le> issued \<and> issued < expires \<and>
        declared_ttl pinned = Inr ttl \<and> num_of ttl = Some seconds \<and>
        expires = (issued div nanos_per_second + seconds) * nanos_per_second \<and>
        (\<forall>t. verification_time = Some t \<longrightarrow> (\<exists>now. instant_of t = Inr now \<and> issued \<le> now \<and> now < expires)))"

lemma seconds_of_Inr: "seconds_of v = Inr n \<longleftrightarrow> num_of v = Some n"
  by (auto simp: seconds_of_def split: option.splits)

lemma check_interval_Inr:
  "check_interval v pinned snapshot verification_time = Inr z \<longleftrightarrow> interval_ok v pinned snapshot verification_time"
  unfolding check_interval_def interval_ok_def
  by (cases verification_time)
    (simp_all add: bindE_Inr_iff subscript_Inr_iff instant_or_Inr_iff seconds_of_Inr guard_Inr_iff not_less not_le,
      blast+)

lemma find_key_Inr:
  "find_key ring block = Inr entry \<longleftrightarrow>
     (\<exists>key_id key_version. get_lit block ''key_id'' = Some key_id \<and> get_lit block ''key_version'' = Some key_version \<and>
        key_lookup ring (key_id, key_version) = Inr (Some entry))"
  by (auto simp: find_key_def bindE_Inr_iff subscript_Inr_iff split: option.splits)

definition result_reproduced ::
  "externals \<Rightarrow> loaded_rulebook \<Rightarrow> json \<Rightarrow> frozen_snapshot \<Rightarrow> evaluation_result \<Rightarrow> registry \<Rightarrow> bool" where
  "result_reproduced X pinned candidate snapshot result registry \<longleftrightarrow>
     (\<exists>s r. snapshot_value snapshot = Inr s \<and> evaluate X pinned candidate s registry = Inr r \<and>
        ev_canonical r = ev_canonical result \<and> ev_outcome r = lit ''ALLOW'')"

lemma check_result_Inr:
  "check_result X pinned candidate snapshot result registry = Inr z \<longleftrightarrow>
     result_reproduced X pinned candidate snapshot result registry"
  by (auto simp: check_result_def result_reproduced_def bindE_Inr_iff split: if_split_asm)

definition nonce_fresh :: "json \<Rightarrow> json list option \<Rightarrow> bool" where
  "nonce_fresh v consumed \<longleftrightarrow>
     (\<forall>ns. consumed = Some ns \<longrightarrow> (\<exists>n. get_lit v ''nonce'' = Some n \<and> (\<forall>m \<in> set ns. \<not> py_eq n m)))"

lemma check_nonce_Inr: "check_nonce v consumed = Inr z \<longleftrightarrow> nonce_fresh v consumed"
  by (cases consumed)
    (auto simp: check_nonce_def nonce_fresh_def bindE_Inr_iff subscript_Inr_iff list_ex_iff split: if_split_asm)

lemma signed_under_intro:
  "(\<exists>block entry raw. get_lit v ''signature'' = Some block \<and> find_key ring block = Inr entry \<and>
      check_key_status (Some (rk_status entry)) historical = Inr () \<and> decode_block_signature block = Inr raw \<and>
      verify_signature X v entry raw subject = Inr ()) \<longleftrightarrow> signed_under X ring historical v"
proof
  assume "\<exists>block entry raw. get_lit v ''signature'' = Some block \<and> find_key ring block = Inr entry \<and>
      check_key_status (Some (rk_status entry)) historical = Inr () \<and> decode_block_signature block = Inr raw \<and>
      verify_signature X v entry raw subject = Inr ()"
  then obtain block entry raw where b: "get_lit v ''signature'' = Some block" and
    f: "find_key ring block = Inr entry" and c: "check_key_status (Some (rk_status entry)) historical = Inr ()" and
    d: "decode_block_signature block = Inr raw" and g: "verify_signature X v entry raw subject = Inr ()" by blast
  from f obtain i n where i: "get_lit block ''key_id'' = Some i" "get_lit block ''key_version'' = Some n"
    "key_lookup ring (i, n) = Inr (Some entry)" by (auto simp: find_key_Inr)
  from d obtain t where t: "get_lit block ''value'' = Some t" "decode_signature t = Inr raw"
    by (auto simp: decode_block_signature_Inr)
  from g obtain m where m: "signing_bytes (json_without ''signature'' v) = Inr m"
    "ed25519_loads X (rk_public entry)" "ed25519_verify X (rk_public entry) raw m"
    by (auto simp: verify_signature_Inr)
  show "signed_under X ring historical v"
    unfolding signed_under_def
    using b i t(1) iffD1 [OF decode_signature_iff t(2)] m c [unfolded check_key_status_Inr]
    by (intro exI [of _ block] exI [of _ i] exI [of _ n] exI [of _ entry] exI [of _ raw] exI [of _ m] conjI) simp_all
next
  assume "signed_under X ring historical v"
  then obtain block i n entry raw m where b: "get_lit v ''signature'' = Some block" and
    i: "get_lit block ''key_id'' = Some i" "get_lit block ''key_version'' = Some n"
    "key_lookup ring (i, n) = Inr (Some entry)" and
    s: "rk_status entry = JStr (lit ''active'') \<or> historical \<and> rk_status entry = JStr (lit ''retired'')" and
    t: "get_lit block ''value'' = Some (JStr (b64encode raw))" "decode_signature (JStr (b64encode raw)) = Inr raw" and
    m: "signing_bytes (json_without ''signature'' v) = Inr m" "ed25519_loads X (rk_public entry)"
    "ed25519_verify X (rk_public entry) raw m"
    unfolding signed_under_def by (elim exE conjE) (rule that)
  have "find_key ring block = Inr entry" using i by (auto simp: find_key_Inr)
  moreover have "check_key_status (Some (rk_status entry)) historical = Inr ()"
    using s by (auto simp: check_key_status_Inr)
  moreover have "decode_block_signature block = Inr raw" using t by (auto simp: decode_block_signature_Inr)
  moreover have "verify_signature X v entry raw subject = Inr ()" using m by (auto simp: verify_signature_Inr)
  ultimately show "\<exists>block entry raw. get_lit v ''signature'' = Some block \<and> find_key ring block = Inr entry \<and>
      check_key_status (Some (rk_status entry)) historical = Inr () \<and> decode_block_signature block = Inr raw \<and>
      verify_signature X v entry raw subject = Inr ()" using b by blast
qed

lemma ex_unit: "Ex P \<longleftrightarrow> P ()"
  by (metis old.unit.exhaust)

lemma signature_steps:
  "bindE (sub_lit v ''signature'') (\<lambda>block.
   bindE (find_key ring block) (\<lambda>entry.
   bindE (check_key_status (Some (rk_status entry)) historical) (\<lambda>_.
   bindE (decode_block_signature block) (\<lambda>raw.
   bindE (verify_signature X v entry raw subject) (\<lambda>_. r))))) = Inr a
   \<longleftrightarrow> signed_under X ring historical v \<and> r = Inr a"
proof -
  have "(\<exists>x. A x \<and> (\<exists>y. B x y \<and> (\<exists>u :: unit. C y u \<and> (\<exists>z. D x z \<and> (\<exists>u :: unit. E y z u \<and> R))))) \<longleftrightarrow>
     (\<exists>x y z. A x \<and> B x y \<and> C y () \<and> D x z \<and> E y z ()) \<and> R" for A B C D E R
    unfolding ex_unit by blast
  then show ?thesis
    unfolding signed_under_intro [where subject = subject, symmetric] bindE_Inr_iff subscript_Inr_iff .
qed

lemma binding_step:
  "bindE (sub_lit v k) (\<lambda>bound. bindE (bind_field f bound e) (\<lambda>_. r)) = Inr a \<longleftrightarrow>
     (\<exists>b. get_lit v k = Some b \<and> py_eq b e) \<and> r = Inr a"
  by (auto simp: bindE_Inr_iff subscript_Inr_iff)

lemma action_step:
  "bindE (sub_lit v k) (\<lambda>bound. bindE d (\<lambda>action. bindE (bind_field f bound (JStr action)) (\<lambda>_. r))) = Inr a \<longleftrightarrow>
     (\<exists>action. d = Inr action \<and> get_lit v k = Some (JStr action)) \<and> r = Inr a"
  by (auto simp: bindE_Inr_iff subscript_Inr_iff)

lemma unit_step: "bindE (r :: exn + unit) (\<lambda>_. q) = Inr a \<longleftrightarrow> r = Inr () \<and> q = Inr a"
  by (auto simp: bindE_Inr_iff)

lemma verify_authorization_Inr:
  "verify_authorization X v pinned candidate snapshot result runtime_id verification_time ring registry consumed
     historical = Inr a \<longleftrightarrow>
   is_dict v \<and> is_str runtime_id \<and> validate X v authorization_schema_id registry = Inr () \<and>
   signed_under X ring historical v \<and>
   get_lit v ''rulebook_digest'' = Some (JStr (rb_digest pinned)) \<and>
   (\<exists>action. digest (sha256_hex X) candidate = Inr action \<and> get_lit v ''action_digest'' = Some (JStr action)) \<and>
   (\<exists>e. get_lit v ''evidence_digest'' = Some e \<and> py_eq e (sn_digest snapshot)) \<and>
   result_reproduced X pinned candidate snapshot result registry \<and>
   get_lit v ''runtime_id'' = Some runtime_id \<and> interval_ok v pinned snapshot verification_time \<and>
   nonce_fresh v consumed \<and> freeze_authorization v = Inr a"
proof -
  have r: "is_str runtime_id \<Longrightarrow> py_eq b runtime_id \<longleftrightarrow> b = runtime_id" for b
    by (cases runtime_id) auto
  show ?thesis
  proof (cases "is_dict v \<and> is_str runtime_id")
    case True
    then have "verify_authorization X v pinned candidate snapshot result runtime_id verification_time ring registry consumed
     historical = Inr a \<longleftrightarrow> validate X v authorization_schema_id registry = Inr () \<and>
       signed_under X ring historical v \<and>
       (\<exists>b. get_lit v ''rulebook_digest'' = Some b \<and> py_eq b (JStr (rb_digest pinned))) \<and>
       (\<exists>action. digest (sha256_hex X) candidate = Inr action \<and> get_lit v ''action_digest'' = Some (JStr action)) \<and>
       (\<exists>e. get_lit v ''evidence_digest'' = Some e \<and> py_eq e (sn_digest snapshot)) \<and>
       result_reproduced X pinned candidate snapshot result registry \<and>
       (\<exists>b. get_lit v ''runtime_id'' = Some b \<and> py_eq b runtime_id) \<and>
       interval_ok v pinned snapshot verification_time \<and> nonce_fresh v consumed \<and> freeze_authorization v = Inr a"
      by (simp only: verify_authorization_def signature_steps binding_step action_step unit_step
          check_result_Inr check_interval_Inr check_nonce_Inr simp_thms if_False)
    with True r show ?thesis by auto
  qed (auto simp: verify_authorization_def)
qed

section \<open>Issued authorizations verify\<close>

text \<open>The documented contract of Ed25519 for a key pair: signatures are bytes, and verify.\<close>

definition signs_for :: "externals \<Rightarrow> bytes \<Rightarrow> bytes \<Rightarrow> bool" where
  "signs_for X private_key public_key \<longleftrightarrow>
     ed25519_loads X public_key \<and>
     (\<forall>m s. ed25519_sign X private_key m = Some s \<longrightarrow>
        (\<forall>b \<in> set s. b < 256) \<and> ed25519_verify X public_key s m)"

lemma signing_bytes_sort: "signing_bytes v = Inr m \<Longrightarrow> signing_bytes (sort_json v) = Inr m"
proof -
  assume "signing_bytes v = Inr m"
  then obtain c where "canon_json v = Inr c" "utf8_bytes c = Inr m" by (auto simp: signing_bytes_def bindE_Inr_iff)
  then show ?thesis
    unfolding signing_bytes_def using canon_json_sort [of v c] by (simp only: bindE_simps)
qed

lemma pad_dec_wf: "wf_str (pad_dec w n)"
proof -
  have "wf_str (dec k)" for k
    using dec_digits [of k] by (auto simp: wf_str_def list_all_iff is_digit_def)
  then show ?thesis by (auto simp: pad_dec_def wf_str_def list_all_iff)
qed

lemma add_seconds_wf: "add_seconds t n = Inr u \<Longrightarrow> wf_str u"
proof -
  assume "add_seconds t n = Inr u"
  then obtain s where u: "u = render_seconds s" by (auto simp: add_seconds_def bindE_Inr_iff)
  have "wf_str (render_seconds s)"
    unfolding render_seconds_def Let_def using pad_dec_wf by (simp add: wf_str_def)
  with u show ?thesis by simp
qed

lemma b64_list: "list_all (\<lambda>c. c < 128) (b64encode bs)"
  if "\<forall>b \<in> set bs. b < 256"
proof -
  have c: "n < 64 \<Longrightarrow> b64_char n < 128" for n by (auto simp: b64_char_def)
  have j: "x mod 4 * 16 + y div 16 < 64" "y mod 16 * 4 + z div 64 < 64" if "x < 256" "y < 256" "z < 256"
    for x y z :: nat
    using that join_less [of "x mod 4" 4 "y div 16" 16] join_less [of "y mod 16" 16 "z div 64" 4]
    by (simp_all add: less_mult_imp_div_less)
  show ?thesis
    using that
    by (induction bs rule: b64encode.induct) (auto intro!: c j less_mult_imp_div_less)
qed

lemma b64_wf: "\<forall>b \<in> set bs. b < 256 \<Longrightarrow> wf_str (b64encode bs)"
  using b64_list [of bs] by (auto simp: wf_str_def list_all_iff)

lemma b64_plain: "\<forall>b \<in> set bs. b < 256 \<Longrightarrow> no_surrogate (b64encode bs)"
  using b64_list [of bs] by (fastforce simp: no_surrogate_def list_all_iff is_surrogate_def)

lemma signature_block_fields:
  "get_lit (sort_json (signature_block i n raw)) ''key_id'' = Some (sort_json i)"
  "get_lit (sort_json (signature_block i n raw)) ''key_version'' = Some (sort_json n)"
  "get_lit (sort_json (signature_block i n raw)) ''value'' = Some (JStr (b64encode raw))"
  if "wf_json i" "wf_json n"
proof -
  have f: "dict_get (sort_json (JDict d)) k = map_option sort_json (map_of d k)" if "distinct (keys d)" for d k
    using that by (simp add: map_of_map_snd)
  show "get_lit (sort_json (signature_block i n raw)) ''key_id'' = Some (sort_json i)"
    "get_lit (sort_json (signature_block i n raw)) ''key_version'' = Some (sort_json n)"
    "get_lit (sort_json (signature_block i n raw)) ''value'' = Some (JStr (b64encode raw))"
    unfolding signature_block_def by (simp_all add: f keys_def del: sort_json.simps)
qed

lemma issue_Inr:
  assumes "issue_authorization X pinned candidate snapshot result i nonce runtime_id issued_at key_id key_version
     private_key registry = Inr a"
  obtains k ttl seconds expires_at action raw payload issued frozen where
    "is_str i" "is_str nonce" "is_str runtime_id" "is_str issued_at" "is_str key_id" "is_int key_version"
    "private_key = Some k" "ev_outcome result = lit ''ALLOW''"
    "instant_of issued_at = Inr issued" "instant_of (sn_frozen_at snapshot) = Inr frozen" "frozen \<le> issued"
    "declared_ttl pinned = Inr ttl" "num_of ttl = Some seconds"
    "add_seconds (the_str issued_at) seconds = Inr expires_at" "digest (sha256_hex X) candidate = Inr action"
    "payload = authorization_payload i nonce issued_at expires_at runtime_id action (rb_digest pinned) (sn_digest snapshot)"
    "sign_payload X k payload = Inr raw"
    "validate X (JDict (items payload @ [(lit ''signature'', signature_block key_id key_version raw)])) authorization_schema_id registry = Inr ()"
    "freeze_authorization (JDict (items payload @ [(lit ''signature'', signature_block key_id key_version raw)])) = Inr a"
proof -
  from assms obtain k where c: "check_issue_arguments i nonce runtime_id issued_at key_id key_version private_key = Inr k"
    and al: "ev_outcome result = lit ''ALLOW''"
    by (auto simp: issue_authorization_def bindE_Inr_iff split: if_split_asm)
  from c have k: "is_str i" "is_str nonce" "is_str runtime_id" "is_str issued_at" "is_str key_id" "is_int key_version"
    "private_key = Some k"
    by (auto simp: check_issue_arguments_def require_string_def bindE_Inr_iff split: if_split_asm option.split_asm)
  from assms c al obtain issued frozen ttl expires_at action where t: "instant_of issued_at = Inr issued"
    "instant_of (sn_frozen_at snapshot) = Inr frozen" "frozen \<le> issued"
    "bindE (declared_ttl pinned) seconds_of = Inr ttl" "add_seconds (the_str issued_at) ttl = Inr expires_at"
    "digest (sha256_hex X) candidate = Inr action" and
    r: "(let payload = authorization_payload i nonce issued_at expires_at runtime_id action
                             (rb_digest pinned) (sn_digest snapshot)
             in bindE (sign_payload X k payload) (\<lambda>signature.
                let completed = JDict (dset (lit ''signature'') (signature_block key_id key_version signature) (items payload))
                in bindE (validate X completed authorization_schema_id registry) (\<lambda>_.
                   freeze_authorization completed))) = Inr a"
    by (auto simp: issue_authorization_def bindE_Inr_iff instant_or_Inr_iff guard_Inr_iff not_less)
  let ?p = "authorization_payload i nonce issued_at expires_at runtime_id action (rb_digest pinned) (sn_digest snapshot)"
  have e: "dset (lit ''signature'') b (items ?p) = items ?p @ [(lit ''signature'', b)]" for b
    by (simp add: authorization_payload_def)
  from r obtain raw where "sign_payload X k ?p = Inr raw"
    "validate X (JDict (items ?p @ [(lit ''signature'', signature_block key_id key_version raw)])) authorization_schema_id registry = Inr ()"
    "freeze_authorization (JDict (items ?p @ [(lit ''signature'', signature_block key_id key_version raw)])) = Inr a"
    by (auto simp: Let_def bindE_Inr_iff e)
  moreover from t(4) obtain w where "declared_ttl pinned = Inr w" "num_of w = Some ttl"
    by (auto simp: bindE_Inr_iff seconds_of_Inr)
  ultimately show thesis using that k al t by blast
qed

lemma flat: "is_str v \<Longrightarrow> jdepth v = 0"
  by (cases v) auto

lemma flat_int: "is_int v \<Longrightarrow> jdepth v = 0"
  by (cases v) auto

lemma issued_verifies:
  assumes issue: "issue_authorization X pinned candidate snapshot result i nonce runtime_id issued_at key_id
       key_version (Some k) registry = Inr a"
    and wf: "wf_json i" "wf_json nonce" "wf_json runtime_id" "wf_json issued_at" "wf_json key_id"
      "wf_str (rb_digest pinned)" "sn_digest snapshot = JStr evidence" "wf_str evidence" "hash_text_ok X" "wf_json candidate"
    and key: "key_lookup ring (key_id, key_version) = Inr (Some entry)" "signs_for X k (rk_public entry)"
      "check_key_status (Some (rk_status entry)) historical = Inr ()"
    and result: "snapshot_value snapshot = Inr s" "evaluate X pinned candidate s registry = Inr result"
    and time: "instant_of issued_at = Inr issued" "declared_ttl pinned = Inr ttl" "num_of ttl = Some seconds"
      "issued < (issued div nanos_per_second + seconds) * nanos_per_second"
      "renderable (issued div nanos_per_second + seconds)"
      "\<And>t. verification_time = Some t \<Longrightarrow> \<exists>now. instant_of t = Inr now \<and> issued \<le> now \<and>
         now < (issued div nanos_per_second + seconds) * nanos_per_second"
    and nonce: "\<And>ns m. consumed = Some ns \<Longrightarrow> m \<in> set ns \<Longrightarrow> \<not> py_eq nonce m"
  shows "\<exists>v. authorization_value a = Inr v \<and>
     verify_authorization X v pinned candidate snapshot result runtime_id verification_time ring registry
       consumed historical = Inr a"
proof -
  from issue obtain expires_at action raw frozen where
    arg: "is_str i" "is_str nonce" "is_str runtime_id" "is_str issued_at" "is_str key_id" "is_int key_version" and
    al: "ev_outcome result = lit ''ALLOW''" and fr: "instant_of (sn_frozen_at snapshot) = Inr frozen" "frozen \<le> issued" and
    ex: "add_seconds (the_str issued_at) seconds = Inr expires_at" and ac: "digest (sha256_hex X) candidate = Inr action" and
    sg: "sign_payload X k (authorization_payload i nonce issued_at expires_at runtime_id action (rb_digest pinned) (sn_digest snapshot)) = Inr raw" and
    va: "validate X (JDict (items (authorization_payload i nonce issued_at expires_at runtime_id action (rb_digest pinned) (sn_digest snapshot))
           @ [(lit ''signature'', signature_block key_id key_version raw)])) authorization_schema_id registry = Inr ()" and
    fz: "freeze_authorization (JDict (items (authorization_payload i nonce issued_at expires_at runtime_id action (rb_digest pinned) (sn_digest snapshot))
           @ [(lit ''signature'', signature_block key_id key_version raw)])) = Inr a"
    by (rule issue_Inr) (use time in auto)
  let ?p = "authorization_payload i nonce issued_at expires_at runtime_id action (rb_digest pinned) (sn_digest snapshot)"
  let ?b = "signature_block key_id key_version raw"
  let ?c = "JDict (items ?p @ [(lit ''signature'', ?b)])"
  let ?expires = "(issued div nanos_per_second + seconds) * nanos_per_second"
  from sg obtain m where m: "signing_bytes ?p = Inr m" "ed25519_sign X k m = Some raw"
    by (auto simp: sign_payload_def bindE_Inr_iff split: option.split_asm)
  have key2: "\<forall>b \<in> set raw. b < 256" "ed25519_loads X (rk_public entry)" "ed25519_verify X (rk_public entry) raw m"
    using key(2) m(2) by (auto simp: signs_for_def)
  obtain at where at: "issued_at = JStr at" using arg(4) by (cases issued_at) auto
  have ex': "instant expires_at = Inr ?expires"
    using add_seconds_instant [of at, OF _ time(5)] time(1) ex at by (auto simp: instant_of_def)
  have wfx: "wf_str expires_at" by (rule add_seconds_wf [OF ex])
  have wfa: "wf_str action" by (rule digest_wf [OF wf(9) ac])
  have wfv: "wf_json ?c"
    using wf wfx wfa arg b64_wf [OF key2(1)]
    by (cases key_version) (auto simp: authorization_payload_def signature_block_def keys_def)
  have dep: "jdepth ?c \<le> max_depth"
    using flat [OF arg(1)] flat [OF arg(2)] flat [OF arg(3)] flat [OF arg(4)] flat [OF arg(5)] flat_int [OF arg(6)] wf(7)
    by (simp add: authorization_payload_def signature_block_def max_depth_def)
  from fz have cn: "canon_json ?c = Inr (au_canonical a)" by (simp add: freeze_authorization_Inr)
  have rl: "authorization_value a = Inr (sort_json ?c)"
    using reload_canonical [OF wfv cn] dep by (simp add: authorization_value_def)
  have f: "get_lit (sort_json ?c) n = map_option sort_json (get_lit ?c n)" for n
    by (rule dict_get_sort [OF wfv])
  have fields: "get_lit ?c ''signature'' = Some ?b" "get_lit ?c ''rulebook_digest'' = Some (JStr (rb_digest pinned))"
    "get_lit ?c ''action_digest'' = Some (JStr action)" "get_lit ?c ''evidence_digest'' = Some (sn_digest snapshot)"
    "get_lit ?c ''runtime_id'' = Some runtime_id" "get_lit ?c ''issued_at'' = Some issued_at"
    "get_lit ?c ''expires_at'' = Some (JStr expires_at)" "get_lit ?c ''nonce'' = Some nonce"
    by (simp_all add: authorization_payload_def)
  have scalar: "is_str v \<Longrightarrow> sort_json v = v" for v by (cases v) auto
  have int: "sort_json key_version = key_version" using arg(6) by (cases key_version) auto
  have wo: "json_without ''signature'' (sort_json ?c) = sort_json ?p"
    unfolding json_without_sort
    by (simp add: json_without_def authorization_payload_def dwithout_def)
  have wk: "wf_json key_version" using arg(6) by (cases key_version) auto
  define v where "v = sort_json ?c"
  have g: "get_lit v ''signature'' = Some (sort_json ?b)" "get_lit v ''rulebook_digest'' = Some (JStr (rb_digest pinned))"
    "get_lit v ''action_digest'' = Some (JStr action)" "get_lit v ''evidence_digest'' = Some (JStr evidence)"
    "get_lit v ''runtime_id'' = Some runtime_id" "get_lit v ''issued_at'' = Some issued_at"
    "get_lit v ''expires_at'' = Some (JStr expires_at)" "get_lit v ''nonce'' = Some nonce"
    unfolding v_def f fields by (simp_all add: wf(7) scalar arg del: sort_json.simps)
  have bl: "get_lit (sort_json ?b) ''key_id'' = Some key_id" "get_lit (sort_json ?b) ''key_version'' = Some key_version"
    "get_lit (sort_json ?b) ''value'' = Some (JStr (b64encode raw))"
    unfolding signature_block_fields [OF wf(5) wk] by (simp_all add: scalar arg int)
  have sb: "signing_bytes (json_without ''signature'' v) = Inr m"
    unfolding v_def wo by (rule signing_bytes_sort [OF m(1)])
  have su: "signed_under X ring historical v"
    unfolding signed_under_def
    by (rule exI [of _ "sort_json ?b"], rule exI [of _ key_id], rule exI [of _ key_version], rule exI [of _ entry],
        rule exI [of _ raw], rule exI [of _ m])
      (simp add: g bl key key(3) [unfolded check_key_status_Inr] key2 sb decode_signature_encode [OF key2(1)])
  have iv: "interval_ok v pinned snapshot verification_time"
    unfolding interval_ok_def
    by (rule exI [of _ issued_at], rule exI [of _ "JStr expires_at"], rule exI [of _ issued], rule exI [of _ ?expires],
        rule exI [of _ frozen], rule exI [of _ ttl], rule exI [of _ seconds])
      (use time fr ex' g in \<open>auto simp: instant_of_def\<close>)
  have nf: "nonce_fresh v consumed"
    using nonce by (auto simp: nonce_fresh_def g)
  have ii: "get_lit v ''authorization_id'' = Some i"
    unfolding v_def f by (simp add: authorization_payload_def scalar arg del: sort_json.simps)
  have cv: "canon_json v = Inr (au_canonical a)"
    unfolding v_def by (rule canon_json_sort [OF cn])
  have ci: "get_lit ?c ''authorization_id'' = Some i" by (simp add: authorization_payload_def)
  have fz': "freeze_authorization v = Inr a"
    using fz [unfolded freeze_authorization_Inr fields ci] unfolding freeze_authorization_Inr g ii
    by (simp only: cv simp_thms)
  have ev: "result_reproduced X pinned candidate snapshot result registry"
    using result al by (auto simp: result_reproduced_def)
  have va': "validate X v authorization_schema_id registry = Inr ()"
    unfolding v_def validate_sort [OF wfv] by (rule va)
  have "is_dict v" by (simp add: v_def)
  then have "verify_authorization X v pinned candidate snapshot result runtime_id verification_time ring registry
      consumed historical = Inr a"
    unfolding verify_authorization_Inr using su iv nf fz' ev va' arg ac wf(7) g by simp
  with rl show ?thesis unfolding v_def by blast
qed

lemma first_instant: "instant (lit ''0000-01-01T00:00:00Z'') = Inr (-62167219200000000000)"
  by code_simp

lemma first_rendered: "render_seconds (-62167219200) = lit ''0000-01-02T00:00:00Z''"
  by code_simp

section \<open>Properties\<close>

text \<open>
  C3. What a verified authorization permits. The signature on it is the canonical base64 of bytes that
  verify, over its canonical text without the signature, under a registered key that is active (or
  retired, for a historical question); its digests are those of the rulebook, the candidate and the
  snapshot at hand; its interval follows the freeze, lasts what the rulebook declares and holds the
  instant of the check; its nonce is not among the consumed ones; and evaluating the bound inputs again
  reproduces the result, by an \<open>ALLOW\<close> rule with all its evidence and a true expression.
\<close>

theorem verified_authorization_permits:
  assumes "verify_authorization X v pinned candidate snapshot result runtime_id verification_time ring registry
     consumed historical = Inr a"
  shows "validate X v authorization_schema_id registry = Inr () \<and> signed_under X ring historical v \<and>
     get_lit v ''rulebook_digest'' = Some (JStr (rb_digest pinned)) \<and>
     (\<exists>action. digest (sha256_hex X) candidate = Inr action \<and> get_lit v ''action_digest'' = Some (JStr action)) \<and>
     (\<exists>e. get_lit v ''evidence_digest'' = Some e \<and> py_eq e (sn_digest snapshot)) \<and>
     get_lit v ''runtime_id'' = Some runtime_id \<and> interval_ok v pinned snapshot verification_time \<and>
     nonce_fresh v consumed \<and> canon_json v = Inr (au_canonical a) \<and>
     (\<exists>s r w cx rules k. snapshot_value snapshot = Inr s \<and> evaluate X pinned candidate s registry = Inr r \<and>
        ev_canonical r = ev_canonical result \<and> rulebook_value pinned = Inr w \<and> make_context w candidate s = Inr cx \<and>
        items_of w ''rules'' = Inr rules \<and> k < length rules \<and> rule_satisfied cx (rules ! k) \<and>
        get_lit (rules ! k) ''outcome'' = Some (JStr (lit ''ALLOW'')))"
proof -
  from assms [unfolded verify_authorization_Inr] have f: "validate X v authorization_schema_id registry = Inr ()"
    "signed_under X ring historical v" "get_lit v ''rulebook_digest'' = Some (JStr (rb_digest pinned))"
    "\<exists>action. digest (sha256_hex X) candidate = Inr action \<and> get_lit v ''action_digest'' = Some (JStr action)"
    "\<exists>e. get_lit v ''evidence_digest'' = Some e \<and> py_eq e (sn_digest snapshot)"
    "get_lit v ''runtime_id'' = Some runtime_id" "interval_ok v pinned snapshot verification_time"
    "nonce_fresh v consumed" "result_reproduced X pinned candidate snapshot result registry"
    "canon_json v = Inr (au_canonical a)"
    by (auto simp: freeze_authorization_Inr)
  from f(9) obtain s r where r: "snapshot_value snapshot = Inr s" "evaluate X pinned candidate s registry = Inr r"
    "ev_canonical r = ev_canonical result" "ev_outcome r = lit ''ALLOW''"
    by (auto simp: result_reproduced_def)
  from earned_allow [OF r(2,4)] f r(1-3) show ?thesis by blast
qed

text \<open>
  C17. An issued authorization verifies, wherever its expiry is exact: if the expiry lies between 1 March of year
  zero and the end of year 9999, which is where the code's calendar computation is right and four digits
  suffice (\<open>renderable\<close>; \<open>expiry_rendered\<close> has the case before), the value it reloads to passes verification
  against the same rulebook, candidate, snapshot and result, under every registry that holds the public key of
  the pair with an acceptable status, at every instant from its issue until its expiry (or with none), as long
  as its nonce is unused; and verification yields the very authorization that was issued.
\<close>

theorem issued_authorization_verifies:
  assumes "issue_authorization X pinned candidate snapshot result i nonce runtime_id issued_at key_id
       key_version (Some k) registry = Inr a"
    and "wf_json i" "wf_json nonce" "wf_json runtime_id" "wf_json issued_at" "wf_json key_id"
      "wf_str (rb_digest pinned)" "sn_digest snapshot = JStr evidence" "wf_str evidence" "hash_text_ok X" "wf_json candidate"
    and "key_lookup ring (key_id, key_version) = Inr (Some entry)" "signs_for X k (rk_public entry)"
      "check_key_status (Some (rk_status entry)) historical = Inr ()"
    and "snapshot_value snapshot = Inr s" "evaluate X pinned candidate s registry = Inr result"
    and "instant_of issued_at = Inr issued" "declared_ttl pinned = Inr ttl" "num_of ttl = Some seconds"
      "issued < (issued div nanos_per_second + seconds) * nanos_per_second"
      "renderable (issued div nanos_per_second + seconds)"
      "\<And>t. verification_time = Some t \<Longrightarrow> \<exists>now. instant_of t = Inr now \<and> issued \<le> now \<and>
         now < (issued div nanos_per_second + seconds) * nanos_per_second"
    and "\<And>ns m. consumed = Some ns \<Longrightarrow> m \<in> set ns \<Longrightarrow> \<not> py_eq nonce m"
  shows "\<exists>v. authorization_value a = Inr v \<and>
     verify_authorization X v pinned candidate snapshot result runtime_id verification_time ring registry
       consumed historical = Inr a"
  by (rule issued_verifies [OF assms])

text \<open>
  C33. One public key carries one identity. In a registry that was built, two lookups that find the same
  public key were made under the same identity and find the same status, so relabelling a signature never
  selects a key that verifies it under another status.
\<close>

theorem one_key_one_identity:
  assumes "build_key_registry entries = Inr ring"
    and "key_lookup ring i = Inr (Some k)" "key_lookup ring j = Inr (Some l)" "rk_public k = rk_public l"
  shows "k = l \<and> same_identity i j \<and> length (rk_public k) = key_length \<and> is_one_of (rk_status k) key_statuses"
proof -
  have ok: "ring_ok ring"
    using register_keys_ok [of entries "[]" "[]" ring] assms(1) by (simp add: build_key_registry_def ring_ok_def pairwise_def)
  from key_lookup_entry [OF assms(2)] obtain i' where i: "hashable_identity i" "(i', k) \<in> set ring" "same_identity i' i" by blast
  from key_lookup_entry [OF assms(3)] obtain j' where j: "hashable_identity j" "(j', l) \<in> set ring" "same_identity j' j" by blast
  from ring_same_entry [OF ok i(2) j(2)] assms(4) have e: "i' = j'" "k = l" by auto
  have h: "hashable_identity i'" "length (rk_public k) = key_length" "is_one_of (rk_status k) key_statuses"
    using ok i(2) by (auto simp: ring_ok_def)
  have "same_identity i i'" using same_identity_sym [OF h(1) i(1)] i(3) by blast
  with same_identity_trans [OF i(1) h(1) j(1)] j(3) e(1) have "same_identity i j" by blast
  with e h show ?thesis by blast
qed

text \<open>
  The rendered expiry denotes the instant that many whole seconds later, wherever the calendar
  computation is exact and the year has four digits; on the first days of year zero it is a day late.
\<close>

theorem expiry_rendered:
  "(\<forall>t i n. instant t = Inr i \<longrightarrow> renderable (i div nanos_per_second + n) \<longrightarrow>
      (\<exists>t'. add_seconds t n = Inr t' \<and> instant t' = Inr ((i div nanos_per_second + n) * nanos_per_second))) \<and>
   add_seconds (lit ''0000-01-01T00:00:00Z'') 0 = Inr (lit ''0000-01-02T00:00:00Z'')"
proof
  show "add_seconds (lit ''0000-01-01T00:00:00Z'') 0 = Inr (lit ''0000-01-02T00:00:00Z'')"
    by (simp add: add_seconds_def first_instant first_rendered nanos_per_second_def)
qed (use add_seconds_instant in blast)

section \<open>Witnesses\<close>

definition sample_frozen :: frozen_snapshot where
  "sample_frozen = \<lparr>sn_canonical = jtext sample_snapshot_value, sn_digest = JStr (lit ''sha256:'' @ replicate 64 48),
     sn_frozen_at = JStr sample_instant, sn_id = JStr (lit ''s'')\<rparr>"

definition sample_ring :: key_registry where
  "sample_ring = [((JStr (lit ''k''), JInt 1), \<lparr>rk_public = replicate 32 0, rk_status = JStr (lit ''active'')\<rparr>)]"

lemma sample_frozen_value: "snapshot_value sample_frozen = Inr (sort_json sample_snapshot_value)"
proof -
  have l: "loadable sample_snapshot_value"
    by (simp add: loadable_def sample_inputs_wf) (simp add: sample_snapshot_value_def max_depth_def)
  have c: "canon_json sample_snapshot_value = Inr (jtext sample_snapshot_value)"
    unfolding canon_json_iff
    by (simp add: sample_snapshot_value_def no_surrogate_def is_surrogate_def lit_def sample_instant_def list_all_iff
        safe_int_def min_safe_integer_def max_safe_integer_def)
  show ?thesis
    using json_text.dcd_enc [OF l c] by (simp add: snapshot_value_def sample_frozen_def)
qed

lemma sample_result:
  obtains r where "evaluate sample_externals sample_pinned sample_candidate (sort_json sample_snapshot_value) sample_registry = Inr r"
    "ev_outcome r = lit ''ALLOW''"
proof -
  obtain r where r: "evaluate sample_externals sample_pinned sample_candidate sample_snapshot_value sample_registry = Inr r"
    "ev_outcome r = lit ''ALLOW''" using sample_evaluate by blast
  have "sort_json sample_candidate = sample_candidate" by (simp add: sample_candidate_def lit_def)
  with evaluate_sort [OF r(1) sample_inputs_wf] r(2) show thesis by (intro that) simp_all
qed

lemma sample_ttl: "declared_ttl sample_pinned = Inr (JInt 300)"
proof -
  have n: "get_lit (sort_json sample_document) ''authorization'' = None"
    unfolding dict_get_sort [OF sample_document_ok(1)] by (simp add: sample_document_def)
  have d: "is_dict sample_document" by (simp add: sample_document_def)
  show ?thesis
    by (simp add: declared_ttl_def sample_value py_get_def d n default_ttl_def del: sort_json.simps)
qed

lemma sample_issue:
  assumes "ev_outcome r = lit ''ALLOW''"
  shows "\<exists>a. issue_authorization sample_externals sample_pinned sample_candidate sample_frozen r (JStr (lit ''i''))
     (JStr (lit ''n'')) (JStr (lit ''rt'')) (JStr sample_instant) (JStr (lit ''k'')) (JInt 1)
     (Some (replicate 32 0)) sample_registry = Inr a"
proof -
  have c: "check_issue_arguments (JStr (lit ''i'')) (JStr (lit ''n'')) (JStr (lit ''rt'')) (JStr sample_instant)
      (JStr (lit ''k'')) (JInt 1) (Some (replicate 32 0)) = Inr (replicate 32 0)"
    by (simp add: check_issue_arguments_def require_string_def key_length_def)
  have e: "add_seconds sample_instant 300 = Inr (lit ''2024-01-01T00:05:00Z'')"
    using sample_instant_value by (simp add: add_seconds_def instant_of_def nanos_per_second_def) code_simp
  have ca: "canon_ok sample_candidate"
    by (simp add: sample_candidate_def no_surrogate_def is_surrogate_def lit_def)
  obtain action where d: "digest (sha256_hex sample_externals) sample_candidate = Inr action" "action = lit ''sha256:'' @ replicate 64 48"
    using hex_digest_canonical(2) [OF sample_inputs_wf(1), of "jtext sample_candidate" "sha256_hex sample_externals"] ca
    by (simp add: canon_json_iff sample_externals_def)
  let ?p = "authorization_payload (JStr (lit ''i'')) (JStr (lit ''n'')) (JStr sample_instant) (lit ''2024-01-01T00:05:00Z'')
    (JStr (lit ''rt'')) action (rb_digest sample_pinned) (sn_digest sample_frozen)"
  have wp: "wf_json ?p" "canon_ok ?p"
    by (simp_all add: authorization_payload_def keys_def sample_pinned_def sample_frozen_def d(2) wf_zeros
        sample_instant_def no_surrogate_def is_surrogate_def lit_def list_all_iff)
  have cp: "canon_json ?p = Inr (jtext ?p)" using wp(2) by (simp only: canon_json_iff)
  have sg: "sign_payload sample_externals k ?p = Inr (replicate 64 0)" for k
    using canon_json_bytes(1) [OF wp(1) cp] cp by (simp add: sign_payload_def signing_bytes_def sample_externals_def)
  let ?c = "JDict (dset (lit ''signature'') (signature_block (JStr (lit ''k'')) (JInt 1) (replicate 64 0)) (items ?p))"
  have b: "no_surrogate (b64encode (replicate 64 0))" by (rule b64_plain) simp
  have "canon_ok ?c"
    using wp(2) b by (simp add: authorization_payload_def signature_block_def no_surrogate_def is_surrogate_def lit_def
        safe_int_def min_safe_integer_def max_safe_integer_def)
  then have cc: "canon_json ?c = Inr (jtext ?c)" by (simp only: canon_json_iff)
  have v: "validate sample_externals ?c authorization_schema_id sample_registry = Inr ()"
    by (rule sample_registry_lookup [where c = AuthorizationSchemaInvalid])
      (simp add: code_by_id_def authorization_schema_id_def)
  have f: "sub_lit ?c ''authorization_id'' = Inr (JStr (lit ''i''))" "sub_lit ?c ''nonce'' = Inr (JStr (lit ''n''))"
    "sub_lit ?c ''issued_at'' = Inr (JStr sample_instant)" "sub_lit ?c ''expires_at'' = Inr (JStr (lit ''2024-01-01T00:05:00Z''))"
    by (simp_all add: authorization_payload_def)
  have i: "instant_field (JStr sample_instant) n = Inr 1704067200000000000" for n
    by (simp add: instant_or_def sample_instant_value)
  have fz: "sn_frozen_at sample_frozen = JStr sample_instant" by (simp add: sample_frozen_def)
  have fa: "\<exists>a. freeze_authorization ?c = Inr a"
    unfolding freeze_authorization_def cc f by simp
  show ?thesis
    unfolding issue_authorization_def c bindE_simps i fz
    using fa by (simp add: assms sample_ttl seconds_of_def e d(1) sg v Let_def del: items.simps dset.simps)
qed

lemma sample_key: "key_lookup sample_ring (JStr (lit ''k''), JInt 1)
    = Inr (Some \<lparr>rk_public = replicate 32 0, rk_status = JStr (lit ''active'')\<rparr>)"
  by (simp add: key_lookup_def sample_ring_def unhashable_def same_identity_def)

lemma sample_signs: "signs_for sample_externals k p"
  by (auto simp: signs_for_def sample_externals_def)

lemma sample_renderable: "renderable (1704067200 + 300)"
  unfolding renderable_def by code_simp

lemma sample_ring_built:
  "build_key_registry [\<lparr>ke_id = JStr (lit ''k''), ke_version = JInt 1, ke_public = Some (replicate 32 0),
     ke_status = None\<rparr>] = Inr sample_ring"
  by (simp add: build_key_registry_def sample_ring_def key_lookup_def unhashable_def key_length_def is_one_of_def
      key_statuses_def)

lemma sample_instant_wf: "wf_str sample_instant"
  by (simp add: sample_instant_def)

lemma sample_verified:
  assumes r: "evaluate sample_externals sample_pinned sample_candidate (sort_json sample_snapshot_value) sample_registry = Inr r"
    "ev_outcome r = lit ''ALLOW''"
    and a: "issue_authorization sample_externals sample_pinned sample_candidate sample_frozen r (JStr (lit ''i''))
     (JStr (lit ''n'')) (JStr (lit ''rt'')) (JStr sample_instant) (JStr (lit ''k'')) (JInt 1)
     (Some (replicate 32 0)) sample_registry = Inr a"
  shows "\<exists>v. authorization_value a = Inr v \<and>
     verify_authorization sample_externals v sample_pinned sample_candidate sample_frozen r (JStr (lit ''rt''))
       (Some (JStr sample_instant)) sample_ring sample_registry (Some []) False = Inr a"
    by (rule issued_verifies [OF a _ _ _ _ _ _ _ _ sample_hash sample_inputs_wf(1) sample_key sample_signs
          _ sample_frozen_value r(1) sample_instant_value sample_ttl, where seconds = 300 and evidence = "lit ''sha256:'' @ replicate 64 48"])
      (use sample_renderable in \<open>simp_all add: wf_zeros sample_wf sample_instant_wf sample_frozen_def
         sample_instant_value check_key_status_Inr nanos_per_second_def\<close>)

theorem issued_authorization_verifies_witness:
  "\<exists>r a v. issue_authorization sample_externals sample_pinned sample_candidate sample_frozen r (JStr (lit ''i''))
     (JStr (lit ''n'')) (JStr (lit ''rt'')) (JStr sample_instant) (JStr (lit ''k'')) (JInt 1)
     (Some (replicate 32 0)) sample_registry = Inr a \<and> authorization_value a = Inr v \<and>
     verify_authorization sample_externals v sample_pinned sample_candidate sample_frozen r (JStr (lit ''rt''))
       (Some (JStr sample_instant)) sample_ring sample_registry (Some []) False = Inr a"
proof -
  obtain r where r: "evaluate sample_externals sample_pinned sample_candidate (sort_json sample_snapshot_value) sample_registry = Inr r"
    "ev_outcome r = lit ''ALLOW''" by (rule sample_result)
  obtain a where a: "issue_authorization sample_externals sample_pinned sample_candidate sample_frozen r (JStr (lit ''i''))
     (JStr (lit ''n'')) (JStr (lit ''rt'')) (JStr sample_instant) (JStr (lit ''k'')) (JInt 1)
     (Some (replicate 32 0)) sample_registry = Inr a" using sample_issue [OF r(2)] by blast
  have "\<exists>v. authorization_value a = Inr v \<and>
     verify_authorization sample_externals v sample_pinned sample_candidate sample_frozen r (JStr (lit ''rt''))
       (Some (JStr sample_instant)) sample_ring sample_registry (Some []) False = Inr a"
    by (rule issued_authorization_verifies [OF a _ _ _ _ _ _ _ _ sample_hash sample_inputs_wf(1) sample_key sample_signs
          _ sample_frozen_value r(1) sample_instant_value sample_ttl, where seconds = 300 and evidence = "lit ''sha256:'' @ replicate 64 48"])
      (use sample_renderable in \<open>simp_all add: wf_zeros sample_wf sample_instant_wf sample_frozen_def
         sample_instant_value check_key_status_Inr nanos_per_second_def\<close>)
  with a show ?thesis by blast
qed

theorem verified_authorization_permits_witness:
  "\<exists>v w cx rules k. signed_under sample_externals sample_ring False v \<and> rulebook_value sample_pinned = Inr w \<and>
     make_context w sample_candidate (sort_json sample_snapshot_value) = Inr cx \<and> items_of w ''rules'' = Inr rules \<and>
     rule_satisfied cx (rules ! k) \<and>
     interval_ok v sample_pinned sample_frozen (Some (JStr sample_instant))"
proof -
  obtain r where r: "evaluate sample_externals sample_pinned sample_candidate (sort_json sample_snapshot_value) sample_registry = Inr r"
    "ev_outcome r = lit ''ALLOW''" by (rule sample_result)
  obtain a where a: "issue_authorization sample_externals sample_pinned sample_candidate sample_frozen r (JStr (lit ''i''))
     (JStr (lit ''n'')) (JStr (lit ''rt'')) (JStr sample_instant) (JStr (lit ''k'')) (JInt 1)
     (Some (replicate 32 0)) sample_registry = Inr a" using sample_issue [OF r(2)] by blast
  obtain v where "verify_authorization sample_externals v sample_pinned sample_candidate sample_frozen r (JStr (lit ''rt''))
       (Some (JStr sample_instant)) sample_ring sample_registry (Some []) False = Inr a"
    using sample_verified [OF r a] by blast
  from verified_authorization_permits [OF this] obtain w cx rules k s where
    "signed_under sample_externals sample_ring False v" "interval_ok v sample_pinned sample_frozen (Some (JStr sample_instant))"
    "snapshot_value sample_frozen = Inr s" "rulebook_value sample_pinned = Inr w" "make_context w sample_candidate s = Inr cx"
    "items_of w ''rules'' = Inr rules" "rule_satisfied cx (rules ! k)"
    by (elim conjE exE) (rule that)
  then show ?thesis using sample_frozen_value by auto
qed

theorem one_key_one_identity_witness:
  "same_identity (JStr (lit ''k''), JInt 1) (JStr (lit ''k''), JInt 1) \<and>
   build_key_registry [\<lparr>ke_id = JStr (lit ''k''), ke_version = JInt 1, ke_public = Some (replicate 32 0),
     ke_status = None\<rparr>] = Inr sample_ring"
  using one_key_one_identity [OF sample_ring_built sample_key sample_key] sample_ring_built by simp

theorem expiry_rendered_witness:
  "\<exists>t'. add_seconds sample_instant 300 = Inr t' \<and> instant t' = Inr ((1704067200 + 300) * nanos_per_second)"
proof -
  have i: "instant sample_instant = Inr 1704067200000000000" using sample_instant_value by (simp add: instant_of_def)
  have n: "1704067200000000000 div nanos_per_second = 1704067200" by (simp add: nanos_per_second_def)
  show ?thesis
    using conjunct1 [OF expiry_rendered, rule_format, OF i, of 300] sample_renderable unfolding n by simp
qed

end
