(* ===== verification/Receipt.thy ===== *)
theory Receipt
  imports Authorization
begin

text \<open>
  \<^verbatim>\<open>src/vfy/receipt.py\<close>: signed receipts of decisions, their verification, deterministic replay, and
  the recorded instants that cannot have happened in the order recorded. An absent optional argument
  (\<open>None\<close>) of the candidate and the snapshot is \<open>JNull\<close>, as for any Python value that JSON writes null.
\<close>

section \<open>Records\<close>

definition receipt_schema_id :: ustr where
  "receipt_schema_id = lit ''https://verifyrun.com/spec/v1/receipt.schema.json''"

definition replay_mode :: json where
  "replay_mode = JStr (lit ''recompute-decision'')"

definition decision_outcomes :: "ustr list" where
  "decision_outcomes = [lit ''ALLOW'', lit ''BLOCK'', lit ''HOLD'']"

record frozen_receipt =
  rc_canonical :: ustr
  rc_id :: json
  rc_outcome :: ustr

definition receipt_value :: "frozen_receipt \<Rightarrow> exn + json" where
  "receipt_value r = reload (rc_canonical r)"

record receipt_verification =
  rv_receipt_id :: json
  rv_outcome :: json
  rv_key_id :: json
  rv_key_version :: json
  rv_replay_mode :: json
  rv_signature_valid :: bool
  rv_replayed :: bool

record replay_verification =
  rp_receipt_id :: json
  rp_outcome :: json
  rp_signature_valid :: bool
  rp_bodies_matched :: bool
  rp_result_recomputed :: bool
  rp_result_matched :: bool
  rp_authorization_verified :: bool
  rp_recomputed_canonical :: ustr
  rp_replayed :: bool
  rp_timeline_anomalies :: "ustr list"

section \<open>Issuing\<close>

text \<open>\<open>value.get(name)\<close> compared with \<open>None\<close>: a null member reads as absent.\<close>

definition optional_member :: "json \<Rightarrow> string \<Rightarrow> json option" where
  "optional_member v name = (case get_lit v name of Some JNull \<Rightarrow> None | r \<Rightarrow> r)"

definition check_shape_for_outcome :: "ustr \<Rightarrow> bool \<Rightarrow> bool \<Rightarrow> exn + unit" where
  "check_shape_for_outcome outcome authorized executed =
     (if outcome \<in> {lit ''BLOCK'', lit ''HOLD''}
      then if authorized
           then Inl (VErr ReceiptBindingMismatch
             (lit ''A '' @ outcome @ lit '' decision authorizes nothing, so it names no authorization.'') NoDetail)
           else if executed
           then Inl (VErr ReceiptBindingMismatch
             (lit ''A '' @ outcome @ lit '' decision authorizes nothing, so nothing was executed.'') NoDetail)
           else Inr ()
      else Inr ())"

definition receipt_payload ::
  "json \<Rightarrow> json \<Rightarrow> json \<Rightarrow> json \<Rightarrow> ustr \<Rightarrow> ustr \<Rightarrow> json \<Rightarrow> json \<Rightarrow> json option \<Rightarrow> json option \<Rightarrow> json" where
  "receipt_payload i created_at rulebook_id version rulebook_digest action evidence result authorization_id execution =
     JDict ([(lit ''receipt_id'', i), (lit ''spec_version'', JStr (lit ''1'')), (lit ''created_at'', created_at),
             (lit ''rulebook'', JDict [(lit ''rulebook_id'', rulebook_id), (lit ''version'', version),
                (lit ''digest'', JStr rulebook_digest)]),
             (lit ''candidate_digest'', JStr action), (lit ''evidence_digest'', evidence), (lit ''result'', result),
             (lit ''replay'', JDict [(lit ''mode'', replay_mode)])]
       @ (case authorization_id of None \<Rightarrow> [] | Some a \<Rightarrow> [(lit ''authorization_id'', a)])
       @ (case execution of None \<Rightarrow> [] | Some e \<Rightarrow> [(lit ''execution'', e)]))"

definition check_receipt_arguments :: "json \<Rightarrow> json \<Rightarrow> json \<Rightarrow> json \<Rightarrow> bytes option \<Rightarrow> exn + bytes" where
  "check_receipt_arguments i created_at key_id key_version private_key =
     bindE (require_string ''receipt_id'' i) (\<lambda>_.
     bindE (require_string ''created_at'' created_at) (\<lambda>_.
     bindE (require_string ''key_id'' key_id) (\<lambda>_.
       if \<not> is_int key_version then Inl (PyErr PyTypeError (lit ''key_version must be an integer''))
       else case private_key of
         None \<Rightarrow> fail SigningKeyInvalid ''An Ed25519 private key is 32 bytes.''
       | Some k \<Rightarrow>
           if length k \<noteq> key_length then fail SigningKeyInvalid ''An Ed25519 private key is 32 bytes.''
           else Inr k)))"

definition issue_receipt ::
  "externals \<Rightarrow> loaded_rulebook \<Rightarrow> json \<Rightarrow> frozen_snapshot \<Rightarrow> evaluation_result \<Rightarrow> frozen_authorization option \<Rightarrow>
   json option \<Rightarrow> json \<Rightarrow> json \<Rightarrow> json \<Rightarrow> json \<Rightarrow> bytes option \<Rightarrow> registry \<Rightarrow> exn + frozen_receipt" where
  "issue_receipt X pinned candidate snapshot result authorization execution i created_at key_id key_version
     private_key registry =
     bindE (check_receipt_arguments i created_at key_id key_version private_key) (\<lambda>k.
       if ev_outcome result \<notin> set decision_outcomes
       then fail ReceiptOutcomeIneligible ''ERROR is not a decision and emits no receipt.''
       else
         bindE (check_shape_for_outcome (ev_outcome result) (authorization \<noteq> None) (execution \<noteq> None)) (\<lambda>_.
         bindE (rulebook_value pinned) (\<lambda>value.
         bindE (sub_lit value ''rulebook_id'') (\<lambda>rulebook_id.
         bindE (sub_lit value ''version'') (\<lambda>version.
         bindE (digest (sha256_hex X) candidate) (\<lambda>action.
         bindE (result_value result) (\<lambda>recorded.
         let payload = receipt_payload i created_at rulebook_id version (rb_digest pinned) action
                         (sn_digest snapshot) recorded (map_option au_id authorization) execution
         in bindE (sign_payload X k payload) (\<lambda>signature.
            let completed = JDict (dset (lit ''signature'') (signature_block key_id key_version signature) (items payload))
            in bindE (validate X completed receipt_schema_id registry) (\<lambda>_.
               bindE (canon_json completed) (\<lambda>c.
               Inr \<lparr>rc_canonical = c, rc_id = i, rc_outcome = ev_outcome result\<rparr>))))))))))"

section \<open>Verification\<close>

definition verify_receipt :: "externals \<Rightarrow> json \<Rightarrow> key_registry \<Rightarrow> registry \<Rightarrow> exn + receipt_verification" where
  "verify_receipt X v ring registry =
     (if \<not> is_dict v then Inl (PyErr PyTypeError (lit ''a receipt value must be a mapping''))
      else
        bindE (validate X v receipt_schema_id registry) (\<lambda>_.
        bindE (bindE (sub_lit v ''replay'') (\<lambda>r. sub_lit r ''mode'')) (\<lambda>mode.
          if \<not> py_eq mode replay_mode then fail ReceiptBindingMismatch ''Unsupported replay mode.''
          else
            bindE (sub_lit v ''signature'') (\<lambda>block.
            bindE (find_key ring block) (\<lambda>entry.
            bindE (check_key_status (Some (rk_status entry)) True) (\<lambda>_.
            bindE (decode_block_signature block) (\<lambda>signature.
            bindE (verify_signature X v entry signature
                     ''The signature does not verify over the receipt's payload.'') (\<lambda>_.
            bindE (bindE (sub_lit v ''result'') (\<lambda>r. sub_lit r ''outcome'')) (\<lambda>outcome.
              if \<not> is_one_of outcome decision_outcomes
              then fail ReceiptOutcomeIneligible ''ERROR is not a decision and emits no receipt.''
              else
                bindE (check_shape_for_outcome (the_str outcome) (optional_member v ''authorization_id'' \<noteq> None)
                         (optional_member v ''execution'' \<noteq> None)) (\<lambda>_.
                bindE (sub_lit v ''receipt_id'') (\<lambda>i.
                bindE (sub_lit block ''key_id'') (\<lambda>key_id.
                bindE (sub_lit block ''key_version'') (\<lambda>key_version.
                Inr \<lparr>rv_receipt_id = i, rv_outcome = outcome, rv_key_id = key_id, rv_key_version = key_version,
                     rv_replay_mode = mode, rv_signature_valid = True, rv_replayed = False\<rparr>)))))))))))))"

section \<open>The timeline\<close>

definition precedes :: "json \<Rightarrow> json \<Rightarrow> bool" where
  "precedes first second =
     (case (instant_of first, instant_of second) of (Inr a, Inr b) \<Rightarrow> a < b | _ \<Rightarrow> False)"

text \<open>\<open>(v or {}).get(name)\<close>, with a null member as absent.\<close>

definition or_empty :: "json option \<Rightarrow> json" where
  "or_empty v = (case v of None \<Rightarrow> JDict [] | Some w \<Rightarrow> if truthy w then w else JDict [])"

definition py_optional :: "json \<Rightarrow> string \<Rightarrow> exn + json option" where
  "py_optional v name =
     (if is_dict v then Inr (optional_member v name) else Inl (PyErr PyAttributeError (lit ''get'')))"

definition anomaly :: "string \<times> json option \<times> string \<times> json option \<Rightarrow> ustr list" where
  "anomaly = (\<lambda>(later_name, later, earlier_name, before).
     case (later, before) of
       (Some l, Some b) \<Rightarrow>
         if precedes l b
         then [lit later_name @ lit '' ('' @ the_str l @ lit '') precedes '' @ lit earlier_name @ lit '' ('' @
               the_str b @ lit '')'']
         else []
     | _ \<Rightarrow> [])"

definition timeline_pairs ::
  "json option \<Rightarrow> json option \<Rightarrow> json option \<Rightarrow> json option \<Rightarrow> (string \<times> json option \<times> string \<times> json option) list" where
  "timeline_pairs created acknowledged issued_at frozen_at =
     [(''created_at'', created, ''the authorization's issued_at'', issued_at),
      (''created_at'', created, ''the evidence snapshot's frozen_at'', frozen_at),
      (''execution.acknowledged_at'', acknowledged, ''the authorization's issued_at'', issued_at),
      (''execution.acknowledged_at'', acknowledged, ''the evidence snapshot's frozen_at'', frozen_at),
      (''execution.acknowledged_at'', acknowledged, ''created_at'', created)]"

definition timeline_anomalies :: "json \<Rightarrow> json option \<Rightarrow> json option \<Rightarrow> exn + ustr list" where
  "timeline_anomalies v snapshot authorization =
     bindE (py_optional v ''execution'') (\<lambda>execution.
     bindE (py_optional v ''created_at'') (\<lambda>created.
     bindE (py_optional (or_empty execution) ''acknowledged_at'') (\<lambda>acknowledged.
     bindE (py_optional (or_empty snapshot) ''frozen_at'') (\<lambda>frozen_at.
     bindE (py_optional (or_empty authorization) ''issued_at'') (\<lambda>issued_at.
     Inr (concat (map anomaly (timeline_pairs created acknowledged issued_at frozen_at))))))))"

section \<open>Replay\<close>

definition check_recorded_rulebook :: "loaded_rulebook \<Rightarrow> json \<Rightarrow> exn + unit" where
  "check_recorded_rulebook pinned recorded =
     (let mismatch = fail ReplayBodyMismatch ''The supplied rulebook is not the one the receipt records.''
      in bindE (sub_lit recorded ''digest'') (\<lambda>d.
         if \<not> py_eq (JStr (rb_digest pinned)) d then mismatch
         else
           bindE (sub_lit recorded ''rulebook_id'') (\<lambda>i.
           if \<not> py_eq (rb_id pinned) i then mismatch
           else
             bindE (sub_lit recorded ''version'') (\<lambda>n.
             if \<not> py_eq (rb_version pinned) n then mismatch else Inr ()))))"

text \<open>\<open>authorization.get(field) != bound\<close>, for the three digests.\<close>

definition same_member :: "json \<Rightarrow> string \<Rightarrow> json \<Rightarrow> exn + unit" where
  "same_member authorization field bound =
     bindE (py_get authorization field JNull) (\<lambda>w.
       if py_eq w bound then Inr ()
       else Inl (VErr ReceiptBindingMismatch
         (lit ''The authorization's '' @ lit field @ lit '' is not the receipt's.'') NoDetail))"

definition check_referenced_authorization ::
  "externals \<Rightarrow> json \<Rightarrow> json \<Rightarrow> loaded_rulebook \<Rightarrow> json \<Rightarrow> frozen_snapshot \<Rightarrow> evaluation_result \<Rightarrow>
   key_registry option \<Rightarrow> json option \<Rightarrow> registry \<Rightarrow> exn + unit" where
  "check_referenced_authorization X v authorization pinned candidate frozen recomputed authorization_keys
     verification_time registry =
     (case authorization_keys of
        None \<Rightarrow> fail ReplayBodyMissing ''Verifying the referenced authorization needs its key registry.''
      | Some ring \<Rightarrow>
          bindE (py_get authorization ''authorization_id'' JNull) (\<lambda>i.
          bindE (sub_lit v ''authorization_id'') (\<lambda>named.
            if \<not> py_eq i named
            then fail ReceiptBindingMismatch ''The supplied authorization is not the one the receipt names.''
            else
              bindE (sub_lit v ''candidate_digest'') (\<lambda>action.
              bindE (bindE (sub_lit v ''rulebook'') (\<lambda>r. sub_lit r ''digest'')) (\<lambda>rules.
              bindE (sub_lit v ''evidence_digest'') (\<lambda>evidence.
              bindE (same_member authorization ''action_digest'' action) (\<lambda>_.
              bindE (same_member authorization ''rulebook_digest'' rules) (\<lambda>_.
              bindE (same_member authorization ''evidence_digest'' evidence) (\<lambda>_.
              bindE (sub_lit authorization ''runtime_id'') (\<lambda>runtime_id.
              bindE (verify_authorization X authorization pinned candidate frozen recomputed runtime_id
                       verification_time ring registry None True) (\<lambda>_. Inr ())))))))))))"

definition replay_receipt ::
  "externals \<Rightarrow> json \<Rightarrow> bytes option \<Rightarrow> json \<Rightarrow> json \<Rightarrow> key_registry \<Rightarrow> registry \<Rightarrow> json option \<Rightarrow>
   key_registry option \<Rightarrow> json option \<Rightarrow> exn + replay_verification" where
  "replay_receipt X v rulebook_source candidate snapshot ring registry authorization authorization_keys
     verification_time =
     bindE (verify_receipt X v ring registry) (\<lambda>verified.
     bindE (case rulebook_source of
              None \<Rightarrow> fail ReplayBodyMissing ''Replay needs the rulebook body, which was not supplied.''
            | Some source \<Rightarrow> Inr source) (\<lambda>source.
       if candidate = JNull
       then fail ReplayBodyMissing ''Replay needs the candidate body, which was not supplied.''
       else if snapshot = JNull
       then fail ReplayBodyMissing ''Replay needs the snapshot body, which was not supplied.''
       else
         bindE (load_rulebook_bytes X source registry) (\<lambda>pinned.
         bindE (sub_lit v ''rulebook'') (\<lambda>recorded.
         bindE (check_recorded_rulebook pinned recorded) (\<lambda>_.
         bindE (digest (sha256_hex X) candidate) (\<lambda>action.
         bindE (sub_lit v ''candidate_digest'') (\<lambda>recorded_action.
           if \<not> py_eq (JStr action) recorded_action
           then fail ReplayBodyMismatch ''The supplied candidate is not the one the receipt records.''
           else
             bindE (verify_snapshot_value X snapshot pinned registry) (\<lambda>frozen.
             bindE (sub_lit v ''evidence_digest'') (\<lambda>recorded_evidence.
               if \<not> py_eq (sn_digest frozen) recorded_evidence
               then fail ReplayBodyMismatch ''The supplied snapshot is not the one the receipt records.''
               else
                 bindE (evaluate X pinned candidate snapshot registry) (\<lambda>recomputed.
                 bindE (bindE (sub_lit v ''result'') canon_json) (\<lambda>recorded_result.
                   if ev_canonical recomputed \<noteq> recorded_result
                   then fail ReplayResultMismatch
                          ''The recomputed decision differs from the one the receipt records.''
                   else
                     bindE (if optional_member v ''authorization_id'' = None then Inr False
                            else case authorization of
                              None \<Rightarrow> Inr False
                            | Some a \<Rightarrow>
                                bindE (check_referenced_authorization X v a pinned candidate frozen recomputed
                                         authorization_keys verification_time registry) (\<lambda>_. Inr True)) (\<lambda>authorized.
                     bindE (timeline_anomalies v (Some snapshot) authorization) (\<lambda>anomalies.
                     Inr \<lparr>rp_receipt_id = rv_receipt_id verified, rp_outcome = rv_outcome verified,
                          rp_signature_valid = True, rp_bodies_matched = True, rp_result_recomputed = True,
                          rp_result_matched = True, rp_authorization_verified = authorized,
                          rp_recomputed_canonical = ev_canonical recomputed, rp_replayed = True,
                          rp_timeline_anomalies = anomalies\<rparr>)))))))))))))"

section \<open>Recorded results\<close>

text \<open>The document of a decision is well formed, so its recorded text reloads to it.\<close>

definition causes_wf :: "cause list \<Rightarrow> bool" where
  "causes_wf causes \<longleftrightarrow> (\<forall>(c, i) \<in> set causes. wf_str c \<and> (\<forall>v. i = Some v \<longrightarrow> wf_json v))"

definition keeps :: "'a step \<Rightarrow> bool" where
  "keeps f \<longleftrightarrow> (\<forall>causes x causes'. f causes = Inr (x, causes') \<longrightarrow> causes_wf causes \<longrightarrow> causes_wf causes')"

lemma keepsD: "keeps f \<Longrightarrow> f causes = Inr (x, causes') \<Longrightarrow> causes_wf causes \<Longrightarrow> causes_wf causes'"
  unfolding keeps_def by blast

lemma keeps_bind:
  assumes "keeps f" "\<And>x. keeps (g x)"
  shows "keeps (\<lambda>causes. bindE (f causes) (\<lambda>(x, causes). g x causes))"
  using assms unfolding keeps_def by (fastforce simp: bindE_Inr_iff)

lemma keeps_return: "keeps (\<lambda>causes. Inr (x, causes))"
  by (simp add: keeps_def)

lemma keeps_pure: "keeps (\<lambda>causes. bindE r (\<lambda>x. Inr (f x, causes)))"
  by (auto simp: keeps_def bindE_Inr_iff)

lemma causes_wf_note [simp]:
  "causes_wf causes \<Longrightarrow> causes_wf (note_cause code None causes)"
  "causes_wf causes \<Longrightarrow> wf_json v \<Longrightarrow> causes_wf (note_cause code (Some v) causes)"
  by (auto simp: note_cause_def causes_wf_def)

lemma keeps_resolve: "operand_ok n \<Longrightarrow> keeps (resolve cx n)"
proof (cases n)
  case (Path root segments)
  assume ok: "operand_ok n"
  have "keeps (resolve_evidence cx i others)" if "segment_ok (Member i)" for i others
    using segment_wf [OF that]
    by (auto simp: keeps_def resolve_evidence_def bindE_Inr_iff split: option.split_asm if_split_asm)
  with ok Path show ?thesis
    unfolding keeps_def resolve_def
    by (auto simp del: segment_ok.simps split: if_split_asm list.split_asm segment.split_asm)
qed (auto simp: keeps_def resolve_def)

lemma keeps_compare: "operand_ok l \<Longrightarrow> operand_ok r \<Longrightarrow> keeps (evaluate_compare cx operator l r)"
  unfolding evaluate_compare_def
  by (intro keeps_bind keeps_resolve)
    (auto simp: keeps_def split: resolved.split_asm option.split_asm if_split_asm)

lemma keeps_membership: "operand_ok n \<Longrightarrow> keeps (evaluate_membership cx operator n members)"
  unfolding evaluate_membership_def Let_def
  by (intro keeps_bind keeps_resolve) (auto simp: keeps_def split: resolved.split_asm)

lemma keeps_matches: "operand_ok n \<Longrightarrow> keeps (evaluate_matches cx n pat)"
  unfolding evaluate_matches_def
  by (intro keeps_bind keeps_resolve)
    (auto simp: keeps_def split: resolved.split_asm option.split_asm json.split_asm)

lemma keeps_each: "(\<And>x. x \<in> set xs \<Longrightarrow> keeps (f x)) \<Longrightarrow> keeps (each_state f xs)"
proof (induction xs)
  case (Cons x xs)
  have "keeps (\<lambda>causes. bindE (f x causes) (\<lambda>(state, causes).
     bindE (each_state f xs causes) (\<lambda>(states, causes). Inr (state # states, causes))))"
    by (intro keeps_bind keeps_return Cons) auto
  then show ?case by (simp add: keeps_def)
qed (simp add: keeps_def)

lemma keeps_evaluate: "predicate_ok n \<Longrightarrow> keeps (evaluate_node cx n)"
proof (induction n)
  case (And_node ns)
  have "keeps (\<lambda>causes. bindE (each_state (evaluate_node cx) ns causes) (\<lambda>(states, causes). Inr (combine True states, causes)))"
    by (intro keeps_bind keeps_return keeps_each) (use And_node in auto)
  then show ?case by (simp add: keeps_def)
next
  case (Or_node ns)
  have "keeps (\<lambda>causes. bindE (each_state (evaluate_node cx) ns causes) (\<lambda>(states, causes). Inr (combine False states, causes)))"
    by (intro keeps_bind keeps_return keeps_each) (use Or_node in auto)
  then show ?case by (simp add: keeps_def)
next
  case (Not_node n)
  have "keeps (\<lambda>causes. bindE (evaluate_node cx n causes) (\<lambda>(inner, causes).
       Inr (if inner = UnsettledT then UnsettledT else if inner = TrueT then FalseT else TrueT, causes)))"
    by (intro keeps_bind keeps_return) (use Not_node in auto)
  then show ?case by (simp add: keeps_def)
next
  case (Compare operator l r)
  then have "keeps (evaluate_compare cx operator l r)" by (auto intro: keeps_compare)
  then show ?case by (simp add: keeps_def)
next
  case (Membership operator n members)
  then have "keeps (evaluate_membership cx operator n members)" by (auto intro: keeps_membership)
  then show ?case by (simp add: keeps_def)
next
  case (Matches n pat)
  then have "keeps (evaluate_matches cx n pat)" by (auto intro: keeps_matches path_operand)
  then show ?case by (simp add: keeps_def)
qed (auto simp: keeps_def bindE_Inr_iff unknown_node_def)

lemma requirements_wf: "\<forall>i \<in> set needed. wf_json i \<Longrightarrow> keeps (requirements_state cx needed)"
proof (induction needed)
  case (Cons i needed)
  then have "keeps (requirements_state cx needed)" "wf_json i" by auto
  then show ?case unfolding keeps_def by (auto simp: bindE_Inr_iff split: if_split_asm)
qed (simp add: keeps_def)

lemma py_iter_wf: "py_iter v = Inr vs \<Longrightarrow> wf_json v \<Longrightarrow> \<forall>w \<in> set vs. wf_json w"
  by (cases v) (force simp: wf_str_def list_all_iff)+

lemma rule_state_wf: "wf_json rule \<Longrightarrow> rule_state cx rule [] = Inr (state, causes) \<Longrightarrow> causes_wf causes"
proof -
  assume wf: "wf_json rule" and r: "rule_state cx rule [] = Inr (state, causes)"
  then obtain needed ok c1 where n: "required_evidence rule = Inr needed"
    "requirements_state cx needed [] = Inr (ok, c1)" and
    k: "(if \<not> ok then Inr (UnsettledT, c1)
       else
         bindE (sub_lit rule ''when'') (\<lambda>source.
         bindE (parse_expression source) (\<lambda>parsed.
         bindE (ast_json parsed) (\<lambda>_.
         bindE (sub_lit rule ''id'') (\<lambda>_.
         evaluate_node cx (expr_tree parsed) c1))))) = Inr (state, causes)"
    by (auto simp: rule_state_def bindE_Inr_iff)
  have "\<forall>i \<in> set needed. wf_json i"
    using n(1) wf py_iter_wf wf_dict_get [OF wf] by (auto simp: required_evidence_def split: option.split_asm)
  then have c1: "causes_wf c1" using keepsD [OF requirements_wf n(2)] by (simp add: causes_wf_def)
  show ?thesis
  proof (cases ok)
    case True
    with k obtain src e where e: "get_lit rule ''when'' = Some src" "parse_expression src = Inr e"
      "evaluate_node cx (expr_tree e) c1 = Inr (state, causes)"
      by (auto simp: bindE_Inr_iff subscript_Inr_iff)
    have "predicate_ok (expr_tree e)" using parse_expression_Inr(1) [OF e(2)] wf_dict_get [OF wf e(1)] by simp
    with keepsD [OF keeps_evaluate e(3) c1] show ?thesis by simp
  qed (use k c1 in auto)
qed

definition recorded_document :: "evaluation_result \<Rightarrow> json \<Rightarrow> bool" where
  "recorded_document r doc \<longleftrightarrow>
     wf_json doc \<and> canon_json doc = Inr (ev_canonical r) \<and> get_lit doc ''outcome'' = Some (JStr (ev_outcome r))"

lemma make_result_document:
  assumes "make_result X registry (lit o') rs m (Some ts) = Inr r"
    and "\<forall>q \<in> set rs. wf_json q" "\<And>i. m = Some i \<Longrightarrow> wf_json i" "\<forall>t \<in> set ts. wf_str t"
  shows "\<exists>doc. recorded_document r doc"
proof -
  have "canon_json (result_document (lit o') rs m (Some ts)) = Inr (ev_canonical r)" "ev_outcome r = lit o'"
    using assms(1) by (auto simp: make_result_def Let_def bindE_Inr_iff)
  moreover have "wf_json (result_document (lit o') rs m (Some ts))"
    using assms(2-4) by (auto simp: result_document_def keys_def split: option.split)
  moreover have "get_lit (result_document (lit o') rs m (Some ts)) ''outcome'' = Some (JStr (lit o'))"
    by (simp add: result_document_def)
  ultimately show ?thesis unfolding recorded_document_def by auto
qed

lemma trace_entry_wf: "trace_entry n i state = Inr t \<Longrightarrow> wf_json i \<Longrightarrow> wf_str t"
proof -
  have "wf_str (dec k)" for k
    using dec_digits [of k] by (auto simp: wf_str_def list_all_iff is_digit_def)
  moreover have "wf_str (truth_text state)" by (cases state) auto
  moreover assume "trace_entry n i state = Inr t" "wf_json i"
  ultimately show "wf_str t" by (auto simp: trace_entry_def wf_str_append split: json.split_asm)
qed

lemma cause_reason_wf: "wf_json i \<Longrightarrow> causes_wf causes \<Longrightarrow> c \<in> set causes \<Longrightarrow> wf_json (cause_reason i c)"
proof -
  have f: "wf_str (fixed_message k)" for k by (simp add: fixed_message_def)
  assume "wf_json i" "causes_wf causes" "c \<in> set causes"
  then show ?thesis
    by (cases c) (auto simp: cause_reason_def reason_def keys_def causes_wf_def f split: option.split)
qed

lemma code_lookup_lit:
  "code_lookup rule_codes v = Inr (o', c) \<Longrightarrow> \<exists>s t. o' = lit s \<and> c = lit t"
  "code_lookup default_codes v = Inr (o', c) \<Longrightarrow> \<exists>s t. o' = lit s \<and> c = lit t"
  by (auto simp: code_lookup_def rule_codes_def default_codes_def split: json.split_asm if_split_asm option.split_asm)

lemma walk_document:
  "walk_rules X registry cx n rules ts = Inr r \<Longrightarrow> \<forall>rule \<in> set rules. wf_json rule \<Longrightarrow> \<forall>t \<in> set ts. wf_str t \<Longrightarrow>
   \<exists>doc. recorded_document r doc"
proof (induction rules arbitrary: n ts)
  case Nil
  then obtain d outcome code where d: "code_lookup default_codes d = Inr (outcome, code)"
    "make_result X registry outcome [reason code (fixed_message code) []] None (Some ts) = Inr r"
    by (auto simp: bindE_Inr_iff)
  from code_lookup_lit(2) [OF d(1)] obtain s t where l: "outcome = lit s" "code = lit t" by blast
  show ?case
    by (rule make_result_document [OF d(2) [unfolded l(1)]])
      (use Nil in \<open>auto simp: reason_def keys_def l fixed_message_def\<close>)
next
  case (Cons rule rules)
  from Cons.prems(1) obtain state causes i t where st: "rule_state cx rule [] = Inr (state, causes)"
    and i: "sub_lit rule ''id'' = Inr i" and t: "trace_entry n i state = Inr t"
    by (auto simp: bindE_Inr_iff)
  have wr: "wf_json rule" and wi: "wf_json i"
    using Cons.prems(2) i wf_dict_get [of rule] by (auto simp: subscript_Inr_iff)
  have wt: "\<forall>t \<in> set (ts @ [t]). wf_str t" using Cons.prems(3) trace_entry_wf [OF t wi] by auto
  show ?case
  proof (cases state)
    case TrueT
    with Cons.prems(1) st i t obtain declared outcome code message where
      d: "code_lookup rule_codes declared = Inr (outcome, code)" and m: "sub_lit rule ''reason'' = Inr message" and
      r: "make_result X registry outcome
           [JDict [(lit ''code'', JStr code), (lit ''message'', message), (lit ''rule_id'', i)]]
           (Some i) (Some (ts @ [t])) = Inr r"
      by (auto simp: bindE_Inr_iff)
    from code_lookup_lit(1) [OF d] obtain s u where l: "outcome = lit s" "code = lit u" by blast
    have "wf_json message" using m wr wf_dict_get by (auto simp: subscript_Inr_iff)
    then show ?thesis
      by (intro make_result_document [OF r [unfolded l(1)]]) (use wi wt in \<open>auto simp: keys_def l\<close>)
  next
    case UnsettledT
    with Cons.prems(1) st i t have r: "make_result X registry (lit ''HOLD'') (map (cause_reason i) causes) None
       (Some (ts @ [t])) = Inr r" by auto
    show ?thesis
      by (rule make_result_document [OF r])
        (use wt cause_reason_wf [OF wi rule_state_wf [OF wr st]] in auto)
  next
    case FalseT
    with Cons.prems(1) st i t have "walk_rules X registry cx (Suc n) rules (ts @ [t]) = Inr r" by auto
    from Cons.IH [OF this _ wt] Cons.prems(2) show ?thesis by simp
  qed
qed

lemma decision_document:
  assumes "evaluate X pinned candidate snapshot registry = Inr r" "ev_outcome r \<in> set decision_outcomes"
  shows "\<exists>doc. recorded_document r doc"
  using assms(1)
proof (cases rule: evaluate_cases)
  case (error q)
  with assms(2) show ?thesis by (simp add: decision_outcomes_def)
next
  case (walked w cx rules)
  have "wf_json w" using walked(1) reload_loadable by (auto simp: rulebook_value_def loadable_def)
  with walk_document [OF walked(5)] wf_items_of [OF walked(3)] show ?thesis by simp
qed

lemma decision_reloads:
  assumes "evaluate X pinned candidate snapshot registry = Inr r" "ev_outcome r \<in> set decision_outcomes"
    "result_value r = Inr w"
  shows "wf_json w \<and> canon_json w = Inr (ev_canonical r) \<and> get_lit w ''outcome'' = Some (JStr (ev_outcome r))"
proof -
  from decision_document [OF assms(1,2)] obtain doc where d: "wf_json doc" "canon_json doc = Inr (ev_canonical r)"
    "get_lit doc ''outcome'' = Some (JStr (ev_outcome r))" by (auto simp: recorded_document_def)
  have "w = sort_json doc"
    using reload_canonical [OF d(1,2)] assms(3) by (simp add: result_value_def split: if_split_asm)
  moreover have "canon_json (sort_json doc) = Inr (ev_canonical r)" by (rule canon_json_sort [OF d(2)])
  ultimately show ?thesis using d by (simp add: dict_get_sort del: canon_json_sort_iff)
qed

section \<open>Verification and replay\<close>

definition shape_ok :: "ustr \<Rightarrow> json \<Rightarrow> bool" where
  "shape_ok outcome v \<longleftrightarrow>
     outcome \<in> set decision_outcomes \<and>
     (outcome \<in> {lit ''BLOCK'', lit ''HOLD''} \<longrightarrow>
        optional_member v ''authorization_id'' = None \<and> optional_member v ''execution'' = None)"

lemma check_shape_Inr:
  "check_shape_for_outcome outcome a e = Inr z \<longleftrightarrow> (outcome \<in> {lit ''BLOCK'', lit ''HOLD''} \<longrightarrow> \<not> a \<and> \<not> e)"
  by (auto simp: check_shape_for_outcome_def)

lemma is_one_of_iff: "is_one_of v texts \<longleftrightarrow> (\<exists>s \<in> set texts. v = JStr s)"
  by (cases v) (auto simp: is_one_of_def)

lemma verify_receipt_Inr:
  assumes "verify_receipt X v ring registry = Inr r"
  obtains outcome i where "is_dict v" "validate X v receipt_schema_id registry = Inr ()" "signed_under X ring True v"
    "Option.bind (get_lit v ''result'') (\<lambda>w. get_lit w ''outcome'') = Some (JStr outcome)" "shape_ok outcome v"
    "get_lit v ''receipt_id'' = Some i" "rv_receipt_id r = i" "rv_outcome r = JStr outcome"
    "rv_signature_valid r" "\<not> rv_replayed r"
proof -
  let ?subject = "''The signature does not verify over the receipt's payload.''"
  from assms have d: "is_dict v" "validate X v receipt_schema_id registry = Inr ()"
    by (auto simp: verify_receipt_def bindE_Inr_iff split: if_split_asm)
  from assms d obtain block entry raw outcome i kid kv mode where
    b: "sub_lit v ''signature'' = Inr block" "find_key ring block = Inr entry"
      "check_key_status (Some (rk_status entry)) True = Inr ()" "decode_block_signature block = Inr raw"
      "verify_signature X v entry raw ?subject = Inr ()" and
    o: "bindE (sub_lit v ''result'') (\<lambda>r. sub_lit r ''outcome'') = Inr outcome" "is_one_of outcome decision_outcomes"
      "check_shape_for_outcome (the_str outcome) (optional_member v ''authorization_id'' \<noteq> None)
         (optional_member v ''execution'' \<noteq> None) = Inr ()" "sub_lit v ''receipt_id'' = Inr i"
      "r = \<lparr>rv_receipt_id = i, rv_outcome = outcome, rv_key_id = kid, rv_key_version = kv,
                     rv_replay_mode = mode, rv_signature_valid = True, rv_replayed = False\<rparr>"
    by (auto simp: verify_receipt_def bindE_Inr_iff guard_Inr_iff simp del: not_None_eq)
  from o(2) obtain s where s: "outcome = JStr s" "s \<in> set decision_outcomes" by (auto simp: is_one_of_iff)
  have "signed_under X ring True v"
    using b iffD1 [OF signed_under_intro [where subject = ?subject]] by (auto simp: subscript_Inr_iff)
  moreover have "Option.bind (get_lit v ''result'') (\<lambda>w. get_lit w ''outcome'') = Some (JStr s)"
    using o(1) s(1) by (auto simp: bindE_Inr_iff subscript_Inr_iff)
  moreover have "shape_ok s v" using o(3) s by (auto simp: shape_ok_def check_shape_Inr)
  ultimately show thesis using that d o(4,5) s(1) by (simp add: subscript_Inr_iff)
qed

lemma verify_receipt_intro:
  assumes "is_dict v" "validate X v receipt_schema_id registry = Inr ()" "signed_under X ring True v"
    "Option.bind (get_lit v ''result'') (\<lambda>w. get_lit w ''outcome'') = Some (JStr outcome)" "shape_ok outcome v"
    "get_lit v ''receipt_id'' = Some i" "Option.bind (get_lit v ''replay'') (\<lambda>w. get_lit w ''mode'') = Some replay_mode"
  shows "\<exists>r. verify_receipt X v ring registry = Inr r \<and> rv_receipt_id r = i \<and> rv_outcome r = JStr outcome"
proof -
  let ?subject = "''The signature does not verify over the receipt's payload.''"
  from iffD2 [OF signed_under_intro [where subject = ?subject] assms(3)] obtain block entry raw where
    b: "get_lit v ''signature'' = Some block" "find_key ring block = Inr entry"
      "check_key_status (Some (rk_status entry)) True = Inr ()" "decode_block_signature block = Inr raw"
      "verify_signature X v entry raw ?subject = Inr ()" by blast
  then obtain kid kv where k: "get_lit block ''key_id'' = Some kid" "get_lit block ''key_version'' = Some kv"
    by (auto simp: find_key_Inr)
  have m: "bindE (sub_lit v ''replay'') (\<lambda>r. sub_lit r ''mode'') = Inr replay_mode"
    using assms(7) by (auto simp: bind_eq_Some_conv bindE_Inr_iff subscript_Inr_iff)
  have o: "bindE (sub_lit v ''result'') (\<lambda>r. sub_lit r ''outcome'') = Inr (JStr outcome)"
    using assms(4) by (auto simp: bind_eq_Some_conv bindE_Inr_iff subscript_Inr_iff)
  have s: "check_shape_for_outcome outcome (optional_member v ''authorization_id'' \<noteq> None)
       (optional_member v ''execution'' \<noteq> None) = Inr ()" and io: "is_one_of (JStr outcome) decision_outcomes"
    using assms(5) by (auto simp: shape_ok_def check_shape_Inr is_one_of_iff)
  have subs: "sub_lit v ''signature'' = Inr block" "sub_lit v ''receipt_id'' = Inr i"
    "sub_lit block ''key_id'' = Inr kid" "sub_lit block ''key_version'' = Inr kv"
    using b(1) k assms(6) by (simp_all add: subscript_Inr_iff)
  have pm: "py_eq replay_mode replay_mode" by (simp add: replay_mode_def)
  show ?thesis
    unfolding verify_receipt_def
    by (simp add: assms(1,2) m o s io subs b pm del: not_None_eq)
qed

text \<open>What a replay that succeeds has recomputed.\<close>

lemma check_referenced_Inr:
  assumes "check_referenced_authorization X v a pinned candidate frozen recomputed trusted time registry = Inr ()"
  shows "\<exists>ring i named runtime_id a'. trusted = Some ring \<and>
     (case get_lit a ''authorization_id'' of None \<Rightarrow> JNull | Some i \<Rightarrow> i) = i \<and>
     get_lit v ''authorization_id'' = Some named \<and> py_eq i named \<and>
     verify_authorization X a pinned candidate frozen recomputed runtime_id time ring registry None True = Inr a'"
proof -
  from assms obtain ring where r: "trusted = Some ring"
    by (cases trusted) (simp_all add: check_referenced_authorization_def)
  with assms show ?thesis
    unfolding check_referenced_authorization_def
    by (auto simp: bindE_Inr_iff py_get_def subscript_Inr_iff split: if_split_asm)
qed

lemma replay_receipt_Inr:
  assumes "replay_receipt X v source candidate snapshot ring registry authorization authorization_keys time = Inr r"
  obtains src verified pinned recorded action frozen recomputed res where
    "verify_receipt X v ring registry = Inr verified" "source = Some src"
    "load_rulebook_bytes X src registry = Inr pinned" "get_lit v ''rulebook'' = Some recorded"
    "check_recorded_rulebook pinned recorded = Inr ()" "digest (sha256_hex X) candidate = Inr action"
    "get_lit v ''candidate_digest'' = Some (JStr action)" "verify_snapshot_value X snapshot pinned registry = Inr frozen"
    "\<exists>e. get_lit v ''evidence_digest'' = Some e \<and> py_eq (sn_digest frozen) e"
    "evaluate X pinned candidate snapshot registry = Inr recomputed" "get_lit v ''result'' = Some res"
    "canon_json res = Inr (ev_canonical recomputed)"
    "if optional_member v ''authorization_id'' = None \<or> authorization = None then \<not> rp_authorization_verified r
     else rp_authorization_verified r \<and> (\<forall>a. authorization = Some a \<longrightarrow>
       check_referenced_authorization X v a pinned candidate frozen recomputed authorization_keys time registry = Inr ())"
    "timeline_anomalies v (Some snapshot) authorization = Inr (rp_timeline_anomalies r)"
    "rp_outcome r = rv_outcome verified" "rp_recomputed_canonical r = ev_canonical recomputed"
proof -
  have e: "py_eq (JStr a) w \<longleftrightarrow> w = JStr a" for a w by (cases w) auto
  from assms obtain verified src where v: "verify_receipt X v ring registry = Inr verified" "source = Some src"
    by (auto simp: replay_receipt_def bindE_Inr_iff split: option.split_asm)
  from assms obtain pinned recorded action frozen recomputed res where
    p: "load_rulebook_bytes X src registry = Inr pinned" "sub_lit v ''rulebook'' = Inr recorded"
    "check_recorded_rulebook pinned recorded = Inr ()" "digest (sha256_hex X) candidate = Inr action"
    "sub_lit v ''candidate_digest'' = Inr (JStr action)" "verify_snapshot_value X snapshot pinned registry = Inr frozen"
    "\<exists>e. sub_lit v ''evidence_digest'' = Inr e \<and> py_eq (sn_digest frozen) e"
    "evaluate X pinned candidate snapshot registry = Inr recomputed" "sub_lit v ''result'' = Inr res"
    "canon_json res = Inr (ev_canonical recomputed)" and
    k: "bindE (if optional_member v ''authorization_id'' = None then Inr False
                            else case authorization of
                              None \<Rightarrow> Inr False
                            | Some a \<Rightarrow>
                                bindE (check_referenced_authorization X v a pinned candidate frozen recomputed
                                         authorization_keys time registry) (\<lambda>_. Inr True)) (\<lambda>authorized.
                     bindE (timeline_anomalies v (Some snapshot) authorization) (\<lambda>anomalies.
                     Inr \<lparr>rp_receipt_id = rv_receipt_id verified, rp_outcome = rv_outcome verified,
                          rp_signature_valid = True, rp_bodies_matched = True, rp_result_recomputed = True,
                          rp_result_matched = True, rp_authorization_verified = authorized,
                          rp_recomputed_canonical = ev_canonical recomputed, rp_replayed = True,
                          rp_timeline_anomalies = anomalies\<rparr>)) = Inr r"
    unfolding replay_receipt_def v bindE_simps option.case guard_Inr_iff
    by (auto simp: bindE_Inr_iff guard_Inr_iff e simp del: py_eq.simps)
  from k obtain authorized anomalies where a: "(if optional_member v ''authorization_id'' = None then Inr False
                            else case authorization of
                              None \<Rightarrow> Inr False
                            | Some a \<Rightarrow>
                                bindE (check_referenced_authorization X v a pinned candidate frozen recomputed
                                         authorization_keys time registry) (\<lambda>_. Inr True)) = (Inr authorized :: exn + bool)"
    "timeline_anomalies v (Some snapshot) authorization = Inr anomalies"
    "rp_outcome r = rv_outcome verified" "rp_recomputed_canonical r = ev_canonical recomputed"
    "rp_authorization_verified r = authorized" "rp_timeline_anomalies r = anomalies"
    by (auto simp: bindE_Inr_iff)
  from a(1) have "if optional_member v ''authorization_id'' = None \<or> authorization = None then \<not> authorized
     else authorized \<and> (\<forall>a. authorization = Some a \<longrightarrow>
       check_referenced_authorization X v a pinned candidate frozen recomputed authorization_keys time registry = Inr ())"
    by (auto simp: bindE_Inr_iff split: if_split_asm option.split_asm)
  with that v p a show thesis by (simp add: subscript_Inr_iff)
qed

lemma issue_receipt_Inr:
  assumes "issue_receipt X pinned candidate snapshot result authorization execution i created_at key_id key_version
     private_key registry = Inr rc"
  obtains k w rid version action recorded raw payload where
    "is_str i" "is_str created_at" "is_str key_id" "is_int key_version" "private_key = Some k"
    "ev_outcome result \<in> set decision_outcomes"
    "ev_outcome result \<in> {lit ''BLOCK'', lit ''HOLD''} \<longrightarrow> authorization = None \<and> execution = None"
    "rulebook_value pinned = Inr w" "get_lit w ''rulebook_id'' = Some rid" "get_lit w ''version'' = Some version"
    "digest (sha256_hex X) candidate = Inr action" "result_value result = Inr recorded"
    "payload = receipt_payload i created_at rid version (rb_digest pinned) action (sn_digest snapshot) recorded
       (map_option au_id authorization) execution"
    "sign_payload X k payload = Inr raw"
    "validate X (JDict (items payload @ [(lit ''signature'', signature_block key_id key_version raw)])) receipt_schema_id registry = Inr ()"
    "canon_json (JDict (items payload @ [(lit ''signature'', signature_block key_id key_version raw)])) = Inr (rc_canonical rc)"
    "rc_outcome rc = ev_outcome result" "rc_id rc = i"
proof -
  from assms obtain k where c: "check_receipt_arguments i created_at key_id key_version private_key = Inr k"
    and al: "ev_outcome result \<in> set decision_outcomes"
    "check_shape_for_outcome (ev_outcome result) (authorization \<noteq> None) (execution \<noteq> None) = Inr ()"
    by (auto simp: issue_receipt_def bindE_Inr_iff guard_Inr_iff simp del: not_None_eq)
  from c have k: "is_str i" "is_str created_at" "is_str key_id" "is_int key_version" "private_key = Some k"
    by (auto simp: check_receipt_arguments_def require_string_def bindE_Inr_iff split: if_split_asm option.split_asm)
  let ?pl = "\<lambda>rid version action recorded. receipt_payload i created_at rid version (rb_digest pinned) action
     (sn_digest snapshot) recorded (map_option au_id authorization) execution"
  have e: "dset (lit ''signature'') b (items (?pl rid version action recorded))
      = items (?pl rid version action recorded) @ [(lit ''signature'', b)]" for b rid version action recorded
    by (simp add: receipt_payload_def split: option.split)
  from assms c al obtain w rid version action recorded where t: "rulebook_value pinned = Inr w"
    "sub_lit w ''rulebook_id'' = Inr rid" "sub_lit w ''version'' = Inr version"
    "digest (sha256_hex X) candidate = Inr action" "result_value result = Inr recorded" and
    r: "(let payload = ?pl rid version action recorded
             in bindE (sign_payload X k payload) (\<lambda>signature.
                let completed = JDict (dset (lit ''signature'') (signature_block key_id key_version signature) (items payload))
                in bindE (validate X completed receipt_schema_id registry) (\<lambda>_.
                   bindE (canon_json completed) (\<lambda>c.
               Inr \<lparr>rc_canonical = c, rc_id = i, rc_outcome = ev_outcome result\<rparr>)))) = Inr rc"
    by (auto simp: issue_receipt_def bindE_Inr_iff guard_Inr_iff simp del: not_None_eq)
  from r obtain raw where "sign_payload X k (?pl rid version action recorded) = Inr raw"
    "validate X (JDict (items (?pl rid version action recorded) @ [(lit ''signature'', signature_block key_id key_version raw)])) receipt_schema_id registry = Inr ()"
    "canon_json (JDict (items (?pl rid version action recorded) @ [(lit ''signature'', signature_block key_id key_version raw)])) = Inr (rc_canonical rc)"
    "rc_outcome rc = ev_outcome result" "rc_id rc = i"
    unfolding Let_def e by (auto simp: bindE_Inr_iff)
  moreover have "ev_outcome result \<in> {lit ''BLOCK'', lit ''HOLD''} \<longrightarrow> authorization = None \<and> execution = None"
    using al(2) by (auto simp: check_shape_Inr)
  ultimately show thesis using that [OF k al(1) _ t(1) _ _ t(4,5) refl] t(2,3) by (simp add: subscript_Inr_iff)
qed

text \<open>What a snapshot that was verified carries.\<close>

lemma verified_snapshot_digest:
  "verify_snapshot_value X v pinned registry = Inr s \<Longrightarrow> is_dict v \<and> (\<exists>d. sn_digest s = JStr d \<and>
     digest (sha256_hex X) (json_without ''snapshot_digest'' v) = Inr d)"
  by (auto simp: verify_snapshot_value_def bindE_Inr_iff split: if_split_asm)

definition option_wf :: "json option \<Rightarrow> bool" where
  "option_wf v \<longleftrightarrow> (\<forall>w. v = Some w \<longrightarrow> wf_json w \<and> jdepth w \<le> 62 \<and> w \<noteq> JNull)"

lemma optional_member_sort: "wf_json v \<Longrightarrow> optional_member (sort_json v) n = map_option sort_json (optional_member v n)"
  by (auto simp: optional_member_def dict_get_sort split: option.split json.split)

lemma or_empty_dict: "(\<And>w. v = Some w \<Longrightarrow> is_dict w) \<Longrightarrow> is_dict (or_empty v)"
  by (auto simp: or_empty_def split: option.split)

lemma timeline_total:
  assumes "is_dict v" "\<And>e. optional_member v ''execution'' = Some e \<Longrightarrow> is_dict e" "is_dict snapshot"
  shows "\<exists>as. timeline_anomalies v (Some snapshot) None = Inr as"
  using assms or_empty_dict [of "optional_member v ''execution''"] or_empty_dict [of "Some snapshot"] or_empty_dict [of None]
  by (simp add: timeline_anomalies_def py_optional_def)

lemma dict_get_snoc:
  "k \<noteq> n \<Longrightarrow> dict_get (JDict (d @ [(k, b)])) n = dict_get (JDict d) n"
  by (simp add: map_add_def split: option.split)

lemma dict_get_last: "wf_json (JDict (d @ [(k, b)])) \<Longrightarrow> dict_get (JDict (d @ [(k, b)])) k = Some b"
  by (auto simp: keys_def map_add_def image_iff split: option.split dest!: map_of_SomeD)

lemma json_without_snoc: "lit k \<notin> set (keys d) \<Longrightarrow> json_without k (JDict (d @ [(lit k, b)])) = JDict d"
  by (simp add: json_without_def)

lemma issued_replays:
  assumes issue: "issue_receipt X pinned candidate snapshot result authorization execution i created_at key_id key_version
      (Some k) registry = Inr rc"
    and load: "load_rulebook_bytes X src registry = Inr pinned" "yaml_strings_ok X" "hash_text_ok X"
      "is_str (rb_id pinned)" "is_str (rb_version pinned)"
    and snap: "verify_snapshot_value X sv pinned registry = Inr snapshot"
    and result: "evaluate X pinned candidate sv registry = Inr result"
      "\<And>w. result_value result = Inr w \<Longrightarrow> jdepth w \<le> 62"
    and wf: "wf_json i" "wf_json created_at" "wf_json key_id" "wf_json candidate" "option_wf execution"
      "option_wf (map_option au_id authorization)" "\<And>e. execution = Some e \<Longrightarrow> is_dict e"
    and key: "key_lookup ring (key_id, key_version) = Inr (Some entry)" "signs_for X k (rk_public entry)"
      "check_key_status (Some (rk_status entry)) True = Inr ()"
  shows "\<exists>v r. receipt_value rc = Inr v \<and>
     replay_receipt X v (Some src) candidate sv ring registry None None None = Inr r \<and>
     rp_outcome r = JStr (ev_outcome result) \<and> rp_recomputed_canonical r = ev_canonical result"
proof -
  from issue obtain w rid version action recorded raw where
    arg: "is_str i" "is_str created_at" "is_str key_id" "is_int key_version" and
    al: "ev_outcome result \<in> set decision_outcomes" and
    sh: "ev_outcome result \<in> {lit ''BLOCK'', lit ''HOLD''} \<longrightarrow> authorization = None \<and> execution = None" and
    rb: "rulebook_value pinned = Inr w" "get_lit w ''rulebook_id'' = Some rid" "get_lit w ''version'' = Some version" and
    ac: "digest (sha256_hex X) candidate = Inr action" and rc: "result_value result = Inr recorded" and
    sg: "sign_payload X k (receipt_payload i created_at rid version (rb_digest pinned) action (sn_digest snapshot) recorded
       (map_option au_id authorization) execution) = Inr raw" and
    va: "validate X (JDict (items (receipt_payload i created_at rid version (rb_digest pinned) action (sn_digest snapshot) recorded
       (map_option au_id authorization) execution) @ [(lit ''signature'', signature_block key_id key_version raw)])) receipt_schema_id registry = Inr ()" and
    cn: "canon_json (JDict (items (receipt_payload i created_at rid version (rb_digest pinned) action (sn_digest snapshot) recorded
       (map_option au_id authorization) execution) @ [(lit ''signature'', signature_block key_id key_version raw)])) = Inr (rc_canonical rc)"
    by (rule issue_receipt_Inr) simp
  let ?p = "receipt_payload i created_at rid version (rb_digest pinned) action (sn_digest snapshot) recorded
       (map_option au_id authorization) execution"
  let ?b = "signature_block key_id key_version raw"
  let ?c = "JDict (items ?p @ [(lit ''signature'', ?b)])"
  from load obtain w0 where w0: "loadable w0" "rulebook_value pinned = Inr (sort_json w0)"
    "get_lit w0 ''rulebook_id'' = Some (rb_id pinned)" "get_lit w0 ''version'' = Some (rb_version pinned)"
    "digest (sha256_hex X) w0 = Inr (rb_digest pinned)"
    by (blast intro: load_rulebook_pins)
  have scalar: "is_str v \<Longrightarrow> sort_json v = v" for v by (cases v) auto
  have ww: "wf_json w0" using w0(1) by (simp add: loadable_def)
  have ids: "rid = rb_id pinned" "version = rb_version pinned"
    using rb w0 load(4,5) ww by (auto simp: dict_get_sort scalar)
  from verified_snapshot_digest [OF snap] obtain evd where ev: "is_dict sv" "sn_digest snapshot = JStr evd" "wf_str evd"
    using digest_wf [OF load(3)] by blast
  note rec = decision_reloads [OF result(1) al rc]
  have idwf: "wf_json (rb_id pinned)" "wf_json (rb_version pinned)" using ww w0(3,4) wf_dict_get by blast+
  have dwf: "wf_str (rb_digest pinned)" "wf_str action" by (rule digest_wf [OF load(3) w0(5)], rule digest_wf [OF load(3) ac])
  from sg obtain m where m: "signing_bytes ?p = Inr m" "ed25519_sign X k m = Some raw"
    by (auto simp: sign_payload_def bindE_Inr_iff split: option.split_asm)
  have key2: "\<forall>b \<in> set raw. b < 256" "ed25519_loads X (rk_public entry)" "ed25519_verify X (rk_public entry) raw m"
    using key(2) m(2) by (auto simp: signs_for_def)
  have int: "sort_json key_version = key_version" "wf_json key_version" using arg(4) by (cases key_version; simp)+
  have wfc: "wf_json ?c"
    using wf dwf idwf ev(2,3) rec int(2) b64_wf [OF key2(1)] ids
    by (auto simp: receipt_payload_def signature_block_def keys_def replay_mode_def option_wf_def split: option.split)
  have dp: "jdepth (rb_id pinned) = 0" "jdepth (rb_version pinned) = 0" "jdepth i = 0" "jdepth created_at = 0"
    "jdepth key_id = 0" "jdepth key_version = 0" "jdepth (sn_digest snapshot) = 0"
    using flat flat_int arg load(4,5) ev(2) by auto
  have dep: "jdepth ?c \<le> max_depth"
    using wf(5,6) result(2) [OF rc] dp ids
    by (auto simp: receipt_payload_def signature_block_def max_depth_def replay_mode_def option_wf_def split: option.split)
  have rl: "receipt_value rc = Inr (sort_json ?c)"
    using reload_canonical [OF wfc cn] dep by (simp add: receipt_value_def)
  define v where "v = sort_json ?c"
  have f: "get_lit v n = map_option sort_json (get_lit ?c n)" for n
    unfolding v_def by (rule dict_get_sort [OF wfc])
  have snoc: "n \<noteq> ''signature'' \<Longrightarrow> get_lit ?c n = get_lit ?p n" for n
    using dict_get_snoc [of "lit ''signature''" "lit n" "items ?p" ?b] by (simp add: receipt_payload_def del: dict_get.simps)
  let ?r = "JDict [(lit ''rulebook_id'', rid), (lit ''version'', version), (lit ''digest'', JStr (rb_digest pinned))]"
  have p: "get_lit ?p ''receipt_id'' = Some i" "get_lit ?p ''rulebook'' = Some ?r"
    "get_lit ?p ''candidate_digest'' = Some (JStr action)" "get_lit ?p ''evidence_digest'' = Some (sn_digest snapshot)"
    "get_lit ?p ''result'' = Some recorded" "get_lit ?p ''replay'' = Some (JDict [(lit ''mode'', replay_mode)])"
    "get_lit ?p ''execution'' = execution" "get_lit ?p ''authorization_id'' = map_option au_id authorization"
    by (simp_all add: receipt_payload_def split: option.split)
  have sig: "get_lit ?c ''signature'' = Some ?b" by (rule dict_get_last [OF wfc])
  have gc: "get_lit ?c ''receipt_id'' = Some i"
    "get_lit ?c ''rulebook'' = Some ?r"
    "get_lit ?c ''candidate_digest'' = Some (JStr action)"
    "get_lit ?c ''evidence_digest'' = Some (sn_digest snapshot)"
    "get_lit ?c ''result'' = Some recorded"
    "get_lit ?c ''replay'' = Some (JDict [(lit ''mode'', replay_mode)])"
    "get_lit ?c ''execution'' = execution"
    "get_lit ?c ''authorization_id'' = map_option au_id authorization"
    by (rule trans [OF snoc p(1)], simp, rule trans [OF snoc p(2)], simp, rule trans [OF snoc p(3)], simp, rule trans [OF snoc p(4)], simp, rule trans [OF snoc p(5)], simp, rule trans [OF snoc p(6)], simp, rule trans [OF snoc p(7)], simp, rule trans [OF snoc p(8)], simp)
  have g: "get_lit v ''receipt_id'' = Some i" "get_lit v ''rulebook'' = Some (sort_json ?r)"
    "get_lit v ''candidate_digest'' = Some (JStr action)" "get_lit v ''evidence_digest'' = Some (JStr evd)"
    "get_lit v ''result'' = Some (sort_json recorded)" "get_lit v ''replay'' = Some (JDict [(lit ''mode'', replay_mode)])"
    "get_lit v ''execution'' = map_option sort_json execution" "get_lit v ''signature'' = Some (sort_json ?b)"
    "get_lit v ''authorization_id'' = map_option (sort_json \<circ> au_id) authorization"
    unfolding f sig gc
    by (simp_all add: scalar arg ev(2) replay_mode_def option.map_comp del: sort_json.simps) (simp add: replay_mode_def)
  have wo: "json_without ''signature'' v = sort_json ?p"
  proof -
    have "lit ''signature'' \<notin> set (keys (items ?p))" using wfc by (auto simp: keys_def)
    then have "json_without ''signature'' ?c = JDict (items ?p)" by (rule json_without_snoc)
    also have "JDict (items ?p) = ?p" by (simp add: receipt_payload_def)
    finally show ?thesis unfolding v_def json_without_sort by simp
  qed
  have sb: "signing_bytes (json_without ''signature'' v) = Inr m"
    unfolding wo by (rule signing_bytes_sort [OF m(1)])
  have bl: "get_lit (sort_json ?b) ''key_id'' = Some key_id" "get_lit (sort_json ?b) ''key_version'' = Some key_version"
    "get_lit (sort_json ?b) ''value'' = Some (JStr (b64encode raw))"
    unfolding signature_block_fields [OF wf(3) int(2)] by (simp_all add: scalar arg int)
  have st: "rk_status entry = JStr (lit ''active'') \<or> rk_status entry = JStr (lit ''retired'')"
    using key(3) by (simp add: check_key_status_Inr)
  have su: "signed_under X ring True v"
    unfolding signed_under_def
    by (rule exI [of _ "sort_json ?b"], rule exI [of _ key_id], rule exI [of _ key_version], rule exI [of _ entry],
        rule exI [of _ raw], rule exI [of _ m])
      (simp add: g bl key(1) st key2 sb decode_signature_encode [OF key2(1)])
  have ro: "get_lit (sort_json recorded) ''outcome'' = Some (JStr (ev_outcome result))"
    using rec by (simp add: dict_get_sort)
  have om: "optional_member v n = (case get_lit v n of Some JNull \<Rightarrow> None | r \<Rightarrow> r)" for n by (simp add: optional_member_def)
  have shape: "shape_ok (ev_outcome result) v"
    unfolding shape_ok_def om g using al sh by (auto simp: g)
  have va': "validate X v receipt_schema_id registry = Inr ()"
    unfolding v_def validate_sort [OF wfc] by (rule va)
  have vd: "is_dict v" by (simp add: v_def)
  obtain verified where vr: "verify_receipt X v ring registry = Inr verified" "rv_outcome verified = JStr (ev_outcome result)"
    using verify_receipt_intro [OF vd va' su _ shape g(1)] ro g(5,6) by auto
  have wr: "wf_json ?r" using idwf dwf(1) ids by (simp add: keys_def)
  have cr: "check_recorded_rulebook pinned (sort_json ?r) = Inr ()"
    unfolding check_recorded_rulebook_def Let_def subscript_sort [OF wr]
    using load(4,5) ids by (cases "rb_id pinned"; cases "rb_version pinned") auto
  have ex: "optional_member v ''execution'' = Some e \<Longrightarrow> is_dict e" for e
    unfolding om g using wf(7) by (cases execution) (auto split: json.splits option.splits)
  obtain as where as: "timeline_anomalies v (Some sv) None = Inr as"
    using timeline_total [OF vd ex ev(1)] by blast
  have rcn: "canon_json (sort_json recorded) = Inr (ev_canonical result)"
    using rec canon_json_sort by blast
  have cd: "is_dict candidate" "candidate \<noteq> JNull" "sv \<noteq> JNull"
    using result(1) ev(1) by (auto simp: evaluate_def split: if_split_asm)
  have sub: "sub_lit v ''rulebook'' = Inr (sort_json ?r)" "sub_lit v ''candidate_digest'' = Inr (JStr action)"
    "sub_lit v ''evidence_digest'' = Inr (JStr evd)" "sub_lit v ''result'' = Inr (sort_json recorded)"
    using g by (simp_all only: subscript_Inr_iff)
  have "\<exists>r. replay_receipt X v (Some src) candidate sv ring registry None None None = Inr r \<and>
     rp_outcome r = JStr (ev_outcome result) \<and> rp_recomputed_canonical r = ev_canonical result"
    unfolding replay_receipt_def vr option.case bindE_simps load(1) sub cr ac snap result(1) rcn ev(2)
    by (simp add: cd as vr(2) split: if_split)
  with rl show ?thesis unfolding v_def by blast
qed

lemma decision_or_error:
  assumes "evaluate X pinned candidate snapshot registry = Inr r" "ev_outcome r \<noteq> lit ''ERROR''"
  shows "ev_outcome r \<in> set decision_outcomes"
  using assms(1)
proof (cases rule: evaluate_cases)
  case (walked w cx rules)
  from walk_rules_stops [OF walked(5)] show ?thesis
    by (auto simp: stops_at_def decision_outcomes_def split: if_split_asm)
qed (use assms(2) in simp)

lemma recorded_outcome:
  assumes "evaluate X pinned candidate snapshot registry = Inr r" "ev_outcome r \<noteq> lit ''ERROR''"
    and "wf_json res" "canon_json res = Inr (ev_canonical r)" "get_lit res ''outcome'' = Some (JStr outcome)"
  shows "ev_outcome r = outcome"
proof -
  from decision_document [OF assms(1) decision_or_error [OF assms(1,2)]] obtain doc where doc: "wf_json doc"
    "canon_json doc = Inr (ev_canonical r)" "get_lit doc ''outcome'' = Some (JStr (ev_outcome r))"
    by (auto simp: recorded_document_def)
  have "canon_ok res" "canon_ok doc" "jtext res = jtext doc" using assms(4) doc(2) by (simp_all add: canon_json_iff)
  then have "sort_json res = sort_json doc" using jtext_inj assms(3) doc(1) by blast
  then have "map_option sort_json (get_lit res ''outcome'') = map_option sort_json (get_lit doc ''outcome'')"
    using dict_get_sort [OF assms(3), of "lit ''outcome''"] dict_get_sort [OF doc(1), of "lit ''outcome''"] by simp
  with assms(5) doc(3) show ?thesis by auto
qed

section \<open>Properties\<close>

text \<open>
  C16. Every issued receipt replays. A receipt of a decision, issued over a loaded rulebook, a verified
  snapshot and their evaluation, reloads to a value whose replay against the same bodies succeeds: under
  every registry that holds the signing key, even retired, at any later time and without its
  authorization; and it recomputes the recorded outcome and canonical result.
\<close>

theorem issued_receipt_replays:
  assumes "issue_receipt X pinned candidate snapshot result authorization execution i created_at key_id key_version
      (Some k) registry = Inr rc"
    and "load_rulebook_bytes X src registry = Inr pinned" "yaml_strings_ok X" "hash_text_ok X"
      "is_str (rb_id pinned)" "is_str (rb_version pinned)"
    and "verify_snapshot_value X sv pinned registry = Inr snapshot"
    and "evaluate X pinned candidate sv registry = Inr result"
      "\<And>w. result_value result = Inr w \<Longrightarrow> jdepth w \<le> 62"
    and "wf_json i" "wf_json created_at" "wf_json key_id" "wf_json candidate" "option_wf execution"
      "option_wf (map_option au_id authorization)" "\<And>e. execution = Some e \<Longrightarrow> is_dict e"
    and "key_lookup ring (key_id, key_version) = Inr (Some entry)" "signs_for X k (rk_public entry)"
      "check_key_status (Some (rk_status entry)) True = Inr ()"
  shows "\<exists>v r. receipt_value rc = Inr v \<and>
     replay_receipt X v (Some src) candidate sv ring registry None None None = Inr r \<and>
     rp_outcome r = JStr (ev_outcome result) \<and> rp_recomputed_canonical r = ev_canonical result"
  by (rule issued_replays [OF assms])

text \<open>
  C15. What a replay establishes. The receipt is signed under a registered key that is not revoked; the
  supplied rulebook loads to the recorded digest, the candidate and the verified snapshot have the
  recorded digests, and the gate run on them gives exactly the recorded result, with its outcome. An
  authorization counts as verified only when the receipt names one, the one supplied bears that name and the
  receipt's three digests, and it verifies for its own runtime against the recomputed result.
\<close>

theorem replay_recomputes:
  assumes "replay_receipt X v source candidate snapshot ring registry authorization authorization_keys time = Inr r"
    and "wf_json v"
  shows "signed_under X ring True v \<and>
     (\<exists>src pinned recorded d. source = Some src \<and> load_rulebook_bytes X src registry = Inr pinned \<and>
        get_lit v ''rulebook'' = Some recorded \<and> get_lit recorded ''digest'' = Some (JStr (rb_digest pinned)) \<and>
        digest (sha256_hex X) candidate = Inr d \<and> get_lit v ''candidate_digest'' = Some (JStr d) \<and>
        (\<exists>frozen result recomputed outcome. verify_snapshot_value X snapshot pinned registry = Inr frozen \<and>
           get_lit v ''evidence_digest'' = Some (sn_digest frozen) \<and>
           evaluate X pinned candidate snapshot registry = Inr recomputed \<and>
           get_lit v ''result'' = Some result \<and> canon_json result = Inr (ev_canonical recomputed) \<and>
           rp_outcome r = JStr outcome \<and> outcome \<in> set decision_outcomes \<and>
           (ev_outcome recomputed \<noteq> lit ''ERROR'' \<longrightarrow> ev_outcome recomputed = outcome) \<and>
           (rp_authorization_verified r \<longrightarrow> (\<exists>a ring' a'. authorization = Some a \<and> authorization_keys = Some ring' \<and>
              (\<exists>named. get_lit v ''authorization_id'' = Some named \<and> named \<noteq> JNull \<and>
                 (\<exists>i. get_lit a ''authorization_id'' = Some i \<and> py_eq i named)) \<and>
              get_lit a ''action_digest'' = Some (JStr d) \<and> get_lit a ''rulebook_digest'' = Some (JStr (rb_digest pinned)) \<and>
              get_lit a ''evidence_digest'' = Some (sn_digest frozen) \<and>
              (\<exists>runtime_id. get_lit a ''runtime_id'' = Some runtime_id \<and>
                 verify_authorization X a pinned candidate frozen recomputed runtime_id time ring' registry None True
                 = Inr a')))))"
proof -
  from assms(1) obtain src verified pinned recorded action frozen recomputed res where
    v: "verify_receipt X v ring registry = Inr verified" and s: "source = Some src" and
    l: "load_rulebook_bytes X src registry = Inr pinned" "get_lit v ''rulebook'' = Some recorded"
    "check_recorded_rulebook pinned recorded = Inr ()" and d: "digest (sha256_hex X) candidate = Inr action"
    "get_lit v ''candidate_digest'' = Some (JStr action)" and
    f: "verify_snapshot_value X snapshot pinned registry = Inr frozen"
    "\<exists>e. get_lit v ''evidence_digest'' = Some e \<and> py_eq (sn_digest frozen) e" and
    g: "evaluate X pinned candidate snapshot registry = Inr recomputed" "get_lit v ''result'' = Some res"
    "canon_json res = Inr (ev_canonical recomputed)" and
    a: "if optional_member v ''authorization_id'' = None \<or> authorization = None then \<not> rp_authorization_verified r
     else rp_authorization_verified r \<and> (\<forall>a. authorization = Some a \<longrightarrow>
       check_referenced_authorization X v a pinned candidate frozen recomputed authorization_keys time registry = Inr ())" and
    o: "rp_outcome r = rv_outcome verified"
    by (rule replay_receipt_Inr)
  from v obtain outcome where su: "signed_under X ring True v" and
    oc: "Option.bind (get_lit v ''result'') (\<lambda>w. get_lit w ''outcome'') = Some (JStr outcome)" "shape_ok outcome v"
      "rv_outcome verified = JStr outcome"
    by (rule verify_receipt_Inr)
  have e: "py_eq (JStr x) w \<longleftrightarrow> w = JStr x" for x w by (cases w) auto
  have dg: "get_lit recorded ''digest'' = Some (JStr (rb_digest pinned))"
    using l(3) by (auto simp: check_recorded_rulebook_def Let_def bindE_Inr_iff subscript_Inr_iff guard_Inr_iff e)
  have ed: "get_lit v ''evidence_digest'' = Some (sn_digest frozen)"
    using f(2) verified_snapshot_digest [OF f(1)] e by auto
  have od: "outcome \<in> set decision_outcomes" using oc(2) by (simp add: shape_ok_def)
  have same: "ev_outcome recomputed = outcome" if "ev_outcome recomputed \<noteq> lit ''ERROR''"
    using recorded_outcome [OF g(1) that wf_dict_get [OF assms(2) g(2)] g(3)] oc(1) g(2) by simp
  let ?au = "\<exists>a ring' a'. authorization = Some a \<and> authorization_keys = Some ring' \<and>
      (\<exists>named. get_lit v ''authorization_id'' = Some named \<and> named \<noteq> JNull \<and>
         (\<exists>i. get_lit a ''authorization_id'' = Some i \<and> py_eq i named)) \<and>
      get_lit a ''action_digest'' = Some (JStr action) \<and> get_lit a ''rulebook_digest'' = Some (JStr (rb_digest pinned)) \<and>
      get_lit a ''evidence_digest'' = Some (sn_digest frozen) \<and>
      (\<exists>runtime_id. get_lit a ''runtime_id'' = Some runtime_id \<and>
         verify_authorization X a pinned candidate frozen recomputed runtime_id time ring' registry None True = Inr a')"
  have au: ?au if "rp_authorization_verified r"
  proof -
    from a that obtain w where w: "authorization = Some w" "optional_member v ''authorization_id'' \<noteq> None"
      "check_referenced_authorization X v w pinned candidate frozen recomputed authorization_keys time registry = Inr ()"
      by (auto split: if_split_asm)
    from check_referenced_Inr [OF w(3)] obtain ring' i named runtime_id a' where
      c: "authorization_keys = Some ring'" "(case get_lit w ''authorization_id'' of None \<Rightarrow> JNull | Some i \<Rightarrow> i) = i"
        "get_lit v ''authorization_id'' = Some named" "py_eq i named"
        "verify_authorization X w pinned candidate frozen recomputed runtime_id time ring' registry None True = Inr a'"
      by blast
    note ok = c(5) [unfolded verify_authorization_Inr]
    have "named \<noteq> JNull" using w(2) c(3) by (auto simp: optional_member_def)
    moreover from ok obtain j where "get_lit w ''authorization_id'' = Some j"
      by (auto simp: freeze_authorization_def bindE_Inr_iff subscript_Inr_iff)
    moreover have "get_lit w ''evidence_digest'' = Some (sn_digest frozen)"
      using ok verified_snapshot_digest [OF f(1)] by auto
    ultimately show ?thesis using w(1) c ok d(1) by auto
  qed
  have inner: "\<exists>fz result rr oo. verify_snapshot_value X snapshot pinned registry = Inr fz \<and>
           get_lit v ''evidence_digest'' = Some (sn_digest fz) \<and>
           evaluate X pinned candidate snapshot registry = Inr rr \<and>
           get_lit v ''result'' = Some result \<and> canon_json result = Inr (ev_canonical rr) \<and>
           rp_outcome r = JStr oo \<and> oo \<in> set decision_outcomes \<and>
           (ev_outcome rr \<noteq> lit ''ERROR'' \<longrightarrow> ev_outcome rr = oo) \<and>
           (rp_authorization_verified r \<longrightarrow> (\<exists>a ring' a'. authorization = Some a \<and> authorization_keys = Some ring' \<and>
              (\<exists>named. get_lit v ''authorization_id'' = Some named \<and> named \<noteq> JNull \<and>
                 (\<exists>i. get_lit a ''authorization_id'' = Some i \<and> py_eq i named)) \<and>
              get_lit a ''action_digest'' = Some (JStr action) \<and> get_lit a ''rulebook_digest'' = Some (JStr (rb_digest pinned)) \<and>
              get_lit a ''evidence_digest'' = Some (sn_digest fz) \<and>
              (\<exists>runtime_id. get_lit a ''runtime_id'' = Some runtime_id \<and>
                 verify_authorization X a pinned candidate fz rr runtime_id time ring' registry None True = Inr a')))"
    by (rule exI [of _ frozen], rule exI [of _ res], rule exI [of _ recomputed], rule exI [of _ outcome],
        intro conjI impI f(1) ed g od same au)
      (use o oc(3) in auto)
  show ?thesis
    by (rule conjI [OF su], rule exI [of _ src], rule exI [of _ pinned], rule exI [of _ recorded], rule exI [of _ action],
        intro conjI s l(1,2) dg d inner)
qed

text \<open>
  Timeline anomalies are exact: nothing is reported if and only if every recorded instant that has to
  come later, when it and its counterpart can be read, is at or after it as an instant, so two spellings
  of one instant are never an anomaly.
\<close>

theorem timeline_exact:
  assumes "timeline_anomalies v snapshot authorization = Inr found"
  shows "\<exists>acknowledged frozen_at issued_at.
     py_optional (or_empty (optional_member v ''execution'')) ''acknowledged_at'' = Inr acknowledged \<and>
     py_optional (or_empty snapshot) ''frozen_at'' = Inr frozen_at \<and>
     py_optional (or_empty authorization) ''issued_at'' = Inr issued_at \<and>
     (found = [] \<longleftrightarrow>
        (\<forall>(later_name, later, earlier_name, before)
           \<in> set (timeline_pairs (optional_member v ''created_at'') acknowledged issued_at frozen_at).
           \<forall>l b s t. later = Some l \<longrightarrow> before = Some b \<longrightarrow> instant_of l = Inr s \<longrightarrow> instant_of b = Inr t \<longrightarrow> t \<le> s))"
proof -
  have one: "anomaly (m, l, n, b) = [] \<longleftrightarrow>
      (\<forall>x y s t. l = Some x \<longrightarrow> b = Some y \<longrightarrow> instant_of x = Inr s \<longrightarrow> instant_of y = Inr t \<longrightarrow> t \<le> s)" for m l n b
    by (auto simp: anomaly_def precedes_def split: option.split sum.split)
  from assms obtain execution created acknowledged frozen_at issued_at where
    p: "py_optional v ''execution'' = Inr execution" "py_optional v ''created_at'' = Inr created"
    "py_optional (or_empty execution) ''acknowledged_at'' = Inr acknowledged"
    "py_optional (or_empty snapshot) ''frozen_at'' = Inr frozen_at"
    "py_optional (or_empty authorization) ''issued_at'' = Inr issued_at"
    "found = concat (map anomaly (timeline_pairs created acknowledged issued_at frozen_at))"
    by (auto simp: timeline_anomalies_def bindE_Inr_iff)
  have e: "execution = optional_member v ''execution''" "created = optional_member v ''created_at''"
    using p(1,2) by (auto simp: py_optional_def split: if_split_asm)
  have "found = [] \<longleftrightarrow> (\<forall>q \<in> set (timeline_pairs created acknowledged issued_at frozen_at). anomaly q = [])"
    using p(6) by simp
  then show ?thesis using p(3,4,5) e one by (auto simp: Ball_def)
qed

section \<open>Witnesses\<close>

abbreviation sample_outcome :: evaluation_result where
  "sample_outcome \<equiv> \<lparr>ev_canonical = jtext sample_outcome_document, ev_outcome = lit ''ALLOW''\<rparr>"

lemma sample_outcome_value: "result_value sample_outcome = Inr (sort_json sample_outcome_document)"
    "jdepth (sort_json sample_outcome_document) \<le> 62"
proof -
  have l: "loadable sample_outcome_document"
    by (simp add: loadable_def sample_outcome_document_def result_document_def keys_def max_depth_def)
  have c: "canon_json sample_outcome_document = Inr (jtext sample_outcome_document)"
    unfolding canon_json_iff
    by (simp add: sample_outcome_document_def result_document_def no_surrogate_def is_surrogate_def lit_def)
  show "result_value sample_outcome = Inr (sort_json sample_outcome_document)"
    using json_text.dcd_enc [OF l c] by (simp add: result_value_def)
  show "jdepth (sort_json sample_outcome_document) \<le> 62"
    by (simp add: jdepth_sort) (simp add: sample_outcome_document_def result_document_def)
qed

lemma sample_snapshot_verified:
  "verify_snapshot_value sample_externals sample_snapshot_value sample_pinned sample_registry = Inr sample_frozen"
proof -
  have v: "validate sample_externals w snapshot_schema_id sample_registry = Inr ()" for w
    by (rule sample_registry_lookup [where c = SnapshotSchemaInvalid])
      (simp add: code_by_id_def snapshot_schema_id_def)
  let ?p = "json_without ''snapshot_digest'' sample_snapshot_value"
  have ok: "wf_json ?p" "canon_ok ?p"
    by (simp_all add: json_without_def dwithout_def sample_snapshot_value_def keys_def wf_zeros sample_instant_def
        no_surrogate_def is_surrogate_def lit_def list_all_iff safe_int_def min_safe_integer_def max_safe_integer_def)
  have d: "digest (sha256_hex sample_externals) ?p = Inr (lit ''sha256:'' @ replicate 64 48)"
    using hex_digest_canonical(2) [OF ok(1), of "jtext ?p" "sha256_hex sample_externals"] ok(2)
    by (simp add: canon_json_iff sample_externals_def)
  have c: "canon_json sample_snapshot_value = Inr (jtext sample_snapshot_value)"
    unfolding canon_json_iff
    by (simp add: sample_snapshot_value_def no_surrogate_def is_surrogate_def lit_def sample_instant_def list_all_iff
        safe_int_def min_safe_integer_def max_safe_integer_def)
  have a: "adopted_by sample_pinned (JStr sample_instant) = Inr ()"
    by (simp add: adopted_by_def rulebook_applies_def sample_pinned_def sample_instant_value)
  have g: "get_lit sample_snapshot_value ''snapshot_digest'' = Some (JStr (lit ''sha256:'' @ replicate 64 48))"
    "get_lit sample_snapshot_value ''rulebook_digest'' = Some (JStr (lit ''sha256:'' @ replicate 64 48))"
    "get_lit sample_snapshot_value ''frozen_at'' = Some (JStr sample_instant)"
    "get_lit sample_snapshot_value ''snapshot_id'' = Some (JStr (lit ''s''))" "is_dict sample_snapshot_value"
    by (simp_all add: sample_snapshot_value_def)
  have i: "check_items sample_pinned 1704067200000000000 sample_snapshot_value = Inr ()"
    by (simp add: check_items_def sample_declarations items_of_def sample_snapshot_value_def verify_item_def
        check_status_and_value_def keys_def is_one_of_def item_statuses_def instant_or_def sample_instant_value)
  have sub: "sub_lit sample_snapshot_value ''snapshot_digest'' = Inr (JStr (lit ''sha256:'' @ replicate 64 48))"
    "sub_lit sample_snapshot_value ''rulebook_digest'' = Inr (JStr (lit ''sha256:'' @ replicate 64 48))"
    "sub_lit sample_snapshot_value ''frozen_at'' = Inr (JStr sample_instant)"
    "sub_lit sample_snapshot_value ''snapshot_id'' = Inr (JStr (lit ''s''))"
    using g by (simp_all only: subscript_Inr_iff)
  show ?thesis
    unfolding verify_snapshot_value_def v d sub c
    by (simp add: g a i sample_frozen_def instant_or_def sample_instant_value) (simp add: sample_pinned_def)
qed

lemma sample_receipt:
  "\<exists>rc. issue_receipt sample_externals sample_pinned sample_candidate sample_frozen sample_outcome None None
     (JStr (lit ''c'')) (JStr sample_instant) (JStr (lit ''k'')) (JInt 1) (Some (replicate 32 0)) sample_registry = Inr rc"
proof -
  have c: "check_receipt_arguments (JStr (lit ''c'')) (JStr sample_instant) (JStr (lit ''k'')) (JInt 1)
      (Some (replicate 32 0)) = Inr (replicate 32 0)"
    by (simp add: check_receipt_arguments_def require_string_def key_length_def)
  have ca: "canon_ok sample_candidate"
    by (simp add: sample_candidate_def no_surrogate_def is_surrogate_def lit_def)
  have d: "digest (sha256_hex sample_externals) sample_candidate = Inr (lit ''sha256:'' @ replicate 64 48)"
    using hex_digest_canonical(2) [OF sample_inputs_wf(1), of "jtext sample_candidate" "sha256_hex sample_externals"] ca
    by (simp add: canon_json_iff sample_externals_def)
  have ids: "get_lit (sort_json sample_document) ''rulebook_id'' = Some (JStr (lit ''r''))"
    "get_lit (sort_json sample_document) ''version'' = Some (JStr (lit ''1''))"
    unfolding dict_get_sort [OF sample_document_ok(1)] by (simp_all add: sample_document_def)
  let ?res = "sort_json sample_outcome_document"
  let ?p = "receipt_payload (JStr (lit ''c'')) (JStr sample_instant) (JStr (lit ''r'')) (JStr (lit ''1'')) (rb_digest sample_pinned)
    (lit ''sha256:'' @ replicate 64 48) (sn_digest sample_frozen) ?res None None"
  have res: "wf_json ?res" "canon_ok ?res"
    by (simp_all add: wf_sort canon_ok_sort sample_outcome_document_def result_document_def keys_def
        no_surrogate_def is_surrogate_def lit_def del: sort_json.simps)
  have wp: "wf_json ?p" "canon_ok ?p"
    using res by (simp_all add: receipt_payload_def keys_def sample_pinned_def sample_frozen_def wf_zeros replay_mode_def
        sample_instant_def no_surrogate_def is_surrogate_def lit_def list_all_iff del: sort_json.simps)
  have cp: "canon_json ?p = Inr (jtext ?p)" using wp(2) by (simp only: canon_json_iff)
  have sg: "sign_payload sample_externals k ?p = Inr (replicate 64 0)" for k
    using canon_json_bytes(1) [OF wp(1) cp] cp by (simp add: sign_payload_def signing_bytes_def sample_externals_def)
  let ?c = "JDict (dset (lit ''signature'') (signature_block (JStr (lit ''k'')) (JInt 1) (replicate 64 0)) (items ?p))"
  have b: "no_surrogate (b64encode (replicate 64 0))" by (rule b64_plain) simp
  have "canon_ok ?c"
    using wp(2) b by (simp add: receipt_payload_def signature_block_def no_surrogate_def is_surrogate_def lit_def
        safe_int_def min_safe_integer_def max_safe_integer_def del: sort_json.simps)
  then have cc: "canon_json ?c = Inr (jtext ?c)" by (simp only: canon_json_iff)
  have v: "validate sample_externals ?c receipt_schema_id sample_registry = Inr ()"
    by (rule sample_registry_lookup [where c = ReceiptSchemaInvalid])
      (simp add: code_by_id_def receipt_schema_id_def)
  have subs: "sub_lit (sort_json sample_document) ''rulebook_id'' = Inr (JStr (lit ''r''))"
    "sub_lit (sort_json sample_document) ''version'' = Inr (JStr (lit ''1''))"
    using ids by (simp_all only: subscript_Inr_iff)
  have sh: "check_shape_for_outcome (lit ''ALLOW'') False False = Inr ()" "lit ''ALLOW'' \<in> set decision_outcomes"
    by (simp_all add: check_shape_for_outcome_def decision_outcomes_def)
  show ?thesis
    unfolding issue_receipt_def c bindE_simps
    by (simp add: sh sample_value subs d sample_outcome_value(1) sg v cc Let_def del: items.simps dset.simps sort_json.simps py.simps)
qed

lemma sample_replays:
  assumes "issue_receipt sample_externals sample_pinned sample_candidate sample_frozen sample_outcome None None
     (JStr (lit ''c'')) (JStr sample_instant) (JStr (lit ''k'')) (JInt 1) (Some (replicate 32 0)) sample_registry = Inr rc"
  shows "\<exists>v r. receipt_value rc = Inr v \<and>
     replay_receipt sample_externals v (Some [120]) sample_candidate sample_snapshot_value sample_ring sample_registry
       None None None = Inr r \<and> rp_outcome r = JStr (lit ''ALLOW'')"
proof -
  have "\<exists>v r. receipt_value rc = Inr v \<and>
     replay_receipt sample_externals v (Some [120]) sample_candidate sample_snapshot_value sample_ring sample_registry
       None None None = Inr r \<and> rp_outcome r = JStr (ev_outcome sample_outcome) \<and>
     rp_recomputed_canonical r = ev_canonical sample_outcome"
    by (rule issued_replays [OF assms sample_load [OF sample_decode(1)] sample_yaml sample_hash _ _
          sample_snapshot_verified sample_evaluate_outcome _ _ _ _ sample_inputs_wf(1) _ _ _ sample_key sample_signs])
      (use sample_outcome_value in \<open>simp_all add: sample_pinned_def option_wf_def sample_instant_wf check_key_status_Inr\<close>)
  then show ?thesis by auto
qed

theorem issued_receipt_replays_witness:
  "\<exists>rc v r. issue_receipt sample_externals sample_pinned sample_candidate sample_frozen sample_outcome None None
     (JStr (lit ''c'')) (JStr sample_instant) (JStr (lit ''k'')) (JInt 1) (Some (replicate 32 0)) sample_registry = Inr rc \<and>
     receipt_value rc = Inr v \<and>
     replay_receipt sample_externals v (Some [120]) sample_candidate sample_snapshot_value sample_ring sample_registry
       None None None = Inr r \<and> rp_outcome r = JStr (lit ''ALLOW'')"
proof -
  obtain rc where rc: "issue_receipt sample_externals sample_pinned sample_candidate sample_frozen sample_outcome None None
     (JStr (lit ''c'')) (JStr sample_instant) (JStr (lit ''k'')) (JInt 1) (Some (replicate 32 0)) sample_registry = Inr rc"
    using sample_receipt by blast
  have "\<exists>v r. receipt_value rc = Inr v \<and>
     replay_receipt sample_externals v (Some [120]) sample_candidate sample_snapshot_value sample_ring sample_registry
       None None None = Inr r \<and> rp_outcome r = JStr (ev_outcome sample_outcome) \<and>
     rp_recomputed_canonical r = ev_canonical sample_outcome"
    by (rule issued_receipt_replays [OF rc sample_load [OF sample_decode(1)] sample_yaml sample_hash _ _
          sample_snapshot_verified sample_evaluate_outcome _ _ _ _ sample_inputs_wf(1) _ _ _ sample_key sample_signs])
      (use sample_outcome_value in \<open>simp_all add: sample_pinned_def option_wf_def sample_instant_wf check_key_status_Inr\<close>)
  with rc show ?thesis by auto
qed

theorem replay_recomputes_witness:
  "\<exists>v pinned. signed_under sample_externals sample_ring True v \<and>
     load_rulebook_bytes sample_externals [120] sample_registry = Inr pinned"
proof -
  obtain rc where rc: "issue_receipt sample_externals sample_pinned sample_candidate sample_frozen sample_outcome None None
     (JStr (lit ''c'')) (JStr sample_instant) (JStr (lit ''k'')) (JInt 1) (Some (replicate 32 0)) sample_registry = Inr rc"
    using sample_receipt by blast
  from sample_replays [OF rc] obtain v r where v: "receipt_value rc = Inr v"
    "replay_receipt sample_externals v (Some [120]) sample_candidate sample_snapshot_value sample_ring sample_registry
       None None None = Inr r" by blast
  have "wf_json v" using v(1) reload_loadable by (auto simp: receipt_value_def loadable_def)
  from replay_recomputes [OF v(2) this] show ?thesis by auto
qed

theorem timeline_exact_witness:
  "timeline_anomalies (JDict [(lit ''created_at'', JStr sample_instant)])
     (Some (JDict [(lit ''frozen_at'', JStr sample_instant)])) None = Inr [] \<and>
   (\<exists>frozen_at. py_optional (or_empty (Some (JDict [(lit ''frozen_at'', JStr sample_instant)]))) ''frozen_at''
      = Inr frozen_at \<and> frozen_at = Some (JStr sample_instant))"
proof -
  have t: "timeline_anomalies (JDict [(lit ''created_at'', JStr sample_instant)])
     (Some (JDict [(lit ''frozen_at'', JStr sample_instant)])) None = Inr []"
    by (simp add: timeline_anomalies_def py_optional_def optional_member_def or_empty_def timeline_pairs_def
        anomaly_def precedes_def sample_instant_value)
  from timeline_exact [OF t] t show ?thesis
    by (auto simp: py_optional_def optional_member_def or_empty_def)
qed

end
