(* ===== verification/Files.thy ===== *)
theory Files
  imports Receipt
begin

text \<open>
  The file system below a store root, as far as \<^verbatim>\<open>src/vfy/store.py\<close> uses it: an insertion-ordered map
  from relative paths to directory entries, the system calls that change it, and computations over it
  that may raise or be cut short when the host stops. What a symbolic link leads to is outside the tree;
  only whether it leads to a directory is kept. A write is two effects, the truncating open and the bytes.
\<close>

section \<open>Entries and system calls\<close>

datatype entry = File bytes | Directory | Symlink bool | Special

type_synonym fs_path = "ustr list"
type_synonym fs = "(fs_path \<times> entry) list"

datatype os_error = EExist | ENoent | EIsdir | EOther

text \<open>A parent directory must be there; the root itself, the empty path, has none below the store.\<close>

definition parent_ok :: "fs \<Rightarrow> fs_path \<Rightarrow> bool" where
  "parent_ok t p \<longleftrightarrow> p = [] \<or> map_of t (butlast p) = Some Directory"

definition beneath :: "fs_path \<Rightarrow> fs_path \<Rightarrow> bool" where
  "beneath p q \<longleftrightarrow> take (length p) q = p \<and> length p < length q"

definition os_mkdir :: "fs_path \<Rightarrow> fs \<Rightarrow> (os_error + unit) \<times> fs" where
  "os_mkdir p t =
     (if map_of t p \<noteq> None then (Inl EExist, t)
      else if \<not> parent_ok t p then (Inl ENoent, t)
      else (Inr (), dset p Directory t))"

text \<open>\<open>O_CREAT | O_EXCL\<close>: any entry in the way refuses.\<close>

definition os_create :: "fs_path \<Rightarrow> fs \<Rightarrow> (os_error + unit) \<times> fs" where
  "os_create p t =
     (if map_of t p \<noteq> None then (Inl EExist, t)
      else if \<not> parent_ok t p then (Inl ENoent, t)
      else (Inr (), dset p (File []) t))"

text \<open>\<open>open(path, "wb")\<close>: a regular file is truncated, an absent one created.\<close>

definition os_truncate :: "fs_path \<Rightarrow> fs \<Rightarrow> (os_error + unit) \<times> fs" where
  "os_truncate p t =
     (case map_of t p of
        Some (File _) \<Rightarrow> (Inr (), dset p (File []) t)
      | Some Directory \<Rightarrow> (Inl EIsdir, t)
      | Some _ \<Rightarrow> (Inl EOther, t)
      | None \<Rightarrow> if parent_ok t p then (Inr (), dset p (File []) t) else (Inl ENoent, t))"

definition os_write :: "fs_path \<Rightarrow> bytes \<Rightarrow> fs \<Rightarrow> (os_error + unit) \<times> fs" where
  "os_write p b t =
     (case map_of t p of Some (File old) \<Rightarrow> (Inr (), dset p (File (old @ b)) t) | _ \<Rightarrow> (Inl EOther, t))"

definition os_unlink :: "fs_path \<Rightarrow> fs \<Rightarrow> (os_error + unit) \<times> fs" where
  "os_unlink p t =
     (case map_of t p of
        None \<Rightarrow> (Inl ENoent, t)
      | Some Directory \<Rightarrow> (Inl EIsdir, t)
      | Some _ \<Rightarrow> (Inr (), dwithout p t))"

definition os_link :: "fs_path \<Rightarrow> fs_path \<Rightarrow> fs \<Rightarrow> (os_error + unit) \<times> fs" where
  "os_link src dst t =
     (case map_of t src of
        None \<Rightarrow> (Inl ENoent, t)
      | Some Directory \<Rightarrow> (Inl EOther, t)
      | Some e \<Rightarrow>
          if map_of t dst \<noteq> None then (Inl EExist, t)
          else if \<not> parent_ok t dst then (Inl ENoent, t)
          else (Inr (), dset dst e t))"

text \<open>
  \<open>rename\<close> of a file replaces what is at the new name, unless that is a directory. A directory moves
  with everything beneath it, onto nothing or an empty directory.
\<close>

definition moved :: "fs_path \<Rightarrow> fs_path \<Rightarrow> fs_path \<Rightarrow> fs_path" where
  "moved src dst p = (if p = src \<or> beneath src p then dst @ drop (length src) p else p)"

definition os_rename :: "fs_path \<Rightarrow> fs_path \<Rightarrow> fs \<Rightarrow> (os_error + unit) \<times> fs" where
  "os_rename src dst t =
     (case map_of t src of
        None \<Rightarrow> (Inl ENoent, t)
      | Some Directory \<Rightarrow>
          if \<not> parent_ok t dst then (Inl ENoent, t)
          else if src = dst then (Inr (), t)
          else if beneath src dst then (Inl EOther, t)
          else if map_of t dst \<noteq> None \<and> map_of t dst \<noteq> Some Directory then (Inl EOther, t)
          else if list_ex (\<lambda>(p, e). beneath dst p) t then (Inl EOther, t)
          else (Inr (), map (\<lambda>(p, e). (moved src dst p, e)) (dwithout dst t))
      | Some e \<Rightarrow>
          if \<not> parent_ok t dst then (Inl ENoent, t)
          else if src = dst then (Inr (), t)
          else if map_of t dst = Some Directory then (Inl EIsdir, t)
          else (Inr (), dset dst e (dwithout src t)))"

text \<open>The names in a directory, in the order of \<open>sorted\<close>.\<close>

definition names_in :: "fs \<Rightarrow> fs_path \<Rightarrow> ustr list" where
  "names_in t d = sort (map (\<lambda>(p, e). last p) (filter (\<lambda>(p, e). p \<noteq> [] \<and> butlast p = d) t))"

section \<open>Computations over the file system\<close>

text \<open>
  \<open>None\<close> effects left means a host that does not stop; after \<open>Some n\<close> effects it stops, and no
  handler and no \<open>finally\<close> runs.
\<close>

record host =
  h_fs :: fs
  h_left :: "nat option"

datatype 'a outcome = Returned 'a | Raised exn | Stopped

type_synonym 'a io = "host \<Rightarrow> 'a outcome \<times> host"

definition returnS :: "'a \<Rightarrow> 'a io" where
  "returnS x h = (Returned x, h)"

definition raiseS :: "exn \<Rightarrow> 'a io" where
  "raiseS e h = (Raised e, h)"

definition bindS :: "'a io \<Rightarrow> ('a \<Rightarrow> 'b io) \<Rightarrow> 'b io" where
  "bindS m f h =
     (case m h of
        (Returned x, h') \<Rightarrow> f x h' | (Raised e, h') \<Rightarrow> (Raised e, h') | (Stopped, h') \<Rightarrow> (Stopped, h'))"

text \<open>A step that only reads.\<close>

definition readS :: "(fs \<Rightarrow> exn + 'a) \<Rightarrow> 'a io" where
  "readS f h = (case f (h_fs h) of Inr x \<Rightarrow> (Returned x, h) | Inl e \<Rightarrow> (Raised e, h))"

definition effect :: "(fs \<Rightarrow> (os_error + unit) \<times> fs) \<Rightarrow> (os_error + unit) io" where
  "effect f h =
     (if h_left h = Some 0 then (Stopped, h)
      else (case f (h_fs h) of
              (r, t) \<Rightarrow> (Returned r, h\<lparr>h_fs := t, h_left := map_option (\<lambda>n. n - 1) (h_left h)\<rparr>)))"

text \<open>\<open>try: m except: handler\<close>, and \<open>try: m finally: f\<close>.\<close>

definition catchS :: "'a io \<Rightarrow> (exn \<Rightarrow> 'a io) \<Rightarrow> 'a io" where
  "catchS m handler h = (case m h of (Raised e, h') \<Rightarrow> handler e h' | r \<Rightarrow> r)"

definition finallyS :: "'a io \<Rightarrow> unit io \<Rightarrow> 'a io" where
  "finallyS m f h =
     (case m h of
        (Stopped, h') \<Rightarrow> (Stopped, h')
      | (r, h') \<Rightarrow> (case f h' of (Returned _, h2) \<Rightarrow> (r, h2) | (Raised e, h2) \<Rightarrow> (Raised e, h2) | (Stopped, h2) \<Rightarrow> (Stopped, h2)))"

definition os_failure :: "os_error \<Rightarrow> exn" where
  "os_failure e = PyErr PyOSError (lit ''OSError'')"

text \<open>A system call whose failure leaves as the \<open>OSError\<close> it is.\<close>

definition callS :: "(fs \<Rightarrow> (os_error + unit) \<times> fs) \<Rightarrow> unit io" where
  "callS f = bindS (effect f) (\<lambda>r. case r of Inr u \<Rightarrow> returnS () | Inl e \<Rightarrow> raiseS (os_failure e))"

definition write_exact :: "fs_path \<Rightarrow> bytes \<Rightarrow> unit io" where
  "write_exact p b = bindS (callS (os_truncate p)) (\<lambda>_. callS (os_write p b))"

text \<open>\<open>unlink(missing_ok=True)\<close>.\<close>

definition unlink_if_there :: "fs_path \<Rightarrow> unit io" where
  "unlink_if_there p =
     bindS (effect (os_unlink p)) (\<lambda>r.
       case r of Inr u \<Rightarrow> returnS () | Inl ENoent \<Rightarrow> returnS () | Inl e \<Rightarrow> raiseS (os_failure e))"

fun eachS :: "('a \<Rightarrow> unit io) \<Rightarrow> 'a list \<Rightarrow> unit io" where
  "eachS f [] = returnS ()"
| "eachS f (x # xs) = bindS (f x) (\<lambda>_. eachS f xs)"

end
