(* ===== verification/Store.thy ===== *)
theory Store
  imports Files
begin

text \<open>
  \<^verbatim>\<open>src/vfy/store.py\<close>: the local artifact store over the file system of theory \<open>Files\<close>. What only
  reads is a function of the tree; what writes is a computation that may be cut short. Failures of the
  host that the tree does not decide (a full disk, an unreadable block) do not arise in it.
\<close>

section \<open>Names\<close>

definition max_receipt_bytes :: nat where
  "max_receipt_bytes = 1048576"

definition consumption_slots :: nat where
  "consumption_slots = 64"

definition index_slots :: nat where
  "index_slots = 64"

definition receipts_dir :: fs_path where "receipts_dir = [lit ''receipts'']"
definition consumed_dir :: fs_path where "consumed_dir = [lit ''consumed'']"
definition tmp_dir :: fs_path where "tmp_dir = [lit ''tmp'']"
definition index_path :: fs_path where "index_path = [lit ''index.json'']"
definition marker_path :: fs_path where "marker_path = [lit ''store.json'']"

definition inputs_suffix :: ustr where "inputs_suffix = lit ''.inputs''"
definition json_suffix :: ustr where "json_suffix = lit ''.json''"

definition body_names :: "string list" where
  "body_names = [''rulebook'', ''candidate'', ''snapshot'', ''authorization'']"

definition receipt_path :: "ustr \<Rightarrow> fs_path" where
  "receipt_path i = receipts_dir @ [i @ json_suffix]"

definition inputs_path :: "ustr \<Rightarrow> fs_path" where
  "inputs_path i = receipts_dir @ [i @ inputs_suffix]"

definition body_file :: "string \<Rightarrow> ustr" where
  "body_file name = lit name @ json_suffix"

text \<open>\<open>_nonce_digest\<close>: a nonce never reaches the file system as a path.\<close>

definition nonce_digest :: "externals \<Rightarrow> json \<Rightarrow> exn + ustr" where
  "nonce_digest X nonce =
     (case nonce of
        JStr t \<Rightarrow> bindE (utf8_bytes t) (\<lambda>b. Inr (sha256_hex X b))
      | _ \<Rightarrow> Inl (PyErr PyTypeError (lit ''a nonce must be a string'')))"

definition consumption_path :: "ustr \<Rightarrow> fs_path" where
  "consumption_path d = consumed_dir @ [d @ json_suffix]"

definition storable_first :: "nat \<Rightarrow> bool" where
  "storable_first c \<longleftrightarrow> 48 \<le> c \<and> c \<le> 57 \<or> 65 \<le> c \<and> c \<le> 90 \<or> 97 \<le> c \<and> c \<le> 122"

definition storable_char :: "nat \<Rightarrow> bool" where
  "storable_char c \<longleftrightarrow> storable_first c \<or> c = 46 \<or> c = 95 \<or> c = 45"

text \<open>\<open>\A[A-Za-z0-9][A-Za-z0-9._-]{0,127}\Z\<close>.\<close>

definition storable_id :: "ustr \<Rightarrow> bool" where
  "storable_id i \<longleftrightarrow>
     (case i of [] \<Rightarrow> False | c # cs \<Rightarrow> storable_first c \<and> length cs \<le> 127 \<and> list_all storable_char cs)"

definition check_storable :: "json \<Rightarrow> exn + ustr" where
  "check_storable receipt_id =
     (case receipt_id of
        JStr i \<Rightarrow>
          if \<not> storable_id i \<or> i = lit ''.'' \<or> i = lit ''..''
          then fail StorePathInvalid ''This receipt id cannot be stored as a filename: ''
          else Inr i
      | _ \<Rightarrow> Inl (PyErr PyTypeError (lit ''a receipt id must be a string'')))"

section \<open>Reading untrusted entries\<close>

definition symlink_refused :: "exn + 'a" where
  "symlink_refused = fail StorePathInvalid ''A symlink is not permitted in the store layout: ''"

definition require_directory :: "fs_path \<Rightarrow> exn \<Rightarrow> fs \<Rightarrow> exn + unit" where
  "require_directory p absent t =
     (case map_of t p of
        None \<Rightarrow> Inl absent
      | Some (Symlink d) \<Rightarrow> symlink_refused
      | Some Directory \<Rightarrow> Inr ()
      | Some _ \<Rightarrow> fail StorePathInvalid ''Not a directory: '')"

definition oversized :: "exn + 'a" where
  "oversized = fail StoreArtifactNoncanonical ''The stored file is larger than a receipt may be: ''"

definition require_regular :: "fs_path \<Rightarrow> fs \<Rightarrow> exn + unit" where
  "require_regular p t =
     (case map_of t p of
        None \<Rightarrow> Inr ()
      | Some (Symlink d) \<Rightarrow> symlink_refused
      | Some (File b) \<Rightarrow> if length b > max_receipt_bytes then oversized else Inr ()
      | Some _ \<Rightarrow> fail StorePathInvalid ''Not a regular file: '')"

text \<open>One observation classifies and reads; \<open>None\<close> means that no entry is there.\<close>

definition read_store_file :: "fs_path \<Rightarrow> fs \<Rightarrow> exn + bytes option" where
  "read_store_file p t =
     (case map_of t p of
        None \<Rightarrow> Inr None
      | Some (Symlink d) \<Rightarrow> symlink_refused
      | Some (File b) \<Rightarrow> if length b > max_receipt_bytes then oversized else Inr (Some b)
      | Some _ \<Rightarrow> fail StorePathInvalid ''Not a regular file: '')"

definition require_store_file :: "fs_path \<Rightarrow> exn \<Rightarrow> fs \<Rightarrow> exn + bytes" where
  "require_store_file p absent t =
     bindE (read_store_file p t) (\<lambda>raw. case raw of None \<Rightarrow> Inl absent | Some b \<Rightarrow> Inr b)"

definition load_canonical :: "fs_path \<Rightarrow> exn \<Rightarrow> fs \<Rightarrow> exn + json" where
  "load_canonical p absent t =
     bindE (require_store_file p absent t) (\<lambda>raw.
     bindE (load_json_bytes raw) (\<lambda>v.
     bindE (canonical_bytes (py v)) (\<lambda>b.
       if b \<noteq> raw then fail StoreArtifactNoncanonical ''Stored bytes are not canonical: '' else Inr v)))"

definition is_entry :: "fs_path \<Rightarrow> fs \<Rightarrow> bool" where
  "is_entry p t \<longleftrightarrow> map_of t p \<noteq> None"

text \<open>\<open>_entries\<close>: listing a directory that is not there, or is none, is refused.\<close>

definition store_entries :: "fs_path \<Rightarrow> fs \<Rightarrow> exn + ustr list" where
  "store_entries d t =
     (case map_of t d of
        Some Directory \<Rightarrow> Inr (names_in t d)
      | None \<Rightarrow> fail StorePathInvalid ''The store has no receipts directory: ''
      | Some _ \<Rightarrow> fail StorePathInvalid ''The store directory could not be listed: '')"

section \<open>Layout\<close>

definition reject_symlink :: "fs_path \<Rightarrow> fs \<Rightarrow> exn + unit" where
  "reject_symlink p t = (case map_of t p of Some (Symlink d) \<Rightarrow> symlink_refused | _ \<Rightarrow> Inr ())"

text \<open>\<open>mkdir(parents=True, exist_ok=True)\<close> follows a link to see whether a directory is there.\<close>

definition ensure_directory :: "fs_path \<Rightarrow> unit io" where
  "ensure_directory p =
     bindS (effect (os_mkdir p)) (\<lambda>r.
       case r of
         Inr u \<Rightarrow> returnS ()
       | Inl e \<Rightarrow>
           bindS (readS (\<lambda>t. Inr (map_of t p))) (\<lambda>found.
             if found = Some Directory \<or> found = Some (Symlink True) then returnS () else raiseS (os_failure e)))"

definition marker_document :: json where
  "marker_document = JDict [(lit ''store_format_version'', JInt 1)]"

definition initialize_layout :: "unit io" where
  "initialize_layout =
     bindS (eachS (\<lambda>child. bindS (ensure_directory child) (\<lambda>_. readS (reject_symlink child)))
              [[], receipts_dir, consumed_dir, tmp_dir]) (\<lambda>_.
     bindS (readS (\<lambda>t. Inr (is_entry marker_path t))) (\<lambda>there.
     bindS (if there then returnS ()
            else bindS (readS (\<lambda>t. canonical_bytes (py marker_document))) (write_exact marker_path)) (\<lambda>_.
     readS (require_regular marker_path))))"

definition open_store :: "unit io" where
  "open_store = bindS (readS (reject_symlink [])) (\<lambda>_. initialize_layout)"

definition require_layout :: "fs \<Rightarrow> exn + unit" where
  "require_layout t =
     bindE (require_directory [] (VErr StorePathInvalid (lit ''There is no store at '') NoDetail) t) (\<lambda>_.
     bindE (require_directory receipts_dir
              (VErr StorePathInvalid (lit ''The store has no receipts directory: '') NoDetail) t) (\<lambda>_.
     require_regular marker_path t))"

definition open_for_reading :: "fs \<Rightarrow> exn + unit" where
  "open_for_reading t = bindE (reject_symlink [] t) (\<lambda>_. require_layout t)"

section \<open>Reading records\<close>

record stored_record =
  st_receipt_id :: ustr
  st_outcome :: ustr
  st_receipt :: ustr
  st_rulebook :: ustr
  st_candidate :: ustr
  st_snapshot :: ustr
  st_authorization :: "ustr option"
  st_replay_verified :: bool
  st_authorization_verified :: bool
  st_anomalies :: "ustr list"

text \<open>\<open>try: ... except (TypeError, KeyError, ...): raise StoreRecordIncomplete\<close>.\<close>

definition not_a_receipt :: "exn + 'a \<Rightarrow> exn + 'a" where
  "not_a_receipt r =
     (case r of
        Inl (PyErr c m) \<Rightarrow> fail StoreRecordIncomplete ''The stored receipt file is not a receipt.''
      | r' \<Rightarrow> r')"

definition receipt_outcome :: "json \<Rightarrow> exn + ustr" where
  "receipt_outcome v =
     bindE (not_a_receipt (bindE (sub_lit v ''result'') (\<lambda>r. sub_lit r ''outcome''))) (\<lambda>outcome.
       case outcome of JStr s \<Rightarrow> Inr s | _ \<Rightarrow> fail StoreRecordIncomplete ''The stored receipt file is not a receipt.'')"

definition missing_record :: "ustr \<Rightarrow> exn" where
  "missing_record i = VErr StoreRecordMissing (lit ''No committed record for '' @ i) NoDetail"

definition missing_body :: "string \<Rightarrow> exn" where
  "missing_body name = VErr StoreRecordIncomplete (lit ''Record is missing '' @ lit name @ json_suffix) NoDetail"

definition required_bodies :: "ustr \<Rightarrow> json \<Rightarrow> string list" where
  "required_bodies outcome v =
     [''rulebook'', ''candidate'', ''snapshot''] @
     (if outcome = lit ''ALLOW'' \<and> optional_member v ''authorization_id'' \<noteq> None then [''authorization''] else [])"

definition load_bodies :: "ustr \<Rightarrow> string list \<Rightarrow> fs \<Rightarrow> exn + (string \<times> json) list" where
  "load_bodies i names t =
     mapE (\<lambda>name. bindE (load_canonical (inputs_path i @ [body_file name]) (missing_body name) t) (\<lambda>v.
       Inr (name, v))) names"

definition check_no_others :: "ustr \<Rightarrow> ustr \<Rightarrow> string list \<Rightarrow> fs \<Rightarrow> exn + unit" where
  "check_no_others i outcome required t =
     forE (\<lambda>name.
       if name \<notin> set required \<and> is_entry (inputs_path i @ [body_file name]) t
       then Inl (VErr StoreRecordConflict
              (lit ''A '' @ outcome @ lit '' record must not store '' @ body_file name) NoDetail)
       else Inr ()) body_names"

record verification_keys =
  vk_receipts :: "key_registry option"
  vk_schemas :: "registry option"
  vk_authorizations :: "key_registry option"
  vk_time :: "json option"

definition body :: "(string \<times> json) list \<Rightarrow> string \<Rightarrow> json" where
  "body loaded name = the (map_of loaded name)"

text \<open>The replay that \<open>get_record\<close> runs, or none: what it verified, and the anomalies it named.\<close>

definition replay_stored ::
  "externals \<Rightarrow> json \<Rightarrow> (string \<times> json) list \<Rightarrow> verification_keys option \<Rightarrow> exn + bool \<times> bool \<times> ustr list" where
  "replay_stored X v loaded verification =
     (case verification of
        None \<Rightarrow> Inr (False, False, [])
      | Some k \<Rightarrow>
          (case (vk_receipts k, vk_schemas k) of
             (Some ring, Some registry) \<Rightarrow>
               bindE (canonical_bytes (py (body loaded ''rulebook''))) (\<lambda>source.
               bindE (replay_receipt X v (Some source) (body loaded ''candidate'') (body loaded ''snapshot'') ring
                        registry (map_of loaded ''authorization'') (vk_authorizations k) (vk_time k)) (\<lambda>report.
               Inr (rp_result_matched report, rp_authorization_verified report, rp_timeline_anomalies report)))
           | _ \<Rightarrow> Inl (PyErr PyTypeError
                    (lit ''verification needs a receipt key registry and a schema registry''))))"

definition get_record :: "externals \<Rightarrow> json \<Rightarrow> verification_keys option \<Rightarrow> fs \<Rightarrow> exn + stored_record" where
  "get_record X receipt_id verification t =
     bindE (check_storable receipt_id) (\<lambda>i.
     bindE (load_canonical (receipt_path i) (missing_record i) t) (\<lambda>v.
     bindE (receipt_outcome v) (\<lambda>outcome.
     bindE (require_directory (inputs_path i)
              (VErr StoreRecordIncomplete (lit ''Record has no inputs directory: '' @ i) NoDetail) t) (\<lambda>_.
     bindE (load_bodies i (required_bodies outcome v) t) (\<lambda>loaded.
     bindE (check_no_others i outcome (required_bodies outcome v) t) (\<lambda>_.
     bindE (replay_stored X v loaded verification) (\<lambda>(replayed, authorized, anomalies).
     bindE (canon_json v) (\<lambda>c.
     bindE (canon_json (body loaded ''rulebook'')) (\<lambda>rulebook_text.
     bindE (canon_json (body loaded ''candidate'')) (\<lambda>candidate_text.
     bindE (canon_json (body loaded ''snapshot'')) (\<lambda>snapshot_text.
     bindE (case map_of loaded ''authorization'' of
              None \<Rightarrow> Inr None | Some a \<Rightarrow> bindE (canon_json a) (\<lambda>t. Inr (Some t))) (\<lambda>authorization_text.
     Inr \<lparr>st_receipt_id = i, st_outcome = outcome, st_receipt = c, st_rulebook = rulebook_text,
          st_candidate = candidate_text, st_snapshot = snapshot_text, st_authorization = authorization_text,
          st_replay_verified = replayed, st_authorization_verified = authorized, st_anomalies = anomalies\<rparr>))))))))))))"

section \<open>Listing\<close>

record receipt_summary =
  sm_receipt_id :: ustr
  sm_created_at :: ustr
  sm_outcome :: ustr
  sm_rulebook_id :: ustr
  sm_rulebook_version :: ustr
  sm_authorization_id :: "ustr option"
  sm_key_id :: ustr

record refused_record =
  rf_filename :: ustr
  rf_code :: ustr
  rf_message :: ustr

record receipt_listing =
  ls_summaries :: "receipt_summary list"
  ls_refused :: "refused_record list"

definition sub2 :: "json \<Rightarrow> string \<Rightarrow> string \<Rightarrow> exn + json" where
  "sub2 v a b = bindE (sub_lit v a) (\<lambda>w. sub_lit w b)"

definition listed_string :: "ustr \<Rightarrow> json \<Rightarrow> exn + ustr" where
  "listed_string name v =
     (case v of
        JStr s \<Rightarrow> Inr s
      | _ \<Rightarrow> Inl (VErr StoreRecordIncomplete (lit ''The stored receipt file is not a receipt: '' @ name) NoDetail))"

definition summary_of :: "ustr \<Rightarrow> fs \<Rightarrow> exn + receipt_summary" where
  "summary_of name t =
     bindE (load_canonical (receipts_dir @ [name])
              (VErr StoreRecordMissing (lit ''No committed receipt at '' @ name) NoDetail) t) (\<lambda>v.
     bindE (not_a_receipt
              (bindE (sub_lit v ''receipt_id'') (\<lambda>i.
               bindE (sub_lit v ''created_at'') (\<lambda>created.
               bindE (sub2 v ''result'' ''outcome'') (\<lambda>outcome.
               bindE (sub2 v ''rulebook'' ''rulebook_id'') (\<lambda>rulebook_id.
               bindE (sub2 v ''rulebook'' ''version'') (\<lambda>version.
               bindE (py_optional v ''authorization_id'') (\<lambda>authorization.
               bindE (sub2 v ''signature'' ''key_id'') (\<lambda>key_id.
               Inr (i, created, outcome, rulebook_id, version, authorization, key_id))))))))))
       (\<lambda>(i, created, outcome, rulebook_id, version, authorization, key_id).
     bindE (listed_string name i) (\<lambda>i.
     bindE (listed_string name created) (\<lambda>created.
     bindE (listed_string name outcome) (\<lambda>outcome.
     bindE (listed_string name rulebook_id) (\<lambda>rulebook_id.
     bindE (listed_string name version) (\<lambda>version.
     bindE (listed_string name key_id) (\<lambda>key_id.
     bindE (case authorization of
              None \<Rightarrow> Inr None | Some a \<Rightarrow> bindE (listed_string name a) (\<lambda>a. Inr (Some a))) (\<lambda>authorization.
     Inr \<lparr>sm_receipt_id = i, sm_created_at = created, sm_outcome = outcome, sm_rulebook_id = rulebook_id,
          sm_rulebook_version = version, sm_authorization_id = authorization, sm_key_id = key_id\<rparr>)))))))))"

text \<open>\<open>path.suffix == ".json"\<close>.\<close>

definition has_json_suffix :: "ustr \<Rightarrow> bool" where
  "has_json_suffix name \<longleftrightarrow>
     length json_suffix < length name \<and> drop (length name - length json_suffix) name = json_suffix"

text \<open>\<open>except VerifyError\<close> refuses the file by name; any other exception leaves the loop.\<close>

fun read_summaries ::
  "ustr list \<Rightarrow> fs \<Rightarrow> receipt_summary list \<Rightarrow> refused_record list \<Rightarrow> exn + receipt_summary list \<times> refused_record list" where
  "read_summaries [] t summaries refused = Inr (summaries, refused)"
| "read_summaries (name # names) t summaries refused =
     (if \<not> has_json_suffix name then read_summaries names t summaries refused
      else case summary_of name t of
        Inr s \<Rightarrow> read_summaries names t (summaries @ [s]) refused
      | Inl (VErr c m d) \<Rightarrow>
          read_summaries names t summaries
            (refused @ [\<lparr>rf_filename = name, rf_code = err_code c, rf_message = m\<rparr>])
      | Inl e \<Rightarrow> Inl e)"

definition listing_from_records :: "fs \<Rightarrow> exn + receipt_listing" where
  "listing_from_records t =
     bindE (store_entries receipts_dir t) (\<lambda>names.
     bindE (read_summaries names t [] []) (\<lambda>(summaries, refused).
     Inr \<lparr>ls_summaries = sort_key (\<lambda>s. (sm_created_at s, sm_receipt_id s)) summaries, ls_refused = refused\<rparr>))"

definition index_fields :: "ustr set" where
  "index_fields = {lit ''receipt_id'', lit ''created_at'', lit ''outcome'', lit ''rulebook_id'',
     lit ''rulebook_version'', lit ''authorization_id'', lit ''key_id''}"

definition index_entry_ok :: "json \<Rightarrow> exn + unit" where
  "index_entry_ok e =
     (if is_dict e \<and> set (keys (items e)) = index_fields then Inr ()
      else fail StoreIndexInvalid ''An index entry has unexpected fields.'')"

definition check_index :: "bytes \<Rightarrow> exn + unit" where
  "check_index raw =
     bindE (case load_json_bytes raw of
              Inl (VErr c m d) \<Rightarrow> fail StoreIndexInvalid ''The index is not a canonical JSON document.''
            | r \<Rightarrow> r) (\<lambda>v.
       case get_lit v ''receipts'' of
         Some (JList es) \<Rightarrow> forE index_entry_ok es
       | _ \<Rightarrow> fail StoreIndexInvalid ''The index has no receipts array.'')"

definition index_problem :: "fs \<Rightarrow> exn + refused_record option" where
  "index_problem t =
     (case bindE (read_store_file index_path t) (\<lambda>raw. case raw of None \<Rightarrow> Inr () | Some b \<Rightarrow> check_index b) of
        Inr u \<Rightarrow> Inr None
      | Inl (VErr c m d) \<Rightarrow>
          Inr (Some \<lparr>rf_filename = lit ''index.json'', rf_code = err_code c, rf_message = m\<rparr>)
      | Inl e \<Rightarrow> Inl e)"

definition listing :: "fs \<Rightarrow> exn + receipt_listing" where
  "listing t =
     bindE (listing_from_records t) (\<lambda>l.
     bindE (index_problem t) (\<lambda>problem.
       case problem of
         None \<Rightarrow> Inr l
       | Some p \<Rightarrow> Inr (l\<lparr>ls_refused := ls_refused l @ [p]\<rparr>)))"

definition list_receipts :: "fs \<Rightarrow> exn + receipt_summary list" where
  "list_receipts t = bindE (listing t) (\<lambda>l. Inr (ls_summaries l))"

record store_scan =
  sc_abandoned_staging :: "ustr list"
  sc_orphaned_inputs :: "ustr list"

definition has_inputs_suffix :: "ustr \<Rightarrow> bool" where
  "has_inputs_suffix name \<longleftrightarrow>
     length inputs_suffix \<le> length name \<and> drop (length name - length inputs_suffix) name = inputs_suffix"

definition scan :: "fs \<Rightarrow> exn + store_scan" where
  "scan t =
     bindE (store_entries tmp_dir t) (\<lambda>staging.
     bindE (store_entries receipts_dir t) (\<lambda>names.
     Inr \<lparr>sc_abandoned_staging = staging,
          sc_orphaned_inputs =
            filter (\<lambda>i. \<not> is_entry (receipt_path i) t)
              (map (\<lambda>n. take (length n - length inputs_suffix) n) (filter has_inputs_suffix names))\<rparr>))"

section \<open>The index\<close>

definition summary_document :: "receipt_summary \<Rightarrow> json" where
  "summary_document s =
     JDict [(lit ''receipt_id'', JStr (sm_receipt_id s)), (lit ''created_at'', JStr (sm_created_at s)),
            (lit ''outcome'', JStr (sm_outcome s)), (lit ''rulebook_id'', JStr (sm_rulebook_id s)),
            (lit ''rulebook_version'', JStr (sm_rulebook_version s)),
            (lit ''authorization_id'', case sm_authorization_id s of None \<Rightarrow> JNull | Some a \<Rightarrow> JStr a),
            (lit ''key_id'', JStr (sm_key_id s))]"

definition index_document :: "receipt_summary list \<Rightarrow> json" where
  "index_document summaries =
     JDict [(lit ''store_format_version'', JInt 1), (lit ''receipts'', JList (map summary_document summaries))]"

definition index_slot :: "nat \<Rightarrow> fs_path" where
  "index_slot k = tmp_dir @ [lit ''index.'' @ dec k @ lit ''.staging'']"

text \<open>The first of the given slots that exclusive creation gets; \<open>other\<close> is any other failure.\<close>

fun claim_slot :: "fs_path list \<Rightarrow> (os_error \<Rightarrow> exn) \<Rightarrow> exn \<Rightarrow> fs_path io" where
  "claim_slot [] other full = raiseS full"
| "claim_slot (p # ps) other full =
     bindS (effect (os_create p)) (\<lambda>r.
       case r of Inr u \<Rightarrow> returnS p | Inl EExist \<Rightarrow> claim_slot ps other full | Inl e \<Rightarrow> raiseS (other e))"

definition index_staging_slot :: "fs_path io" where
  "index_staging_slot =
     claim_slot (map index_slot [0..<index_slots]) os_failure
       (VErr StoreCommitConflict (lit ''Every index staging slot is occupied; scan the store.'') NoDetail)"

definition write_index :: "receipt_summary list \<Rightarrow> unit io" where
  "write_index summaries =
     bindS (readS (reject_symlink index_path)) (\<lambda>_.
     bindS index_staging_slot (\<lambda>staging.
     catchS (bindS (readS (\<lambda>t. canonical_bytes (py (index_document summaries)))) (\<lambda>b.
             bindS (write_exact staging b) (\<lambda>_. callS (os_rename staging index_path))))
       (\<lambda>e. bindS (unlink_if_there staging) (\<lambda>_. raiseS e))))"

definition rebuild_index :: "receipt_summary list io" where
  "rebuild_index =
     bindS (readS listing_from_records) (\<lambda>l.
     bindS (write_index (ls_summaries l)) (\<lambda>_. returnS (ls_summaries l)))"

text \<open>\<open>except (OSError, VerifyError): pass\<close>.\<close>

fun cache_failure :: "exn \<Rightarrow> bool" where
  "cache_failure (VErr c m d) = True"
| "cache_failure (PyErr c m) = (c = PyOSError)"

definition refresh_index :: "unit io" where
  "refresh_index =
     catchS (bindS (readS listing_from_records) (\<lambda>l. write_index (ls_summaries l)))
       (\<lambda>e. if cache_failure e then returnS () else raiseS e)"

end
