(* ===== verification/Commit.thy ===== *)
theory Commit
  imports Store
begin

text \<open>
  \<^verbatim>\<open>src/vfy/store.py\<close>, the operations that commit: storing a record, spending an authorization, and
  keeping the receipt of an action whose record could not be committed.
\<close>

section \<open>Storing a record\<close>

definition record_bodies ::
  "frozen_receipt \<Rightarrow> loaded_rulebook \<Rightarrow> json \<Rightarrow> frozen_snapshot \<Rightarrow> frozen_authorization option \<Rightarrow>
   exn + (string \<times> ustr) list" where
  "record_bodies receipt pinned candidate snapshot authorization =
     bindE (canon_json candidate) (\<lambda>candidate_text.
       let bodies = [(''rulebook'', rb_canonical pinned), (''candidate'', candidate_text),
                     (''snapshot'', sn_canonical snapshot)]
       in if rc_outcome receipt = lit ''ALLOW''
          then Inr (bodies @ (case authorization of None \<Rightarrow> [] | Some a \<Rightarrow> [(''authorization'', au_canonical a)]))
          else if authorization \<noteq> None
          then Inl (VErr StoreRecordConflict
            (lit ''A '' @ rc_outcome receipt @ lit '' decision authorizes nothing, so it stores no authorization.'') NoDetail)
          else Inr bodies)"

definition check_stored_body :: "ustr \<Rightarrow> fs \<Rightarrow> string \<times> ustr \<Rightarrow> exn + unit" where
  "check_stored_body i t = (\<lambda>(name, text).
     bindE (require_store_file (inputs_path i @ [body_file name])
              (VErr StoreRecordIncomplete (lit ''Stored record is missing '' @ lit name) NoDetail) t) (\<lambda>stored.
     bindE (utf8_bytes text) (\<lambda>b.
       if stored \<noteq> b
       then Inl (VErr StoreRecordConflict
         (lit ''A different '' @ lit name @ lit '' is stored under '' @ i) NoDetail)
       else Inr ())))"

definition idempotent_or_conflict ::
  "externals \<Rightarrow> ustr \<Rightarrow> frozen_receipt \<Rightarrow> (string \<times> ustr) list \<Rightarrow> fs \<Rightarrow> exn + stored_record" where
  "idempotent_or_conflict X i receipt bodies t =
     bindE (require_store_file (receipt_path i) (missing_record i) t) (\<lambda>existing.
     bindE (utf8_bytes (rc_canonical receipt)) (\<lambda>b.
       if existing \<noteq> b
       then fail_with StoreRecordConflict ''A different receipt is already stored under '' i
       else
         bindE (forE (check_stored_body i t) bodies) (\<lambda>_. get_record X (JStr i) None t)))"

definition staging_path :: "ustr \<Rightarrow> fs_path" where
  "staging_path i = tmp_dir @ [i @ lit ''.staging'']"

definition staged_receipt :: "ustr \<Rightarrow> fs_path" where
  "staged_receipt i = tmp_dir @ [i @ lit ''.json.staged'']"

definition write_text :: "fs_path \<Rightarrow> ustr \<Rightarrow> unit io" where
  "write_text p text = bindS (readS (\<lambda>t. utf8_bytes text)) (write_exact p)"

definition check_written :: "fs_path \<Rightarrow> ustr \<Rightarrow> fs \<Rightarrow> exn + unit" where
  "check_written p text t =
     (case map_of t p of
        Some (File c) \<Rightarrow>
          bindE (utf8_bytes text) (\<lambda>b.
            if c \<noteq> b then fail StoreCommitConflict ''A staged body did not write as written.'' else Inr ())
      | _ \<Rightarrow> Inl (os_failure EOther))"

definition commit_record :: "ustr \<Rightarrow> ustr \<Rightarrow> (string \<times> ustr) list \<Rightarrow> unit io" where
  "commit_record i receipt_text bodies =
     bindS (eachS (\<lambda>(name, text). write_text (staging_path i @ [body_file name]) text) bodies) (\<lambda>_.
     bindS (write_text (staging_path i @ [lit ''receipt.json'']) receipt_text) (\<lambda>_.
     bindS (eachS (\<lambda>(name, text). readS (check_written (staging_path i @ [body_file name]) text)) bodies) (\<lambda>_.
     bindS (readS (\<lambda>t. Inr (is_entry (inputs_path i) t))) (\<lambda>there.
       if there
       then raiseS (VErr StoreCommitConflict (lit ''An inputs directory already exists for '' @ i) NoDetail)
       else
         bindS (callS (os_rename (staging_path i @ [lit ''receipt.json'']) (staged_receipt i))) (\<lambda>_.
         bindS (callS (os_rename (staging_path i) (inputs_path i))) (\<lambda>_.
         callS (os_rename (staged_receipt i) (receipt_path i))))))))"

text \<open>\<open>except OSError as failure: raise StoreCommitConflict\<close>.\<close>

definition commit_failure :: "string \<Rightarrow> exn \<Rightarrow> 'a io" where
  "commit_failure message e =
     (case e of
        PyErr PyOSError m \<Rightarrow> raiseS (VErr StoreCommitConflict (lit message) NoDetail)
      | _ \<Rightarrow> raiseS e)"

definition put_record ::
  "externals \<Rightarrow> frozen_receipt \<Rightarrow> loaded_rulebook \<Rightarrow> json \<Rightarrow> frozen_snapshot \<Rightarrow> frozen_authorization option \<Rightarrow>
   stored_record io" where
  "put_record X receipt pinned candidate snapshot authorization =
     bindS (readS (\<lambda>t. check_storable (rc_id receipt))) (\<lambda>i.
     bindS (readS (\<lambda>t. record_bodies receipt pinned candidate snapshot authorization)) (\<lambda>bodies.
     bindS (readS (\<lambda>t. Inr (is_entry (receipt_path i) t))) (\<lambda>there.
       if there then readS (idempotent_or_conflict X i receipt bodies)
       else
         bindS (effect (os_mkdir (staging_path i))) (\<lambda>made.
           case made of
             Inl EExist \<Rightarrow> raiseS (VErr StoreCommitConflict (lit ''A staging path already exists for '' @ i) NoDetail)
           | Inl e \<Rightarrow> raiseS (os_failure e)
           | Inr u \<Rightarrow>
               bindS (catchS (commit_record i (rc_canonical receipt) bodies)
                        (commit_failure ''The record could not be committed: '')) (\<lambda>_.
               bindS refresh_index (\<lambda>_.
               readS (get_record X (JStr i) None)))))))"

section \<open>Spending an authorization\<close>

record consumption_record =
  cr_nonce :: json
  cr_authorization_id :: json
  cr_action_digest :: json

text \<open>The entry that a spent authorization leaves, and the digest that names it.\<close>

definition consumption_entry :: "externals \<Rightarrow> json \<Rightarrow> exn + ustr \<times> json" where
  "consumption_entry X v =
     bindE (sub_lit v ''nonce'') (\<lambda>nonce.
     bindE (nonce_digest X nonce) (\<lambda>d.
     bindE (sub_lit v ''authorization_id'') (\<lambda>i.
     bindE (sub_lit v ''action_digest'') (\<lambda>action.
     bindE (sub_lit v ''rulebook_digest'') (\<lambda>rules.
     bindE (sub_lit v ''evidence_digest'') (\<lambda>evidence.
     Inr (d, JDict [(lit ''nonce'', nonce), (lit ''authorization_id'', i), (lit ''action_digest'', action),
            (lit ''rulebook_digest'', rules), (lit ''evidence_digest'', evidence)])))))))"

definition consumption_slot :: "ustr \<Rightarrow> nat \<Rightarrow> fs_path" where
  "consumption_slot d k = tmp_dir @ [lit ''consume-'' @ d @ lit ''.'' @ dec k]"

definition stage_consumption :: "ustr \<Rightarrow> bytes \<Rightarrow> fs_path io" where
  "stage_consumption d payload =
     bindS (claim_slot (map (consumption_slot d) [0..<consumption_slots])
              (\<lambda>e. VErr StoreCommitConflict (lit ''The consumption record could not be staged: '') NoDetail)
              (VErr StoreCommitConflict
                 (lit ''Every consumption staging slot for this nonce is occupied; scan the store.'') NoDetail)) (\<lambda>staged.
     bindS (callS (os_write staged payload)) (\<lambda>_. returnS staged))"

definition nonce_spent :: exn where
  "nonce_spent = VErr AuthorizationNonceReused (lit ''This authorization's nonce has already been consumed.'') NoDetail"

text \<open>What a second attempt finds: the same record, or another one.\<close>

definition already_consumed :: "ustr \<Rightarrow> json \<Rightarrow> fs \<Rightarrow> exn + 'a" where
  "already_consumed d entry t =
     bindE (load_canonical (consumption_path d)
              (VErr StoreRecordMissing (lit ''No stored file at '') NoDetail) t) (\<lambda>existing.
       if \<not> py_eq existing entry
       then fail StoreConsumptionConflict ''A different authorization already consumed this nonce.''
       else Inl nonce_spent)"

definition publish_consumption :: "fs_path \<Rightarrow> ustr \<Rightarrow> json \<Rightarrow> unit io" where
  "publish_consumption staged d entry =
     bindS (effect (os_link staged (consumption_path d))) (\<lambda>r.
       case r of
         Inr u \<Rightarrow> returnS ()
       | Inl EExist \<Rightarrow> readS (already_consumed d entry)
       | Inl e \<Rightarrow> raiseS (VErr StoreCommitConflict (lit ''The consumption record could not be committed: '') NoDetail))"

definition consumed_record :: "json \<Rightarrow> exn + consumption_record" where
  "consumed_record entry =
     bindE (sub_lit entry ''nonce'') (\<lambda>nonce.
     bindE (sub_lit entry ''authorization_id'') (\<lambda>i.
     bindE (sub_lit entry ''action_digest'') (\<lambda>action.
     Inr \<lparr>cr_nonce = nonce, cr_authorization_id = i, cr_action_digest = action\<rparr>)))"

definition consume_once :: "externals \<Rightarrow> frozen_authorization \<Rightarrow> consumption_record io" where
  "consume_once X authorization =
     bindS (readS (\<lambda>t. bindE (authorization_value authorization) (consumption_entry X))) (\<lambda>(d, entry).
     bindS (readS (\<lambda>t. canonical_bytes (py entry))) (\<lambda>payload.
     bindS (stage_consumption d payload) (\<lambda>staged.
     bindS (finallyS (publish_consumption staged d entry) (unlink_if_there staged)) (\<lambda>_.
     readS (\<lambda>t. consumed_record entry)))))"

definition is_consumed :: "externals \<Rightarrow> json \<Rightarrow> fs \<Rightarrow> exn + bool" where
  "is_consumed X nonce t = bindE (nonce_digest X nonce) (\<lambda>d. Inr (is_entry (consumption_path d) t))"

section \<open>Keeping an unrecorded receipt\<close>

definition unrecorded_file :: "ustr \<Rightarrow> fs_path" where
  "unrecorded_file i = tmp_dir @ [i @ lit ''.unrecorded.json'']"

definition unrecorded_path :: "json \<Rightarrow> exn + fs_path" where
  "unrecorded_path receipt_id = bindE (check_storable receipt_id) (\<lambda>i. Inr (unrecorded_file i))"

definition unrecorded_staging :: "ustr \<Rightarrow> fs_path" where
  "unrecorded_staging i = tmp_dir @ [i @ lit ''.unrecorded.json.partial'']"

definition preserve_unrecorded :: "frozen_receipt \<Rightarrow> fs_path io" where
  "preserve_unrecorded receipt =
     bindS (readS (\<lambda>t. check_storable (rc_id receipt))) (\<lambda>i.
     bindS (readS (\<lambda>t. utf8_bytes (rc_canonical receipt))) (\<lambda>payload.
     bindS (readS (read_store_file (unrecorded_file i))) (\<lambda>preserved.
       case preserved of
         Some b \<Rightarrow>
           if b \<noteq> payload
           then raiseS (VErr StoreRecordConflict
             (lit ''A different unrecorded receipt is already preserved under '' @ i) NoDetail)
           else returnS (unrecorded_file i)
       | None \<Rightarrow>
           bindS (effect (os_create (unrecorded_staging i))) (\<lambda>r.
             case r of
               Inl e \<Rightarrow> raiseS (VErr StoreCommitConflict (lit ''The unrecorded receipt could not be staged: '') NoDetail)
             | Inr u \<Rightarrow>
                 bindS (catchS (bindS (callS (os_write (unrecorded_staging i) payload)) (\<lambda>_.
                                callS (os_rename (unrecorded_staging i) (unrecorded_file i))))
                          (\<lambda>e. bindS (unlink_if_there (unrecorded_staging i)) (\<lambda>_.
                             commit_failure ''The unrecorded receipt could not be preserved: '' e))) (\<lambda>_.
                 returnS (unrecorded_file i))))))"

end
