(* ===== verification/Effects.thy ===== *)
theory Effects
  imports Commit
begin

text \<open>
  Reasoning about the computations of theory \<open>Files\<close>: a triple whose second postcondition holds
  wherever the computation raises or the host stops, rules for its combinators, and what each system
  call does to the tree.
\<close>

definition ensures ::
  "(fs \<Rightarrow> bool) \<Rightarrow> 'a io \<Rightarrow> ('a \<Rightarrow> fs \<Rightarrow> bool) \<Rightarrow> (fs \<Rightarrow> bool) \<Rightarrow> (fs \<Rightarrow> bool) \<Rightarrow> bool" where
  "ensures P m Q E S \<longleftrightarrow>
     (\<forall>h. P (h_fs h) \<longrightarrow>
       (case m h of (Returned x, h') \<Rightarrow> Q x (h_fs h') | (Raised e, h') \<Rightarrow> E (h_fs h') | (Stopped, h') \<Rightarrow> S (h_fs h')))"

lemma ensuresD:
  assumes "ensures P m Q E S" "P (h_fs h)" "m h = (r, h')"
  shows "case r of Returned x \<Rightarrow> Q x (h_fs h') | Raised e \<Rightarrow> E (h_fs h') | Stopped \<Rightarrow> S (h_fs h')"
  using assms unfolding ensures_def by (cases r) fastforce+

lemma ensuresI:
  "(\<And>h r h'. P (h_fs h) \<Longrightarrow> m h = (r, h') \<Longrightarrow>
     case r of Returned x \<Rightarrow> Q x (h_fs h') | Raised e \<Rightarrow> E (h_fs h') | Stopped \<Rightarrow> S (h_fs h')) \<Longrightarrow> ensures P m Q E S"
  unfolding ensures_def by (fastforce split: prod.split outcome.split)

lemma ensures_weaken:
  assumes "ensures P m Q E S" "\<And>t. P' t \<Longrightarrow> P t" "\<And>x t. Q x t \<Longrightarrow> Q' x t" "\<And>t. E t \<Longrightarrow> E' t" "\<And>t. S t \<Longrightarrow> S' t"
  shows "ensures P' m Q' E' S'"
proof (rule ensuresI)
  fix h r h' assume "P' (h_fs h)" "m h = (r, h')"
  with ensuresD [OF assms(1)] assms(2)
  have "case r of Returned x \<Rightarrow> Q x (h_fs h') | Raised e \<Rightarrow> E (h_fs h') | Stopped \<Rightarrow> S (h_fs h')" by blast
  with assms(3-5) show "case r of Returned x \<Rightarrow> Q' x (h_fs h') | Raised e \<Rightarrow> E' (h_fs h') | Stopped \<Rightarrow> S' (h_fs h')"
    by (auto split: outcome.splits)
qed

lemma ensures_return: "(\<And>t. P t \<Longrightarrow> Q x t) \<Longrightarrow> ensures P (returnS x) Q E S"
  by (simp add: ensures_def returnS_def)

lemma ensures_raise: "(\<And>t. P t \<Longrightarrow> E t) \<Longrightarrow> ensures P (raiseS e) Q E S"
  by (simp add: ensures_def raiseS_def)

lemma ensures_read:
  "(\<And>t x. P t \<Longrightarrow> f t = Inr x \<Longrightarrow> Q x t) \<Longrightarrow> (\<And>t e. P t \<Longrightarrow> f t = Inl e \<Longrightarrow> E t) \<Longrightarrow> ensures P (readS f) Q E S"
  by (auto simp: ensures_def readS_def split: sum.split)

lemma ensures_bind:
  assumes "ensures P m M E S" "\<And>x. ensures (M x) (f x) Q E S"
  shows "ensures P (bindS m f) Q E S"
proof (rule ensuresI)
  fix h r h' assume p: "P (h_fs h)" and b: "bindS m f h = (r, h')"
  obtain r1 h1 where m: "m h = (r1, h1)" by force
  note d = ensuresD [OF assms(1) p m]
  show "case r of Returned x \<Rightarrow> Q x (h_fs h') | Raised e \<Rightarrow> E (h_fs h') | Stopped \<Rightarrow> S (h_fs h')"
  proof (cases r1)
    case (Returned x)
    with d have "M x (h_fs h1)" by simp
    moreover have "f x h1 = (r, h')" using b m Returned by (simp add: bindS_def)
    ultimately show ?thesis using ensuresD [OF assms(2)] by blast
  qed (use d b m in \<open>auto simp: bindS_def\<close>)
qed

lemma ensures_effect:
  "(\<And>t r t'. P t \<Longrightarrow> f t = (r, t') \<Longrightarrow> Q r t') \<Longrightarrow> (\<And>t. P t \<Longrightarrow> S t) \<Longrightarrow> ensures P (effect f) Q E S"
  by (auto simp: ensures_def effect_def split: prod.split)

lemma ensures_call:
  assumes "\<And>t t'. P t \<Longrightarrow> f t = (Inr (), t') \<Longrightarrow> Q () t'" "\<And>t e t'. P t \<Longrightarrow> f t = (Inl e, t') \<Longrightarrow> E t'"
    "\<And>t. P t \<Longrightarrow> S t"
  shows "ensures P (callS f) Q E S"
  unfolding callS_def
proof (rule ensures_bind)
  show "ensures P (effect f) (\<lambda>r t'. case r of Inr u \<Rightarrow> Q () t' | Inl e \<Rightarrow> E t') E S"
    using assms by (intro ensures_effect) (auto split: sum.split)
  show "ensures (\<lambda>t'. case r of Inr u \<Rightarrow> Q () t' | Inl e \<Rightarrow> E t')
      (case r of Inr u \<Rightarrow> returnS () | Inl e \<Rightarrow> raiseS (os_failure e)) Q E S" for r
    by (cases r) (auto intro: ensures_return ensures_raise)
qed

lemma bind_read [simp]:
  "bindS (readS (\<lambda>t. Inr x)) f = f x"
  "bindS (readS (\<lambda>t. Inl e)) f = raiseS e"
  by (simp_all add: fun_eq_iff bindS_def readS_def raiseS_def)

text \<open>A handler sees what holds where the body raised; \<open>finally\<close> sees both ends.\<close>

lemma ensures_catch:
  assumes "ensures P m Q M S" "\<And>e. ensures M (handler e) Q E S"
  shows "ensures P (catchS m handler) Q E S"
proof (rule ensuresI)
  fix h r h' assume p: "P (h_fs h)" and b: "catchS m handler h = (r, h')"
  obtain r1 h1 where m: "m h = (r1, h1)" by force
  note d = ensuresD [OF assms(1) p m]
  show "case r of Returned x \<Rightarrow> Q x (h_fs h') | Raised e \<Rightarrow> E (h_fs h') | Stopped \<Rightarrow> S (h_fs h')"
  proof (cases r1)
    case (Raised e)
    with d have "M (h_fs h1)" by simp
    moreover have "handler e h1 = (r, h')" using b m Raised by (simp add: catchS_def)
    ultimately show ?thesis using ensuresD [OF assms(2)] by blast
  qed (use d b m in \<open>auto simp: catchS_def\<close>)
qed

lemma ensures_finally:
  assumes "ensures P m M N S" "\<And>x. ensures (M x) f (\<lambda>u. Q x) E S" "ensures N f (\<lambda>u. E) E S"
  shows "ensures P (finallyS m f) Q E S"
proof (rule ensuresI)
  fix h r h' assume p: "P (h_fs h)" and b: "finallyS m f h = (r, h')"
  obtain r1 h1 where m: "m h = (r1, h1)" by force
  note d = ensuresD [OF assms(1) p m]
  obtain r2 h2 where f: "f h1 = (r2, h2)" by force
  show "case r of Returned x \<Rightarrow> Q x (h_fs h') | Raised e \<Rightarrow> E (h_fs h') | Stopped \<Rightarrow> S (h_fs h')"
  proof (cases r1)
    case (Returned x)
    with ensuresD [OF assms(2) _ f] d b m f show ?thesis
      by (auto simp: finallyS_def split: outcome.splits)
  next
    case (Raised e)
    with ensuresD [OF assms(3) _ f] d b m f show ?thesis
      by (auto simp: finallyS_def split: outcome.splits)
  next
    case Stopped
    with d b m show ?thesis by (auto simp: finallyS_def)
  qed
qed

lemma ensures_each:
  assumes "\<And>x. x \<in> set xs \<Longrightarrow> ensures I (f x) (\<lambda>_. I) I I"
  shows "ensures I (eachS f xs) (\<lambda>_. I) I I"
  using assms
proof (induction xs)
  case (Cons x xs)
  then show ?case by (auto intro!: ensures_bind [where M = "\<lambda>_. I"])
qed (simp add: ensures_return)

section \<open>Answering within a number of effects\<close>

text \<open>The host still has that many effects before it stops, if it stops at all.\<close>

definition can_take :: "nat \<Rightarrow> host \<Rightarrow> bool" where
  "can_take n h \<longleftrightarrow> (\<forall>m. h_left h = Some m \<longrightarrow> n \<le> m)"

text \<open>With at most \<open>n\<close> effects the computation ends, and its outcome and tree are as stated.\<close>

definition answers :: "nat \<Rightarrow> (fs \<Rightarrow> bool) \<Rightarrow> 'a io \<Rightarrow> ('a outcome \<Rightarrow> fs \<Rightarrow> bool) \<Rightarrow> bool" where
  "answers n P m Q \<longleftrightarrow>
     (\<forall>h k. P (h_fs h) \<longrightarrow> can_take (n + k) h \<longrightarrow>
        (\<exists>r h'. m h = (r, h') \<and> r \<noteq> Stopped \<and> Q r (h_fs h') \<and> can_take k h'))"

lemma answersD:
  assumes "answers n P m Q" "P (h_fs h)" "can_take (n + k) h"
  obtains r h' where "m h = (r, h')" "r \<noteq> Stopped" "Q r (h_fs h')" "can_take k h'"
  using assms unfolding answers_def by blast

lemma can_take_less: "can_take n h \<Longrightarrow> k \<le> n \<Longrightarrow> can_take k h"
  by (auto simp: can_take_def)

lemma answers_weaken:
  assumes "answers n P m Q" "n \<le> n'" "\<And>t. P' t \<Longrightarrow> P t" "\<And>r t. Q r t \<Longrightarrow> Q' r t"
  shows "answers n' P' m Q'"
  unfolding answers_def
proof (intro allI impI)
  fix h k assume "P' (h_fs h)" "can_take (n' + k) h"
  then have "P (h_fs h)" "can_take (n + k) h" using assms(2,3) can_take_less by auto
  then show "\<exists>r h'. m h = (r, h') \<and> r \<noteq> Stopped \<and> Q' r (h_fs h') \<and> can_take k h'"
    using assms(1,4) unfolding answers_def by blast
qed

lemma answers_vacuous: "(\<And>t. \<not> P t) \<Longrightarrow> answers n P m Q"
  by (simp add: answers_def)

lemma answers_return: "(\<And>t. P t \<Longrightarrow> Q (Returned x) t) \<Longrightarrow> answers n P (returnS x) Q"
  by (auto simp: answers_def returnS_def intro: can_take_less)

lemma answers_raise: "(\<And>t. P t \<Longrightarrow> Q (Raised e) t) \<Longrightarrow> answers n P (raiseS e) Q"
  by (auto simp: answers_def raiseS_def intro: can_take_less)

lemma answers_read:
  "(\<And>t. P t \<Longrightarrow> Q (case f t of Inr x \<Rightarrow> Returned x | Inl e \<Rightarrow> Raised e) t) \<Longrightarrow> answers n P (readS f) Q"
  by (fastforce simp: answers_def readS_def split: sum.split intro: can_take_less)

lemma answers_effect:
  assumes "\<And>t. P t \<Longrightarrow> Q (Returned (fst (f t))) (snd (f t))"
  shows "answers (Suc n) P (effect f) Q"
  unfolding answers_def
proof (intro allI impI)
  fix h k assume p: "P (h_fs h)" and c: "can_take (Suc n + k) h"
  obtain r t where f: "f (h_fs h) = (r, t)" by force
  let ?h = "h\<lparr>h_fs := t, h_left := map_option (\<lambda>n. n - 1) (h_left h)\<rparr>"
  have "effect f h = (Returned r, ?h)" using c f by (auto simp: effect_def can_take_def)
  moreover have "can_take k ?h" using c by (auto simp: can_take_def)
  ultimately show "\<exists>r h'. effect f h = (r, h') \<and> r \<noteq> Stopped \<and> Q r (h_fs h') \<and> can_take k h'"
    using assms [OF p] f by auto
qed

lemma answers_bind:
  assumes "answers n P m M" "\<And>x. answers k (M (Returned x)) (f x) Q" "\<And>e t. M (Raised e) t \<Longrightarrow> Q (Raised e) t"
  shows "answers (n + k) P (bindS m f) Q"
  unfolding answers_def
proof (intro allI impI)
  fix h j assume p: "P (h_fs h)" and c: "can_take (n + k + j) h"
  from c have "can_take (n + (k + j)) h" by (simp add: add.assoc)
  from answersD [OF assms(1) p this] obtain r h1
    where m: "m h = (r, h1)" "r \<noteq> Stopped" "M r (h_fs h1)" "can_take (k + j) h1" .
  show "\<exists>r h'. bindS m f h = (r, h') \<and> r \<noteq> Stopped \<and> Q r (h_fs h') \<and> can_take j h'"
  proof (cases r)
    case (Returned x)
    with m have "M (Returned x) (h_fs h1)" by simp
    from answersD [OF assms(2) this m(4)] obtain r2 h2
      where "f x h1 = (r2, h2)" "r2 \<noteq> Stopped" "Q r2 (h_fs h2)" "can_take j h2" .
    then show ?thesis using m Returned by (simp add: bindS_def)
  next
    case (Raised e)
    then show ?thesis using m assms(3) can_take_less by (fastforce simp: bindS_def)
  qed (use m in simp)
qed

lemma answers_finally:
  assumes "answers n P m M" "\<And>r. answers k (M r) f (\<lambda>o' t. o' = Returned () \<and> Q r t)"
  shows "answers (n + k) P (finallyS m f) Q"
  unfolding answers_def
proof (intro allI impI)
  fix h j assume p: "P (h_fs h)" and c: "can_take (n + k + j) h"
  from c have "can_take (n + (k + j)) h" by (simp add: add.assoc)
  from answersD [OF assms(1) p this] obtain r h1
    where m: "m h = (r, h1)" "r \<noteq> Stopped" "M r (h_fs h1)" "can_take (k + j) h1" .
  from answersD [OF assms(2) m(3,4)] obtain h2
    where "f h1 = (Returned (), h2)" "Q r (h_fs h2)" "can_take j h2" by metis
  then show "\<exists>r h'. finallyS m f h = (r, h') \<and> r \<noteq> Stopped \<and> Q r (h_fs h') \<and> can_take j h'"
    using m by (cases r) (auto simp: finallyS_def)
qed

section \<open>What the system calls do\<close>

lemma os_mkdir_Inr: "os_mkdir p t = (Inr u, t') \<longleftrightarrow> map_of t p = None \<and> parent_ok t p \<and> t' = dset p Directory t"
  by (auto simp: os_mkdir_def)

lemma os_create_Inr: "os_create p t = (Inr u, t') \<longleftrightarrow> map_of t p = None \<and> parent_ok t p \<and> t' = dset p (File []) t"
  by (auto simp: os_create_def)

lemma os_link_Inr:
  "os_link src dst t = (Inr u, t') \<longleftrightarrow>
     (\<exists>e. map_of t src = Some e \<and> e \<noteq> Directory \<and> map_of t dst = None \<and> parent_ok t dst \<and> t' = dset dst e t)"
  by (auto simp: os_link_def split: option.split entry.split)

lemma os_write_Inr:
  "os_write p b t = (Inr u, t') \<longleftrightarrow> (\<exists>old. map_of t p = Some (File old) \<and> t' = dset p (File (old @ b)) t)"
  by (auto simp: os_write_def split: option.split entry.split)

lemma os_truncate_Inr: "os_truncate p t = (Inr u, t') \<Longrightarrow> t' = dset p (File []) t"
  by (auto simp: os_truncate_def split: option.splits entry.splits if_split_asm)

lemma os_unlink_Inr: "os_unlink p t = (Inr u, t') \<Longrightarrow> t' = dwithout p t"
  by (auto simp: os_unlink_def split: option.splits entry.splits)

lemma os_Inl:
  "os_mkdir p t = (Inl e, t') \<Longrightarrow> t' = t" "os_create p t = (Inl e, t') \<Longrightarrow> t' = t"
  "os_truncate p t = (Inl e, t') \<Longrightarrow> t' = t" "os_write p b t = (Inl e, t') \<Longrightarrow> t' = t"
  "os_unlink p t = (Inl e, t') \<Longrightarrow> t' = t" "os_link p q t = (Inl e, t') \<Longrightarrow> t' = t"
  "os_rename p q t = (Inl e, t') \<Longrightarrow> t' = t"
  by (auto simp: os_mkdir_def os_create_def os_truncate_def os_write_def os_unlink_def os_link_def os_rename_def
      split: option.splits entry.splits if_split_asm)

lemma rename_file:
  assumes "os_rename src dst t = (Inr u, t')" "map_of t src = Some (File b)" "src \<noteq> dst"
  shows "map_of t' = (map_of t)(src := None, dst := Some (File b)) \<and> parent_ok t dst"
  using assms by (auto simp: os_rename_def split: if_split_asm)

text \<open>A directory moves with all that is beneath it; nothing else changes.\<close>

lemma map_of_moved:
  assumes "\<And>p. p \<in> set (keys t) \<Longrightarrow> f p = f q \<longleftrightarrow> p = q"
  shows "map_of (map (\<lambda>(p, e). (f p, e)) t) (f q) = map_of t q"
  using assms
proof (induction t)
  case (Cons a t)
  obtain p e where a: "a = (p, e)" by force
  have "f p = f q \<longleftrightarrow> p = q" using Cons.prems a by (auto simp: keys_def)
  moreover have "map_of (map (\<lambda>(p, e). (f p, e)) t) (f q) = map_of t q"
    using Cons by (auto simp: keys_def)
  ultimately show ?case using a by auto
qed simp

lemma beneath_iff: "beneath p q \<longleftrightarrow> (\<exists>x. x \<noteq> [] \<and> q = p @ x)"
proof
  assume "beneath p q"
  then show "\<exists>x. x \<noteq> [] \<and> q = p @ x"
    unfolding beneath_def by (intro exI [of _ "drop (length p) q"]) (metis append_take_drop_id drop_eq_Nil not_less)
qed (auto simp: beneath_def)

lemma rename_directory:
  assumes r: "os_rename src dst t = (Inr u, t')" and d: "map_of t src = Some Directory" and n: "src \<noteq> dst"
  shows "map_of t' (dst @ x) = map_of t (src @ x)"
    and "\<And>q. q \<noteq> src \<Longrightarrow> q \<noteq> dst \<Longrightarrow> \<not> beneath src q \<Longrightarrow> \<not> beneath dst q \<Longrightarrow> map_of t' q = map_of t q"
    and "parent_ok t dst"
proof -
  let ?t = "dwithout dst t"
  from r d n have t': "t' = map (\<lambda>(p, e). (moved src dst p, e)) ?t" and
    free: "\<not> list_ex (\<lambda>(p, e). beneath dst p) t" and nb: "\<not> beneath src dst" and pa: "parent_ok t dst"
    by (auto simp: os_rename_def split: if_split_asm)
  show "parent_ok t dst" by (rule pa)
  have out: "p \<noteq> dst \<and> \<not> beneath dst p" if "p \<in> set (keys ?t)" for p
    using that free by (auto simp: keys_def dwithout_def list_ex_iff)
  have inj: "moved src dst p = moved src dst q \<longleftrightarrow> p = q"
    if "p \<in> set (keys ?t)" "q \<noteq> dst" "\<not> beneath dst q" for p q
    using out [OF that(1)] that(2,3) by (auto simp: moved_def beneath_iff)
  have nd: "\<not> beneath dst src" using free map_of_SomeD [OF d] by (auto simp: list_ex_iff)
  have apart: "src @ x \<noteq> dst \<and> \<not> beneath dst (src @ x)" for x
  proof -
    have "\<not> beneath dst (src @ x)"
    proof
      assume "beneath dst (src @ x)"
      then obtain y where "y \<noteq> []" "src @ x = dst @ y" by (auto simp: beneath_iff)
      with nb nd n show False by (auto simp: append_eq_append_conv2 beneath_iff)
    qed
    moreover have "src @ x \<noteq> dst" using n nb by (cases x) (auto simp: beneath_iff)
    ultimately show ?thesis by blast
  qed
  have key: "map_of t' (dst @ x) = map_of ?t (src @ x)" if "src @ x \<noteq> dst" "\<not> beneath dst (src @ x)"
  proof -
    have "moved src dst (src @ x) = dst @ x" by (cases x) (simp_all add: moved_def beneath_def)
    moreover have "map_of (map (\<lambda>(p, e). (moved src dst p, e)) ?t) (moved src dst (src @ x)) = map_of ?t (src @ x)"
      by (rule map_of_moved) (rule inj [OF _ that])
    ultimately show ?thesis by (simp add: t')
  qed
  show "map_of t' (dst @ x) = map_of t (src @ x)" using key apart [of x] by simp
  show "map_of t' q = map_of t q" if "q \<noteq> src" "q \<noteq> dst" "\<not> beneath src q" "\<not> beneath dst q" for q
  proof -
    have "moved src dst q = q" using that by (simp add: moved_def)
    moreover have "map_of (map (\<lambda>(p, e). (moved src dst p, e)) ?t) (moved src dst q) = map_of ?t q"
      by (rule map_of_moved) (rule inj [OF _ that(2,4)])
    ultimately show ?thesis using that(2) by (simp add: t')
  qed
qed

end
