(* ===== verification/Consumption.thy ===== *)
theory Consumption
  imports Effects
begin

text \<open>
  Spending an authorization: what one call does to the tree wherever it ends, why no sequence of
  calls spends a nonce twice, and why no interleaving of their system calls does.
\<close>

section \<open>One call\<close>

text \<open>What a call is about: the digest that names the entry, and the bytes it publishes.\<close>

definition consumption_plan :: "externals \<Rightarrow> frozen_authorization \<Rightarrow> exn + ustr \<times> json \<times> bytes" where
  "consumption_plan X a =
     bindE (authorization_value a) (\<lambda>v.
     bindE (consumption_entry X v) (\<lambda>(d, entry).
     bindE (canonical_bytes (py entry)) (\<lambda>payload. Inr (d, entry, payload))))"

lemma slot_not_entry [simp]: "consumption_slot d k \<noteq> consumption_path d'" "consumption_path d' \<noteq> consumption_slot d k"
  by (simp_all add: consumption_slot_def consumption_path_def tmp_dir_def consumed_dir_def lit_def)

lemma slot_not_dir [simp]: "consumption_slot d k \<noteq> consumed_dir" "consumed_dir \<noteq> consumption_slot d k"
  by (simp_all add: consumption_slot_def consumed_dir_def tmp_dir_def)

lemma consumption_path_inj [simp]: "consumption_path d = consumption_path d' \<longleftrightarrow> d = d'"
  by (simp add: consumption_path_def)

lemma parent_ok_map_of: "map_of t = map_of t' \<Longrightarrow> parent_ok t p = parent_ok t' p"
  by (simp add: parent_ok_def)

lemma ensures_claim:
  "ensures (\<lambda>t. map_of t = m) (claim_slot ps other full)
     (\<lambda>s t. s \<in> set ps \<and> m s = None \<and> map_of t = m(s \<mapsto> File [])) (\<lambda>t. map_of t = m) (\<lambda>t. map_of t = m)"
proof (induction ps)
  case Nil
  show ?case by (simp add: ensures_raise)
next
  case (Cons p ps)
  let ?Q = "\<lambda>s t. s \<in> set (p # ps) \<and> m s = None \<and> map_of t = m(s \<mapsto> File [])"
  let ?m = "\<lambda>t. map_of t = m"
  have later: "ensures ?m (claim_slot ps other full) ?Q ?m ?m"
    by (rule ensures_weaken [OF Cons.IH]) auto
  show ?case unfolding claim_slot.simps
  proof (rule ensures_bind)
    show "ensures ?m (effect (os_create p))
        (\<lambda>r t. case r of Inr u \<Rightarrow> m p = None \<and> map_of t = m(p \<mapsto> File []) | Inl e \<Rightarrow> map_of t = m) ?m ?m"
      by (rule ensures_effect) (auto simp: os_create_def split: if_split_asm)
    show "ensures (\<lambda>t. case r of Inr u \<Rightarrow> m p = None \<and> map_of t = m(p \<mapsto> File []) | Inl e \<Rightarrow> map_of t = m)
       (case r of Inr u \<Rightarrow> returnS p | Inl EExist \<Rightarrow> claim_slot ps other full | Inl e \<Rightarrow> raiseS (other e)) ?Q ?m ?m" for r
      using later by (cases r) (auto intro: ensures_return ensures_raise split: os_error.split)
  qed
qed

text \<open>Where the host may stop: before anything, with a staging file, or after the link.\<close>

definition interrupted :: "(fs_path \<Rightarrow> entry option) \<Rightarrow> ustr \<Rightarrow> bytes \<Rightarrow> (fs_path \<Rightarrow> entry option) \<Rightarrow> bool" where
  "interrupted m d payload m' \<longleftrightarrow>
     m' = m \<or>
     (\<exists>k < consumption_slots. m (consumption_slot d k) = None \<and>
        (m' = m(consumption_slot d k \<mapsto> File []) \<or> m' = m(consumption_slot d k \<mapsto> File payload) \<or>
         m (consumption_path d) = None \<and>
         m' = m(consumption_slot d k \<mapsto> File payload, consumption_path d \<mapsto> File payload)))"

lemma interrupted_refl: "interrupted m d payload m"
  by (simp add: interrupted_def)

lemma ensures_stage:
  "ensures (\<lambda>t. map_of t = m) (stage_consumption d payload)
     (\<lambda>s t. (\<exists>k < consumption_slots. s = consumption_slot d k) \<and> m s = None \<and> map_of t = m(s \<mapsto> File payload))
     (\<lambda>t. map_of t = m) (\<lambda>t. interrupted m d payload (map_of t))"
  unfolding stage_consumption_def
proof (rule ensures_bind)
  let ?C = "\<lambda>s t. (\<exists>k < consumption_slots. s = consumption_slot d k) \<and> m s = None \<and> map_of t = m(s \<mapsto> File [])"
  show "ensures (\<lambda>t. map_of t = m)
     (claim_slot (map (consumption_slot d) [0..<consumption_slots])
       (\<lambda>e. VErr StoreCommitConflict (lit ''The consumption record could not be staged: '') NoDetail)
       (VErr StoreCommitConflict
         (lit ''Every consumption staging slot for this nonce is occupied; scan the store.'') NoDetail))
     ?C (\<lambda>t. map_of t = m) (\<lambda>t. interrupted m d payload (map_of t))"
    by (rule ensures_weaken [OF ensures_claim]) (auto simp: interrupted_refl)
  fix s
  show "ensures (?C s) (bindS (callS (os_write s payload)) (\<lambda>_. returnS s))
     (\<lambda>s t. (\<exists>k < consumption_slots. s = consumption_slot d k) \<and> m s = None \<and> map_of t = m(s \<mapsto> File payload))
     (\<lambda>t. map_of t = m) (\<lambda>t. interrupted m d payload (map_of t))"
  proof (rule ensures_bind)
    show "ensures (?C s) (callS (os_write s payload))
      (\<lambda>_ t. (\<exists>k < consumption_slots. s = consumption_slot d k) \<and> m s = None \<and> map_of t = m(s \<mapsto> File payload))
      (\<lambda>t. map_of t = m) (\<lambda>t. interrupted m d payload (map_of t))"
      by (rule ensures_call) (auto simp: os_write_def interrupted_def split: option.splits entry.splits)
  qed (rule ensures_return)
qed

lemma already_consumed_refuses [simp]: "already_consumed d entry t \<noteq> Inr x"
  by (auto simp: already_consumed_def bindE_def split: sum.split)

lemma ensures_publish:
  assumes s: "s = consumption_slot d k" "k < consumption_slots" "m s = None"
  shows "ensures (\<lambda>t. map_of t = m(s \<mapsto> File payload)) (publish_consumption s d entry)
     (\<lambda>_ t. m (consumption_path d) = None \<and> map_of t = m(s \<mapsto> File payload, consumption_path d \<mapsto> File payload))
     (\<lambda>t. map_of t = m(s \<mapsto> File payload)) (\<lambda>t. interrupted m d payload (map_of t))"
    (is "ensures ?P _ ?Q ?P ?S")
  unfolding publish_consumption_def
proof (rule ensures_bind)
  show "ensures ?P (effect (os_link s (consumption_path d)))
     (\<lambda>r t. case r of Inr u \<Rightarrow> ?Q () t | Inl e \<Rightarrow> ?P t) ?P ?S"
    using s by (intro ensures_effect) (auto simp: os_link_def interrupted_def split: if_split_asm)
  show "ensures (\<lambda>t. case r of Inr u \<Rightarrow> ?Q () t | Inl e \<Rightarrow> ?P t)
    (case r of Inr u \<Rightarrow> returnS () | Inl EExist \<Rightarrow> readS (already_consumed d entry)
     | Inl e \<Rightarrow> raiseS (VErr StoreCommitConflict (lit ''The consumption record could not be committed: '') NoDetail))
    ?Q ?P ?S" for r
    by (cases r) (auto intro: ensures_return ensures_raise intro!: ensures_read split: os_error.split)
qed

lemma ensures_unlink:
  assumes "m s = Some (File b)"
  shows "ensures (\<lambda>t. map_of t = m) (unlink_if_there s) (\<lambda>_ t. map_of t = m(s := None)) E (\<lambda>t. map_of t = m)"
  unfolding unlink_if_there_def
proof (rule ensures_bind)
  show "ensures (\<lambda>t. map_of t = m) (effect (os_unlink s))
     (\<lambda>r t. r = Inr () \<and> map_of t = m(s := None)) E (\<lambda>t. map_of t = m)"
    using assms by (intro ensures_effect) (auto simp: os_unlink_def)
  show "ensures (\<lambda>t. r = Inr () \<and> map_of t = m(s := None))
     (case r of Inr u \<Rightarrow> returnS () | Inl ENoent \<Rightarrow> returnS () | Inl e \<Rightarrow> raiseS (os_failure e))
     (\<lambda>_ t. map_of t = m(s := None)) E (\<lambda>t. map_of t = m)" for r
    by (cases "r = Inr ()") (simp add: ensures_return, simp add: ensures_def)
qed

text \<open>The entry carries what the record of the call repeats.\<close>

lemma consumption_entry_Inr:
  assumes "consumption_entry X v = Inr (d, entry)"
  shows "\<exists>r nonce. consumed_record entry = Inr r \<and> cr_nonce r = nonce \<and> sub_lit v ''nonce'' = Inr nonce \<and> nonce_digest X nonce = Inr d"
  using assms by (auto simp: consumption_entry_def consumed_record_def bindE_Inr_iff)

lemma consume_once_planned:
  assumes "consumption_plan X a = Inr (d, entry, payload)"
  shows "consume_once X a =
     bindS (stage_consumption d payload) (\<lambda>staged.
     bindS (finallyS (publish_consumption staged d entry) (unlink_if_there staged)) (\<lambda>_.
     readS (\<lambda>t. consumed_record entry)))"
  using assms by (auto simp: consumption_plan_def consume_once_def bindE_Inr_iff)

lemma consume_once_unplanned:
  "consumption_plan X a = Inl e \<Longrightarrow> consume_once X a = raiseS e"
  by (auto simp: consumption_plan_def consume_once_def bindE_def split: sum.splits)

lemma ensures_publish_unlink:
  assumes s: "s = consumption_slot d k" "k < consumption_slots" "m s = None"
  shows "ensures (\<lambda>t. map_of t = m(s \<mapsto> File payload))
     (finallyS (publish_consumption s d entry) (unlink_if_there s))
     (\<lambda>_ t. m (consumption_path d) = None \<and> map_of t = m(consumption_path d \<mapsto> File payload))
     (\<lambda>t. map_of t = m) (\<lambda>t. interrupted m d payload (map_of t))"
    (is "ensures _ _ (\<lambda>_. ?Q) ?P ?S")
proof (rule ensures_finally)
  let ?linked = "m(s \<mapsto> File payload, consumption_path d \<mapsto> File payload)"
  show "ensures (\<lambda>t. map_of t = m(s \<mapsto> File payload)) (publish_consumption s d entry)
     (\<lambda>_ t. m (consumption_path d) = None \<and> map_of t = ?linked) (\<lambda>t. map_of t = m(s \<mapsto> File payload)) ?S"
    by (rule ensures_publish [where m = m, OF s])
  show "ensures (\<lambda>t. map_of t = m(s \<mapsto> File payload)) (unlink_if_there s) (\<lambda>_. ?P) ?P ?S"
    by (rule ensures_weaken [OF ensures_unlink [where m = "m(s \<mapsto> File payload)" and b = payload and E = ?P]])
      (use s in \<open>auto simp: interrupted_def fun_upd_idem\<close>)
  show "ensures (\<lambda>t. m (consumption_path d) = None \<and> map_of t = ?linked) (unlink_if_there s) (\<lambda>_. ?Q) ?P ?S" for x :: unit
  proof (cases "m (consumption_path d) = None")
    case True
    show ?thesis
      by (rule ensures_weaken [OF ensures_unlink [where s = s and b = payload and m = ?linked and E = ?P]])
        (use s True in \<open>auto simp: interrupted_def fun_eq_iff\<close>)
  qed (auto simp: ensures_def)
qed

lemma ensures_consume:
  assumes plan: "consumption_plan X a = Inr (d, entry, payload)"
  shows "ensures (\<lambda>t. map_of t = m) (consume_once X a)
     (\<lambda>r t. consumed_record entry = Inr r \<and> m (consumption_path d) = None \<and>
        map_of t = m(consumption_path d \<mapsto> File payload))
     (\<lambda>t. map_of t = m) (\<lambda>t. interrupted m d payload (map_of t))"
    (is "ensures ?P _ (\<lambda>r t. ?R r \<and> ?Q t) ?P ?S")
proof -
  from plan obtain v where "consumption_entry X v = Inr (d, entry)"
    by (auto simp: consumption_plan_def bindE_Inr_iff)
  then obtain r where r: "consumed_record entry = Inr r" using consumption_entry_Inr by blast
  have publish: "ensures (\<lambda>t. (\<exists>k < consumption_slots. s = consumption_slot d k) \<and> m s = None \<and> map_of t = m(s \<mapsto> File payload))
     (finallyS (publish_consumption s d entry) (unlink_if_there s)) (\<lambda>_ t. ?Q t) ?P ?S" for s
  proof (cases "(\<exists>k < consumption_slots. s = consumption_slot d k) \<and> m s = None")
    case True
    then obtain k where s: "s = consumption_slot d k" "k < consumption_slots" "m s = None" by blast
    show ?thesis by (rule ensures_weaken [OF ensures_publish_unlink [where m = m and payload = payload, OF s]]) auto
  qed (auto simp: ensures_def)
  show ?thesis unfolding consume_once_planned [OF plan]
    by (rule ensures_bind [OF ensures_stage], rule ensures_bind [OF publish]) (rule ensures_read, simp_all add: r)
qed

lemma spending_is_atomic_aux:
  assumes "consumption_plan X a = Inr (d, entry, payload)"
  shows "case consume_once X a h of
      (Returned r, h') \<Rightarrow> \<not> is_entry (consumption_path d) (h_fs h) \<and>
         map_of (h_fs h') = (map_of (h_fs h))(consumption_path d \<mapsto> File payload)
    | (Raised e, h') \<Rightarrow> map_of (h_fs h') = map_of (h_fs h)
    | (Stopped, h') \<Rightarrow> interrupted (map_of (h_fs h)) d payload (map_of (h_fs h'))"
proof -
  obtain r h' where r: "consume_once X a h = (r, h')" by force
  from ensuresD [OF ensures_consume [OF assms] refl r] show ?thesis
    by (auto simp: r is_entry_def split: outcome.split)
qed

section \<open>Sequences of calls\<close>

text \<open>Attempts on a shared state, each with its own success or failure, and what they leave.\<close>

fun attempts_run :: "('a \<Rightarrow> 's \<Rightarrow> bool \<times> 's) \<Rightarrow> 'a list \<Rightarrow> 's \<Rightarrow> ('a \<times> bool) list \<times> 's" where
  "attempts_run attempt [] s = ([], s)"
| "attempts_run attempt (a # as) s =
     (let (ok, s') = attempt a s; (rest, s'') = attempts_run attempt as s' in ((a, ok) # rest, s''))"

text \<open>
  The contract of a resource that is spent at most once, whatever the attempts on it meet, as long as each
  attempt is one that leaves alone what is spent.
\<close>

locale single_use =
  fixes attempt :: "'a \<Rightarrow> 's \<Rightarrow> bool \<times> 's"
    and spent :: "'k \<Rightarrow> 's \<Rightarrow> bool"
    and key :: "'a \<Rightarrow> 'k option"
    and proper :: "'a \<Rightarrow> bool"
  assumes spends: "proper a \<Longrightarrow> attempt a s = (True, s') \<Longrightarrow> \<exists>k. key a = Some k \<and> \<not> spent k s \<and> spent k s'"
    and keeps_spent: "proper a \<Longrightarrow> attempt a s = (ok, s') \<Longrightarrow> spent k s \<Longrightarrow> spent k s'"
begin

definition successes :: "'k \<Rightarrow> ('a \<times> bool) list \<Rightarrow> 'a list" where
  "successes k log = map fst (filter (\<lambda>(a, ok). ok \<and> key a = Some k) log)"

lemma none_after_spent:
  "list_all proper as \<Longrightarrow> attempts_run attempt as s = (log, s') \<Longrightarrow> spent k s \<Longrightarrow> successes k log = [] \<and> spent k s'"
proof (induction "as" arbitrary: s log)
  case (Cons a "as")
  obtain ok t where a: "attempt a s = (ok, t)" by force
  obtain rest where r: "attempts_run attempt as t = (rest, s')" "log = (a, ok) # rest"
    using Cons.prems(2) a by (auto simp: Let_def split: prod.splits)
  have "\<not> (ok \<and> key a = Some k)" using spends [of a s t] a Cons.prems(1,3) by auto
  then show ?case using Cons.IH [OF _ r(1) keeps_spent [OF _ a Cons.prems(3)]] Cons.prems(1) r(2) by (simp add: successes_def)
qed (simp add: successes_def)

lemma at_most_once:
  "list_all proper as \<Longrightarrow> attempts_run attempt as s = (log, s') \<Longrightarrow>
     length (successes k log) \<le> 1 \<and> (successes k log \<noteq> [] \<longrightarrow> \<not> spent k s \<and> spent k s')"
proof (induction "as" arbitrary: s log)
  case (Cons a "as")
  obtain ok t where a: "attempt a s = (ok, t)" by force
  obtain rest where r: "attempts_run attempt as t = (rest, s')" "log = (a, ok) # rest"
    using Cons.prems(2) a by (auto simp: Let_def split: prod.splits)
  show ?case
  proof (cases "ok \<and> key a = Some k")
    case True
    then have k: "\<not> spent k s" "spent k t" using spends [of a s t] a Cons.prems(1) by auto
    from none_after_spent [OF _ r(1) k(2)] Cons.prems(1) k(1) True r(2) show ?thesis by (simp add: successes_def)
  next
    case False
    then have "successes k log = successes k rest" by (auto simp: successes_def r(2))
    with Cons.IH [OF _ r(1)] Cons.prems(1) keeps_spent [OF _ a] show ?thesis by auto
  qed
qed (simp add: successes_def)

end

text \<open>
  One attempt: a call in a process of its own, on a host that may stop it after any number of effects.
  It succeeded when it returned.
\<close>

fun spend :: "externals \<Rightarrow> frozen_authorization \<times> nat option \<Rightarrow> fs \<Rightarrow> bool \<times> fs" where
  "spend X (a, budget) t =
     (case consume_once X a \<lparr>h_fs = t, h_left = budget\<rparr> of
        (Returned r, h) \<Rightarrow> (True, h_fs h) | (_, h) \<Rightarrow> (False, h_fs h))"

definition spending_key :: "externals \<Rightarrow> frozen_authorization \<times> nat option \<Rightarrow> ustr option" where
  "spending_key X p = (case consumption_plan X (fst p) of Inr (d, entry, payload) \<Rightarrow> Some d | Inl e \<Rightarrow> None)"

lemma interrupted_keeps: "interrupted m d b m' \<Longrightarrow> m p \<noteq> None \<Longrightarrow> m' p \<noteq> None"
  by (auto simp: interrupted_def)

interpretation consumption: single_use "spend X" "\<lambda>d. is_entry (consumption_path d)" "spending_key X" "\<lambda>p. True" for X
proof
  fix p t t'
  assume s: "spend X p t = (True, t')"
  obtain a budget where p: "p = (a, budget)" by force
  show "\<exists>k. spending_key X p = Some k \<and> \<not> is_entry (consumption_path k) t \<and> is_entry (consumption_path k) t'"
  proof (cases "consumption_plan X a")
    case (Inr q)
    then obtain d entry payload where q: "consumption_plan X a = Inr (d, entry, payload)" by (cases q) auto
    from spending_is_atomic_aux [OF q, of "\<lparr>h_fs = t, h_left = budget\<rparr>"] s p q show ?thesis
      by (auto simp: spending_key_def is_entry_def split: outcome.splits prod.splits)
  qed (use s p in \<open>simp add: consume_once_unplanned raiseS_def\<close>)
next
  fix p t ok t' d
  assume s: "spend X p t = (ok, t')" and e: "is_entry (consumption_path d) t"
  obtain a budget where p: "p = (a, budget)" by force
  show "is_entry (consumption_path d) t'"
  proof (cases "consumption_plan X a")
    case (Inr q)
    then obtain d' entry payload where q: "consumption_plan X a = Inr (d', entry, payload)" by (cases q) auto
    from spending_is_atomic_aux [OF q, of "\<lparr>h_fs = t, h_left = budget\<rparr>"] s p e show ?thesis
      by (auto simp: is_entry_def split: outcome.splits prod.splits dest!: interrupted_keeps)
  qed (use s p e in \<open>simp add: consume_once_unplanned raiseS_def\<close>)
qed

section \<open>A call that is let finish\<close>

definition store_ready :: "fs \<Rightarrow> bool" where
  "store_ready t \<longleftrightarrow> map_of t tmp_dir = Some Directory \<and> map_of t consumed_dir = Some Directory"

definition slot_free :: "ustr \<Rightarrow> fs \<Rightarrow> bool" where
  "slot_free d t \<longleftrightarrow> (\<exists>k < consumption_slots. map_of t (consumption_slot d k) = None)"

text \<open>64 creations at most, then the bytes, the link and the removal of the staging name.\<close>

definition consumption_effects :: nat where
  "consumption_effects = 67"

lemma parent_slot: "parent_ok t (consumption_slot d k) \<longleftrightarrow> map_of t tmp_dir = Some Directory"
  by (simp add: parent_ok_def consumption_slot_def tmp_dir_def)

lemma parent_consumption: "parent_ok t (consumption_path d) \<longleftrightarrow> map_of t consumed_dir = Some Directory"
  by (simp add: parent_ok_def consumption_path_def consumed_dir_def)

lemma answers_claim:
  assumes "\<forall>p \<in> set ps. \<forall>t. map_of t = m \<longrightarrow> parent_ok t p" "\<exists>p \<in> set ps. m p = None"
  shows "answers (length ps) (\<lambda>t. map_of t = m) (claim_slot ps other full)
     (\<lambda>r t. \<exists>s. r = Returned s \<and> s \<in> set ps \<and> m s = None \<and> map_of t = m(s \<mapsto> File []))"
  using assms
proof (induction ps)
  case (Cons p ps)
  let ?Q = "\<lambda>qs r t. \<exists>s. r = Returned s \<and> s \<in> set qs \<and> m s = None \<and> map_of t = m(s \<mapsto> File [])"
  have "answers (1 + length ps) (\<lambda>t. map_of t = m) (claim_slot (p # ps) other full) (?Q (p # ps))"
    unfolding claim_slot.simps
  proof (rule answers_bind)
    show "answers 1 (\<lambda>t. map_of t = m) (effect (os_create p))
       (\<lambda>r t. if m p = None then r = Returned (Inr ()) \<and> map_of t = m(p \<mapsto> File []) else r = Returned (Inl EExist) \<and> map_of t = m)"
      unfolding One_nat_def by (rule answers_effect) (use Cons.prems(1) in \<open>simp add: os_create_def\<close>)
    show "answers (length ps) (\<lambda>t. if m p = None then Returned r = Returned (Inr ()) \<and> map_of t = m(p \<mapsto> File [])
         else Returned r = Returned (Inl EExist) \<and> map_of t = m)
      (case r of Inr u \<Rightarrow> returnS p | Inl EExist \<Rightarrow> claim_slot ps other full | Inl e \<Rightarrow> raiseS (other e)) (?Q (p # ps))" for r
    proof (cases "m p = None")
      case True
      then show ?thesis by (cases "r = Inr ()") (auto intro: answers_return answers_vacuous)
    next
      case False
      then have "answers (length ps) (\<lambda>t. map_of t = m) (claim_slot ps other full) (?Q ps)"
        using Cons.prems by (intro Cons.IH) auto
      then have later: "answers (length ps) (\<lambda>t. map_of t = m) (claim_slot ps other full) (?Q (p # ps))"
        by (rule answers_weaken) auto
      show ?thesis
      proof (cases "r = Inl EExist")
        case True
        with later False show ?thesis by simp
      qed (simp add: False answers_vacuous)
    qed
  qed (simp split: if_splits)
  then show ?case by (simp only: length_Cons plus_1_eq_Suc)
qed simp

lemma answers_call:
  assumes "\<And>t. P t \<Longrightarrow> fst (f t) = Inr () \<and> Q (snd (f t))"
  shows "answers 1 P (callS f) (\<lambda>r t. r = Returned () \<and> Q t)"
proof -
  have "answers (1 + 0) P (callS f) (\<lambda>r t. r = Returned () \<and> Q t)"
    unfolding callS_def
  proof (rule answers_bind)
    show "answers 1 P (effect f) (\<lambda>r t. r = Returned (Inr ()) \<and> Q t)"
      unfolding One_nat_def by (rule answers_effect) (simp add: assms)
    show "answers 0 (\<lambda>t. Returned x = Returned (Inr ()) \<and> Q t)
       (case x of Inr u \<Rightarrow> returnS () | Inl e \<Rightarrow> raiseS (os_failure e)) (\<lambda>r t. r = Returned () \<and> Q t)" for x
      by (cases "x = Inr ()") (auto intro: answers_return answers_vacuous)
  qed simp
  then show ?thesis by simp
qed

lemma answers_stage:
  assumes "m tmp_dir = Some Directory" "\<exists>k < consumption_slots. m (consumption_slot d k) = None"
  shows "answers 65 (\<lambda>t. map_of t = m) (stage_consumption d payload)
     (\<lambda>r t. \<exists>k. r = Returned (consumption_slot d k) \<and> m (consumption_slot d k) = None \<and>
        map_of t = m(consumption_slot d k \<mapsto> File payload))"
proof -
  let ?slots = "map (consumption_slot d) [0..<consumption_slots]"
  let ?C = "\<lambda>r t. \<exists>s. r = Returned s \<and> s \<in> set ?slots \<and> m s = None \<and> map_of t = m(s \<mapsto> File [])"
  let ?Q = "\<lambda>r t. \<exists>k. r = Returned (consumption_slot d k) \<and> m (consumption_slot d k) = None \<and>
        map_of t = m(consumption_slot d k \<mapsto> File payload)"
  have "answers (length ?slots + (1 + 0)) (\<lambda>t. map_of t = m) (stage_consumption d payload) ?Q"
    unfolding stage_consumption_def
  proof (rule answers_bind, rule answers_claim)
    show "\<forall>p \<in> set ?slots. \<forall>t. map_of t = m \<longrightarrow> parent_ok t p" using assms(1) by (auto simp: parent_slot)
    show "\<exists>p \<in> set ?slots. m p = None" using assms(2) by auto
    fix s
    show "answers (1 + 0) (?C (Returned s)) (bindS (callS (os_write s payload)) (\<lambda>_. returnS s)) ?Q"
    proof (rule answers_bind)
      show "answers 1 (?C (Returned s)) (callS (os_write s payload))
         (\<lambda>r t. r = Returned () \<and> s \<in> set ?slots \<and> m s = None \<and> map_of t = m(s \<mapsto> File payload))"
        by (rule answers_call) (auto simp: os_write_def)
    qed (auto intro!: answers_return)
  qed auto
  then show ?thesis by (simp add: consumption_slots_def)
qed

lemma answers_unlink:
  assumes "m s = Some (File b)"
  shows "answers 1 (\<lambda>t. map_of t = m) (unlink_if_there s) (\<lambda>r t. r = Returned () \<and> map_of t = m(s := None))"
proof -
  have "answers (1 + 0) (\<lambda>t. map_of t = m) (unlink_if_there s) (\<lambda>r t. r = Returned () \<and> map_of t = m(s := None))"
    unfolding unlink_if_there_def
  proof (rule answers_bind)
    show "answers 1 (\<lambda>t. map_of t = m) (effect (os_unlink s))
       (\<lambda>r t. r = Returned (Inr ()) \<and> map_of t = m(s := None))"
      unfolding One_nat_def by (rule answers_effect) (use assms in \<open>simp add: os_unlink_def\<close>)
    show "answers 0 (\<lambda>t. Returned x = Returned (Inr ()) \<and> map_of t = m(s := None))
      (case x of Inr u \<Rightarrow> returnS () | Inl ENoent \<Rightarrow> returnS () | Inl e \<Rightarrow> raiseS (os_failure e))
      (\<lambda>r t. r = Returned () \<and> map_of t = m(s := None))" for x
      by (cases "x = Inr ()") (auto intro: answers_return answers_vacuous)
  qed simp
  then show ?thesis by simp
qed

lemma answers_publish:
  assumes "m consumed_dir = Some Directory" "m (consumption_slot d k) = Some (File payload)"
    "m (consumption_path d) = None"
  shows "answers 1 (\<lambda>t. map_of t = m) (publish_consumption (consumption_slot d k) d entry)
     (\<lambda>r t. r = Returned () \<and> map_of t = m(consumption_path d \<mapsto> File payload))"
proof -
  let ?Q = "\<lambda>t. map_of t = m(consumption_path d \<mapsto> File payload)"
  have "answers (1 + 0) (\<lambda>t. map_of t = m) (publish_consumption (consumption_slot d k) d entry) (\<lambda>r t. r = Returned () \<and> ?Q t)"
    unfolding publish_consumption_def
  proof (rule answers_bind)
    show "answers 1 (\<lambda>t. map_of t = m) (effect (os_link (consumption_slot d k) (consumption_path d)))
       (\<lambda>r t. r = Returned (Inr ()) \<and> ?Q t)"
      unfolding One_nat_def by (rule answers_effect) (use assms in \<open>auto simp: os_link_def parent_consumption\<close>)
    show "answers 0 (\<lambda>t. Returned r = Returned (Inr ()) \<and> ?Q t)
      (case r of Inr u \<Rightarrow> returnS () | Inl EExist \<Rightarrow> readS (already_consumed d entry)
       | Inl e \<Rightarrow> raiseS (VErr StoreCommitConflict (lit ''The consumption record could not be committed: '') NoDetail))
      (\<lambda>r t. r = Returned () \<and> ?Q t)" for r
      by (cases "r = Inr ()") (auto intro: answers_return answers_vacuous)
  qed simp
  then show ?thesis by simp
qed

text \<open>The link refuses; what the call then says is what it reads of the entry.\<close>

lemma answers_refused:
  assumes "m (consumption_slot d k) = Some (File payload)" "m (consumption_path d) \<noteq> None"
    "\<And>t. map_of t = m \<Longrightarrow> (already_consumed d entry t :: exn + unit) = Inl e"
  shows "answers 1 (\<lambda>t. map_of t = m) (publish_consumption (consumption_slot d k) d entry)
     (\<lambda>r t. r = Raised e \<and> map_of t = m)"
proof -
  have "answers (1 + 0) (\<lambda>t. map_of t = m) (publish_consumption (consumption_slot d k) d entry)
     (\<lambda>r t. r = Raised e \<and> map_of t = m)"
    unfolding publish_consumption_def
  proof (rule answers_bind)
    show "answers 1 (\<lambda>t. map_of t = m) (effect (os_link (consumption_slot d k) (consumption_path d)))
       (\<lambda>r t. r = Returned (Inl EExist) \<and> map_of t = m)"
      unfolding One_nat_def by (rule answers_effect) (use assms in \<open>auto simp: os_link_def\<close>)
    show "answers 0 (\<lambda>t. Returned r = Returned (Inl EExist) \<and> map_of t = m)
      (case r of Inr u \<Rightarrow> returnS () | Inl EExist \<Rightarrow> readS (already_consumed d entry)
       | Inl e \<Rightarrow> raiseS (VErr StoreCommitConflict (lit ''The consumption record could not be committed: '') NoDetail))
      (\<lambda>r t. r = Raised e \<and> map_of t = m)" for r
    proof (cases "r = Inl EExist")
      case True
      show ?thesis unfolding True by (simp, rule answers_read) (simp add: assms(3))
    qed (simp add: answers_vacuous)
  qed simp
  then show ?thesis by simp
qed

lemma answers_consume:
  assumes plan: "consumption_plan X a = Inr (d, entry, payload)"
    and dirs: "m tmp_dir = Some Directory" "\<exists>k < consumption_slots. m (consumption_slot d k) = None"
    and publish: "\<And>k. m (consumption_slot d k) = None \<Longrightarrow>
      answers 1 (\<lambda>t. map_of t = m(consumption_slot d k \<mapsto> File payload))
        (publish_consumption (consumption_slot d k) d entry) (Q k)"
    and removal: "\<And>k r. m (consumption_slot d k) = None \<Longrightarrow>
      answers 1 (Q k r) (unlink_if_there (consumption_slot d k)) (\<lambda>o' t. o' = Returned () \<and> R r t)"
    and finish: "\<And>r t. R (Returned ()) t \<Longrightarrow> consumed_record entry = Inr r \<Longrightarrow> S (Returned r) t"
      "\<And>e t. R (Raised e) t \<Longrightarrow> S (Raised e) t"
  shows "answers consumption_effects (\<lambda>t. map_of t = m) (consume_once X a) S"
proof -
  let ?P = "\<lambda>r t. \<exists>k. r = Returned (consumption_slot d k) \<and> m (consumption_slot d k) = None \<and>
        map_of t = m(consumption_slot d k \<mapsto> File payload)"
  from plan obtain v where "consumption_entry X v = Inr (d, entry)"
    by (auto simp: consumption_plan_def bindE_Inr_iff)
  then obtain r where r: "consumed_record entry = Inr r" using consumption_entry_Inr by blast
  have rest: "answers ((1 + 1) + 0) (?P (Returned s)) (bindS (finallyS (publish_consumption s d entry) (unlink_if_there s))
      (\<lambda>_. readS (\<lambda>t. consumed_record entry))) S" for s
  proof (cases "\<exists>k. s = consumption_slot d k \<and> m (consumption_slot d k) = None")
    case True
    then obtain k where k: "s = consumption_slot d k" "m (consumption_slot d k) = None" by blast
    have "answers 1 (?P (Returned s)) (publish_consumption s d entry) (Q k)"
      unfolding k(1) by (rule answers_weaken [OF publish [OF k(2)]]) auto
    from answers_finally [OF this removal [OF k(2), folded k(1)]]
    have "answers (1 + 1) (?P (Returned s)) (finallyS (publish_consumption s d entry) (unlink_if_there s)) R" .
    then show ?thesis
      by (rule answers_bind) (auto intro!: answers_read finish simp: r)
  qed (rule answers_vacuous, blast)
  have "answers (65 + ((1 + 1) + 0)) (\<lambda>t. map_of t = m) (consume_once X a) S"
    unfolding consume_once_planned [OF plan]
    by (rule answers_bind [OF answers_stage [OF dirs, where payload = payload]]) (use rest in auto)
  then show ?thesis by (simp add: consumption_effects_def)
qed

lemma answers_spend:
  assumes plan: "consumption_plan X a = Inr (d, entry, payload)"
    and "m tmp_dir = Some Directory" "m consumed_dir = Some Directory" "\<exists>k < consumption_slots. m (consumption_slot d k) = None"
    and free: "m (consumption_path d) = None"
  shows "answers consumption_effects (\<lambda>t. map_of t = m) (consume_once X a)
     (\<lambda>r t. (\<exists>x. r = Returned x \<and> consumed_record entry = Inr x) \<and> map_of t = m(consumption_path d \<mapsto> File payload))"
proof (rule answers_consume [OF plan assms(2,4)])
  fix k assume k: "m (consumption_slot d k) = None"
  let ?m = "m(consumption_slot d k \<mapsto> File payload)"
  show "answers 1 (\<lambda>t. map_of t = ?m) (publish_consumption (consumption_slot d k) d entry)
      (\<lambda>r t. r = Returned () \<and> map_of t = ?m(consumption_path d \<mapsto> File payload))"
    by (rule answers_publish) (use assms k in simp_all)
  show "answers 1 (\<lambda>t. r = Returned () \<and> map_of t = ?m(consumption_path d \<mapsto> File payload))
      (unlink_if_there (consumption_slot d k))
      (\<lambda>o' t. o' = Returned () \<and> r = Returned () \<and> map_of t = m(consumption_path d \<mapsto> File payload))" for r :: "unit outcome"
  proof (cases "r = Returned ()")
    case True
    have "?m(consumption_path d \<mapsto> File payload, consumption_slot d k := None) = m(consumption_path d \<mapsto> File payload)"
      using k by (auto simp: fun_eq_iff)
    with True answers_unlink [of "?m(consumption_path d \<mapsto> File payload)" "consumption_slot d k" payload]
    show ?thesis by simp
  qed (simp add: answers_vacuous)
qed auto

lemma answers_spend_again:
  assumes plan: "consumption_plan X a = Inr (d, entry, payload)"
    and "m tmp_dir = Some Directory" "\<exists>k < consumption_slots. m (consumption_slot d k) = None"
    and there: "m (consumption_path d) \<noteq> None"
    and says: "\<And>t. map_of t (consumption_path d) = m (consumption_path d) \<Longrightarrow> (already_consumed d entry t :: exn + unit) = Inl e"
  shows "answers consumption_effects (\<lambda>t. map_of t = m) (consume_once X a) (\<lambda>r t. r = Raised e \<and> map_of t = m)"
proof (rule answers_consume [OF plan assms(2,3)])
  fix k assume k: "m (consumption_slot d k) = None"
  let ?m = "m(consumption_slot d k \<mapsto> File payload)"
  show "answers 1 (\<lambda>t. map_of t = ?m) (publish_consumption (consumption_slot d k) d entry) (\<lambda>r t. r = Raised e \<and> map_of t = ?m)"
    by (rule answers_refused) (use there says k in auto)
  show "answers 1 (\<lambda>t. r = Raised e \<and> map_of t = ?m) (unlink_if_there (consumption_slot d k))
      (\<lambda>o' t. o' = Returned () \<and> r = Raised e \<and> map_of t = m)" for r :: "unit outcome"
  proof (cases "r = Raised e")
    case True
    have "?m(consumption_slot d k := None) = m" using k by (auto simp: fun_eq_iff)
    with True answers_unlink [of ?m "consumption_slot d k" payload] show ?thesis by simp
  qed (simp add: answers_vacuous)
qed auto

lemma py_eq_refl: "wf_json v \<Longrightarrow> py_eq v v"
proof (induction v rule: wf_json.induct)
  case (2 vs)
  then show ?case by (auto simp: zip_same_conv_map)
next
  case (3 d)
  have "map_of d k = Some v" if "(k, v) \<in> set d" for k v
    using that "3.prems" by (auto simp: keys_def intro!: map_of_is_SomeI)
  with 3 show ?case by fastforce
qed auto

lemma subscript_wf:
  "subscript v k = Inr w \<Longrightarrow> wf_json v \<Longrightarrow> wf_json w \<and> Suc (jdepth w) \<le> jdepth v"
  using jdepth_child(1) [OF map_of_SomeD] by (cases v) (auto split: option.splits dest!: map_of_SomeD simp del: jdepth.simps)

lemma pairs_depth_le: "(\<And>k v. (k, v) \<in> set d \<Longrightarrow> jdepth v \<le> n) \<Longrightarrow> pairs_depth d \<le> n"
  by (induction d) force+

text \<open>The published bytes are canonical: reading them gives back an equal entry.\<close>

lemma plan_reloads:
  assumes plan: "consumption_plan X a = Inr (d, entry, payload)"
  shows "load_json_bytes payload = Inr (sort_json entry) \<and> canonical_bytes (py (sort_json entry)) = Inr payload \<and>
     py_eq (sort_json entry) entry"
proof -
  from plan obtain v where v: "authorization_value a = Inr v" "consumption_entry X v = Inr (d, entry)"
    "canonical_bytes (py entry) = Inr payload"
    by (auto simp: consumption_plan_def bindE_Inr_iff)
  have l: "wf_json v" "jdepth v \<le> max_depth"
    using v(1) reload_loadable by (auto simp: authorization_value_def loadable_def)
  from v(2) l obtain xs where e: "entry = JDict xs" "wf_json entry" "\<forall>(k, w) \<in> set xs. Suc (jdepth w) \<le> max_depth"
    by (auto simp: consumption_entry_def bindE_Inr_iff keys_def lit_def dest!: subscript_wf [OF _ l(1)])
  have "jdepth entry \<le> max_depth" using e(1,3) pairs_depth_le [of xs 63] by (fastforce simp: max_depth_def)
  moreover obtain c where c: "canon_json entry = Inr c" "utf8_bytes c = Inr payload"
    using v(3) by (auto simp: canonical_bytes_def bindE_Inr_iff)
  ultimately have "reload c = Inr (sort_json entry)" using json_text.dcd_enc e(2) by (simp add: loadable_def)
  then have "load_json_bytes payload = Inr (sort_json entry)" using c(2) by (simp add: reload_def)
  moreover have "canonical_bytes (py (sort_json entry)) = Inr payload"
    unfolding canonical_bytes_def canon_json_sort [OF c(1)] by (simp add: c(2))
  moreover have "py_eq (sort_json entry) entry" using py_eq_refl [OF e(2)] by (simp only: py_eq_sort_left)
  ultimately show ?thesis by blast
qed

lemma already_consumed_same:
  assumes plan: "consumption_plan X a = Inr (d, entry, payload)"
    and "map_of t (consumption_path d) = Some (File payload)" "length payload \<le> max_receipt_bytes"
  shows "already_consumed d entry t
     = Inl nonce_spent"
  using assms(2,3) plan_reloads [OF plan]
  by (simp add: already_consumed_def load_canonical_def require_store_file_def read_store_file_def)

section \<open>Properties\<close>

text \<open>
  C5. Spending is atomic. Wherever a call ends, the tree is either as it was or holds the complete entry.
  A call that returns found no entry and leaves exactly one file more; a call that raises leaves the tree
  as it was; a host that stops leaves at most one staging file, and the entry absent or complete.
\<close>

theorem spending_is_atomic:
  assumes "consumption_plan X a = Inr (d, entry, payload)"
  shows "case consume_once X a h of
      (Returned r, h') \<Rightarrow> \<not> is_entry (consumption_path d) (h_fs h) \<and>
         map_of (h_fs h') = (map_of (h_fs h))(consumption_path d \<mapsto> File payload)
    | (Raised e, h') \<Rightarrow> map_of (h_fs h') = map_of (h_fs h)
    | (Stopped, h') \<Rightarrow> interrupted (map_of (h_fs h)) d payload (map_of (h_fs h'))"
  by (rule spending_is_atomic_aux [OF assms])

text \<open>
  C6. Used at most once. In any sequence of calls on one store, for any authorizations, each in a process
  that the host may stop after any effect, at most one call returns for the digest of a nonce, and when
  one does, no entry was there before the sequence and one is there after it.
\<close>

theorem spent_at_most_once:
  assumes "attempts_run (spend X) calls t = (log, t')"
  shows "length (filter (\<lambda>(p, ok). ok \<and> spending_key X p = Some d) log) \<le> 1 \<and>
    ((\<exists>p. (p, True) \<in> set log \<and> spending_key X p = Some d) \<longrightarrow>
       \<not> is_entry (consumption_path d) t \<and> is_entry (consumption_path d) t')"
  using consumption.at_most_once [OF _ assms, of d]
  by (auto simp: consumption.successes_def filter_empty_conv list_all_iff)

text \<open>
  C34. Spending succeeds. On a store whose directories are there, with a staging slot free and no entry for
  the nonce, a call that the host lets take 67 effects returns the record of what it spent.
\<close>

theorem spending_succeeds:
  assumes "consumption_plan X a = Inr (d, entry, payload)" "store_ready (h_fs h)" "slot_free d (h_fs h)"
    "\<not> is_entry (consumption_path d) (h_fs h)" "can_take consumption_effects h"
  shows "\<exists>r h'. consume_once X a h = (Returned r, h') \<and> consumed_record entry = Inr r"
proof -
  from answers_spend [OF assms(1), of "map_of (h_fs h)"] assms(2-4)
  have "answers consumption_effects (\<lambda>t. map_of t = map_of (h_fs h)) (consume_once X a)
     (\<lambda>r t. (\<exists>x. r = Returned x \<and> consumed_record entry = Inr x) \<and>
        map_of t = (map_of (h_fs h))(consumption_path d \<mapsto> File payload))"
    by (simp add: store_ready_def slot_free_def is_entry_def)
  from answersD [OF this, of h 0] assms(5) show ?thesis by fastforce
qed

text \<open>
  A spent authorization is refused as spent. After a call that returned, another call for the same
  authorization on that tree, let take 67 effects, with a staging slot free and an entry within the size
  the store reads, raises that the nonce has been consumed, and leaves the tree as it was.
\<close>

theorem spending_again_refused:
  assumes "consumption_plan X a = Inr (d, entry, payload)" "consume_once X a h = (Returned r, h')"
    "store_ready (h_fs h')" "slot_free d (h_fs h')" "length payload \<le> max_receipt_bytes"
    "can_take consumption_effects h2" "h_fs h2 = h_fs h'"
  shows "\<exists>h3. consume_once X a h2 = (Raised nonce_spent, h3) \<and> map_of (h_fs h3) = map_of (h_fs h')"
proof -
  have there: "map_of (h_fs h') (consumption_path d) = Some (File payload)"
    using spending_is_atomic_aux [OF assms(1), of h] assms(2) by simp
  have "answers consumption_effects (\<lambda>t. map_of t = map_of (h_fs h')) (consume_once X a)
     (\<lambda>r t. r = Raised nonce_spent \<and> map_of t = map_of (h_fs h'))"
    by (rule answers_spend_again [OF assms(1)])
      (use there assms(3,4) already_consumed_same [OF assms(1) _ assms(5)] in \<open>auto simp: store_ready_def slot_free_def\<close>)
  from answersD [OF this, of h2 0] assms(6,7) show ?thesis by fastforce
qed

section \<open>Witnesses\<close>

definition sample_grant_value :: json where
  "sample_grant_value = JDict [(lit ''action_digest'', JStr (lit ''x'')), (lit ''authorization_id'', JStr (lit ''a'')),
     (lit ''evidence_digest'', JStr (lit ''e'')), (lit ''nonce'', JStr (lit ''n'')), (lit ''rulebook_digest'', JStr (lit ''r''))]"

definition sample_grant :: frozen_authorization where
  "sample_grant = \<lparr>au_canonical = jtext sample_grant_value, au_id = JStr (lit ''a''), au_nonce = JStr (lit ''n''),
     au_issued_at = JStr sample_instant, au_expires_at = JStr sample_instant\<rparr>"

definition sample_tree :: fs where
  "sample_tree = [([], Directory), (receipts_dir, Directory), (consumed_dir, Directory), (tmp_dir, Directory)]"

definition sample_entry :: json where
  "sample_entry = JDict [(lit ''nonce'', JStr (lit ''n'')), (lit ''authorization_id'', JStr (lit ''a'')),
     (lit ''action_digest'', JStr (lit ''x'')), (lit ''rulebook_digest'', JStr (lit ''r'')), (lit ''evidence_digest'', JStr (lit ''e''))]"

definition sample_payload :: bytes where
  "sample_payload = lit ''{\"action_digest\":\"x\",\"authorization_id\":\"a\",\"evidence_digest\":\"e\",\"nonce\":\"n\",\"rulebook_digest\":\"r\"}''"

lemma sample_entry_bytes: "canonical_bytes (py sample_entry) = Inr sample_payload"
proof -
  have w: "wf_json sample_entry" by (simp add: sample_entry_def keys_def lit_def wf_str_def)
  have t: "jtext sample_entry = sample_payload"
    by (simp add: text_eval sample_entry_def sample_payload_def)
  have "concat (map encode_char sample_payload) = sample_payload"
    by (simp add: sample_payload_def lit_def encode_char_def)
  moreover have "canon_ok sample_entry" by (simp add: sample_entry_def no_surrogate_def is_surrogate_def lit_def)
  ultimately show ?thesis using canonical_bytes_iff [OF w, of sample_payload] t by simp
qed

lemma sample_plan: "consumption_plan sample_externals sample_grant = Inr (replicate 64 48, sample_entry, sample_payload)"
proof -
  have "canon_json sample_grant_value = Inr (jtext sample_grant_value)"
    unfolding canon_json_iff by (simp add: sample_grant_value_def no_surrogate_def is_surrogate_def lit_def)
  moreover have "loadable sample_grant_value"
    by (simp add: loadable_def sample_grant_value_def keys_def lit_def max_depth_def wf_str_def)
  ultimately have v: "authorization_value sample_grant = Inr (sort_json sample_grant_value)"
    using json_text.dcd_enc by (simp add: authorization_value_def sample_grant_def)
  have s: "sort_json sample_grant_value = sample_grant_value" by (simp add: sample_grant_value_def lit_def)
  have n: "utf8_bytes (lit ''n'') = Inr (lit ''n'')"
    by (simp add: utf8_bytes_def lit_def encode_char_def is_surrogate_def)
  have "consumption_entry sample_externals sample_grant_value = Inr (replicate 64 48, sample_entry)"
    using n by (simp add: consumption_entry_def sample_grant_value_def nonce_digest_def sample_entry_def
       sample_externals_def lit_def)
  then show ?thesis by (simp only: consumption_plan_def v s bindE_simps prod.case sample_entry_bytes)
qed

lemma sample_tree_ready:
  "store_ready sample_tree" "slot_free d sample_tree" "\<not> is_entry (consumption_path d) sample_tree"
proof -
  have "map_of sample_tree (consumption_slot d k) = None" "map_of sample_tree (consumption_path d) = None" for k
    by (simp_all add: sample_tree_def consumption_slot_def consumption_path_def consumed_dir_def receipts_dir_def tmp_dir_def)
  then show "slot_free d sample_tree" "\<not> is_entry (consumption_path d) sample_tree"
    by (auto simp: slot_free_def is_entry_def consumption_slots_def intro: exI [of _ 0])
  show "store_ready sample_tree"
    by (simp add: store_ready_def sample_tree_def tmp_dir_def consumed_dir_def receipts_dir_def lit_def)
qed

definition sample_host :: host where
  "sample_host = \<lparr>h_fs = sample_tree, h_left = Some 67\<rparr>"

lemma sample_host_ready: "h_fs sample_host = sample_tree" "can_take consumption_effects sample_host"
  by (simp_all add: sample_host_def can_take_def consumption_effects_def)

theorem spending_is_atomic_witness:
  "case consume_once sample_externals sample_grant sample_host of
      (Returned r, h') \<Rightarrow> \<not> is_entry (consumption_path (replicate 64 48)) (h_fs sample_host) \<and>
         map_of (h_fs h') = (map_of (h_fs sample_host))(consumption_path (replicate 64 48) \<mapsto> File sample_payload)
    | (Raised e, h') \<Rightarrow> map_of (h_fs h') = map_of (h_fs sample_host)
    | (Stopped, h') \<Rightarrow> interrupted (map_of (h_fs sample_host)) (replicate 64 48) sample_payload (map_of (h_fs h'))"
  by (rule spending_is_atomic [OF sample_plan])

theorem spent_at_most_once_witness:
  "\<exists>log t'. attempts_run (spend sample_externals) [(sample_grant, Some 67), (sample_grant, None)] sample_tree = (log, t') \<and>
     length (filter (\<lambda>(p, ok). ok \<and> spending_key sample_externals p = Some (replicate 64 48)) log) \<le> 1"
proof -
  obtain log t' where
    "attempts_run (spend sample_externals) [(sample_grant, Some 67), (sample_grant, None)] sample_tree = (log, t')" by force
  with spent_at_most_once [OF this, of "replicate 64 48"] show ?thesis by blast
qed

theorem spending_succeeds_witness:
  "\<exists>r h'. consume_once sample_externals sample_grant sample_host = (Returned r, h') \<and> consumed_record sample_entry = Inr r"
  by (rule spending_succeeds [OF sample_plan]) (simp_all add: sample_host_ready sample_tree_ready)

lemma sample_spent:
  obtains r h' where "consume_once sample_externals sample_grant sample_host = (Returned r, h')"
    "map_of (h_fs h') = (map_of sample_tree)(consumption_path (replicate 64 48) \<mapsto> File sample_payload)"
proof -
  have "answers consumption_effects (\<lambda>t. map_of t = map_of sample_tree) (consume_once sample_externals sample_grant)
     (\<lambda>r t. (\<exists>x. r = Returned x \<and> consumed_record sample_entry = Inr x) \<and>
        map_of t = (map_of sample_tree)(consumption_path (replicate 64 48) \<mapsto> File sample_payload))"
    by (rule answers_spend [OF sample_plan])
      (use sample_tree_ready(1) sample_tree_ready(2,3) [of "replicate 64 48"] in \<open>auto simp: store_ready_def slot_free_def is_entry_def\<close>)
  then obtain r h' where "consume_once sample_externals sample_grant sample_host = (r, h')"
    "(\<exists>x. r = Returned x \<and> consumed_record sample_entry = Inr x) \<and>
        map_of (h_fs h') = (map_of sample_tree)(consumption_path (replicate 64 48) \<mapsto> File sample_payload)"
    by (rule answersD [where h = sample_host and k = 0]) (simp_all add: sample_host_ready)
  then show thesis using that by blast
qed

theorem spending_again_refused_witness:
  "\<exists>h2 h3. consume_once sample_externals sample_grant h2 = (Raised nonce_spent, h3) \<and> map_of (h_fs h3) = map_of (h_fs h2)"
proof -
  obtain r h' where h': "consume_once sample_externals sample_grant sample_host = (Returned r, h')"
    "map_of (h_fs h') = (map_of sample_tree)(consumption_path (replicate 64 48) \<mapsto> File sample_payload)"
    by (rule sample_spent)
  let ?h2 = "\<lparr>h_fs = h_fs h', h_left = None\<rparr>"
  have other: "tmp_dir \<noteq> consumption_path d" "consumed_dir \<noteq> consumption_path d" for d
    by (simp_all add: consumption_path_def tmp_dir_def consumed_dir_def)
  have "store_ready (h_fs h')" "slot_free (replicate 64 48) (h_fs h')"
    using sample_tree_ready(1) sample_tree_ready(2) [of "replicate 64 48"]
    by (auto simp: store_ready_def slot_free_def h'(2) other)
  moreover have "length sample_payload \<le> max_receipt_bytes"
    by (simp add: sample_payload_def lit_def max_receipt_bytes_def)
  ultimately show ?thesis
    using spending_again_refused [OF sample_plan h'(1), of ?h2] by (fastforce simp: can_take_def)
qed

end
