(* ===== verification/Interleaving.thy ===== *)
theory Interleaving
  imports Consumption
begin

text \<open>
  Spending under concurrency: \<open>consume_once\<close> as a machine that makes one system call at a time, that every
  run of the function is a run of the machine, and what holds of the store however many machines, each
  in a process that may stop for good at any point, interleave their calls on it.
\<close>

section \<open>One process\<close>

text \<open>The digits after the last full stop give back the slot.\<close>

lemma dec_no_stop: "46 \<notin> set (dec k)"
  using dec_digits [of k] by (auto simp: list_all_iff is_digit_def)

lemma slot_inj [simp]: "consumption_slot d k = consumption_slot d' k' \<longleftrightarrow> d = d' \<and> k = k'"
proof
  assume "consumption_slot d k = consumption_slot d' k'"
  then have e: "d @ 46 # dec k = d' @ 46 # dec k'" by (simp add: consumption_slot_def lit_def)
  have "takeWhile (\<lambda>c. c \<noteq> 46) (rev (x @ 46 # dec n)) = rev (dec n)" for x n
    using dec_no_stop [of n] by (auto simp: takeWhile_append)
  from this [of d k] this [of d' k'] e have "rev (dec k) = rev (dec k')" by metis
  then show "d = d' \<and> k = k'" using e by simp
qed simp

datatype phase = Claiming nat | Staged nat | Ready nat | Won nat | Lost nat | Spent | Refused

text \<open>The next system call of a process that spends the nonce with this digest, and where it leads.\<close>

fun spend_call :: "ustr \<Rightarrow> bytes \<Rightarrow> phase \<Rightarrow> fs \<Rightarrow> phase \<times> fs" where
  "spend_call d b (Claiming k) t =
     (if k \<ge> consumption_slots then (Refused, t)
      else case os_create (consumption_slot d k) t of
        (Inr u, t') \<Rightarrow> (Staged k, t') | (Inl EExist, t') \<Rightarrow> (Claiming (Suc k), t') | (Inl e, t') \<Rightarrow> (Refused, t'))"
| "spend_call d b (Staged k) t =
     (case os_write (consumption_slot d k) b t of (Inr u, t') \<Rightarrow> (Ready k, t') | (Inl e, t') \<Rightarrow> (Refused, t'))"
| "spend_call d b (Ready k) t =
     (case os_link (consumption_slot d k) (consumption_path d) t of (Inr u, t') \<Rightarrow> (Won k, t') | (Inl e, t') \<Rightarrow> (Lost k, t'))"
| "spend_call d b (Won k) t =
     (case os_unlink (consumption_slot d k) t of
        (Inr u, t') \<Rightarrow> (Spent, t') | (Inl ENoent, t') \<Rightarrow> (Spent, t') | (Inl e, t') \<Rightarrow> (Refused, t'))"
| "spend_call d b (Lost k) t = (Refused, snd (os_unlink (consumption_slot d k) t))"
| "spend_call d b ph t = (ph, t)"

inductive reaches :: "ustr \<Rightarrow> bytes \<Rightarrow> fs \<Rightarrow> phase \<Rightarrow> fs \<Rightarrow> bool" for d b t0 where
  reaches_start: "reaches d b t0 (Claiming 0) t0"
| reaches_call: "reaches d b t0 ph t \<Longrightarrow> spend_call d b ph t = (ph', t') \<Longrightarrow> reaches d b t0 ph' t'"

text \<open>One call further along a run.\<close>

lemma reaches_write:
  "reaches d b t0 (Staged k) t \<Longrightarrow> os_write (consumption_slot d k) b t = (r, t') \<Longrightarrow>
     reaches d b t0 (case r of Inr u \<Rightarrow> Ready k | Inl e \<Rightarrow> Refused) t'"
  by (erule reaches_call) (simp split: sum.split)

lemma reaches_link:
  "reaches d b t0 (Ready k) t \<Longrightarrow> os_link (consumption_slot d k) (consumption_path d) t = (r, t') \<Longrightarrow>
     reaches d b t0 (case r of Inr u \<Rightarrow> Won k | Inl e \<Rightarrow> Lost k) t'"
  by (erule reaches_call) (simp split: sum.split)

lemma reaches_unlink:
  "reaches d b t0 (Won k) t \<Longrightarrow> os_unlink (consumption_slot d k) t = (r, t') \<Longrightarrow>
     reaches d b t0 (if r = Inr () \<or> r = Inl ENoent then Spent else Refused) t'"
  "reaches d b t0 (Lost k) t \<Longrightarrow> os_unlink (consumption_slot d k) t = (r, t') \<Longrightarrow> reaches d b t0 Refused t'"
  by (erule reaches_call, simp split: sum.split os_error.split)+

lemma claim_reaches:
  "k \<le> consumption_slots \<Longrightarrow> ks = [k..<consumption_slots] \<Longrightarrow>
   ensures (reaches d b t0 (Claiming k)) (claim_slot (map (consumption_slot d) ks) other full)
     (\<lambda>s t. \<exists>k. s = consumption_slot d k \<and> reaches d b t0 (Staged k) t)
     (reaches d b t0 Refused) (\<lambda>t. \<exists>ph. reaches d b t0 ph t)"
proof (induction ks arbitrary: k)
  case Nil
  have "reaches d b t0 Refused t" if "reaches d b t0 (Claiming k) t" for t
    by (rule reaches_call [OF that]) (use Nil(2) [symmetric] in \<open>auto simp: upt_eq_Nil_conv consumption_slots_def\<close>)
  then show ?case by (simp add: ensures_raise)
next
  case (Cons k' ks)
  from Cons.prems(2) [symmetric] have k: "k' = k" "k < consumption_slots" "ks = [Suc k..<consumption_slots]"
    by (auto simp: upt_eq_Cons_conv)
  show ?case unfolding list.map k(1) claim_slot.simps
  proof (rule ensures_bind)
    show "ensures (reaches d b t0 (Claiming k)) (effect (os_create (consumption_slot d k)))
      (\<lambda>r t. case r of Inr u \<Rightarrow> reaches d b t0 (Staged k) t
         | Inl e \<Rightarrow> if e = EExist then reaches d b t0 (Claiming (Suc k)) t else reaches d b t0 Refused t)
      (reaches d b t0 Refused) (\<lambda>t. \<exists>ph. reaches d b t0 ph t)"
    proof (rule ensures_effect)
      fix t r t' assume r: "reaches d b t0 (Claiming k) t" and f: "os_create (consumption_slot d k) t = (r, t')"
      from reaches_call [OF r] f k
      show "case r of Inr u \<Rightarrow> reaches d b t0 (Staged k) t'
         | Inl e \<Rightarrow> if e = EExist then reaches d b t0 (Claiming (Suc k)) t' else reaches d b t0 Refused t'"
        by (auto split: sum.split os_error.splits)
    qed blast
    fix r
    have later: "ensures (reaches d b t0 (Claiming (Suc k))) (claim_slot (map (consumption_slot d) ks) other full)
      (\<lambda>s t. \<exists>k. s = consumption_slot d k \<and> reaches d b t0 (Staged k) t)
      (reaches d b t0 Refused) (\<lambda>t. \<exists>ph. reaches d b t0 ph t)"
      using Cons k by (intro Cons.IH) auto
    show "ensures (\<lambda>t. case r of Inr u \<Rightarrow> reaches d b t0 (Staged k) t
         | Inl e \<Rightarrow> if e = EExist then reaches d b t0 (Claiming (Suc k)) t else reaches d b t0 Refused t)
      (case r of Inr u \<Rightarrow> returnS (consumption_slot d k)
       | Inl EExist \<Rightarrow> claim_slot (map (consumption_slot d) ks) other full | Inl e \<Rightarrow> raiseS (other e))
      (\<lambda>s t. \<exists>k. s = consumption_slot d k \<and> reaches d b t0 (Staged k) t)
      (reaches d b t0 Refused) (\<lambda>t. \<exists>ph. reaches d b t0 ph t)"
      using later k by (cases r) (auto intro!: ensures_return ensures_raise split: os_error.split)
  qed
qed

lemma stage_reaches:
  "ensures (reaches d b t0 (Claiming 0)) (stage_consumption d b)
     (\<lambda>s t. \<exists>k. s = consumption_slot d k \<and> reaches d b t0 (Ready k) t)
     (reaches d b t0 Refused) (\<lambda>t. \<exists>ph. reaches d b t0 ph t)"
  unfolding stage_consumption_def
proof (rule ensures_bind [OF claim_reaches])
  fix s
  let ?C = "\<lambda>t. \<exists>k. s = consumption_slot d k \<and> reaches d b t0 (Staged k) t"
  let ?Q = "\<lambda>s t. \<exists>k. s = consumption_slot d k \<and> reaches d b t0 (Ready k) t"
  show "ensures ?C (bindS (callS (os_write s b)) (\<lambda>_. returnS s)) ?Q
     (reaches d b t0 Refused) (\<lambda>t. \<exists>ph. reaches d b t0 ph t)"
  proof (rule ensures_bind)
    show "ensures ?C (callS (os_write s b)) (\<lambda>_. ?Q s) (reaches d b t0 Refused) (\<lambda>t. \<exists>ph. reaches d b t0 ph t)"
      by (rule ensures_call) (auto dest: reaches_write)
  qed (rule ensures_return)
qed auto

lemma publish_reaches:
  "ensures (reaches d b t0 (Ready k)) (publish_consumption (consumption_slot d k) d entry)
     (\<lambda>_. reaches d b t0 (Won k)) (reaches d b t0 (Lost k)) (\<lambda>t. \<exists>ph. reaches d b t0 ph t)"
  unfolding publish_consumption_def
proof (rule ensures_bind)
  show "ensures (reaches d b t0 (Ready k)) (effect (os_link (consumption_slot d k) (consumption_path d)))
     (\<lambda>r t. case r of Inr u \<Rightarrow> reaches d b t0 (Won k) t | Inl e \<Rightarrow> reaches d b t0 (Lost k) t)
     (reaches d b t0 (Lost k)) (\<lambda>t. \<exists>ph. reaches d b t0 ph t)"
    by (rule ensures_effect) (auto dest: reaches_link split: sum.split)
  show "ensures (\<lambda>t. case r of Inr u \<Rightarrow> reaches d b t0 (Won k) t | Inl e \<Rightarrow> reaches d b t0 (Lost k) t)
    (case r of Inr u \<Rightarrow> returnS () | Inl EExist \<Rightarrow> readS (already_consumed d entry)
     | Inl e \<Rightarrow> raiseS (VErr StoreCommitConflict (lit ''The consumption record could not be committed: '') NoDetail))
    (\<lambda>_. reaches d b t0 (Won k)) (reaches d b t0 (Lost k)) (\<lambda>t. \<exists>ph. reaches d b t0 ph t)" for r
    by (cases r) (auto intro: ensures_return ensures_raise intro!: ensures_read split: os_error.split)
qed

lemma unlink_reaches:
  "ensures (reaches d b t0 (Won k)) (unlink_if_there (consumption_slot d k))
     (\<lambda>_. reaches d b t0 Spent) (reaches d b t0 Refused) (\<lambda>t. \<exists>ph. reaches d b t0 ph t)"
  "ensures (reaches d b t0 (Lost k)) (unlink_if_there (consumption_slot d k))
     (\<lambda>_. reaches d b t0 Refused) (reaches d b t0 Refused) (\<lambda>t. \<exists>ph. reaches d b t0 ph t)"
proof -
  have rest: "ensures (\<lambda>t. reaches d b t0 (if r = Inr () \<or> r = Inl ENoent then ph else Refused) t)
     (case r of Inr u \<Rightarrow> returnS () | Inl ENoent \<Rightarrow> returnS () | Inl e \<Rightarrow> raiseS (os_failure e))
     (\<lambda>_. reaches d b t0 ph) (reaches d b t0 Refused) S" for r ph S
    by (cases r) (auto intro: ensures_return ensures_raise split: os_error.split)
  show "ensures (reaches d b t0 (Won k)) (unlink_if_there (consumption_slot d k))
     (\<lambda>_. reaches d b t0 Spent) (reaches d b t0 Refused) (\<lambda>t. \<exists>ph. reaches d b t0 ph t)"
    unfolding unlink_if_there_def by (rule ensures_bind [OF _ rest], rule ensures_effect) (blast intro: reaches_unlink)+
  show "ensures (reaches d b t0 (Lost k)) (unlink_if_there (consumption_slot d k))
     (\<lambda>_. reaches d b t0 Refused) (reaches d b t0 Refused) (\<lambda>t. \<exists>ph. reaches d b t0 ph t)"
    unfolding unlink_if_there_def
    by (rule ensures_bind [OF _ rest], rule ensures_effect) (auto intro: reaches_unlink)
qed

lemma consume_reaches:
  assumes plan: "consumption_plan X a = Inr (d, entry, b)"
  shows "ensures (\<lambda>t. t = t0) (consume_once X a) (\<lambda>_. reaches d b t0 Spent) (reaches d b t0 Refused)
     (\<lambda>t. \<exists>ph. reaches d b t0 ph t)"
proof -
  from plan obtain v where "consumption_entry X v = Inr (d, entry)"
    by (auto simp: consumption_plan_def bindE_Inr_iff)
  then obtain r where r: "consumed_record entry = Inr r" using consumption_entry_Inr by blast
  have publish: "ensures (\<lambda>t. \<exists>k. s = consumption_slot d k \<and> reaches d b t0 (Ready k) t)
     (finallyS (publish_consumption s d entry) (unlink_if_there s))
     (\<lambda>_. reaches d b t0 Spent) (reaches d b t0 Refused) (\<lambda>t. \<exists>ph. reaches d b t0 ph t)" for s
  proof (cases "\<exists>k. s = consumption_slot d k")
    case True
    then obtain k where s: "s = consumption_slot d k" by blast
    show ?thesis unfolding s
      by (rule ensures_weaken [OF ensures_finally [OF publish_reaches unlink_reaches]]) auto
  qed (auto simp: ensures_def)
  have first: "ensures (\<lambda>t. t = t0) (stage_consumption d b)
     (\<lambda>s t. \<exists>k. s = consumption_slot d k \<and> reaches d b t0 (Ready k) t)
     (reaches d b t0 Refused) (\<lambda>t. \<exists>ph. reaches d b t0 ph t)"
    by (rule ensures_weaken [OF stage_reaches]) (auto intro: reaches_start)
  show ?thesis unfolding consume_once_planned [OF plan]
    by (rule ensures_bind [OF first], rule ensures_bind [OF publish]) (rule ensures_read, simp_all add: r)
qed

section \<open>Any number of processes\<close>

text \<open>
  Process \<open>i\<close> spends \<open>jobs ! i\<close>. A step is the next call of one of them, or anything else that happens
  in the tree and leaves alone the staging slots and the entries of nonces. A process that is killed takes
  no further step.
\<close>

definition place_of_spending :: "fs_path \<Rightarrow> bool" where
  "place_of_spending p \<longleftrightarrow> (\<exists>d k. p = consumption_slot d k \<or> p = consumption_path d)"

inductive spend_step ::
  "(ustr \<times> bytes) list \<Rightarrow> phase list \<times> fs \<Rightarrow> phase list \<times> fs \<Rightarrow> bool" for jobs where
  step_call: "i < length phases \<Longrightarrow> i < length jobs \<Longrightarrow>
     spend_call (fst (jobs ! i)) (snd (jobs ! i)) (phases ! i) t = (ph, t') \<Longrightarrow>
     spend_step jobs (phases, t) (phases[i := ph], t')"
| step_other: "(\<And>p. place_of_spending p \<Longrightarrow> map_of t' p = map_of t p) \<Longrightarrow> spend_step jobs (phases, t) (phases, t')"

inductive_cases spend_stepE: "spend_step jobs (phases, t) (phases', t')"

fun holds_slot :: "phase \<Rightarrow> nat option" where
  "holds_slot (Staged k) = Some k"
| "holds_slot (Ready k) = Some k"
| "holds_slot (Won k) = Some k"
| "holds_slot (Lost k) = Some k"
| "holds_slot _ = None"

fun won :: "phase \<Rightarrow> bool" where
  "won (Won k) = True"
| "won Spent = True"
| "won _ = False"

definition slot_held :: "(ustr \<times> bytes) list \<Rightarrow> phase list \<Rightarrow> fs \<Rightarrow> nat \<Rightarrow> bool" where
  "slot_held jobs phases t i \<longleftrightarrow>
     (\<forall>k. holds_slot (phases ! i) = Some k \<longrightarrow>
        map_of t (consumption_slot (fst (jobs ! i)) k)
          = Some (File (if phases ! i = Staged k then [] else snd (jobs ! i))))"

definition slots_apart :: "(ustr \<times> bytes) list \<Rightarrow> phase list \<Rightarrow> bool" where
  "slots_apart jobs phases \<longleftrightarrow>
     (\<forall>i < length phases. \<forall>j < length phases. i \<noteq> j \<longrightarrow> fst (jobs ! i) = fst (jobs ! j) \<longrightarrow>
        holds_slot (phases ! i) \<noteq> None \<longrightarrow> holds_slot (phases ! i) \<noteq> holds_slot (phases ! j))"

definition winners_apart :: "(ustr \<times> bytes) list \<Rightarrow> phase list \<Rightarrow> bool" where
  "winners_apart jobs phases \<longleftrightarrow>
     (\<forall>i < length phases. \<forall>j < length phases. won (phases ! i) \<longrightarrow> won (phases ! j) \<longrightarrow>
        fst (jobs ! i) = fst (jobs ! j) \<longrightarrow> i = j)"

text \<open>The entry of a winner is its own and complete; every other entry is as it was.\<close>

definition entries_accounted :: "(ustr \<times> bytes) list \<Rightarrow> fs \<Rightarrow> phase list \<Rightarrow> fs \<Rightarrow> bool" where
  "entries_accounted jobs t0 phases t \<longleftrightarrow>
     (\<forall>i < length phases. won (phases ! i) \<longrightarrow>
        map_of t0 (consumption_path (fst (jobs ! i))) = None \<and>
        map_of t (consumption_path (fst (jobs ! i))) = Some (File (snd (jobs ! i)))) \<and>
     (\<forall>d. (\<forall>i < length phases. won (phases ! i) \<longrightarrow> fst (jobs ! i) \<noteq> d) \<longrightarrow>
        map_of t (consumption_path d) = map_of t0 (consumption_path d))"

definition spend_inv :: "(ustr \<times> bytes) list \<Rightarrow> fs \<Rightarrow> phase list \<times> fs \<Rightarrow> bool" where
  "spend_inv jobs t0 = (\<lambda>(phases, t).
     length phases = length jobs \<and> (\<forall>i < length phases. slot_held jobs phases t i) \<and>
     slots_apart jobs phases \<and> winners_apart jobs phases \<and> entries_accounted jobs t0 phases t)"

lemma spend_inv_start: "spend_inv jobs t0 (replicate (length jobs) (Claiming 0), t0)"
  by (auto simp: spend_inv_def slot_held_def slots_apart_def winners_apart_def entries_accounted_def)

lemma spend_inv_other:
  assumes "\<And>p. place_of_spending p \<Longrightarrow> map_of t' p = map_of t p" "spend_inv jobs t0 (phases, t)"
  shows "spend_inv jobs t0 (phases, t')"
proof -
  have "map_of t' (consumption_slot d k) = map_of t (consumption_slot d k)"
    "map_of t' (consumption_path d) = map_of t (consumption_path d)" for d k
    using assms(1) by (auto simp: place_of_spending_def)
  with assms(2) show ?thesis by (simp add: spend_inv_def slot_held_def entries_accounted_def)
qed

text \<open>One process moves: the others keep their slots, and at most its own entry appears.\<close>

lemma spend_inv_update:
  assumes inv: "spend_inv jobs t0 (phases, t)" and i: "i < length phases"
    and frame: "\<And>j k. j < length phases \<Longrightarrow> j \<noteq> i \<Longrightarrow> holds_slot (phases ! j) = Some k \<Longrightarrow>
       map_of t' (consumption_slot (fst (jobs ! j)) k) = map_of t (consumption_slot (fst (jobs ! j)) k)"
    and own: "\<And>k. holds_slot ph = Some k \<Longrightarrow>
       map_of t' (consumption_slot (fst (jobs ! i)) k) = Some (File (if ph = Staged k then [] else snd (jobs ! i))) \<and>
       (holds_slot (phases ! i) = Some k \<or> map_of t (consumption_slot (fst (jobs ! i)) k) = None)"
    and entries: "won ph = won (phases ! i) \<and> (\<forall>d. map_of t' (consumption_path d) = map_of t (consumption_path d)) \<or>
       won ph \<and> \<not> won (phases ! i) \<and> map_of t (consumption_path (fst (jobs ! i))) = None \<and>
       (\<forall>d. map_of t' (consumption_path d)
          = (if d = fst (jobs ! i) then Some (File (snd (jobs ! i))) else map_of t (consumption_path d)))"
  shows "spend_inv jobs t0 (phases[i := ph], t')"
proof -
  from inv have l: "length phases = length jobs" and h: "\<And>j. j < length phases \<Longrightarrow> slot_held jobs phases t j"
    and a: "slots_apart jobs phases" and w: "winners_apart jobs phases" and e: "entries_accounted jobs t0 phases t"
    by (auto simp: spend_inv_def)
  have held: "slot_held jobs (phases[i := ph]) t' j" if "j < length phases" for j
    using that h [OF that] own frame [of j] i by (cases "j = i") (auto simp: slot_held_def)
  have clash: "holds_slot (phases ! j) \<noteq> Some k"
    if "j < length phases" "j \<noteq> i" "fst (jobs ! j) = fst (jobs ! i)" "holds_slot ph = Some k" for j k
  proof
    assume k: "holds_slot (phases ! j) = Some k"
    with h [OF that(1)] that(3) have "map_of t (consumption_slot (fst (jobs ! i)) k) \<noteq> None"
      by (simp add: slot_held_def)
    with own [OF that(4)] have "holds_slot (phases ! i) = Some k" by simp
    with a [unfolded slots_apart_def, rule_format, of j i] that(1-3) i k show False by simp
  qed
  have apart: "slots_apart jobs (phases[i := ph])"
    unfolding slots_apart_def
  proof (intro allI impI)
    fix j j' assume j: "j < length (phases[i := ph])" "j' < length (phases[i := ph])" "j \<noteq> j'"
      "fst (jobs ! j) = fst (jobs ! j')" "holds_slot (phases[i := ph] ! j) \<noteq> None"
    then obtain k where k: "holds_slot (phases[i := ph] ! j) = Some k" by blast
    consider "j = i" | "j' = i" | "j \<noteq> i" "j' \<noteq> i" by blast
    then have "holds_slot (phases[i := ph] ! j') \<noteq> Some k"
    proof cases
      case 1
      with j k clash [of j' k] show ?thesis by simp
    next
      case 2
      with j k i clash [of j k] show ?thesis by auto
    next
      case 3
      with j k a [unfolded slots_apart_def, rule_format, of j j'] show ?thesis by simp
    qed
    with k show "holds_slot (phases[i := ph] ! j) \<noteq> holds_slot (phases[i := ph] ! j')" by metis
  qed
  have old: "map_of t0 (consumption_path (fst (jobs ! j))) = None"
    "map_of t (consumption_path (fst (jobs ! j))) = Some (File (snd (jobs ! j)))"
    if "j < length phases" "won (phases ! j)" for j
    using e that by (auto simp: entries_accounted_def)
  have rest: "map_of t (consumption_path d) = map_of t0 (consumption_path d)"
    if "\<And>j. j < length phases \<Longrightarrow> won (phases ! j) \<Longrightarrow> fst (jobs ! j) \<noteq> d" for d
    using e that by (simp add: entries_accounted_def)
  have "winners_apart jobs (phases[i := ph]) \<and> entries_accounted jobs t0 (phases[i := ph]) t'"
  proof (cases "won ph = won (phases ! i)")
    case True
    with entries have c: "map_of t' (consumption_path d) = map_of t (consumption_path d)" for d by blast
    have "won (phases[i := ph] ! j) = won (phases ! j)" if "j < length phases" for j
      using True i that by (simp add: nth_list_update)
    then show ?thesis using w e by (simp add: winners_apart_def entries_accounted_def c)
  next
    case False
    with entries have new: "won ph" "map_of t (consumption_path (fst (jobs ! i))) = None"
      and c: "\<And>d. map_of t' (consumption_path d)
          = (if d = fst (jobs ! i) then Some (File (snd (jobs ! i))) else map_of t (consumption_path d))" by blast+
    have won: "won (phases[i := ph] ! j) \<longleftrightarrow> j = i \<or> won (phases ! j)" if "j < length phases" for j
      using new(1) i that by (simp add: nth_list_update)
    have fresh: "fst (jobs ! j) \<noteq> fst (jobs ! i)" if "j < length phases" "won (phases ! j)" for j
      using old(2) [OF that] new(2) by auto
    have none: "map_of t0 (consumption_path (fst (jobs ! i))) = None"
      using rest [of "fst (jobs ! i)"] fresh new(2) by simp
    have "winners_apart jobs (phases[i := ph])"
      unfolding winners_apart_def using w [unfolded winners_apart_def] fresh won by (metis length_list_update)
    moreover have "entries_accounted jobs t0 (phases[i := ph]) t'"
      unfolding entries_accounted_def
    proof (intro conjI allI impI)
      fix j assume j: "j < length (phases[i := ph])" "won (phases[i := ph] ! j)"
      then show "map_of t0 (consumption_path (fst (jobs ! j))) = None"
        using won old(1) none by (cases "j = i") auto
      show "map_of t' (consumption_path (fst (jobs ! j))) = Some (File (snd (jobs ! j)))"
        using j won [of j] old(2) [of j] fresh [of j] by (cases "j = i") (auto simp: c)
    next
      fix d assume "\<forall>j < length (phases[i := ph]). won (phases[i := ph] ! j) \<longrightarrow> fst (jobs ! j) \<noteq> d"
      then have d: "fst (jobs ! j) \<noteq> d" if "j < length phases" "j = i \<or> won (phases ! j)" for j
        using that won by auto
      then show "map_of t' (consumption_path d) = map_of t0 (consumption_path d)"
        using rest [of d] i by (auto simp: c)
    qed
    ultimately show ?thesis by blast
  qed
  with l held apart show ?thesis by (simp add: spend_inv_def)
qed

lemma spend_inv_call:
  assumes inv: "spend_inv jobs t0 (phases, t)" and i: "i < length phases"
    and call: "spend_call (fst (jobs ! i)) (snd (jobs ! i)) (phases ! i) t = (ph, t')"
  shows "spend_inv jobs t0 (phases[i := ph], t')"
proof -
  let ?d = "fst (jobs ! i)" and ?b = "snd (jobs ! i)"
  from inv have h: "slot_held jobs phases t j" if "j < length phases" for j
    using that by (auto simp: spend_inv_def)
  have mine: "map_of t (consumption_slot ?d k) = Some (File (if phases ! i = Staged k then [] else ?b))"
    if "holds_slot (phases ! i) = Some k" for k
    using h [OF i] that by (simp add: slot_held_def)
  have others: "\<not> (fst (jobs ! j) = ?d \<and> k = k')"
    if "j < length phases" "j \<noteq> i" "holds_slot (phases ! j) = Some k"
      "holds_slot (phases ! i) = Some k' \<or> map_of t (consumption_slot ?d k') = None" for j k k'
  proof
    assume same: "fst (jobs ! j) = ?d \<and> k = k'"
    with that h [OF that(1)] have "holds_slot (phases ! i) = Some k'" by (auto simp: slot_held_def)
    moreover have "slots_apart jobs phases" using inv by (simp add: spend_inv_def)
    ultimately show False
      using that same i by (metis slots_apart_def option.distinct(1))
  qed
  note hint = os_create_def os_write_def os_link_def os_unlink_def
  show ?thesis
  proof (cases "phases ! i")
    case (Claiming k)
    with call have "(ph = Staged k \<and> map_of t (consumption_slot ?d k) = None \<and>
         map_of t' = (map_of t)(consumption_slot ?d k \<mapsto> File [])) \<or> holds_slot ph = None \<and> \<not> won ph \<and> t' = t"
      by (auto simp: hint split: if_split_asm)
    then show ?thesis
      by (intro spend_inv_update [OF inv i]) (use Claiming others [where k' = k] in auto)
  next
    case (Staged k)
    with call mine [of k] have "ph = Ready k \<and> map_of t' = (map_of t)(consumption_slot ?d k \<mapsto> File ?b)"
      by (auto simp: hint)
    then show ?thesis
      by (intro spend_inv_update [OF inv i]) (use Staged others [where k' = k] in auto)
  next
    case (Ready k)
    with call mine [of k] have "(ph = Won k \<and> map_of t (consumption_path ?d) = None \<and>
        map_of t' = (map_of t)(consumption_path ?d \<mapsto> File ?b)) \<or> ph = Lost k \<and> t' = t"
      by (auto simp: hint split: if_split_asm)
    then show ?thesis
      by (intro spend_inv_update [OF inv i]) (use Ready mine [of k] in auto)
  next
    case (Won k)
    with call mine [of k] have "ph = Spent \<and> map_of t' = (map_of t)(consumption_slot ?d k := None)"
      by (auto simp: hint)
    then show ?thesis
      by (intro spend_inv_update [OF inv i]) (use Won others [where k' = k] in auto)
  next
    case (Lost k)
    with call mine [of k] have "ph = Refused \<and> map_of t' = (map_of t)(consumption_slot ?d k := None)"
      by (auto simp: hint)
    then show ?thesis
      by (intro spend_inv_update [OF inv i]) (use Lost others [where k' = k] in auto)
  qed (use call inv list_update_id [of phases i] in auto)
qed

lemma spend_inv_step: "spend_step jobs (phases, t) (phases', t') \<Longrightarrow> spend_inv jobs t0 (phases, t) \<Longrightarrow> spend_inv jobs t0 (phases', t')"
  by (erule spend_stepE) (auto intro: spend_inv_call spend_inv_other)

lemma spend_inv_reachable:
  assumes "(spend_step jobs)\<^sup>*\<^sup>* (replicate (length jobs) (Claiming 0), t0) s"
  shows "spend_inv jobs t0 s"
  using assms
proof (induction rule: rtranclp_induct)
  case base
  show ?case by (rule spend_inv_start)
next
  case (step s s')
  then show ?case using spend_inv_step by (cases s; cases s') blast
qed

section \<open>Properties\<close>

text \<open>
  C18. Every call is a run of the machine: when \<open>consume_once\<close> returns, the machine for its authorization
  goes from claiming a slot to having spent the nonce with the same tree; when it raises, to having been
  refused; and when the host stops it, to some phase in between.
\<close>

theorem consume_once_is_a_run:
  assumes "consumption_plan X a = Inr (d, entry, payload)"
  shows "case consume_once X a h of
      (Returned r, h') \<Rightarrow> reaches d payload (h_fs h) Spent (h_fs h')
    | (Raised e, h') \<Rightarrow> reaches d payload (h_fs h) Refused (h_fs h')
    | (Stopped, h') \<Rightarrow> \<exists>ph. reaches d payload (h_fs h) ph (h_fs h')"
proof -
  obtain r h' where r: "consume_once X a h = (r, h')" by force
  from ensuresD [OF consume_reaches [OF assms] refl r] show ?thesis by (simp add: r split: outcome.split)
qed

text \<open>
  C4. No interleaving spends a nonce twice. From any tree, however the calls of any number of processes
  that each spend one authorization are interleaved with each other and with whatever else happens outside
  the staging slots and entries of nonces, two processes that spent the same nonce are one process, the
  entry of a spent nonce was not there before, holds exactly the bytes of the process that spent it, and
  every entry of a nonce that no process spent is as it was.
\<close>

theorem no_interleaving_spends_twice:
  assumes "(spend_step jobs)\<^sup>*\<^sup>* (replicate (length jobs) (Claiming 0), t0) (phases, t)"
  shows "(\<forall>i < length jobs. \<forall>j < length jobs. phases ! i = Spent \<longrightarrow> phases ! j = Spent \<longrightarrow>
        fst (jobs ! i) = fst (jobs ! j) \<longrightarrow> i = j) \<and>
    (\<forall>i < length jobs. phases ! i = Spent \<longrightarrow>
        \<not> is_entry (consumption_path (fst (jobs ! i))) t0 \<and>
        map_of t (consumption_path (fst (jobs ! i))) = Some (File (snd (jobs ! i)))) \<and>
    (\<forall>d. (\<forall>i < length jobs. won (phases ! i) \<longrightarrow> fst (jobs ! i) \<noteq> d) \<longrightarrow>
        map_of t (consumption_path d) = map_of t0 (consumption_path d))"
proof -
  have inv: "length phases = length jobs" "winners_apart jobs phases" "entries_accounted jobs t0 phases t"
    using spend_inv_reachable [OF assms] by (simp_all add: spend_inv_def)
  have w: "won Spent" by simp
  show ?thesis
    using inv w unfolding winners_apart_def entries_accounted_def is_entry_def by metis
qed

section \<open>Witnesses\<close>

theorem consume_once_is_a_run_witness:
  "case consume_once sample_externals sample_grant sample_host of
      (Returned r, h') \<Rightarrow> reaches (replicate 64 48) sample_payload (h_fs sample_host) Spent (h_fs h')
    | (Raised e, h') \<Rightarrow> reaches (replicate 64 48) sample_payload (h_fs sample_host) Refused (h_fs h')
    | (Stopped, h') \<Rightarrow> \<exists>ph. reaches (replicate 64 48) sample_payload (h_fs sample_host) ph (h_fs h')"
  by (rule consume_once_is_a_run [OF sample_plan])

theorem no_interleaving_spends_twice_witness:
  "\<exists>t. (spend_step [([49], [1]), ([49], [2])])\<^sup>*\<^sup>* ([Claiming 0, Claiming 0], sample_tree) ([Claiming 0, Staged 0], t) \<and>
     map_of t (consumption_path [49]) = map_of sample_tree (consumption_path [49])"
proof -
  let ?jobs = "[([49], [1]), ([49], [2])] :: (ustr \<times> bytes) list"
  let ?t = "dset (consumption_slot [49] 0) (File []) sample_tree"
  have c: "spend_call [49] [2] (Claiming 0) sample_tree = (Staged 0, ?t)"
  proof -
    have "map_of sample_tree (consumption_slot [49] 0) = None"
      by (simp add: sample_tree_def consumption_slot_def consumed_dir_def receipts_dir_def tmp_dir_def)
    moreover have "parent_ok sample_tree (consumption_slot [49] 0)"
      using sample_tree_ready(1) by (simp add: parent_slot store_ready_def)
    ultimately show ?thesis by (simp add: os_create_def consumption_slots_def)
  qed
  have "spend_step ?jobs ([Claiming 0, Claiming 0], sample_tree) ([Claiming 0, Claiming 0][1 := Staged 0], ?t)"
    by (rule step_call) (simp_all add: c del: spend_call.simps)
  then have run: "(spend_step ?jobs)\<^sup>*\<^sup>* (replicate (length ?jobs) (Claiming 0), sample_tree) ([Claiming 0, Staged 0], ?t)"
    by (simp add: numeral_2_eq_2 r_into_rtranclp)
  from no_interleaving_spends_twice [OF run]
  have "map_of ?t (consumption_path [49]) = map_of sample_tree (consumption_path [49])"
    by (metis (no_types, lifting) One_nat_def length_Cons less_Suc_eq less_Suc_eq_0_disj list.size(3) not_less_zero nth_Cons_0 nth_Cons_Suc won.simps)
  with run show ?thesis by (auto simp: numeral_2_eq_2)
qed

end
