(* ===== verification/Listing.thy ===== *)
theory Listing
  imports Effects "HOL-Library.Sublist"
begin

text \<open>
  What a listing of the store says of each artifact, and the one kind of damage that still ends it: an
  integer whose digits the host refuses to convert. \<open>scan_bare\<close> shows that this is the loader's only exception
  that is not a refusal, \<open>load_json_long\<close> that every document that would load but for the length of its integers
  raises it.
\<close>

section \<open>Every artifact is named\<close>

definition refusal :: "ustr \<Rightarrow> err_class \<Rightarrow> ustr \<Rightarrow> refused_record" where
  "refusal name c m = \<lparr>rf_filename = name, rf_code = err_code c, rf_message = m\<rparr>"

definition summarized :: "fs \<Rightarrow> ustr \<Rightarrow> receipt_summary option" where
  "summarized t name = (case summary_of name t of Inr s \<Rightarrow> Some s | Inl e \<Rightarrow> None)"

definition refused_as :: "fs \<Rightarrow> ustr \<Rightarrow> refused_record option" where
  "refused_as t name = (case summary_of name t of Inl (VErr c m d) \<Rightarrow> Some (refusal name c m) | _ \<Rightarrow> None)"

lemma map_filter_lengths:
  assumes "\<And>x. x \<in> set xs \<Longrightarrow> (f x = None) \<noteq> (g x = None)"
  shows "length (List.map_filter f xs) + length (List.map_filter g xs) = length xs"
  using assms
proof (induction xs)
  case (Cons a xs)
  from Cons.prems [of a] have "(\<exists>x. f a = Some x) \<and> g a = None \<or> f a = None \<and> (\<exists>y. g a = Some y)"
    by (cases "f a"; cases "g a") auto
  moreover have "length (List.map_filter f xs) + length (List.map_filter g xs) = length xs"
    using Cons.prems by (intro Cons.IH) simp
  ultimately show ?case by (auto simp: map_filter_simps)
qed (simp add: map_filter_simps)

lemma read_summaries_iff:
  "read_summaries names t ss rs = Inr (ss', rs') \<longleftrightarrow>
     (\<forall>name \<in> set (filter has_json_suffix names). \<forall>e. summary_of name t = Inl e \<longrightarrow> is_verify_error e) \<and>
     ss' = ss @ List.map_filter (summarized t) (filter has_json_suffix names) \<and>
     rs' = rs @ List.map_filter (refused_as t)
                  (filter has_json_suffix names)"
  (is "_ \<longleftrightarrow> ?R names ss rs")
proof (induction names arbitrary: ss rs)
  case (Cons name names)
  show ?case
  proof (cases "has_json_suffix name")
    case True
    show ?thesis
    proof (cases "summary_of name t")
      case (Inl e)
      with True Cons.IH show ?thesis by (cases e) (auto simp: map_filter_simps refusal_def summarized_def refused_as_def)
    next
      case (Inr s)
      with True Cons.IH show ?thesis by (simp add: map_filter_simps summarized_def refused_as_def)
    qed
  qed (simp add: Cons.IH)
qed (auto simp: map_filter_simps)

section \<open>An integer too long for the host\<close>

text \<open>
  The loader has one bare exception, that of converting an integer of more than 4300 digits; where it raises, the
  text has such a run of digits.
\<close>

definition over_long :: exn where
  "over_long = PyErr PyValueError (lit ''Exceeds the limit (4300 digits) for integer string conversion'')"

definition digit_run :: "ustr \<Rightarrow> bool" where
  "digit_run s \<longleftrightarrow> (\<exists>before ds after. s = before @ ds @ after \<and> int_max_str_digits < length ds \<and> list_all is_digit ds)"

definition bare :: "ustr \<Rightarrow> exn + 'a \<times> ustr \<Rightarrow> bool" where
  "bare s x \<longleftrightarrow> (\<forall>v r. x = Inr (v, r) \<longrightarrow> suffix r s) \<and>
     (\<forall>c m. x = Inl (PyErr c m) \<longrightarrow> PyErr c m = out_of_fuel \<or> PyErr c m = over_long \<and> digit_run s)"

lemma digit_run_suffix: "digit_run r \<Longrightarrow> suffix r s \<Longrightarrow> digit_run s"
  unfolding digit_run_def suffix_def by (metis append.assoc)

lemma bare_suffix: "bare r x \<Longrightarrow> suffix r s \<Longrightarrow> bare s x"
  unfolding bare_def using digit_run_suffix suffix_order.trans by blast

lemma bare_simps [simp]:
  "bare s (Inr (v, r)) \<longleftrightarrow> suffix r s" "bare s (Inl (VErr c m d))" "bare s (Inl syntax_failure)" "bare s (Inl out_of_fuel)"
  "bare s reject_float" "bare s (reject_non_json_constant t)"
  by (auto simp: bare_def syntax_failure_def reject_float_def reject_non_json_constant_def out_of_fuel_def)

lemma bare_bind:
  assumes "bare s x" "\<And>v r. x = Inr (v, r) \<Longrightarrow> suffix r s \<Longrightarrow> bare s (f (v, r))"
  shows "bare s (bindE x f)"
proof (cases x)
  case (Inr p)
  with assms show ?thesis by (cases p) (simp add: bare_def)
qed (use assms(1) in \<open>simp add: bare_def\<close>)

lemma bare_if: "(b \<Longrightarrow> bare s x) \<Longrightarrow> (\<not> b \<Longrightarrow> bare s y) \<Longrightarrow> bare s (if b then x else y)"
  by simp

lemma bare_case_list:
  "bare s x \<Longrightarrow> (\<And>c r. xs = c # r \<Longrightarrow> bare s (f c r)) \<Longrightarrow> bare s (case xs of [] \<Rightarrow> x | c # r \<Rightarrow> f c r)"
  by (cases xs) auto

lemma bare_case_option:
  "bare s x \<Longrightarrow> (\<And>p. opt = Some p \<Longrightarrow> bare s (f p)) \<Longrightarrow> bare s (case opt of None \<Rightarrow> x | Some p \<Rightarrow> f p)"
  by (cases opt) auto

lemma skip_ws_suffix: "suffix (skip_ws s) s"
  by (simp add: skip_ws_def suffix_dropWhile)

lemma skip_ws_Cons_suffix: "skip_ws s = c # r \<Longrightarrow> suffix r s"
  using skip_ws_suffix [of s] by (metis suffix_ConsD)

lemma hex4_suffix: "hex4 s = Some (u, r) \<Longrightarrow> suffix r s"
  by (induction s rule: hex4.induct) (auto split: option.splits intro: suffix_ConsI)

lemma cons_char_bare: "bare s (cons_char c x) \<longleftrightarrow> bare s x"
  by (cases x) (auto simp: cons_char_def bare_def)

lemma scanstring_bare: "bare s (scanstring s)"
proof (induction "length s" arbitrary: s rule: less_induct)
  case less
  have IH: "bare s (cons_char x (scanstring r))" if "suffix r s" "length r < length s" for x r
    using bare_suffix [OF less.hyps [OF that(2)] that(1)] by (simp add: cons_char_bare)
  show ?case
  proof (cases s)
    case (Cons c q)
    have q: "suffix q s" "length q < length s" using Cons by (simp_all add: suffix_ConsI)
    have escape: "bare s (cons_char x (scanstring r1))" if "q = e # r1" for e r1 x
      using that Cons by (intro IH) (simp_all add: suffix_ConsI)
    have hex: "suffix r2 r1 \<and> length r2 < length r1" if "hex4 r1 = Some (u, r2)" for r1 u r2
      using that hex4_suffix hex4_shorter by blast
    have first: "suffix r2 s \<and> length r2 < length s" if "q = e # r1" "hex4 r1 = Some (u, r2)" for e r1 u r2
      using hex [OF that(2)] that(1) q by (auto intro: suffix_order.trans suffix_ConsD)
    have second: "suffix r3 s \<and> length r3 < length s"
      if "q = e # r1" "hex4 r1 = Some (u, r2)" "hex4 (drop 2 r2) = Some (u2, r3)" for e r1 u r2 u2 r3
      using hex [OF that(3)] suffix_drop [of 2 r2] first [OF that(1,2)] by (auto intro: suffix_order.trans)
    have "bare s (scanstring (c # q))"
      unfolding scanstring.simps
      by (intro bare_if bare_case_list bare_case_option)
        (use q escape first second in \<open>auto intro!: IH bare_case_option\<close>)
    then show ?thesis by (simp add: Cons)
  qed simp
qed

lemma takeWhile_run:
  assumes "int_max_str_digits < length (takeWhile is_digit r)"
  shows "digit_run r"
proof -
  have "r = [] @ takeWhile is_digit r @ dropWhile is_digit r" by simp
  moreover have "list_all is_digit (takeWhile is_digit r)" by (simp add: list_all_iff) (meson set_takeWhileD)
  ultimately show ?thesis using assms unfolding digit_run_def by blast
qed

lemma scan_integer_run:
  assumes "scan_integer s = Some (t, r)"
  shows "suffix r s" and "int_max_str_digits < digit_count t \<Longrightarrow> digit_run s"
proof -
  obtain sign q where sq: "(if s \<noteq> [] \<and> hd s = 45 then ([45 :: nat], tl s) else ([], s)) = (sign, q)"
    by (meson surj_pair)
  then have q: "suffix q s" "filter is_digit sign = []" by (auto simp: is_digit_def split: if_splits)
  from assms sq obtain d q' where d: "q = d # q'"
      "t = sign @ [48] \<and> r = q' \<or> t = sign @ takeWhile is_digit q \<and> r = dropWhile is_digit q"
    by (auto simp: scan_integer_def split: list.splits if_splits)
  then have "suffix r q" by (auto simp: suffix_ConsI suffix_dropWhile simp del: dropWhile.simps)
  with q show "suffix r s" by (auto intro: suffix_order.trans)
  assume "int_max_str_digits < digit_count t"
  then have "int_max_str_digits < length (filter is_digit (takeWhile is_digit q))"
    using d(2) q(2) by (auto simp: digit_count_def int_max_str_digits_def split: if_splits)
  then have "int_max_str_digits < length (takeWhile is_digit q)" by (rule less_le_trans) (rule length_filter_le)
  from digit_run_suffix [OF takeWhile_run [OF this] q(1)] show "digit_run s" .
qed

lemma match_number_run:
  assumes "match_number s = Some (t, f, r)"
  shows "suffix r s" and "int_max_str_digits < digit_count t \<Longrightarrow> digit_run s"
proof -
  have frac: "suffix (snd (scan_fraction q)) q" for q
    by (auto simp: scan_fraction_def split: list.split intro: suffix_ConsI suffix_dropWhile)
  have expo: "suffix (snd (scan_exponent q)) q" for q
    by (auto simp: scan_exponent_def Let_def split: list.split intro!: suffix_ConsI intro: suffix_dropWhile)
  from assms obtain q where q: "scan_integer s = Some (t, q)" "r = snd (scan_exponent (snd (scan_fraction q)))"
    by (auto simp: match_number_def Let_def split: option.splits prod.splits)
  have "suffix r q" unfolding q(2) using frac expo suffix_order.trans by blast
  with scan_integer_run [OF q(1)] show "suffix r s" "int_max_str_digits < digit_count t \<Longrightarrow> digit_run s"
    by (auto intro: suffix_order.trans)
qed

lemma number_bare:
  assumes "match_number s = Some (t, f, r)"
  shows "bare s (if f then reject_float else bindE (integer_within_interval t) (\<lambda>i. Inr (JInt i, r)))"
  using match_number_run [OF assms]
  by (auto simp: bare_def reject_float_def integer_within_interval_def py_int_def over_long_def bindE_Inr_iff bindE_Inl_iff split: if_splits)

lemma pairs_bare: "suffix r s \<Longrightarrow> bare s (bindE (object_from_pairs ps) (\<lambda>d. Inr (JDict d, r)))"
  by (auto simp: object_from_pairs_def)

lemma scan_bare:
  "bare s (scan_once n s)" "bare s (scan_array n s)" "bare s (scan_object n s)"
proof (induction n s and n s and n s rule: scan_once_scan_array_scan_object.induct)
  case (2 n s)
  show ?case
  proof (cases s)
    case (Cons c r)
    have obj: "bare s (bindE (scan_object n r')
        (\<lambda>(pairs, r''). bindE (object_from_pairs pairs) (\<lambda>d. Inr (JDict d, r''))))"
      if "c = 123" "skip_ws r = 34 # r'" for r'
      using bare_suffix [OF 2(1) [OF Cons _ that(1,2)], of s] skip_ws_Cons_suffix [OF that(2)] Cons that(1)
      by (auto intro!: bare_bind pairs_bare suffix_ConsI)
    have arr: "bare s (bindE (scan_array n (c' # r')) (\<lambda>(vs, r''). Inr (JList vs, r'')))"
      if "c = 91" "skip_ws r = c' # r'" "c' \<noteq> 93" for c' r'
      using bare_suffix [OF 2(2) [OF Cons _ _ that(1,2,3)], of s] skip_ws_suffix [of r] Cons that
      by (auto intro!: bare_bind suffix_ConsI)
    have str: "bare s (bindE (scanstring r) (\<lambda>(t, r'). Inr (JStr t, r')))"
      using bare_suffix [OF scanstring_bare, of r s] Cons by (auto intro!: bare_bind suffix_ConsI)
    have num: "bare s (case match_number s of
        Some (t, is_float, r') \<Rightarrow>
          if is_float then reject_float else bindE (integer_within_interval t) (\<lambda>i. Inr (JInt i, r'))
      | None \<Rightarrow> if starts ''NaN'' s then reject_non_json_constant ''NaN''
          else if starts ''Infinity'' s then reject_non_json_constant ''Infinity''
          else if starts ''-Infinity'' s then reject_non_json_constant ''-Infinity''
          else Inl syntax_failure)"
      using number_bare [of s] by (simp split: option.split)
    have const: "suffix (drop k s) s" for k by (rule suffix_drop)
    have const': "suffix (drop k r) (c # r)" for k by (rule suffix_ConsI [OF suffix_drop])
    show ?thesis
      unfolding scan_once.simps list.case Cons
      by (intro bare_if bare_case_list num [unfolded Cons] str [unfolded Cons])
        (use obj arr Cons const const' in \<open>auto dest: skip_ws_Cons_suffix intro: suffix_ConsI\<close>)
  qed simp
next
  case (4 n s)
  show ?case
    unfolding scan_array.simps
  proof (rule bare_bind [OF 4(1)])
    fix v r assume v: "scan_once n s = Inr (v, r)" "suffix r s"
    show "bare s (case (v, r) of (v, r) \<Rightarrow> case skip_ws r of
          [] \<Rightarrow> Inl syntax_failure
        | c # r' \<Rightarrow> if c = 93 then Inr ([v], r')
            else if c = 44 then bindE (scan_array n (skip_ws r')) (\<lambda>(vs, r''). Inr (v # vs, r''))
            else Inl syntax_failure)"
    proof (cases "skip_ws r")
      case (Cons c r')
      then have r': "suffix r' s" "suffix (skip_ws r') s"
        using skip_ws_Cons_suffix [OF Cons] skip_ws_suffix [of r'] v(2) by (auto intro: suffix_order.trans)
      with v Cons 4(2) [OF v(1) refl Cons] show ?thesis
        by (auto intro!: bare_bind intro: bare_suffix)
    qed simp
  qed
next
  case (6 n s)
  show ?case
    unfolding scan_object.simps
  proof (rule bare_bind [OF scanstring_bare], simp only: case_prod_conv, goal_cases)
    case (1 k r)
    show ?case
    proof (rule bare_case_list, simp, rule bare_if, simp, rule bare_bind, goal_cases)
      case (1 c r')
      have "suffix (skip_ws r') s"
        using skip_ws_Cons_suffix [of r c r'] skip_ws_suffix [of r'] 1 \<open>suffix r s\<close> by (auto intro: suffix_order.trans)
      moreover have "bare (skip_ws r') (scan_once n (skip_ws r'))"
        using 6(1) [of "(k, r)"] 1 \<open>scanstring s = _\<close> by auto
      ultimately show ?case by (rule bare_suffix [rotated])
    next
      case (2 c r' v r1)
      have IH: "bare r3 (scan_object n r3)" "suffix r3 s" if "skip_ws r1 = 44 # r2" "skip_ws r2 = 34 # r3" for r2 r3
        using 6(2) [of "(k, r)"] that 2 skip_ws_Cons_suffix [OF that(1)] skip_ws_Cons_suffix [OF that(2)]
          \<open>scanstring s = _\<close> by (auto intro: suffix_order.trans)
      have tail: "suffix r2 s" if "skip_ws r1 = c1 # r2" for c1 r2
        using skip_ws_Cons_suffix [OF that] 2 by (auto intro: suffix_order.trans)
      show ?case
        unfolding case_prod_conv
        by (intro bare_if bare_case_list)
          (use tail in \<open>auto intro!: bare_bind bare_suffix [OF IH]\<close>)
    qed
  qed
qed simp_all


lemma depth_scan_refuses: "depth_scan d i e t = Inl x \<Longrightarrow> x = too_deep"
  by (induction d i e t rule: depth_scan.induct) (auto split: if_splits)

lemma load_json_bare:
  assumes "load_json_bytes b = Inl (PyErr c m)"
  shows "PyErr c m = over_long" and "\<exists>t. decode_utf8 b = Inr t \<and> digit_run t"
proof -
  have "\<nexists>t. decode_utf8 b = Inl (PyErr c m)" "\<nexists>v. canon_json v = Inl (PyErr c m)"
    using canonicalize_error [of _ "PyErr c m"]
    by (auto simp: decode_utf8_def canon_error_def split: if_splits option.splits)
  moreover have "reject_excess_depth t \<noteq> Inl (PyErr c m)" for t
    using depth_scan_refuses [of 0 False False t] by (auto simp: reject_excess_depth_def too_deep_def)
  ultimately obtain t where t: "decode_utf8 b = Inr t" "json_loads t = Inl (PyErr c m)"
    using assms by (auto simp: load_json_bytes_def bindE_Inl_iff)
  then have "scan_once (2 * length t + 1) (skip_ws t) = Inl (PyErr c m)"
    by (auto simp: json_loads_def bindE_Inl_iff syntax_failure_def split: if_splits)
  moreover have "PyErr c m \<noteq> out_of_fuel" using t(2) json_loads_terminates by metis
  ultimately have "PyErr c m = over_long \<and> digit_run (skip_ws t)"
    using scan_bare(1) [of "skip_ws t" "2 * length t + 1"] by (simp add: bare_def)
  with t(1) digit_run_suffix [OF _ skip_ws_suffix]
  show "PyErr c m = over_long" "\<exists>t. decode_utf8 b = Inr t \<and> digit_run t" by blast+
qed

text \<open>
  A document that is refused for nothing else: its strings are encodable, and every integer is either inside
  the interval or too long.
\<close>

definition too_long :: "int \<Rightarrow> bool" where
  "too_long i \<longleftrightarrow> 10 ^ int_max_str_digits \<le> \<bar>i\<bar>"

fun but_for_length :: "json \<Rightarrow> bool" where
  "but_for_length (JInt i) = (safe_int i \<or> too_long i)"
| "but_for_length (JStr s) = no_surrogate s"
| "but_for_length (JList vs) = (\<forall>v \<in> set vs. but_for_length v)"
| "but_for_length (JDict d) = (\<forall>(k, v) \<in> set d. no_surrogate k \<and> but_for_length v)"
| "but_for_length _ = True"

lemma dec_bound: "n < 10 ^ length (dec n)"
proof (induction n rule: dec.induct)
  case (1 n)
  show ?case
  proof (cases "n < 10")
    case False
    with 1 have "n div 10 < 10 ^ length (dec (n div 10))" by blast
    then have "n < 10 * 10 ^ length (dec (n div 10))" by linarith
    with False show ?thesis by (simp add: dec.simps [of n])
  qed (simp add: dec.simps [of n])
qed

lemma too_long_digits: "too_long i \<Longrightarrow> int_max_str_digits < digit_count (int_str i)"
proof -
  let ?n = "nat \<bar>i\<bar>"
  assume "too_long i"
  then have "int (10 ^ int_max_str_digits) \<le> int ?n" by (simp add: too_long_def)
  then have "(10 :: nat) ^ int_max_str_digits < 10 ^ length (dec ?n)"
    using dec_bound [of ?n] by (metis le_less_trans of_nat_le_iff)
  then have "int_max_str_digits < length (dec ?n)" by (rule power_less_imp_less_exp [rotated]) simp
  moreover have "filter is_digit (dec m) = dec m" for m using dec_digits [of m] by (simp add: list_all_iff)
  ultimately show ?thesis by (auto simp: digit_count_def int_str_def abs_if is_digit_def)
qed

lemma too_long_raises: "\<not> safe_int i \<Longrightarrow> but_for_length (JInt i) \<Longrightarrow> integer_within_interval (int_str i) = Inl over_long"
  using too_long_digits [of i] by (simp add: integer_within_interval_def py_int_def over_long_def)

lemma scan_array_long:
  assumes "\<And>v m r. v \<in> set vs \<Longrightarrow> value_end r \<Longrightarrow> 2 * length (jtext v @ r) < m
      \<Longrightarrow> scan_once m (jtext v @ r) = (if canon_ok v then Inr (sort_json v, r) else Inl over_long)"
    and "\<exists>v \<in> set vs. \<not> canon_ok v" and "2 * length (intersperse_comma (map jtext vs) @ 93 # rest) + 1 < n"
  shows "scan_array n (intersperse_comma (map jtext vs) @ 93 # rest) = Inl over_long"
  using assms
proof (induction vs arbitrary: n)
  case (Cons v vs)
  let ?r = "(if vs = [] then [] else 44 # intersperse_comma (map jtext vs)) @ 93 # rest"
  from Cons.prems(3) obtain m where m: "n = Suc m" by (cases n) auto
  have "scan_once m (jtext v @ ?r) = (if canon_ok v then Inr (sort_json v, ?r) else Inl over_long)"
    using Cons.prems m by (intro Cons.prems(1)) (auto simp: value_end_def intersperse_Cons)
  moreover have "scan_array m (intersperse_comma (map jtext vs) @ 93 # rest) = Inl over_long"
    if "vs \<noteq> []" "canon_ok v"
    using Cons.prems that m by (intro Cons.IH) (auto simp: intersperse_Cons)
  moreover have "skip_ws (intersperse_comma (map jtext vs) @ 93 # rest) = intersperse_comma (map jtext vs) @ 93 # rest"
    by (cases vs) (simp_all add: intersperse_Cons)
  ultimately show ?case using Cons.prems(2) by (auto simp: m intersperse_Cons)
qed simp

lemma scan_object_long:
  assumes "\<And>k v m r. (k, v) \<in> set d \<Longrightarrow> value_end r \<Longrightarrow> 2 * length (jtext v @ r) < m
      \<Longrightarrow> scan_once m (jtext v @ r) = (if canon_ok v then Inr (sort_json v, r) else Inl over_long)"
    and "\<And>k v. (k, v) \<in> set d \<Longrightarrow> no_surrogate k"
    and "\<exists>(k, v) \<in> set d. \<not> canon_ok v" and "intersperse_comma (map member_text d) @ 125 # rest = 34 # s"
    and "2 * length s + 1 < n"
  shows "scan_object n s = Inl over_long"
  using assms
proof (induction d arbitrary: n s)
  case (Cons p d)
  obtain k v where p: "p = (k, v)" by force
  let ?r = "(if d = [] then [] else 44 # intersperse_comma (map member_text d)) @ 125 # rest"
  have s: "s = qbody k @ 34 # 58 # jtext v @ ?r"
    using Cons.prems(4) by (cases "d = []") (simp_all add: intersperse_Cons member_text_pair p)
  from Cons.prems(5) obtain m where m: "n = Suc m" by (cases n) auto
  have "scan_once m (jtext v @ ?r) = (if canon_ok v then Inr (sort_json v, ?r) else Inl over_long)"
    using Cons.prems(5) m by (intro Cons.prems(1) [of k]) (auto simp: p s value_end_def)
  moreover have "scanstring s = Inr (k, 58 # jtext v @ ?r)"
    using Cons.prems(2) [of k v] by (simp add: p s scanstring_qbody)
  moreover have "scan_object m q = Inl over_long"
    if "d \<noteq> []" "canon_ok v" "intersperse_comma (map member_text d) @ 125 # rest = 34 # q" for q
  proof (rule Cons.IH [OF _ _ _ that(3)])
    have "length (intersperse_comma (map member_text d) @ 125 # rest) = Suc (length q)" by (simp add: that(3))
    with Cons.prems(5) m that(1) show "2 * length q + 1 < m" by (simp add: s)
  next
    show "scan_once m (jtext v @ r) = (if canon_ok v then Inr (sort_json v, r) else Inl over_long)"
      if "(k, v) \<in> set d" "value_end r" "2 * length (jtext v @ r) < m" for k v m r
      using that Cons.prems(1) [of k v r m] by simp
    show "no_surrogate k" if "(k, v) \<in> set d" for k v using that Cons.prems(2) [of k v] by simp
  qed (use Cons.prems(3) that(2) p in auto)
  moreover have "\<exists>q. intersperse_comma (map member_text d) @ 125 # rest = 34 # q" if "d \<noteq> []"
    using that by (cases d) (auto simp: intersperse_Cons member_text_def quoted_qbody)
  ultimately show ?case using Cons.prems(3) by (auto simp: m p)
qed simp

lemma scan_long:
  "wf_json v \<Longrightarrow> but_for_length v \<Longrightarrow> \<not> canon_ok v \<Longrightarrow> value_end r \<Longrightarrow> 2 * length (jtext v @ r) < n
     \<Longrightarrow> scan_once n (jtext v @ r) = Inl over_long"
proof (induction v arbitrary: n r rule: jtext.induct)
  case (3 i)
  then obtain m where m: "n = Suc m" by (cases n) auto
  obtain c t where ct: "int_str i = c # t" "is_digit c \<or> c = 45" using int_str_hd by blast
  have "match_number (c # t @ r) = Some (int_str i, False, r)"
    using match_number_int [OF 3(4), of i] by (simp add: ct)
  moreover have "integer_within_interval (c # t) = Inl over_long"
    using too_long_raises [of i] 3(2,3) by (simp add: ct)
  ultimately show ?case using ct by (auto simp: m starts_def lit_def is_digit_def)
next
  case (5 vs)
  then obtain m w ws where m: "n = Suc m" and vs: "vs = w # ws" by (cases n; cases vs) auto
  have whole: "jtext (JList vs) @ r = 91 # intersperse_comma (map jtext vs) @ 93 # r"
    by (simp only: jtext_list append_Cons append_assoc append_Nil)
  have "scan_array m (intersperse_comma (map jtext vs) @ 93 # r) = Inl over_long"
  proof (rule scan_array_long)
    show "2 * length (intersperse_comma (map jtext vs) @ 93 # r) + 1 < m"
      using 5(6) unfolding whole m by simp
    show "scan_once k (jtext v @ q) = (if canon_ok v then Inr (sort_json v, q) else Inl over_long)"
      if "v \<in> set vs" "value_end q" "2 * length (jtext v @ q) < k" for v k q
      using that 5 scan_once_jtext [of v q k] by auto
  qed (use 5(4) in simp)
  moreover obtain c t where "intersperse_comma (map jtext vs) @ 93 # r = c # t" "\<not> is_ws c" "c \<noteq> 93"
    using jtext_hd [of w] by (auto simp: vs intersperse_Cons)
  ultimately show ?case unfolding whole m by simp
next
  case (6 d)
  then obtain m where m: "n = Suc m" by (cases n) auto
  let ?d = "sort_key fst d"
  have whole: "jtext (JDict d) @ r = 123 # intersperse_comma (map member_text ?d) @ 125 # r"
    by (simp only: jtext_dict append_Cons append_assoc append_Nil)
  have bad: "\<exists>(k, v) \<in> set ?d. \<not> canon_ok v" using 6(3,4) by auto
  then obtain p e where "?d = p # e" by (cases ?d) auto
  then obtain s where s: "intersperse_comma (map member_text ?d) @ 125 # r = 34 # s"
    by (cases p) (simp add: intersperse_Cons member_text_pair)
  have "scan_object m s = Inl over_long"
  proof (rule scan_object_long [OF _ _ bad s])
    show "2 * length s + 1 < m" using 6(6) unfolding whole s m by simp
    show "scan_once k (jtext v @ q) = (if canon_ok v then Inr (sort_json v, q) else Inl over_long)"
      if "(x, v) \<in> set ?d" "value_end q" "2 * length (jtext v @ q) < k" for x v k q
      using that 6(1) [of "(x, v)" x v q k] 6(2,3) scan_once_jtext [of v q k] by auto
    show "no_surrogate x" if "(x, v) \<in> set ?d" for x v
      using that 6(3) by auto
  qed
  then show ?case unfolding whole s m by simp
qed auto


text \<open>Such a document, at any depth the loader reads, is one on which it raises.\<close>

lemma but_for_length_depth: "but_for_length v \<Longrightarrow> scans (jtext v) (jdepth v)"
proof (induction v rule: jtext.induct)
  case (5 vs)
  then have "list_all2 scans (map jtext vs) (map jdepth vs)"
    by (auto simp: list_all2_conv_all_nth)
  then show ?case unfolding jtext_list jdepth.simps by (rule scans_bracket) auto
next
  case (6 d)
  let ?d = "sort_key fst d"
  have "list_all2 scans (map member_text ?d) (map (\<lambda>(k, v). jdepth v) ?d)"
    using 6 by (auto simp: list_all2_map1 list_all2_map2 list_all2_same intro!: scans_member)
  then have "scans (jtext (JDict d)) (Suc (foldr max (map (\<lambda>(k, v). jdepth v) ?d) 0))"
    unfolding jtext_dict by (rule scans_bracket) auto
  moreover have "foldr max (map (\<lambda>(k, v). jdepth v) ?d) 0 = foldr max (map (\<lambda>(k, v). jdepth v) d) 0"
    by (rule foldr_max_set) simp
  ultimately show ?case by simp
next
  case (3 i)
  then show ?case using int_str_plain by (simp add: scans_plain del: insert_iff)
qed (use scans_jtext in \<open>auto simp del: jtext.simps jdepth.simps\<close>)

lemma load_json_long:
  assumes "wf_json v" "but_for_length v" "\<not> canon_ok v" "jdepth v \<le> 64"
  shows "load_json_bytes (concat (map encode_char (jtext v))) = Inl over_long"
proof -
  have "scan_once (2 * length (jtext v) + 1) (skip_ws (jtext v)) = Inl over_long"
    using scan_long [OF assms(1-3), of "[]"] skip_ws_jtext [of v "[]"] by (simp add: value_end_def del: scan_once.simps)
  moreover have "reject_excess_depth (jtext v) = Inr ()"
    using scans_D [OF but_for_length_depth [OF assms(2)], of 0 "[]"] assms(4) by (simp add: reject_excess_depth_def)
  ultimately show ?thesis
    by (simp add: load_json_bytes_def decode_canonical [OF assms(1)] json_loads_def del: scan_once.simps)
qed

section \<open>What the listing does with it\<close>

lemma load_canonical_bare:
  assumes "load_canonical p (VErr c' m' d') t = Inl (PyErr c m)"
  shows "PyErr c m = over_long"
proof -
  have loaded: "canonical_bytes (py v) \<noteq> Inl (PyErr c m)" if "load_json_bytes b = Inr v" for b v
  proof -
    have "wf_json v" "canon_ok v" using load_json_loadable [OF that] canon_json_iff by (auto simp: loadable_def)
    then have "canonical_bytes (py v) = Inr (concat (map encode_char (jtext v)))" by (simp add: canonical_bytes_iff)
    then show ?thesis by simp
  qed
  have "read_store_file p t \<noteq> Inl (PyErr c m)"
    by (auto simp: read_store_file_def symlink_refused_def oversized_def split: option.splits entry.splits)
  with assms obtain b where "load_json_bytes b = Inl (PyErr c m) \<or>
      (\<exists>v. load_json_bytes b = Inr v \<and> canonical_bytes (py v) = Inl (PyErr c m))"
    by (auto simp: load_canonical_def require_store_file_def bindE_Inl_iff split: option.splits if_split_asm)
  with loaded have "load_json_bytes b = Inl (PyErr c m)" by blast
  then show ?thesis by (rule load_json_bare)
qed

lemma summary_fields_typed:
  "not_a_receipt r \<noteq> Inl (PyErr c m)" "listed_string name v \<noteq> Inl (PyErr c m)"
  by (auto simp: not_a_receipt_def listed_string_def split: sum.splits exn.splits json.splits)

lemma summary_of_bare: "summary_of name t = Inl (PyErr c m) \<Longrightarrow> PyErr c m = over_long"
  unfolding summary_of_def
  by (auto simp: bindE_Inl_iff summary_fields_typed split: option.splits dest: load_canonical_bare)

lemma read_summaries_raises:
  "read_summaries names t ss rs = Inl e \<longleftrightarrow>
     (\<exists>name \<in> set names. has_json_suffix name \<and> (\<exists>c m. summary_of name t = Inl (PyErr c m))) \<and> e = over_long"
proof (induction names arbitrary: ss rs)
  case (Cons name names)
  then show ?case
    using summary_of_bare [of name t] by (cases "summary_of name t") (auto split: exn.split)
qed simp

lemma names_in_iff: "name \<in> set (names_in t d) \<longleftrightarrow> d @ [name] \<in> set (keys t)"
proof
  assume "name \<in> set (names_in t d)"
  then obtain p e where p: "(p, e) \<in> set t" "p \<noteq> []" "butlast p = d" "name = last p" by (auto simp: names_in_def)
  then have "p = d @ [name]" by (metis append_butlast_last_id)
  with p(1) show "d @ [name] \<in> set (keys t)" by (force simp: keys_def)
qed (force simp: names_in_def keys_def)

section \<open>Properties\<close>

text \<open>
  C36. A listing that answers hides nothing. Every file in the receipts directory whose name ends in
  \<^verbatim>\<open>.json\<close> is either summarized, with exactly what its bytes say, or refused by its name with the code that
  refused it; nothing else is listed as a record, and the summaries are ordered by instant and identifier.
\<close>

theorem listing_names_every_record:
  assumes "listing_from_records t = Inr l"
  shows "mset (ls_summaries l) = mset (List.map_filter (summarized t)
            (filter has_json_suffix (names_in t receipts_dir))) \<and>
    ls_refused l = List.map_filter (refused_as t)
            (filter has_json_suffix (names_in t receipts_dir)) \<and>
    length (ls_summaries l) + length (ls_refused l) = length (filter has_json_suffix (names_in t receipts_dir)) \<and>
    sorted (map (\<lambda>s. (sm_created_at s, sm_receipt_id s)) (ls_summaries l))"
proof -
  let ?names = "filter has_json_suffix (names_in t receipts_dir)"
  from assms obtain ss rs where r: "read_summaries (names_in t receipts_dir) t [] [] = Inr (ss, rs)"
    and l: "l = \<lparr>ls_summaries = sort_key (\<lambda>s. (sm_created_at s, sm_receipt_id s)) ss, ls_refused = rs\<rparr>"
    by (auto simp: listing_from_records_def bindE_Inr_iff store_entries_def split: option.splits entry.splits)
  have "(summarized t name = None) \<noteq> (refused_as t name = None)" if "name \<in> set ?names" for name
    using that r by (cases "summary_of name t") (auto simp: read_summaries_iff summarized_def refused_as_def split: exn.splits)
  from map_filter_lengths [of ?names, OF this] r l show ?thesis
    by (simp add: read_summaries_iff)
qed

text \<open>
  C38. One damaged file does end the listing. The loader has a single exception that is not a refusal, the
  \<^verbatim>\<open>ValueError\<close> of converting an integer of more than 4300 digits: whenever it raises bare on the bytes of a
  file, this is the exception and the decoded text holds such a run of digits. One file of the receipts directory,
  whatever else it holds, on which the loader raises it is enough: neither a listing nor the rebuilding of the
  index answers, both raise this \<^verbatim>\<open>ValueError\<close> and nothing has changed, and so does the refresh after a commit,
  which tolerates the failures it expects.
\<close>

theorem long_integer_ends_listing:
  assumes "has_json_suffix name" "map_of (h_fs h) (receipts_dir @ [name]) = Some (File b)"
    "length b \<le> max_receipt_bytes" "map_of (h_fs h) receipts_dir = Some Directory"
    and "load_json_bytes b = Inl (PyErr c m)"
  shows "PyErr c m = PyErr PyValueError (lit ''Exceeds the limit (4300 digits) for integer string conversion'') \<and>
    (\<exists>before ds after. decode_utf8 b = Inr (before @ ds @ after) \<and> 4300 < length ds \<and> list_all is_digit ds) \<and>
    listing (h_fs h) = Inl (PyErr c m) \<and>
    rebuild_index h = (Raised (PyErr c m), h) \<and>
    refresh_index h = (Raised (PyErr c m), h)"
proof -
  note bare = load_json_bare [OF assms(5)]
  have "summary_of name (h_fs h) = Inl (PyErr c m)"
    using assms by (simp add: summary_of_def load_canonical_def require_store_file_def read_store_file_def)
  moreover have "name \<in> set (names_in (h_fs h) receipts_dir)"
    using map_of_SomeD [OF assms(2)] by (force simp: names_in_iff keys_def)
  ultimately have "read_summaries (names_in (h_fs h) receipts_dir) (h_fs h) [] [] = Inl (PyErr c m)"
    using assms(1) bare(1) unfolding read_summaries_raises by blast
  then have "listing_from_records (h_fs h) = Inl (PyErr c m)"
    using assms(4)
    by (auto simp: listing_from_records_def store_entries_def bindE_Inl_iff)
  moreover have "\<not> cache_failure (PyErr c m)" using bare(1) by (simp add: over_long_def)
  ultimately have "listing (h_fs h) = Inl (PyErr c m) \<and> rebuild_index h = (Raised (PyErr c m), h) \<and>
      refresh_index h = (Raised (PyErr c m), h)"
    by (simp add: listing_def rebuild_index_def refresh_index_def bindS_def readS_def catchS_def raiseS_def
        del: cache_failure.simps)
  with bare show ?thesis by (auto simp: over_long_def digit_run_def int_max_str_digits_def)
qed

section \<open>Witnesses\<close>

definition damaged_tree :: "bytes \<Rightarrow> fs" where
  "damaged_tree b = [([], Directory), (receipts_dir, Directory), (receipts_dir @ [lit ''x.json''], File b)]"

lemma damaged_names: "names_in (damaged_tree b) receipts_dir = [lit ''x.json'']"
  by (simp add: names_in_def damaged_tree_def receipts_dir_def)

lemma json_name: "has_json_suffix (lit ''x.json'')"
  by (simp add: has_json_suffix_def json_suffix_def lit_def)

lemma damaged_lookup:
  "map_of (damaged_tree b) receipts_dir = Some Directory"
  "map_of (damaged_tree b) (receipts_dir @ [lit ''x.json'']) = Some (File b)"
  by (simp_all add: damaged_tree_def receipts_dir_def)

theorem listing_names_every_record_witness:
  "\<exists>l. listing_from_records (damaged_tree []) = Inr l \<and> length (ls_refused l) = 1"
proof -
  have "load_json_bytes [] = Inl syntax_failure" by code_simp
  then have s: "summary_of (lit ''x.json'') (damaged_tree []) = Inl syntax_failure"
    by (simp add: summary_of_def load_canonical_def require_store_file_def read_store_file_def damaged_lookup)
  then have "\<exists>ss rs. read_summaries (names_in (damaged_tree []) receipts_dir) (damaged_tree []) [] [] = Inr (ss, rs)"
    by (simp add: damaged_names json_name syntax_failure_def)
  then obtain l where l: "listing_from_records (damaged_tree []) = Inr l"
    by (auto simp: listing_from_records_def store_entries_def damaged_lookup)
  from listing_names_every_record [OF l] s
  have "ls_refused l = [refusal (lit ''x.json'') (case syntax_failure of VErr c m d \<Rightarrow> c) (case syntax_failure of VErr c m d \<Rightarrow> m)]"
    by (simp add: damaged_names json_name syntax_failure_def map_filter_simps refused_as_def)
  with l show ?thesis by simp
qed

text \<open>A document in the form of a record, with a number in its middle that is too long.\<close>

definition damaged_record :: "nat \<Rightarrow> json" where
  "damaged_record n = JDict [(lit ''outcome'', JList [JInt 1, JInt (10 ^ n)]), (lit ''receipt_id'', JStr (lit ''x''))]"

definition damaged_bytes :: bytes where
  "damaged_bytes = concat (map encode_char (jtext (damaged_record int_max_str_digits)))"

lemma long_number: "too_long (10 ^ int_max_str_digits)" "\<not> safe_int (10 ^ int_max_str_digits)"
proof -
  have "(10 :: int) ^ 16 \<le> 10 ^ int_max_str_digits" by (rule power_increasing) (simp_all add: int_max_str_digits_def)
  then show "\<not> safe_int (10 ^ int_max_str_digits)" by (simp add: safe_int_def max_safe_integer_def)
qed (simp add: too_long_def)

lemma damaged_bytes_load: "load_json_bytes damaged_bytes = Inl over_long"
  unfolding damaged_bytes_def
proof (rule load_json_long)
  have one: "safe_int 1" by (simp add: safe_int_def max_safe_integer_def min_safe_integer_def)
  show "wf_json (damaged_record int_max_str_digits)"
    by (simp add: damaged_record_def wf_str_def lit_def keys_def)
  show "but_for_length (damaged_record int_max_str_digits)" "\<not> canon_ok (damaged_record int_max_str_digits)"
    using one long_number by (simp_all add: damaged_record_def lit_def no_surrogate_def is_surrogate_def)
  show "jdepth (damaged_record int_max_str_digits) \<le> 64" by (simp add: damaged_record_def)
qed

lemma encoded_length: "length (concat (map encode_char t)) \<le> 4 * length t"
  by (induction t) (simp_all add: encode_char_def)

lemma damaged_record_length: "length (jtext (damaged_record n)) \<le> n + 100"
proof -
  have ten: "10 ^ n = int (10 ^ n)" by simp
  have "length (dec (10 ^ n)) \<le> Suc n" by (rule length_dec) simp_all
  then have "length (jtext (JInt (10 ^ n))) \<le> Suc n" unfolding ten by (simp add: int_str_def del: of_nat_power)
  moreover have "length (jtext (JInt 1)) = 1" by (simp add: int_str_def dec.simps [of "Suc 0"])
  ultimately show ?thesis
    by (simp add: damaged_record_def lit_def quoted_def char_text_def named_escape_def del: jtext.simps(3))
qed

lemma damaged_bytes_length: "length damaged_bytes \<le> max_receipt_bytes"
proof -
  have "length damaged_bytes \<le> 4 * (int_max_str_digits + 100)"
    unfolding damaged_bytes_def
    by (rule le_trans [OF encoded_length]) (intro mult_le_mono2 damaged_record_length)
  then show ?thesis by (simp add: int_max_str_digits_def max_receipt_bytes_def)
qed

theorem long_integer_ends_listing_witness:
  "let h = \<lparr>h_fs = damaged_tree damaged_bytes, h_left = None\<rparr> in
     \<exists>m. listing (h_fs h) = Inl (PyErr PyValueError m) \<and> refresh_index h = (Raised (PyErr PyValueError m), h)"
  using long_integer_ends_listing [OF json_name, of "\<lparr>h_fs = damaged_tree damaged_bytes, h_left = None\<rparr>",
      OF _ damaged_bytes_length, of PyValueError]
    damaged_bytes_load
  by (simp add: damaged_lookup over_long_def Let_def)

end
