(* ===== verification/Durability.thy ===== *)
theory Durability
  imports Interleaving Listing
begin

text \<open>
  Committing a record: at every instant its receipt is either not there or stands beside the complete
  inputs it names, whatever raises and wherever the host stops, and nothing else in the store changes.
\<close>

section \<open>The index is apart\<close>

definition index_place :: "fs_path \<Rightarrow> bool" where
  "index_place p \<longleftrightarrow> p = index_path \<or> (\<exists>k < index_slots. p = index_slot k)"

text \<open>A statement about a tree that does not look at the index and its staging slots.\<close>

definition ignores_index :: "(fs \<Rightarrow> bool) \<Rightarrow> bool" where
  "ignores_index J \<longleftrightarrow> (\<forall>t t'. J t \<longrightarrow> (\<forall>p. \<not> index_place p \<longrightarrow> map_of t' p = map_of t p) \<longrightarrow> J t')"

lemma ignores_indexD: "ignores_index J \<Longrightarrow> J t \<Longrightarrow> (\<And>p. \<not> index_place p \<Longrightarrow> map_of t' p = map_of t p) \<Longrightarrow> J t'"
  unfolding ignores_index_def by blast

definition holds_file :: "(fs \<Rightarrow> bool) \<Rightarrow> fs_path \<Rightarrow> fs \<Rightarrow> bool" where
  "holds_file J s t \<longleftrightarrow> J t \<and> index_place s \<and> (\<exists>b. map_of t s = Some (File b))"

lemma claim_index:
  assumes "ignores_index J" "\<And>p. p \<in> set ps \<Longrightarrow> index_place p"
  shows "ensures J (claim_slot ps other full) (holds_file J) J J"
  using assms(2)
proof (induction ps)
  case Nil
  show ?case by (simp add: ensures_raise)
next
  case (Cons p ps)
  have later: "ensures J (claim_slot ps other full) (holds_file J) J J" using Cons by simp
  have p: "index_place p" using Cons.prems by simp
  show ?case unfolding claim_slot.simps
  proof (rule ensures_bind)
    show "ensures J (effect (os_create p)) (\<lambda>r. case r of Inr u \<Rightarrow> holds_file J p | Inl e \<Rightarrow> J) J J"
    proof (rule ensures_effect)
      fix t r t' assume j: "J t" and f: "os_create p t = (r, t')"
      show "(case r of Inr u \<Rightarrow> holds_file J p | Inl e \<Rightarrow> J) t'"
      proof (cases r)
        case (Inl e)
        with f j show ?thesis using os_Inl(2) [of p t e t'] by simp
      next
        case (Inr u)
        with f have t': "map_of t' = (map_of t)(p \<mapsto> File [])" by (auto simp: os_create_Inr)
        then have "J t'" using p by (intro ignores_indexD [OF assms(1) j]) auto
        with t' p Inr show ?thesis by (simp add: holds_file_def)
      qed
    qed
    show "ensures (case r of Inr u \<Rightarrow> holds_file J p | Inl e \<Rightarrow> J)
       (case r of Inr u \<Rightarrow> returnS p | Inl EExist \<Rightarrow> claim_slot ps other full | Inl e \<Rightarrow> raiseS (other e))
       (holds_file J) J J" for r
      using later by (cases r) (auto intro: ensures_return ensures_raise split: os_error.split)
  qed
qed

lemma holds_file_update:
  assumes "ignores_index J" "holds_file J s t" "map_of t' = (map_of t)(s \<mapsto> File b)"
  shows "holds_file J s t'"
proof -
  have "J t'" by (rule ignores_indexD [OF assms(1), of t]) (use assms in \<open>auto simp: holds_file_def\<close>)
  with assms show ?thesis by (auto simp: holds_file_def)
qed

lemma write_held:
  assumes "ignores_index J"
  shows "ensures (holds_file J s) (write_exact s b) (\<lambda>_. holds_file J s) (holds_file J s) (holds_file J s)"
  unfolding write_exact_def
proof (rule ensures_bind [where M = "\<lambda>_. holds_file J s"])
  show "ensures (holds_file J s) (callS (os_truncate s)) (\<lambda>_. holds_file J s) (holds_file J s) (holds_file J s)"
  proof (rule ensures_call)
    fix t t' assume h: "holds_file J s t" "os_truncate s t = (Inr (), t')"
    show "holds_file J s t'"
      by (rule holds_file_update [OF assms h(1)]) (simp add: os_truncate_Inr [OF h(2)])
  next
    show "os_truncate s t = (Inl e, t') \<Longrightarrow> holds_file J s t \<Longrightarrow> holds_file J s t'" for t e t'
      using os_Inl(3) [of s t e t'] by simp
  qed
  show "ensures (holds_file J s) (callS (os_write s b)) (\<lambda>_. holds_file J s) (holds_file J s) (holds_file J s)" for u :: unit
  proof (rule ensures_call)
    fix t t' assume h: "holds_file J s t" "os_write s b t = (Inr (), t')"
    from h(2) obtain old where t': "t' = dset s (File (old @ b)) t" by (auto simp: os_write_Inr)
    show "holds_file J s t'" by (rule holds_file_update [OF assms h(1)]) (simp add: t')
  next
    show "os_write s b t = (Inl e, t') \<Longrightarrow> holds_file J s t \<Longrightarrow> holds_file J s t'" for t e t'
      using os_Inl(4) [of s b t e t'] by simp
  qed
qed

lemma index_places: "index_place index_path" "\<And>k. k < index_slots \<Longrightarrow> index_place (index_slot k)" "\<not> index_slot k = index_path"
  by (auto simp: index_place_def index_slot_def index_path_def tmp_dir_def)

lemma publish_index:
  assumes "ignores_index J"
  shows "ensures (holds_file J s) (callS (os_rename s index_path)) (\<lambda>_. J) (holds_file J s) J"
proof (rule ensures_call)
  fix t t' assume h: "holds_file J s t" and r: "os_rename s index_path t = (Inr (), t')"
  from h obtain b where s: "map_of t s = Some (File b)" "J t" "index_place s" by (auto simp: holds_file_def)
  show "J t'"
  proof (cases "s = index_path")
    case True
    with r s have "t' = t" by (auto simp: os_rename_def split: if_split_asm)
    with s show ?thesis by simp
  next
    case False
    from rename_file [OF r s(1) False] show ?thesis
      using s(3) index_places(1) by (intro ignores_indexD [OF assms s(2)]) auto
  qed
next
  show "os_rename s index_path t = (Inl e, t') \<Longrightarrow> holds_file J s t \<Longrightarrow> holds_file J s t'" for t e t'
    using os_Inl(7) by blast
qed (auto simp: holds_file_def)

lemma unlink_index:
  assumes "ignores_index J"
  shows "ensures (holds_file J s) (unlink_if_there s) (\<lambda>_. J) J J"
  unfolding unlink_if_there_def
proof (rule ensures_bind [where M = "\<lambda>_. J"])
  show "ensures (holds_file J s) (effect (os_unlink s)) (\<lambda>_. J) J J"
  proof (rule ensures_effect)
    fix t r t' assume h: "holds_file J s t" and f: "os_unlink s t = (r, t')"
    then have "map_of t' = map_of t \<or> map_of t' = (map_of t)(s := None)"
      by (auto simp: os_unlink_def split: option.splits entry.splits)
    then have "map_of t' p = map_of t p" if "p \<noteq> s" for p using that by auto
    moreover have "J t" "index_place s" using h by (simp_all add: holds_file_def)
    ultimately show "J t'" using ignores_indexD [OF assms] by metis
  qed (simp add: holds_file_def)
  show "ensures J (case r of Inr u \<Rightarrow> returnS () | Inl ENoent \<Rightarrow> returnS () | Inl e \<Rightarrow> raiseS (os_failure e)) (\<lambda>_. J) J J" for r
    by (auto intro: ensures_return ensures_raise split: sum.split os_error.split)
qed

lemma refresh_frame:
  assumes "ignores_index J"
  shows "ensures J refresh_index (\<lambda>_. J) J J"
proof -
  have body: "ensures (holds_file J s)
     (catchS (bindS (readS (\<lambda>t. canonical_bytes (py (index_document ss)))) (\<lambda>b.
             bindS (write_exact s b) (\<lambda>_. callS (os_rename s index_path))))
       (\<lambda>e. bindS (unlink_if_there s) (\<lambda>_. raiseS e))) (\<lambda>_. J) J J" for s ss
  proof (rule ensures_catch [where M = "holds_file J s"])
    show "ensures (holds_file J s) (bindS (readS (\<lambda>t. canonical_bytes (py (index_document ss)))) (\<lambda>b.
             bindS (write_exact s b) (\<lambda>_. callS (os_rename s index_path)))) (\<lambda>_. J) (holds_file J s) J"
    proof (rule ensures_bind [where M = "\<lambda>_. holds_file J s"])
      show "ensures (holds_file J s) (bindS (write_exact s b) (\<lambda>_. callS (os_rename s index_path))) (\<lambda>_. J) (holds_file J s) J" for b
        by (rule ensures_bind [OF ensures_weaken [OF write_held [OF assms]] publish_index [OF assms]])
          (auto simp: holds_file_def)
    qed (rule ensures_read)
    show "ensures (holds_file J s) (bindS (unlink_if_there s) (\<lambda>_. raiseS e)) (\<lambda>_. J) J J" for e
      by (rule ensures_bind [OF unlink_index [OF assms]]) (rule ensures_raise)
  qed
  have writes: "ensures J (write_index ss) (\<lambda>_. J) J J" for ss
    unfolding write_index_def index_staging_slot_def
    by (rule ensures_bind [where M = "\<lambda>_. J", OF ensures_read], simp_all,
        rule ensures_bind [OF claim_index [OF assms] body]) (auto intro: index_places)
  show ?thesis unfolding refresh_index_def
  proof (rule ensures_catch [where M = J])
    show "ensures J (bindS (readS listing_from_records) (\<lambda>l. write_index (ls_summaries l))) (\<lambda>_. J) J J"
      by (rule ensures_bind [where M = "\<lambda>_. J", OF ensures_read writes]) simp_all
    show "ensures J (if cache_failure e then returnS () else raiseS e) (\<lambda>_. J) J J" for e
      by (auto intro: ensures_return ensures_raise)
  qed
qed

section \<open>The commit\<close>

text \<open>The paths of one record: its two committed names and its two staging names, with what is beneath.\<close>

definition record_place :: "ustr \<Rightarrow> fs_path \<Rightarrow> bool" where
  "record_place i p \<longleftrightarrow>
     p = receipt_path i \<or> p = inputs_path i \<or> p = staging_path i \<or> p = staged_receipt i \<or>
     beneath (inputs_path i) p \<or> beneath (staging_path i) p"

definition committed :: "ustr \<Rightarrow> bytes \<Rightarrow> (string \<times> ustr) list \<Rightarrow> fs \<Rightarrow> bool" where
  "committed i receipt bodies t \<longleftrightarrow>
     map_of t (receipt_path i) = Some (File receipt) \<and> map_of t (inputs_path i) = Some Directory \<and>
     (\<forall>(name, text) \<in> set bodies. \<exists>b. utf8_bytes text = Inr b \<and>
        map_of t (inputs_path i @ [body_file name]) = Some (File b))"

text \<open>Before the last rename: the receipt is not there, and nothing outside the record has changed.\<close>

definition pending :: "ustr \<Rightarrow> (fs_path \<Rightarrow> entry option) \<Rightarrow> fs \<Rightarrow> bool" where
  "pending i m t \<longleftrightarrow> map_of t (receipt_path i) = None \<and> (\<forall>p. \<not> record_place i p \<longrightarrow> map_of t p = m p)"

definition staging_open :: "ustr \<Rightarrow> (fs_path \<Rightarrow> entry option) \<Rightarrow> fs \<Rightarrow> bool" where
  "staging_open i m t \<longleftrightarrow> pending i m t \<and> map_of t (staging_path i) = Some Directory"

definition staged :: "ustr \<Rightarrow> (fs_path \<Rightarrow> entry option) \<Rightarrow> bytes \<Rightarrow> (string \<times> ustr) list \<Rightarrow> fs \<Rightarrow> bool" where
  "staged i m receipt bodies t \<longleftrightarrow> staging_open i m t \<and>
     map_of t (staging_path i @ [lit ''receipt.json'']) = Some (File receipt) \<and>
     (\<forall>(name, text) \<in> set bodies. \<exists>b. utf8_bytes text = Inr b \<and>
        map_of t (staging_path i @ [body_file name]) = Some (File b))"

lemma record_paths_apart:
  "receipt_path i \<noteq> inputs_path i" "receipt_path i \<noteq> staging_path i" "receipt_path i \<noteq> staged_receipt i"
  "inputs_path i \<noteq> staging_path i" "inputs_path i \<noteq> staged_receipt i" "staging_path i \<noteq> staged_receipt i"
  "staging_path i @ [x] \<noteq> receipt_path i" "staging_path i @ [x] \<noteq> inputs_path i"
  "staging_path i @ [x] \<noteq> staged_receipt i" "inputs_path i @ [x] \<noteq> receipt_path i" "inputs_path i @ [x] \<noteq> staged_receipt i"
  "\<not> beneath (staging_path i) (receipt_path i)" "\<not> beneath (inputs_path i) (receipt_path i)"
  "\<not> beneath (staging_path i) (staged_receipt i)" "\<not> beneath (inputs_path i) (staged_receipt i)"
  by (simp_all add: receipt_path_def inputs_path_def staging_path_def staged_receipt_def receipts_dir_def tmp_dir_def
      json_suffix_def inputs_suffix_def beneath_def)

lemmas record_paths_apart' = record_paths_apart record_paths_apart(1-11) [symmetric]

lemma write_staged:
  assumes "\<And>t t' b. J t \<Longrightarrow> map_of t' = (map_of t)(p \<mapsto> File b) \<Longrightarrow> J t'"
  shows "ensures J (write_text p text) (\<lambda>_ t. J t \<and> (\<exists>b. utf8_bytes text = Inr b \<and> map_of t p = Some (File b))) J J"
  unfolding write_text_def
proof (rule ensures_bind [where M = "\<lambda>b t. J t \<and> utf8_bytes text = Inr b"])
  show "ensures (\<lambda>t. J t \<and> utf8_bytes text = Inr b) (write_exact p b)
     (\<lambda>_ t. J t \<and> (\<exists>b. utf8_bytes text = Inr b \<and> map_of t p = Some (File b))) J J" for b
    unfolding write_exact_def
  proof (rule ensures_bind [where M = "\<lambda>_ t. J t \<and> utf8_bytes text = Inr b \<and> map_of t p = Some (File [])"])
    show "ensures (\<lambda>t. J t \<and> utf8_bytes text = Inr b) (callS (os_truncate p))
      (\<lambda>_ t. J t \<and> utf8_bytes text = Inr b \<and> map_of t p = Some (File [])) J J"
    proof (rule ensures_call)
      fix t t' assume h: "J t \<and> utf8_bytes text = Inr b" "os_truncate p t = (Inr (), t')"
      from os_truncate_Inr [OF h(2)] have m: "map_of t' = (map_of t)(p \<mapsto> File [])" by simp
      with assms [of t t' "[]"] h(1) show "J t' \<and> utf8_bytes text = Inr b \<and> map_of t' p = Some (File [])" by simp
    qed (auto dest: os_Inl(3))
    show "ensures (\<lambda>t. J t \<and> utf8_bytes text = Inr b \<and> map_of t p = Some (File [])) (callS (os_write p b))
      (\<lambda>_ t. J t \<and> (\<exists>b. utf8_bytes text = Inr b \<and> map_of t p = Some (File b))) J J" for u :: unit
    proof (rule ensures_call)
      fix t t' assume h: "J t \<and> utf8_bytes text = Inr b \<and> map_of t p = Some (File [])" "os_write p b t = (Inr (), t')"
      from h have m: "map_of t' = (map_of t)(p \<mapsto> File b)" by (auto simp: os_write_Inr)
      with assms [of t t' b] h(1) show "J t' \<and> (\<exists>b. utf8_bytes text = Inr b \<and> map_of t' p = Some (File b))" by simp
    qed (auto dest: os_Inl(4))
  qed
qed (rule ensures_read, simp_all)

lemma staging_open_update:
  assumes "staging_open i m t" "map_of t' = (map_of t)(staging_path i @ [x] \<mapsto> File b)"
  shows "staging_open i m t'"
  using assms record_paths_apart'
  by (auto simp: staging_open_def pending_def record_place_def beneath_def)

lemma ensures_check:
  assumes "\<And>x t. x \<in> set xs \<Longrightarrow> J t \<Longrightarrow> f x t = Inr () \<Longrightarrow> R x t"
  shows "ensures J (eachS (\<lambda>x. readS (f x)) xs) (\<lambda>_ t. J t \<and> (\<forall>x \<in> set xs. R x t)) J J"
  using assms
proof (induction xs)
  case (Cons x xs)
  have rest: "ensures J (eachS (\<lambda>x. readS (f x)) xs) (\<lambda>_ t. J t \<and> (\<forall>x \<in> set xs. R x t)) J J" using Cons by simp
  have later: "ensures (\<lambda>t. J t \<and> R x t) (eachS (\<lambda>x. readS (f x)) xs) (\<lambda>_ t. J t \<and> (\<forall>y \<in> set (x # xs). R y t)) J J"
  proof (rule ensuresI)
    fix h r h' assume p: "J (h_fs h) \<and> R x (h_fs h)" and e: "eachS (\<lambda>x. readS (f x)) xs h = (r, h')"
    have still: "h' = h" if "eachS (\<lambda>x. readS (f x)) xs h = (r, h')" for h r
      using that by (induction xs arbitrary: h) (auto simp: returnS_def bindS_def readS_def split: sum.splits outcome.splits)
    from ensuresD [OF rest _ e] p still [OF e] show "case r of Returned u \<Rightarrow> J (h_fs h') \<and> (\<forall>y \<in> set (x # xs). R y (h_fs h'))
       | Raised e \<Rightarrow> J (h_fs h') | Stopped \<Rightarrow> J (h_fs h')"
      by (auto split: outcome.splits)
  qed
  show ?case unfolding eachS.simps
    by (rule ensures_bind [OF _ later], rule ensures_read) (use Cons.prems in auto)
qed (simp add: ensures_return)

lemma check_written_Inr:
  "check_written p text t = Inr () \<Longrightarrow> \<exists>b. utf8_bytes text = Inr b \<and> map_of t p = Some (File b)"
  by (auto simp: check_written_def bindE_Inr_iff split: option.splits entry.splits if_split_asm)

lemma staged_updates:
  assumes "pending i m t" "\<And>p. \<not> record_place i p \<Longrightarrow> map_of t' p = map_of t p"
    "map_of t' (receipt_path i) = map_of t (receipt_path i)"
  shows "pending i m t'"
  using assms by (simp add: pending_def)

text \<open>The three renames: the receipt out of the way, the inputs into place, the receipt into place.\<close>

lemma ensures_renames:
  assumes "\<And>name text. (name, text) \<in> set bodies \<Longrightarrow> body_file name \<noteq> lit ''receipt.json''"
  shows "ensures (\<lambda>t. staged i m receipt bodies t \<and> map_of t (inputs_path i) = None)
     (bindS (callS (os_rename (staging_path i @ [lit ''receipt.json'']) (staged_receipt i))) (\<lambda>_.
      bindS (callS (os_rename (staging_path i) (inputs_path i))) (\<lambda>_.
      callS (os_rename (staged_receipt i) (receipt_path i)))))
     (\<lambda>_ t. committed i receipt bodies t \<and> (\<forall>p. \<not> record_place i p \<longrightarrow> map_of t p = m p)) (pending i m) (pending i m)"
proof (rule ensures_bind)
  let ?has = "\<lambda>d t. \<forall>(name, text) \<in> set bodies. \<exists>b. utf8_bytes text = Inr b \<and> map_of t (d @ [body_file name]) = Some (File b)"
  let ?one = "\<lambda>t. staging_open i m t \<and> map_of t (staged_receipt i) = Some (File receipt) \<and> ?has (staging_path i) t"
  let ?two = "\<lambda>t. pending i m t \<and> map_of t (staged_receipt i) = Some (File receipt) \<and>
     map_of t (inputs_path i) = Some Directory \<and> ?has (inputs_path i) t"
  let ?src = "staging_path i @ [lit ''receipt.json'']"
  show "ensures (\<lambda>t. staged i m receipt bodies t \<and> map_of t (inputs_path i) = None)
     (callS (os_rename ?src (staged_receipt i))) (\<lambda>_. ?one) (pending i m) (pending i m)"
  proof (rule ensures_call)
    fix t t' assume h: "staged i m receipt bodies t \<and> map_of t (inputs_path i) = None"
      and r: "os_rename ?src (staged_receipt i) t = (Inr (), t')"
    from h have f: "map_of t ?src = Some (File receipt)" by (simp add: staged_def)
    from rename_file [OF r f] have m: "map_of t' = (map_of t)(?src := None, staged_receipt i \<mapsto> File receipt)"
      by (simp add: record_paths_apart)
    have "?has (staging_path i) t'"
    proof (clarify)
      fix name content assume n: "(name, content) \<in> set bodies"
      from h n obtain b where "utf8_bytes content = Inr b" "map_of t (staging_path i @ [body_file name]) = Some (File b)"
        by (auto simp: staged_def)
      with assms [OF n] show "\<exists>b. utf8_bytes content = Inr b \<and> map_of t' (staging_path i @ [body_file name]) = Some (File b)"
        by (simp add: m record_paths_apart)
    qed
    moreover have "staging_open i m t'"
      using h by (auto simp: staged_def staging_open_def pending_def m record_paths_apart' record_place_def beneath_def)
    ultimately show "?one t'" by (simp add: m)
  qed (auto simp: staged_def staging_open_def dest!: os_Inl(7))
  show "ensures ?one (bindS (callS (os_rename (staging_path i) (inputs_path i))) (\<lambda>_.
      callS (os_rename (staged_receipt i) (receipt_path i))))
     (\<lambda>_ t. committed i receipt bodies t \<and> (\<forall>p. \<not> record_place i p \<longrightarrow> map_of t p = m p)) (pending i m) (pending i m)" for u :: unit
  proof (rule ensures_bind)
    show "ensures ?one (callS (os_rename (staging_path i) (inputs_path i))) (\<lambda>_. ?two) (pending i m) (pending i m)"
    proof (rule ensures_call)
      fix t t' assume h: "?one t" and r: "os_rename (staging_path i) (inputs_path i) t = (Inr (), t')"
      from h have d: "map_of t (staging_path i) = Some Directory" by (simp add: staging_open_def)
      note mv = rename_directory [OF r d] record_paths_apart'
      have same: "map_of t' p = map_of t p" if "p \<noteq> staging_path i" "p \<noteq> inputs_path i"
          "\<not> beneath (staging_path i) p" "\<not> beneath (inputs_path i) p" for p
        using mv(2) [OF _ that] record_paths_apart' by metis
      have "map_of t' (inputs_path i @ x) = map_of t (staging_path i @ x)" for x
        using mv(1) record_paths_apart' by metis
      from this [of "[]"] this [of "[_]"] h d same show "?two t'"
        by (auto simp: staging_open_def pending_def record_paths_apart' record_place_def)
    qed (auto simp: staging_open_def dest!: os_Inl(7))
    show "ensures ?two (callS (os_rename (staged_receipt i) (receipt_path i)))
     (\<lambda>_ t. committed i receipt bodies t \<and> (\<forall>p. \<not> record_place i p \<longrightarrow> map_of t p = m p)) (pending i m) (pending i m)" for u :: unit
    proof (rule ensures_call)
      fix t t' assume h: "?two t" and r: "os_rename (staged_receipt i) (receipt_path i) t = (Inr (), t')"
      from h have f: "map_of t (staged_receipt i) = Some (File receipt)" by simp
      from rename_file [OF r f] record_paths_apart' have m: "map_of t' = (map_of t)(staged_receipt i := None, receipt_path i \<mapsto> File receipt)"
        by metis
      have "map_of t' (inputs_path i @ [x]) = map_of t (inputs_path i @ [x])" for x by (simp add: m record_paths_apart)
      with h show "committed i receipt bodies t' \<and> (\<forall>p. \<not> record_place i p \<longrightarrow> map_of t' p = m p)"
        by (simp add: committed_def pending_def record_paths_apart record_place_def) (auto simp: m record_paths_apart')
    qed (auto dest!: os_Inl(7))
  qed
qed

lemma ensures_commit:
  assumes names: "\<And>name text. (name, text) \<in> set bodies \<Longrightarrow> name \<in> set body_names"
    and receipt: "utf8_bytes receipt_text = Inr receipt"
  shows "ensures (staging_open i m) (commit_record i receipt_text bodies)
     (\<lambda>_ t. committed i receipt bodies t \<and> (\<forall>p. \<not> record_place i p \<longrightarrow> map_of t p = m p)) (pending i m) (pending i m)"
proof -
  have other: "body_file name \<noteq> lit ''receipt.json''" if "(name, content) \<in> set bodies" for name content
    using names [OF that] by (auto simp: body_names_def body_file_def json_suffix_def simp flip: lit_append)
  let ?J = "staging_open i m"
  have up: "?J t'" if "?J t" "map_of t' = (map_of t)(staging_path i @ [x] \<mapsto> File b)" for t t' x b
    by (rule staging_open_update [OF that])
  let ?R = "\<lambda>t. ?J t \<and> map_of t (staging_path i @ [lit ''receipt.json'']) = Some (File receipt)"
  have 1: "ensures ?J (eachS (\<lambda>(name, text). write_text (staging_path i @ [body_file name]) text) bodies) (\<lambda>_. ?J) (pending i m) (pending i m)"
    by (rule ensures_weaken [OF ensures_each [where I = ?J]])
      (auto simp: staging_open_def [of i m] intro!: ensures_weaken [OF write_staged [where J = ?J, OF up]])
  have 2: "ensures ?J (write_text (staging_path i @ [lit ''receipt.json'']) receipt_text) (\<lambda>_. ?R) (pending i m) (pending i m)"
    by (rule ensures_weaken [OF write_staged [where J = ?J, OF up]]) (auto simp: staging_open_def receipt)
  have 3: "ensures ?R (eachS (\<lambda>(name, text). readS (check_written (staging_path i @ [body_file name]) text)) bodies)
     (\<lambda>_. staged i m receipt bodies) (pending i m) (pending i m)"
    by (rule ensures_weaken [OF ensures_check [where J = ?R and xs = bodies and
          f = "\<lambda>(name, text). check_written (staging_path i @ [body_file name]) text" and
          R = "\<lambda>(name, text) t. \<exists>b. utf8_bytes text = Inr b \<and> map_of t (staging_path i @ [body_file name]) = Some (File b)", 
          unfolded prod.case_distrib [of readS]]])
      (auto simp: staged_def staging_open_def dest: check_written_Inr)
  have 4: "ensures (\<lambda>t. there = is_entry (inputs_path i) t \<and> staged i m receipt bodies t)
      (if there then raiseS (VErr StoreCommitConflict (lit ''An inputs directory already exists for '' @ i) NoDetail)
       else
         bindS (callS (os_rename (staging_path i @ [lit ''receipt.json'']) (staged_receipt i))) (\<lambda>_.
         bindS (callS (os_rename (staging_path i) (inputs_path i))) (\<lambda>_.
         callS (os_rename (staged_receipt i) (receipt_path i)))))
     (\<lambda>_ t. committed i receipt bodies t \<and> (\<forall>p. \<not> record_place i p \<longrightarrow> map_of t p = m p)) (pending i m) (pending i m)" for there
  proof (cases there)
    case True
    then show ?thesis by (auto intro!: ensures_raise simp: staged_def staging_open_def)
  next
    case False
    show ?thesis unfolding if_not_P [OF False]
      by (rule ensures_weaken [OF ensures_renames [OF other]]) (auto simp: False is_entry_def)
  qed
  show ?thesis unfolding commit_record_def
    by (rule ensures_bind [OF 1], rule ensures_bind [OF 2], rule ensures_bind [OF 3], rule ensures_bind [OF _ 4],
        rule ensures_read) (auto simp: staged_def staging_open_def)
qed

section \<open>Storing a record\<close>

definition only_record_and_index :: "ustr \<Rightarrow> (fs_path \<Rightarrow> entry option) \<Rightarrow> fs \<Rightarrow> bool" where
  "only_record_and_index i m t \<longleftrightarrow> (\<forall>p. \<not> record_place i p \<and> \<not> index_place p \<longrightarrow> map_of t p = m p)"

definition safely_stored ::
  "ustr \<Rightarrow> bytes \<Rightarrow> (string \<times> ustr) list \<Rightarrow> (fs_path \<Rightarrow> entry option) \<Rightarrow> fs \<Rightarrow> bool" where
  "safely_stored i receipt bodies m t \<longleftrightarrow>
     (map_of t (receipt_path i) = None \<or> committed i receipt bodies t) \<and> only_record_and_index i m t"

lemma committed_ignores_index:
  "ignores_index (\<lambda>t. committed i receipt bodies t \<and> only_record_and_index i m t)"
proof -
  have "\<not> index_place (receipt_path i)" "\<not> index_place (inputs_path i)" "\<not> index_place (inputs_path i @ [x])" for x
    by (auto simp: index_place_def index_path_def index_slot_def tmp_dir_def receipt_path_def inputs_path_def receipts_dir_def)
  then show ?thesis unfolding ignores_index_def committed_def only_record_and_index_def by simp
qed

lemma pending_safe: "pending i m t \<Longrightarrow> safely_stored i receipt bodies m t"
  by (simp add: pending_def safely_stored_def only_record_and_index_def)

lemma record_bodies_names:
  assumes "record_bodies receipt pinned candidate snapshot authorization = Inr bodies" "(name, text) \<in> set bodies"
  shows "name \<in> set body_names"
  using assms by (auto simp: record_bodies_def body_names_def bindE_Inr_iff Let_def split: if_split_asm option.splits)

lemma staging_made:
  assumes "map_of t = m" "m (receipt_path i) = None" "os_mkdir (staging_path i) t = (r, t')"
  shows "case r of Inr u \<Rightarrow> staging_open i m t' | Inl e \<Rightarrow> pending i m t'"
proof (cases r)
  case (Inl e)
  with assms show ?thesis using os_Inl(1) [of "staging_path i" t e t'] by (simp add: pending_def)
next
  case (Inr u)
  with assms have "map_of t' = m(staging_path i \<mapsto> Directory)" by (auto simp: os_mkdir_Inr)
  with assms Inr show ?thesis
    by (auto simp: staging_open_def pending_def record_paths_apart' record_place_def)
qed

lemma ensures_put:
  assumes i: "check_storable (rc_id receipt) = Inr i"
    and bodies: "record_bodies receipt pinned candidate snapshot authorization = Inr bodies"
    and b: "utf8_bytes (rc_canonical receipt) = Inr b"
    and absent: "m (receipt_path i) = None"
  shows "ensures (\<lambda>t. map_of t = m) (put_record X receipt pinned candidate snapshot authorization)
     (\<lambda>_ t. committed i b bodies t \<and> only_record_and_index i m t) (safely_stored i b bodies m) (safely_stored i b bodies m)"
proof -
  let ?S = "safely_stored i b bodies m" and ?J = "\<lambda>t. committed i b bodies t \<and> only_record_and_index i m t"
  have commit: "ensures (staging_open i m) (catchS (commit_record i (rc_canonical receipt) bodies)
      (commit_failure ''The record could not be committed: '')) (\<lambda>_. ?J) ?S ?S"
  proof (rule ensures_catch [where M = "pending i m"])
    show "ensures (staging_open i m) (commit_record i (rc_canonical receipt) bodies) (\<lambda>_. ?J) (pending i m) ?S"
      by (rule ensures_weaken [OF ensures_commit [OF record_bodies_names [OF bodies] b]])
        (auto intro: pending_safe simp: only_record_and_index_def)
    show "ensures (pending i m) (commit_failure ''The record could not be committed: '' e) (\<lambda>_. ?J) ?S ?S" for e
      by (auto simp: commit_failure_def intro!: ensures_raise pending_safe split: exn.split py_class.split)
  qed
  have refresh: "ensures ?J refresh_index (\<lambda>_. ?J) ?S ?S"
    by (rule ensures_weaken [OF refresh_frame [OF committed_ignores_index]]) (auto simp: safely_stored_def)
  have rest: "ensures ?J (bindS refresh_index (\<lambda>_. readS (get_record X (JStr i) None))) (\<lambda>_. ?J) ?S ?S"
    by (rule ensures_bind [OF refresh ensures_read]) (auto simp: safely_stored_def)
  have make: "ensures (\<lambda>t. case made of Inr u \<Rightarrow> staging_open i m t | Inl e \<Rightarrow> pending i m t)
      (case made of
             Inl EExist \<Rightarrow> raiseS (VErr StoreCommitConflict (lit ''A staging path already exists for '' @ i) NoDetail)
           | Inl e \<Rightarrow> raiseS (os_failure e)
           | Inr u \<Rightarrow>
               bindS (catchS (commit_record i (rc_canonical receipt) bodies)
                        (commit_failure ''The record could not be committed: '')) (\<lambda>_.
               bindS refresh_index (\<lambda>_.
               readS (get_record X (JStr i) None)))) (\<lambda>_. ?J) ?S ?S" for made
    by (cases made) (auto intro!: ensures_raise pending_safe ensures_bind [OF commit rest] split: os_error.split)
  have absent': "\<And>t. map_of t = m \<Longrightarrow> \<not> is_entry (receipt_path i) t" using absent by (simp add: is_entry_def)
  show ?thesis unfolding put_record_def i bodies
    by (simp only: bind_read, rule ensures_bind [where M = "\<lambda>there t. \<not> there \<and> map_of t = m"], rule ensures_read)
      (use absent absent' in \<open>auto intro!: ensures_bind [OF ensures_effect make] staging_made pending_safe
         simp: pending_def ensures_def [of "\<lambda>t. False"] split: if_split\<close>)
qed

section \<open>Properties\<close>

text \<open>
  C7. Storing a record is atomic. If its receipt is already there the call changes nothing. Otherwise, however
  the call ends, and also where the host stops it between any two effects, the receipt is absent or stands,
  byte for byte, beside a directory with every body of the record, and only the paths of that record and of
  the index have changed; when the call returns, the record is committed.
\<close>

theorem storing_is_atomic:
  assumes "check_storable (rc_id receipt) = Inr i" "utf8_bytes (rc_canonical receipt) = Inr b"
    "record_bodies receipt pinned candidate snapshot authorization = Inr bodies"
    "put_record X receipt pinned candidate snapshot authorization h = (r, h')"
  shows "if is_entry (receipt_path i) (h_fs h) then h' = h
    else safely_stored i b bodies (map_of (h_fs h)) (h_fs h') \<and> (\<forall>x. r = Returned x \<longrightarrow> committed i b bodies (h_fs h'))"
proof (cases "is_entry (receipt_path i) (h_fs h)")
  case True
  with assms show ?thesis
    by (auto simp: put_record_def bindS_def readS_def is_entry_def split: sum.splits)
next
  case False
  then have absent: "map_of (h_fs h) (receipt_path i) = None" by (simp add: is_entry_def)
  from ensuresD [OF ensures_put [where m = "map_of (h_fs h)", OF assms(1,3,2) absent] refl assms(4)] False show ?thesis
    by (auto simp: safely_stored_def split: outcome.splits)
qed

section \<open>Witnesses\<close>

definition sample_receipt :: frozen_receipt where
  "sample_receipt = \<lparr>rc_canonical = lit ''{}'', rc_id = JStr (lit ''r''), rc_outcome = lit ''BLOCK''\<rparr>"

theorem storing_is_atomic_witness:
  "\<exists>r h' b bodies. put_record sample_externals sample_receipt sample_pinned sample_candidate sample_frozen None sample_host = (r, h') \<and>
     length bodies = 3 \<and> safely_stored (lit ''r'') b bodies (map_of sample_tree) (h_fs h')"
proof -
  obtain r h' where p: "put_record sample_externals sample_receipt sample_pinned sample_candidate sample_frozen None sample_host = (r, h')"
    by force
  have i: "check_storable (rc_id sample_receipt) = Inr (lit ''r'')"
    by (simp add: sample_receipt_def check_storable_def storable_id_def storable_first_def lit_def)
  have b: "utf8_bytes (rc_canonical sample_receipt) = Inr (lit ''{}'')"
    by (simp add: sample_receipt_def utf8_bytes_def lit_def encode_char_def is_surrogate_def)
  have c: "canon_json sample_candidate = Inr (jtext sample_candidate)"
    unfolding canon_json_iff by (simp add: sample_candidate_def no_surrogate_def is_surrogate_def lit_def)
  have d: "record_bodies sample_receipt sample_pinned sample_candidate sample_frozen None
     = Inr [(''rulebook'', rb_canonical sample_pinned), (''candidate'', jtext sample_candidate), (''snapshot'', sn_canonical sample_frozen)]"
    unfolding record_bodies_def c by (simp add: sample_receipt_def Let_def)
  have n: "\<not> is_entry (receipt_path (lit ''r'')) (h_fs sample_host)"
    by (simp add: sample_host_def sample_tree_def is_entry_def receipt_path_def receipts_dir_def consumed_dir_def tmp_dir_def)
  from storing_is_atomic [OF i b d p] n p show ?thesis
    by (intro exI [of _ r] exI [of _ h'] exI [of _ "lit ''{}''"] exI [of _ "[(''rulebook'', rb_canonical sample_pinned),
      (''candidate'', jtext sample_candidate), (''snapshot'', sn_canonical sample_frozen)]"]) (simp add: sample_host_def)
qed

end
