(* ===== verification/Custody.thy ===== *)
theory Custody
  imports Durability
begin

text \<open>
  \<^verbatim>\<open>src/vfy/custody.py\<close>: the handoff of a bound descriptor to one dispatched command. Its files lie outside
  the store, at absolute paths of the same tree; what the host says of a path beyond its entry (that it is
  absolute and its own resolution, how many links it has) and of a descriptor is a parameter. Flushing a
  file or a directory to the device changes no entry and is not an effect of the model.
\<close>

section \<open>The host\<close>

record descriptor =
  fd_regular :: bool
  fd_links :: nat
  fd_device :: int
  fd_inode :: int
  fd_read_only :: bool

record custody_host =
  ch_plain :: "ustr \<Rightarrow> bool"
  ch_links :: "ustr \<Rightarrow> nat"
  ch_duplicate :: "int \<Rightarrow> int option"
  ch_descriptor :: "int \<Rightarrow> descriptor option"

text \<open>Absolute paths, component by component, apart from the paths of the store.\<close>

fun components :: "ustr \<Rightarrow> ustr list" where
  "components [] = [[]]"
| "components (c # cs) =
     (if c = 47 then [] # components cs
      else case components cs of [] \<Rightarrow> [[c]] | d # ds \<Rightarrow> (c # d) # ds)"

definition absolute :: "ustr \<Rightarrow> fs_path" where
  "absolute p = lit ''/'' # filter (\<lambda>c. c \<noteq> []) (components p)"

definition custody_limit :: nat where
  "custody_limit = 1048576"

definition custody_variable :: ustr where
  "custody_variable = lit ''VFY_CUSTODY_HANDOFF''"

section \<open>Checks\<close>

definition unbound :: exn where
  "unbound = VErr ExecutionConfigurationInvalid (lit ''Custody handoff is unavailable or differs from its binding.'') NoDetail"

definition need :: "bool \<Rightarrow> exn + unit" where
  "need b = (if b then Inr () else Inl unbound)"

definition custody_digest :: "externals \<Rightarrow> json \<Rightarrow> exn + ustr" where
  "custody_digest X v = bindE (canonical_bytes (py v)) (\<lambda>b. Inr (sha256_hex X b))"

definition hex_digest :: "json \<Rightarrow> bool" where
  "hex_digest v \<longleftrightarrow> (case v of JStr s \<Rightarrow> length s = 64 \<and> list_all (\<lambda>c. 48 \<le> c \<and> c \<le> 57 \<or> 97 \<le> c \<and> c \<le> 102) s | _ \<Rightarrow> False)"

definition custody_file :: "custody_host \<Rightarrow> ustr \<Rightarrow> fs \<Rightarrow> exn + bytes" where
  "custody_file C name t =
     bindE (need (ch_plain C name)) (\<lambda>_.
       case map_of t (absolute name) of
         None \<Rightarrow> Inl (os_failure ENoent)
       | Some (Symlink d) \<Rightarrow> Inl (os_failure EOther)
       | Some (File b) \<Rightarrow>
           bindE (need (ch_links C name = 1 \<and> length b \<le> custody_limit)) (\<lambda>_. Inr b)
       | Some _ \<Rightarrow> Inl unbound)"

definition commitment :: "externals \<Rightarrow> json \<Rightarrow> exn + ustr" where
  "commitment X envelope = custody_digest X (json_without ''fd'' envelope)"

definition has_exactly :: "string list \<Rightarrow> json \<Rightarrow> bool" where
  "has_exactly names v \<longleftrightarrow> is_dict v \<and> set (keys (items v)) = set (map lit names)"

definition member :: "json \<Rightarrow> string \<Rightarrow> json" where
  "member v name = (case get_lit v name of Some w \<Rightarrow> w | None \<Rightarrow> JNull)"

definition natural_int :: "json \<Rightarrow> bool" where
  "natural_int v \<longleftrightarrow> (case v of JInt i \<Rightarrow> 0 \<le> i | _ \<Rightarrow> False)"

definition plain_argument :: "json \<Rightarrow> bool" where
  "plain_argument v \<longleftrightarrow> (case v of JStr s \<Rightarrow> 0 \<notin> set s | _ \<Rightarrow> False)"

definition argv_ok :: "json \<Rightarrow> bool" where
  "argv_ok v \<longleftrightarrow> (case v of JList vs \<Rightarrow> vs \<noteq> [] \<and> list_all plain_argument vs | _ \<Rightarrow> False)"

definition lease_ok :: "json \<Rightarrow> bool" where
  "lease_ok v \<longleftrightarrow> has_exactly [''device'', ''inode''] v \<and> list_all (\<lambda>(k, w). natural_int w) (items v)"

definition first_argument :: "json \<Rightarrow> ustr" where
  "first_argument v = (case v of JList (JStr s # vs) \<Rightarrow> s | _ \<Rightarrow> [])"

definition binding_ok :: "json \<Rightarrow> exn + unit" where
  "binding_ok b =
     bindE (need (has_exactly [''version'', ''operation_id'', ''source_id'', ''argv'', ''lease'', ''worker_files'',
                    ''worker_data'', ''coverage''] b)) (\<lambda>_.
     bindE (need (member b ''version'' = JInt 1 \<and> member b ''coverage'' = JStr (lit ''guarded-intents-v1''))) (\<lambda>_.
     bindE (need (hex_digest (member b ''operation_id'') \<and> hex_digest (member b ''source_id''))) (\<lambda>_.
     bindE (need (argv_ok (member b ''argv''))) (\<lambda>_.
     bindE (need (lease_ok (member b ''lease''))) (\<lambda>_.
     bindE (need (is_dict (member b ''worker_files'') \<and> 1 \<le> length (items (member b ''worker_files'')) \<and>
                    length (items (member b ''worker_files'')) \<le> 512 \<and>
                    first_argument (member b ''argv'') \<in> set (keys (items (member b ''worker_files''))))) (\<lambda>_.
     bindE (need (list_all (\<lambda>(p, h). hex_digest h) (items (member b ''worker_files'')))) (\<lambda>_.
     need (is_dict (member b ''worker_data'')))))))))"

definition envelope_shape :: "json \<Rightarrow> bytes \<Rightarrow> exn + unit" where
  "envelope_shape e encoded =
     bindE (need (has_exactly [''binding'', ''intent_path'', ''intent_sha256'', ''fd''] e)) (\<lambda>_.
     bindE (need (case member e ''fd'' of JInt n \<Rightarrow> 3 \<le> n | _ \<Rightarrow> False)) (\<lambda>_.
     bindE (binding_ok (member e ''binding'')) (\<lambda>_.
     bindE (need (hex_digest (member e ''intent_sha256''))) (\<lambda>_.
     need (length encoded \<le> custody_limit \<and> is_str (member e ''intent_path''))))))"

section \<open>A handoff\<close>

record handoff =
  ho_envelope :: json
  ho_fd :: int

definition intent_path :: "handoff \<Rightarrow> ustr" where
  "intent_path ho = the_str (member (ho_envelope ho) ''intent_path'')"

definition claim_path :: "handoff \<Rightarrow> fs_path" where
  "claim_path ho = absolute (intent_path ho @ lit ''.claimed'')"

definition terminal_path :: "handoff \<Rightarrow> fs_path" where
  "terminal_path ho = absolute (intent_path ho @ lit ''.terminal.json'')"

definition pending_intent :: "ustr \<Rightarrow> json" where
  "pending_intent d = JDict [(lit ''schema'', JStr (lit ''vfy.custody-intent/1'')), (lit ''binding_sha256'', JStr d),
     (lit ''state'', JStr (lit ''PENDING''))]"

definition check_descriptor :: "custody_host \<Rightarrow> handoff \<Rightarrow> json \<Rightarrow> exn + unit" where
  "check_descriptor C ho b =
     (case ch_descriptor C (ho_fd ho) of
        None \<Rightarrow> Inl (os_failure EOther)
      | Some fd \<Rightarrow>
          bindE (need (fd_regular fd \<and> fd_links fd = 1)) (\<lambda>_.
          bindE (need (member (member b ''lease'') ''device'' = JInt (fd_device fd) \<and>
                       member (member b ''lease'') ''inode'' = JInt (fd_inode fd))) (\<lambda>_.
          need (fd_read_only fd))))"

definition check_worker_file :: "externals \<Rightarrow> custody_host \<Rightarrow> fs \<Rightarrow> ustr \<times> json \<Rightarrow> exn + unit" where
  "check_worker_file X C t = (\<lambda>(name, expected).
     bindE (need (ch_plain C name)) (\<lambda>_.
       case map_of t (absolute name) of
         None \<Rightarrow> Inl (os_failure ENoent)
       | Some (Symlink d) \<Rightarrow> Inl (os_failure EOther)
       | Some (File b) \<Rightarrow> need (JStr (sha256_hex X b) = expected)
       | Some _ \<Rightarrow> Inl unbound))"

definition check_candidate :: "externals \<Rightarrow> handoff \<Rightarrow> json \<Rightarrow> json \<Rightarrow> exn + unit" where
  "check_candidate X ho b candidate =
     bindE (sub_lit candidate ''action'') (\<lambda>action.
     bindE (sub_lit action ''argv'') (\<lambda>argv.
     bindE (need (py_eq argv (member b ''argv''))) (\<lambda>_.
     bindE (if \<not> is_dict action then Inl (PyErr PyAttributeError (lit ''get''))
            else Inr (case get_lit action ''params'' of None \<Rightarrow> JDict [] | Some p \<Rightarrow> p)) (\<lambda>params.
     bindE (if \<not> is_dict params then Inl (PyErr PyAttributeError (lit ''get''))
            else Inr (member params ''run_custody_sha256'')) (\<lambda>bound.
     bindE (commitment X (ho_envelope ho)) (\<lambda>c. need (bound = JStr c)))))))"

definition validate_handoff ::
  "externals \<Rightarrow> custody_host \<Rightarrow> handoff \<Rightarrow> json option \<Rightarrow> (ustr \<times> ustr) list option \<Rightarrow> fs \<Rightarrow> exn + unit" where
  "validate_handoff X C ho candidate environment t =
     (let b = member (ho_envelope ho) ''binding'' in
     bindE (check_descriptor C ho b) (\<lambda>_.
     bindE (custody_file C (intent_path ho) t) (\<lambda>raw.
     bindE (need (JStr (sha256_hex X raw) = member (ho_envelope ho) ''intent_sha256'')) (\<lambda>_.
     bindE (custody_digest X b) (\<lambda>d.
     bindE (canonical_bytes (py (pending_intent d))) (\<lambda>expected.
     bindE (need (raw = expected)) (\<lambda>_.
     bindE (need (\<not> is_entry (terminal_path ho) t)) (\<lambda>_.
     bindE (need (\<not> is_entry (claim_path ho) t)) (\<lambda>_.
     bindE (forE (check_worker_file X C t) (items (member b ''worker_files''))) (\<lambda>_.
     bindE (case candidate of None \<Rightarrow> Inr () | Some c \<Rightarrow> check_candidate X ho b c) (\<lambda>_.
       case environment of None \<Rightarrow> Inr () | Some env \<Rightarrow> need (custody_variable \<notin> set (keys env)))))))))))))"

text \<open>\<open>except (OSError, ValueError, TypeError, KeyError)\<close>.\<close>

definition custody_refusal :: "exn + 'a \<Rightarrow> exn + 'a" where
  "custody_refusal r =
     (case r of
        Inl (PyErr c m) \<Rightarrow>
          if c \<in> {PyOSError, PyValueError, PyTypeError, PyKeyError}
          then fail ExecutionConfigurationInvalid ''Custody handoff could not be validated.''
          else Inl (PyErr c m)
      | r' \<Rightarrow> r')"

definition handoff_valid ::
  "externals \<Rightarrow> custody_host \<Rightarrow> handoff \<Rightarrow> json option \<Rightarrow> (ustr \<times> ustr) list option \<Rightarrow> fs \<Rightarrow> exn + unit" where
  "handoff_valid X C ho candidate environment t = custody_refusal (validate_handoff X C ho candidate environment t)"

definition new_handoff :: "externals \<Rightarrow> custody_host \<Rightarrow> json \<Rightarrow> fs \<Rightarrow> exn + handoff" where
  "new_handoff X C envelope t =
     custody_refusal
       (bindE (canonical_bytes (py envelope)) (\<lambda>encoded.
        bindE (load_json_bytes encoded) (\<lambda>e.
        bindE (envelope_shape e encoded) (\<lambda>_.
          case ch_duplicate C (case member e ''fd'' of JInt n \<Rightarrow> n | _ \<Rightarrow> 0) of
            None \<Rightarrow> Inl (os_failure EOther)
          | Some fd \<Rightarrow>
              bindE (handoff_valid X C \<lparr>ho_envelope = e, ho_fd = fd\<rparr> None None t) (\<lambda>_.
              Inr \<lparr>ho_envelope = e, ho_fd = fd\<rparr>)))))"

definition open_handoff :: "externals \<Rightarrow> custody_host \<Rightarrow> ustr \<Rightarrow> fs \<Rightarrow> exn + handoff" where
  "open_handoff X C name t =
     custody_refusal
       (bindE (custody_file C name t) (\<lambda>raw. bindE (load_json_bytes raw) (\<lambda>v. new_handoff X C v t)))"

section \<open>Dispatch\<close>

definition claim_document :: "ustr \<Rightarrow> json \<Rightarrow> json" where
  "claim_document c authorization_id = JDict [(lit ''handoff_sha256'', JStr c), (lit ''authorization_id'', authorization_id)]"

definition claim_failure :: "exn \<Rightarrow> 'a io" where
  "claim_failure e =
     (case e of
        PyErr PyOSError m \<Rightarrow>
          raiseS (VErr ExecutionConfigurationInvalid
            (lit ''Custody intent is claimed or cannot be claimed; retain UNKNOWN.'') NoDetail)
      | _ \<Rightarrow> raiseS e)"

text \<open>One dispatch per protected intent: the claim file is created, never opened when there.\<close>

definition claim_handoff :: "externals \<Rightarrow> handoff \<Rightarrow> json \<Rightarrow> unit io" where
  "claim_handoff X ho authorization_id =
     catchS
       (bindS (callS (os_create (claim_path ho))) (\<lambda>_.
        bindS (readS (\<lambda>t. bindE (commitment X (ho_envelope ho)) (\<lambda>c.
                 canonical_bytes (py (claim_document c authorization_id))))) (\<lambda>b.
        callS (os_write (claim_path ho) b))))
       claim_failure"

definition child_environment :: "externals \<Rightarrow> handoff \<Rightarrow> (ustr \<times> ustr) list \<Rightarrow> exn + (ustr \<times> ustr) list" where
  "child_environment X ho env =
     bindE (need (custody_variable \<notin> set (keys env))) (\<lambda>_.
     bindE (commitment X (ho_envelope ho)) (\<lambda>c.
     bindE (canon_json (JDict (dset (lit ''handoff_sha256'') (JStr c)
              (dset (lit ''fd'') (JInt (ho_fd ho)) (items (json_without ''fd'' (ho_envelope ho))))))) (\<lambda>v.
     Inr (dset custody_variable v env))))"

definition terminal_document :: "ustr \<Rightarrow> int option \<Rightarrow> int option \<Rightarrow> bool \<Rightarrow> json" where
  "terminal_document c code pid not_started =
     JDict [(lit ''schema'', JStr (lit ''vfy.custody-terminal/1'')), (lit ''handoff_sha256'', JStr c),
            (lit ''returncode'', case code of None \<Rightarrow> JNull | Some n \<Rightarrow> JInt n),
            (lit ''pid'', case pid of None \<Rightarrow> JNull | Some n \<Rightarrow> JInt n),
            (lit ''scope'', JStr (if not_started then lit ''NOT_STARTED'' else lit ''DIRECT_CHILD_ONLY''))]"

definition terminal_handoff :: "externals \<Rightarrow> handoff \<Rightarrow> int option \<Rightarrow> bool \<Rightarrow> int option \<Rightarrow> unit io" where
  "terminal_handoff X ho code not_started pid =
     (if code = None \<and> \<not> not_started then returnS ()
      else
        bindS (readS (\<lambda>t. commitment X (ho_envelope ho))) (\<lambda>c.
        catchS
          (bindS (callS (os_create (terminal_path ho))) (\<lambda>_.
           bindS (readS (\<lambda>t. canonical_bytes (py (terminal_document c code pid not_started)))) (\<lambda>b.
           callS (os_write (terminal_path ho) b))))
          (\<lambda>e. case e of PyErr PyOSError m \<Rightarrow> returnS () | _ \<Rightarrow> raiseS e)))"

section \<open>An intent is dispatched at most once\<close>

lemma ensures_create_write:
  "ensures (\<lambda>t. map_of t = m) (bindS (callS (os_create p)) (\<lambda>_. bindS (readS f) (\<lambda>b. callS (os_write p b))))
     (\<lambda>_ t. m p = None \<and> (\<exists>b. map_of t = m(p \<mapsto> File b)))
     (\<lambda>t. map_of t = m \<or> m p = None \<and> (\<exists>b. map_of t = m(p \<mapsto> File b)))
     (\<lambda>t. map_of t = m \<or> m p = None \<and> (\<exists>b. map_of t = m(p \<mapsto> File b)))"
proof (rule ensures_bind)
  let ?made = "\<lambda>t. m p = None \<and> (\<exists>b. map_of t = m(p \<mapsto> File b))"
  let ?any = "\<lambda>t. map_of t = m \<or> ?made t"
  show "ensures (\<lambda>t. map_of t = m) (callS (os_create p)) (\<lambda>_. ?made) ?any ?any"
    by (rule ensures_call) (auto simp: os_create_def split: if_split_asm)
  show "ensures ?made (bindS (readS f) (\<lambda>b. callS (os_write p b))) (\<lambda>_. ?made) ?any ?any" for u :: unit
  proof (rule ensures_bind [where M = "\<lambda>_. ?made"])
    show "ensures ?made (callS (os_write p b)) (\<lambda>_. ?made) ?any ?any" for b
      by (rule ensures_call) (auto simp: os_write_def split: option.splits entry.splits)
  qed (rule ensures_read, auto)
qed

lemma ensures_claim_handoff:
  "ensures (\<lambda>t. map_of t = m) (claim_handoff X ho i)
     (\<lambda>_ t. m (claim_path ho) = None \<and> (\<exists>b. map_of t = m(claim_path ho \<mapsto> File b)))
     (\<lambda>t. map_of t = m \<or> m (claim_path ho) = None \<and> (\<exists>b. map_of t = m(claim_path ho \<mapsto> File b)))
     (\<lambda>t. map_of t = m \<or> m (claim_path ho) = None \<and> (\<exists>b. map_of t = m(claim_path ho \<mapsto> File b)))"
  unfolding claim_handoff_def
proof (rule ensures_catch [OF ensures_create_write])
  fix e
  show "ensures (\<lambda>t. map_of t = m \<or> m (claim_path ho) = None \<and> (\<exists>b. map_of t = m(claim_path ho \<mapsto> File b)))
     (claim_failure e) (\<lambda>_ t. m (claim_path ho) = None \<and> (\<exists>b. map_of t = m(claim_path ho \<mapsto> File b)))
     (\<lambda>t. map_of t = m \<or> m (claim_path ho) = None \<and> (\<exists>b. map_of t = m(claim_path ho \<mapsto> File b)))
     (\<lambda>t. map_of t = m \<or> m (claim_path ho) = None \<and> (\<exists>b. map_of t = m(claim_path ho \<mapsto> File b)))"
    by (auto simp: claim_failure_def intro!: ensures_raise split: exn.split py_class.split)
qed

text \<open>An attempt to dispatch an intent, in a process the host may stop after any number of effects.\<close>

fun dispatch :: "externals \<Rightarrow> handoff \<times> json \<times> nat option \<Rightarrow> fs \<Rightarrow> bool \<times> fs" where
  "dispatch X (ho, i, budget) t =
     (case claim_handoff X ho i \<lparr>h_fs = t, h_left = budget\<rparr> of
        (Returned r, h) \<Rightarrow> (True, h_fs h) | (_, h) \<Rightarrow> (False, h_fs h))"

interpretation custody_claim: single_use "dispatch X" is_entry "\<lambda>q. Some (claim_path (fst q))" "\<lambda>q. True" for X
proof
  fix q t t' assume d: "dispatch X q t = (True, t')"
  obtain ho i budget where q: "q = (ho, i, budget)" by (cases q)
  obtain r h where c: "claim_handoff X ho i \<lparr>h_fs = t, h_left = budget\<rparr> = (r, h)" by force
  from ensuresD [OF ensures_claim_handoff [where m = "map_of t"] _ c] d q c
  show "\<exists>k. Some (claim_path (fst q)) = Some k \<and> \<not> is_entry k t \<and> is_entry k t'"
    by (auto simp: is_entry_def split: outcome.splits)
next
  fix q t ok t' p assume d: "dispatch X q t = (ok, t')" and e: "is_entry p t"
  obtain ho i budget where q: "q = (ho, i, budget)" by (cases q)
  obtain r h where c: "claim_handoff X ho i \<lparr>h_fs = t, h_left = budget\<rparr> = (r, h)" by force
  from ensuresD [OF ensures_claim_handoff [where m = "map_of t"] _ c] d q c e show "is_entry p t'"
    by (auto simp: is_entry_def split: outcome.splits)
qed

text \<open>
  C35. A protected intent is dispatched at most once. In any sequence of claims, by any handoffs, each in a
  process that the host may stop after any effect, at most one returns for one claim file, and so for one
  intent path.
\<close>

theorem dispatched_at_most_once:
  "length (filter (\<lambda>(q, ok). ok \<and> claim_path (fst q) = p) (fst (attempts_run (dispatch X) calls t))) \<le> 1"
  using custody_claim.at_most_once [of calls X t "fst (attempts_run (dispatch X) calls t)" "snd (attempts_run (dispatch X) calls t)" p]
  by (auto simp: custody_claim.successes_def list_all_iff)

end
