(* ===== verification/Runner.thy ===== *)
theory Runner
  imports Custody
begin

text \<open>
  \<^verbatim>\<open>src/vfy/runner.py\<close>: one authorized command, in the order the code has it: checks, verification, the
  custody claim and the consumption, then the launch, the acknowledgment, the receipt and the record. The
  process is a parameter: what a launch observes of it is data of type \<open>observation\<close>.
\<close>

section \<open>The command\<close>

definition max_stdout_bytes :: nat where "max_stdout_bytes = 1048576"
definition max_stderr_bytes :: nat where "max_stderr_bytes = 65536"
definition min_timeout_seconds :: int where "min_timeout_seconds = 1"
definition max_timeout_seconds :: int where "max_timeout_seconds = 3600"

definition note_timed_out :: ustr where "note_timed_out = lit ''timed out''"
definition note_signalled :: ustr where "note_signalled = lit ''terminated by signal''"
definition note_could_not_start :: ustr where "note_could_not_start = lit ''could not start''"

definition all_strings :: "json list \<Rightarrow> exn + ustr list" where
  "all_strings vs =
     mapE (\<lambda>v. case v of JStr s \<Rightarrow> Inr s | _ \<Rightarrow> fail ExecutionCandidateUnsupported ''Every argv member must be a string.'') vs"

definition executable_argv :: "json \<Rightarrow> exn + ustr list" where
  "executable_argv candidate =
     (if \<not> is_dict candidate then Inl (PyErr PyTypeError (lit ''a candidate must be a mapping''))
      else if get_lit candidate ''kind'' \<noteq> Some (JStr (lit ''command''))
      then fail ExecutionCandidateUnsupported ''Only a command candidate names a process; this one is ''
      else
        (case get_lit candidate ''action'' of
           Some (JDict a) \<Rightarrow>
             (case get_lit (JDict a) ''argv'' of
                Some (JList (v # vs)) \<Rightarrow>
                  bindE (all_strings (v # vs)) (\<lambda>argv.
                    if hd argv = [] then fail ExecutionCandidateUnsupported ''argv[0] names nothing.''
                    else if 47 \<notin> set (hd argv)
                    then fail_with ExecutionCandidateUnsupported
                           ''argv[0] must name a path, not a name to search for: '' (hd argv)
                    else Inr argv)
              | _ \<Rightarrow> fail ExecutionCandidateUnsupported
                       ''A command candidate needs a non-empty argv; the schema permits neither to be there.'')
         | _ \<Rightarrow> fail ExecutionCandidateUnsupported ''A command candidate needs an action.''))"

text \<open>What the caller passes as working directory, and what the host says of it.\<close>

datatype directory = NotAPath | LinkOrNone ustr | RealDirectory ustr

fun check_working_directory :: "directory \<Rightarrow> exn + ustr" where
  "check_working_directory NotAPath =
     fail ExecutionConfigurationInvalid ''The working directory must be a pathlib.Path.''"
| "check_working_directory (LinkOrNone d) =
     fail_with ExecutionConfigurationInvalid ''The working directory must be an existing real directory: '' d"
| "check_working_directory (RealDirectory d) = Inr d"

definition check_environment :: "json option \<Rightarrow> exn + (ustr \<times> ustr) list" where
  "check_environment environment =
     (case environment of
        None \<Rightarrow> Inr []
      | Some (JDict d) \<Rightarrow>
          mapE (\<lambda>(k, v). case v of
                  JStr s \<Rightarrow> Inr (k, s)
                | _ \<Rightarrow> fail ExecutionConfigurationInvalid ''environment names and values must be strings.'') d
      | Some _ \<Rightarrow> fail ExecutionConfigurationInvalid ''environment must be a mapping when supplied.'')"

definition check_timeout :: "json \<Rightarrow> exn + int" where
  "check_timeout seconds =
     (case seconds of
        JInt n \<Rightarrow>
          if min_timeout_seconds \<le> n \<and> n \<le> max_timeout_seconds then Inr n
          else fail ExecutionConfigurationInvalid ''timeout_seconds must be an integer from 1 to 3600.''
      | _ \<Rightarrow> fail ExecutionConfigurationInvalid ''timeout_seconds must be an integer from 1 to 3600.'')"

section \<open>The launch\<close>

text \<open>
  What the host lets the runtime see of a process: that it could not start, or its pid, the chunks read
  from its two streams in order (\<open>True\<close> for standard output), whether the deadline passed, and the code.
\<close>

datatype observation =
    CouldNotStart
  | Ran (ob_pid: int) (ob_chunks: "(bool \<times> bytes) list") (ob_timed_out: bool) (ob_code: "int option")

record launched =
  ln_started :: bool
  ln_exit_status :: "int option"
  ln_timed_out :: bool
  ln_signal :: "int option"
  ln_stdout :: bytes
  ln_stderr :: bytes
  ln_truncated :: bool

text \<open>One byte more than the limit is kept, to tell a full stream from a longer one.\<close>

fun captured :: "nat \<Rightarrow> bytes \<Rightarrow> bytes list \<Rightarrow> bytes" where
  "captured limit buffer [] = buffer"
| "captured limit buffer (chunk # chunks) =
     (let room = int limit + 1 - int (length buffer)
      in captured limit (if room > 0 then buffer @ take (nat room) chunk else buffer) chunks)"

definition stream :: "bool \<Rightarrow> (bool \<times> bytes) list \<Rightarrow> bytes list" where
  "stream out chunks = map snd (filter (\<lambda>(s, c). s = out) chunks)"

definition not_started :: launched where
  "not_started = \<lparr>ln_started = False, ln_exit_status = None, ln_timed_out = False, ln_signal = None,
     ln_stdout = [], ln_stderr = [], ln_truncated = False\<rparr>"

definition launch_result :: "nat \<Rightarrow> nat \<Rightarrow> (bool \<times> bytes) list \<Rightarrow> bool \<Rightarrow> int option \<Rightarrow> launched" where
  "launch_result out_limit err_limit chunks timed_out code =
     (let out = captured out_limit [] (stream True chunks); err = captured err_limit [] (stream False chunks);
          signalled = (\<not> timed_out \<and> (\<exists>c \<in> set_option code. c < 0))
      in \<lparr>ln_started = True, ln_exit_status = (if timed_out \<or> signalled then None else code),
          ln_timed_out = timed_out, ln_signal = (if signalled then map_option uminus code else None),
          ln_stdout = take out_limit out, ln_stderr = take err_limit err,
          ln_truncated = (length out > out_limit \<or> length err > err_limit)\<rparr>)"

type_synonym launcher = "ustr list \<Rightarrow> ustr \<Rightarrow> (ustr \<times> ustr) list \<Rightarrow> int \<Rightarrow> observation io"

text \<open>\<open>_launch\<close>: with a handoff, the child's environment names it and its end is recorded.\<close>

definition launch ::
  "externals \<Rightarrow> launcher \<Rightarrow> ustr list \<Rightarrow> ustr \<Rightarrow> (ustr \<times> ustr) list \<Rightarrow> int \<Rightarrow> handoff option \<Rightarrow> launched io" where
  "launch X L argv directory environment timeout custody =
     bindS (readS (\<lambda>t. case custody of None \<Rightarrow> Inr environment | Some ho \<Rightarrow> child_environment X ho environment)) (\<lambda>env.
     bindS (L argv directory env timeout) (\<lambda>seen.
       case seen of
         CouldNotStart \<Rightarrow>
           bindS (case custody of None \<Rightarrow> returnS () | Some ho \<Rightarrow> terminal_handoff X ho None True None) (\<lambda>_.
           returnS not_started)
       | Ran pid chunks timed_out code \<Rightarrow>
           bindS (case custody of None \<Rightarrow> returnS () | Some ho \<Rightarrow> terminal_handoff X ho code False (Some pid)) (\<lambda>_.
           returnS (launch_result max_stdout_bytes max_stderr_bytes chunks timed_out code))))"

section \<open>The acknowledgment\<close>

definition acknowledge :: "launched \<Rightarrow> json \<Rightarrow> json" where
  "acknowledge outcome at =
     (if \<not> ln_started outcome
      then JDict [(lit ''acknowledged'', JBool False), (lit ''acknowledged_at'', at), (lit ''note'', JStr note_could_not_start)]
      else JDict ([(lit ''acknowledged'', JBool True), (lit ''acknowledged_at'', at)] @
        (if ln_timed_out outcome then [(lit ''note'', JStr note_timed_out)]
         else if ln_signal outcome \<noteq> None then [(lit ''note'', JStr note_signalled)]
         else [(lit ''exit_status'', case ln_exit_status outcome of None \<Rightarrow> JNull | Some n \<Rightarrow> JInt n)])))"

text \<open>The caller's clock, read once: \<open>NotCallable\<close>, or what a call of it gives.\<close>

datatype clock = NotCallable | Reads "exn + json"

definition instant_or_failure :: "clock \<Rightarrow> string + json" where
  "instant_or_failure c =
     (case c of
        NotCallable \<Rightarrow> Inl ''The attempt finished and the completion instant could not be read.''
      | Reads (Inl e) \<Rightarrow> Inl ''The attempt finished and the completion instant could not be read.''
      | Reads (Inr v) \<Rightarrow>
          (case v of
             JStr s \<Rightarrow> if is_date_time s then Inr v
                       else Inl ''The attempt finished and the completion instant was not a date-time.''
           | _ \<Rightarrow> Inl ''The attempt finished and the completion instant was not a date-time.''))"

section \<open>Above the line\<close>

record request =
  rq_runtime_id :: json
  rq_verification_time :: json
  rq_receipt_id :: json
  rq_receipt_key_id :: json
  rq_receipt_key_version :: json
  rq_receipt_private_key :: "bytes option"
  rq_cwd :: directory
  rq_acknowledged_at :: "json option"
  rq_receipt_created_at :: "json option"
  rq_completion_clock :: "clock option"
  rq_environment :: "json option"
  rq_timeout_seconds :: json

definition need_string :: "string \<Rightarrow> json option \<Rightarrow> exn + unit" where
  "need_string name v =
     (case v of Some (JStr s) \<Rightarrow> Inr () | _ \<Rightarrow> Inl (PyErr PyTypeError (lit name @ lit '' must be a string'')))"

definition check_request :: "request \<Rightarrow> exn + unit" where
  "check_request rq =
     bindE (forE (\<lambda>(name, v). need_string name (Some v))
       [(''runtime_id'', rq_runtime_id rq), (''verification_time'', rq_verification_time rq),
        (''receipt_id'', rq_receipt_id rq), (''receipt_key_id'', rq_receipt_key_id rq)]) (\<lambda>_.
       case rq_completion_clock rq of
         None \<Rightarrow>
           bindE (need_string ''acknowledged_at'' (rq_acknowledged_at rq)) (\<lambda>_.
           need_string ''receipt_created_at'' (rq_receipt_created_at rq))
       | Some NotCallable \<Rightarrow> fail ExecutionConfigurationInvalid ''completion_clock must be callable.''
       | Some (Reads r) \<Rightarrow>
           if rq_acknowledged_at rq \<noteq> None \<or> rq_receipt_created_at rq \<noteq> None
           then fail ExecutionConfigurationInvalid
                  ''Supply the completion instants or the clock that reads them, never both.''
           else Inr ())"

record admitted =
  ad_argv :: "ustr list"
  ad_directory :: ustr
  ad_environment :: "(ustr \<times> ustr) list"
  ad_timeout :: int
  ad_authorization :: frozen_authorization

text \<open>\<open>_ConsumedView\<close>: which of the nonces that verification asks about the store has an entry for.\<close>

definition consumed_view :: "externals \<Rightarrow> json \<Rightarrow> fs \<Rightarrow> json list" where
  "consumed_view X v t =
     (case get_lit v ''nonce'' of
        Some nonce \<Rightarrow> (case is_consumed X nonce t of Inr True \<Rightarrow> [nonce] | _ \<Rightarrow> [])
      | None \<Rightarrow> [])"

definition admit ::
  "externals \<Rightarrow> loaded_rulebook \<Rightarrow> json \<Rightarrow> frozen_snapshot \<Rightarrow> evaluation_result \<Rightarrow> frozen_authorization \<Rightarrow>
   request \<Rightarrow> key_registry \<Rightarrow> registry \<Rightarrow> fs \<Rightarrow> exn + admitted" where
  "admit X pinned candidate snapshot result authorization rq ring registry t =
     bindE (check_request rq) (\<lambda>_.
     bindE (if ev_outcome result \<noteq> lit ''ALLOW''
            then fail_with AuthorizationOutcomeIneligible ''Only ALLOW is executable; this decision is '' (ev_outcome result)
            else Inr ()) (\<lambda>_.
     bindE (executable_argv candidate) (\<lambda>argv.
     bindE (check_working_directory (rq_cwd rq)) (\<lambda>directory.
     bindE (check_environment (rq_environment rq)) (\<lambda>env.
     bindE (check_timeout (rq_timeout_seconds rq)) (\<lambda>seconds.
     bindE (authorization_value authorization) (\<lambda>v.
     bindE (verify_authorization X v pinned candidate snapshot result (rq_runtime_id rq) (Some (rq_verification_time rq))
              ring registry (Some (consumed_view X v t)) False) (\<lambda>verified.
     Inr \<lparr>ad_argv = argv, ad_directory = directory, ad_environment = env, ad_timeout = seconds,
          ad_authorization = verified\<rparr>))))))))"

definition custody_binding :: "json \<Rightarrow> exn + json option" where
  "custody_binding candidate =
     bindE (sub_lit candidate ''action'') (\<lambda>action.
     if \<not> is_dict action then Inl (PyErr PyAttributeError (lit ''get''))
     else py_optional (case get_lit action ''params'' of None \<Rightarrow> JDict [] | Some p \<Rightarrow> p) ''run_custody_sha256'')"

definition no_command_evidence :: "loaded_rulebook \<Rightarrow> exn + unit" where
  "no_command_evidence pinned =
     bindE (rulebook_value pinned) (\<lambda>v.
     bindE (sub_lit v ''evidence'') (\<lambda>evidence.
     bindE (py_iter evidence) (\<lambda>es.
     forE (\<lambda>e. bindE (sub_lit e ''source'') (\<lambda>source. need (\<not> py_eq source (JStr (lit ''exec''))))) es)))"

definition take_custody ::
  "externals \<Rightarrow> custody_host \<Rightarrow> loaded_rulebook \<Rightarrow> json \<Rightarrow> admitted \<Rightarrow> handoff option \<Rightarrow> unit io" where
  "take_custody X C pinned candidate ad custody =
     bindS (readS (\<lambda>t. custody_binding candidate)) (\<lambda>binding.
       case (binding, custody) of
         (None, None) \<Rightarrow> returnS ()
       | (Some b, Some ho) \<Rightarrow>
           bindS (readS (handoff_valid X C ho (Some candidate) (Some (ad_environment ad)))) (\<lambda>_.
           bindS (readS (\<lambda>t. no_command_evidence pinned)) (\<lambda>_.
           claim_handoff X ho (au_id (ad_authorization ad))))
       | _ \<Rightarrow> raiseS unbound)"

text \<open>Everything up to the line: when it returns, the authorization is spent.\<close>

definition spend_authority ::
  "externals \<Rightarrow> custody_host \<Rightarrow> loaded_rulebook \<Rightarrow> json \<Rightarrow> frozen_snapshot \<Rightarrow> evaluation_result \<Rightarrow>
   frozen_authorization \<Rightarrow> request \<Rightarrow> key_registry \<Rightarrow> registry \<Rightarrow> handoff option \<Rightarrow> admitted io" where
  "spend_authority X C pinned candidate snapshot result authorization rq ring registry custody =
     bindS (readS (admit X pinned candidate snapshot result authorization rq ring registry)) (\<lambda>ad.
     bindS (take_custody X C pinned candidate ad custody) (\<lambda>_.
     bindS (consume_once X (ad_authorization ad)) (\<lambda>_. returnS ad)))"

section \<open>Below the line\<close>

record execution_record =
  ex_authorization_id :: json
  ex_nonce_consumed :: bool
  ex_launched :: launched
  ex_acknowledgment :: ustr
  ex_receipt :: frozen_receipt
  ex_stored_receipt_id :: json

datatype stage = AtAcknowledge | AtIssue | AtStore

text \<open>\<open>ExecutionRecordingFailed\<close> carries what is left to tell: the receipt, where it was kept, what ran.\<close>

datatype run_result =
    Executed execution_record
  | RecordingFailed stage "frozen_receipt option" "fs_path option" launched

definition completion_instants :: "request \<Rightarrow> string + json \<times> json" where
  "completion_instants rq =
     (case rq_completion_clock rq of
        Some c \<Rightarrow> (case instant_or_failure c of Inl m \<Rightarrow> Inl m | Inr v \<Rightarrow> Inr (v, v))
      | None \<Rightarrow> Inr (the (rq_acknowledged_at rq), the (rq_receipt_created_at rq)))"

fun issue_failure :: "exn \<Rightarrow> bool" where
  "issue_failure (VErr c m d) = True"
| "issue_failure (PyErr c m) = (c = PyTypeError \<or> c = PyValueError)"

text \<open>Nothing when the record was stored; otherwise where the signed receipt was kept, if it could be.\<close>

definition store_record ::
  "externals \<Rightarrow> loaded_rulebook \<Rightarrow> json \<Rightarrow> frozen_snapshot \<Rightarrow> frozen_authorization \<Rightarrow> frozen_receipt \<Rightarrow>
   fs_path option option io" where
  "store_record X pinned candidate snapshot verified signed =
     catchS
       (bindS (put_record X signed pinned candidate snapshot (Some verified)) (\<lambda>_. returnS None))
       (\<lambda>e. if cache_failure e
            then catchS (bindS (preserve_unrecorded signed) (\<lambda>p. returnS (Some (Some p))))
                   (\<lambda>e'. if cache_failure e' then returnS (Some None) else raiseS e')
            else raiseS e)"

text \<open>What follows the line for an admitted command: launch, acknowledge, sign, store.\<close>

definition below_the_line ::
  "externals \<Rightarrow> launcher \<Rightarrow> loaded_rulebook \<Rightarrow> json \<Rightarrow> frozen_snapshot \<Rightarrow> evaluation_result \<Rightarrow> request \<Rightarrow>
   registry \<Rightarrow> handoff option \<Rightarrow> admitted \<Rightarrow> run_result io" where
  "below_the_line X L pinned candidate snapshot result rq registry custody ad =
     bindS (launch X L (ad_argv ad) (ad_directory ad) (ad_environment ad) (ad_timeout ad) custody) (\<lambda>outcome.
       case completion_instants rq of
         Inl m \<Rightarrow> returnS (RecordingFailed AtAcknowledge None None outcome)
       | Inr (acknowledged_at, created_at) \<Rightarrow>
           (case issue_receipt X pinned candidate snapshot result (Some (ad_authorization ad))
                   (Some (acknowledge outcome acknowledged_at)) (rq_receipt_id rq) created_at (rq_receipt_key_id rq)
                   (rq_receipt_key_version rq) (rq_receipt_private_key rq) registry of
              Inl e \<Rightarrow> if issue_failure e then returnS (RecordingFailed AtIssue None None outcome) else raiseS e
            | Inr signed \<Rightarrow>
                bindS (store_record X pinned candidate snapshot (ad_authorization ad) signed) (\<lambda>stored.
                  case stored of
                    Some preserved \<Rightarrow> returnS (RecordingFailed AtStore (Some signed) preserved outcome)
                  | None \<Rightarrow>
                      readS (\<lambda>t. bindE (canon_json (acknowledge outcome acknowledged_at)) (\<lambda>text.
                        Inr (Executed \<lparr>ex_authorization_id = au_id (ad_authorization ad), ex_nonce_consumed = True,
                          ex_launched = outcome, ex_acknowledgment = text, ex_receipt = signed,
                          ex_stored_receipt_id = rq_receipt_id rq\<rparr>))))))"

definition execute_authorized_command ::
  "externals \<Rightarrow> custody_host \<Rightarrow> launcher \<Rightarrow> loaded_rulebook \<Rightarrow> json \<Rightarrow> frozen_snapshot \<Rightarrow> evaluation_result \<Rightarrow>
   frozen_authorization \<Rightarrow> request \<Rightarrow> key_registry \<Rightarrow> registry \<Rightarrow> handoff option \<Rightarrow> run_result io" where
  "execute_authorized_command X C L pinned candidate snapshot result authorization rq ring registry custody =
     bindS (spend_authority X C pinned candidate snapshot result authorization rq ring registry custody)
       (below_the_line X L pinned candidate snapshot result rq registry custody)"

end
