(* ===== verification/Execution.thy ===== *)
theory Execution
  imports Runner
begin

text \<open>
  The guarantees of the runner's order: nothing is launched whose authority is not verified and spent,
  and no authority is spent on two launches, which are counted at the launcher itself; and what a launch
  leaves of a child's output.
\<close>

section \<open>Captured output\<close>

lemma captured_prefix:
  "length buffer \<le> limit + 1 \<Longrightarrow> captured limit buffer chunks = take (limit + 1) (buffer @ concat chunks)"
proof (induction chunks arbitrary: buffer)
  case (Cons c cs)
  let ?buffer = "buffer @ take (limit + 1 - length buffer) c"
  have n: "nat (int limit + 1 - int (length buffer)) = limit + 1 - length buffer" by simp
  have "captured limit buffer (c # cs) = captured limit ?buffer cs"
  proof (cases "length buffer < limit + 1")
    case True
    then show ?thesis by (simp add: Let_def n)
  next
    case False
    with Cons.prems show ?thesis by (simp add: Let_def)
  qed
  also have "\<dots> = take (limit + 1) (?buffer @ concat cs)" using Cons.prems by (intro Cons.IH) simp
  also have "\<dots> = take (limit + 1) (buffer @ concat (c # cs))"
    using Cons.prems by (cases "length c \<le> limit + 1 - length buffer") (simp_all add: min_def)
  finally show ?case .
qed simp

lemma launch_result_streams:
  "ln_stdout (launch_result n k chunks timed_out code) = take n (concat (stream True chunks))"
  "ln_stderr (launch_result n k chunks timed_out code) = take k (concat (stream False chunks))"
  "ln_truncated (launch_result n k chunks timed_out code) \<longleftrightarrow>
     n < length (concat (stream True chunks)) \<or> k < length (concat (stream False chunks))"
  by (auto simp: launch_result_def Let_def captured_prefix min_def)

section \<open>What every operation leaves\<close>

definition leaves :: "(fs \<Rightarrow> bool) \<Rightarrow> 'a io \<Rightarrow> bool" where
  "leaves P m \<longleftrightarrow> ensures P m (\<lambda>_. P) P P"

lemma leaves_return [intro]: "leaves P (returnS x)" and leaves_raise [intro]: "leaves P (raiseS e)"
  and leaves_read [intro]: "leaves P (readS f)"
  unfolding leaves_def by (auto intro: ensures_return ensures_raise ensures_read)

lemma leaves_bind [intro]: "leaves P m \<Longrightarrow> (\<And>x. leaves P (f x)) \<Longrightarrow> leaves P (bindS m f)"
  unfolding leaves_def by (rule ensures_bind)

lemma leaves_catch [intro]: "leaves P m \<Longrightarrow> (\<And>e. leaves P (f e)) \<Longrightarrow> leaves P (catchS m f)"
  unfolding leaves_def by (rule ensures_catch)

lemma leaves_finally [intro]: "leaves P m \<Longrightarrow> leaves P f \<Longrightarrow> leaves P (finallyS m f)"
  unfolding leaves_def by (rule ensures_finally)

lemma leaves_effect [intro]: "(\<And>t. P t \<Longrightarrow> P (snd (f t))) \<Longrightarrow> leaves P (effect f)"
  unfolding leaves_def by (rule ensures_effect) force+

lemma leaves_call [intro]: "(\<And>t. P t \<Longrightarrow> P (snd (f t))) \<Longrightarrow> leaves P (callS f)"
  unfolding callS_def by (intro leaves_bind leaves_effect) (auto split: sum.split)

lemma leaves_each [intro]: "(\<And>x. x \<in> set xs \<Longrightarrow> leaves P (f x)) \<Longrightarrow> leaves P (eachS f xs)"
  unfolding leaves_def by (rule ensures_each)

lemma leavesD: "leaves P m \<Longrightarrow> P (h_fs h) \<Longrightarrow> m h = (r, h') \<Longrightarrow> P (h_fs h')"
  unfolding leaves_def using ensuresD [of P m "\<lambda>_. P" P P h r h'] by (cases r) auto

lemmas leaves_basics = leaves_return leaves_raise leaves_read leaves_bind leaves_catch

text \<open>A system call changes nothing at a place whose first directory is another one.\<close>

definition apart :: "fs_path \<Rightarrow> fs_path \<Rightarrow> bool" where
  "apart q p \<longleftrightarrow> q \<noteq> [] \<and> p \<noteq> [] \<and> hd q \<noteq> hd p"

lemma apartD: "apart q p \<Longrightarrow> p \<noteq> q" "apart q p \<Longrightarrow> \<not> beneath q p"
  by (auto simp: apart_def beneath_def) (metis hd_take length_greater_0_conv)

lemma rename_apart:
  assumes "apart src p" "apart dst p"
  shows "map_of (snd (os_rename src dst t)) p = map_of t p"
proof -
  obtain r t' where r: "os_rename src dst t = (r, t')" by force
  show ?thesis
  proof (cases r)
    case (Inr u)
    show ?thesis
    proof (cases "map_of t src = Some Directory \<and> src \<noteq> dst")
      case True
      with rename_directory(2) [of src dst t u t' p] r Inr apartD assms show ?thesis by simp
    next
      case False
      with r apartD [OF assms(1)] apartD [OF assms(2)] show ?thesis
        by (auto simp: os_rename_def split: option.splits entry.splits if_split_asm)
    qed
  qed (use r os_Inl(7) in fastforce)
qed

lemma calls_apart:
  "apart q p \<Longrightarrow> map_of (snd (os_mkdir q t)) p = map_of t p" "apart q p \<Longrightarrow> map_of (snd (os_create q t)) p = map_of t p"
  "apart q p \<Longrightarrow> map_of (snd (os_truncate q t)) p = map_of t p" "apart q p \<Longrightarrow> map_of (snd (os_write q b t)) p = map_of t p"
  "apart q p \<Longrightarrow> map_of (snd (os_unlink q t)) p = map_of t p" "apart q p \<Longrightarrow> map_of (snd (os_link s q t)) p = map_of t p"
  by (auto simp: os_mkdir_def os_create_def os_truncate_def os_write_def os_unlink_def os_link_def dest: apartD(1)
      split: option.split entry.split)

lemmas calls_apart' = calls_apart rename_apart

section \<open>What the operations leave alone\<close>

text \<open>
  A foreign place is outside the directories of receipts and staging, the index, and the absolute paths of the
  intents. Everything but the spending of a nonce leaves what is there as it is, whatever is said of it.
\<close>

definition foreign :: "fs_path \<Rightarrow> bool" where
  "foreign p \<longleftrightarrow> p \<noteq> [] \<and> hd p \<notin> {lit ''receipts'', lit ''tmp'', lit ''index.json'', lit ''/''}"

lemma foreign_apart:
  assumes "foreign p"
  shows "apart index_path p" "apart (staging_path i) p" "apart (staging_path i @ [x]) p" "apart (staged_receipt i) p"
    "apart (receipt_path i) p" "apart (inputs_path i) p" "apart (index_slot k) p" "apart (unrecorded_staging i) p"
    "apart (unrecorded_file i) p" "apart (absolute q) p" "apart (claim_path ho) p" "apart (terminal_path ho) p"
    "apart (consumption_slot d k) p"
  using assms
  by (auto simp: foreign_def apart_def index_path_def staging_path_def staged_receipt_def receipt_path_def inputs_path_def
      index_slot_def unrecorded_staging_def unrecorded_file_def absolute_def claim_path_def terminal_path_def
      consumption_slot_def tmp_dir_def receipts_dir_def)

abbreviation at :: "fs_path \<Rightarrow> (entry option \<Rightarrow> bool) \<Rightarrow> fs \<Rightarrow> bool" where
  "at p R \<equiv> \<lambda>t. R (map_of t p)"

lemma leaves_write: "apart q p \<Longrightarrow> leaves (at p R) (write_exact q b)"
  unfolding write_exact_def by (intro leaves_bind leaves_call) (simp_all add: calls_apart)

lemma leaves_unlink: "apart q p \<Longrightarrow> leaves (at p R) (unlink_if_there q)"
  unfolding unlink_if_there_def
  by (intro leaves_bind leaves_effect) (auto simp: calls_apart split: sum.split os_error.split)

lemma leaves_claim: "(\<And>q. q \<in> set ps \<Longrightarrow> apart q p) \<Longrightarrow> leaves (at p R) (claim_slot ps other full)"
  by (induction ps) (auto intro!: leaves_basics leaves_effect simp: calls_apart split: sum.split os_error.split)

lemma leaves_refresh: "foreign p \<Longrightarrow> leaves (at p R) refresh_index"
proof -
  assume f: "foreign p"
  have "\<not> index_place p"
    using foreign_apart(1,7) [OF f] apartD(1) unfolding index_place_def by metis
  then have "ignores_index (at p R)" by (simp add: ignores_index_def)
  then show ?thesis unfolding leaves_def by (rule refresh_frame)
qed

lemma leaves_commit: "foreign p \<Longrightarrow> leaves (at p R) (commit_record i receipt bodies)"
proof -
  assume f: "foreign p"
  have w: "leaves (at p R) (write_text q s)" if "apart q p" for q s
    unfolding write_text_def by (intro leaves_bind leaves_read leaves_write that)
  show ?thesis unfolding commit_record_def
    by (intro leaves_bind leaves_each leaves_read)
      (auto simp: foreign_apart [OF f] rename_apart intro!: w leaves_basics leaves_call)
qed

lemma leaves_put: "foreign p \<Longrightarrow> leaves (at p R) (put_record X receipt pinned candidate snapshot authorization)"
  unfolding put_record_def
  by (intro leaves_bind leaves_read)
    (auto intro!: leaves_basics leaves_effect leaves_commit leaves_refresh
      simp: commit_failure_def calls_apart foreign_apart split: sum.split os_error.split exn.split py_class.split)

lemma leaves_preserve: "foreign p \<Longrightarrow> leaves (at p R) (preserve_unrecorded receipt)"
  unfolding preserve_unrecorded_def
  by (intro leaves_bind leaves_read)
    (auto intro!: leaves_basics leaves_effect leaves_call leaves_unlink
      simp: commit_failure_def calls_apart' foreign_apart split: option.split sum.split exn.split py_class.split)

lemma leaves_store: "foreign p \<Longrightarrow> leaves (at p R) (store_record X pinned candidate snapshot verified signed)"
  unfolding store_record_def by (auto intro!: leaves_basics leaves_put leaves_preserve)

lemma leaves_terminal: "foreign p \<Longrightarrow> leaves (at p R) (terminal_handoff X ho code unstarted pid)"
  unfolding terminal_handoff_def
  by (auto intro!: leaves_basics leaves_call simp: calls_apart foreign_apart split: exn.split py_class.split)

lemma leaves_claim_handoff: "foreign p \<Longrightarrow> leaves (at p R) (claim_handoff X ho i)"
  unfolding claim_handoff_def
  by (auto intro!: leaves_basics leaves_call simp: claim_failure_def calls_apart foreign_apart split: exn.split py_class.split)

lemma leaves_custody: "foreign p \<Longrightarrow> leaves (at p R) (take_custody X C pinned candidate ad custody)"
  unfolding take_custody_def
  by (auto intro!: leaves_basics leaves_claim_handoff split: option.split)

section \<open>Crossing the line\<close>

abbreviation entry_of :: "ustr \<Rightarrow> fs \<Rightarrow> bool" where
  "entry_of d \<equiv> is_entry (consumption_path d)"

lemma foreign_entry [simp]: "foreign (consumption_path d)"
  by (simp add: foreign_def consumption_path_def consumed_dir_def lit_def)

lemma entry_of_at: "entry_of d = at (consumption_path d) (\<lambda>e. e \<noteq> None)"
  by (simp add: fun_eq_iff is_entry_def)

lemma custody_leaves_entry: "leaves (\<lambda>t. map_of t (consumption_path d) = x) (take_custody X C pinned candidate ad custody)"
  using leaves_custody [of "consumption_path d" "\<lambda>e. e = x"] by simp

lemma spend_authority_Returned:
  assumes "spend_authority X C pinned candidate snapshot result authorization rq ring registry custody h = (Returned ad, h')"
  obtains h1 r where "admit X pinned candidate snapshot result authorization rq ring registry (h_fs h) = Inr ad"
    "take_custody X C pinned candidate ad custody h = (Returned (), h1)"
    "consume_once X (ad_authorization ad) h1 = (Returned r, h')"
  using assms
  by (auto simp: spend_authority_def bindS_def readS_def returnS_def split: sum.splits prod.splits outcome.splits)

lemma consume_once_plan:
  assumes "consume_once X a h = (Returned r, h')"
  obtains d entry payload where "consumption_plan X a = Inr (d, entry, payload)"
proof (cases "consumption_plan X a")
  case (Inl e)
  with consume_once_unplanned [OF this] assms show thesis by (simp add: raiseS_def)
qed (use that in force)

lemma consume_once_leaves_others:
  assumes "consume_once X a h = (Raised e, h')"
  shows "map_of (h_fs h') = map_of (h_fs h)"
proof (cases "consumption_plan X a")
  case (Inl e')
  with consume_once_unplanned [OF this] assms show ?thesis by (simp add: raiseS_def)
next
  case (Inr q)
  then obtain d entry payload where "consumption_plan X a = Inr (d, entry, payload)" by (cases q) auto
  from spending_is_atomic_aux [OF this, of h] assms show ?thesis by simp
qed

lemma line_crossed:
  assumes "spend_authority X C pinned candidate snapshot result authorization rq ring registry custody h = (Returned ad, h')"
  shows "\<exists>d entry payload. consumption_plan X (ad_authorization ad) = Inr (d, entry, payload) \<and>
     \<not> entry_of d (h_fs h) \<and> map_of (h_fs h') (consumption_path d) = Some (File payload)"
proof -
  from spend_authority_Returned [OF assms] obtain h1 r where
    c: "take_custody X C pinned candidate ad custody h = (Returned (), h1)" "consume_once X (ad_authorization ad) h1 = (Returned r, h')"
    by blast
  from consume_once_plan [OF c(2)] obtain d entry payload
    where p: "consumption_plan X (ad_authorization ad) = Inr (d, entry, payload)" by blast
  from spending_is_atomic_aux [OF p, of h1] c(2)
  have e: "\<not> entry_of d (h_fs h1)" "map_of (h_fs h') (consumption_path d) = Some (File payload)" by auto
  with leavesD [OF custody_leaves_entry refl c(1), of d] p show ?thesis by (auto simp: is_entry_def)
qed

lemma line_refused:
  assumes "spend_authority X C pinned candidate snapshot result authorization rq ring registry custody h = (Raised e, h')"
  shows "map_of (h_fs h') (consumption_path d) = map_of (h_fs h) (consumption_path d)"
proof -
  consider "h' = h" | ad where "take_custody X C pinned candidate ad custody h = (Raised e, h')"
    | ad h1 where "take_custody X C pinned candidate ad custody h = (Returned (), h1)"
        "consume_once X (ad_authorization ad) h1 = (Raised e, h')"
    using assms by (auto simp: spend_authority_def bindS_def readS_def returnS_def split: sum.splits prod.splits outcome.splits)
  then show ?thesis
  proof cases
    case 2
    from leavesD [OF custody_leaves_entry refl this] show ?thesis .
  next
    case 3
    from leavesD [OF custody_leaves_entry refl 3(1)] consume_once_leaves_others [OF 3(2)] show ?thesis by metis
  qed simp
qed

lemma admit_verified:
  assumes "admit X pinned candidate snapshot result authorization rq ring registry t = Inr ad"
  shows "ev_outcome result = lit ''ALLOW'' \<and> executable_argv candidate = Inr (ad_argv ad) \<and>
    (\<exists>v. authorization_value authorization = Inr v \<and>
       verify_authorization X v pinned candidate snapshot result (rq_runtime_id rq) (Some (rq_verification_time rq))
         ring registry (Some (consumed_view X v t)) False = Inr (ad_authorization ad))"
  using assms by (auto simp: admit_def bindE_Inr_iff split: if_split_asm)

section \<open>Executions\<close>

record job =
  jb_host :: custody_host
  jb_launcher :: launcher
  jb_pinned :: loaded_rulebook
  jb_candidate :: json
  jb_snapshot :: frozen_snapshot
  jb_result :: evaluation_result
  jb_authorization :: frozen_authorization
  jb_request :: request
  jb_ring :: key_registry
  jb_registry :: registry
  jb_custody :: "handoff option"
  jb_budget :: "nat option"

definition job_spends :: "externals \<Rightarrow> job \<Rightarrow> admitted io" where
  "job_spends X j = spend_authority X (jb_host j) (jb_pinned j) (jb_candidate j) (jb_snapshot j) (jb_result j)
     (jb_authorization j) (jb_request j) (jb_ring j) (jb_registry j) (jb_custody j)"

definition job_runs :: "externals \<Rightarrow> job \<Rightarrow> run_result io" where
  "job_runs X j = execute_authorized_command X (jb_host j) (jb_launcher j) (jb_pinned j) (jb_candidate j) (jb_snapshot j)
     (jb_result j) (jb_authorization j) (jb_request j) (jb_ring j) (jb_registry j) (jb_custody j)"

text \<open>The digest of the nonce that a job's authorization would spend.\<close>

definition job_key :: "externals \<Rightarrow> job \<Rightarrow> ustr option" where
  "job_key X j =
     (case bindE (authorization_value (jb_authorization j)) freeze_authorization of
        Inr verified \<Rightarrow> spending_key X (verified, None) | Inl e \<Rightarrow> None)"

text \<open>
  The launches are observed where they happen: a launcher that writes a byte into a log, in a place of its own that
  no operation of the program names, each time the runner calls it, and then does what the job's own would. The
  write is no effect of the process, so the host stops a logged execution where it would stop the other.
\<close>

definition launch_log :: "ustr option \<Rightarrow> fs_path" where
  "launch_log k = lit ''launched'' # (case k of None \<Rightarrow> [] | Some d \<Rightarrow> [d])"

definition log_bytes :: "entry option \<Rightarrow> bytes" where
  "log_bytes e = (case e of Some (File b) \<Rightarrow> b | _ \<Rightarrow> [])"

definition launches :: "ustr option \<Rightarrow> fs \<Rightarrow> nat" where
  "launches k t = length (log_bytes (map_of t (launch_log k)))"

definition logged :: "ustr option \<Rightarrow> launcher \<Rightarrow> launcher" where
  "logged k L argv directory env timeout h =
     L argv directory env timeout
       (h\<lparr>h_fs := dset (launch_log k) (File (log_bytes (map_of (h_fs h) (launch_log k)) @ [1])) (h_fs h)\<rparr>)"

definition observed_job :: "externals \<Rightarrow> job \<Rightarrow> job" where
  "observed_job X j = j\<lparr>jb_launcher := logged (job_key X j) (jb_launcher j)\<rparr>"

text \<open>The tree after a sequence of executions on one store, each in a process the host may stop.\<close>

fun run_all :: "externals \<Rightarrow> job list \<Rightarrow> fs \<Rightarrow> fs" where
  "run_all X [] t = t"
| "run_all X (j # js) t =
     run_all X js (h_fs (snd (job_runs X (observed_job X j) \<lparr>h_fs = t, h_left = jb_budget j\<rparr>)))"

text \<open>What is asked of the commands: they remove no entry of a nonce, and do not touch the log.\<close>

definition harmless :: "launcher \<Rightarrow> bool" where
  "harmless L \<longleftrightarrow> (\<forall>argv directory env timeout.
     (\<forall>d. leaves (entry_of d) (L argv directory env timeout)) \<and>
     (\<forall>k x. leaves (\<lambda>t. map_of t (launch_log k) = x) (L argv directory env timeout)))"

section \<open>What one execution adds to the log\<close>

lemma foreign_log [simp]: "foreign (launch_log k)"
  by (simp add: foreign_def launch_log_def lit_def)

lemma log_places [simp]:
  "launch_log k = launch_log k' \<longleftrightarrow> k = k'" "launch_log k \<noteq> consumption_path d" "consumption_path d \<noteq> launch_log k"
  "apart (consumption_path d) (launch_log k)"
  by (auto simp: launch_log_def consumption_path_def consumed_dir_def apart_def lit_def split: option.splits)

text \<open>Below the line the log of one key grows by the single call of the launcher, and nothing else touches it.\<close>

lemma harmlessD:
  assumes "harmless L" "L argv directory env timeout h = (r, h')"
  shows "entry_of d (h_fs h) \<Longrightarrow> entry_of d (h_fs h')" and "map_of (h_fs h') (launch_log k) = map_of (h_fs h) (launch_log k)"
proof -
  have "leaves (entry_of d) (L argv directory env timeout)"
    "leaves (\<lambda>t. map_of t (launch_log k) = map_of (h_fs h) (launch_log k)) (L argv directory env timeout)"
    using assms(1) unfolding harmless_def by blast+
  from leavesD [OF this(1) _ assms(2)] leavesD [OF this(2) refl assms(2)]
  show "entry_of d (h_fs h) \<Longrightarrow> entry_of d (h_fs h')" "map_of (h_fs h') (launch_log k) = map_of (h_fs h) (launch_log k)"
    by blast+
qed

lemma logged_leaves_entry: "harmless L \<Longrightarrow> leaves (entry_of d) (logged k L argv directory env timeout)"
  unfolding leaves_def
  by (rule ensuresI) (auto simp: logged_def is_entry_def harmlessD(1) [unfolded is_entry_def] split: outcome.split)

lemma below_leaves_entry:
  assumes "harmless L"
  shows "leaves (entry_of d) (below_the_line X (logged k L) pinned candidate snapshot result rq registry custody ad)"
proof -
  have "leaves (entry_of d) (launch X (logged k L) argv directory env timeout custody)" for argv directory env timeout
    unfolding launch_def
    by (intro leaves_bind leaves_read logged_leaves_entry assms)
      (auto intro!: leaves_basics leaves_terminal simp: entry_of_at split: observation.split option.split)
  then show ?thesis
    unfolding below_the_line_def
    by (intro leaves_bind) (auto intro!: leaves_basics leaves_store simp: entry_of_at split: sum.split option.split)
qed

text \<open>The log of \<open>k'\<close> holds these bytes, and one more if that is the key.\<close>

definition log_grown :: "ustr option \<Rightarrow> ustr option \<Rightarrow> bytes \<Rightarrow> fs \<Rightarrow> bool" where
  "log_grown k k' b = at (launch_log k') (\<lambda>e. log_bytes e = b @ (if k = k' then [1] else []))"

lemma logged_grows:
  assumes "harmless L"
  shows "ensures (at (launch_log k') (\<lambda>e. log_bytes e = b)) (logged k L argv directory env timeout)
     (\<lambda>_. log_grown k k' b) (log_grown k k' b) (log_grown k k' b)"
proof (rule ensuresI)
  fix h r h' assume "log_bytes (map_of (h_fs h) (launch_log k')) = b" "logged k L argv directory env timeout h = (r, h')"
  with harmlessD(2) [OF assms, of _ _ _ _ _ r h' k'] have "log_grown k k' b (h_fs h')"
    by (auto simp: logged_def log_grown_def log_bytes_def)
  then show "case r of Returned x \<Rightarrow> log_grown k k' b (h_fs h') | Raised e \<Rightarrow> log_grown k k' b (h_fs h')
      | Stopped \<Rightarrow> log_grown k k' b (h_fs h')" by (simp split: outcome.split)
qed

lemma below_logs:
  fixes custody k k' b
  assumes "harmless L"
  defines "U \<equiv> \<lambda>t. log_grown k k' b t \<or> custody \<noteq> None \<and> log_bytes (map_of t (launch_log k')) = b"
  shows "ensures (at (launch_log k') (\<lambda>e. log_bytes e = b))
     (below_the_line X (logged k L) pinned candidate snapshot result rq registry custody ad) (\<lambda>_. log_grown k k' b) U U"
proof -
  let ?G = "log_grown k k' b"
  have tail: "ensures ?G m (\<lambda>_. ?G) U U" if "leaves ?G m" for m :: "launched io"
    by (rule ensures_weaken [OF that [unfolded leaves_def]]) (simp_all add: U_def)
  have tail': "ensures ?G m (\<lambda>_. ?G) U U" if "leaves ?G m" for m :: "run_result io"
    by (rule ensures_weaken [OF that [unfolded leaves_def]]) (simp_all add: U_def)
  have "ensures (at (launch_log k') (\<lambda>e. log_bytes e = b))
      (launch X (logged k L) argv directory env timeout custody) (\<lambda>_. ?G) U U" for argv directory env timeout
    unfolding launch_def
  proof (rule ensures_bind)
    show "ensures (at (launch_log k') (\<lambda>e. log_bytes e = b))
        (readS (\<lambda>t. case custody of None \<Rightarrow> Inr env | Some ho \<Rightarrow> child_environment X ho env))
        (\<lambda>_. at (launch_log k') (\<lambda>e. log_bytes e = b)) U U"
      by (rule ensures_read) (auto simp: U_def split: option.splits)
    show "ensures (at (launch_log k') (\<lambda>e. log_bytes e = b))
       (bindS (logged k L argv directory env' timeout) (\<lambda>seen. case seen of
          CouldNotStart \<Rightarrow> bindS (case custody of None \<Rightarrow> returnS () | Some ho \<Rightarrow> terminal_handoff X ho None True None)
            (\<lambda>_. returnS not_started)
        | Ran pid chunks timed_out code \<Rightarrow>
            bindS (case custody of None \<Rightarrow> returnS () | Some ho \<Rightarrow> terminal_handoff X ho code False (Some pid))
              (\<lambda>_. returnS (launch_result max_stdout_bytes max_stderr_bytes chunks timed_out code)))) (\<lambda>_. ?G) U U" for env'
    proof (rule ensures_bind)
      show "ensures (at (launch_log k') (\<lambda>e. log_bytes e = b)) (logged k L argv directory env' timeout) (\<lambda>_. ?G) U U"
        by (rule ensures_weaken [OF logged_grows [OF assms(1)]]) (auto simp: U_def)
      fix seen
      show "ensures ?G (case seen of
          CouldNotStart \<Rightarrow> bindS (case custody of None \<Rightarrow> returnS () | Some ho \<Rightarrow> terminal_handoff X ho None True None)
            (\<lambda>_. returnS not_started)
        | Ran pid chunks timed_out code \<Rightarrow>
            bindS (case custody of None \<Rightarrow> returnS () | Some ho \<Rightarrow> terminal_handoff X ho code False (Some pid))
              (\<lambda>_. returnS (launch_result max_stdout_bytes max_stderr_bytes chunks timed_out code))) (\<lambda>_. ?G) U U"
        by (rule tail) (auto simp: log_grown_def intro!: leaves_basics leaves_terminal split: observation.split option.split)
    qed
  qed
  then show ?thesis
    unfolding below_the_line_def
    by (rule ensures_bind, intro tail')
      (auto intro!: leaves_basics leaves_store simp: log_grown_def split: sum.split option.split)
qed

section \<open>Above the line\<close>

lemma job_key_spends:
  assumes "job_spends X j h = (Returned ad, h')"
  shows "\<exists>d. job_key X j = Some d \<and> \<not> entry_of d (h_fs h) \<and> entry_of d (h_fs h')"
proof -
  note spent = assms [unfolded job_spends_def]
  from spend_authority_Returned [OF spent] have a: "admit X (jb_pinned j) (jb_candidate j) (jb_snapshot j) (jb_result j)
     (jb_authorization j) (jb_request j) (jb_ring j) (jb_registry j) (h_fs h) = Inr ad" by metis
  from admit_verified [OF this] obtain v where v: "authorization_value (jb_authorization j) = Inr v"
    and u: "verify_authorization X v (jb_pinned j) (jb_candidate j) (jb_snapshot j) (jb_result j) (rq_runtime_id (jb_request j))
       (Some (rq_verification_time (jb_request j))) (jb_ring j) (jb_registry j) (Some (consumed_view X v (h_fs h))) False
       = Inr (ad_authorization ad)" by metis
  from u have f: "freeze_authorization v = Inr (ad_authorization ad)" by (simp only: verify_authorization_Inr)
  from line_crossed [OF spent] obtain d entry payload where
    "consumption_plan X (ad_authorization ad) = Inr (d, entry, payload)" "\<not> entry_of d (h_fs h)"
    "map_of (h_fs h') (consumption_path d) = Some (File payload)" by blast
  then show ?thesis by (simp add: job_key_def v f spending_key_def is_entry_def)
qed

lemma leaves_consume: "leaves (entry_of d) (consume_once X a)"
proof (cases "consumption_plan X a")
  case (Inl e)
  then show ?thesis by (simp add: consume_once_unplanned leaves_raise)
next
  case (Inr q)
  then obtain d' entry payload where p: "consumption_plan X a = Inr (d', entry, payload)" by (cases q) auto
  show ?thesis unfolding leaves_def
  proof (rule ensuresI)
    fix h r h' assume e: "entry_of d (h_fs h)" and c: "consume_once X a h = (r, h')"
    from spending_is_atomic_aux [OF p, of h] c e have "entry_of d (h_fs h')"
      by (cases r) (auto simp: is_entry_def dest!: interrupted_keeps)
    then show "case r of Returned x \<Rightarrow> entry_of d (h_fs h') | Raised e \<Rightarrow> entry_of d (h_fs h') | Stopped \<Rightarrow> entry_of d (h_fs h')"
      by (simp split: outcome.split)
  qed
qed

lemma leaves_consume_log: "leaves (at (launch_log k) R) (consume_once X a)"
proof -
  have slot: "launch_log k \<noteq> consumption_slot d n" for d n
    using foreign_apart(13) [OF foreign_log] apartD(1) by blast
  show ?thesis
  proof (cases "consumption_plan X a")
    case (Inl e)
    then show ?thesis by (simp add: consume_once_unplanned leaves_raise)
  next
    case (Inr q)
    then obtain d entry payload where p: "consumption_plan X a = Inr (d, entry, payload)" by (cases q) auto
    show ?thesis unfolding leaves_def
    proof (rule ensuresI)
      fix h r h' assume e: "R (map_of (h_fs h) (launch_log k))" and c: "consume_once X a h = (r, h')"
      from spending_is_atomic_aux [OF p, of h] c e have "R (map_of (h_fs h') (launch_log k))"
        by (cases r) (auto simp: interrupted_def slot)
      then show "case r of Returned x \<Rightarrow> R (map_of (h_fs h') (launch_log k)) | Raised e \<Rightarrow> R (map_of (h_fs h') (launch_log k))
          | Stopped \<Rightarrow> R (map_of (h_fs h') (launch_log k))"
        by (simp split: outcome.split)
    qed
  qed
qed

lemma leaves_spending:
  "leaves (entry_of d) (job_spends X j)" "leaves (at (launch_log k) R) (job_spends X j)"
proof -
  have "leaves (entry_of d) (take_custody X C pinned candidate ad custody)" for C pinned candidate ad custody
    unfolding entry_of_at by (rule leaves_custody) simp
  then show "leaves (entry_of d) (job_spends X j)"
    unfolding job_spends_def spend_authority_def
    by (intro leaves_bind leaves_read leaves_return leaves_consume)
  show "leaves (at (launch_log k) R) (job_spends X j)"
    unfolding job_spends_def spend_authority_def
    by (intro leaves_bind leaves_read leaves_return leaves_consume_log leaves_custody foreign_log)
qed

section \<open>One execution\<close>

lemma observed_simps [simp]:
  "job_spends X (observed_job X j) = job_spends X j"
  "job_runs X (observed_job X j) = bindS (job_spends X j)
     (below_the_line X (logged (job_key X j) (jb_launcher j)) (jb_pinned j) (jb_candidate j) (jb_snapshot j) (jb_result j)
        (jb_request j) (jb_registry j) (jb_custody j))"
  by (simp_all add: job_spends_def job_runs_def observed_job_def execute_authorized_command_def)

lemma spends_keep_log:
  assumes "job_spends X j h = (r, h1)"
  shows "map_of (h_fs h1) (launch_log k) = map_of (h_fs h) (launch_log k)"
  by (rule leavesD [OF leaves_spending(2) [where R = "\<lambda>e. e = map_of (h_fs h) (launch_log k)"] _ assms]) (rule refl)

lemma execution_keeps_entry:
  assumes "harmless (jb_launcher j)" "entry_of d (h_fs h)" "job_runs X (observed_job X j) h = (r, h')"
  shows "entry_of d (h_fs h')"
proof -
  have "leaves (entry_of d) (job_runs X (observed_job X j))"
    unfolding observed_simps by (intro leaves_bind leaves_spending below_leaves_entry assms(1))
  from leavesD [OF this assms(2,3)] show ?thesis .
qed

lemma execution_logs:
  assumes l: "harmless (jb_launcher j)" and r: "job_runs X (observed_job X j) h = (r, h')"
  shows "launches k (h_fs h') = launches k (h_fs h) \<or>
    (\<exists>d. k = Some d \<and> launches k (h_fs h') = Suc (launches k (h_fs h)) \<and> \<not> entry_of d (h_fs h) \<and> entry_of d (h_fs h'))"
proof -
  obtain r1 h1 where s: "job_spends X j h = (r1, h1)" by force
  note kept = spends_keep_log [OF s, of k]
  show ?thesis
  proof (cases r1)
    case (Returned ad)
    from job_key_spends s Returned obtain d where
      d: "job_key X j = Some d" "\<not> entry_of d (h_fs h)" "entry_of d (h_fs h1)" by blast
    from r s Returned have b: "below_the_line X (logged (job_key X j) (jb_launcher j)) (jb_pinned j) (jb_candidate j)
        (jb_snapshot j) (jb_result j) (jb_request j) (jb_registry j) (jb_custody j) ad h1 = (r, h')"
      by (simp add: bindS_def)
    from leavesD [OF below_leaves_entry [OF l] d(3) b] have "entry_of d (h_fs h')" .
    moreover from ensuresD [OF below_logs [OF l] refl b, of k] have
      "launches k (h_fs h') = launches k (h_fs h) \<or> k = Some d \<and> launches k (h_fs h') = Suc (launches k (h_fs h))"
      unfolding log_grown_def launches_def kept d(1) by (cases r) (auto split: if_split_asm)
    ultimately show ?thesis using d(2) by blast
  qed (use r s kept in \<open>auto simp: bindS_def launches_def\<close>)
qed

lemma run_all_logs:
  assumes "\<And>j. j \<in> set jobs \<Longrightarrow> harmless (jb_launcher j)"
  shows "launches None (run_all X jobs t) = launches None t \<and>
    launches (Some d) (run_all X jobs t) \<le> launches (Some d) t + (if entry_of d t then 0 else 1) \<and>
    launches k t \<le> launches k (run_all X jobs t)"
  using assms
proof (induction jobs arbitrary: t)
  case (Cons j js)
  obtain r h' where r: "job_runs X (observed_job X j) \<lparr>h_fs = t, h_left = jb_budget j\<rparr> = (r, h')" by force
  have l: "harmless (jb_launcher j)" using Cons.prems by simp
  have IH: "launches None (run_all X js (h_fs h')) = launches None (h_fs h')"
    "launches (Some d) (run_all X js (h_fs h')) \<le> launches (Some d) (h_fs h') + (if entry_of d (h_fs h') then 0 else 1)"
    "launches k (h_fs h') \<le> launches k (run_all X js (h_fs h'))"
    using Cons.IH [of "h_fs h'"] Cons.prems by simp_all
  have run: "run_all X (j # js) t = run_all X js (h_fs h')" by (simp only: run_all.simps r snd_conv)
  have "launches None (h_fs h') = launches None t" using execution_logs [OF l r, of None] by simp
  moreover have "launches (Some d) (h_fs h') + (if entry_of d (h_fs h') then 0 else 1)
      \<le> launches (Some d) t + (if entry_of d t then 0 else 1)"
    using execution_logs [OF l r, of "Some d"] execution_keeps_entry [OF l _ r, of d] by auto
  moreover have "launches k t \<le> launches k (h_fs h')" using execution_logs [OF l r, of k] by auto
  ultimately show ?case using IH unfolding run by linarith
qed simp

section \<open>Properties\<close>

text \<open>
  C1. Nothing runs whose authority is not verified and spent. When the part above the line returns, the
  decision is ALLOW, the command is the candidate's own, the authorization verified, and the entry of its
  nonce, absent before, is complete; when it raises or is stopped, the outcome and the tree are the same
  whatever the command would have done, and a refusal leaves every entry of a nonce as it was.
\<close>

theorem nothing_runs_unspent:
  "case spend_authority X C pinned candidate snapshot result authorization rq ring registry custody h of
      (Returned ad, h1) \<Rightarrow>
        ev_outcome result = lit ''ALLOW'' \<and> executable_argv candidate = Inr (ad_argv ad) \<and>
        (\<exists>v. authorization_value authorization = Inr v \<and>
           verify_authorization X v pinned candidate snapshot result (rq_runtime_id rq) (Some (rq_verification_time rq))
             ring registry (Some (consumed_view X v (h_fs h))) False = Inr (ad_authorization ad)) \<and>
        (\<exists>d entry payload. consumption_plan X (ad_authorization ad) = Inr (d, entry, payload) \<and>
           \<not> is_entry (consumption_path d) (h_fs h) \<and> map_of (h_fs h1) (consumption_path d) = Some (File payload))
    | (Raised e, h1) \<Rightarrow>
        (\<forall>L. execute_authorized_command X C L pinned candidate snapshot result authorization rq ring registry custody h
           = (Raised e, h1)) \<and>
        (\<forall>d. map_of (h_fs h1) (consumption_path d) = map_of (h_fs h) (consumption_path d))
    | (Stopped, h1) \<Rightarrow>
        (\<forall>L. execute_authorized_command X C L pinned candidate snapshot result authorization rq ring registry custody h
           = (Stopped, h1))"
proof -
  obtain r h1 where s: "spend_authority X C pinned candidate snapshot result authorization rq ring registry custody h = (r, h1)"
    by force
  show ?thesis
  proof (cases r)
    case (Returned ad)
    note ret = s [unfolded Returned]
    from spend_authority_Returned [OF ret]
    have a: "admit X pinned candidate snapshot result authorization rq ring registry (h_fs h) = Inr ad" by metis
    show ?thesis unfolding ret using admit_verified [OF a] line_crossed [OF ret] by simp
  next
    case (Raised e)
    note ret = s [unfolded Raised]
    show ?thesis unfolding ret using line_refused [OF ret] by (simp add: execute_authorized_command_def bindS_def ret)
  next
    case Stopped
    note ret = s [unfolded Stopped]
    show ?thesis unfolding ret by (simp add: execute_authorized_command_def bindS_def ret)
  qed
qed

text \<open>
  C2. No authority is spent on two launches. In any sequence of executions on one store, each of which the host may
  stop after any effect and whose commands remove no entry of a nonce (nor touch the log that counts), the runner calls
  its launcher at most once for the digest of a nonce, counting every call of every execution; not at all if the nonce
  was spent before; and never for an authorization that names no nonce to spend.
\<close>

theorem launched_at_most_once:
  assumes "\<And>j. j \<in> set jobs \<Longrightarrow> harmless (jb_launcher j)"
  shows "launches (Some d) (run_all X jobs t) \<le> launches (Some d) t + 1 \<and>
    (is_entry (consumption_path d) t \<longrightarrow> launches (Some d) (run_all X jobs t) = launches (Some d) t) \<and>
    launches None (run_all X jobs t) = launches None t"
proof -
  have "launches None (run_all X jobs t) = launches None t \<and>
      launches (Some d) (run_all X jobs t) \<le> launches (Some d) t + (if entry_of d t then 0 else 1) \<and>
      launches (Some d) t \<le> launches (Some d) (run_all X jobs t)"
    by (rule run_all_logs) (rule assms)
  then show ?thesis by (auto split: if_split_asm)
qed

text \<open>
  A child's output is bounded and what is kept of it is exact: the first bytes of each stream up to its
  limit, with the truncation reported exactly when a stream was longer.
\<close>

theorem captured_output_exact:
  "ln_stdout (launch_result n k chunks timed_out code) = take n (concat (stream True chunks)) \<and>
   ln_stderr (launch_result n k chunks timed_out code) = take k (concat (stream False chunks)) \<and>
   (ln_truncated (launch_result n k chunks timed_out code) \<longleftrightarrow>
      n < length (concat (stream True chunks)) \<or> k < length (concat (stream False chunks)))"
  by (simp add: launch_result_streams)

section \<open>Witnesses\<close>

text \<open>Two executions under one authorization: the first launches, the second is refused.\<close>

definition sample_job :: "evaluation_result \<Rightarrow> frozen_authorization \<Rightarrow> job" where
  "sample_job r a = \<lparr>jb_host = \<lparr>ch_plain = \<lambda>p. True, ch_links = \<lambda>p. 1, ch_duplicate = Some, ch_descriptor = \<lambda>n. None\<rparr>,
     jb_launcher = \<lambda>argv directory env timeout. returnS (Ran 1 [] False (Some 0)), jb_pinned = sample_pinned,
     jb_candidate = sample_candidate, jb_snapshot = sample_frozen, jb_result = r,
     jb_authorization = a,
     jb_request = \<lparr>rq_runtime_id = JStr (lit ''rt''), rq_verification_time = JStr sample_instant,
        rq_receipt_id = JStr (lit ''r''), rq_receipt_key_id = JStr (lit ''k''), rq_receipt_key_version = JInt 1,
        rq_receipt_private_key = None, rq_cwd = RealDirectory (lit ''/''), rq_acknowledged_at = None,
        rq_receipt_created_at = None, rq_completion_clock = Some (Reads (Inr (JStr sample_instant))),
        rq_environment = None, rq_timeout_seconds = JInt 300\<rparr>,
     jb_ring = sample_ring, jb_registry = sample_registry, jb_custody = None, jb_budget = None\<rparr>"

lemma sample_harmless: "harmless (jb_launcher (sample_job r a))"
  by (auto simp: sample_job_def harmless_def)

lemma verified_plan:
  assumes v: "authorization_value a = Inr v"
    and f: "verify_authorization X v pinned candidate snapshot result runtime_id time ring registry consumed historical = Inr a'"
    and n: "au_nonce a' = JStr (lit ''n'')"
  shows "\<exists>entry payload. consumption_plan X a = Inr (sha256_hex X (lit ''n''), entry, payload)"
proof -
  from f [unfolded verify_authorization_Inr freeze_authorization_Inr] n obtain i action rules evidence where
    g: "get_lit v ''authorization_id'' = Some i" "get_lit v ''nonce'' = Some (JStr (lit ''n''))"
      "get_lit v ''action_digest'' = Some action" "get_lit v ''rulebook_digest'' = Some rules"
      "get_lit v ''evidence_digest'' = Some evidence" and d: "is_dict v" by auto
  from v reload_loadable have ok: "wf_json v" "canon_ok v"
    by (auto simp: authorization_value_def loadable_def canon_json_iff)
  have "wf_json w \<and> canon_ok w" if "get_lit v name = Some w" for name w
    using that d ok by (cases v) (auto dest!: map_of_SomeD)
  note members = this [OF g(1)] this [OF g(2)] this [OF g(3)] this [OF g(4)] this [OF g(5)]
  let ?e = "JDict [(lit ''nonce'', JStr (lit ''n'')), (lit ''authorization_id'', i), (lit ''action_digest'', action),
            (lit ''rulebook_digest'', rules), (lit ''evidence_digest'', evidence)]"
  have b: "utf8_bytes (lit ''n'') = Inr (lit ''n'')"
    by (simp add: utf8_bytes_def lit_def encode_char_def is_surrogate_def)
  have s: "sub_lit v name = Inr w" if "get_lit v name = Some w" for name w
    using that by (simp add: subscript_Inr_iff)
  have "consumption_entry X v = Inr (sha256_hex X (lit ''n''), ?e)"
    by (simp add: consumption_entry_def nonce_digest_def s [OF g(1)] s [OF g(2)] s [OF g(3)] s [OF g(4)] s [OF g(5)] b)
  moreover have "wf_json ?e" "canon_ok ?e" using members by (simp_all add: keys_def lit_def wf_str_def no_surrogate_def is_surrogate_def)
  then have "\<exists>payload. canonical_bytes (py ?e) = Inr payload" using canonical_bytes_iff by blast
  ultimately show ?thesis using v by (auto simp: consumption_plan_def)
qed

lemma job_run_launches:
  assumes l: "harmless (jb_launcher j)" and c: "jb_custody j = None" and s: "job_spends X j h = (Returned ad, h1)"
    and r: "job_runs X (observed_job X j) h = (r, h')"
  shows "launches (job_key X j) (h_fs h') = Suc (launches (job_key X j) (h_fs h))"
proof -
  from r s have b: "below_the_line X (logged (job_key X j) (jb_launcher j)) (jb_pinned j) (jb_candidate j)
      (jb_snapshot j) (jb_result j) (jb_request j) (jb_registry j) (jb_custody j) ad h1 = (r, h')"
    by (simp add: bindS_def)
  from ensuresD [OF below_logs [OF l] refl b, of "job_key X j"] show ?thesis
    unfolding log_grown_def launches_def spends_keep_log [OF s] c by (cases r) auto
qed

lemma sample_spending:
  obtains r a ad h' where "job_spends sample_externals (sample_job r a) \<lparr>h_fs = sample_tree, h_left = None\<rparr> = (Returned ad, h')"
    "job_key sample_externals (sample_job r a) = Some (replicate 64 48)"
proof -
  let ?X = sample_externals and ?h = "\<lparr>h_fs = sample_tree, h_left = None\<rparr>"
  obtain r where r: "evaluate ?X sample_pinned sample_candidate (sort_json sample_snapshot_value) sample_registry = Inr r"
    "ev_outcome r = lit ''ALLOW''" by (rule sample_result)
  obtain a where a: "issue_authorization ?X sample_pinned sample_candidate sample_frozen r (JStr (lit ''i''))
     (JStr (lit ''n'')) (JStr (lit ''rt'')) (JStr sample_instant) (JStr (lit ''k'')) (JInt 1)
     (Some (replicate 32 0)) sample_registry = Inr a" using sample_issue [OF r(2)] by blast
  obtain v where v: "authorization_value a = Inr v"
     "verify_authorization ?X v sample_pinned sample_candidate sample_frozen r (JStr (lit ''rt''))
       (Some (JStr sample_instant)) sample_ring sample_registry (Some []) False = Inr a"
    using sample_verified [OF r a] by blast
  from a have n: "au_nonce a = JStr (lit ''n'')"
    by (rule issue_Inr) (auto simp: freeze_authorization_Inr authorization_payload_def)
  obtain entry payload where p: "consumption_plan ?X a = Inr (replicate 64 48, entry, payload)"
    using verified_plan [OF v n] by (auto simp: sample_externals_def)
  have "consumed_view ?X v sample_tree = []"
    using sample_tree_ready(3)
    by (auto simp: consumed_view_def is_consumed_def bindE_Inr_iff split: option.split sum.split bool.split)
  with r(2) v obtain ad where ad: "admit ?X sample_pinned sample_candidate sample_frozen r a (jb_request (sample_job r a))
      sample_ring sample_registry sample_tree = Inr ad" "ad_authorization ad = a"
    by (simp add: admit_def sample_job_def check_request_def need_string_def executable_argv_def sample_candidate_def
        all_strings_def check_environment_def check_timeout_def min_timeout_seconds_def max_timeout_seconds_def lit_def)
  have c: "take_custody ?X C sample_pinned sample_candidate ad None h = (Returned (), h)" for C h
    by (simp add: take_custody_def custody_binding_def sample_candidate_def py_optional_def optional_member_def returnS_def)
  have "answers consumption_effects (\<lambda>t. map_of t = map_of sample_tree) (consume_once ?X a)
     (\<lambda>r t. (\<exists>x. r = Returned x \<and> consumed_record entry = Inr x) \<and>
        map_of t = (map_of sample_tree)(consumption_path (replicate 64 48) \<mapsto> File payload))"
    by (rule answers_spend [OF p])
      (use sample_tree_ready(1) sample_tree_ready(2,3) [of "replicate 64 48"] in \<open>auto simp: store_ready_def slot_free_def is_entry_def\<close>)
  then obtain x h' where "consume_once ?X a ?h = (Returned x, h')"
    by (rule answersD [where h = ?h and k = 0]) (auto simp: can_take_def)
  then have "job_spends ?X (sample_job r a) ?h = (Returned ad, h')"
    using ad c by (simp add: job_spends_def spend_authority_def sample_job_def bindS_def readS_def returnS_def)
  moreover have "job_key ?X (sample_job r a) = Some (replicate 64 48)"
    using v p by (simp add: job_key_def sample_job_def spending_key_def verify_authorization_Inr)
  ultimately show thesis by (rule that)
qed

theorem launched_at_most_once_witness:
  "\<exists>j. launches (Some (replicate 64 48)) sample_tree = 0 \<and> job_key sample_externals j = Some (replicate 64 48) \<and>
     launches (Some (replicate 64 48)) (run_all sample_externals [j, j] sample_tree) = 1"
proof -
  let ?k = "Some (replicate 64 48)"
  obtain r a ad h1 where s: "job_spends sample_externals (sample_job r a) \<lparr>h_fs = sample_tree, h_left = None\<rparr> = (Returned ad, h1)"
    and k: "job_key sample_externals (sample_job r a) = ?k" by (rule sample_spending)
  let ?j = "sample_job r a"
  obtain o' h' where r: "job_runs sample_externals (observed_job sample_externals ?j) \<lparr>h_fs = sample_tree, h_left = None\<rparr> = (o', h')"
    by force
  have c: "jb_custody ?j = None" "jb_budget ?j = None" by (simp_all add: sample_job_def)
  have z: "launches ?k sample_tree = 0"
    by (simp add: launches_def log_bytes_def launch_log_def sample_tree_def receipts_dir_def consumed_dir_def tmp_dir_def)
  from job_run_launches [OF sample_harmless c(1) s r] have "launches ?k (h_fs h') = 1" by (simp add: k z)
  moreover have "launches ?k (h_fs h') \<le> launches ?k (run_all sample_externals [?j] (h_fs h'))"
    using run_all_logs [where k = ?k and jobs = "[?j]" and t = "h_fs h'"] sample_harmless by simp
  moreover have "run_all sample_externals [?j, ?j] sample_tree = run_all sample_externals [?j] (h_fs h')"
    by (simp only: run_all.simps c r snd_conv)
  moreover have "launches ?k (run_all sample_externals [?j, ?j] sample_tree) \<le> launches ?k sample_tree + 1"
    using launched_at_most_once [where jobs = "[?j, ?j]" and X = sample_externals and t = sample_tree] sample_harmless by auto
  ultimately show ?thesis using k z by (intro exI [of _ ?j]) simp
qed

end
