(* ===== verification/Wide.thy ===== *)
theory Wide
  imports Execution
begin

text \<open>
  The START decoder of \<^verbatim>\<open>src/vfy/child_ledger.py\<close>: the standard library's scanner with the conversion of an
  integer as an argument, which the code passes as \<open>parse_int\<close>, and \<open>decode_parent_start\<close>, which admits
  signed 64-bit nanoseconds at two top-level members and nothing outside the canonical form elsewhere.
\<close>

section \<open>Refusals\<close>

text \<open>\<open>Refused\<close> is a \<open>ValueError\<close>, and no handler of the code tells it from one.\<close>

abbreviation refuse :: "string \<Rightarrow> exn + 'a" where
  "refuse m \<equiv> Inl (PyErr PyValueError (lit m))"

definition refused_input :: exn where
  "refused_input = PyErr PyValueError (lit ''Child ledger input or correspondence refused; retain UNKNOWN.'')"

definition must_or :: "string \<Rightarrow> bool \<Rightarrow> exn + unit" where
  "must_or m b = (if b then Inr () else refuse m)"

definition must :: "bool \<Rightarrow> exn + unit" where
  "must b = (if b then Inr () else Inl refused_input)"

lemma must_Inr [simp]: "must b = Inr u \<longleftrightarrow> b" "must_or m b = Inr u \<longleftrightarrow> b"
  by (simp_all add: must_def must_or_def)

lemma must_simps [simp]: "must True = Inr ()" "must_or m True = Inr ()"
  by simp_all

definition max_ledger_bytes :: nat where
  "max_ledger_bytes = 4 * 1024 * 1024"

section \<open>The scanner with its integer conversion as an argument\<close>

fun scan_with :: "(ustr \<Rightarrow> exn + int) \<Rightarrow> nat \<Rightarrow> ustr \<Rightarrow> exn + json \<times> ustr"
and array_with :: "(ustr \<Rightarrow> exn + int) \<Rightarrow> nat \<Rightarrow> ustr \<Rightarrow> exn + json list \<times> ustr"
and object_with :: "(ustr \<Rightarrow> exn + int) \<Rightarrow> nat \<Rightarrow> ustr \<Rightarrow> exn + (ustr \<times> json) list \<times> ustr"
where
  "scan_with conv 0 s = Inl out_of_fuel"
| "scan_with conv (Suc n) s =
     (case s of
        [] \<Rightarrow> Inl syntax_failure
      | c # r \<Rightarrow>
          if c = 34 then bindE (scanstring r) (\<lambda>(t, r'). Inr (JStr t, r'))
          else if c = 123 then
            (case skip_ws r of
               [] \<Rightarrow> Inl syntax_failure
             | c' # r' \<Rightarrow>
                 if c' = 125 then Inr (JDict [], r')
                 else if c' = 34 then
                   bindE (object_with conv n r') (\<lambda>(pairs, r''). bindE (object_from_pairs pairs) (\<lambda>d. Inr (JDict d, r'')))
                 else Inl syntax_failure)
          else if c = 91 then
            (case skip_ws r of
               [] \<Rightarrow> Inl syntax_failure
             | c' # r' \<Rightarrow>
                 if c' = 93 then Inr (JList [], r')
                 else bindE (array_with conv n (c' # r')) (\<lambda>(vs, r''). Inr (JList vs, r'')))
          else if starts ''null'' s then Inr (JNull, drop 4 s)
          else if starts ''true'' s then Inr (JBool True, drop 4 s)
          else if starts ''false'' s then Inr (JBool False, drop 5 s)
          else (case match_number s of
                  Some (t, is_float, r') \<Rightarrow>
                    if is_float then reject_float
                    else bindE (conv t) (\<lambda>i. Inr (JInt i, r'))
                | None \<Rightarrow>
                    if starts ''NaN'' s then reject_non_json_constant ''NaN''
                    else if starts ''Infinity'' s then reject_non_json_constant ''Infinity''
                    else if starts ''-Infinity'' s then reject_non_json_constant ''-Infinity''
                    else Inl syntax_failure))"
| "array_with conv 0 s = Inl out_of_fuel"
| "array_with conv (Suc n) s =
     bindE (scan_with conv n s) (\<lambda>(v, r).
       case skip_ws r of
         [] \<Rightarrow> Inl syntax_failure
       | c # r' \<Rightarrow>
           if c = 93 then Inr ([v], r')
           else if c = 44 then bindE (array_with conv n (skip_ws r')) (\<lambda>(vs, r''). Inr (v # vs, r''))
           else Inl syntax_failure)"
| "object_with conv 0 s = Inl out_of_fuel"
| "object_with conv (Suc n) s =
     bindE (scanstring s) (\<lambda>(k, r).
       case skip_ws r of
         [] \<Rightarrow> Inl syntax_failure
       | c # r' \<Rightarrow>
           if c \<noteq> 58 then Inl syntax_failure
           else bindE (scan_with conv n (skip_ws r')) (\<lambda>(v, r1).
             case skip_ws r1 of
               [] \<Rightarrow> Inl syntax_failure
             | c1 # r2 \<Rightarrow>
                 if c1 = 125 then Inr ([(k, v)], r2)
                 else if c1 \<noteq> 44 then Inl syntax_failure
                 else (case skip_ws r2 of
                         [] \<Rightarrow> Inl syntax_failure
                       | c2 # r3 \<Rightarrow>
                           if c2 \<noteq> 34 then Inl syntax_failure
                           else bindE (object_with conv n r3) (\<lambda>(ps, r4). Inr ((k, v) # ps, r4)))))"

text \<open>With the loader's conversion it is the loader's scanner.\<close>

lemma scan_with_loader:
  "scan_with integer_within_interval n s = scan_once n s
   \<and> array_with integer_within_interval n s = scan_array n s
   \<and> object_with integer_within_interval n s = scan_object n s"
proof (induction n arbitrary: s)
  case (Suc n)
  then have "scan_with integer_within_interval n = scan_once n"
    "array_with integer_within_interval n = scan_array n" "object_with integer_within_interval n = scan_object n"
    by (simp_all add: fun_eq_iff)
  then show ?case by (simp only: scan_with.simps array_with.simps object_with.simps
        scan_once.simps scan_array.simps scan_object.simps)
qed simp

definition loads_with :: "(ustr \<Rightarrow> exn + int) \<Rightarrow> ustr \<Rightarrow> exn + json" where
  "loads_with conv t =
     bindE (scan_with conv (2 * length t + 1) (skip_ws t)) (\<lambda>(v, r).
       if skip_ws r = [] then Inr v else Inl syntax_failure)"

section \<open>The decoder\<close>

definition start_ns_fields :: "ustr list" where
  "start_ns_fields = [lit ''started_wall_ns'', lit ''started_process_ns'']"

definition max_start_ns :: int where
  "max_start_ns = 2 ^ 63 - 1"

text \<open>At most twenty characters reach \<open>int\<close>, which the host's digit limit does not touch.\<close>

definition start_integer :: "ustr \<Rightarrow> exn + int" where
  "start_integer token =
     bindE (must_or ''Invalid START integer encoding.'' (length token \<le> 20 \<and> token \<noteq> lit ''-0'')) (\<lambda>_.
     bindE (py_int token) (\<lambda>value.
     bindE (must_or ''START integer overflow.'' (- (2 ^ 63) \<le> value \<and> value \<le> max_start_ns)) (\<lambda>_.
     Inr value)))"

definition start_member :: "ustr \<times> json \<Rightarrow> exn + unit" where
  "start_member m = (case m of (name, item) \<Rightarrow>
     bindE (canon_json (JStr name)) (\<lambda>_.
       if name \<in> set start_ns_fields
       then must_or ''START nanoseconds must be exact nonnegative signed-64 integers.''
              (case item of JInt i \<Rightarrow> 0 \<le> i \<and> i \<le> max_start_ns | _ \<Rightarrow> False)
       else bindE (canon_json item) (\<lambda>_. Inr ())))"

definition decode_parent_start :: "bytes \<Rightarrow> exn + json" where
  "decode_parent_start data =
     bindE (must (length data \<le> max_ledger_bytes)) (\<lambda>_.
     bindE (decode_utf8 data) (\<lambda>decoded.
     bindE (reject_excess_depth decoded) (\<lambda>_.
     bindE (case loads_with start_integer decoded of
              Inl e \<Rightarrow> if e = syntax_failure then refuse ''Malformed parent START JSON.'' else Inl e
            | Inr v \<Rightarrow> Inr v) (\<lambda>value.
     bindE (must_or ''Parent START must be an object.'' (is_dict value)) (\<lambda>_.
     bindE (forE start_member (items value)) (\<lambda>_.
     Inr value))))))"

lemma decode_parent_start_Inr:
  assumes "decode_parent_start data = Inr v"
  shows "is_dict v \<and> length data \<le> max_ledger_bytes \<and> (\<forall>m \<in> set (items v). start_member m = Inr ())"
  using assms by (auto simp: decode_parent_start_def result_simps)

lemma start_member_Inr:
  assumes "start_member (name, w) = Inr u"
  shows "name \<in> set start_ns_fields \<Longrightarrow> \<exists>i. w = JInt i \<and> 0 \<le> i \<and> i \<le> max_start_ns"
    and "name \<notin> set start_ns_fields \<Longrightarrow> returned (canon_json w)"
  using assms by (cases w; auto simp: start_member_def result_simps returned_iff)+

end
