(* ===== verification/Ledger.thy ===== *)
theory Ledger
  imports Complex_Main Wide
begin

text \<open>
  \<^verbatim>\<open>src/vfy/child_ledger.py\<close>: the ledger of child budgets, one signed document in one directory. Its
  values are the JSON values of the code, read with Python's subscripts, and a fraction is a rational. The
  files lie in the tree of the host; the producer's version and source are data of the host.
\<close>

section \<open>Values\<close>

record ledger_host = custody_host +
  lh_source :: bytes
  lh_public :: "bytes \<Rightarrow> ustr option"

definition ledger_schema :: ustr where
  "ledger_schema = lit ''engineer.resource-child-ledger/2''"

definition ledger_domain :: bytes where
  "ledger_domain = lit ''verify-run.child-ledger.v1'' @ [0]"

definition ledger_axes :: "(ustr \<times> ustr \<times> ustr \<times> ustr) list" where
  "ledger_axes =
    [(lit ''local_process_cpu_seconds'', lit ''second'', lit ''SUM'', lit ''DIRECT_CHILD_PROCESS_CPU''),
     (lit ''local_wall_observations_seconds'', lit ''second'', lit ''SUM'', lit ''CHILD_INTERVAL_SUM_NOT_PARENT_ELAPSED''),
     (lit ''captured_console_bytes'', lit ''byte'', lit ''SUM'', lit ''DIRECT_CHILD_CAPTURED_OUTPUT'')]"

definition unknown_dimensions :: json where
  "unknown_dimensions = JList (map (\<lambda>s. JStr (lit s))
     [''provider'', ''host'', ''storage'', ''memory'', ''overlap'', ''financial'', ''undeclared_axes''])"

abbreviation jlit :: "string \<Rightarrow> json" where
  "jlit s \<equiv> JStr (lit s)"

definition raw :: "json \<Rightarrow> exn + bytes" where
  "raw v = canonical_bytes (py v)"

definition plain_text :: "json \<Rightarrow> bool" where
  "plain_text v \<longleftrightarrow> (case v of JStr s \<Rightarrow> 0 < length s \<and> length s \<le> 4096 | _ \<Rightarrow> False)"

text \<open>\<open>Fraction(v)\<close> of a text of the pattern, and \<open>str\<close> of a fraction.\<close>

definition numeral_text :: "ustr \<Rightarrow> bool" where
  "numeral_text s \<longleftrightarrow> s = [48] \<or> (s \<noteq> [] \<and> list_all is_digit s \<and> hd s \<noteq> 48)"

definition fraction_parts :: "ustr \<Rightarrow> (ustr \<times> ustr) option" where
  "fraction_parts s =
     (let n = takeWhile (\<lambda>c. c \<noteq> 47) s
      in case dropWhile (\<lambda>c. c \<noteq> 47) s of
           [] \<Rightarrow> if numeral_text n then Some (n, [49]) else None
         | c # d \<Rightarrow> if numeral_text n \<and> numeral_text d \<and> d \<noteq> [48] then Some (n, d) else None)"

definition fraction_str :: "rat \<Rightarrow> ustr" where
  "fraction_str q = (case quotient_of q of (n, d) \<Rightarrow> if d = 1 then int_str n else int_str n @ [47] @ int_str d)"

definition amount :: "json \<Rightarrow> exn + rat" where
  "amount v =
     (case v of
        JStr s \<Rightarrow>
          bindE (must (length s \<le> 64)) (\<lambda>_.
          case fraction_parts s of
            None \<Rightarrow> Inl refused_input
          | Some (n, d) \<Rightarrow>
              (let q = Fract (int (undec n)) (int (undec d))
               in bindE (must (fraction_str q = s)) (\<lambda>_. Inr q)))
      | _ \<Rightarrow> Inl refused_input)"

text \<open>A dictionary's or set's key must be hashable: a list or a dictionary is a \<open>TypeError\<close>.\<close>

fun hashable :: "json \<Rightarrow> bool" where
  "hashable (JList _) = False"
| "hashable (JDict _) = False"
| "hashable _ = True"

definition must_hash :: "json \<Rightarrow> exn + unit" where
  "must_hash v = (if hashable v then Inr () else Inl (PyErr PyTypeError (lit ''unhashable type'')))"

definition same_field :: "json \<Rightarrow> string \<Rightarrow> json \<Rightarrow> exn + unit" where
  "same_field v k w = bindE (sub_lit v k) (\<lambda>x. must (py_eq x w))"

definition false_field :: "json \<Rightarrow> string \<Rightarrow> exn + unit" where
  "false_field v k = bindE (sub_lit v k) (\<lambda>x. must (x = JBool False))"

type_synonym axis_amounts = "(ustr \<times> rat option) list"

definition axis_fields :: "string \<Rightarrow> string list" where
  "axis_fields field =
     (if field = ''settled_amount_or_UNKNOWN''
      then [''axis_id'', ''unit'', ''aggregation'', ''scope'', field, ''measured_amount'']
      else [''axis_id'', ''unit'', ''aggregation'', ''scope'', field])"

text \<open>One row: its shape, its axis and that axis's declaration, and its amount or UNKNOWN.\<close>

definition axis_row :: "string \<Rightarrow> axis_amounts \<Rightarrow> json \<Rightarrow> exn + axis_amounts" where
  "axis_row field result r =
     bindE (must (has_exactly (axis_fields field) r)) (\<lambda>_.
     bindE (sub_lit r ''axis_id'') (\<lambda>name.
     bindE (must_hash name) (\<lambda>_.
     bindE (must (is_str name \<and> map_of ledger_axes (the_str name) \<noteq> None \<and> map_of result (the_str name) = None)) (\<lambda>_.
     bindE (must (case map_of ledger_axes (the_str name) of
                    Some (u, a, s) \<Rightarrow>
                      member r ''unit'' = JStr u \<and> member r ''aggregation'' = JStr a \<and> member r ''scope'' = JStr s
                  | None \<Rightarrow> False)) (\<lambda>_.
     bindE (sub_lit r field) (\<lambda>v.
     bindE (if v = jlit ''UNKNOWN'' then Inr None else bindE (amount v) (\<lambda>q. Inr (Some q))) (\<lambda>q.
     Inr (result @ [(the_str name, q)]))))))))"

fun axis_rows :: "string \<Rightarrow> axis_amounts \<Rightarrow> json list \<Rightarrow> exn + axis_amounts" where
  "axis_rows field result [] = Inr result"
| "axis_rows field result (r # rs) = bindE (axis_row field result r) (\<lambda>result'. axis_rows field result' rs)"

definition axes :: "json \<Rightarrow> string \<Rightarrow> exn + axis_amounts" where
  "axes rows field =
     (case rows of
        JList rs \<Rightarrow> bindE (must (0 < length rs \<and> length rs \<le> length ledger_axes)) (\<lambda>_. axis_rows field [] rs)
      | _ \<Rightarrow> Inl refused_input)"

definition all_known :: "axis_amounts \<Rightarrow> bool" where
  "all_known a \<longleftrightarrow> list_all (\<lambda>(k, v). v \<noteq> None) a"

definition same_axes :: "axis_amounts \<Rightarrow> axis_amounts \<Rightarrow> bool" where
  "same_axes a b \<longleftrightarrow> set (keys a) = set (keys b)"

section \<open>Signed records\<close>

definition producer :: "externals \<Rightarrow> ledger_host \<Rightarrow> json" where
  "producer X L = JDict [(lit ''component'', jlit ''verify-run''), (lit ''version'', jlit ''0.1.0a7''),
     (lit ''source_sha256'', JStr (sha256_hex X (lh_source L))), (lit ''source_identity_scope'', jlit ''child_ledger.py'')]"

definition hex_of :: "bytes \<Rightarrow> ustr" where
  "hex_of b = concat (map (\<lambda>x. [hex_digit (x div 16), hex_digit (x mod 16)]) b)"

text \<open>\<open>bytes.fromhex\<close>: white space between pairs is skipped, and letters may be of either case.\<close>

definition hex_space :: "nat \<Rightarrow> bool" where
  "hex_space c \<longleftrightarrow> c = 32 \<or> 9 \<le> c \<and> c \<le> 13"

fun from_hex :: "ustr \<Rightarrow> bytes option" where
  "from_hex [] = Some []"
| "from_hex (c # r) =
     (if hex_space c then from_hex r
      else case r of
             [] \<Rightarrow> None
           | d # r' \<Rightarrow>
               (case (hex_value c, hex_value d) of
                  (Some x, Some y) \<Rightarrow> map_option (\<lambda>b. (16 * x + y) # b) (from_hex r')
                | _ \<Rightarrow> None))"

definition with_digest :: "externals \<Rightarrow> json \<Rightarrow> exn + json" where
  "with_digest X record = bindE (custody_digest X record) (\<lambda>d. Inr (JDict (items record @ [(lit ''sha256'', JStr d)])))"

definition envelope :: "externals \<Rightarrow> ledger_host \<Rightarrow> bytes \<Rightarrow> ustr \<Rightarrow> json \<Rightarrow> exn + json" where
  "envelope X L seed issuer content =
     (let message = [(lit ''issuer_identity'', JStr issuer), (lit ''producer_identity'', producer X L), (lit ''body'', content)]
      in bindE (raw (JDict message)) (\<lambda>m.
           case ed25519_sign X seed (ledger_domain @ m) of
             None \<Rightarrow> refuse ''An Ed25519 private key is 32 bytes long''
           | Some s \<Rightarrow> with_digest X (JDict (message @ [(lit ''signature'', JStr (hex_of s))]))))"

definition signature_holds :: "externals \<Rightarrow> json \<Rightarrow> json \<Rightarrow> json \<Rightarrow> bool" where
  "signature_holds X entry signature message =
     (case (get_lit entry ''public_key_hex'', signature) of
        (Some (JStr k), JStr s) \<Rightarrow>
          (case (from_hex k, from_hex s, raw message) of
             (Some key, Some sig, Inr m) \<Rightarrow> ed25519_loads X key \<and> ed25519_verify X key sig (ledger_domain @ m)
           | _ \<Rightarrow> False)
      | _ \<Rightarrow> False)"

definition check_signer :: "externals \<Rightarrow> json \<Rightarrow> json \<Rightarrow> json \<Rightarrow> exn + unit" where
  "check_signer X entry record message =
     bindE (must_or ''Untrusted issuer or producer; UNKNOWN.''
       (is_dict entry \<and> py_eq (member entry ''producer_identity'') (member record ''producer_identity''))) (\<lambda>_.
     must_or ''Signature verification failed; UNKNOWN.''
       (signature_holds X entry (member record ''signature'') message))"

definition trust_entry :: "json \<Rightarrow> json \<Rightarrow> json" where
  "trust_entry trust issuer =
     (case issuer of JStr i \<Rightarrow> (case dict_get trust i of Some e \<Rightarrow> e | None \<Rightarrow> JNull) | _ \<Rightarrow> JNull)"

definition signed_message :: "json \<Rightarrow> (ustr \<times> json) list" where
  "signed_message record =
     map (\<lambda>k. (lit k, member record k)) [''issuer_identity'', ''producer_identity'', ''body'']"

definition authenticate :: "externals \<Rightarrow> json \<Rightarrow> json \<Rightarrow> exn + json" where
  "authenticate X record trust =
     bindE (must (has_exactly [''issuer_identity'', ''producer_identity'', ''body'', ''signature'', ''sha256''] record)) (\<lambda>_.
     bindE (custody_digest X (JDict (signed_message record @ [(lit ''signature'', member record ''signature'')]))) (\<lambda>d.
     bindE (must (member record ''sha256'' = JStr d)) (\<lambda>_.
     bindE (must_hash (member record ''issuer_identity'')) (\<lambda>_.
     bindE (check_signer X (trust_entry trust (member record ''issuer_identity'')) record (JDict (signed_message record))) (\<lambda>_.
     bindE (if is_dict (member record ''body'') then Inr () else Inl (PyErr PyAttributeError (lit ''get''))) (\<lambda>_.
     bindE (must (get_lit (member record ''body'') ''authority_granted'' = Some (JBool False))) (\<lambda>_.
     Inr (member record ''body''))))))))"

section \<open>The parent\<close>

text \<open>\<open>v.get(k, default)\<close>: an \<open>AttributeError\<close> unless the value is a dictionary.\<close>

definition py_attribute_get :: "json \<Rightarrow> string \<Rightarrow> json \<Rightarrow> exn + json" where
  "py_attribute_get v k absent =
     (if is_dict v then Inr (case get_lit v k of Some w \<Rightarrow> w | None \<Rightarrow> absent)
      else Inl (PyErr PyAttributeError (lit ''get'')))"

definition distinct_texts :: "json list \<Rightarrow> bool" where
  "distinct_texts vs \<longleftrightarrow> list_all plain_text vs \<and> distinct (map the_str vs)"

definition artifact_reference :: "json \<Rightarrow> bool" where
  "artifact_reference v \<longleftrightarrow>
     has_exactly [''path'', ''sha256''] v \<and> plain_text (member v ''path'') \<and> hex_digest (member v ''sha256'')"

definition parent_binding :: "externals \<Rightarrow> bytes \<Rightarrow> json \<Rightarrow> exn + json" where
  "parent_binding X start_bytes basis =
     bindE (decode_parent_start start_bytes) (\<lambda>s.
     bindE (must (get_lit s ''state'' = Some (jlit ''STARTED'') \<and> get_lit s ''automatic_retry'' = Some (JBool False))) (\<lambda>_.
     bindE (must (\<forall>k \<in> {''task_key'', ''operation_id'', ''attempt_id''}. plain_text (member s k))) (\<lambda>_.
     (let identity = member s ''task_identity'' in
      bindE (must (is_dict identity \<and> hex_digest (member identity ''subject_sha256''))) (\<lambda>_.
      (let pop = (case get_lit s ''native_child_population'' of Some p \<Rightarrow> p | None \<Rightarrow> JDict []) in
       bindE (py_attribute_get pop ''expected_child_ids'' JNull) (\<lambda>ids.
       bindE (must (get_lit pop ''state'' = Some (jlit ''DECLARED_BEFORE_DISPATCH'') \<and>
                    (case ids of JList vs \<Rightarrow> 0 < length vs \<and> length vs \<le> 128 | _ \<Rightarrow> False))) (\<lambda>_.
       bindE (must (case ids of JList vs \<Rightarrow> distinct_texts vs | _ \<Rightarrow> False)) (\<lambda>_.
       bindE (must (artifact_reference basis)) (\<lambda>_.
       bindE (py_iter (case get_lit s ''input_artifacts'' of Some a \<Rightarrow> a | None \<Rightarrow> JList [])) (\<lambda>artifacts.
       bindE (must (list_ex (\<lambda>r. is_dict r \<and> (\<forall>k \<in> {''path'', ''sha256''}. py_eq (member r k) (member basis k))) artifacts)) (\<lambda>_.
       Inr (JDict [(lit ''task_key'', member s ''task_key''), (lit ''task_identity'', identity),
              (lit ''parent_binding'', JDict [(lit ''operation_id'', member s ''operation_id''),
                 (lit ''attempt_id'', member s ''attempt_id''), (lit ''start_sha256'', JStr (sha256_hex X start_bytes)),
                 (lit ''basis_artifact'', basis)]),
              (lit ''expected_child_ids'', ids)])))))))))))))"

section \<open>Exposure\<close>

text \<open>\<open>used[name] += v\<close>.\<close>

definition add_used :: "ustr \<Rightarrow> rat \<Rightarrow> (ustr \<times> rat) list \<Rightarrow> exn + (ustr \<times> rat) list" where
  "add_used name v used =
     (case map_of used name of
        Some u \<Rightarrow> Inr (dset name (u + v) used)
      | None \<Rightarrow> Inl (PyErr PyKeyError name))"

text \<open>A known settlement stands for the axis; otherwise the hold does, or the observed cost where it is higher.\<close>

definition held_value :: "rat option \<Rightarrow> rat option \<Rightarrow> rat option \<Rightarrow> exn + rat" where
  "held_value reserved measured paid =
     (case paid of
        Some v \<Rightarrow> Inr v
      | None \<Rightarrow>
          (case reserved of
             Some r \<Rightarrow> Inr (max r (case measured of Some m \<Rightarrow> m | None \<Rightarrow> 0))
           | None \<Rightarrow> Inl (PyErr PyTypeError (lit ''unorderable types''))))"

definition known :: "axis_amounts \<Rightarrow> ustr \<Rightarrow> rat option" where
  "known a name = (case map_of a name of Some v \<Rightarrow> v | None \<Rightarrow> None)"

fun add_held ::
  "axis_amounts \<Rightarrow> axis_amounts \<Rightarrow> axis_amounts \<Rightarrow> (ustr \<times> rat) list \<Rightarrow> exn + (ustr \<times> rat) list" where
  "add_held [] measured paid used = Inr used"
| "add_held ((name, reserved) # held) measured paid used =
     bindE (held_value reserved (known measured name) (known paid name)) (\<lambda>v.
     bindE (add_used name v used) (\<lambda>used'. add_held held measured paid used'))"

definition event_rows :: "json \<Rightarrow> string \<Rightarrow> exn + axis_amounts" where
  "event_rows event field =
     bindE (sub_lit event ''body'') (\<lambda>b. bindE (sub_lit b ''resource_rows'') (\<lambda>rows. axes rows field))"

definition child_usage :: "json \<Rightarrow> (ustr \<times> rat) list \<Rightarrow> exn + (ustr \<times> rat) list" where
  "child_usage c used =
     bindE (sub_lit c ''reservation'') (\<lambda>reservation.
       if reservation = JNull then Inr used
       else
         bindE (event_rows reservation ''reserved_amount'') (\<lambda>held.
         bindE (sub_lit c ''completion'') (\<lambda>completion.
         bindE (if truthy completion then event_rows completion ''measured_amount'' else Inr []) (\<lambda>measured.
         bindE (sub_lit c ''settlement'') (\<lambda>settlement.
         bindE (if truthy settlement then event_rows settlement ''settled_amount_or_UNKNOWN'' else Inr []) (\<lambda>paid.
         add_held held measured paid used))))))"

fun add_children :: "json list \<Rightarrow> (ustr \<times> rat) list \<Rightarrow> exn + (ustr \<times> rat) list" where
  "add_children [] used = Inr used"
| "add_children (c # cs) used = bindE (child_usage c used) (\<lambda>used'. add_children cs used')"

definition axis_names :: "json list \<Rightarrow> exn + ustr list" where
  "axis_names rows =
     mapE (\<lambda>r. bindE (sub_lit r ''axis_id'') (\<lambda>n. bindE (must_hash n) (\<lambda>_. Inr (the_str n)))) rows"

definition ledger_usage :: "json \<Rightarrow> exn + (ustr \<times> rat) list" where
  "ledger_usage b =
     bindE (sub_lit b ''budget'') (\<lambda>budget.
     bindE (sub_lit budget ''resource_rows'') (\<lambda>rows.
     bindE (py_iter rows) (\<lambda>rs.
     bindE (axis_names rs) (\<lambda>names.
     bindE (sub_lit b ''children'') (\<lambda>children.
     bindE (py_iter children) (\<lambda>cs.
     add_children cs (foldl (\<lambda>used n. dset n 0 used) [] names)))))))"

section \<open>Events\<close>

definition bound_event :: "json \<Rightarrow> json \<Rightarrow> exn + json" where
  "bound_event b child =
     bindE (sub_lit b ''task_key'') (\<lambda>task_key.
     bindE (sub_lit b ''task_identity'') (\<lambda>task_identity.
     bindE (sub_lit child ''child_id'') (\<lambda>child_id.
     bindE (sub_lit child ''attempt_id'') (\<lambda>attempt_id.
     bindE (sub_lit b ''parent_binding'') (\<lambda>parent.
     bindE (sub_lit parent ''operation_id'') (\<lambda>operation.
     bindE (sub_lit parent ''attempt_id'') (\<lambda>parent_attempt.
     bindE (sub_lit parent ''start_sha256'') (\<lambda>start.
     bindE (sub_lit parent ''basis_artifact'') (\<lambda>basis.
     bindE (sub_lit b ''expected_child_ids'') (\<lambda>ids.
     bindE (sub_lit b ''budget'') (\<lambda>budget.
     bindE (sub_lit budget ''budget_id'') (\<lambda>budget_id.
     bindE (sub_lit budget ''budget_sha256'') (\<lambda>budget_sha256.
     Inr (JDict [(lit ''task_key'', task_key), (lit ''task_identity'', task_identity), (lit ''child_id'', child_id),
        (lit ''attempt_id'', attempt_id), (lit ''parent_operation_id'', operation), (lit ''parent_attempt_id'', parent_attempt),
        (lit ''parent_start_sha256'', start), (lit ''basis_artifact'', basis), (lit ''expected_child_ids'', ids),
        (lit ''budget_id'', budget_id), (lit ''budget_sha256'', budget_sha256)]))))))))))))))"

text \<open>\<open>_event\<close>; what is particular to a kind is passed as \<open>own\<close>.\<close>

definition event_body :: "externals \<Rightarrow> json \<Rightarrow> json \<Rightarrow> string \<Rightarrow> json \<Rightarrow> (ustr \<times> json) list \<Rightarrow> exn + json" where
  "event_body X b child kind when own =
     bindE (must (plain_text when)) (\<lambda>_.
     bindE (bound_event b child) (\<lambda>bind.
     bindE (custody_digest X bind) (\<lambda>d.
     Inr (JDict (items bind @
       [(lit ''schema'', JStr (lit ''vfy.child-'' @ lit kind @ lit ''/1'')), (lit ''event_id'', JStr (lit kind @ [45] @ d)),
        (lit ''recorded_at'', when), (lit ''authority_granted'', JBool False), (lit ''automatic_retry'', JBool False)] @ own)))))"

record ledger =
  lg_root :: ustr
  lg_seed :: bytes
  lg_issuer :: ustr
  lg_trust :: json
  lg_start :: bytes
  lg_basis :: json
  lg_budget :: bytes

definition ledger_event ::
  "externals \<Rightarrow> ledger_host \<Rightarrow> ledger \<Rightarrow> json \<Rightarrow> json \<Rightarrow> string \<Rightarrow> json \<Rightarrow> (ustr \<times> json) list \<Rightarrow> exn + json" where
  "ledger_event X L G b child kind when own =
     bindE (event_body X b child kind when own) (\<lambda>e. envelope X L (lg_seed G) (lg_issuer G) e)"

section \<open>Operations on the body\<close>

text \<open>The child dictionaries are changed in place: \<open>update_first\<close> changes the first that is selected.\<close>

fun update_first :: "('a \<Rightarrow> bool) \<Rightarrow> ('a \<Rightarrow> 'a) \<Rightarrow> 'a list \<Rightarrow> 'a list" where
  "update_first P f [] = []"
| "update_first P f (x # xs) = (if P x then f x # xs else x # update_first P f xs)"

definition set_member :: "string \<Rightarrow> json \<Rightarrow> json \<Rightarrow> json" where
  "set_member k v d = JDict (dset (lit k) v (items d))"

definition child_list :: "json \<Rightarrow> exn + json list" where
  "child_list b = bindE (sub_lit b ''children'') py_iter"

definition set_child :: "(json \<Rightarrow> bool) \<Rightarrow> string \<Rightarrow> json \<Rightarrow> json \<Rightarrow> json" where
  "set_child P k v b =
     (case get_lit b ''children'' of
        Some (JList cs) \<Rightarrow> set_member ''children'' (JList (update_first P (set_member k v) cs)) b
      | _ \<Rightarrow> b)"

definition has_id :: "string \<Rightarrow> json \<Rightarrow> json \<Rightarrow> bool" where
  "has_id k v c \<longleftrightarrow> (case get_lit c k of Some w \<Rightarrow> py_eq w v | None \<Rightarrow> False)"

text \<open>The first element that satisfies a test that may raise, as \<open>next\<close> of a generator finds it.\<close>

fun findE :: "('a \<Rightarrow> exn + bool) \<Rightarrow> 'a list \<Rightarrow> exn + 'a option" where
  "findE test [] = Inr None"
| "findE test (x # xs) = bindE (test x) (\<lambda>b. if b then Inr (Some x) else findE test xs)"

definition axis_limit :: "axis_amounts \<Rightarrow> axis_amounts \<Rightarrow> (ustr \<times> rat) list \<Rightarrow> ustr \<Rightarrow> exn + unit" where
  "axis_limit requested limits used k =
     (case (map_of used k, known requested k, known limits k) of
        (Some u, Some r, Some l) \<Rightarrow> must_or ''Local budget unavailable; reservation refused.'' (u + r \<le> l)
      | (None, _, _) \<Rightarrow> Inl (PyErr PyKeyError k)
      | _ \<Rightarrow> Inl (PyErr PyTypeError (lit ''unsupported operand'')))"

text \<open>The reservation event names itself: its body's id is added and the body is signed again.\<close>

definition reservation_event ::
  "externals \<Rightarrow> ledger_host \<Rightarrow> ledger \<Rightarrow> json \<Rightarrow> json \<Rightarrow> json \<Rightarrow> json \<Rightarrow> exn + json" where
  "reservation_event X L G b child rows issued_at =
     bindE (ledger_event X L G b child ''reservation'' issued_at
              [(lit ''issued_at'', issued_at), (lit ''resource_rows'', rows), (lit ''state'', jlit ''RESERVED_LOCAL_HOLD'')]) (\<lambda>event.
     (let e = member event ''body''
      in envelope X L (lg_seed G) (lg_issuer G) (set_member ''reservation_id'' (member e ''event_id'') e)))"

definition reserve_change ::
  "externals \<Rightarrow> ledger_host \<Rightarrow> ledger \<Rightarrow> json \<Rightarrow> json \<Rightarrow> json \<Rightarrow> axis_amounts \<Rightarrow> json \<Rightarrow> json \<Rightarrow> exn + json \<times> json" where
  "reserve_change X L G child_id attempt_id rows requested issued_at b =
     bindE (child_list b) (\<lambda>cs.
     bindE (findE (\<lambda>c. bindE (sub_lit c ''child_id'') (\<lambda>i. Inr (py_eq i child_id))) cs) (\<lambda>found.
     bindE (case found of None \<Rightarrow> Inr JNull | Some c \<Rightarrow> sub_lit c ''reservation'') (\<lambda>reservation.
     bindE (must_or ''Missing, duplicate or already-reserved child; UNKNOWN/no redispatch.''
              (found \<noteq> None \<and> reservation = JNull)) (\<lambda>_.
     bindE (must (\<forall>c \<in> set cs. \<not> has_id ''attempt_id'' attempt_id c)) (\<lambda>_.
     bindE (sub_lit b ''budget'') (\<lambda>budget.
     bindE (sub_lit budget ''resource_rows'') (\<lambda>budget_rows.
     bindE (axes budget_rows ''limit'') (\<lambda>limits.
     bindE (ledger_usage b) (\<lambda>used.
     bindE (must (same_axes requested limits)) (\<lambda>_.
     bindE (forE (axis_limit requested limits used) (keys limits)) (\<lambda>_.
     (let child = set_member ''attempt_id'' attempt_id (the found);
          b1 = set_child (has_id ''child_id'' child_id) ''attempt_id'' attempt_id b
      in bindE (reservation_event X L G b1 child rows issued_at) (\<lambda>event.
           Inr (set_child (has_id ''child_id'' child_id) ''reservation'' event b1, event))))))))))))))"

text \<open>\<open>_child\<close>: the children that hold a reservation of that id, exactly one.\<close>

definition reserved_as :: "json \<Rightarrow> json \<Rightarrow> exn + bool" where
  "reserved_as reservation_id c =
     bindE (sub_lit c ''reservation'') (\<lambda>r.
       if \<not> truthy r then Inr False
       else bindE (sub_lit r ''body'') (\<lambda>e. bindE (sub_lit e ''reservation_id'') (\<lambda>i. Inr (py_eq i reservation_id))))"

definition find_child :: "json \<Rightarrow> json \<Rightarrow> exn + json" where
  "find_child b reservation_id =
     bindE (child_list b) (\<lambda>cs.
     bindE (mapE (reserved_as reservation_id) cs) (\<lambda>flags.
     (case map fst (filter snd (zip cs flags)) of
        [c] \<Rightarrow> Inr c
      | _ \<Rightarrow> Inl refused_input)))"

definition holds_reservation :: "json \<Rightarrow> json \<Rightarrow> bool" where
  "holds_reservation reservation_id c \<longleftrightarrow> reserved_as reservation_id c = Inr True"

definition reservation_digest :: "json \<Rightarrow> exn + json" where
  "reservation_digest c = bindE (sub_lit c ''reservation'') (\<lambda>r. sub_lit r ''sha256'')"

definition dispatch_change ::
  "externals \<Rightarrow> ledger_host \<Rightarrow> ledger \<Rightarrow> json \<Rightarrow> json \<Rightarrow> json \<Rightarrow> exn + json \<times> json" where
  "dispatch_change X L G reservation_id when b =
     bindE (find_child b reservation_id) (\<lambda>c.
     bindE (sub_lit c ''dispatch'') (\<lambda>dispatch.
     bindE (must (dispatch = JNull)) (\<lambda>_.
     bindE (reservation_digest c) (\<lambda>rd.
     bindE (ledger_event X L G b c ''dispatch'' when
              [(lit ''reservation_id'', reservation_id), (lit ''reservation_sha256'', rd),
               (lit ''state'', jlit ''INTENT_RECORDED_NOT_PROOF_OF_LAUNCH'')]) (\<lambda>event.
     Inr (set_child (holds_reservation reservation_id) ''dispatch'' event b, event))))))"

definition measured_state :: "axis_amounts \<Rightarrow> json" where
  "measured_state a = (if all_known a then jlit ''RECORDED_PRODUCER_OBSERVATION'' else jlit ''PARTIAL_OR_UNKNOWN'')"

definition measurement_assurance :: json where
  "measurement_assurance = jlit ''TRUSTED_PRODUCER_OBSERVATION_INPUT_NOT_INDEPENDENTLY_MEASURED_BY_LEDGER''"

definition complete_change ::
  "externals \<Rightarrow> ledger_host \<Rightarrow> ledger \<Rightarrow> json \<Rightarrow> json \<Rightarrow> json \<Rightarrow> axis_amounts \<Rightarrow> json \<Rightarrow> json \<Rightarrow> json \<Rightarrow> exn + json \<times> json" where
  "complete_change X L G reservation_id service rows measured observed when b =
     bindE (find_child b reservation_id) (\<lambda>c.
     bindE (sub_lit c ''dispatch'') (\<lambda>dispatch.
     bindE (if dispatch = JNull then Inr JNull else sub_lit c ''completion'') (\<lambda>completion.
     bindE (must (dispatch \<noteq> JNull \<and> completion = JNull)) (\<lambda>_.
     bindE (sub_lit c ''reservation'') (\<lambda>r.
     bindE (event_rows r ''reserved_amount'') (\<lambda>held.
     bindE (must (same_axes measured held)) (\<lambda>_.
     bindE (reservation_digest c) (\<lambda>rd.
     bindE (ledger_event X L G b c ''completion'' when
              [(lit ''reservation_id'', reservation_id), (lit ''reservation_sha256'', rd), (lit ''service_performed'', service),
               (lit ''resource_measured'', measured_state measured), (lit ''financial_or_external_settlement'', jlit ''UNKNOWN''),
               (lit ''observation'', observed), (lit ''measurement_assurance'', measurement_assurance),
               (lit ''resource_rows'', rows)]) (\<lambda>event.
     Inr (set_child (holds_reservation reservation_id) ''completion'' event b, event))))))))))"

definition settlement_row :: "json \<Rightarrow> json \<Rightarrow> exn + json" where
  "settlement_row service r =
     bindE (sub_lit r ''axis_id'') (\<lambda>i. bindE (sub_lit r ''unit'') (\<lambda>u.
     bindE (sub_lit r ''aggregation'') (\<lambda>a. bindE (sub_lit r ''scope'') (\<lambda>s.
     bindE (sub_lit r ''measured_amount'') (\<lambda>m.
     Inr (JDict [(lit ''axis_id'', i), (lit ''unit'', u), (lit ''aggregation'', a), (lit ''scope'', s),
        (lit ''measured_amount'', m),
        (lit ''settled_amount_or_UNKNOWN'', if py_eq service (jlit ''UNKNOWN'') then jlit ''UNKNOWN'' else m)]))))))"

definition settlement_id :: "externals \<Rightarrow> json \<Rightarrow> json \<Rightarrow> exn + json" where
  "settlement_id X reservation_id completion_sha256 =
     bindE (custody_digest X (JDict [(lit ''reservation'', reservation_id), (lit ''completion'', completion_sha256)]))
       (\<lambda>d. Inr (JStr (lit ''settlement-'' @ d)))"

definition settle_change ::
  "externals \<Rightarrow> ledger_host \<Rightarrow> ledger \<Rightarrow> json \<Rightarrow> json \<Rightarrow> json \<Rightarrow> json \<Rightarrow> exn + json \<times> json" where
  "settle_change X L G reservation_id completion_sha256 settled_at b =
     bindE (find_child b reservation_id) (\<lambda>c.
     bindE (sub_lit c ''completion'') (\<lambda>completion.
     bindE (if completion = JNull then Inr JNull else sub_lit c ''settlement'') (\<lambda>settlement.
     bindE (must (completion \<noteq> JNull \<and> settlement = JNull)) (\<lambda>_.
     bindE (same_field completion ''sha256'' completion_sha256) (\<lambda>_.
     bindE (sub_lit completion ''body'') (\<lambda>e.
     bindE (sub_lit e ''resource_rows'') (\<lambda>measured_rows.
     bindE (py_iter measured_rows) (\<lambda>rs.
     bindE (sub_lit e ''service_performed'') (\<lambda>service.
     bindE (mapE (settlement_row service) rs) (\<lambda>rows.
     bindE (settlement_id X reservation_id completion_sha256) (\<lambda>sid.
     bindE (reservation_digest c) (\<lambda>rd.
     bindE (sub_lit e ''resource_measured'') (\<lambda>how.
     bindE (ledger_event X L G b c ''settlement'' settled_at
              [(lit ''settled_at'', settled_at), (lit ''settlement_id'', sid), (lit ''reservation_id'', reservation_id),
               (lit ''reservation_sha256'', rd), (lit ''completion_sha256'', completion_sha256),
               (lit ''service_performed'', service), (lit ''resource_measured'', how),
               (lit ''financial_or_external_settlement'', jlit ''UNKNOWN''),
               (lit ''state'', jlit ''LOCAL_RESOURCE_ACCOUNTING_ONLY''), (lit ''resource_rows'', JList rows)]) (\<lambda>event.
     Inr (set_child (holds_reservation reservation_id) ''settlement'' event b, event)))))))))))))))"

section \<open>Files\<close>

definition ledger_file :: "ustr \<Rightarrow> string \<Rightarrow> fs_path" where
  "ledger_file home name = absolute home @ [lit name]"

text \<open>A link at the path is refused: the path does not resolve to itself.\<close>

definition read_ledger_file :: "ledger_host \<Rightarrow> ustr \<Rightarrow> fs_path \<Rightarrow> fs \<Rightarrow> exn + bytes" where
  "read_ledger_file L name p t =
     bindE (must (ch_plain (custody_host.truncate L) name)) (\<lambda>_.
       case map_of t p of
         None \<Rightarrow> Inl (os_failure ENoent)
       | Some (Symlink d) \<Rightarrow> Inl refused_input
       | Some (File b) \<Rightarrow>
           bindE (must (ch_links (custody_host.truncate L) name = 1 \<and> length b \<le> max_ledger_bytes)) (\<lambda>_. Inr b)
       | Some _ \<Rightarrow> Inl refused_input)"

definition state_name :: "ustr \<Rightarrow> ustr" where
  "state_name home = home @ lit ''/state.json''"

definition read_state :: "ledger_host \<Rightarrow> ustr \<Rightarrow> fs \<Rightarrow> exn + bytes" where
  "read_state L home = read_ledger_file L (state_name home) (ledger_file home ''state.json'')"

text \<open>\<open>fresh\<close>: create exclusively, then write.\<close>

definition fresh_file :: "fs_path \<Rightarrow> bytes \<Rightarrow> unit io" where
  "fresh_file p b = bindS (callS (os_create p)) (\<lambda>_. callS (os_write p b))"

text \<open>\<open>locked\<close>: the exclusive lock orders the ledger's processes; what its body sees is one tree.\<close>

definition check_locked :: "ledger_host \<Rightarrow> ustr \<Rightarrow> fs \<Rightarrow> exn + unit" where
  "check_locked L home t =
     (case map_of t (ledger_file home ''lock'') of
        None \<Rightarrow> Inl (os_failure ENoent)
      | Some (File b) \<Rightarrow>
          bindE (must (ch_links (custody_host.truncate L) (home @ lit ''/lock'') = 1)) (\<lambda>_.
          must_or ''Interrupted journal publication; UNKNOWN, no new allocation.''
            (map_of t (ledger_file home ''pending.json'') = None))
      | Some Special \<Rightarrow> Inl refused_input
      | Some _ \<Rightarrow> Inl (os_failure EOther))"

definition publish_state :: "ustr \<Rightarrow> bytes \<Rightarrow> unit io" where
  "publish_state home payload =
     bindS (fresh_file (ledger_file home ''pending.json'') payload) (\<lambda>_.
     callS (os_rename (ledger_file home ''pending.json'') (ledger_file home ''state.json'')))"

section \<open>Verification of a report\<close>

definition event_kinds :: "string list" where
  "event_kinds = [''reservation'', ''dispatch'', ''completion'', ''settlement'']"

definition bound_names :: "string list" where
  "bound_names = [''task_key'', ''task_identity'', ''child_id'', ''attempt_id'', ''parent_operation_id'',
     ''parent_attempt_id'', ''parent_start_sha256'', ''basis_artifact'', ''expected_child_ids'', ''budget_id'', ''budget_sha256'']"

definition picked :: "string list \<Rightarrow> json \<Rightarrow> exn + json" where
  "picked names v = bindE (mapE (\<lambda>k. bindE (sub_lit v k) (\<lambda>w. Inr (lit k, w))) names) (\<lambda>d. Inr (JDict d))"

text \<open>\<open>set(v) == {...}\<close>: the keys of a dictionary, the items of a list.\<close>

definition set_is :: "json \<Rightarrow> string list \<Rightarrow> exn + bool" where
  "set_is v names =
     bindE (py_iter v) (\<lambda>vs. bindE (forE must_hash vs) (\<lambda>_. Inr (set vs = set (map jlit names))))"

definition service_states :: "json list" where
  "service_states = [jlit ''PERFORMED'', jlit ''NOT_PERFORMED'', jlit ''UNKNOWN'']"

definition same_fields :: "json \<Rightarrow> (string \<times> json) list \<Rightarrow> exn + unit" where
  "same_fields v kws = forE (\<lambda>(k, w). same_field v k w) kws"

definition same_two :: "json \<Rightarrow> string \<Rightarrow> json \<Rightarrow> string \<Rightarrow> exn + unit" where
  "same_two v k w l = bindE (sub_lit v k) (\<lambda>x. bindE (sub_lit w l) (\<lambda>y. must (py_eq x y)))"

definition verify_reservation :: "json \<Rightarrow> axis_amounts \<Rightarrow> exn + unit" where
  "verify_reservation e limits =
     bindE (sub_lit e ''resource_rows'') (\<lambda>rows.
     bindE (axes rows ''reserved_amount'') (\<lambda>a.
     bindE (must (same_axes a limits \<and> all_known a)) (\<lambda>_.
     bindE (same_two e ''reservation_id'' e ''event_id'') (\<lambda>_.
     bindE (same_two e ''issued_at'' e ''recorded_at'') (\<lambda>_.
     same_field e ''state'' (jlit ''RESERVED_LOCAL_HOLD''))))))"

definition verify_follower :: "json \<Rightarrow> json \<Rightarrow> exn + unit" where
  "verify_follower e c =
     bindE (sub_lit e ''reservation_id'') (\<lambda>i.
     bindE (sub_lit c ''reservation'') (\<lambda>r.
     bindE (sub_lit r ''body'') (\<lambda>rb.
     bindE (same_field rb ''reservation_id'' i) (\<lambda>_.
     same_two e ''reservation_sha256'' r ''sha256''))))"

definition verify_completion :: "json \<Rightarrow> axis_amounts \<Rightarrow> exn + unit" where
  "verify_completion e limits =
     bindE (sub_lit e ''resource_rows'') (\<lambda>rows.
     bindE (axes rows ''measured_amount'') (\<lambda>measured.
     bindE (must (same_axes measured limits)) (\<lambda>_.
     bindE (sub_lit e ''service_performed'') (\<lambda>service.
     bindE (must (service \<in> set service_states)) (\<lambda>_.
     bindE (same_field e ''financial_or_external_settlement'' (jlit ''UNKNOWN'')) (\<lambda>_.
     bindE (same_field e ''resource_measured'' (measured_state measured)) (\<lambda>_.
     bindE (same_field e ''measurement_assurance'' measurement_assurance) (\<lambda>_.
     bindE (sub_lit e ''observation'') (\<lambda>ob.
     bindE (set_is ob [''path'', ''sha256'']) (\<lambda>ok.
     bindE (must ok) (\<lambda>_.
     bindE (sub_lit ob ''path'') (\<lambda>p.
     bindE (must (plain_text p)) (\<lambda>_.
     bindE (sub_lit ob ''sha256'') (\<lambda>h. must (hex_digest h)))))))))))))))"

text \<open>The checks of one event of a child; the ids seen so far are threaded through.\<close>

definition verify_event ::
  "externals \<Rightarrow> json \<Rightarrow> json \<Rightarrow> json \<Rightarrow> json \<Rightarrow> json \<Rightarrow> json \<Rightarrow> axis_amounts \<Rightarrow> string \<Rightarrow> json list \<Rightarrow> exn + json list" where
  "verify_event X trust b basis budget budget_sha256 c limits kind ids =
     bindE (sub_lit c kind) (\<lambda>signed.
     bindE (authenticate X signed trust) (\<lambda>e.
     bindE (same_field e ''schema'' (JStr (lit ''vfy.child-'' @ lit kind @ lit ''/1''))) (\<lambda>_.
     bindE (false_field e ''automatic_retry'') (\<lambda>_.
     bindE (sub_lit e ''event_id'') (\<lambda>i.
     bindE (must_hash i) (\<lambda>_.
     bindE (must (\<forall>j \<in> set ids. \<not> py_eq i j)) (\<lambda>_.
     bindE (same_two e ''task_key'' b ''task_key'') (\<lambda>_.
     bindE (same_two e ''task_identity'' b ''task_identity'') (\<lambda>_.
     bindE (same_two e ''child_id'' c ''child_id'') (\<lambda>_.
     bindE (same_two e ''attempt_id'' c ''attempt_id'') (\<lambda>_.
     bindE (sub_lit b ''parent_binding'') (\<lambda>parent.
     bindE (same_two e ''parent_operation_id'' parent ''operation_id'') (\<lambda>_.
     bindE (same_two e ''parent_attempt_id'' parent ''attempt_id'') (\<lambda>_.
     bindE (same_two e ''parent_start_sha256'' parent ''start_sha256'') (\<lambda>_.
     bindE (same_field e ''basis_artifact'' basis) (\<lambda>_.
     bindE (same_two e ''expected_child_ids'' b ''expected_child_ids'') (\<lambda>_.
     bindE (same_two e ''budget_id'' budget ''budget_id'') (\<lambda>_.
     bindE (same_field e ''budget_sha256'' budget_sha256) (\<lambda>_.
     bindE (picked bound_names e) (\<lambda>bind.
     bindE (custody_digest X bind) (\<lambda>d.
     bindE (must (i = JStr (lit kind @ [45] @ d))) (\<lambda>_.
     bindE (if kind = ''reservation'' then verify_reservation e limits else verify_follower e c) (\<lambda>_.
     bindE (if kind = ''dispatch'' then same_field e ''state'' (jlit ''INTENT_RECORDED_NOT_PROOF_OF_LAUNCH'') else Inr ()) (\<lambda>_.
     bindE (if kind = ''completion'' then verify_completion e limits else Inr ()) (\<lambda>_.
     Inr (ids @ [i]))))))))))))))))))))))))))"

fun verify_events ::
  "externals \<Rightarrow> json \<Rightarrow> json \<Rightarrow> json \<Rightarrow> json \<Rightarrow> json \<Rightarrow> json \<Rightarrow> axis_amounts \<Rightarrow> string list \<Rightarrow> json list \<Rightarrow> exn + json list" where
  "verify_events X trust b basis budget bd c limits [] ids = Inr ids"
| "verify_events X trust b basis budget bd c limits (kind # kinds) ids =
     bindE (sub_lit c kind) (\<lambda>v.
     bindE (if v = JNull then Inr ids else verify_event X trust b basis budget bd c limits kind ids) (\<lambda>ids'.
     verify_events X trust b basis budget bd c limits kinds ids'))"

definition expected_settlement_row :: "json \<Rightarrow> json \<Rightarrow> exn + json" where
  "expected_settlement_row service r =
     bindE (sub_lit r ''measured_amount'') (\<lambda>m.
     Inr (set_member ''settled_amount_or_UNKNOWN'' (if py_eq service (jlit ''UNKNOWN'') then jlit ''UNKNOWN'' else m) r))"

definition verify_settlement :: "externals \<Rightarrow> json \<Rightarrow> exn + unit" where
  "verify_settlement X c =
     bindE (sub_lit c ''completion'') (\<lambda>completion.
     bindE (must (completion \<noteq> JNull)) (\<lambda>_.
     bindE (sub_lit c ''settlement'') (\<lambda>settlement.
     bindE (sub_lit settlement ''body'') (\<lambda>e.
     bindE (sub_lit completion ''body'') (\<lambda>cb.
     bindE (same_two e ''completion_sha256'' completion ''sha256'') (\<lambda>_.
     bindE (sub_lit e ''reservation_id'') (\<lambda>ri.
     bindE (sub_lit e ''completion_sha256'') (\<lambda>cs.
     bindE (settlement_id X ri cs) (\<lambda>sid.
     bindE (same_field e ''settlement_id'' sid) (\<lambda>_.
     bindE (same_two e ''settled_at'' e ''recorded_at'') (\<lambda>_.
     bindE (same_field e ''state'' (jlit ''LOCAL_RESOURCE_ACCOUNTING_ONLY'')) (\<lambda>_.
     bindE (same_two e ''service_performed'' cb ''service_performed'') (\<lambda>_.
     bindE (same_two e ''resource_measured'' cb ''resource_measured'') (\<lambda>_.
     bindE (same_field e ''financial_or_external_settlement'' (jlit ''UNKNOWN'')) (\<lambda>_.
     bindE (sub_lit cb ''resource_rows'') (\<lambda>rows.
     bindE (py_iter rows) (\<lambda>rs.
     bindE (sub_lit cb ''service_performed'') (\<lambda>service.
     bindE (mapE (expected_settlement_row service) rs) (\<lambda>expected.
     bindE (sub_lit e ''resource_rows'') (\<lambda>actual.
     must_or ''Settlement conflicts with measured completion; UNKNOWN.'' (py_eq actual (JList expected))))))))))))))))))))))"

end
