(* ===== verification/Budget.thy ===== *)
theory Budget
  imports Ledger
begin

text \<open>
  \<^verbatim>\<open>src/vfy/child_ledger.py\<close>: verification of a selected report, and the class \<open>Ledger\<close>: its creation and its
  operations, each of which verifies the published state, changes it and publishes the successor.
\<close>

section \<open>The report\<close>

definition child_fields :: "bool \<Rightarrow> string list" where
  "child_fields free =
     (if free then [''child_id'', ''reservation'', ''dispatch'', ''completion'', ''settlement'']
      else [''child_id'', ''attempt_id'', ''reservation'', ''dispatch'', ''completion'', ''settlement''])"

definition verify_free_child :: "json \<Rightarrow> exn + unit" where
  "verify_free_child c =
     forE (\<lambda>k. bindE (sub_lit c k) (\<lambda>v. must (v = JNull))) [''dispatch'', ''completion'', ''settlement'']"

text \<open>The ids of events and attempts seen so far are threaded through the children.\<close>

definition verify_child ::
  "externals \<Rightarrow> json \<Rightarrow> json \<Rightarrow> json \<Rightarrow> json \<Rightarrow> json \<Rightarrow> axis_amounts \<Rightarrow> json \<Rightarrow> json list \<times> json list
     \<Rightarrow> exn + json list \<times> json list" where
  "verify_child X trust b basis budget bd limits c = (\<lambda>(ids, attempts).
     bindE (sub_lit c ''reservation'') (\<lambda>r.
     bindE (must (has_exactly (child_fields (r = JNull)) c)) (\<lambda>_.
     if r = JNull then bindE (verify_free_child c) (\<lambda>_. Inr (ids, attempts))
     else
       bindE (sub_lit c ''attempt_id'') (\<lambda>a.
       bindE (must (plain_text a \<and> a \<notin> set attempts)) (\<lambda>_.
       bindE (verify_events X trust b basis budget bd c limits event_kinds ids) (\<lambda>ids'.
       bindE (sub_lit c ''completion'') (\<lambda>completion.
       bindE (sub_lit c ''dispatch'') (\<lambda>dispatch.
       bindE (must (completion = JNull \<or> dispatch \<noteq> JNull)) (\<lambda>_.
       bindE (sub_lit c ''settlement'') (\<lambda>settlement.
       bindE (if settlement = JNull then Inr () else verify_settlement X c) (\<lambda>_.
       Inr (ids', a # attempts))))))))))))"

fun verify_children ::
  "externals \<Rightarrow> json \<Rightarrow> json \<Rightarrow> json \<Rightarrow> json \<Rightarrow> json \<Rightarrow> axis_amounts \<Rightarrow> json list \<Rightarrow> json list \<times> json list
     \<Rightarrow> exn + json list \<times> json list" where
  "verify_children X trust b basis budget bd limits [] seen = Inr seen"
| "verify_children X trust b basis budget bd limits (c # cs) seen =
     bindE (verify_child X trust b basis budget bd limits c seen) (\<lambda>seen'.
     verify_children X trust b basis budget bd limits cs seen')"

text \<open>
  \<open>dict(budget, budget_sha256=..., domain=...)\<close>. A budget that is not an object ends in an exception here or
  at the subscripts that follow; the model lets it end here.
\<close>

definition pinned_budget :: "json \<Rightarrow> json \<Rightarrow> exn + json" where
  "pinned_budget budget bd =
     (if is_dict budget
      then Inr (set_member ''domain'' (jlit ''THIS_LOCAL_LEDGER_ONLY'') (set_member ''budget_sha256'' bd budget))
      else Inl (PyErr PyTypeError (lit ''not a mapping'')))"

definition verify_budget :: "json \<Rightarrow> json \<Rightarrow> json \<Rightarrow> exn + axis_amounts" where
  "verify_budget budget expected start_sha256 =
     bindE (same_field budget ''schema'' (jlit ''vfy.child-resource-budget/1'')) (\<lambda>_.
     bindE (same_two budget ''task_key'' expected ''task_key'') (\<lambda>_.
     bindE (same_two budget ''task_identity'' expected ''task_identity'') (\<lambda>_.
     bindE (same_field budget ''parent_start_sha256'' start_sha256) (\<lambda>_.
     bindE (sub_lit budget ''resource_rows'') (\<lambda>rows.
     bindE (axes rows ''limit'') (\<lambda>limits.
     bindE (must (all_known limits)) (\<lambda>_. Inr limits)))))))"

text \<open>A child whose cost is not settled in full knowledge.\<close>

definition unknown_child :: "json \<Rightarrow> exn + bool" where
  "unknown_child c =
     bindE (sub_lit c ''completion'') (\<lambda>completion.
     if completion = JNull then Inr True
     else
       bindE (sub_lit c ''settlement'') (\<lambda>settlement.
       if settlement = JNull then Inr True
       else
         bindE (sub_lit completion ''body'') (\<lambda>cb.
         bindE (sub_lit cb ''service_performed'') (\<lambda>service.
         if service = jlit ''UNKNOWN'' then Inr True
         else
           bindE (sub_lit settlement ''body'') (\<lambda>sb.
           bindE (sub_lit sb ''resource_rows'') (\<lambda>rows.
           bindE (py_iter rows) (\<lambda>rs.
           bindE (findE (\<lambda>r. bindE (sub_lit r ''settled_amount_or_UNKNOWN'') (\<lambda>v. Inr (v = jlit ''UNKNOWN''))) rs)
             (\<lambda>found. Inr (found \<noteq> None)))))))))"

definition unknown_children :: "json list \<Rightarrow> exn + json list" where
  "unknown_children cs =
     bindE (mapE (\<lambda>c. bindE (unknown_child c) (\<lambda>u. bindE (sub_lit c ''child_id'') (\<lambda>i. Inr (u, i)))) cs)
       (\<lambda>rs. Inr (map snd (filter fst rs)))"

definition over_limit :: "axis_amounts \<Rightarrow> (ustr \<times> rat) list \<Rightarrow> bool" where
  "over_limit limits used \<longleftrightarrow>
     list_ex (\<lambda>k. case (map_of used k, known limits k) of (Some u, Some l) \<Rightarrow> l < u | _ \<Rightarrow> False) (keys limits)"

definition report_of :: "json \<Rightarrow> json \<Rightarrow> axis_amounts \<Rightarrow> (ustr \<times> rat) list \<Rightarrow> json list \<Rightarrow> json" where
  "report_of b revision limits used unknown =
     JDict [(lit ''state'', jlit ''VERIFIED_SELECTED_SNAPSHOT_NOT_FRESHNESS''), (lit ''revision'', revision),
       (lit ''committed_exposure'', JDict (map (\<lambda>(k, v). (k, JStr (fraction_str v))) used)),
       (lit ''limit_exceeded'', JBool (over_limit limits used)), (lit ''unknown_children'', JList unknown),
       (lit ''authority_granted'', JBool False), (lit ''automatic_retry'', JBool False),
       (lit ''financial_or_external_settlement'', jlit ''UNKNOWN''),
       (lit ''unsupported_dimensions'', member b ''unsupported_dimensions'')]"

definition revision_ok :: "json \<Rightarrow> json \<Rightarrow> bool" where
  "revision_ok revision minimum \<longleftrightarrow>
     (case (revision, minimum) of (JInt r, JInt m) \<Rightarrow> m \<le> r \<and> 0 \<le> m | _ \<Rightarrow> False)"

definition check_report ::
  "externals \<Rightarrow> bytes \<Rightarrow> json \<Rightarrow> bytes \<Rightarrow> json \<Rightarrow> bytes \<Rightarrow> json \<Rightarrow> exn + json" where
  "check_report X report_bytes trust start_bytes basis budget_bytes minimum =
     bindE (must (length report_bytes \<le> max_ledger_bytes)) (\<lambda>_.
     bindE (load_json_bytes report_bytes) (\<lambda>record.
     bindE (authenticate X record trust) (\<lambda>b.
     bindE (parent_binding X start_bytes basis) (\<lambda>expected.
     bindE (load_json_bytes budget_bytes) (\<lambda>budget.
     (let bd = JStr (sha256_hex X budget_bytes); sd = JStr (sha256_hex X start_bytes) in
     bindE (same_field b ''schema'' (JStr ledger_schema)) (\<lambda>_.
     bindE (forE (\<lambda>(k, v). bindE (subscript b k) (\<lambda>w. must (py_eq w v))) (items expected)) (\<lambda>_.
     bindE (false_field b ''automatic_retry'') (\<lambda>_.
     bindE (same_field b ''unsupported_dimensions'' unknown_dimensions) (\<lambda>_.
     bindE (sub_lit b ''revision'') (\<lambda>revision.
     bindE (must (revision_ok revision minimum)) (\<lambda>_.
     bindE (sub_lit b ''budget'') (\<lambda>own_budget.
     bindE (pinned_budget budget bd) (\<lambda>pinned.
     bindE (must (py_eq own_budget pinned)) (\<lambda>_.
     bindE (verify_budget budget expected sd) (\<lambda>limits.
     bindE (child_list b) (\<lambda>cs.
     bindE (mapE (\<lambda>c. sub_lit c ''child_id'') cs) (\<lambda>ids.
     bindE (same_field b ''expected_child_ids'' (JList ids)) (\<lambda>_.
     bindE (verify_children X trust b basis budget bd limits cs ([], [])) (\<lambda>seen.
     bindE (must (revision = JInt (int (length (fst seen))))) (\<lambda>_.
     bindE (ledger_usage b) (\<lambda>used.
     bindE (unknown_children cs) (\<lambda>unknown.
     Inr (report_of b revision limits used unknown))))))))))))))))))))))))"

text \<open>\<open>verify_report\<close>: what a malformed report raises is a refusal.\<close>

definition verify_report ::
  "externals \<Rightarrow> bytes \<Rightarrow> json \<Rightarrow> bytes \<Rightarrow> json \<Rightarrow> bytes \<Rightarrow> json \<Rightarrow> exn + json" where
  "verify_report X report_bytes trust start_bytes basis budget_bytes minimum =
     (case check_report X report_bytes trust start_bytes basis budget_bytes minimum of
        Inl (PyErr c m) \<Rightarrow>
          if c \<in> {PyKeyError, PyTypeError, PyAttributeError, PyIndexError}
          then refuse ''Malformed report; preserve UNKNOWN and held amounts.''
          else Inl (PyErr c m)
      | r \<Rightarrow> r)"

section \<open>The class\<close>

definition configured :: "externals \<Rightarrow> ledger_host \<Rightarrow> ledger \<Rightarrow> exn + unit" where
  "configured X L G =
     (case lh_public L (lg_seed G) of
        None \<Rightarrow> refuse ''An Ed25519 private key is 32 bytes long''
      | Some public \<Rightarrow>
          must_or ''Signer does not match independently configured trust.''
            (py_eq (trust_entry (lg_trust G) (JStr (lg_issuer G)))
               (JDict [(lit ''public_key_hex'', JStr public), (lit ''producer_identity'', producer X L)])))"

definition open_ledger :: "externals \<Rightarrow> ledger_host \<Rightarrow> ledger \<Rightarrow> fs \<Rightarrow> exn + ledger" where
  "open_ledger X L G t =
     bindE (must (ch_plain (custody_host.truncate L) (lg_root G) \<and> map_of t (absolute (lg_root G)) = Some Directory)) (\<lambda>_.
     bindE (configured X L G) (\<lambda>_. Inr G))"

definition free_child :: "json \<Rightarrow> json" where
  "free_child i = JDict [(lit ''child_id'', i), (lit ''reservation'', JNull), (lit ''dispatch'', JNull),
     (lit ''completion'', JNull), (lit ''settlement'', JNull)]"

definition budget_fields :: "string list" where
  "budget_fields = [''schema'', ''budget_id'', ''task_key'', ''task_identity'', ''parent_start_sha256'', ''resource_rows'']"

definition initial_body :: "externals \<Rightarrow> json \<Rightarrow> json \<Rightarrow> json \<Rightarrow> json" where
  "initial_body X bound budget bd =
     JDict (items bound @
       [(lit ''schema'', JStr ledger_schema), (lit ''revision'', JInt 0), (lit ''previous_snapshot_sha256'', JNull),
        (lit ''budget'', set_member ''domain'' (jlit ''THIS_LOCAL_LEDGER_ONLY'') (set_member ''budget_sha256'' bd budget)),
        (lit ''children'', JList (map free_child (case member bound ''expected_child_ids'' of JList ids \<Rightarrow> ids | _ \<Rightarrow> []))),
        (lit ''unsupported_dimensions'', unknown_dimensions), (lit ''authority_granted'', JBool False),
        (lit ''automatic_retry'', JBool False)])"

text \<open>What \<open>create\<close> checks before it makes the directory.\<close>

definition check_creation :: "externals \<Rightarrow> ledger_host \<Rightarrow> ledger \<Rightarrow> fs \<Rightarrow> exn + json" where
  "check_creation X L G t =
     bindE (parent_binding X (lg_start G) (lg_basis G)) (\<lambda>bound.
     bindE (load_json_bytes (lg_budget G)) (\<lambda>budget.
     bindE (set_is budget budget_fields) (\<lambda>ok.
     bindE (must ok) (\<lambda>_.
     bindE (same_field budget ''schema'' (jlit ''vfy.child-resource-budget/1'')) (\<lambda>_.
     bindE (sub_lit budget ''budget_id'') (\<lambda>i.
     bindE (must (plain_text i)) (\<lambda>_.
     bindE (verify_budget budget bound (JStr (sha256_hex X (lg_start G)))) (\<lambda>limits.
     bindE (must (ch_plain (custody_host.truncate L) (lg_root G) \<and> map_of t (absolute (lg_root G)) = None)) (\<lambda>_.
     Inr (initial_body X bound budget (JStr (sha256_hex X (lg_budget G)))))))))))))"

definition create_ledger :: "externals \<Rightarrow> ledger_host \<Rightarrow> ledger \<Rightarrow> ledger io" where
  "create_ledger X L G =
     bindS (readS (check_creation X L G)) (\<lambda>b.
     bindS (callS (os_mkdir (absolute (lg_root G)))) (\<lambda>_.
     bindS (readS (open_ledger X L G)) (\<lambda>_.
     bindS (fresh_file (ledger_file (lg_root G) ''lock'') []) (\<lambda>_.
     bindS (readS (\<lambda>t. bindE (envelope X L (lg_seed G) (lg_issuer G) b) raw)) (\<lambda>payload.
     bindS (fresh_file (ledger_file (lg_root G) ''state.json'') payload) (\<lambda>_.
     returnS G))))))"

text \<open>The published bytes, verified.\<close>

definition verified_state :: "externals \<Rightarrow> ledger_host \<Rightarrow> ledger \<Rightarrow> fs \<Rightarrow> exn + bytes" where
  "verified_state X L G t =
     bindE (check_locked L (lg_root G) t) (\<lambda>_.
     bindE (read_state L (lg_root G) t) (\<lambda>b.
     bindE (verify_report X b (lg_trust G) (lg_start G) (lg_basis G) (lg_budget G) (JInt 0)) (\<lambda>_. Inr b)))"

definition ledger_snapshot :: "externals \<Rightarrow> ledger_host \<Rightarrow> ledger \<Rightarrow> bytes io" where
  "ledger_snapshot X L G = readS (verified_state X L G)"

definition successor :: "externals \<Rightarrow> ledger_host \<Rightarrow> ledger \<Rightarrow> json \<Rightarrow> json \<Rightarrow> exn + bytes" where
  "successor X L G prior b =
     bindE (sub_lit b ''revision'') (\<lambda>r.
     bindE (case num_of r of Some n \<Rightarrow> Inr (JInt (n + 1)) | None \<Rightarrow> Inl (PyErr PyTypeError (lit ''unsupported operand''))) (\<lambda>r'.
     bindE (sub_lit prior ''sha256'') (\<lambda>p.
     bindE (envelope X L (lg_seed G) (lg_issuer G) (set_member ''previous_snapshot_sha256'' p (set_member ''revision'' r' b))) (\<lambda>e.
     bindE (raw e) (\<lambda>payload.
     bindE (must (length payload \<le> max_ledger_bytes)) (\<lambda>_. Inr payload))))))"

text \<open>What \<open>_change\<close> decides from the tree under the lock: the event to return and the bytes to publish.\<close>

definition changed ::
  "externals \<Rightarrow> ledger_host \<Rightarrow> ledger \<Rightarrow> (json \<Rightarrow> exn + json \<times> json) \<Rightarrow> fs \<Rightarrow> exn + json \<times> bytes" where
  "changed X L G action t =
     bindE (verified_state X L G t) (\<lambda>prior_bytes.
     bindE (load_json_bytes prior_bytes) (\<lambda>prior.
     bindE (authenticate X prior (lg_trust G)) (\<lambda>b.
     bindE (action b) (\<lambda>(b', event).
     bindE (successor X L G prior b') (\<lambda>payload. Inr (event, payload))))))"

definition change_ledger :: "externals \<Rightarrow> ledger_host \<Rightarrow> ledger \<Rightarrow> (json \<Rightarrow> exn + json \<times> json) \<Rightarrow> json io" where
  "change_ledger X L G action =
     bindS (readS (changed X L G action)) (\<lambda>(event, payload).
     bindS (publish_state (lg_root G) payload) (\<lambda>_. returnS event))"

section \<open>The operations\<close>

text \<open>Rows pass through the canonical form before they are read.\<close>

definition canonical_rows :: "pyval \<Rightarrow> exn + json" where
  "canonical_rows rows = bindE (canonical_bytes rows) load_json_bytes"

definition reserve :: "externals \<Rightarrow> ledger_host \<Rightarrow> ledger \<Rightarrow> json \<Rightarrow> json \<Rightarrow> pyval \<Rightarrow> json \<Rightarrow> json io" where
  "reserve X L G child_id attempt_id resource_rows issued_at =
     bindS (readS (\<lambda>t.
       bindE (canonical_rows resource_rows) (\<lambda>rows.
       bindE (axes rows ''reserved_amount'') (\<lambda>requested.
       bindE (must (all_known requested \<and> plain_text attempt_id)) (\<lambda>_. Inr (rows, requested)))))) (\<lambda>(rows, requested).
     change_ledger X L G (reserve_change X L G child_id attempt_id rows requested issued_at))"

definition dispatch_record :: "externals \<Rightarrow> ledger_host \<Rightarrow> ledger \<Rightarrow> json \<Rightarrow> json \<Rightarrow> json io" where
  "dispatch_record X L G reservation_id when = change_ledger X L G (dispatch_change X L G reservation_id when)"

definition observed_document :: "json \<Rightarrow> json \<Rightarrow> json \<Rightarrow> json" where
  "observed_document reservation_id service rows =
     JDict [(lit ''schema'', jlit ''vfy.child-observation/1''), (lit ''reservation_id'', reservation_id),
       (lit ''service_performed'', service), (lit ''resource_rows'', rows)]"

text \<open>The rows of a completion are those that the observer's selected bytes state.\<close>

definition check_observation ::
  "externals \<Rightarrow> ledger_host \<Rightarrow> json \<Rightarrow> json \<Rightarrow> pyval \<Rightarrow> json \<Rightarrow> fs \<Rightarrow> exn + json \<times> axis_amounts" where
  "check_observation X L reservation_id service resource_rows observed t =
     bindE (canonical_rows resource_rows) (\<lambda>rows.
     bindE (axes rows ''measured_amount'') (\<lambda>measured.
     bindE (must (service \<in> set service_states)) (\<lambda>_.
     bindE (must (artifact_reference observed)) (\<lambda>_.
     (let p = the_str (member observed ''path'') in
     bindE (read_ledger_file L p (absolute p) t) (\<lambda>data.
     bindE (must (member observed ''sha256'' = JStr (sha256_hex X data))) (\<lambda>_.
     bindE (load_json_bytes data) (\<lambda>captured.
     bindE (must (py_eq captured (observed_document reservation_id service rows))) (\<lambda>_.
     Inr (rows, measured))))))))))"

definition complete_record ::
  "externals \<Rightarrow> ledger_host \<Rightarrow> ledger \<Rightarrow> json \<Rightarrow> json \<Rightarrow> pyval \<Rightarrow> json \<Rightarrow> json \<Rightarrow> json io" where
  "complete_record X L G reservation_id service resource_rows observed when =
     bindS (readS (check_observation X L reservation_id service resource_rows observed)) (\<lambda>(rows, measured).
     change_ledger X L G (complete_change X L G reservation_id service rows measured observed when))"

definition settle :: "externals \<Rightarrow> ledger_host \<Rightarrow> ledger \<Rightarrow> json \<Rightarrow> json \<Rightarrow> json \<Rightarrow> json io" where
  "settle X L G reservation_id completion_sha256 settled_at =
     change_ledger X L G (settle_change X L G reservation_id completion_sha256 settled_at)"

end
