(* ===== verification/Exposure.thy ===== *)
theory Exposure
  imports Budget
begin

text \<open>
  What the operations of the child ledger do to its exposure: the sum, axis by axis, of the shares of its
  children, each the settled cost where that is known and otherwise the hold or the higher observed cost.
\<close>

section \<open>The exposure as a sum\<close>

fun held_share :: "axis_amounts \<Rightarrow> axis_amounts \<Rightarrow> axis_amounts \<Rightarrow> exn + (ustr \<times> rat) list" where
  "held_share [] measured paid = Inr []"
| "held_share ((name, reserved) # held) measured paid =
     bindE (held_value reserved (known measured name) (known paid name)) (\<lambda>v.
     bindE (held_share held measured paid) (\<lambda>s. Inr ((name, v) # s)))"

text \<open>What a child holds, what was measured and what is settled of it; nothing of a free child.\<close>

definition child_parts :: "json \<Rightarrow> exn + axis_amounts \<times> axis_amounts \<times> axis_amounts" where
  "child_parts c =
     bindE (sub_lit c ''reservation'') (\<lambda>reservation.
       if reservation = JNull then Inr ([], [], [])
       else
         bindE (event_rows reservation ''reserved_amount'') (\<lambda>held.
         bindE (sub_lit c ''completion'') (\<lambda>completion.
         bindE (if truthy completion then event_rows completion ''measured_amount'' else Inr []) (\<lambda>measured.
         bindE (sub_lit c ''settlement'') (\<lambda>settlement.
         bindE (if truthy settlement then event_rows settlement ''settled_amount_or_UNKNOWN'' else Inr []) (\<lambda>paid.
         Inr (held, measured, paid)))))))"

definition share :: "json \<Rightarrow> exn + (ustr \<times> rat) list" where
  "share c = bindE (child_parts c) (\<lambda>(held, measured, paid). held_share held measured paid)"

definition axis_sum :: "(ustr \<times> rat) list \<Rightarrow> ustr \<Rightarrow> rat" where
  "axis_sum s k = sum_list (map snd (filter (\<lambda>(n, v). n = k) s))"

definition exposed :: "json \<Rightarrow> ustr \<Rightarrow> rat" where
  "exposed c k = (case share c of Inr s \<Rightarrow> axis_sum s k | Inl e \<Rightarrow> 0)"

lemma axis_sum_simps [simp]: "axis_sum [] k = 0" "axis_sum ((n, v) # s) k = (if n = k then v else 0) + axis_sum s k"
  by (simp_all add: axis_sum_def)

text \<open>Adding a share to the sums of known axes changes no key.\<close>

definition raised_by :: "(ustr \<Rightarrow> rat) \<Rightarrow> (ustr \<times> rat) list \<Rightarrow> (ustr \<times> rat) list" where
  "raised_by f used = map (\<lambda>(k, u). (k, u + f k)) used"

lemma keys_raised [simp]: "keys (raised_by f used) = keys used"
  by (simp add: raised_by_def keys_def comp_def split_def)

lemma raised_raised [simp]: "raised_by g (raised_by f used) = raised_by (\<lambda>k. f k + g k) used"
  by (simp add: raised_by_def split_def algebra_simps)

lemma raised_zero [simp]: "raised_by (\<lambda>k. 0) used = used"
  by (simp add: raised_by_def split_def)

lemma map_of_raised: "map_of (raised_by f used) k = map_option (\<lambda>u. u + f k) (map_of used k)"
  by (induction used) (auto simp: raised_by_def)

lemma dset_existing:
  "distinct (keys d) \<Longrightarrow> map_of d k = Some u \<Longrightarrow> dset k v d = map (\<lambda>(j, w). (j, if j = k then v else w)) d"
proof (induction d)
  case (Cons a d)
  obtain j w where a: "a = (j, w)" by force
  show ?case
  proof (cases "j = k")
    case True
    with Cons.prems a have "k \<notin> set (keys d)" by (auto simp: keys_def)
    then have "map (\<lambda>(j, w). (j, if j = k then v else w)) d = d"
      by (intro map_idI) (auto simp: keys_def image_iff)
    with a True show ?thesis by simp
  qed (use Cons a in \<open>auto simp: keys_def\<close>)
qed simp

lemma add_used_iff:
  assumes "distinct (keys used)"
  shows "add_used name v used = Inr used' \<longleftrightarrow>
     name \<in> set (keys used) \<and> used' = raised_by (\<lambda>k. if name = k then v else 0) used"
proof (cases "map_of used name")
  case None
  then have "name \<notin> set (keys used)" by (simp add: map_of_None_keys)
  with None show ?thesis by (simp add: add_used_def)
next
  case (Some u)
  then have "name \<in> set (keys used)" by (metis map_of_None_keys option.distinct(1))
  moreover have "dset name (u + v) used = raised_by (\<lambda>k. if name = k then v else 0) used"
    using dset_existing [OF assms Some] assms Some
    by (auto simp: raised_by_def map_eq_conv intro!: map_cong split: if_splits dest: map_of_is_SomeI [rotated])
      (metis Some eq_key_imp_eq_value keys_def map_of_SomeD option.inject map_of_is_SomeI)+
  ultimately show ?thesis using Some by (auto simp: add_used_def)
qed

lemma add_held_iff:
  assumes "distinct (keys used)"
  shows "add_held held measured paid used = Inr used' \<longleftrightarrow>
     (\<exists>s. held_share held measured paid = Inr s \<and> set (keys s) \<subseteq> set (keys used) \<and> used' = raised_by (axis_sum s) used)"
  using assms
proof (induction held arbitrary: used)
  case Nil
  have "axis_sum [] = (\<lambda>k. 0)" by (simp add: fun_eq_iff)
  then show ?case by (auto simp: keys_def)
next
  case (Cons h held)
  obtain name reserved where h: "h = (name, reserved)" by force
  have k: "set (keys ((n, v) # s)) = insert n (set (keys s))" for n :: ustr and v :: rat and s
    by (simp add: keys_def)
  show ?case
  proof (cases "held_value reserved (known measured name) (known paid name)")
    case (Inr v)
    have "add_held (h # held) measured paid used = Inr used' \<longleftrightarrow>
        name \<in> set (keys used) \<and> add_held held measured paid (raised_by (\<lambda>k. if name = k then v else 0) used) = Inr used'"
      by (auto simp: h Inr bindE_Inr_iff add_used_iff [OF Cons.prems])
    also have "\<dots> \<longleftrightarrow> name \<in> set (keys used) \<and> (\<exists>s. held_share held measured paid = Inr s \<and>
        set (keys s) \<subseteq> set (keys used) \<and> used' = raised_by (\<lambda>k. (if name = k then v else 0) + axis_sum s k) used)"
      using Cons.prems by (simp add: Cons.IH)
    also have "\<dots> \<longleftrightarrow> (\<exists>s. held_share (h # held) measured paid = Inr s \<and> set (keys s) \<subseteq> set (keys used) \<and>
        used' = raised_by (axis_sum s) used)"
      by (auto simp: h Inr bindE_Inr_iff k axis_sum_simps [abs_def])
    finally show ?thesis .
  qed (simp add: h)
qed

lemma child_usage_parts: "child_usage c used = bindE (child_parts c) (\<lambda>(held, measured, paid). add_held held measured paid used)"
  unfolding child_usage_def child_parts_def
  by (simp add: bindE_assoc if_distrib [of "\<lambda>r. bindE r f" for f] cong: if_cong)

lemma child_usage_iff:
  assumes "distinct (keys used)"
  shows "child_usage c used = Inr used' \<longleftrightarrow>
     (\<exists>s. share c = Inr s \<and> set (keys s) \<subseteq> set (keys used) \<and> used' = raised_by (exposed c) used)"
proof (cases "child_parts c")
  case (Inr parts)
  obtain held measured paid where "parts = (held, measured, paid)" by (cases parts)
  with Inr add_held_iff [OF assms] show ?thesis
    by (cases "held_share held measured paid") (simp_all add: child_usage_parts share_def exposed_def [abs_def])
qed (simp add: child_usage_parts share_def)

lemma add_children_iff:
  assumes "distinct (keys used)"
  shows "add_children cs used = Inr used' \<longleftrightarrow>
     (\<forall>c \<in> set cs. \<exists>s. share c = Inr s \<and> set (keys s) \<subseteq> set (keys used)) \<and>
     used' = raised_by (\<lambda>k. \<Sum>c \<leftarrow> cs. exposed c k) used"
  using assms
proof (induction cs arbitrary: used)
  case (Cons c cs)
  have "add_children (c # cs) used = Inr used' \<longleftrightarrow> (\<exists>s. share c = Inr s \<and> set (keys s) \<subseteq> set (keys used) \<and>
      add_children cs (raised_by (exposed c) used) = Inr used')"
    by (auto simp: bindE_Inr_iff child_usage_iff [OF Cons.prems])
  then show ?case using Cons.prems by (auto simp: Cons.IH)
qed auto

text \<open>The axes of the budget, once each, from which the sums start.\<close>

definition usage_frame :: "json \<Rightarrow> exn + (ustr \<times> rat) list" where
  "usage_frame b =
     bindE (sub_lit b ''budget'') (\<lambda>budget.
     bindE (sub_lit budget ''resource_rows'') (\<lambda>rows.
     bindE (py_iter rows) (\<lambda>rs.
     bindE (axis_names rs) (\<lambda>names. Inr (foldl (\<lambda>used n. dset n 0 used) [] names)))))"

lemma ledger_usage_frame:
  "ledger_usage b = bindE (usage_frame b) (\<lambda>zero. bindE (child_list b) (\<lambda>cs. add_children cs zero))"
  by (simp add: ledger_usage_def usage_frame_def child_list_def bindE_assoc)

lemma distinct_zeros: "distinct (keys d) \<Longrightarrow> distinct (keys (foldl (\<lambda>used n. dset n (0 :: rat) used) d names))"
  by (induction names arbitrary: d) (auto simp: distinct_keys_dset)

lemma usage_frame_distinct: "usage_frame b = Inr zero \<Longrightarrow> distinct (keys zero)"
  by (auto simp: usage_frame_def bindE_Inr_iff keys_def intro!: distinct_zeros [unfolded keys_def])

lemma ledger_usage_iff:
  "ledger_usage b = Inr used \<longleftrightarrow>
     (\<exists>zero cs. usage_frame b = Inr zero \<and> child_list b = Inr cs \<and>
        (\<forall>c \<in> set cs. \<exists>s. share c = Inr s \<and> set (keys s) \<subseteq> set (keys zero)) \<and>
        used = raised_by (\<lambda>k. \<Sum>c \<leftarrow> cs. exposed c k) zero)"
  using usage_frame_distinct by (auto simp: ledger_usage_frame bindE_Inr_iff add_children_iff)

section \<open>Changing one child\<close>

lemma sub_set_member [simp]:
  "is_dict d \<Longrightarrow> sub_lit (set_member k v d) j = (if j = k then Inr v else sub_lit d j)"
  by (cases d) (simp_all add: set_member_def)

lemma get_set_member [simp]:
  "is_dict d \<Longrightarrow> get_lit (set_member k v d) j = (if j = k then Some v else get_lit d j)"
  by (cases d) (simp_all add: set_member_def)

lemma is_dict_set_member [simp]: "is_dict (set_member k v d)"
  by (simp add: set_member_def)

lemma sub_lit_dict: "sub_lit d k = Inr v \<Longrightarrow> is_dict d \<and> get_lit d k = Some v"
  by (cases d) (auto split: option.splits)

lemma sub_lit_get: "is_dict d \<Longrightarrow> sub_lit d k = Inr v \<longleftrightarrow> get_lit d k = Some v"
  by (cases d) (auto split: option.splits)

lemma sum_update_first:
  "find P cs = Some c \<Longrightarrow> (\<Sum>x \<leftarrow> update_first P f cs. g x) = (\<Sum>x \<leftarrow> cs. g x) - g c + (g (f c) :: rat)"
  by (induction cs) (auto split: if_splits)

lemma set_update_first:
  "find P cs = Some c \<Longrightarrow> set (update_first P f cs) \<subseteq> insert (f c) (set cs)"
  by (induction cs) (auto split: if_splits)

lemma find_update_first:
  "find P cs = Some c \<Longrightarrow> P (f c) \<Longrightarrow> find P (update_first P f cs) = Some (f c)"
  by (induction cs) (auto split: if_splits)

lemma find_Some: "find P cs = Some c \<Longrightarrow> c \<in> set cs \<and> P c"
  by (induction cs) (auto split: if_splits)

lemma set_child_eq:
  assumes "get_lit b ''children'' = Some (JList cs)"
  shows "set_child P k v b = set_member ''children'' (JList (update_first P (set_member k v) cs)) b"
  using assms by (simp add: set_child_def)

lemma get_children_dict: "get_lit b ''children'' = Some v \<Longrightarrow> is_dict b"
  by (cases b) auto

lemma get_set_child:
  assumes "get_lit b ''children'' = Some (JList cs)"
  shows "get_lit (set_child P k v b) ''children'' = Some (JList (update_first P (set_member k v) cs))"
    and "j \<noteq> ''children'' \<Longrightarrow> get_lit (set_child P k v b) j = get_lit b j"
    and "j \<noteq> ''children'' \<Longrightarrow> sub_lit (set_child P k v b) j = sub_lit b j"
  using get_children_dict [OF assms] by (simp_all add: set_child_eq [OF assms])

lemma usage_frame_set_child [simp]:
  "get_lit b ''children'' = Some (JList cs) \<Longrightarrow> usage_frame (set_child P k v b) = usage_frame b"
  by (simp add: usage_frame_def get_set_child(3))

lemma child_list_iff: "get_lit b ''children'' = Some (JList cs) \<Longrightarrow> child_list b = Inr cs"
  using get_children_dict [of b] by (cases b) (auto simp: child_list_def)

text \<open>The exposure moves by what the share of the changed child moves.\<close>

lemma usage_set_child:
  assumes u: "ledger_usage b = Inr used" and g: "get_lit b ''children'' = Some (JList cs)"
    and f: "find P cs = Some c" and s: "share (set_member k v c) = Inr s" "set (keys s) \<subseteq> set (keys used)"
  shows "ledger_usage (set_child P k v b) = Inr (raised_by (\<lambda>x. exposed (set_member k v c) x - exposed c x) used)"
proof -
  let ?c = "set_member k v c" and ?cs = "update_first P (set_member k v) cs"
  from u obtain zero where z: "usage_frame b = Inr zero" 
      "\<forall>c \<in> set cs. \<exists>s. share c = Inr s \<and> set (keys s) \<subseteq> set (keys zero)"
      "used = raised_by (\<lambda>k. \<Sum>c \<leftarrow> cs. exposed c k) zero"
    by (auto simp: ledger_usage_iff child_list_iff [OF g])
  have "\<forall>c \<in> set ?cs. \<exists>s. share c = Inr s \<and> set (keys s) \<subseteq> set (keys zero)"
    using set_update_first [OF f, of "set_member k v"] z s by fastforce
  moreover have "(\<lambda>x. \<Sum>c \<leftarrow> ?cs. exposed c x) = (\<lambda>x. (\<Sum>c \<leftarrow> cs. exposed c x) + (exposed ?c x - exposed c x))"
    using sum_update_first [where f = "set_member k v", OF f] by (simp add: fun_eq_iff)
  ultimately show ?thesis
    using z by (simp add: ledger_usage_iff child_list_iff [OF get_set_child(1) [OF g]] usage_frame_set_child [OF g])
qed

end
