(* ===== verification/Solvency.thy ===== *)
theory Solvency
  imports Exposure
begin

text \<open>
  The child ledger never commits more than its budget: whatever its operations are called with, in whatever
  order, and wherever the host stops them, the exposure that the published state computes stays within the
  limit of each axis, except for what a completion measured beyond its own reservation.
\<close>

section \<open>Amounts\<close>

lemma amount_nonneg: "amount v = Inr q \<Longrightarrow> 0 \<le> q"
  by (auto simp: amount_def Let_def bindE_Inr_iff zero_le_Fract_iff Fract_of_int_eq [symmetric]
      split: json.splits option.splits) (simp add: Fract_of_nat_eq Fract_of_int_quotient)

lemma axis_row_Inr:
  assumes "axis_row field result r = Inr result'"
  obtains name q where "result' = result @ [(name, q)]" "map_of result name = None"
    "\<And>x. q = Some x \<Longrightarrow> 0 \<le> x"
  using assms by (auto simp: axis_row_def bindE_Inr_iff amount_nonneg split: if_splits)

definition fair :: "axis_amounts \<Rightarrow> bool" where
  "fair a \<longleftrightarrow> distinct (keys a) \<and> (\<forall>n x. (n, Some x) \<in> set a \<longrightarrow> 0 \<le> x)"

lemma axis_rows_fair: "axis_rows field result rs = Inr a \<Longrightarrow> fair result \<Longrightarrow> fair a"
proof (induction rs arbitrary: result)
  case (Cons r rs)
  then obtain result' where r: "axis_row field result r = Inr result'" "axis_rows field result' rs = Inr a"
    by (auto simp: bindE_Inr_iff)
  obtain name q where "result' = result @ [(name, q)]" "map_of result name = None" "\<And>x. q = Some x \<Longrightarrow> 0 \<le> x"
    by (rule axis_row_Inr [OF r(1)]) (blast intro: that)
  with Cons.prems(2) have "fair result'"
    by (auto simp: fair_def keys_def map_of_eq_None_iff)
  with r(2) show ?case by (rule Cons.IH)
qed simp

lemma axes_fair:
  assumes "axes rows field = Inr a"
  shows "fair a"
proof -
  from assms obtain rs where "axis_rows field [] rs = Inr a"
    by (cases rows) (auto simp: axes_def bindE_Inr_iff)
  then show ?thesis by (rule axis_rows_fair) (simp add: fair_def keys_def)
qed

section \<open>What a child is good for\<close>

text \<open>
  The hold of a child on an axis, what its completion measured there, and by how much the measurement exceeds
  the hold. The last two are read from the events alone, not from the exposure.
\<close>

definition hold :: "json \<Rightarrow> ustr \<Rightarrow> rat" where
  "hold c k =
     (case bindE (sub_lit c ''reservation'') (\<lambda>r. event_rows r ''reserved_amount'') of
        Inr held \<Rightarrow> (case known held k of Some r \<Rightarrow> r | None \<Rightarrow> 0)
      | Inl e \<Rightarrow> 0)"

definition measured_of :: "json \<Rightarrow> ustr \<Rightarrow> rat" where
  "measured_of c k =
     (case bindE (sub_lit c ''completion'') (\<lambda>p. event_rows p ''measured_amount'') of
        Inr measured \<Rightarrow> (case known measured k of Some m \<Rightarrow> m | None \<Rightarrow> 0)
      | Inl e \<Rightarrow> 0)"

definition overrun :: "json \<Rightarrow> ustr \<Rightarrow> rat" where
  "overrun c k = max 0 (measured_of c k - hold c k)"

definition charged :: "json \<Rightarrow> ustr \<Rightarrow> rat" where
  "charged c k = exposed c k - overrun c k"

lemma charged_overrun: "exposed c k = charged c k + overrun c k"
  by (simp add: charged_def)

lemma overrun_nonneg: "0 \<le> overrun c k"
  by (simp add: overrun_def)

lemma hold_free [simp]: "sub_lit c ''reservation'' = Inr JNull \<Longrightarrow> hold c k = 0"
  by (simp add: hold_def event_rows_def)

lemma exposed_free [simp]: "sub_lit c ''reservation'' = Inr JNull \<Longrightarrow> exposed c k = 0"
  by (simp add: exposed_def share_def child_parts_def)

lemma measured_free [simp]: "sub_lit c ''completion'' = Inr JNull \<Longrightarrow> measured_of c k = 0"
  by (simp add: measured_of_def event_rows_def)

lemma event_rows_fair: "event_rows event field = Inr a \<Longrightarrow> fair a"
  by (auto simp: event_rows_def bindE_Inr_iff intro: axes_fair)

lemma fair_known: "fair a \<Longrightarrow> known a k = Some v \<Longrightarrow> 0 \<le> v"
  by (auto simp: fair_def known_def split: option.splits dest!: map_of_SomeD)

lemma hold_nonneg: "0 \<le> hold c k"
  by (auto simp: hold_def bindE_Inr_iff split: sum.split option.split dest!: event_rows_fair fair_known)

text \<open>Before a settlement the share of an axis is the higher of the hold and the measurement.\<close>

lemma held_share_unsettled:
  "held_share held measured [] = Inr s \<Longrightarrow> fair held \<Longrightarrow>
     axis_sum s k = (case known held k of Some r \<Rightarrow> max r (case known measured k of Some m \<Rightarrow> m | None \<Rightarrow> 0) | None \<Rightarrow> 0)"
proof (induction held arbitrary: s)
  case (Cons h held)
  obtain n reserved where h: "h = (n, reserved)" by force
  have none: "known [] n = None" by (simp add: known_def)
  from Cons.prems h obtain r s' where r: "reserved = Some r" and s': "held_share held measured [] = Inr s'"
      "s = (n, max r (case known measured n of Some m \<Rightarrow> m | None \<Rightarrow> 0)) # s'"
    by (auto simp: bindE_Inr_iff held_value_def none split: option.splits)
  have f: "fair held" using Cons.prems(2) h by (auto simp: fair_def keys_def)
  note ih = Cons.IH [OF s'(1) f]
  show ?case
  proof (cases "n = k")
    case True
    moreover have "map_of held k = None" using Cons.prems(2) h True by (simp add: fair_def keys_def map_of_eq_None_iff)
    ultimately show ?thesis using ih h r s' by (simp add: known_def)
  next
    case False
    with ih h s' show ?thesis by (simp add: known_def)
  qed
qed (simp add: known_def)

text \<open>Settling the measured cost never raises it.\<close>

lemma held_share_settled:
  assumes "\<And>n v. known paid n = Some v \<Longrightarrow> known measured n = Some v"
  shows "held_share held measured paid = Inr s' \<Longrightarrow> held_share held measured [] = Inr s \<Longrightarrow> axis_sum s' k \<le> axis_sum s k"
proof (induction held arbitrary: s s')
  case (Cons h held)
  obtain n reserved where h: "h = (n, reserved)" by force
  have none: "known [] n = None" by (simp add: known_def)
  from Cons.prems h obtain v v' t t' where r: "held_value reserved (known measured n) None = Inr v"
      "held_value reserved (known measured n) (known paid n) = Inr v'"
      "held_share held measured [] = Inr t" "held_share held measured paid = Inr t'" "s = (n, v) # t" "s' = (n, v') # t'"
    by (auto simp: bindE_Inr_iff none)
  have "v' \<le> v"
    using r(1,2) assms [of n] by (cases "known paid n") (auto simp: held_value_def split: option.splits)
  with Cons.IH [OF r(4,3)] r(5,6) show ?case by (simp add: add_mono)
qed simp

lemma share_parts:
  assumes "share c = Inr s" "sub_lit c ''reservation'' = Inr r" "r \<noteq> JNull"
  obtains held measured paid where "event_rows r ''reserved_amount'' = Inr held" "fair held"
    "\<And>k. (case known measured k of Some m \<Rightarrow> m | None \<Rightarrow> 0) = measured_of c k"
    "\<And>k. (case known held k of Some x \<Rightarrow> x | None \<Rightarrow> 0) = hold c k"
    "held_share held measured paid = Inr s" "\<exists>p. sub_lit c ''completion'' = Inr p \<and>
       (if truthy p then event_rows p ''measured_amount'' else Inr []) = Inr measured"
    "\<exists>t. sub_lit c ''settlement'' = Inr t \<and>
       (if truthy t then event_rows t ''settled_amount_or_UNKNOWN'' else Inr []) = Inr paid"
proof -
  from assms obtain held p measured t paid where h: "event_rows r ''reserved_amount'' = Inr held"
      "sub_lit c ''completion'' = Inr p" "(if truthy p then event_rows p ''measured_amount'' else Inr []) = Inr measured"
      "sub_lit c ''settlement'' = Inr t" "(if truthy t then event_rows t ''settled_amount_or_UNKNOWN'' else Inr []) = Inr paid"
      "held_share held measured paid = Inr s"
    unfolding share_def child_parts_def by (auto simp: bindE_Inr_iff)
  have "event_rows p ''measured_amount'' = Inr m \<Longrightarrow> truthy p" for m
    by (cases p) (auto simp: event_rows_def)
  then have "(case known measured k of Some m \<Rightarrow> m | None \<Rightarrow> 0) = measured_of c k" for k
    using h(2,3) by (cases "truthy p"; cases "event_rows p ''measured_amount''") (auto simp: measured_of_def known_def)
  moreover have "(case known held k of Some x \<Rightarrow> x | None \<Rightarrow> 0) = hold c k" for k
    using h(1) assms(2) by (simp add: hold_def)
  ultimately show thesis using that [OF h(1) event_rows_fair [OF h(1)]] h by blast
qed

lemma charged_unsettled:
  assumes s: "share c = Inr s" and t: "sub_lit c ''settlement'' = Inr JNull"
  shows "charged c k \<le> hold c k" and "sub_lit c ''completion'' = Inr JNull \<Longrightarrow> charged c k = hold c k"
proof -
  from s obtain r where r: "sub_lit c ''reservation'' = Inr r"
    by (auto simp: share_def child_parts_def bindE_Inr_iff)
  have "charged c k \<le> hold c k \<and> (sub_lit c ''completion'' = Inr JNull \<longrightarrow> charged c k = hold c k)"
  proof (cases "r = JNull")
    case True
    with r overrun_nonneg [of c k] show ?thesis by (simp add: charged_def overrun_def)
  next
    case False
    obtain held measured paid where h: "fair held"
        "\<And>k. (case known measured k of Some m \<Rightarrow> m | None \<Rightarrow> 0) = measured_of c k"
        "\<And>k. (case known held k of Some x \<Rightarrow> x | None \<Rightarrow> 0) = hold c k" "held_share held measured paid = Inr s"
        "\<exists>t. sub_lit c ''settlement'' = Inr t \<and> (if truthy t then event_rows t ''settled_amount_or_UNKNOWN'' else Inr []) = Inr paid"
      by (rule share_parts [OF s r False]) (rule that)
    from h(5) t have "paid = []" by simp
    with held_share_unsettled [OF h(4) [unfolded \<open>paid = []\<close>] h(1), of k]
    have x: "exposed c k = (case known held k of Some r \<Rightarrow> max r (measured_of c k) | None \<Rightarrow> 0)"
      using s unfolding h(2) by (simp add: exposed_def)
    show ?thesis
    proof (cases "known held k")
      case None
      then show ?thesis using x h(3) [of k] by (auto simp: charged_def overrun_def)
    next
      case (Some v)
      then have "hold c k = v" "0 \<le> v" using h(3) [of k] fair_known [OF h(1)] by auto
      then show ?thesis using x Some by (auto simp: charged_def overrun_def max_def)
    qed
  qed
  then show "charged c k \<le> hold c k" "sub_lit c ''completion'' = Inr JNull \<Longrightarrow> charged c k = hold c k" by simp_all
qed

lemma exposed_nonneg:
  assumes s: "share c = Inr s" and t: "sub_lit c ''settlement'' = Inr JNull"
  shows "0 \<le> exposed c k"
proof -
  from s obtain r where r: "sub_lit c ''reservation'' = Inr r"
    by (auto simp: share_def child_parts_def bindE_Inr_iff)
  show ?thesis
  proof (cases "r = JNull")
    case False
    obtain held measured paid where h: "fair held" "held_share held measured paid = Inr s"
        "\<exists>t. sub_lit c ''settlement'' = Inr t \<and> (if truthy t then event_rows t ''settled_amount_or_UNKNOWN'' else Inr []) = Inr paid"
      by (rule share_parts [OF s r False]) (rule that)
    from h(3) t have "paid = []" by simp
    from held_share_unsettled [OF h(2) [unfolded this] h(1), of k] show ?thesis
      using s fair_known [OF h(1), of k] by (auto simp: exposed_def max_def split: option.split)
  qed (use r in simp)
qed

lemma charged_le:
  assumes "sub_lit c ''settlement'' = Inr JNull"
  shows "charged c k \<le> hold c k"
proof (cases "share c")
  case (Inl e)
  then show ?thesis using hold_nonneg [of c k] overrun_nonneg [of c k] by (simp add: charged_def exposed_def)
qed (rule charged_unsettled(1) [OF _ assms])

section \<open>The body's invariant\<close>

text \<open>A child's four records come in the order of the code: none before the one it follows.\<close>

definition child_records :: "json \<Rightarrow> json \<Rightarrow> json \<Rightarrow> json \<Rightarrow> json \<Rightarrow> bool" where
  "child_records c r d p s \<longleftrightarrow>
     get_lit c ''reservation'' = Some r \<and> get_lit c ''dispatch'' = Some d \<and>
     get_lit c ''completion'' = Some p \<and> get_lit c ''settlement'' = Some s"

definition child_kept :: "json \<Rightarrow> bool" where
  "child_kept c \<longleftrightarrow> (\<exists>r d p s. child_records c r d p s \<and>
     (r = JNull \<longrightarrow> d = JNull) \<and> (d = JNull \<longrightarrow> p = JNull) \<and> (p = JNull \<longrightarrow> s = JNull))"

lemma get_lit_sub: "get_lit c k = Some v \<Longrightarrow> sub_lit c k = Inr v"
  by (cases c) auto

definition well_kept :: "json \<Rightarrow> bool" where
  "well_kept b \<longleftrightarrow> (\<exists>cs. get_lit b ''children'' = Some (JList cs) \<and> (\<forall>c \<in> set cs. child_kept c))"

definition budget_limits :: "json \<Rightarrow> exn + axis_amounts" where
  "budget_limits b =
     bindE (sub_lit b ''budget'') (\<lambda>budget. bindE (sub_lit budget ''resource_rows'') (\<lambda>rows. axes rows ''limit''))"

definition committed :: "json \<Rightarrow> ustr \<Rightarrow> rat" where
  "committed b k = (case child_list b of Inr cs \<Rightarrow> \<Sum>c \<leftarrow> cs. charged c k | Inl e \<Rightarrow> 0)"

definition solvent :: "json \<Rightarrow> bool" where
  "solvent b \<longleftrightarrow>
     (\<forall>limits k l. budget_limits b = Inr limits \<longrightarrow> known limits k = Some l \<longrightarrow> committed b k \<le> l)"

lemma solventI:
  assumes "solvent b" "budget_limits b' = budget_limits b" "\<And>k. committed b' k \<le> committed b k"
  shows "solvent b'"
  using assms unfolding solvent_def by (metis order_trans)

lemma committed_set_child:
  assumes g: "get_lit b ''children'' = Some (JList cs)" and f: "find P cs = Some c"
  shows "committed (set_child P k v b) x = committed b x - charged c x + charged (set_member k v c) x"
  using sum_update_first [where f = "set_member k v", OF f, of "\<lambda>c. charged c x"]
  by (simp add: committed_def child_list_iff [OF g] child_list_iff [OF get_set_child(1) [OF g]])

lemma budget_limits_set_child:
  "get_lit b ''children'' = Some (JList cs) \<Longrightarrow> budget_limits (set_child P k v b) = budget_limits b"
  by (simp add: budget_limits_def get_set_child(3))

lemma well_kept_set_child:
  assumes "get_lit b ''children'' = Some (JList cs)" "find P cs = Some c" "well_kept b" "child_kept (set_member k v c)"
  shows "well_kept (set_child P k v b)"
  using assms set_update_first [OF assms(2), of "set_member k v"] get_set_child(1) [OF assms(1)]
  by (fastforce simp: well_kept_def)

lemma usage_shares:
  assumes "ledger_usage b = Inr used" "get_lit b ''children'' = Some (JList cs)"
  shows "\<forall>c \<in> set cs. \<exists>s. share c = Inr s"
  using assms(1) unfolding ledger_usage_iff child_list_iff [OF assms(2)] by blast

lemma zeros: "map_of (foldl (\<lambda>used n. dset n 0 used) d names) k = Some (x :: rat) \<Longrightarrow>
   (\<And>x. map_of d k = Some x \<Longrightarrow> x = 0) \<Longrightarrow> x = 0"
proof (induction names arbitrary: d)
  case (Cons a names)
  from Cons.prems(1) have "map_of (foldl (\<lambda>used n. dset n 0 used) (dset a 0 d) names) k = Some x" by simp
  moreover have "y = 0" if "map_of (dset a 0 d) k = Some y" for y
    using that Cons.prems(2) [of y] by (simp split: if_splits)
  ultimately show ?case by (rule Cons.IH)
qed auto

lemma usage_frame_zero: "usage_frame b = Inr zero \<Longrightarrow> map_of zero k = Some x \<Longrightarrow> x = 0"
  by (auto simp: usage_frame_def bindE_Inr_iff dest: zeros)

lemma committed_le_used:
  assumes "ledger_usage b = Inr used" "map_of used k = Some u"
  shows "committed b k \<le> u"
proof -
  from assms(1) obtain zero cs where z: "usage_frame b = Inr zero" "child_list b = Inr cs"
      "used = raised_by (\<lambda>k. \<Sum>c \<leftarrow> cs. exposed c k) zero"
    by (auto simp: ledger_usage_iff)
  then have "u = (\<Sum>c \<leftarrow> cs. exposed c k)" using assms(2) usage_frame_zero by (auto simp: map_of_raised)
  moreover have "(\<Sum>c \<leftarrow> cs. charged c k) \<le> (\<Sum>c \<leftarrow> cs. exposed c k)"
    by (intro sum_list_mono) (simp add: charged_def overrun_nonneg)
  ultimately show ?thesis using z(2) by (simp add: committed_def)
qed

section \<open>Events\<close>

lemma envelope_body:
  assumes "envelope X L seed issuer content = Inr e"
  shows "sub_lit e ''body'' = Inr content" and "e \<noteq> JNull" and "truthy e"
  using assms by (auto simp: envelope_def with_digest_def bindE_Inr_iff Let_def split: option.splits)

lemma member_sub: "sub_lit v k = Inr w \<Longrightarrow> member v k = w"
  using sub_lit_dict [of v k w] by (simp add: member_def)

lemma bound_event_keys:
  assumes "bound_event b c = Inr bind"
  shows "keys (items bind) = map lit bound_names"
  using assms by (auto simp: bound_event_def bindE_Inr_iff keys_def bound_names_def)

lemma event_body_rows:
  assumes "event_body X b c kind when own = Inr e" "map_of own (lit ''resource_rows'') = Some rows"
  shows "sub_lit e ''resource_rows'' = Inr rows" and "is_dict e"
proof -
  from assms(1) obtain bind d where b: "bound_event b c = Inr bind" "e = JDict (items bind @
       [(lit ''schema'', JStr (lit ''vfy.child-'' @ lit kind @ lit ''/1'')), (lit ''event_id'', JStr (lit kind @ [45] @ d)),
        (lit ''recorded_at'', when), (lit ''authority_granted'', JBool False), (lit ''automatic_retry'', JBool False)] @ own)"
    by (auto simp: event_body_def bindE_Inr_iff)
  have "map_of (items bind) (lit ''resource_rows'') = None"
    using bound_event_keys [OF b(1)] by (simp add: map_of_None_keys bound_names_def)
  then show "sub_lit e ''resource_rows'' = Inr rows" "is_dict e"
    using b(2) assms(2) by (simp_all add: map_add_def)
qed

lemma reservation_event_rows:
  assumes "reservation_event X L G b c rows issued_at = Inr event"
  shows "event_rows event field = axes rows field" and "event \<noteq> JNull"
proof -
  from assms obtain e0 where e0: "ledger_event X L G b c ''reservation'' issued_at
              [(lit ''issued_at'', issued_at), (lit ''resource_rows'', rows), (lit ''state'', jlit ''RESERVED_LOCAL_HOLD'')] = Inr e0"
      "envelope X L (lg_seed G) (lg_issuer G) (set_member ''reservation_id'' (member (member e0 ''body'') ''event_id'') (member e0 ''body'')) = Inr event"
    by (auto simp: reservation_event_def bindE_Inr_iff Let_def)
  from e0(1) obtain content where c: "event_body X b c ''reservation'' issued_at
              [(lit ''issued_at'', issued_at), (lit ''resource_rows'', rows), (lit ''state'', jlit ''RESERVED_LOCAL_HOLD'')] = Inr content"
      "envelope X L (lg_seed G) (lg_issuer G) content = Inr e0"
    by (auto simp: ledger_event_def bindE_Inr_iff)
  have "member e0 ''body'' = content" using envelope_body(1) [OF c(2)] by (rule member_sub)
  moreover have "sub_lit content ''resource_rows'' = Inr rows" "is_dict content"
    using event_body_rows [OF c(1)] by simp_all
  ultimately show "event_rows event field = axes rows field" "event \<noteq> JNull"
    using envelope_body [OF e0(2)] by (simp_all add: event_rows_def)
qed

section \<open>The operations keep the invariant\<close>

lemma findE_find:
  "findE (\<lambda>c. bindE (sub_lit c k) (\<lambda>i. Inr (py_eq i v))) cs = Inr (Some c) \<Longrightarrow> find (has_id k v) cs = Some c"
proof (induction cs)
  case (Cons x cs)
  then show ?case using sub_lit_dict [of x k] by (auto simp: bindE_Inr_iff has_id_def split: if_splits)
qed simp

lemma find_child_find:
  assumes "find_child b i = Inr c" "child_list b = Inr cs"
  shows "find (holds_reservation i) cs = Some c"
proof -
  from assms obtain flags where f: "mapE (reserved_as i) cs = Inr flags" "map fst (filter snd (zip cs flags)) = [c]"
    unfolding find_child_def bindE_Inr_iff by (fastforce split: list.split_asm)
  have "mapE (reserved_as i) cs = Inr flags \<Longrightarrow> map fst (filter snd (zip cs flags)) = c # rest \<Longrightarrow>
      find (holds_reservation i) cs = Some c" for rest
  proof (induction cs arbitrary: flags)
    case (Cons x cs)
    then show ?case by (auto simp: bindE_Inr_iff holds_reservation_def split: if_splits)
  qed simp
  from this [OF f(1), of "[]"] f(2) show ?thesis by simp
qed

lemma same_reading:
  "sub_lit c' ''reservation'' = sub_lit c ''reservation'' \<Longrightarrow> hold c' k = hold c k"
  by (simp add: hold_def)

text \<open>Recording a later event of a child that raises nothing of its charge cannot raise what is committed.\<close>

lemma later_event_solvent:
  assumes b: "ledger_usage b = Inr used" "well_kept b" "solvent b"
    and c: "find_child b i = Inr c" "child_kept (set_member kind v c)"
    and le: "\<And>s k. share c = Inr s \<Longrightarrow> charged (set_member kind v c) k \<le> charged c k"
  shows "solvent (set_child (holds_reservation i) kind v b)" "well_kept (set_child (holds_reservation i) kind v b)"
proof -
  let ?b = "set_child (holds_reservation i) kind v b"
  from b(2) obtain cs where g: "get_lit b ''children'' = Some (JList cs)" by (auto simp: well_kept_def)
  have f: "find (holds_reservation i) cs = Some c" by (rule find_child_find [OF c(1) child_list_iff [OF g(1)]])
  from find_Some [OF f] have "c \<in> set cs" ..
  then obtain s where s: "share c = Inr s" using usage_shares [OF b(1) g] by blast
  have "committed ?b k \<le> committed b k" for k
    using committed_set_child [OF g(1) f, of kind v k] le [OF s, of k] by simp
  with b(3) show "solvent ?b"
    by (rule solventI [OF _ budget_limits_set_child [OF g(1)]])
  show "well_kept ?b" using c(2) by (rule well_kept_set_child [OF g(1) f b(2)])
qed

lemma found_child_records:
  assumes "find_child b i = Inr c" "well_kept b"
  obtains r d p s where "child_records c r d p s" "r \<noteq> JNull" "d = JNull \<longrightarrow> p = JNull" "p = JNull \<longrightarrow> s = JNull"
proof -
  from assms(2) obtain cs where g: "get_lit b ''children'' = Some (JList cs)" "\<forall>c \<in> set cs. child_kept c"
    by (auto simp: well_kept_def)
  have "find (holds_reservation i) cs = Some c" by (rule find_child_find [OF assms(1) child_list_iff [OF g(1)]])
  from find_Some [OF this] have c: "c \<in> set cs" "holds_reservation i c" by simp_all
  then obtain r d p s where "child_records c r d p s" "d = JNull \<longrightarrow> p = JNull" "p = JNull \<longrightarrow> s = JNull"
    using g(2) unfolding child_kept_def by blast
  moreover have "r \<noteq> JNull"
  proof
    assume "r = JNull"
    then have "sub_lit c ''reservation'' = Inr JNull"
      using calculation(1) by (intro get_lit_sub) (simp add: child_records_def)
    then show False using c(2) by (simp add: holds_reservation_def reserved_as_def)
  qed
  ultimately show thesis using that by blast
qed

lemma child_records_dict: "child_records c r d p s \<Longrightarrow> is_dict c"
  by (cases c) (auto simp: child_records_def)

lemma child_records_set:
  assumes "child_records c r d p s"
  shows "v \<noteq> JNull \<Longrightarrow> r \<noteq> JNull \<Longrightarrow> p = JNull \<Longrightarrow> s = JNull \<Longrightarrow> child_kept (set_member ''dispatch'' v c)"
    and "v \<noteq> JNull \<Longrightarrow> r \<noteq> JNull \<Longrightarrow> d \<noteq> JNull \<Longrightarrow> s = JNull \<Longrightarrow> child_kept (set_member ''completion'' v c)"
    and "v \<noteq> JNull \<Longrightarrow> r \<noteq> JNull \<Longrightarrow> d \<noteq> JNull \<Longrightarrow> p \<noteq> JNull \<Longrightarrow> child_kept (set_member ''settlement'' v c)"
proof -
  have d: "is_dict c" using assms by (cases c) (auto simp: child_records_def)
  then have "child_records (set_member ''dispatch'' v c) r v p s" "child_records (set_member ''completion'' v c) r d v s"
      "child_records (set_member ''settlement'' v c) r d p v"
    using assms by (simp_all add: child_records_def)
  then show "v \<noteq> JNull \<Longrightarrow> r \<noteq> JNull \<Longrightarrow> p = JNull \<Longrightarrow> s = JNull \<Longrightarrow> child_kept (set_member ''dispatch'' v c)"
     "v \<noteq> JNull \<Longrightarrow> r \<noteq> JNull \<Longrightarrow> d \<noteq> JNull \<Longrightarrow> s = JNull \<Longrightarrow> child_kept (set_member ''completion'' v c)"
     "v \<noteq> JNull \<Longrightarrow> r \<noteq> JNull \<Longrightarrow> d \<noteq> JNull \<Longrightarrow> p \<noteq> JNull \<Longrightarrow> child_kept (set_member ''settlement'' v c)"
    unfolding child_kept_def by blast+
qed

lemma ledger_event_not_null: "ledger_event X L G b c kind when own = Inr e \<Longrightarrow> e \<noteq> JNull"
  unfolding ledger_event_def bindE_Inr_iff using envelope_body(2) by blast

lemma records_sub:
  assumes "child_records c r d p s"
  shows "sub_lit c ''dispatch'' = Inr d" "sub_lit c ''completion'' = Inr p" "sub_lit c ''settlement'' = Inr s"
  using assms unfolding child_records_def by (blast intro: get_lit_sub)+

lemma dispatch_solvent:
  assumes "dispatch_change X L G i when b = Inr (b', event)" "ledger_usage b = Inr used" "well_kept b" "solvent b"
  shows "solvent b' \<and> well_kept b'"
proof -
  from assms(1) obtain c where c: "find_child b i = Inr c" "sub_lit c ''dispatch'' = Inr JNull" "event \<noteq> JNull"
      "b' = set_child (holds_reservation i) ''dispatch'' event b"
    by (auto simp: dispatch_change_def bindE_Inr_iff dest: ledger_event_not_null)
  obtain r d p s where r: "child_records c r d p s" "r \<noteq> JNull" "d = JNull \<longrightarrow> p = JNull" "p = JNull \<longrightarrow> s = JNull"
    by (rule found_child_records [OF c(1) assms(3)])
  with c(2) have "p = JNull" "s = JNull" using records_sub [OF r(1)] by auto
  then have k: "child_kept (set_member ''dispatch'' event c)" using child_records_set(1) [OF r(1) c(3) r(2)] by simp
  have "child_parts (set_member ''dispatch'' event c) = child_parts c"
    using child_records_dict [OF r(1)] by (simp add: child_parts_def cong: if_cong)
  then have "charged (set_member ''dispatch'' event c) k = charged c k" for k
    using child_records_dict [OF r(1)]
    by (simp add: charged_def exposed_def share_def overrun_def measured_of_def hold_def)
  with later_event_solvent [OF assms(2-4) c(1) k] show ?thesis unfolding c(4) by simp
qed

lemma complete_solvent:
  assumes "complete_change X L G i service rows measured observed when b = Inr (b', event)"
    "ledger_usage b = Inr used" "well_kept b" "solvent b"
  shows "solvent b' \<and> well_kept b'"
proof -
  from assms(1) obtain c d0 where c: "find_child b i = Inr c" "sub_lit c ''dispatch'' = Inr d0" "d0 \<noteq> JNull"
      "sub_lit c ''completion'' = Inr JNull" "event \<noteq> JNull" "b' = set_child (holds_reservation i) ''completion'' event b"
    by (auto simp: complete_change_def bindE_Inr_iff dest: ledger_event_not_null split: if_splits)
  obtain r d p s where r: "child_records c r d p s" "r \<noteq> JNull" "d = JNull \<longrightarrow> p = JNull" "p = JNull \<longrightarrow> s = JNull"
    by (rule found_child_records [OF c(1) assms(3)])
  with c have "d \<noteq> JNull" "s = JNull" using records_sub [OF r(1)] by auto
  then have k: "child_kept (set_member ''completion'' event c)" using child_records_set(2) [OF r(1) c(5) r(2)] by simp
  let ?c = "set_member ''completion'' event c"
  note dict = child_records_dict [OF r(1)]
  have "charged ?c k \<le> charged c k" if "share c = Inr shares" for shares k
  proof -
    have t: "sub_lit c ''settlement'' = Inr JNull" using records_sub [OF r(1)] \<open>s = JNull\<close> by simp
    then have "charged ?c k \<le> hold ?c k" using dict by (intro charged_le) simp
    also have "\<dots> = hold c k" using dict by (intro same_reading) simp
    finally show ?thesis using charged_unsettled(2) [OF that t c(4)] by simp
  qed
  with later_event_solvent [OF assms(2-4) c(1) k] show ?thesis unfolding c(6) by simp
qed

text \<open>A settlement's rows repeat what the completion measured, or say that it is unknown.\<close>

definition repeats :: "axis_amounts \<Rightarrow> axis_amounts \<Rightarrow> bool" where
  "repeats paid measured \<longleftrightarrow> list_all2 (\<lambda>(n, q) (n', q'). n = n' \<and> (q = None \<or> q = q')) paid measured"

lemma repeats_known: "repeats paid measured \<Longrightarrow> known paid n = Some v \<Longrightarrow> known measured n = Some v"
  unfolding repeats_def
proof (induction rule: list_all2_induct)
  case (Cons x xs y ys)
  then show ?case by (cases x; cases y) (auto simp: known_def split: if_split_asm)
qed (simp add: known_def)

lemma settlement_row_repeats:
  assumes "settlement_row service r = Inr row" "axis_row ''measured_amount'' measured r = Inr measured'"
    "axis_row ''settled_amount_or_UNKNOWN'' paid row = Inr paid'" "repeats paid measured"
  shows "repeats paid' measured'"
proof -
  from assms(1) obtain i u a s m where row: "sub_lit r ''axis_id'' = Inr i" "sub_lit r ''measured_amount'' = Inr m"
      "row = JDict [(lit ''axis_id'', i), (lit ''unit'', u), (lit ''aggregation'', a), (lit ''scope'', s), (lit ''measured_amount'', m),
         (lit ''settled_amount_or_UNKNOWN'', if py_eq service (jlit ''UNKNOWN'') then jlit ''UNKNOWN'' else m)]"
    by (auto simp: settlement_row_def bindE_Inr_iff)
  let ?known = "\<lambda>v. if v = jlit ''UNKNOWN'' then Inr None else bindE (amount v) (\<lambda>q. Inr (Some q))"
  from assms(2) row(1,2) obtain q where q: "?known m = Inr q" "measured' = measured @ [(the_str i, q)]"
    by (auto simp: axis_row_def bindE_Inr_iff)
  from assms(3) obtain q' where q': "?known (if py_eq service (jlit ''UNKNOWN'') then jlit ''UNKNOWN'' else m) = Inr q'"
      "paid' = paid @ [(the_str i, q')]"
    by (auto simp: axis_row_def bindE_Inr_iff row(3) split: if_split_asm)
  have "q' = None \<or> q' = q" using q(1) q'(1) by (auto split: if_split_asm)
  with assms(4) show ?thesis by (simp add: repeats_def q(2) q'(2) list_all2_appendI)
qed

lemma settlement_rows_repeat:
  "mapE (settlement_row service) rs = Inr rows \<Longrightarrow> axis_rows ''measured_amount'' measured rs = Inr measured' \<Longrightarrow>
   axis_rows ''settled_amount_or_UNKNOWN'' paid rows = Inr paid' \<Longrightarrow> repeats paid measured \<Longrightarrow> repeats paid' measured'"
proof (induction rs arbitrary: rows measured paid)
  case (Cons r rs)
  then obtain row rest m p where r: "settlement_row service r = Inr row" "mapE (settlement_row service) rs = Inr rest"
      "rows = row # rest" "axis_row ''measured_amount'' measured r = Inr m" "axis_rows ''measured_amount'' m rs = Inr measured'"
      "axis_row ''settled_amount_or_UNKNOWN'' paid row = Inr p" "axis_rows ''settled_amount_or_UNKNOWN'' p rest = Inr paid'"
    by (auto simp: bindE_Inr_iff)
  from Cons.IH [OF r(2,5,7) settlement_row_repeats [OF r(1,4,6) Cons.prems(4)]] show ?case .
qed simp

lemma settled_repeats:
  assumes "axes measured_rows ''measured_amount'' = Inr measured" "py_iter measured_rows = Inr rs"
    "mapE (settlement_row service) rs = Inr rows" "axes (JList rows) ''settled_amount_or_UNKNOWN'' = Inr paid"
  shows "repeats paid measured"
proof -
  from assms(1,2) have "axis_rows ''measured_amount'' [] rs = Inr measured"
    by (cases measured_rows) (auto simp: axes_def bindE_Inr_iff)
  moreover from assms(4) have "axis_rows ''settled_amount_or_UNKNOWN'' [] rows = Inr paid"
    by (auto simp: axes_def bindE_Inr_iff)
  ultimately show ?thesis by (rule settlement_rows_repeat [OF assms(3)]) (simp add: repeats_def)
qed

lemma settled_charge:
  assumes c: "share c = Inr s" "sub_lit c ''settlement'' = Inr JNull" "is_dict c" "truthy event"
    and r: "sub_lit c ''completion'' = Inr p" "truthy p"
    and m: "\<And>measured paid. event_rows p ''measured_amount'' = Inr measured \<Longrightarrow>
        event_rows event ''settled_amount_or_UNKNOWN'' = Inr paid \<Longrightarrow> repeats paid measured"
  shows "charged (set_member ''settlement'' event c) k \<le> charged c k"
proof -
  let ?c = "set_member ''settlement'' event c"
  have o: "overrun ?c k = overrun c k" using c(3) by (simp add: overrun_def measured_of_def hold_def)
  have "exposed ?c k \<le> exposed c k"
  proof (cases "share ?c")
    case (Inl e)
    then show ?thesis using exposed_nonneg [OF c(1,2)] by (simp add: exposed_def [of ?c])
  next
    case (Inr s')
    from c(1) obtain q where q: "sub_lit c ''reservation'' = Inr q"
      by (auto simp: share_def child_parts_def bindE_Inr_iff)
    show ?thesis
    proof (cases "q = JNull")
      case False
      from c(1) q False r c(2) obtain held measured where h: "event_rows q ''reserved_amount'' = Inr held"
          "event_rows p ''measured_amount'' = Inr measured" "held_share held measured [] = Inr s"
        by (auto simp: share_def child_parts_def bindE_Inr_iff)
      from Inr q False r h(1,2) c(3,4) obtain paid where p: "event_rows event ''settled_amount_or_UNKNOWN'' = Inr paid"
          "held_share held measured paid = Inr s'"
        by (auto simp: share_def child_parts_def bindE_Inr_iff)
      have "axis_sum s' k \<le> axis_sum s k"
        by (rule held_share_settled [OF _ p(2) h(3)]) (rule repeats_known [OF m [OF h(2) p(1)]])
      with c(1) Inr show ?thesis by (simp add: exposed_def)
    qed (use q c(3) in simp)
  qed
  with o show ?thesis by (simp add: charged_def)
qed

lemma ledger_event_rows:
  assumes "ledger_event X L G b c kind when own = Inr event" "map_of own (lit ''resource_rows'') = Some rows"
  shows "event_rows event field = axes rows field" and "truthy event"
proof -
  from assms(1) obtain content where e: "event_body X b c kind when own = Inr content"
      "envelope X L (lg_seed G) (lg_issuer G) content = Inr event"
    by (auto simp: ledger_event_def bindE_Inr_iff)
  from event_body_rows(1) [OF e(1) assms(2)] envelope_body [OF e(2)]
  show "event_rows event field = axes rows field" "truthy event" by (simp_all add: event_rows_def)
qed

lemma settle_solvent:
  assumes "settle_change X L G i completion_sha256 settled_at b = Inr (b', event)"
    "ledger_usage b = Inr used" "well_kept b" "solvent b"
  shows "solvent b' \<and> well_kept b'"
proof -
  from assms(1) obtain c p0 e measured_rows rs service rows own where c: "find_child b i = Inr c" "sub_lit c ''completion'' = Inr p0"
      "p0 \<noteq> JNull" "sub_lit c ''settlement'' = Inr JNull" "b' = set_child (holds_reservation i) ''settlement'' event b"
    and p: "sub_lit p0 ''body'' = Inr e" "sub_lit e ''resource_rows'' = Inr measured_rows" "py_iter measured_rows = Inr rs"
      "mapE (settlement_row service) rs = Inr rows"
    and w: "ledger_event X L G b c ''settlement'' settled_at own = Inr event" "map_of own (lit ''resource_rows'') = Some (JList rows)"
    by (auto simp: settle_change_def bindE_Inr_iff split: if_splits)
  obtain r d p s where r: "child_records c r d p s" "r \<noteq> JNull" "d = JNull \<longrightarrow> p = JNull" "p = JNull \<longrightarrow> s = JNull"
    by (rule found_child_records [OF c(1) assms(3)])
  with c have n: "d \<noteq> JNull" "p \<noteq> JNull" "s = JNull" using records_sub [OF r(1)] by auto
  note ev = ledger_event_rows [OF w]
  have k: "child_kept (set_member ''settlement'' event c)"
    using child_records_set(3) [OF r(1) ledger_event_not_null [OF w(1)] r(2) n(1,2)] .
  have t: "truthy p0" using p(1) by (cases p0) auto
  have m: "repeats paid measured" if "event_rows p0 ''measured_amount'' = Inr measured"
      "event_rows event ''settled_amount_or_UNKNOWN'' = Inr paid" for measured paid
    using settled_repeats [OF _ p(3,4)] that p(1,2) by (simp add: ev(1)) (simp add: event_rows_def)
  have "charged (set_member ''settlement'' event c) k \<le> charged c k" if "share c = Inr shares" for shares k
    by (rule settled_charge [OF that c(4) child_records_dict [OF r(1)] ev(2) c(2) t m])
  with later_event_solvent [OF assms(2-4) c(1) k] show ?thesis unfolding c(5) by simp
qed

lemma find_has_id_set:
  assumes "find (has_id ''child_id'' i) cs = Some c" "is_dict c" "k \<noteq> ''child_id''"
  shows "find (has_id ''child_id'' i) (update_first (has_id ''child_id'' i) (set_member k v) cs) = Some (set_member k v c)"
  using assms find_Some [OF assms(1)] by (intro find_update_first) (auto simp: has_id_def)

lemma axis_limit_Inr:
  assumes "axis_limit requested limits used k = Inr ()" "known limits k = Some x"
  obtains u q where "map_of used k = Some u" "known requested k = Some q" "u + q \<le> x"
  using assms by (cases "map_of used k"; cases "known requested k") (auto simp: axis_limit_def)

lemma reserve_solvent:
  assumes "reserve_change X L G child_id attempt_id rows requested issued_at b = Inr (b', event)"
    "axes rows ''reserved_amount'' = Inr requested" "well_kept b"
  shows "solvent b' \<and> well_kept b'"
proof -
  let ?P = "has_id ''child_id'' child_id" and ?b1 = "set_child (has_id ''child_id'' child_id) ''attempt_id'' attempt_id b"
  from assms(3) obtain cs where g: "get_lit b ''children'' = Some (JList cs)" "\<forall>c \<in> set cs. child_kept c"
    by (auto simp: well_kept_def)
  from assms(1) obtain c limits used where
      c: "findE (\<lambda>c. bindE (sub_lit c ''child_id'') (\<lambda>i. Inr (py_eq i child_id))) cs = Inr (Some c)"
        "sub_lit c ''reservation'' = Inr JNull"
      and l: "budget_limits b = Inr limits" "ledger_usage b = Inr used" "same_axes requested limits"
        "\<forall>k \<in> set (keys limits). axis_limit requested limits used k = Inr ()"
      and e: "reservation_event X L G ?b1 (set_member ''attempt_id'' attempt_id c) rows issued_at = Inr event"
        "b' = set_child ?P ''reservation'' event ?b1"
    by (auto simp: reserve_change_def bindE_Inr_iff child_list_iff [OF g(1)] forE_Inr_iff budget_limits_def Let_def)
  have f: "find ?P cs = Some c" by (rule findE_find [OF c(1)])
  have "child_kept c" using g(2) find_Some [OF f] by simp
  then have kept_free: "\<exists>d p s. child_records c JNull d p s \<and> d = JNull \<and> p = JNull \<and> s = JNull"
    using sub_lit_dict [OF c(2)] unfolding child_kept_def child_records_def by auto
  obtain d p s where r: "child_records c JNull d p s" "d = JNull" "p = JNull" "s = JNull"
    using kept_free by blast
  then have dict: "is_dict c" by (cases c) (auto simp: child_records_def)
  let ?c1 = "set_member ''attempt_id'' attempt_id c" and ?cs1 = "update_first ?P (set_member ''attempt_id'' attempt_id) cs"
  note g1 = get_set_child(1) [OF g(1), of ?P "''attempt_id''" attempt_id]
  have f1: "find ?P ?cs1 = Some ?c1" by (rule find_has_id_set [OF f dict]) simp
  have r1: "child_records ?c1 JNull JNull JNull JNull" using r dict by (simp add: child_records_def)
  then have kept1: "child_kept ?c1" unfolding child_kept_def by blast
  let ?c2 = "set_member ''reservation'' event ?c1"
  have ev: "event \<noteq> JNull" "event_rows event ''reserved_amount'' = Inr requested"
    using reservation_event_rows [OF e(1)] assms(2) by auto
  have "child_records ?c2 event JNull JNull JNull" using r1 by (simp add: child_records_def)
  then have kept2: "child_kept ?c2" unfolding child_kept_def by blast
  have "well_kept ?b1" by (rule well_kept_set_child [OF g(1) f assms(3) kept1])
  then have w: "well_kept b'" unfolding e(2) by (rule well_kept_set_child [OF g1 f1 _ kept2])
  have h: "hold ?c2 k = (case known requested k of Some r \<Rightarrow> r | None \<Rightarrow> 0)" for k
    using ev(2) by (simp add: hold_def)
  have null: "sub_lit c ''completion'' = Inr JNull" "sub_lit ?c1 ''completion'' = Inr JNull"
    using records_sub [OF r(1)] records_sub [OF r1] r(3) by simp_all
  have t2: "sub_lit ?c2 ''settlement'' = Inr JNull" using records_sub [OF r1] by simp
  have free: "charged c k = 0" "charged ?c1 k = 0" for k
    using c(2) dict null by (simp_all add: charged_def overrun_def)
  have "committed b' k \<le> committed b k + (case known requested k of Some r \<Rightarrow> r | None \<Rightarrow> 0)" for k
    using committed_set_child [OF g1 f1, of "''reservation''" event k] charged_le [OF t2, of k]
      committed_set_child [OF g(1) f, of "''attempt_id''" attempt_id k]
    by (simp add: e(2) h free)
  moreover have "committed b k + (case known requested k of Some r \<Rightarrow> r | None \<Rightarrow> 0) \<le> x" if "known limits k = Some x" for k x
  proof -
    note lim = that
    have "k \<in> set (keys limits)" using that
      by (metis known_def map_of_None_keys option.case(1) option.distinct(1))
    with l(4) have "axis_limit requested limits used k = Inr ()" by blast
    then obtain u q where u: "map_of used k = Some u" "known requested k = Some q" "u + q \<le> x"
      using axis_limit_Inr [OF _ lim] by blast
    then show ?thesis using committed_le_used [OF l(2) u(1)] by simp
  qed
  moreover have "budget_limits b' = Inr limits"
    using l(1) budget_limits_set_child [OF g1] budget_limits_set_child [OF g(1)] by (simp add: e(2))
  ultimately have "solvent b'"
    unfolding solvent_def by (auto intro: order_trans)
  with w show ?thesis by simp
qed

end
