(* ===== verification/Bookkeeping.thy ===== *)
theory Bookkeeping
  imports Solvency
begin

text \<open>
  The published state of the child ledger: what an operation writes is what the next one reads, with its
  members sorted, and wherever the host stops the state is the old one or the new one, never a part of it.
\<close>

section \<open>Member order\<close>

lemma sub_sort: "wf_json v \<Longrightarrow> sub_lit (sort_json v) k = map_sum id sort_json (sub_lit v k)"
  by (rule subscript_sort)

lemma sub_sort_cases:
  assumes "wf_json v"
  obtains (error) e where "sub_lit v k = Inl e" "sub_lit (sort_json v) k = Inl e"
        | (found) w where "sub_lit v k = Inr w" "sub_lit (sort_json v) k = Inr (sort_json w)" "wf_json w"
  using sub_sort [OF assms, of k] wf_dict_get [OF assms] by (cases "sub_lit v k"; cases v) (auto split: option.splits)

lemma bind_sub_sort:
  assumes "wf_json v" "\<And>w. wf_json w \<Longrightarrow> sub_lit v k = Inr w \<Longrightarrow> f (sort_json w) = f w"
  shows "bindE (sub_lit (sort_json v) k) f = bindE (sub_lit v k) f"
  using assms by (cases rule: sub_sort_cases [OF assms(1), of k]) auto

lemma get_sort: "wf_json v \<Longrightarrow> get_lit (sort_json v) k = map_option sort_json (get_lit v k)"
  by (rule dict_get_sort)

lemma member_sort: "wf_json v \<Longrightarrow> member (sort_json v) k = sort_json (member v k)"
  by (auto simp: member_def get_sort split: option.splits)

lemma has_exactly_sort [simp]: "has_exactly names (sort_json v) = has_exactly names v"
  by (simp add: has_exactly_def)

lemma hash_sort [simp]: "must_hash (sort_json v) = must_hash v"
  by (cases v) (simp_all add: must_hash_def)

lemma amount_sort [simp]: "amount (sort_json v) = amount v"
  by (cases v) (simp_all add: amount_def)

lemma axis_row_sort:
  assumes "wf_json r"
  shows "axis_row field result (sort_json r) = axis_row field result r"
  by (simp add: axis_row_def member_sort assms bind_sub_sort [OF assms] cong: option.case_cong)

lemma axis_rows_sort: "list_all wf_json rs \<Longrightarrow> axis_rows field result (map sort_json rs) = axis_rows field result rs"
  by (induction rs arbitrary: result) (simp_all add: axis_row_sort)

lemma axes_sort: "wf_json rows \<Longrightarrow> axes (sort_json rows) field = axes rows field"
  by (cases rows) (simp_all add: axes_def axis_rows_sort list_all_iff)

lemma event_rows_sort: "wf_json e \<Longrightarrow> event_rows (sort_json e) field = event_rows e field"
  by (simp add: event_rows_def bind_sub_sort axes_sort)

lemma child_parts_sort: "wf_json c \<Longrightarrow> child_parts (sort_json c) = child_parts c"
  by (simp add: child_parts_def bind_sub_sort event_rows_sort cong: if_cong)

lemma charged_sort: "wf_json c \<Longrightarrow> charged (sort_json c) k = charged c k"
  by (simp add: charged_def exposed_def share_def child_parts_sort overrun_def measured_of_def hold_def bind_sub_sort event_rows_sort)

lemma child_kept_sort: "wf_json c \<Longrightarrow> child_kept c \<Longrightarrow> child_kept (sort_json c)"
  unfolding child_kept_def child_records_def by (auto simp: get_sort)

lemma budget_limits_sort: "wf_json b \<Longrightarrow> budget_limits (sort_json b) = budget_limits b"
  by (simp add: budget_limits_def bind_sub_sort axes_sort)

lemma kept_sort:
  assumes "wf_json b" "well_kept b" "solvent b"
  shows "well_kept (sort_json b)" "solvent (sort_json b)"
proof -
  from assms(2) obtain cs where g: "get_lit b ''children'' = Some (JList cs)" "\<forall>c \<in> set cs. child_kept c"
    by (auto simp: well_kept_def)
  have w: "\<forall>c \<in> set cs. wf_json c" using wf_dict_get [OF assms(1) g(1)] by simp
  have g': "get_lit (sort_json b) ''children'' = Some (JList (map sort_json cs))"
    using g(1) assms(1) by (simp add: get_sort)
  then show "well_kept (sort_json b)" using g(2) w by (auto simp: well_kept_def intro: child_kept_sort)
  have "(\<Sum>c \<leftarrow> map sort_json cs. charged c k) = (\<Sum>c \<leftarrow> cs. charged c k)" for k
    using w by (auto simp: comp_def charged_sort intro!: arg_cong [where f = sum_list] map_cong)
  then have "committed (sort_json b) k = committed b k" for k
    by (simp add: committed_def child_list_iff [OF g(1)] child_list_iff [OF g'])
  then show "solvent (sort_json b)"
    by (intro solventI [OF assms(3) budget_limits_sort [OF assms(1)]]) simp
qed

section \<open>Well-formed records\<close>

lemma wf_set_member: "wf_json d \<Longrightarrow> wf_json v \<Longrightarrow> wf_json (set_member k v d)"
proof -
  assume d: "wf_json d" and v: "wf_json v"
  obtain e where e: "items d = e" "distinct (keys e)" "\<forall>(k, v) \<in> set e. wf_str k \<and> wf_json v"
    using d by (cases d) (auto simp: keys_def)
  have "\<forall>(j, w) \<in> set (dset (lit k) v e). wf_str j \<and> wf_json w"
    using e(3) v by (induction e) (auto split: if_splits)
  then show ?thesis using distinct_keys_dset [OF e(2)] by (simp add: set_member_def e(1))
qed

lemma wf_sub: "wf_json v \<Longrightarrow> sub_lit v k = Inr w \<Longrightarrow> wf_json w"
  using sub_lit_dict [of v k w] wf_dict_get by blast

lemma wf_member: "wf_json v \<Longrightarrow> wf_json (member v k)"
  using wf_dict_get [of v "lit k"] by (auto simp: member_def split: option.splits)

lemma wf_update_first:
  "\<forall>x \<in> set xs. P x \<Longrightarrow> (\<And>x. P x \<Longrightarrow> P (f x)) \<Longrightarrow> \<forall>x \<in> set (update_first S f xs). P x"
  by (induction xs) auto

lemma wf_set_child:
  assumes "wf_json b" "wf_json v"
  shows "wf_json (set_child P k v b)"
proof (cases "\<exists>cs. get_lit b ''children'' = Some (JList cs)")
  case True
  then obtain cs where g: "get_lit b ''children'' = Some (JList cs)" ..
  have "\<forall>c \<in> set cs. wf_json c" using wf_dict_get [OF assms(1) g] by simp
  then have "wf_json (JList (update_first P (set_member k v) cs))"
    using wf_update_first [of cs wf_json "set_member k v" P] assms(2) by (simp add: wf_set_member)
  then show ?thesis by (simp add: set_child_eq [OF g] wf_set_member assms(1))
next
  case False
  then have "set_child P k v b = b" by (auto simp: set_child_def split: option.splits json.splits)
  with assms(1) show ?thesis by simp
qed

text \<open>What the ledger assumes of SHA-256 and Ed25519: hexadecimal text, and signatures made of bytes.\<close>

definition signs_bytes :: "externals \<Rightarrow> bool" where
  "signs_bytes X \<longleftrightarrow> (\<forall>k m s. ed25519_sign X k m = Some s \<longrightarrow> (\<forall>x \<in> set s. x < 256))"

lemma wf_sha: "hash_text_ok X \<Longrightarrow> wf_str (sha256_hex X b)"
  unfolding hash_text_ok_def wf_str_def list_all_iff hex_char_def by fastforce

lemma wf_custody_digest: "custody_digest X v = Inr d \<Longrightarrow> hash_text_ok X \<Longrightarrow> wf_str d"
  by (auto simp: custody_digest_def bindE_Inr_iff wf_sha)

lemma wf_hex_of: "\<forall>x \<in> set b. x < 256 \<Longrightarrow> wf_str (hex_of b)"
proof -
  have "hex_digit n < 1114112" if "n < 16" for n using that by (simp add: hex_digit_def)
  then show "\<forall>x \<in> set b. x < 256 \<Longrightarrow> wf_str (hex_of b)"
    by (auto simp: hex_of_def wf_str_def list_all_iff)
qed

lemma wf_producer: "hash_text_ok X \<Longrightarrow> wf_json (producer X L)"
  by (auto simp: producer_def keys_def wf_sha)

lemma wf_envelope:
  assumes "envelope X L seed issuer content = Inr e" "hash_text_ok X" "signs_bytes X" "wf_str issuer" "wf_json content"
  shows "wf_json e"
proof -
  from assms(1) obtain s d where e: "e = JDict [(lit ''issuer_identity'', JStr issuer), (lit ''producer_identity'', producer X L),
      (lit ''body'', content), (lit ''signature'', JStr (hex_of s)), (lit ''sha256'', JStr d)]"
      "\<forall>x \<in> set s. x < 256" "wf_str d"
    using assms(2,3) unfolding signs_bytes_def
    by (fastforce simp: envelope_def with_digest_def bindE_Inr_iff Let_def dest: wf_custody_digest split: option.splits)
  then show ?thesis using assms(4,5) wf_producer [OF assms(2)] wf_hex_of [OF e(2)] by (simp add: keys_def)
qed

text \<open>The keys of an event are those of its binding, its own common ones and those of its kind.\<close>

definition event_names :: "string list" where
  "event_names = bound_names @ [''schema'', ''event_id'', ''recorded_at'', ''authority_granted'', ''automatic_retry'']"

lemma wf_read: "sub_lit v k = Inr w \<Longrightarrow> wf_json v \<Longrightarrow> wf_json w"
  by (rule wf_sub)

lemma wf_bound_event:
  assumes "bound_event b c = Inr bind" "wf_json b" "wf_json c"
  shows "\<forall>(k, v) \<in> set (items bind). wf_str k \<and> wf_json v"
proof -
  from assms(1) obtain k i c0 a p o0 pa st ba ids g gi gs where
      r: "sub_lit b ''task_key'' = Inr k" "sub_lit b ''task_identity'' = Inr i" "sub_lit c ''child_id'' = Inr c0"
         "sub_lit c ''attempt_id'' = Inr a" "sub_lit b ''parent_binding'' = Inr p"
         "sub_lit b ''expected_child_ids'' = Inr ids" "sub_lit b ''budget'' = Inr g"
      and q: "sub_lit p ''operation_id'' = Inr o0" "sub_lit p ''attempt_id'' = Inr pa" "sub_lit p ''start_sha256'' = Inr st"
         "sub_lit p ''basis_artifact'' = Inr ba" "sub_lit g ''budget_id'' = Inr gi" "sub_lit g ''budget_sha256'' = Inr gs"
      and e: "bind = JDict [(lit ''task_key'', k), (lit ''task_identity'', i), (lit ''child_id'', c0),
        (lit ''attempt_id'', a), (lit ''parent_operation_id'', o0), (lit ''parent_attempt_id'', pa),
        (lit ''parent_start_sha256'', st), (lit ''basis_artifact'', ba), (lit ''expected_child_ids'', ids),
        (lit ''budget_id'', gi), (lit ''budget_sha256'', gs)]"
    unfolding bound_event_def bindE_Inr_iff sum.inject by blast
  note w = r [THEN wf_read]
  have "wf_json k" "wf_json i" "wf_json p" "wf_json ids" "wf_json g" using w(1,2,5-7) assms(2) by blast+
  moreover have "wf_json c0" "wf_json a" using w(3,4) assms(3) by blast+
  ultimately show ?thesis using q [THEN wf_read] by (simp add: e)
qed

lemma wf_event_body:
  assumes "event_body X b c kind when (map (\<lambda>(k, v). (lit k, v)) own) = Inr e" "hash_text_ok X"
    "wf_json b" "wf_json c" "wf_json when" "distinct (event_names @ map fst own)" "\<forall>(k, v) \<in> set own. wf_json v"
  shows "wf_json e"
proof -
  from assms(1) obtain bind d where b: "bound_event b c = Inr bind" "custody_digest X bind = Inr d" "e = JDict (items bind @
       [(lit ''schema'', JStr (lit ''vfy.child-'' @ lit kind @ lit ''/1'')), (lit ''event_id'', JStr (lit kind @ [45] @ d)),
        (lit ''recorded_at'', when), (lit ''authority_granted'', JBool False), (lit ''automatic_retry'', JBool False)] @
        map (\<lambda>(k, v). (lit k, v)) own)"
    by (auto simp: event_body_def bindE_Inr_iff)
  have "keys (items e) = map lit (event_names @ map fst own)"
    using bound_event_keys [OF b(1)] by (simp add: b(3) event_names_def keys_def comp_def split_def)
  moreover have "distinct (map lit (event_names @ map fst own))"
    using assms(6) by (simp only: distinct_map) (simp add: inj_on_def)
  moreover have "\<forall>(k, v) \<in> set (items bind). wf_str k \<and> wf_json v"
    by (rule wf_bound_event [OF b(1) assms(3,4)])
  ultimately show ?thesis
    using assms(5,7) wf_custody_digest [OF b(2) assms(2)] by (auto simp: b(3))
qed

definition sound_signer :: "externals \<Rightarrow> ledger \<Rightarrow> bool" where
  "sound_signer X G \<longleftrightarrow> hash_text_ok X \<and> signs_bytes X \<and> wf_str (lg_issuer G)"

lemma wf_signed:
  "envelope X L (lg_seed G) (lg_issuer G) content = Inr e \<Longrightarrow> sound_signer X G \<Longrightarrow> wf_json content \<Longrightarrow> wf_json e"
  using wf_envelope unfolding sound_signer_def by blast

lemma wf_ledger_event:
  assumes "ledger_event X L G b c kind when own = Inr e" "sound_signer X G" "wf_json b" "wf_json c" "wf_json when"
    "own = map (\<lambda>(k, v). (lit k, v)) named" "distinct (event_names @ map fst named)" "\<forall>(k, v) \<in> set named. wf_json v"
  shows "wf_json e"
proof -
  from assms(1,6) obtain content where c: "event_body X b c kind when (map (\<lambda>(k, v). (lit k, v)) named) = Inr content"
      "envelope X L (lg_seed G) (lg_issuer G) content = Inr e"
    by (auto simp: ledger_event_def bindE_Inr_iff)
  have "wf_json content"
    using assms(2) by (intro wf_event_body [OF c(1) _ assms(3-5,7,8)]) (simp add: sound_signer_def)
  with c(2) assms(2) show ?thesis by (rule wf_signed)
qed

lemma wf_iter: "py_iter v = Inr vs \<Longrightarrow> wf_json v \<Longrightarrow> \<forall>x \<in> set vs. wf_json x"
  by (cases v) (fastforce simp: wf_str_def list_all_iff)+

lemma wf_children: "child_list b = Inr cs \<Longrightarrow> wf_json b \<Longrightarrow> \<forall>c \<in> set cs. wf_json c"
  by (auto simp: child_list_def bindE_Inr_iff dest: wf_iter wf_read)

lemma wf_found:
  assumes "find_child b i = Inr c" "wf_json b"
  shows "wf_json c"
proof -
  from assms(1) obtain cs where cs: "child_list b = Inr cs" by (auto simp: find_child_def bindE_Inr_iff)
  from find_Some [OF find_child_find [OF assms(1) cs]] wf_children [OF cs assms(2)] show ?thesis by blast
qed

lemma wf_reservation_digest: "reservation_digest c = Inr d \<Longrightarrow> wf_json c \<Longrightarrow> wf_json d"
  by (auto simp: reservation_digest_def bindE_Inr_iff dest: wf_read)

lemma wf_dispatch:
  assumes "dispatch_change X L G i when b = Inr (b', event)" "sound_signer X G" "wf_json b" "wf_json i" "wf_json when"
  shows "wf_json b'"
proof -
  from assms(1) obtain c rd where c: "find_child b i = Inr c" "reservation_digest c = Inr rd"
      "ledger_event X L G b c ''dispatch'' when
              [(lit ''reservation_id'', i), (lit ''reservation_sha256'', rd),
               (lit ''state'', jlit ''INTENT_RECORDED_NOT_PROOF_OF_LAUNCH'')] = Inr event"
      "b' = set_child (holds_reservation i) ''dispatch'' event b"
    by (auto simp: dispatch_change_def bindE_Inr_iff)
  have w: "wf_json c" by (rule wf_found [OF c(1) assms(3)])
  have "wf_json event"
    by (rule wf_ledger_event [OF c(3) assms(2,3) w assms(5), where named =
        "[(''reservation_id'', i), (''reservation_sha256'', rd), (''state'', jlit ''INTENT_RECORDED_NOT_PROOF_OF_LAUNCH'')]"])
      (use assms(4) wf_reservation_digest [OF c(2) w] in \<open>simp_all add: event_names_def bound_names_def\<close>)
  then show ?thesis unfolding c(4) by (rule wf_set_child [OF assms(3)])
qed

lemma wf_complete:
  assumes "complete_change X L G i service rows measured observed when b = Inr (b', event)" "sound_signer X G" "wf_json b"
    "wf_json i" "wf_json when" "wf_json service" "wf_json rows" "wf_json observed"
  shows "wf_json b'"
proof -
  let ?own = "\<lambda>rd. [(''reservation_id'', i), (''reservation_sha256'', rd), (''service_performed'', service),
               (''resource_measured'', measured_state measured), (''financial_or_external_settlement'', jlit ''UNKNOWN''),
               (''observation'', observed), (''measurement_assurance'', measurement_assurance),
               (''resource_rows'', rows)]"
  from assms(1) obtain c rd where c: "find_child b i = Inr c" "reservation_digest c = Inr rd"
      "ledger_event X L G b c ''completion'' when (map (\<lambda>(k, v). (lit k, v)) (?own rd)) = Inr event"
      "b' = set_child (holds_reservation i) ''completion'' event b"
    by (auto simp: complete_change_def bindE_Inr_iff)
  have w: "wf_json c" by (rule wf_found [OF c(1) assms(3)])
  have "wf_json event"
    by (rule wf_ledger_event [OF c(3) assms(2,3) w assms(5) refl])
      (use assms(4,6-8) wf_reservation_digest [OF c(2) w] in
        \<open>simp_all add: event_names_def bound_names_def measured_state_def measurement_assurance_def\<close>)
  then show ?thesis unfolding c(4) by (rule wf_set_child [OF assms(3)])
qed

lemma wf_settlement_row: "settlement_row service r = Inr row \<Longrightarrow> wf_json r \<Longrightarrow> wf_json row"
  unfolding settlement_row_def bindE_Inr_iff by (auto simp: keys_def dest: wf_read)

lemma wf_settle:
  assumes "settle_change X L G i completion_sha256 when b = Inr (b', event)" "sound_signer X G" "wf_json b"
    "wf_json i" "wf_json when" "wf_json completion_sha256"
  shows "wf_json b'"
proof -
  let ?own = "\<lambda>sid rd service how rows. [(''settled_at'', when), (''settlement_id'', sid), (''reservation_id'', i),
               (''reservation_sha256'', rd), (''completion_sha256'', completion_sha256),
               (''service_performed'', service), (''resource_measured'', how),
               (''financial_or_external_settlement'', jlit ''UNKNOWN''),
               (''state'', jlit ''LOCAL_RESOURCE_ACCOUNTING_ONLY''), (''resource_rows'', JList rows)]"
  from assms(1) obtain c p e mr rs service rows sid rd how where c: "find_child b i = Inr c" "reservation_digest c = Inr rd"
      "sub_lit c ''completion'' = Inr p" "sub_lit p ''body'' = Inr e" "sub_lit e ''resource_rows'' = Inr mr" "py_iter mr = Inr rs"
      "sub_lit e ''service_performed'' = Inr service" "mapE (settlement_row service) rs = Inr rows"
      "settlement_id X i completion_sha256 = Inr sid" "sub_lit e ''resource_measured'' = Inr how"
      "ledger_event X L G b c ''settlement'' when (map (\<lambda>(k, v). (lit k, v)) (?own sid rd service how rows)) = Inr event"
      "b' = set_child (holds_reservation i) ''settlement'' event b"
    by (auto simp: settle_change_def bindE_Inr_iff)
  have w: "wf_json c" by (rule wf_found [OF c(1) assms(3)])
  have e: "wf_json e" using w c(3,4) by (blast intro: wf_read)
  have "\<forall>r \<in> set rs. wf_json r" using c(5,6) e by (blast intro: wf_read dest: wf_iter)
  then have rows: "\<forall>r \<in> set rows. wf_json r"
    using c(8) wf_settlement_row by (fastforce simp: mapE_Inr_iff in_set_conv_nth list_all2_conv_all_nth)
  have sid: "wf_json sid"
    using c(9) assms(2) wf_custody_digest by (auto simp: settlement_id_def bindE_Inr_iff sound_signer_def)
  have "wf_json service" "wf_json how" using c(7,10) e by (blast intro: wf_read)+
  then have "wf_json event"
    by (intro wf_ledger_event [OF c(11) assms(2,3) w assms(5) refl])
      (use assms(4-6) wf_reservation_digest [OF c(2) w] rows sid in
        \<open>simp_all add: event_names_def bound_names_def\<close>)
  then show ?thesis unfolding c(12) by (rule wf_set_child [OF assms(3)])
qed

lemma wf_reserve:
  assumes "reserve_change X L G child_id attempt_id rows requested issued_at b = Inr (b', event)" "sound_signer X G" "wf_json b"
    "wf_json attempt_id" "wf_json rows" "wf_json issued_at"
  shows "wf_json b'"
proof -
  let ?P = "has_id ''child_id'' child_id"
  let ?b1 = "set_child ?P ''attempt_id'' attempt_id b"
  let ?own = "[(''issued_at'', issued_at), (''resource_rows'', rows), (''state'', jlit ''RESERVED_LOCAL_HOLD'')]"
  from assms(1) obtain cs c where c: "child_list b = Inr cs"
      "findE (\<lambda>c. bindE (sub_lit c ''child_id'') (\<lambda>i. Inr (py_eq i child_id))) cs = Inr (Some c)"
      "reservation_event X L G ?b1 (set_member ''attempt_id'' attempt_id c) rows issued_at = Inr event"
      "b' = set_child ?P ''reservation'' event ?b1"
    by (auto simp: reserve_change_def bindE_Inr_iff Let_def)
  have "c \<in> set cs" using find_Some [OF findE_find [OF c(2)]] by simp
  then have w: "wf_json c" using wf_children [OF c(1) assms(3)] by simp
  have w1: "wf_json ?b1" "wf_json (set_member ''attempt_id'' attempt_id c)"
    using wf_set_child [OF assms(3,4)] wf_set_member [OF w assms(4)] by simp_all
  from c(3) obtain e0 where e0:
      "ledger_event X L G ?b1 (set_member ''attempt_id'' attempt_id c) ''reservation'' issued_at (map (\<lambda>(k, v). (lit k, v)) ?own) = Inr e0"
      "envelope X L (lg_seed G) (lg_issuer G) (set_member ''reservation_id'' (member (member e0 ''body'') ''event_id'') (member e0 ''body'')) = Inr event"
    by (auto simp: reservation_event_def bindE_Inr_iff Let_def)
  have "wf_json e0"
    by (rule wf_ledger_event [OF e0(1) assms(2) w1 assms(6) refl])
      (use assms(5,6) in \<open>simp_all add: event_names_def bound_names_def\<close>)
  then have "wf_json event" by (intro wf_signed [OF e0(2) assms(2)] wf_set_member wf_member)
  then show ?thesis unfolding c(4) by (rule wf_set_child [OF w1(1)])
qed

end
