(* ===== verification/Publication.thy ===== *)
theory Publication
  imports Bookkeeping
begin

text \<open>
  What verification establishes of a published state, how a change replaces it, and the two promises of the
  ledger: its state is never torn, and what it committed never exceeds the budget.
\<close>

section \<open>What a verified report establishes\<close>

lemma has_exactly_get:
  assumes "has_exactly names v" "k \<in> set names"
  shows "\<exists>w. get_lit v k = Some w"
proof (cases v)
  case (JDict d)
  have "lit k \<in> set (keys d)" using assms JDict by (simp add: has_exactly_def)
  then have "map_of d (lit k) \<noteq> None" by (metis map_of_None_keys)
  with JDict show ?thesis by simp
qed (use assms in \<open>simp_all add: has_exactly_def\<close>)

lemma verified_child_kept:
  assumes "verify_child X trust b basis budget bd limits c seen = Inr seen'"
  shows "child_kept c"
proof -
  obtain ids attempts where seen: "seen = (ids, attempts)" by force
  from assms obtain r where r: "sub_lit c ''reservation'' = Inr r" "has_exactly (child_fields (r = JNull)) c"
    by (auto simp: verify_child_def seen bindE_Inr_iff)
  then obtain d p s where g: "get_lit c ''dispatch'' = Some d" "get_lit c ''completion'' = Some p" "get_lit c ''settlement'' = Some s"
    using has_exactly_get [OF r(2)] by (fastforce simp: child_fields_def split: if_splits)
  note sub = g [THEN get_lit_sub]
  have rec: "child_records c r d p s" using g sub_lit_dict [OF r(1)] by (simp add: child_records_def)
  show ?thesis
  proof (cases "r = JNull")
    case True
    with assms r(1) sub have "d = JNull" "p = JNull" "s = JNull"
      by (auto simp: verify_child_def seen bindE_Inr_iff verify_free_child_def)
    with rec show ?thesis unfolding child_kept_def by blast
  next
    case False
    with assms r(1) sub have "p = JNull \<or> d \<noteq> JNull" "s \<noteq> JNull \<longrightarrow> verify_settlement X c = Inr ()"
      by (auto simp: verify_child_def seen bindE_Inr_iff)
    moreover have "verify_settlement X c = Inr () \<Longrightarrow> p \<noteq> JNull"
      using sub(2) by (auto simp: verify_settlement_def bindE_Inr_iff)
    ultimately show ?thesis using rec False unfolding child_kept_def by blast
  qed
qed

lemma verified_children_kept:
  "verify_children X trust b basis budget bd limits cs seen = Inr seen' \<Longrightarrow> \<forall>c \<in> set cs. child_kept c"
proof (induction cs arbitrary: seen)
  case (Cons c cs)
  from Cons.prems obtain seen2 where s: "verify_child X trust b basis budget bd limits c seen = Inr seen2"
      "verify_children X trust b basis budget bd limits cs seen2 = Inr seen'"
    unfolding verify_children.simps bindE_Inr_iff by blast
  from verified_child_kept [OF s(1)] Cons.IH [OF s(2)] show ?case by simp
qed simp

lemma parent_ids:
  assumes "parent_binding X start_bytes basis = Inr e"
  obtains vs where "(lit ''expected_child_ids'', JList vs) \<in> set (items e)" "vs \<noteq> []"
proof -
  define pop where "pop s = (case get_lit s ''native_child_population'' of Some p \<Rightarrow> p | None \<Rightarrow> JDict [])" for s
  from assms obtain s ids u1 u2 where i: "must (case ids of JList vs \<Rightarrow> distinct_texts vs | _ \<Rightarrow> False) = Inr u1"
      "must (get_lit (pop s) ''state'' = Some (jlit ''DECLARED_BEFORE_DISPATCH'') \<and>
                    (case ids of JList vs \<Rightarrow> 0 < length vs \<and> length vs \<le> 128 | _ \<Rightarrow> False)) = Inr u2"
      "e = JDict [(lit ''task_key'', member s ''task_key''), (lit ''task_identity'', member s ''task_identity''),
              (lit ''parent_binding'', JDict [(lit ''operation_id'', member s ''operation_id''),
                 (lit ''attempt_id'', member s ''attempt_id''), (lit ''start_sha256'', JStr (sha256_hex X start_bytes)),
                 (lit ''basis_artifact'', basis)]),
              (lit ''expected_child_ids'', ids)]"
    unfolding parent_binding_def Let_def bindE_Inr_iff pop_def sum.inject by blast
  then have "(lit ''expected_child_ids'', ids) \<in> set (items e)" by simp
  moreover obtain vs where "ids = JList vs" "vs \<noteq> []" using i(2) by (cases ids) auto
  ultimately show thesis using that by blast
qed

lemma py_eq_list: "py_eq x (JList vs) \<longleftrightarrow> (\<exists>xs. x = JList xs \<and> length xs = length vs \<and> (\<forall>(v, w) \<in> set (zip xs vs). py_eq v w))"
  by (cases x) auto

lemma children_listed:
  assumes "child_list b = Inr cs" "\<forall>c \<in> set cs. child_kept c" "cs \<noteq> []"
  shows "get_lit b ''children'' = Some (JList cs)"
proof -
  from assms(1) obtain ch where ch: "sub_lit b ''children'' = Inr ch" "py_iter ch = Inr cs"
    by (auto simp: child_list_def bindE_Inr_iff)
  obtain c rest where "cs = c # rest" using assms(3) by (cases cs) auto
  with assms(2) have "is_dict c"
    unfolding child_kept_def child_records_def by (cases c) auto
  with ch(2) \<open>cs = c # rest\<close> have "ch = JList cs" by (cases ch) (auto simp: map_eq_Cons_conv)
  with sub_lit_dict [OF ch(1)] show ?thesis by simp
qed

lemma checked_report:
  assumes "check_report X report_bytes trust start_bytes basis budget_bytes minimum = Inr report"
    "load_json_bytes report_bytes = Inr record" "authenticate X record trust = Inr b"
  shows "well_kept b" and "\<exists>used. ledger_usage b = Inr used"
proof -
  from assms obtain expected bd budget limits cs ids seen u1 u2 used where
      e: "parent_binding X start_bytes basis = Inr expected"
        "forE (\<lambda>(k, v). bindE (subscript b k) (\<lambda>w. must (py_eq w v))) (items expected) = Inr u1"
      and c: "child_list b = Inr cs" "mapE (\<lambda>c. sub_lit c ''child_id'') cs = Inr ids"
        "same_field b ''expected_child_ids'' (JList ids) = Inr u2"
        "verify_children X trust b basis budget bd limits cs ([], []) = Inr seen"
      and u: "ledger_usage b = Inr used"
    unfolding check_report_def Let_def bindE_Inr_iff by fastforce
  from u show "\<exists>used. ledger_usage b = Inr used" by blast
  have kept: "\<forall>c \<in> set cs. child_kept c" by (rule verified_children_kept [OF c(4)])
  have "cs \<noteq> []"
  proof
    assume "cs = []"
    with c(2) have "ids = []" by simp
    with c(3) have x: "sub_lit b ''expected_child_ids'' = Inr (JList [])"
      by (auto simp: same_field_def bindE_Inr_iff py_eq_list)
    obtain vs where vs: "(lit ''expected_child_ids'', JList vs) \<in> set (items expected)" "vs \<noteq> []"
      by (rule parent_ids [OF e(1)])
    with e(2) have "bindE (sub_lit b ''expected_child_ids'') (\<lambda>w. must (py_eq w (JList vs))) = Inr ()"
      by (fastforce simp: forE_Inr_iff)
    with x vs(2) show False by (simp add: py_eq_list)
  qed
  from children_listed [OF c(1) kept this] kept show "well_kept b" by (auto simp: well_kept_def)
qed

lemma verify_report_Inr: "verify_report X r t s ba bu m = Inr v \<longleftrightarrow> check_report X r t s ba bu m = Inr v"
  by (auto simp: verify_report_def split: sum.splits exn.splits)

section \<open>What a change publishes\<close>

definition signed_body :: "externals \<Rightarrow> ledger \<Rightarrow> bytes \<Rightarrow> exn + json" where
  "signed_body X G b = bindE (load_json_bytes b) (\<lambda>record. authenticate X record (lg_trust G))"

lemma wf_signed_body: "signed_body X G p = Inr b \<Longrightarrow> wf_json b"
proof -
  assume "signed_body X G p = Inr b"
  then obtain doc where r: "load_json_bytes p = Inr doc" "authenticate X doc (lg_trust G) = Inr b"
    by (auto simp: signed_body_def bindE_Inr_iff)
  have "b = member doc ''body''" using r(2) unfolding authenticate_def bindE_Inr_iff by blast
  then show "wf_json b" using load_json_loadable(1) [OF r(1)] by (auto simp: loadable_def intro: wf_member)
qed

lemma wf_successor_body:
  assumes "wf_json b" "wf_json p"
  shows "wf_json (set_member ''previous_snapshot_sha256'' p (set_member ''revision'' (JInt n) b))"
  using assms by (intro wf_set_member) simp_all

lemma kept_successor_body:
  assumes "well_kept b" "solvent b"
  shows "well_kept (set_member ''previous_snapshot_sha256'' p (set_member ''revision'' r b))" (is "well_kept ?b")
    and "solvent (set_member ''previous_snapshot_sha256'' p (set_member ''revision'' r b))"
proof -
  from assms(1) obtain cs where g: "get_lit b ''children'' = Some (JList cs)" by (auto simp: well_kept_def)
  have d: "is_dict b" by (rule get_children_dict [OF g])
  then have g': "get_lit ?b ''children'' = Some (JList cs)" using g by simp
  then show "well_kept ?b" using assms(1) g by (auto simp: well_kept_def)
  have "budget_limits ?b = budget_limits b" using d by (simp add: budget_limits_def)
  moreover have "committed ?b k = committed b k" for k
    by (simp add: committed_def child_list_iff [OF g] child_list_iff [OF g'])
  ultimately show "solvent ?b" using assms(2) by (simp add: solvent_def)
qed

text \<open>The next reader of a published state finds the changed body, its members sorted.\<close>

lemma published_body:
  assumes "successor X L G prior b = Inr payload" "signed_body X G payload = Inr b'" "sound_signer X G"
    "wf_json b" "wf_json prior"
  shows "\<exists>p n. wf_json p \<and> b' = sort_json (set_member ''previous_snapshot_sha256'' p (set_member ''revision'' (JInt n) b))"
proof -
  from assms(1) obtain p n e where e: "sub_lit prior ''sha256'' = Inr p"
      "envelope X L (lg_seed G) (lg_issuer G) (set_member ''previous_snapshot_sha256'' p (set_member ''revision'' (JInt n) b)) = Inr e"
      "raw e = Inr payload"
    by (auto simp: successor_def bindE_Inr_iff split: option.splits)
  let ?b = "set_member ''previous_snapshot_sha256'' p (set_member ''revision'' (JInt n) b)"
  have "wf_json ?b" using e(1) assms(4,5) by (intro wf_successor_body) (auto dest: wf_read)
  then have w: "wf_json e" by (rule wf_signed [OF e(2) assms(3)])
  from assms(2) obtain doc where r: "load_json_bytes payload = Inr doc" "authenticate X doc (lg_trust G) = Inr b'"
    by (auto simp: signed_body_def bindE_Inr_iff)
  have "doc = sort_json e"
    using load_json_canonical [OF w e(3) [unfolded raw_def]] r(1) by (simp split: if_splits)
  moreover have "member e ''body'' = ?b" by (rule member_sub [OF envelope_body(1) [OF e(2)]])
  moreover have "b' = member doc ''body''" using r(2) unfolding authenticate_def bindE_Inr_iff by blast
  ultimately have "b' = sort_json ?b" using member_sort [OF w] by simp
  then show ?thesis using wf_read [OF e(1) assms(5)] by blast
qed

section \<open>Publication\<close>

lemma ledger_file_facts [simp]:
  "ledger_file home n = ledger_file home m \<longleftrightarrow> n = m" "butlast (ledger_file home n) = absolute home" "ledger_file home n \<noteq> []"
  "absolute home \<noteq> ledger_file home n"
  by (auto simp: ledger_file_def)

text \<open>The state is replaced in one step; before it only the pending file is there, whole or not.\<close>

lemma publish_state_ensures:
  fixes m :: "fs_path \<Rightarrow> entry option" and home :: ustr
  defines "pd \<equiv> ledger_file home ''pending.json''" and "st \<equiv> ledger_file home ''state.json''"
  assumes m: "m pd = None" "m st = Some (File old)"
  shows "ensures (\<lambda>t. map_of t = m) (publish_state home payload) (\<lambda>u t. map_of t = m(st \<mapsto> File payload)) (\<lambda>t. map_of t = m)
    (\<lambda>t. map_of t = m \<or> (\<exists>x. map_of t = m(pd \<mapsto> File x)))"
proof -
  have ne: "st \<noteq> pd" "pd \<noteq> st" by (simp_all add: pd_def st_def)
  have pa: "absolute home \<noteq> pd" "butlast pd = absolute home" "butlast st = absolute home" "pd \<noteq> []" "st \<noteq> []"
    by (simp_all add: pd_def st_def)
  let ?M = "\<lambda>x t. map_of t = m(pd \<mapsto> File x) \<and> m (absolute home) = Some Directory"
  let ?S = "\<lambda>t. map_of t = m \<or> (\<exists>x. map_of t = m(pd \<mapsto> File x))"
  have create: "ensures (\<lambda>t. map_of t = m) (callS (os_create pd)) (\<lambda>u. ?M []) (\<lambda>t. map_of t = m) ?S"
    by (rule ensures_call) (auto simp: os_create_Inr parent_ok_def pa dest: os_Inl)
  have "ensures (?M []) (callS (os_write pd payload)) (\<lambda>u. ?M payload) (\<lambda>t. map_of t = m) ?S"
    by (rule ensures_call) (auto simp: os_write_def)
  moreover have "ensures (?M payload) (callS (os_rename pd st)) (\<lambda>u t. map_of t = m(st \<mapsto> File payload)) (\<lambda>t. map_of t = m) ?S"
  proof (rule ensures_call)
    fix t t' assume t: "?M payload t" "os_rename pd st t = (Inr (), t')"
    have "map_of t' = (map_of t)(pd := None, st := Some (File payload))"
      using rename_file [OF t(2), of payload] t(1) ne by simp
    then show "map_of t' = m(st \<mapsto> File payload)" using t(1) m ne by (auto simp: fun_eq_iff)
  next
    fix t e t' assume t: "?M payload t" "os_rename pd st t = (Inl e, t')"
    then have "map_of t pd = Some (File payload)" "map_of t st = Some (File old)" "parent_ok t st"
      using m ne pa by (auto simp: parent_ok_def)
    with t(2) ne show "map_of t' = m" by (simp add: os_rename_def)
  qed auto
  ultimately show ?thesis
    unfolding publish_state_def fresh_file_def pd_def [symmetric] st_def [symmetric]
    by (intro ensures_bind [where M = "\<lambda>u. ?M payload"] ensures_bind [where M = "\<lambda>u. ?M []", OF create])
qed

lemma verified_state_Inr:
  assumes "verified_state X L G t = Inr b"
  shows "map_of t (ledger_file (lg_root G) ''pending.json'') = None"
    and "map_of t (ledger_file (lg_root G) ''state.json'') = Some (File b)"
    and "\<exists>report. verify_report X b (lg_trust G) (lg_start G) (lg_basis G) (lg_budget G) (JInt 0) = Inr report"
  using assms
  by (auto simp: verified_state_def check_locked_def read_state_def read_ledger_file_def bindE_Inr_iff
      split: option.splits entry.splits)

text \<open>What one change leaves of the tree, wherever it ends.\<close>

definition change_end ::
  "externals \<Rightarrow> ledger_host \<Rightarrow> ledger \<Rightarrow> (json \<Rightarrow> exn + json \<times> json) \<Rightarrow> fs \<Rightarrow> json outcome \<Rightarrow> fs \<Rightarrow> bool" where
  "change_end X L G action t r t' \<longleftrightarrow>
     (case r of
        Returned event \<Rightarrow> (\<exists>payload. changed X L G action t = Inr (event, payload) \<and>
          map_of t' = (map_of t)(ledger_file (lg_root G) ''state.json'' \<mapsto> File payload))
      | Raised e \<Rightarrow> map_of t' = map_of t
      | Stopped \<Rightarrow> map_of t' = map_of t \<or>
          (\<exists>x. map_of t' = (map_of t)(ledger_file (lg_root G) ''pending.json'' \<mapsto> File x) \<and>
               (\<forall>next. \<exists>e. changed X L G next t' = Inl e)))"

lemma pending_refuses:
  assumes "map_of t (ledger_file (lg_root G) ''pending.json'') = Some x"
  shows "\<exists>e. changed X L G action t = Inl e"
proof (cases "changed X L G action t")
  case (Inr v)
  then obtain b where "verified_state X L G t = Inr b" by (auto simp: changed_def bindE_Inr_iff)
  from verified_state_Inr(1) [OF this] assms show ?thesis by simp
qed simp

lemma change_ledger_end:
  assumes "change_ledger X L G action h = (r, h')"
  shows "change_end X L G action (h_fs h) r (h_fs h')"
proof (cases "changed X L G action (h_fs h)")
  case (Inl e)
  with assms have "r = Raised e \<and> h' = h" by (auto simp: change_ledger_def bindS_def readS_def)
  then show ?thesis by (simp add: change_end_def)
next
  case (Inr p)
  obtain event payload where p: "p = (event, payload)" by force
  let ?m = "map_of (h_fs h)" and ?st = "ledger_file (lg_root G) ''state.json''" and ?pd = "ledger_file (lg_root G) ''pending.json''"
  from Inr obtain b where "verified_state X L G (h_fs h) = Inr b" by (auto simp: changed_def bindE_Inr_iff)
  note v = verified_state_Inr(1,2) [OF this]
  obtain r1 where r1: "publish_state (lg_root G) payload h = (r1, h')"
      "r = (case r1 of Returned u \<Rightarrow> Returned event | Raised e \<Rightarrow> Raised e | Stopped \<Rightarrow> Stopped)"
    using assms Inr p
    by (cases "publish_state (lg_root G) payload h")
      (auto simp: change_ledger_def bindS_def readS_def returnS_def split: outcome.splits)
  from ensuresD [OF publish_state_ensures [OF v] refl r1(1)]
  show ?thesis
    using r1(2) Inr p by (auto simp: change_end_def intro!: pending_refuses split: outcome.splits)
qed

section \<open>The books stay in order\<close>

definition keeps_books :: "externals \<Rightarrow> ledger \<Rightarrow> (json \<Rightarrow> exn + json \<times> json) \<Rightarrow> bool" where
  "keeps_books X G action \<longleftrightarrow>
     (\<forall>b used b' event. wf_json b \<longrightarrow> ledger_usage b = Inr used \<longrightarrow> well_kept b \<longrightarrow> solvent b \<longrightarrow>
        action b = Inr (b', event) \<longrightarrow> wf_json b' \<and> well_kept b' \<and> solvent b')"

definition solvent_state :: "externals \<Rightarrow> ledger \<Rightarrow> fs \<Rightarrow> bool" where
  "solvent_state X G t \<longleftrightarrow>
     (\<forall>p b. map_of t (ledger_file (lg_root G) ''state.json'') = Some (File p) \<longrightarrow> signed_body X G p = Inr b \<longrightarrow> solvent b)"

lemma solvent_state_cong:
  "map_of t' (ledger_file (lg_root G) ''state.json'') = map_of t (ledger_file (lg_root G) ''state.json'') \<Longrightarrow>
     solvent_state X G t' = solvent_state X G t"
  by (simp add: solvent_state_def)

lemma changed_solvent:
  assumes "changed X L G action t = Inr (event, payload)" "keeps_books X G action" "sound_signer X G" "solvent_state X G t"
    and b': "signed_body X G payload = Inr b'"
  shows "solvent b'"
proof -
  from assms(1) obtain bytes prior b b1 where c: "verified_state X L G t = Inr bytes" "load_json_bytes bytes = Inr prior"
      "authenticate X prior (lg_trust G) = Inr b" "action b = Inr (b1, event)" "successor X L G prior b1 = Inr payload"
    by (auto simp: changed_def bindE_Inr_iff)
  have s: "signed_body X G bytes = Inr b" using c(2,3) by (simp add: signed_body_def)
  have wf: "wf_json b" by (rule wf_signed_body [OF s])
  from verified_state_Inr(3) [OF c(1)] obtain report where
      "check_report X bytes (lg_trust G) (lg_start G) (lg_basis G) (lg_budget G) (JInt 0) = Inr report"
    by (auto simp: verify_report_Inr)
  note k = checked_report [OF this c(2,3)]
  have "solvent b" using assms(4) verified_state_Inr(2) [OF c(1)] s by (simp add: solvent_state_def)
  with assms(2) c(4) wf k have b1: "wf_json b1" "well_kept b1" "solvent b1"
    unfolding keeps_books_def by blast+
  have wp: "wf_json prior" using load_json_loadable(1) [OF c(2)] by (simp add: loadable_def)
  obtain p n where "wf_json p" "b' = sort_json (set_member ''previous_snapshot_sha256'' p (set_member ''revision'' (JInt n) b1))"
    using published_body [OF c(5) b' assms(3) b1(1) wp] by blast
  with kept_sort(2) [OF wf_successor_body kept_successor_body] b1 show "solvent b'" by simp
qed

lemma change_ledger_solvent:
  assumes "keeps_books X G action" "sound_signer X G" "solvent_state X G (h_fs h)"
  shows "solvent_state X G (h_fs (snd (change_ledger X L G action h)))"
proof -
  obtain r h' where r: "change_ledger X L G action h = (r, h')" by force
  note e = change_ledger_end [OF r]
  let ?st = "ledger_file (lg_root G) ''state.json''"
  show ?thesis
  proof (cases r)
    case (Returned event)
    with e obtain payload where p: "changed X L G action (h_fs h) = Inr (event, payload)"
        "map_of (h_fs h') = (map_of (h_fs h))(?st \<mapsto> File payload)"
      by (auto simp: change_end_def)
    with changed_solvent [OF p(1) assms] r show ?thesis by (simp add: solvent_state_def)
  next
    case (Raised x)
    with e r assms(3) show ?thesis by (simp add: change_end_def solvent_state_def)
  next
    case Stopped
    then have "map_of (h_fs h') ?st = map_of (h_fs h) ?st" using e by (auto simp: change_end_def)
    from solvent_state_cong [OF this] r assms(3) show ?thesis by simp
  qed
qed

text \<open>The calls of the class, each run by a process that the host may stop after any effect.\<close>

datatype ledger_call =
    CallReserve json json pyval json
  | CallDispatch json json
  | CallComplete json json pyval json json
  | CallSettle json json json

fun run_call :: "externals \<Rightarrow> ledger_host \<Rightarrow> ledger \<Rightarrow> ledger_call \<Rightarrow> json io" where
  "run_call X L G (CallReserve child_id attempt_id rows when) = reserve X L G child_id attempt_id rows when"
| "run_call X L G (CallDispatch reservation_id when) = dispatch_record X L G reservation_id when"
| "run_call X L G (CallComplete reservation_id service rows observed when) =
     complete_record X L G reservation_id service rows observed when"
| "run_call X L G (CallSettle reservation_id completion_sha256 when) = settle X L G reservation_id completion_sha256 when"

fun after_calls :: "externals \<Rightarrow> ledger_host \<Rightarrow> ledger \<Rightarrow> (ledger_call \<times> nat option) list \<Rightarrow> fs \<Rightarrow> fs" where
  "after_calls X L G [] t = t"
| "after_calls X L G ((call, left) # calls) t =
     after_calls X L G calls (h_fs (snd (run_call X L G call \<lparr>h_fs = t, h_left = left\<rparr>)))"

text \<open>Python's strings and dictionaries are well formed by construction.\<close>

fun python_values :: "ledger_call \<Rightarrow> bool" where
  "python_values (CallReserve child_id attempt_id rows when) = (wf_json attempt_id \<and> wf_json when)"
| "python_values (CallDispatch reservation_id when) = (wf_json reservation_id \<and> wf_json when)"
| "python_values (CallComplete reservation_id service rows observed when) =
     (wf_json reservation_id \<and> wf_json service \<and> wf_json observed \<and> wf_json when)"
| "python_values (CallSettle reservation_id completion_sha256 when) =
     (wf_json reservation_id \<and> wf_json completion_sha256 \<and> wf_json when)"

lemma wf_canonical_rows: "canonical_rows v = Inr rows \<Longrightarrow> wf_json rows"
  using load_json_loadable(1) by (auto simp: canonical_rows_def bindE_Inr_iff loadable_def)

lemma read_then_solvent:
  assumes "\<And>x. f (h_fs h) = Inr x \<Longrightarrow> solvent_state X G (h_fs (snd (m x h)))" "solvent_state X G (h_fs h)"
  shows "solvent_state X G (h_fs (snd (bindS (readS f) m h)))"
  using assms by (cases "f (h_fs h)") (simp_all add: bindS_def readS_def)

lemma run_call_solvent:
  assumes "python_values call" "sound_signer X G" "solvent_state X G (h_fs h)"
  shows "solvent_state X G (h_fs (snd (run_call X L G call h)))"
proof (cases call)
  case (CallReserve child_id attempt_id v moment)
  then have w: "wf_json attempt_id" "wf_json moment" using assms(1) by simp_all
  have "keeps_books X G (reserve_change X L G child_id attempt_id rows requested moment)"
    if "canonical_rows v = Inr rows" "axes rows ''reserved_amount'' = Inr requested" for rows requested
    using reserve_solvent [OF _ that(2)] wf_reserve [OF _ assms(2) _ w(1) wf_canonical_rows [OF that(1)] w(2)]
    unfolding keeps_books_def by blast
  then show ?thesis using assms(2,3)
    by (auto simp: CallReserve reserve_def bindE_Inr_iff intro!: read_then_solvent change_ledger_solvent)
next
  case (CallDispatch reservation_id moment)
  then have w: "wf_json reservation_id" "wf_json moment" using assms(1) by simp_all
  have "keeps_books X G (dispatch_change X L G reservation_id moment)"
    using dispatch_solvent wf_dispatch [OF _ assms(2) _ w] unfolding keeps_books_def by blast
  then show ?thesis using assms(2,3) by (auto simp: CallDispatch dispatch_record_def intro!: change_ledger_solvent)
next
  case (CallComplete reservation_id service v observed moment)
  then have w: "wf_json reservation_id" "wf_json moment" "wf_json service" "wf_json observed" using assms(1) by simp_all
  have "keeps_books X G (complete_change X L G reservation_id service rows measured observed moment)"
    if "canonical_rows v = Inr rows" for rows measured
    using complete_solvent wf_complete [OF _ assms(2) _ w(1-3) wf_canonical_rows [OF that] w(4)]
    unfolding keeps_books_def by blast
  then show ?thesis using assms(2,3)
    by (auto simp: CallComplete complete_record_def check_observation_def Let_def bindE_Inr_iff
        intro!: read_then_solvent change_ledger_solvent)
next
  case (CallSettle reservation_id completion_sha256 moment)
  then have w: "wf_json reservation_id" "wf_json moment" "wf_json completion_sha256" using assms(1) by simp_all
  have "keeps_books X G (settle_change X L G reservation_id completion_sha256 moment)"
    using settle_solvent wf_settle [OF _ assms(2) _ w] unfolding keeps_books_def by blast
  then show ?thesis using assms(2,3) by (auto simp: CallSettle settle_def intro!: change_ledger_solvent)
qed

lemma after_calls_solvent:
  "list_all (\<lambda>(c, left). python_values c) calls \<Longrightarrow> sound_signer X G \<Longrightarrow> solvent_state X G t \<Longrightarrow>
     solvent_state X G (after_calls X L G calls t)"
proof (induction calls arbitrary: t)
  case (Cons c calls)
  obtain call left where c: "c = (call, left)" by force
  have "solvent_state X G (h_fs (snd (run_call X L G call \<lparr>h_fs = t, h_left = left\<rparr>)))"
    using Cons.prems c by (intro run_call_solvent) simp_all
  with Cons c show ?case by simp
qed simp

text \<open>What the completions of a body measured beyond their own reservations.\<close>

definition overruns :: "json \<Rightarrow> ustr \<Rightarrow> rat" where
  "overruns b k = (case child_list b of Inr cs \<Rightarrow> \<Sum>c \<leftarrow> cs. overrun c k | Inl e \<Rightarrow> 0)"

lemma used_committed:
  assumes "ledger_usage b = Inr used" "map_of used k = Some u"
  shows "u = committed b k + overruns b k"
proof -
  from assms(1) obtain zero cs where z: "usage_frame b = Inr zero" "child_list b = Inr cs"
      "used = raised_by (\<lambda>k. \<Sum>c \<leftarrow> cs. exposed c k) zero"
    by (auto simp: ledger_usage_iff)
  then have "u = (\<Sum>c \<leftarrow> cs. exposed c k)" using assms(2) usage_frame_zero by (auto simp: map_of_raised)
  also have "\<dots> = (\<Sum>c \<leftarrow> cs. charged c k) + (\<Sum>c \<leftarrow> cs. overrun c k)"
    by (simp add: charged_overrun sum_list_addf)
  finally show ?thesis using z(2) by (simp add: committed_def overruns_def)
qed

section \<open>The first state, and how deep a state may nest\<close>

lemma free_child_facts: "sub_lit (free_child i) ''reservation'' = Inr JNull" "child_kept (free_child i)"
  "sub_lit (free_child i) ''completion'' = Inr JNull"
proof -
  have "child_records (free_child i) JNull JNull JNull JNull" by (simp add: child_records_def free_child_def)
  then show "sub_lit (free_child i) ''reservation'' = Inr JNull" "child_kept (free_child i)"
    "sub_lit (free_child i) ''completion'' = Inr JNull"
    unfolding child_kept_def by (auto simp: free_child_def)
qed

text \<open>The body that \<open>create\<close> publishes commits nothing.\<close>

lemma initial_body_solvent:
  assumes "keys (items bound) = map lit [''task_key'', ''task_identity'', ''parent_binding'', ''expected_child_ids'']"
  shows "well_kept (initial_body X bound budget bd)" and "solvent (initial_body X bound budget bd)"
proof -
  let ?b = "initial_body X bound budget bd"
  let ?cs = "map free_child (case member bound ''expected_child_ids'' of JList ids \<Rightarrow> ids | _ \<Rightarrow> [])"
  have "map_of (items bound) (lit ''children'') = None" using assms by (simp add: map_of_None_keys)
  then have g: "get_lit ?b ''children'' = Some (JList ?cs)" by (simp add: initial_body_def map_add_def)
  then show "well_kept ?b" using free_child_facts(2) by (auto simp: well_kept_def)
  have "committed ?b k = 0" for k
    using free_child_facts(1,3) by (simp add: committed_def child_list_iff [OF g] comp_def charged_def overrun_def sum_list_0)
  moreover have "0 \<le> l" if "budget_limits ?b = Inr limits" "known limits k = Some l" for limits k l
  proof -
    have "fair limits" using that(1) by (auto simp: budget_limits_def bindE_Inr_iff intro: axes_fair)
    with that(2) show ?thesis by (auto simp: fair_def known_def split: option.splits dest: map_of_SomeD)
  qed
  ultimately show "solvent ?b" by (simp add: solvent_def)
qed

text \<open>
  An envelope is published whatever its nesting, but the loader reads it back only where its content nests at
  most 63 levels: a reservation copies the task's identity three levels deeper than the budget in the body that
  \<open>create\<close> published, and where that is too deep no operation accepts the state after it.
\<close>

lemma state_reloads_iff:
  assumes "envelope X L seed issuer content = Inr e" "raw e = Inr payload" "wf_json e"
  shows "returned (load_json_bytes payload) \<longleftrightarrow> jdepth content \<le> 63"
proof -
  from assms(1) obtain s d where e: "e = JDict [(lit ''issuer_identity'', JStr issuer), (lit ''producer_identity'', producer X L),
      (lit ''body'', content), (lit ''signature'', JStr (hex_of s)), (lit ''sha256'', JStr d)]"
    by (auto simp: envelope_def with_digest_def bindE_Inr_iff Let_def split: option.splits)
  have "jdepth e \<le> max_depth \<longleftrightarrow> jdepth content \<le> 63"
    by (auto simp: e producer_def max_depth_def)
  then show ?thesis using load_json_canonical [OF assms(3) assms(2) [unfolded raw_def]] by (simp add: returned_def)
qed

section \<open>A sample ledger\<close>

definition sample_ledger_host :: ledger_host where
  "sample_ledger_host = \<lparr>ch_plain = \<lambda>n. True, ch_links = \<lambda>n. 1, ch_duplicate = \<lambda>fd. None, ch_descriptor = \<lambda>fd. None,
     lh_source = [], lh_public = \<lambda>k. Some []\<rparr>"

definition sample_ledger :: ledger where
  "sample_ledger = \<lparr>lg_root = lit ''/l'', lg_seed = [], lg_issuer = lit ''i'',
     lg_trust = JDict [(lit ''i'', JDict [(lit ''producer_identity'', producer sample_externals sample_ledger_host), (lit ''public_key_hex'', JStr [])])],
     lg_start = [], lg_basis = JNull, lg_budget = []\<rparr>"

definition sample_axis :: "string \<Rightarrow> string \<Rightarrow> json" where
  "sample_axis field v = JDict [(lit ''aggregation'', jlit ''SUM''), (lit ''axis_id'', jlit ''captured_console_bytes''), (lit field, jlit v),
     (lit ''scope'', jlit ''DIRECT_CHILD_CAPTURED_OUTPUT''), (lit ''unit'', jlit ''byte'')]"

text \<open>A body with a budget of ten bytes and a child that holds four of them.\<close>

definition sample_ledger_body :: json where
  "sample_ledger_body = JDict [(lit ''authority_granted'', JBool False),
     (lit ''budget'', JDict [(lit ''resource_rows'', JList [sample_axis ''limit'' ''10''])]),
     (lit ''children'', JList [JDict [(lit ''completion'', JNull), (lit ''dispatch'', JNull),
        (lit ''reservation'', JDict [(lit ''body'', JDict [(lit ''resource_rows'', JList [sample_axis ''reserved_amount'' ''4''])])]),
        (lit ''settlement'', JNull)]])]"

lemma sample_amounts: "amount (jlit ''10'') = Inr 10" "amount (jlit ''4'') = Inr 4"
  by code_simp+

lemma sample_axes:
  "axes (JList [sample_axis ''limit'' ''10'']) ''limit'' = Inr [(lit ''captured_console_bytes'', Some 10)]"
  "axes (JList [sample_axis ''reserved_amount'' ''4'']) ''reserved_amount'' = Inr [(lit ''captured_console_bytes'', Some 4)]"
  by code_simp+

lemma sample_usage:
  "ledger_usage sample_ledger_body = Inr [(lit ''captured_console_bytes'', 4)]"
  "budget_limits sample_ledger_body = Inr [(lit ''captured_console_bytes'', Some 10)]"
  "committed sample_ledger_body (lit ''captured_console_bytes'') = 4"
  by code_simp+

lemma sample_solvent: "solvent sample_ledger_body"
  unfolding solvent_def sample_usage(2) by (auto simp: known_def sample_usage(3) split: if_splits)

definition sample_signed_by :: "json \<Rightarrow> json" where
  "sample_signed_by content = JDict [(lit ''body'', content), (lit ''issuer_identity'', jlit ''i''),
     (lit ''producer_identity'', sort_json (producer sample_externals sample_ledger_host)),
     (lit ''sha256'', JStr (replicate 64 48)), (lit ''signature'', JStr (replicate 128 48))]"

definition sample_trust :: json where
  "sample_trust = lg_trust sample_ledger"

definition sample_record :: json where
  "sample_record = sample_signed_by sample_ledger_body"

definition sample_state :: bytes where
  "sample_state = concat (map encode_char (jtext sample_record))"

lemma sample_canonical:
  assumes "wf_json v" "canon_ok v"
  shows "custody_digest sample_externals v = Inr (replicate 64 48)" and "\<exists>m. raw v = Inr m"
proof -
  have "canonical_bytes (py v) = Inr (concat (map encode_char (jtext v)))"
    using canonical_bytes_iff [OF assms(1)] assms(2) by simp
  then show "custody_digest sample_externals v = Inr (replicate 64 48)" "\<exists>m. raw v = Inr m"
    by (simp_all add: custody_digest_def raw_def sample_externals_def)
qed

lemma no_surrogate_lit [simp]: "no_surrogate (lit s)"
  using lit_code_points [of _ s] by (fastforce simp: no_surrogate_def is_surrogate_def)

lemma sample_texts [simp]: "wf_str (replicate n 48)" "no_surrogate (replicate n 48)" "wf_str []" "no_surrogate []"
  by (auto simp: wf_str_def no_surrogate_def is_surrogate_def list_all_iff)

lemma sample_well_formed:
  "wf_json (sample_axis field v)" "canon_ok (sample_axis field v)" if "field \<notin> {''aggregation'', ''axis_id'', ''scope'', ''unit''}"
  using that by (auto simp: sample_axis_def keys_def)

lemma sample_producer: "wf_json (sort_json (producer sample_externals sample_ledger_host))"
  "canon_ok (sort_json (producer sample_externals sample_ledger_host))" "jdepth (sort_json (producer sample_externals sample_ledger_host)) = 1"
proof -
  have "wf_json (producer sample_externals sample_ledger_host)" "canon_ok (producer sample_externals sample_ledger_host)"
    "jdepth (producer sample_externals sample_ledger_host) = 1"
    by (simp_all add: producer_def keys_def sample_externals_def)
  then show "wf_json (sort_json (producer sample_externals sample_ledger_host))"
    "canon_ok (sort_json (producer sample_externals sample_ledger_host))" "jdepth (sort_json (producer sample_externals sample_ledger_host)) = 1"
    by (simp_all only: wf_sort canon_ok_sort jdepth_sort)
qed

lemma sample_record_well_formed: "wf_json sample_record" "canon_ok sample_record" "jdepth sample_record \<le> max_depth"
  "wf_json sample_ledger_body" "canon_ok sample_ledger_body"
proof -
  show "wf_json sample_ledger_body" "canon_ok sample_ledger_body"
    by (simp_all add: sample_ledger_body_def keys_def sample_well_formed)
  moreover have "jdepth sample_ledger_body \<le> 10" by (simp add: sample_ledger_body_def sample_axis_def)
  ultimately show "wf_json sample_record" "canon_ok sample_record" "jdepth sample_record \<le> max_depth"
    using sample_producer by (simp_all add: sample_record_def sample_signed_by_def keys_def max_depth_def)
qed

lemma sample_signed_sort: "sort_json (sample_signed_by content) = sample_signed_by (sort_json content)"
proof -
  let ?d = "[(lit ''body'', sort_json content), (lit ''issuer_identity'', jlit ''i''),
     (lit ''producer_identity'', sort_json (producer sample_externals sample_ledger_host)),
     (lit ''sha256'', JStr (replicate 64 48)), (lit ''signature'', JStr (replicate 128 48))]"
  have "sorted (map lit [''body'', ''issuer_identity'', ''producer_identity'', ''sha256'', ''signature''])" by code_simp
  then have "sorted (map fst ?d)" by simp
  then have "sort_key fst ?d = ?d" by (rule sort_key_id_if_sorted)
  then show ?thesis by (simp add: sample_signed_by_def)
qed

lemma sample_authentic:
  assumes "wf_json content" "canon_ok content" "is_dict content" "get_lit content ''authority_granted'' = Some (JBool False)"
  shows "authenticate sample_externals (sample_signed_by content) sample_trust = Inr content"
proof -
  let ?r = "sample_signed_by content"
  have m: "member ?r ''body'' = content" "member ?r ''issuer_identity'' = jlit ''i''"
    "member ?r ''producer_identity'' = sort_json (producer sample_externals sample_ledger_host)"
    "member ?r ''sha256'' = JStr (replicate 64 48)" "member ?r ''signature'' = JStr (replicate 128 48)"
    by (simp_all add: sample_signed_by_def member_def)
  have w: "wf_json (JDict (signed_message ?r @ [(lit ''signature'', member ?r ''signature'')]))"
    "canon_ok (JDict (signed_message ?r @ [(lit ''signature'', member ?r ''signature'')]))"
    "wf_json (JDict (signed_message ?r))" "canon_ok (JDict (signed_message ?r))"
    using assms(1,2) sample_producer by (simp_all add: signed_message_def m keys_def)
  obtain x where "raw (JDict (signed_message ?r)) = Inr x" using sample_canonical(2) [OF w(3,4)] by blast
  moreover have "from_hex (replicate 128 48) = Some (replicate 64 0)" by code_simp
  moreover have t: "get_lit (trust_entry sample_trust (jlit ''i'')) ''public_key_hex'' = Some (JStr [])"
    "is_dict (trust_entry sample_trust (jlit ''i''))"
    "py_eq (member (trust_entry sample_trust (jlit ''i'')) ''producer_identity'') (sort_json (producer sample_externals sample_ledger_host))"
    by code_simp+
  ultimately have "signature_holds sample_externals (trust_entry sample_trust (jlit ''i'')) (member ?r ''signature'') (JDict (signed_message ?r))"
    by (simp add: signature_holds_def m(5) sample_externals_def)
  moreover have "has_exactly [''issuer_identity'', ''producer_identity'', ''body'', ''signature'', ''sha256''] ?r"
    by (auto simp: sample_signed_by_def has_exactly_def keys_def)
  ultimately show ?thesis
    using sample_canonical(1) [OF w(1,2)] t assms(3,4) by (simp add: authenticate_def check_signer_def must_hash_def m)
qed

lemma sample_signed: "signed_body sample_externals sample_ledger sample_state = Inr sample_ledger_body"
proof -
  note w = sample_record_well_formed
  have f: "sort_json sample_ledger_body = sample_ledger_body" "is_dict sample_ledger_body"
    "get_lit sample_ledger_body ''authority_granted'' = Some (JBool False)"
    by code_simp+
  have "load_json_bytes sample_state = Inr (sort_json sample_record)"
    using load_json_canonical [OF w(1), of sample_state] w by (simp add: canonical_bytes_iff sample_state_def)
  then show ?thesis
    using sample_authentic [OF w(4,5) f(2,3)] f(1)
    by (simp add: signed_body_def sample_record_def sample_signed_sort sample_trust_def)
qed

section \<open>Properties\<close>

text \<open>
  C8. The child ledger never commits more than its budget: from a published state that is within its limits in this
  sense, after any sequence of its calls, whatever they are given and wherever the host stops each, the exposure
  that the published state computes for an axis is at most the limit, plus the sum over the children of what
  the measured amounts of their completions exceed their own reservations by. A settlement cannot add to it.
\<close>

theorem ledger_never_overcommits:
  assumes "sound_signer X G" "list_all (\<lambda>(c, left). python_values c) calls"
    "map_of t (ledger_file (lg_root G) ''state.json'') = Some (File p0)" "signed_body X G p0 = Inr b0" "solvent b0"
    "map_of (after_calls X L G calls t) (ledger_file (lg_root G) ''state.json'') = Some (File p)"
    "signed_body X G p = Inr b" "ledger_usage b = Inr used" "budget_limits b = Inr limits"
    "map_of used k = Some u" "known limits k = Some l"
  shows "u \<le> l + overruns b k"
proof -
  have "solvent_state X G t" using assms(3-5) by (simp add: solvent_state_def)
  from after_calls_solvent [OF assms(2,1) this] have "solvent b" using assms(6,7) by (auto simp: solvent_state_def)
  then have "committed b k \<le> l" using assms(9,11) by (simp add: solvent_def)
  with used_committed [OF assms(8,10)] show ?thesis by simp
qed

theorem ledger_never_overcommits_witness:
  "let calls = [(CallDispatch (jlit ''r'') (jlit ''t''), Some 3), (CallReserve (jlit ''c'') (jlit ''a'') (PStr []) (jlit ''t''), None)];
       t = [(ledger_file (lit ''/l'') ''state.json'', File sample_state)]
   in map_of (after_calls sample_externals sample_ledger_host sample_ledger calls t) (ledger_file (lit ''/l'') ''state.json'') = Some (File sample_state) \<and>
      4 \<le> 10 + overruns sample_ledger_body (lit ''captured_console_bytes'')"
proof -
  let ?t = "[(ledger_file (lit ''/l'') ''state.json'', File sample_state)]"
  let ?calls = "[(CallDispatch (jlit ''r'') (jlit ''t''), Some 3), (CallReserve (jlit ''c'') (jlit ''a'') (PStr []) (jlit ''t''), None)]"
  let ?X = sample_externals and ?L = sample_ledger_host and ?G = sample_ledger
  have root: "lg_root ?G = lit ''/l''" by (simp add: sample_ledger_def)
  have no: "\<exists>e. changed ?X ?L ?G action ?t = Inl e" for action
    by (simp add: changed_def verified_state_def check_locked_def root)
  have stay: "h_fs (snd (change_ledger ?X ?L ?G action \<lparr>h_fs = ?t, h_left = left\<rparr>)) = ?t" for action left
    using no [of action] by (auto simp: change_ledger_def bindS_def readS_def)
  have "canonical_bytes (py (JStr [])) = Inr (concat (map encode_char (jtext (JStr []))))"
    by (subst canonical_bytes_iff) simp_all
  from load_json_canonical [OF _ this] this have "canonical_rows (PStr []) = Inr (JStr [])"
    by (simp add: canonical_rows_def)
  then have "h_fs (snd (run_call ?X ?L ?G (CallReserve (jlit ''c'') (jlit ''a'') (PStr []) (jlit ''t'')) \<lparr>h_fs = ?t, h_left = None\<rparr>)) = ?t"
    by (simp add: reserve_def axes_def raiseS_def)
  then have after: "after_calls ?X ?L ?G ?calls ?t = ?t" by (simp add: dispatch_record_def stay)
  have "sound_signer ?X ?G"
    using sample_hash by (simp add: sound_signer_def signs_bytes_def sample_ledger_def) (simp add: sample_externals_def)
  moreover have "list_all (\<lambda>(c, left). python_values c) ?calls" by simp
  moreover have "map_of ?t (ledger_file (lg_root ?G) ''state.json'') = Some (File sample_state)" by (simp add: root)
  moreover from this have "map_of (after_calls ?X ?L ?G ?calls ?t) (ledger_file (lg_root ?G) ''state.json'') = Some (File sample_state)"
    unfolding after .
  moreover have "map_of [(lit ''captured_console_bytes'', 4 :: rat)] (lit ''captured_console_bytes'') = Some 4"
    "known [(lit ''captured_console_bytes'', Some 10)] (lit ''captured_console_bytes'') = Some 10"
    by (simp_all add: known_def)
  ultimately have "4 \<le> 10 + overruns sample_ledger_body (lit ''captured_console_bytes'')"
    using sample_signed sample_solvent sample_usage(1,2) by (intro ledger_never_overcommits)
  with after show ?thesis by (simp only: Let_def) (simp only: map_of.simps fst_conv snd_conv fun_upd_same simp_thms root)
qed

text \<open>
  C9. The ledger's state is never torn: a change that returns has replaced the published state by the bytes it
  decided on and changed nothing else; one that raises has changed nothing; and where the host stops, the
  published state is the old one, beside at most a pending file that every later change refuses.
\<close>

theorem ledger_state_never_torn:
  "case change_ledger X L G action h of (r, h') \<Rightarrow> change_end X L G action (h_fs h) r (h_fs h')"
  using change_ledger_end by (simp split: prod.split)

end
