(* ===== verification/Evidence.thy ===== *)
theory Evidence
  imports Publication
begin

text \<open>
  \<^verbatim>\<open>src/vfy/evidence\<close>: the two local adapters, over the tree below the adapter's root, whose path \<open>[]\<close> is the
  root itself. Whether an open succeeds and what a command does are functions of the host. A tree that does
  not change between two steps has no race for \<open>O_NOFOLLOW\<close> to close, and without a link on its way a path
  is its own resolution.
\<close>

section \<open>Acquisition results\<close>

definition status_ok :: ustr where "status_ok = lit ''ok''"
definition status_missing :: ustr where "status_missing = lit ''missing''"
definition status_error :: ustr where "status_error = lit ''error''"

record acquisition_result =
  aq_id :: ustr
  aq_status :: ustr
  aq_acquired_at :: ustr
  aq_canonical :: "ustr option"

text \<open>\<open>value()\<close>: \<open>None\<close> when nothing was observed.\<close>

definition acquisition_value :: "acquisition_result \<Rightarrow> exn + json option" where
  "acquisition_value r =
     (case aq_canonical r of
        None \<Rightarrow> Inr None
      | Some c \<Rightarrow> bindE (reload c) (\<lambda>v. Inr (Some v)))"

definition as_acquisition :: "acquisition_result \<Rightarrow> exn + json" where
  "as_acquisition r =
     bindE (acquisition_value r) (\<lambda>v.
     Inr (JDict ([(lit ''id'', JStr (aq_id r)), (lit ''status'', JStr (aq_status r)),
                  (lit ''acquired_at'', JStr (aq_acquired_at r))]
                 @ (case v of None \<Rightarrow> [] | Some w \<Rightarrow> [(lit ''value'', w)]))))"

definition observed :: "ustr \<Rightarrow> ustr \<Rightarrow> json \<Rightarrow> exn + acquisition_result" where
  "observed identifier acquired_at v =
     bindE (canon_json v) (\<lambda>c.
     Inr \<lparr>aq_id = identifier, aq_status = status_ok, aq_acquired_at = acquired_at, aq_canonical = Some c\<rparr>)"

definition unavailable :: "ustr \<Rightarrow> ustr \<Rightarrow> ustr \<Rightarrow> acquisition_result" where
  "unavailable identifier acquired_at status =
     \<lparr>aq_id = identifier, aq_status = status, aq_acquired_at = acquired_at, aq_canonical = None\<rparr>"

section \<open>Declarations and paths\<close>

definition max_argument_length :: nat where
  "max_argument_length = 4096"

definition check_declaration :: "json \<Rightarrow> string \<Rightarrow> exn + ustr \<times> ustr" where
  "check_declaration declaration expected_source =
     (if \<not> is_dict declaration then fail EvidenceAdapterConfigInvalid ''An evidence declaration must be a mapping.''
      else (case get_lit declaration ''id'' of
        Some (JStr identifier) \<Rightarrow>
          if identifier = [] then fail EvidenceAdapterConfigInvalid ''An evidence declaration needs a non-empty string id.''
          else if get_lit declaration ''source'' \<noteq> Some (jlit expected_source)
          then fail_with EvidenceAdapterConfigInvalid ''This adapter reads another source: '' identifier
          else (case get_lit declaration ''ref'' of
            Some (JStr ref) \<Rightarrow>
              if ref = [] then fail_with EvidenceAdapterConfigInvalid ''A declaration needs a non-empty ref: '' identifier
              else Inr (identifier, ref)
          | _ \<Rightarrow> fail_with EvidenceAdapterConfigInvalid ''A declaration needs a non-empty ref: '' identifier)
      | _ \<Rightarrow> fail EvidenceAdapterConfigInvalid ''An evidence declaration needs a non-empty string id.''))"

definition check_acquired_at :: "json \<Rightarrow> exn + ustr" where
  "check_acquired_at acquired_at =
     (case acquired_at of
        JStr s \<Rightarrow>
          if is_date_time s then Inr s
          else fail EvidenceAdapterConfigInvalid ''acquired_at must be a date-time string in the frozen grammar.''
      | _ \<Rightarrow> fail EvidenceAdapterConfigInvalid ''acquired_at must be a date-time string in the frozen grammar.'')"

text \<open>The adapter's root as the caller passes it; the text is that of its resolution.\<close>

datatype adapter_root = RootNotAPath | RootAt ustr

text \<open>\<open>Path(ref).parts\<close> of a relative path, with \<open>.\<close> dropped; \<open>..\<close> takes back the part before it.\<close>

definition path_parts :: "ustr \<Rightarrow> ustr list" where
  "path_parts ref = filter (\<lambda>c. c \<noteq> [] \<and> c \<noteq> lit ''.'') (components ref)"

fun fold_parts :: "ustr \<Rightarrow> ustr list \<Rightarrow> ustr list \<Rightarrow> exn + ustr list" where
  "fold_parts ref segments [] = Inr segments"
| "fold_parts ref segments (part # parts) =
     (if part = lit ''..'' then
        (if segments = [] then fail_with EvidencePathInvalid ''The ref resolves outside the root: '' ref
         else fold_parts ref (butlast segments) parts)
      else fold_parts ref (segments @ [part]) parts)"

text \<open>\<open>str(target)\<close> below the root.\<close>

definition path_text :: "ustr \<Rightarrow> ustr list \<Rightarrow> ustr" where
  "path_text root_text segments =
     (if root_text = [47] then [] else root_text) @ concat (map (\<lambda>s. 47 # s) segments)"

definition is_link :: "fs \<Rightarrow> fs_path \<Rightarrow> bool" where
  "is_link t p \<longleftrightarrow> (case map_of t p of Some (Symlink d) \<Rightarrow> True | _ \<Rightarrow> False)"

fun refuse_links :: "ustr \<Rightarrow> fs \<Rightarrow> fs_path \<Rightarrow> ustr list \<Rightarrow> exn + fs_path" where
  "refuse_links root_text t target [] = Inr target"
| "refuse_links root_text t target (part # parts) =
     (if is_link t (target @ [part])
      then fail_with EvidencePathInvalid ''A symlink may not stand in for evidence: '' (path_text root_text (target @ [part]))
      else refuse_links root_text t (target @ [part]) parts)"

text \<open>A name that the host's file names cannot hold ends the resolution of the target with a \<open>ValueError\<close>.\<close>

definition encodable :: "ustr \<Rightarrow> bool" where
  "encodable s \<longleftrightarrow> list_all (\<lambda>c. c \<noteq> 0 \<and> (is_surrogate c \<longrightarrow> 0xDC80 \<le> c \<and> c \<le> 0xDCFF)) s"

definition resolve_under_root :: "adapter_root \<Rightarrow> ustr \<Rightarrow> fs \<Rightarrow> exn + fs_path" where
  "resolve_under_root adapter ref t =
     (case adapter of
        RootNotAPath \<Rightarrow> fail EvidenceAdapterConfigInvalid ''The adapter root must be a pathlib.Path.''
      | RootAt root_text \<Rightarrow>
          if ref = [] then fail EvidencePathInvalid ''An evidence ref must be a non-empty string.''
          else if hd ref = 47 then fail_with EvidencePathInvalid ''An absolute ref escapes the root by definition: '' ref
          else if map_of t [] \<noteq> Some Directory
          then fail_with EvidencePathInvalid ''The adapter root is not an existing directory: '' root_text
          else
            bindE (fold_parts ref [] (path_parts ref)) (\<lambda>segments.
              if segments = [] then fail_with EvidencePathInvalid ''A ref must name something under the root: '' ref
              else bindE (refuse_links root_text t [] segments) (\<lambda>target.
                if list_all encodable segments then Inr target
                else Inl (PyErr PyValueError (lit ''embedded null byte'')))))"

section \<open>File evidence\<close>

definition max_file_bytes :: nat where
  "max_file_bytes = 1048576"

text \<open>What the bytes of an observation give: a failure of the runtime's own is a status, any other escapes.\<close>

definition observe_bytes :: "ustr \<Rightarrow> ustr \<Rightarrow> bytes \<Rightarrow> exn + acquisition_result" where
  "observe_bytes identifier acquired_at data =
     (case load_json_bytes data of
        Inr v \<Rightarrow> observed identifier acquired_at v
      | Inl e \<Rightarrow> if is_verify_error e then Inr (unavailable identifier acquired_at status_error) else Inl e)"

definition not_regular :: "ustr \<Rightarrow> exn + 'a" where
  "not_regular p = fail_with EvidencePathInvalid ''Evidence is declared at a path that is not a regular file: '' p"

definition root_text_of :: "adapter_root \<Rightarrow> ustr" where
  "root_text_of adapter = (case adapter of RootAt s \<Rightarrow> s | RootNotAPath \<Rightarrow> [])"

definition acquire_file ::
  "(fs_path \<Rightarrow> bool) \<Rightarrow> json \<Rightarrow> adapter_root \<Rightarrow> json \<Rightarrow> fs \<Rightarrow> exn + acquisition_result" where
  "acquire_file opens declaration adapter acquired_at t =
     bindE (check_declaration declaration ''file'') (\<lambda>(identifier, ref).
     bindE (check_acquired_at acquired_at) (\<lambda>instant_text.
     bindE (resolve_under_root adapter ref t) (\<lambda>p.
       case map_of t p of
         None \<Rightarrow> Inr (unavailable identifier instant_text status_missing)
       | Some (File b) \<Rightarrow>
           if \<not> opens p then Inr (unavailable identifier instant_text status_error)
           else (let data = take (max_file_bytes + 1) b
                 in if length data > max_file_bytes then Inr (unavailable identifier instant_text status_error)
                    else observe_bytes identifier instant_text data)
       | Some _ \<Rightarrow> not_regular (path_text (root_text_of adapter) p))))"

section \<open>Command evidence\<close>

definition command_stdout_limit :: nat where "command_stdout_limit = 1048576"
definition command_min_timeout :: int where "command_min_timeout = 1"
definition command_max_timeout :: int where "command_max_timeout = 300"

definition check_command_timeout :: "json \<Rightarrow> exn + int" where
  "check_command_timeout seconds =
     (case seconds of
        JInt n \<Rightarrow>
          if command_min_timeout \<le> n \<and> n \<le> command_max_timeout then Inr n
          else fail EvidenceAdapterConfigInvalid ''timeout_seconds must be an integer from 1 to 300.''
      | _ \<Rightarrow> fail EvidenceAdapterConfigInvalid ''timeout_seconds must be an integer from 1 to 300.'')"

definition check_command_environment :: "json \<Rightarrow> exn + (ustr \<times> ustr) list" where
  "check_command_environment environment =
     (case environment of
        JNull \<Rightarrow> Inr []
      | JDict d \<Rightarrow>
          mapE (\<lambda>(k, v). case v of
                  JStr s \<Rightarrow> Inr (k, s)
                | _ \<Rightarrow> fail EvidenceAdapterConfigInvalid ''environment names and values must be strings.'') d
      | _ \<Rightarrow> fail EvidenceAdapterConfigInvalid ''environment must be a mapping when supplied.'')"

text \<open>What the host says of the working directory that a caller passes.\<close>

datatype working_directory = WorkNotAPath | WorkOutside | WorkLinkOrNone | WorkReal ustr

fun check_command_directory :: "ustr \<Rightarrow> working_directory option \<Rightarrow> exn + ustr" where
  "check_command_directory root_text None = Inr root_text"
| "check_command_directory root_text (Some WorkNotAPath) =
     fail EvidenceAdapterConfigInvalid ''working_directory must be a pathlib.Path.''"
| "check_command_directory root_text (Some WorkOutside) =
     fail EvidencePathInvalid ''The working directory is outside the root.''"
| "check_command_directory root_text (Some WorkLinkOrNone) =
     fail EvidencePathInvalid ''The working directory must be a real directory.''"
| "check_command_directory root_text (Some (WorkReal d)) = Inr d"

text \<open>
  \<open>_run_bounded\<close> on what a launch lets the runtime see: \<open>None\<close> when the executable could not be started;
  the output is kept up to one byte beyond the limit, and the limit tells whether it was longer.
\<close>

definition run_bounded :: "observation \<Rightarrow> (int option \<times> bytes \<times> bool) option" where
  "run_bounded seen =
     (case seen of
        CouldNotStart \<Rightarrow> None
      | Ran pid chunks timed_out code \<Rightarrow>
          if timed_out then Some (Some (- 1), [], False)
          else (let out = captured command_stdout_limit [] (stream True chunks)
                in Some (code, out, length out > command_stdout_limit)))"

type_synonym command_host = "ustr \<Rightarrow> ustr \<Rightarrow> (ustr \<times> ustr) list \<Rightarrow> int \<Rightarrow> observation"

definition check_executable :: "adapter_root \<Rightarrow> fs \<Rightarrow> fs_path \<Rightarrow> exn + ustr" where
  "check_executable adapter t p =
     (let argument = path_text (root_text_of adapter) p
      in if (case map_of t p of None \<Rightarrow> False | Some (File b) \<Rightarrow> False | Some _ \<Rightarrow> True)
         then fail_with EvidencePathInvalid ''An evidence command is declared at a path that is not a regular file: '' argument
         else if length argument > max_argument_length
         then fail EvidenceAdapterConfigInvalid ''The single argv argument exceeds the declared bound.''
         else Inr argument)"

definition acquire_command ::
  "command_host \<Rightarrow> json \<Rightarrow> adapter_root \<Rightarrow> json \<Rightarrow> json \<Rightarrow> json \<Rightarrow> working_directory option \<Rightarrow> fs
     \<Rightarrow> exn + acquisition_result" where
  "acquire_command H declaration adapter acquired_at timeout environment working t =
     bindE (check_declaration declaration ''exec'') (\<lambda>(identifier, ref).
     bindE (check_acquired_at acquired_at) (\<lambda>instant_text.
     bindE (check_command_timeout timeout) (\<lambda>seconds.
     bindE (check_command_environment environment) (\<lambda>env.
     bindE (resolve_under_root adapter ref t) (\<lambda>p.
     bindE (check_command_directory (root_text_of adapter) working) (\<lambda>directory.
     bindE (check_executable adapter t p) (\<lambda>argument.
       case run_bounded (H argument directory env seconds) of
         None \<Rightarrow> Inr (unavailable identifier instant_text status_error)
       | Some (code, out, oversize) \<Rightarrow>
           if code \<noteq> Some 0 \<or> oversize \<or> out = []
           then Inr (unavailable identifier instant_text status_error)
           else observe_bytes identifier instant_text out)))))))"

section \<open>What a path under the root is\<close>

definition under_root :: "fs \<Rightarrow> fs_path \<Rightarrow> bool" where
  "under_root t p \<longleftrightarrow> p \<noteq> [] \<and> map_of t [] = Some Directory \<and>
     list_all (\<lambda>c. c \<noteq> [] \<and> c \<noteq> lit ''.'' \<and> c \<noteq> lit ''..'' \<and> encodable c) p \<and>
     (\<forall>n \<in> {1..length p}. \<not> is_link t (take n p))"

lemma normalize_parts:
  "fold_parts ref segments parts = Inr s \<Longrightarrow> list_all Q segments \<Longrightarrow> list_all (\<lambda>c. c \<noteq> lit ''..'' \<longrightarrow> Q c) parts \<Longrightarrow> list_all Q s"
proof (induction parts arbitrary: segments)
  case (Cons part parts)
  have b: "list_all Q (butlast segments)"
    using Cons.prems(2) by (auto simp: list_all_iff dest: in_set_butlastD)
  show ?case
  proof (cases "part = lit ''..''")
    case True
    with Cons.prems(1) have "fold_parts ref (butlast segments) parts = Inr s" by (simp split: if_splits)
    then show ?thesis by (rule Cons.IH) (use b Cons.prems(3) in simp_all)
  next
    case False
    with Cons.prems(1) have "fold_parts ref (segments @ [part]) parts = Inr s" by simp
    then show ?thesis by (rule Cons.IH) (use Cons.prems(2,3) False in simp_all)
  qed
qed simp

lemma refuse_links_Inr:
  "refuse_links r t target parts = Inr p \<Longrightarrow>
     p = target @ parts \<and> (\<forall>n \<in> {1..length parts}. \<not> is_link t (target @ take n parts))"
proof (induction parts arbitrary: target)
  case (Cons part parts)
  from Cons.prems have r: "\<not> is_link t (target @ [part])" "refuse_links r t (target @ [part]) parts = Inr p"
    by (simp_all split: if_splits)
  with Cons.IH have p: "\<not> is_link t (target @ [part])" "p = (target @ [part]) @ parts"
      "\<forall>n \<in> {1..length parts}. \<not> is_link t ((target @ [part]) @ take n parts)"
    by blast+
  have "\<not> is_link t (target @ take n (part # parts))" if "n \<in> {1..length (part # parts)}" for n
  proof (cases n)
    case (Suc m)
    with p that show ?thesis by (cases m) auto
  qed (use that in simp)
  with p show ?case by auto
qed auto

lemma resolved_under_root:
  assumes "resolve_under_root adapter ref t = Inr p"
  shows "under_root t p"
proof -
  obtain root_text where a: "adapter = RootAt root_text"
    using assms by (cases adapter) (simp_all add: resolve_under_root_def)
  with assms obtain s where s: "map_of t [] = Some Directory" "fold_parts ref [] (path_parts ref) = Inr s" "s \<noteq> []"
      "refuse_links root_text t [] s = Inr p" "list_all encodable s"
    by (auto simp: resolve_under_root_def bindE_Inr_iff split: if_splits)
  have "list_all (\<lambda>c. c \<noteq> [] \<and> c \<noteq> lit ''.'' \<and> c \<noteq> lit ''..'') s"
    by (rule normalize_parts [OF s(2)]) (auto simp: path_parts_def list_all_iff)
  with s refuse_links_Inr [OF s(4)] show ?thesis by (auto simp: under_root_def list_all_iff)
qed

lemma resolved_path:
  assumes "resolve_under_root adapter ref t = Inr p"
  shows "fold_parts ref [] (path_parts ref) = Inr p"
proof -
  obtain root_text where "adapter = RootAt root_text"
    using assms by (cases adapter) (simp_all add: resolve_under_root_def)
  with assms obtain s where "fold_parts ref [] (path_parts ref) = Inr s" "refuse_links root_text t [] s = Inr p"
    by (auto simp: resolve_under_root_def bindE_Inr_iff split: if_splits)
  with refuse_links_Inr [of root_text t "[]" s p] show ?thesis by simp
qed

lemma declared_parts:
  "check_declaration d source = Inr (i, ref) \<Longrightarrow> get_lit d ''id'' = Some (JStr i) \<and> i \<noteq> []"
  by (auto simp: check_declaration_def split: option.splits json.splits if_splits)

lemma acquired_instant:
  assumes "check_acquired_at a = Inr s"
  shows "a = JStr s" and "\<exists>n. instant s = Inr n"
proof -
  from assms have s: "a = JStr s" "is_date_time s"
    by (auto simp: check_acquired_at_def split: json.splits if_splits)
  then show "a = JStr s" "\<exists>n. instant s = Inr n"
    by (auto simp: instant_def is_date_time_def split: option.splits)
qed

section \<open>What the bytes of an observation become\<close>

lemma observe_bytes_Inr:
  assumes "observe_bytes i a data = Inr r"
  obtains (ok) v where "load_json_bytes data = Inr v"
      "r = \<lparr>aq_id = i, aq_status = status_ok, aq_acquired_at = a, aq_canonical = Some (jtext v)\<rparr>"
    | (error) e where "load_json_bytes data = Inl e" "is_verify_error e" "r = unavailable i a status_error"
proof (cases "load_json_bytes data")
  case (Inr v)
  with load_json_loadable(2) [OF Inr] assms that(1) show ?thesis by (simp add: observe_bytes_def observed_def)
next
  case (Inl e)
  with assms that(2) show ?thesis by (auto simp: observe_bytes_def split: if_splits)
qed

text \<open>The three results that either adapter gives.\<close>

definition honest :: "acquisition_result \<Rightarrow> bool" where
  "honest r \<longleftrightarrow> aq_id r \<noteq> [] \<and> (\<exists>n. instant (aq_acquired_at r) = Inr n) \<and>
     (case aq_canonical r of
        None \<Rightarrow> aq_status r = status_missing \<or> aq_status r = status_error
      | Some c \<Rightarrow> aq_status r = status_ok \<and> (\<exists>v. loadable v \<and> canon_json v = Inr c))"

lemma observed_honest:
  assumes "observe_bytes i a data = Inr r" "i \<noteq> []" "\<exists>n. instant a = Inr n"
  shows "honest r"
  using assms(1)
proof (cases rule: observe_bytes_Inr)
  case (ok v)
  with load_json_loadable [OF ok(1)] assms(2,3) show ?thesis by (auto simp: honest_def)
qed (use assms(2,3) in \<open>simp add: honest_def unavailable_def\<close>)

lemma unavailable_honest:
  "s \<in> {status_missing, status_error} \<Longrightarrow> i \<noteq> [] \<Longrightarrow> \<exists>n. instant a = Inr n \<Longrightarrow> honest (unavailable i a s)"
  by (auto simp: honest_def unavailable_def)

lemma file_honest:
  assumes "acquire_file opens d adapter a t = Inr r"
  shows "honest r"
proof -
  from assms obtain i ref s p where c: "check_declaration d ''file'' = Inr (i, ref)" "check_acquired_at a = Inr s"
      "(case map_of t p of
         None \<Rightarrow> Inr (unavailable i s status_missing)
       | Some (File b) \<Rightarrow>
           if \<not> opens p then Inr (unavailable i s status_error)
           else (let data = take (max_file_bytes + 1) b
                 in if length data > max_file_bytes then Inr (unavailable i s status_error)
                    else observe_bytes i s data)
       | Some _ \<Rightarrow> not_regular (path_text (root_text_of adapter) p)) = Inr r"
    by (auto simp: acquire_file_def bindE_Inr_iff)
  have "i \<noteq> []" "\<exists>n. instant s = Inr n"
    using declared_parts [OF c(1)] acquired_instant [OF c(2)] by simp_all
  with c(3) show ?thesis
    by (auto simp: Let_def not_regular_def split: option.splits entry.splits if_splits
        intro: observed_honest intro!: unavailable_honest)
qed

lemma command_honest:
  assumes "acquire_command H d adapter a timeout environment working t = Inr r"
  shows "honest r"
proof -
  from assms obtain i ref s seen where c: "check_declaration d ''exec'' = Inr (i, ref)" "check_acquired_at a = Inr s"
      "(case run_bounded seen of
         None \<Rightarrow> Inr (unavailable i s status_error)
       | Some (code, out, oversize) \<Rightarrow>
           if code \<noteq> Some 0 \<or> oversize \<or> out = []
           then Inr (unavailable i s status_error)
           else observe_bytes i s out) = Inr r"
    by (auto simp: acquire_command_def bindE_Inr_iff)
  have "i \<noteq> []" "\<exists>n. instant s = Inr n"
    using declared_parts [OF c(1)] acquired_instant [OF c(2)] by simp_all
  with c(3) show ?thesis
    by (auto split: option.splits prod.splits if_splits intro: observed_honest intro!: unavailable_honest)
qed

section \<open>A rendered acquisition at the snapshot\<close>

definition rendered :: "acquisition_result \<Rightarrow> json option \<Rightarrow> json" where
  "rendered r v = JDict ([(lit ''id'', JStr (aq_id r)), (lit ''status'', JStr (aq_status r)),
     (lit ''acquired_at'', JStr (aq_acquired_at r))] @ (case v of None \<Rightarrow> [] | Some w \<Rightarrow> [(lit ''value'', w)]))"

lemma rendered_get:
  "get_lit (rendered r v) ''id'' = Some (JStr (aq_id r))"
  "get_lit (rendered r v) ''status'' = Some (JStr (aq_status r))"
  "get_lit (rendered r v) ''acquired_at'' = Some (JStr (aq_acquired_at r))"
  "get_lit (rendered r v) ''value'' = v"
  by (cases v; simp add: rendered_def)+

lemma rendered_sub:
  "sub_lit (rendered r v) ''id'' = Inr (JStr (aq_id r))"
  "sub_lit (rendered r v) ''status'' = Inr (JStr (aq_status r))"
  "sub_lit (rendered r v) ''acquired_at'' = Inr (JStr (aq_acquired_at r))"
  by (simp_all add: subscript_Inr_iff rendered_get)

lemma rendered_shape:
  assumes "aq_id r \<noteq> []" "aq_status r \<in> {status_ok, status_missing, status_error}"
  shows "check_acquisition_shape (rendered r v) = Inr ()"
proof -
  have "is_one_of (JStr (aq_status r)) item_statuses"
    using assms(2) by (auto simp: is_one_of_def item_statuses_def status_ok_def status_missing_def status_error_def)
  then show ?thesis
    using assms(1) rendered_sub [of r v]
    by (cases v) (simp_all add: check_acquisition_shape_def rendered_def acquisition_required_def acquisition_permitted_def keys_def)
qed

lemma statuses_differ [simp]:
  "status_ok \<noteq> status_missing" "status_missing \<noteq> status_ok" "status_ok \<noteq> status_error" "status_error \<noteq> status_ok"
  by (simp_all add: status_ok_def status_missing_def status_error_def)

lemma rendered_checked:
  assumes "aq_status r = status_ok \<longrightarrow> v \<noteq> None" "aq_status r = status_missing \<longrightarrow> v = None"
  shows "check_status_and_value (rendered r v) = Inr ()"
  using assms by (simp add: check_status_iff rendered_get status_ok_def status_missing_def)

lemma rendered_frozen:
  assumes "instant (aq_acquired_at r) = Inr n" "n \<le> frozen" "aq_id r \<in> set (keys declarations)" "aq_id r \<notin> set seen"
    and "aq_id r \<noteq> []" "aq_status r \<in> {status_ok, status_missing, status_error}"
    and "aq_status r = status_ok \<longrightarrow> v \<noteq> None" "aq_status r = status_missing \<longrightarrow> v = None"
  shows "freeze_item frozen declarations position (rendered r v) seen
       = Inr (item_of (JStr (aq_id r)) position (JStr (aq_status r)) (JStr (aq_acquired_at r)) v, aq_id r)"
proof -
  have "instant_or_raise (JStr (aq_acquired_at r)) ''acquired_at'' = Inr n"
    using assms(1) by (simp add: instant_or_Inr_iff instant_of_def)
  moreover have "\<not> n > frozen" using assms(2) by simp
  ultimately show ?thesis
    using rendered_shape [OF assms(5,6), of v] rendered_checked [OF assms(7,8)] assms(3,4)
    by (simp add: freeze_item_def rendered_sub rendered_get Let_def)
qed

section \<open>Properties\<close>

definition sample_declaration :: json where
  "sample_declaration = JDict [(lit ''id'', jlit ''a''), (lit ''source'', jlit ''file''), (lit ''ref'', jlit ''x/../y'')]"

definition sample_evidence_tree :: fs where
  "sample_evidence_tree = [([], Directory), ([lit ''y''], File [91, 49, 93])]"

definition sample_result :: acquisition_result where
  "sample_result = \<lparr>aq_id = lit ''a'', aq_status = status_ok, aq_acquired_at = sample_instant, aq_canonical = Some [91, 49, 93]\<rparr>"

lemma sample_steps:
  "check_declaration sample_declaration ''file'' = Inr (lit ''a'', lit ''x/../y'')"
  "check_acquired_at (JStr sample_instant) = Inr sample_instant"
  "map_of sample_evidence_tree [lit ''y''] = Some (File [91, 49, 93])"
  "load_json_bytes [91, 49, 93] = Inr (JList [JInt 1])"
  "canonicalize (PList [PInt 1]) = Inr [91, 49, 93]"
  by code_simp+

lemma sample_resolved:
  "resolve_under_root (RootAt (lit ''/e'')) (lit ''x/../y'') sample_evidence_tree = Inr [lit ''y'']"
proof -
  have p: "path_parts (lit ''x/../y'') = [lit ''x'', lit ''..'', lit ''y'']"
    "fold_parts (lit ''x/../y'') [] [lit ''x'', lit ''..'', lit ''y''] = Inr [lit ''y'']"
    "refuse_links (lit ''/e'') sample_evidence_tree [] [lit ''y''] = Inr [lit ''y'']"
    "map_of sample_evidence_tree [] = Some Directory" "lit ''x/../y'' = 120 # lit ''/../y''"
    by code_simp+
  have "encodable (lit ''y'')" by (simp add: encodable_def lit_def is_surrogate_def)
  then show ?thesis using p by (simp add: resolve_under_root_def)
qed

lemma sample_acquired:
  "acquire_file (\<lambda>p. True) sample_declaration (RootAt (lit ''/e'')) (JStr sample_instant) sample_evidence_tree = Inr sample_result"
  by (simp add: acquire_file_def sample_steps sample_resolved observe_bytes_def observed_def max_file_bytes_def sample_result_def)

text \<open>
  C32. File evidence is what it says: whatever a declaration's reference spells, the path read is its
  normalisation, strictly below the root and with no link on its way; the result bears the declaration's id and
  is missing exactly when nothing is there, ok with the
  canonical text of the whole file when that is strict JSON of at most one mebibyte, and otherwise an error
  without a value. A directory or a special file there is refused, not reported.
\<close>

theorem file_evidence_contained:
  assumes "acquire_file opens declaration adapter acquired_at t = Inr r"
  shows "\<exists>ref p. check_declaration declaration ''file'' = Inr (aq_id r, ref) \<and>
     fold_parts ref [] (path_parts ref) = Inr p \<and> under_root t p \<and>
     (case map_of t p of
        None \<Rightarrow> aq_status r = status_missing \<and> aq_canonical r = None
      | Some (File b) \<Rightarrow>
          if opens p \<and> length b \<le> max_file_bytes \<and> returned (load_json_bytes b)
          then aq_status r = status_ok \<and> (\<exists>v. load_json_bytes b = Inr v \<and> aq_canonical r = Some (jtext v))
          else aq_status r = status_error \<and> aq_canonical r = None
      | Some _ \<Rightarrow> False)"
proof -
  from assms obtain i ref s p where d: "check_declaration declaration ''file'' = Inr (i, ref)"
    and p: "resolve_under_root adapter ref t = Inr p"
      "(case map_of t p of
         None \<Rightarrow> Inr (unavailable i s status_missing)
       | Some (File b) \<Rightarrow>
           if \<not> opens p then Inr (unavailable i s status_error)
           else (let data = take (max_file_bytes + 1) b
                 in if length data > max_file_bytes then Inr (unavailable i s status_error)
                    else observe_bytes i s data)
       | Some _ \<Rightarrow> not_regular (path_text (root_text_of adapter) p)) = Inr r"
    by (auto simp: acquire_file_def bindE_Inr_iff)
  have o: "observe_bytes i s b = Inr r \<Longrightarrow> aq_id r = i \<and>
      (if returned (load_json_bytes b)
       then aq_status r = status_ok \<and> (\<exists>v. load_json_bytes b = Inr v \<and> aq_canonical r = Some (jtext v))
       else aq_status r = status_error \<and> aq_canonical r = None)" for b
    by (cases rule: observe_bytes_Inr) (auto simp: unavailable_def)
  have c: "aq_id r = i \<and> (case map_of t p of
        None \<Rightarrow> aq_status r = status_missing \<and> aq_canonical r = None
      | Some (File b) \<Rightarrow>
          if opens p \<and> length b \<le> max_file_bytes \<and> returned (load_json_bytes b)
          then aq_status r = status_ok \<and> (\<exists>v. load_json_bytes b = Inr v \<and> aq_canonical r = Some (jtext v))
          else aq_status r = status_error \<and> aq_canonical r = None
      | Some _ \<Rightarrow> False)"
    using p(2) o
    by (auto simp: unavailable_def not_regular_def Let_def split: option.splits entry.splits if_splits)
  with d show ?thesis
    by (intro exI [of _ ref] exI [of _ p] conjI resolved_under_root [OF p(1)] resolved_path [OF p(1)]) simp_all
qed

theorem file_evidence_contained_witness:
  "\<exists>p. fold_parts (lit ''x/../y'') [] (path_parts (lit ''x/../y'')) = Inr p \<and> under_root sample_evidence_tree p \<and>
     map_of sample_evidence_tree p \<noteq> None"
proof -
  have s: "aq_status sample_result = status_ok" by (simp add: sample_result_def)
  show ?thesis using file_evidence_contained [OF sample_acquired] by (auto simp: sample_steps s split: option.splits)
qed

text \<open>
  C31. What either adapter returns is what a snapshot takes: the acquisition it renders is accepted for every
  declared, new identifier by any freeze at or after its instant, with its status and, when ok, the observed
  value itself.
\<close>

theorem evidence_admitted:
  assumes "acquire_file opens declaration adapter acquired_at t = Inr r \<or>
      acquire_command H declaration adapter acquired_at timeout environment working t = Inr r"
    and "instant (aq_acquired_at r) = Inr n" "n \<le> frozen" "aq_id r \<in> set (keys declarations)" "aq_id r \<notin> set seen"
  shows "\<exists>a. as_acquisition r = Inr a \<and>
     freeze_item frozen declarations position a seen
       = Inr (item_of (JStr (aq_id r)) position (JStr (aq_status r)) (JStr (aq_acquired_at r)) (get_lit a ''value''), aq_id r) \<and>
     (case aq_canonical r of None \<Rightarrow> get_lit a ''value'' = None | Some c \<Rightarrow> \<exists>v. get_lit a ''value'' = Some v \<and> canon_json v = Inr c)"
proof -
  have h: "honest r" using assms(1) file_honest command_honest by blast
  show ?thesis
  proof (cases "aq_canonical r")
    case None
    with h have "as_acquisition r = Inr (rendered r None)" "aq_id r \<noteq> []" "aq_status r \<in> {status_missing, status_error}"
      by (auto simp: honest_def as_acquisition_def acquisition_value_def rendered_def)
    moreover from this(2,3) have "freeze_item frozen declarations position (rendered r None) seen
       = Inr (item_of (JStr (aq_id r)) position (JStr (aq_status r)) (JStr (aq_acquired_at r)) None, aq_id r)"
      by (intro rendered_frozen [OF assms(2-5)]) auto
    ultimately show ?thesis using None by (intro exI [of _ "rendered r None"]) (simp add: rendered_get)
  next
    case (Some c)
    with h obtain v where v: "aq_status r = status_ok" "aq_id r \<noteq> []" "loadable v" "canon_json v = Inr c" by (auto simp: honest_def)
    have "reload c = Inr (sort_json v)" by (rule json_text.dcd_enc [OF v(3,4)])
    then have "as_acquisition r = Inr (rendered r (Some (sort_json v)))"
      using Some by (simp add: as_acquisition_def acquisition_value_def rendered_def)
    moreover have "freeze_item frozen declarations position (rendered r (Some (sort_json v))) seen
       = Inr (item_of (JStr (aq_id r)) position (JStr (aq_status r)) (JStr (aq_acquired_at r)) (Some (sort_json v)), aq_id r)"
      using v(1,2) by (intro rendered_frozen [OF assms(2-5)]) auto
    moreover have "canon_json (sort_json v) = Inr c" using v(4) by (rule canon_json_sort)
    ultimately show ?thesis using Some by (intro exI [of _ "rendered r (Some (sort_json v))"]) (simp add: rendered_get)
  qed
qed

theorem evidence_admitted_witness:
  "\<exists>a n. as_acquisition sample_result = Inr a \<and>
     freeze_item n [(lit ''a'', sample_declaration)] 0 a []
       = Inr (item_of (jlit ''a'') 0 (jlit ''ok'') (JStr sample_instant) (get_lit a ''value''), lit ''a'')"
proof -
  have r: "aq_id sample_result = lit ''a''" "aq_status sample_result = lit ''ok''" "aq_acquired_at sample_result = sample_instant"
    by (simp_all add: sample_result_def status_ok_def)
  obtain n where n: "instant (aq_acquired_at sample_result) = Inr n"
    using file_honest [OF sample_acquired] by (auto simp: honest_def)
  have "\<exists>a. as_acquisition sample_result = Inr a \<and>
     freeze_item n [(lit ''a'', sample_declaration)] 0 a []
       = Inr (item_of (JStr (aq_id sample_result)) 0 (JStr (aq_status sample_result)) (JStr (aq_acquired_at sample_result)) (get_lit a ''value''),
           aq_id sample_result) \<and>
     (case aq_canonical sample_result of None \<Rightarrow> get_lit a ''value'' = None | Some c \<Rightarrow> \<exists>v. get_lit a ''value'' = Some v \<and> canon_json v = Inr c)"
    by (rule evidence_admitted [OF disjI1 [OF sample_acquired] n order_refl]) (simp_all add: r keys_def)
  then show ?thesis unfolding r by blast
qed

end
