(* ===== verification/Pool.thy ===== *)
theory Pool
  imports Evidence
begin

text \<open>
  \<^verbatim>\<open>src/vfy/common_capacity.py\<close>: the owner of one protected pool. Its state is one signed document beside the
  lock in its root, published as the child ledger publishes its own; each entry holds one child's dispatch
  slot and its share of the retained output, and the ledger's directory gets a marker that binds it to the pool.
\<close>

section \<open>Values\<close>

record pool_host = ledger_host +
  ph_source :: bytes

abbreviation ledger_of :: "pool_host \<Rightarrow> ledger_host" where
  "ledger_of P \<equiv> ledger_host.truncate P"

record pool =
  pl_root :: ustr
  pl_seed :: bytes
  pl_issuer :: ustr
  pl_trust :: json
  pl_config_bytes :: bytes
  pl_config :: json
  pl_child_trust :: json
  pl_observer :: json

definition output_hold :: int where "output_hold = 262144"
definition pool_profile :: ustr where "pool_profile = lit ''vfy.common-capacity/1''"
definition pool_schema :: ustr where "pool_schema = lit ''vfy.common-capacity-state/1''"

definition pool_integer :: "json \<Rightarrow> bool" where
  "pool_integer v \<longleftrightarrow> (case v of JInt n \<Rightarrow> 0 \<le> n \<and> n \<le> max_safe_integer | _ \<Rightarrow> False)"

definition owner_identity :: "externals \<Rightarrow> pool_host \<Rightarrow> json" where
  "owner_identity X P = JDict [(lit ''profile'', JStr pool_profile), (lit ''source_sha256'', JStr (sha256_hex X (ph_source P)))]"

definition pool_envelope :: "externals \<Rightarrow> pool_host \<Rightarrow> pool \<Rightarrow> json \<Rightarrow> exn + json" where
  "pool_envelope X P G content = envelope X (ledger_of P) (pl_seed G) (pl_issuer G) content"

text \<open>\<open>v.values()\<close>: an \<open>AttributeError\<close> unless the value is a dictionary.\<close>

definition py_values :: "json \<Rightarrow> exn + json list" where
  "py_values v = (case v of JDict d \<Rightarrow> Inr (map snd d) | _ \<Rightarrow> Inl (PyErr PyAttributeError (lit ''values'')))"

text \<open>\<open>child_trust and all(v['public_key_hex'] != public for v in child_trust.values())\<close>.\<close>

definition other_keys :: "json \<Rightarrow> json \<Rightarrow> exn + bool" where
  "other_keys child_trust public =
     (if \<not> truthy child_trust then Inr False
      else bindE (py_values child_trust) (\<lambda>vs.
           bindE (findE (\<lambda>v. bindE (sub_lit v ''public_key_hex'') (\<lambda>k. Inr (py_eq k public))) vs) (\<lambda>found.
           Inr (found = None))))"

definition config_fields :: "string list" where
  "config_fields = [''schema'', ''pool_id'', ''owner_issuer'', ''capacities'', ''scope'']"

definition capacity_names :: "string list" where
  "capacity_names = [''dispatch_slots'', ''retained_output_bytes'']"

definition check_capacities :: "json \<Rightarrow> exn + unit" where
  "check_capacities config =
     bindE (sub_lit config ''capacities'') (\<lambda>c.
     bindE (set_is c capacity_names) (\<lambda>ok. bindE (must ok) (\<lambda>_.
     bindE (py_values c) (\<lambda>vs. must (list_all pool_integer vs)))))"

definition check_config :: "json \<Rightarrow> ustr \<Rightarrow> exn + unit" where
  "check_config config issuer =
     bindE (set_is config config_fields) (\<lambda>ok. bindE (must ok) (\<lambda>_.
     bindE (same_field config ''schema'' (JStr pool_profile)) (\<lambda>_.
     bindE (same_field config ''owner_issuer'' (JStr issuer)) (\<lambda>_.
     bindE (sub_lit config ''pool_id'') (\<lambda>i. bindE (must (plain_text i)) (\<lambda>_.
     bindE (same_field config ''scope'' (jlit ''REVIEWED_LOCAL_VERIFIER_ONLY'')) (\<lambda>_.
     check_capacities config)))))))"

section \<open>Opening and creating\<close>

definition trust_owner :: "externals \<Rightarrow> pool_host \<Rightarrow> pool \<Rightarrow> ustr \<Rightarrow> exn + unit" where
  "trust_owner X P G public =
     bindE (must (py_eq (trust_entry (pl_trust G) (JStr (pl_issuer G)))
       (JDict [(lit ''public_key_hex'', JStr public), (lit ''producer_identity'', producer X (ledger_of P))]))) (\<lambda>_.
     bindE (other_keys (pl_child_trust G) (JStr public)) (\<lambda>ok.
     must_or ''Capacity owner must use independently selected issuer key.'' ok))"

definition open_pool :: "externals \<Rightarrow> pool_host \<Rightarrow> pool \<Rightarrow> fs \<Rightarrow> exn + pool" where
  "open_pool X P G t =
     bindE (must (ch_plain (custody_host.truncate P) (pl_root G) \<and> map_of t (absolute (pl_root G)) = Some Directory)) (\<lambda>_.
     bindE (case lh_public P (pl_seed G) of
              None \<Rightarrow> refuse ''An Ed25519 private key is 32 bytes long''
            | Some public \<Rightarrow> Inr public) (\<lambda>public.
     bindE (load_json_bytes (pl_config_bytes G)) (\<lambda>config.
     bindE (trust_owner X P G public) (\<lambda>_.
     bindE (check_config config (pl_issuer G)) (\<lambda>_.
     Inr (G\<lparr>pl_config := config\<rparr>))))))"

definition initial_pool :: "externals \<Rightarrow> pool_host \<Rightarrow> pool \<Rightarrow> json" where
  "initial_pool X P G =
     JDict [(lit ''schema'', JStr pool_schema), (lit ''pool_root'', JStr (pl_root G)),
       (lit ''config_sha256'', JStr (sha256_hex X (pl_config_bytes G))), (lit ''owner_profile'', owner_identity X P),
       (lit ''observer'', pl_observer G), (lit ''revision'', JInt 0), (lit ''previous'', JNull), (lit ''entries'', JList []),
       (lit ''authority_granted'', JBool False), (lit ''automatic_retry'', JBool False)]"

definition create_pool :: "externals \<Rightarrow> pool_host \<Rightarrow> pool \<Rightarrow> pool io" where
  "create_pool X P G =
     bindS (readS (\<lambda>t. must (ch_plain (custody_host.truncate P) (pl_root G) \<and> map_of t (absolute (pl_root G)) = None))) (\<lambda>_.
     bindS (callS (os_mkdir (absolute (pl_root G)))) (\<lambda>_.
     bindS (readS (open_pool X P G)) (\<lambda>G'.
     bindS (fresh_file (ledger_file (pl_root G) ''lock'') []) (\<lambda>_.
     bindS (readS (\<lambda>t. bindE (pool_envelope X P G' (initial_pool X P G')) raw)) (\<lambda>payload.
     bindS (fresh_file (ledger_file (pl_root G) ''state.json'') payload) (\<lambda>_.
     returnS G'))))))"

section \<open>Validation of a state\<close>

definition logical_fields :: "string list" where
  "logical_fields = [''task_key'', ''parent_operation_id'', ''parent_attempt_id'', ''child_id'']"

text \<open>The tuple that names a child: its parts must be hashable, and tuples are compared part by part.\<close>

definition logical_key :: "json \<Rightarrow> exn + json list" where
  "logical_key binding =
     bindE (mapE (sub_lit binding) logical_fields) (\<lambda>l. bindE (forE must_hash l) (\<lambda>_. Inr l))"

definition same_tuple :: "json list \<Rightarrow> json list \<Rightarrow> bool" where
  "same_tuple xs ys \<longleftrightarrow> list_all2 py_eq xs ys"

definition ticket_body :: "json \<Rightarrow> json \<Rightarrow> json" where
  "ticket_body binding key =
     set_member ''automatic_retry'' (JBool False) (set_member ''authority_granted'' (JBool False)
       (set_member ''dispatch_slots'' (JInt 1) (set_member ''retained_output_bytes'' (JInt output_hold)
         (set_member ''reservation_id'' key (set_member ''schema'' (jlit ''vfy.common-reservation/1'') binding)))))"

definition check_dispatched :: "externals \<Rightarrow> json \<Rightarrow> json \<Rightarrow> json \<Rightarrow> json \<Rightarrow> exn + unit" where
  "check_dispatched X child_trust binding e sent =
     bindE (sub_lit sent ''reservation'') (\<lambda>r. bindE (authenticate X r child_trust) (\<lambda>cr.
     bindE (sub_lit sent ''binding'') (\<lambda>br. bindE (authenticate X br child_trust) (\<lambda>cb.
     bindE (same_two cr ''parent_start_sha256'' binding ''parent_start_sha256'') (\<lambda>_.
     bindE (same_two cr ''child_id'' binding ''child_id'') (\<lambda>_.
     bindE (same_two cb ''request_identity'' binding ''request_identity'') (\<lambda>_.
     bindE (same_two cb ''request_sha256'' binding ''request_sha256'') (\<lambda>_.
     bindE (same_two cb ''reservation_sha256'' r ''sha256'') (\<lambda>_.
     bindE (sub_lit e ''ticket'') (\<lambda>ticket.
     same_two cb ''common_reservation_sha256'' ticket ''sha256''))))))))))"

definition settled_states :: "json list" where
  "settled_states = [jlit ''KNOWN_LOCAL_RETAINED_OUTPUT'', jlit ''UNKNOWN_HOLD_RETAINED'']"

definition retained_of :: "json \<Rightarrow> exn + int" where
  "retained_of e =
     bindE (sub_lit e ''retained_bytes'') (\<lambda>v.
     case num_of v of Some n \<Rightarrow> Inr n | None \<Rightarrow> Inl (PyErr PyTypeError (lit ''unsupported operand'')))"

definition check_settlement :: "externals \<Rightarrow> pool \<Rightarrow> json \<Rightarrow> json \<Rightarrow> json \<Rightarrow> json \<Rightarrow> exn + unit" where
  "check_settlement X G issuer e sent settlement =
     bindE (sub_lit e ''retained_bytes'') (\<lambda>retained.
     if settlement = JNull then must (py_eq retained (JInt output_hold))
     else
       bindE (same_field settlement ''issuer_identity'' issuer) (\<lambda>_.
       bindE (authenticate X settlement (pl_trust G)) (\<lambda>f.
       bindE (same_two f ''reservation_id'' e ''key'') (\<lambda>_.
       bindE (sub_lit e ''ticket'') (\<lambda>ticket.
       bindE (same_two f ''reservation_sha256'' ticket ''sha256'') (\<lambda>_.
       bindE (same_field f ''retained_bytes'' retained) (\<lambda>_.
       bindE (same_field f ''dispatch_slots_consumed'' (JInt 1)) (\<lambda>_.
       bindE (must (sent \<noteq> JNull)) (\<lambda>_.
       bindE (sub_lit f ''state'') (\<lambda>s. bindE (must (s \<in> set settled_states)) (\<lambda>_.
       if s = jlit ''UNKNOWN_HOLD_RETAINED'' then must (py_eq retained (JInt output_hold)) else Inr ())))))))))))"

text \<open>The keys and names seen so far, and the events that the revision has to count, are threaded through.\<close>

definition check_entry ::
  "externals \<Rightarrow> pool \<Rightarrow> json \<Rightarrow> json \<Rightarrow> json list \<times> json list list \<times> int \<Rightarrow> json \<Rightarrow> exn + json list \<times> json list list \<times> int" where
  "check_entry X G issuer owner_public seen e = (case seen of (ids, names, events) \<Rightarrow>
     bindE (sub_lit e ''key'') (\<lambda>key. bindE (must_hash key) (\<lambda>_.
     bindE (must (\<forall>j \<in> set ids. \<not> py_eq j key)) (\<lambda>_.
     bindE (sub_lit e ''binding'') (\<lambda>binding.
     bindE (logical_key binding) (\<lambda>name.
     bindE (must (\<forall>j \<in> set names. \<not> same_tuple j name)) (\<lambda>_.
     bindE (sub_lit e ''dispatch'') (\<lambda>sent.
     bindE (sub_lit e ''settlement'') (\<lambda>settlement.
     bindE (custody_digest X binding) (\<lambda>d. bindE (must (key = JStr d)) (\<lambda>_.
     bindE (sub_lit binding ''child_trust'') (\<lambda>child_trust.
     bindE (other_keys child_trust owner_public) (\<lambda>ok. bindE (must ok) (\<lambda>_.
     bindE (if sent = JNull then Inr () else check_dispatched X child_trust binding e sent) (\<lambda>_.
     bindE (sub_lit e ''ticket'') (\<lambda>ticket.
     bindE (same_field ticket ''issuer_identity'' issuer) (\<lambda>_.
     bindE (authenticate X ticket (pl_trust G)) (\<lambda>t.
     bindE (must (py_eq t (ticket_body binding key))) (\<lambda>_.
     bindE (sub_lit e ''retained_bytes'') (\<lambda>retained.
     bindE (must (pool_integer retained \<and> (case retained of JInt n \<Rightarrow> n \<le> output_hold | _ \<Rightarrow> False))) (\<lambda>_.
     bindE (check_settlement X G issuer e sent settlement) (\<lambda>_.
     Inr (ids @ [key], names @ [name],
          events + 1 + (if sent = JNull then 0 else 1) + (if settlement = JNull then 0 else 1))))))))))))))))))))))))"

fun check_entries ::
  "externals \<Rightarrow> pool \<Rightarrow> json \<Rightarrow> json \<Rightarrow> json list \<Rightarrow> json list \<times> json list list \<times> int \<Rightarrow> exn + json list \<times> json list list \<times> int" where
  "check_entries X G issuer owner_public [] seen = Inr seen"
| "check_entries X G issuer owner_public (e # es) seen =
     bindE (check_entry X G issuer owner_public seen e) (\<lambda>seen'. check_entries X G issuer owner_public es seen')"

definition pool_entries :: "json \<Rightarrow> exn + json list" where
  "pool_entries b = bindE (sub_lit b ''entries'') py_iter"

text \<open>The slots taken and the bytes retained.\<close>

definition pool_usage :: "json \<Rightarrow> exn + int \<times> int" where
  "pool_usage b =
     bindE (pool_entries b) (\<lambda>es.
     bindE (mapE retained_of es) (\<lambda>ns. Inr (int (length es), sum_list ns)))"

definition used_of :: "int \<times> int \<Rightarrow> ustr \<Rightarrow> exn + int" where
  "used_of used k =
     (if k = lit ''dispatch_slots'' then Inr (fst used)
      else if k = lit ''retained_output_bytes'' then Inr (snd used)
      else Inl (PyErr PyKeyError k))"

definition within_capacities :: "int \<times> int \<Rightarrow> json \<Rightarrow> exn + unit" where
  "within_capacities used config =
     bindE (sub_lit config ''capacities'') (\<lambda>c.
       forE (\<lambda>(k, v). bindE (used_of used k) (\<lambda>u.
         case num_of v of
           Some n \<Rightarrow> must (u \<le> n)
         | None \<Rightarrow> Inl (PyErr PyTypeError (lit ''unorderable types'')))) (items c))"

text \<open>The issuer's key, which authentication has found; the code reads it again for each entry.\<close>

definition owner_public_of :: "pool \<Rightarrow> json \<Rightarrow> exn + json" where
  "owner_public_of G issuer = sub_lit (trust_entry (pl_trust G) issuer) ''public_key_hex''"

definition validate_record :: "externals \<Rightarrow> pool_host \<Rightarrow> pool \<Rightarrow> json \<Rightarrow> exn + json" where
  "validate_record X P G doc =
     bindE (sub_lit (pl_config G) ''owner_issuer'') (\<lambda>issuer.
     bindE (same_field doc ''issuer_identity'' issuer) (\<lambda>_.
     bindE (authenticate X doc (pl_trust G)) (\<lambda>b.
     bindE (same_field b ''schema'' (JStr pool_schema)) (\<lambda>_.
     bindE (same_field b ''pool_root'' (JStr (pl_root G))) (\<lambda>_.
     bindE (same_field b ''config_sha256'' (JStr (sha256_hex X (pl_config_bytes G)))) (\<lambda>_.
     bindE (same_field b ''owner_profile'' (owner_identity X P)) (\<lambda>_.
     bindE (same_field b ''observer'' (pl_observer G)) (\<lambda>_.
     bindE (false_field b ''automatic_retry'') (\<lambda>_.
     bindE (sub_lit b ''revision'') (\<lambda>revision.
     bindE (must (case revision of JInt n \<Rightarrow> 0 \<le> n | _ \<Rightarrow> False)) (\<lambda>_.
     bindE (pool_entries b) (\<lambda>es.
     bindE (owner_public_of G issuer) (\<lambda>owner_public.
     bindE (check_entries X G issuer owner_public es ([], [], 0)) (\<lambda>(ids, names, events).
     bindE (must (revision = JInt events)) (\<lambda>_.
     bindE (pool_usage b) (\<lambda>used.
     bindE (within_capacities used (pl_config G)) (\<lambda>_. Inr doc)))))))))))))))))"

section \<open>Changing the state\<close>

definition pool_locked :: "pool_host \<Rightarrow> ustr \<Rightarrow> fs \<Rightarrow> exn + unit" where
  "pool_locked P home t =
     (case map_of t (ledger_file home ''lock'') of
        None \<Rightarrow> Inl (os_failure ENoent)
      | Some (File b) \<Rightarrow>
          bindE (must (ch_links (custody_host.truncate P) (home @ lit ''/lock'') = 1)) (\<lambda>_.
          must_or ''Interrupted pool publication; UNKNOWN, no new dispatch.''
            (map_of t (ledger_file home ''pending.json'') = None))
      | Some Special \<Rightarrow> Inl refused_input
      | Some _ \<Rightarrow> Inl (os_failure EOther))"

definition loaded_pool :: "externals \<Rightarrow> pool_host \<Rightarrow> pool \<Rightarrow> fs \<Rightarrow> exn + json" where
  "loaded_pool X P G t =
     bindE (pool_locked P (pl_root G) t) (\<lambda>_.
     bindE (read_state (ledger_of P) (pl_root G) t) (\<lambda>b.
     bindE (load_json_bytes b) (\<lambda>doc. validate_record X P G doc)))"

definition pool_snapshot :: "externals \<Rightarrow> pool_host \<Rightarrow> pool \<Rightarrow> bytes io" where
  "pool_snapshot X P G = readS (\<lambda>t. bindE (loaded_pool X P G t) raw)"

definition pool_successor :: "externals \<Rightarrow> pool_host \<Rightarrow> pool \<Rightarrow> json \<Rightarrow> json \<Rightarrow> exn + bytes" where
  "pool_successor X P G old b =
     bindE (sub_lit b ''revision'') (\<lambda>r.
     bindE (case num_of r of Some n \<Rightarrow> Inr (JInt (n + 1)) | None \<Rightarrow> Inl (PyErr PyTypeError (lit ''unsupported operand''))) (\<lambda>r'.
     bindE (sub_lit old ''sha256'') (\<lambda>p.
     bindE (pool_envelope X P G (set_member ''previous'' p (set_member ''revision'' r' b))) (\<lambda>e.
     bindE (raw e) (\<lambda>payload.
     bindE (must (length payload \<le> max_ledger_bytes)) (\<lambda>_. Inr payload))))))"

text \<open>\<open>_change\<close>: what \<open>fn\<close> does to the body, and to the tree, comes between the load and the publication.\<close>

definition change_pool :: "externals \<Rightarrow> pool_host \<Rightarrow> pool \<Rightarrow> (json \<Rightarrow> (json \<times> json) io) \<Rightarrow> json io" where
  "change_pool X P G fn =
     bindS (readS (loaded_pool X P G)) (\<lambda>old.
     bindS (fn (member old ''body'')) (\<lambda>(b, result).
     bindS (readS (\<lambda>t. pool_successor X P G old b)) (\<lambda>payload.
     bindS (publish_state (pl_root G) payload) (\<lambda>_. returnS result))))"

section \<open>Reserving\<close>

text \<open>\<open>json.dumps(unsigned, sort_keys=True, \<dots>)\<close> of a loaded value is its canonical text.\<close>

definition without_identity :: "json \<Rightarrow> json" where
  "without_identity q = JDict (filter (\<lambda>(k, v). k \<noteq> lit ''identity_sha256'') (items q))"

definition check_dispatch_request :: "externals \<Rightarrow> bytes \<Rightarrow> json \<Rightarrow> json \<Rightarrow> exn + unit" where
  "check_dispatch_request X start_bytes p q =
     bindE (same_field q ''schema'' (jlit ''engineer.child-dispatch-request/1'')) (\<lambda>_.
     bindE (false_field q ''authority_granted'') (\<lambda>_.
     bindE (false_field q ''automatic_retry'') (\<lambda>_.
     bindE (same_two q ''task_key'' p ''task_key'') (\<lambda>_.
     bindE (same_two q ''task_identity'' p ''task_identity'') (\<lambda>_.
     bindE (sub_lit p ''parent_binding'') (\<lambda>parent.
     bindE (same_two q ''operation_id'' parent ''operation_id'') (\<lambda>_.
     bindE (same_two q ''attempt_id'' parent ''attempt_id'') (\<lambda>_.
     bindE (sub_lit q ''parent_start'') (\<lambda>start.
     bindE (same_field start ''sha256'' (JStr (sha256_hex X start_bytes))) (\<lambda>_.
     bindE (sub_lit q ''child_id'') (\<lambda>child.
     bindE (bindE (sub_lit p ''expected_child_ids'') py_iter) (\<lambda>ids.
     bindE (must (\<exists>i \<in> set ids. py_eq i child)) (\<lambda>_.
     bindE (custody_digest X (without_identity q)) (\<lambda>d.
     same_field q ''identity_sha256'' (JStr d)))))))))))))))"

definition pool_binding :: "externals \<Rightarrow> pool \<Rightarrow> ledger \<Rightarrow> bytes \<Rightarrow> exn + json" where
  "pool_binding X G Q request_bytes =
     bindE (load_json_bytes request_bytes) (\<lambda>q.
     bindE (parent_binding X (lg_start Q) (lg_basis Q)) (\<lambda>p.
     bindE (check_dispatch_request X (lg_start Q) p q) (\<lambda>_.
     bindE (must_or ''Unselected child issuer.'' (py_eq (lg_trust Q) (pl_child_trust G))) (\<lambda>_.
     bindE (sub_lit (pl_config G) ''pool_id'') (\<lambda>pool_id.
     bindE (sub_lit q ''input_sha256'') (\<lambda>input.
     Inr (JDict [(lit ''pool_id'', pool_id), (lit ''config_sha256'', JStr (sha256_hex X (pl_config_bytes G))),
       (lit ''pool_root'', JStr (pl_root G)), (lit ''task_key'', member p ''task_key''),
       (lit ''task_identity'', member p ''task_identity''), (lit ''parent_start_sha256'', JStr (sha256_hex X (lg_start Q))),
       (lit ''parent_operation_id'', member (member p ''parent_binding'') ''operation_id''),
       (lit ''parent_attempt_id'', member (member p ''parent_binding'') ''attempt_id''),
       (lit ''child_id'', member q ''child_id''), (lit ''request_identity'', member q ''identity_sha256''),
       (lit ''request_sha256'', JStr (sha256_hex X request_bytes)), (lit ''child_trust'', pl_child_trust G),
       (lit ''input_sha256'', input), (lit ''ledger_root'', JStr (lg_root Q)),
       (lit ''budget_sha256'', JStr (sha256_hex X (lg_budget Q))), (lit ''observer'', pl_observer G)])))))))"

text \<open>The marker in the ledger's directory: written once, and the same ever after. A link there is an \<open>OSError\<close>.\<close>

definition owner_marker :: "externals \<Rightarrow> pool_host \<Rightarrow> pool \<Rightarrow> ledger \<Rightarrow> exn + bytes" where
  "owner_marker X P G Q =
     bindE (pool_envelope X P G (JDict [(lit ''schema'', jlit ''vfy.common-owner-binding/1''), (lit ''pool_root'', JStr (pl_root G)),
       (lit ''config_sha256'', JStr (sha256_hex X (pl_config_bytes G))), (lit ''owner_issuer'', JStr (pl_issuer G)),
       (lit ''ledger_root'', JStr (lg_root Q)), (lit ''authority_granted'', JBool False), (lit ''automatic_retry'', JBool False)])) raw"

definition bind_partition :: "externals \<Rightarrow> pool_host \<Rightarrow> pool \<Rightarrow> ledger \<Rightarrow> unit io" where
  "bind_partition X P G Q =
     (let p = ledger_file (lg_root Q) ''common-owner.json''; name = lg_root Q @ lit ''/common-owner.json'' in
      bindS (readS (\<lambda>t. owner_marker X P G Q)) (\<lambda>marker.
      bindS (readS (\<lambda>t. Inr (map_of t p = None))) (\<lambda>absent.
      if absent then fresh_file p marker
      else readS (\<lambda>t. bindE (read_ledger_file (ledger_of P) name p t) (\<lambda>b.
             must_or ''Partition bound to a different pool.'' (b = marker))))))"

text \<open>\<open>all(v[k] == w[k] for k in names)\<close>, which stops at the first that differs.\<close>

fun same_all :: "json \<Rightarrow> json \<Rightarrow> string list \<Rightarrow> exn + bool" where
  "same_all v w [] = Inr True"
| "same_all v w (k # ks) =
     bindE (sub_lit v k) (\<lambda>x. bindE (sub_lit w k) (\<lambda>y. if py_eq x y then same_all v w ks else Inr False))"

definition held_by :: "json \<Rightarrow> json \<Rightarrow> exn + bool" where
  "held_by binding e =
     bindE (sub_lit e ''binding'') (\<lambda>own.
     bindE (same_all own binding [''parent_start_sha256'', ''child_id'']) (\<lambda>same.
     if same then Inr True else same_all own binding logical_fields))"

definition capacity_of :: "json \<Rightarrow> string \<Rightarrow> exn + int" where
  "capacity_of config k =
     bindE (sub_lit config ''capacities'') (\<lambda>c. bindE (sub_lit c k) (\<lambda>v.
     case num_of v of Some n \<Rightarrow> Inr n | None \<Rightarrow> Inl (PyErr PyTypeError (lit ''unorderable types''))))"

definition room_for_one :: "int \<times> int \<Rightarrow> json \<Rightarrow> exn + unit" where
  "room_for_one used config =
     bindE (capacity_of config ''dispatch_slots'') (\<lambda>slots.
     bindE (must_or ''Common capacity exhausted; no dispatch.'' (fst used + 1 \<le> slots)) (\<lambda>_.
     bindE (capacity_of config ''retained_output_bytes'') (\<lambda>bytes.
     must_or ''Common capacity exhausted; no dispatch.'' (snd used + output_hold \<le> bytes))))"

definition new_entry :: "json \<Rightarrow> json \<Rightarrow> json \<Rightarrow> json" where
  "new_entry key binding ticket =
     JDict [(lit ''key'', key), (lit ''binding'', binding), (lit ''ticket'', ticket), (lit ''dispatch'', JNull),
       (lit ''settlement'', JNull), (lit ''retained_bytes'', JInt output_hold)]"

definition append_entry :: "json \<Rightarrow> json \<Rightarrow> exn + json" where
  "append_entry e b =
     (case get_lit b ''entries'' of
        Some (JList es) \<Rightarrow> Inr (set_member ''entries'' (JList (es @ [e])) b)
      | _ \<Rightarrow> Inl (PyErr PyAttributeError (lit ''append'')))"

definition reserve_entry :: "externals \<Rightarrow> pool_host \<Rightarrow> pool \<Rightarrow> json \<Rightarrow> json \<Rightarrow> json \<Rightarrow> exn + json \<times> json" where
  "reserve_entry X P G binding key b =
     bindE (pool_entries b) (\<lambda>es.
     bindE (findE (held_by binding) es) (\<lambda>held.
     bindE (must_or ''Child already held/consumed in this pool; no resend.'' (held = None)) (\<lambda>_.
     bindE (pool_usage b) (\<lambda>used.
     bindE (room_for_one used (pl_config G)) (\<lambda>_.
     bindE (pool_envelope X P G (ticket_body binding key)) (\<lambda>ticket.
     bindE (append_entry (new_entry key binding ticket) b) (\<lambda>b'. Inr (b', ticket))))))))"

definition pool_reserve :: "externals \<Rightarrow> pool_host \<Rightarrow> pool \<Rightarrow> ledger \<Rightarrow> bytes \<Rightarrow> json io" where
  "pool_reserve X P G Q request_bytes =
     bindS (readS (\<lambda>t. bindE (pool_binding X G Q request_bytes) (\<lambda>b.
                       bindE (custody_digest X b) (\<lambda>d. Inr (b, JStr d))))) (\<lambda>(binding, key).
     change_pool X P G (\<lambda>b. bindS (bind_partition X P G Q) (\<lambda>_.
       readS (\<lambda>t. reserve_entry X P G binding key b))))"

section \<open>Dispatch and settlement\<close>

definition set_entry :: "json \<Rightarrow> string \<Rightarrow> json \<Rightarrow> json \<Rightarrow> json" where
  "set_entry key k v b =
     (case get_lit b ''entries'' of
        Some (JList es) \<Rightarrow> set_member ''entries'' (JList (update_first (has_id ''key'' key) (set_member k v) es)) b
      | _ \<Rightarrow> b)"

text \<open>\<open>_entry\<close>: exactly one entry of the ticket's reservation, and it bears this ticket.\<close>

definition find_entry :: "externals \<Rightarrow> pool \<Rightarrow> json \<Rightarrow> json \<Rightarrow> exn + json" where
  "find_entry X G b ticket =
     bindE (authenticate X ticket (pl_trust G)) (\<lambda>t.
     bindE (pool_entries b) (\<lambda>es.
     bindE (mapE (\<lambda>e. bindE (sub_lit e ''key'') (\<lambda>k. bindE (sub_lit t ''reservation_id'') (\<lambda>i. Inr (py_eq k i)))) es) (\<lambda>flags.
     (case map fst (filter snd (zip es flags)) of
        [e] \<Rightarrow> bindE (same_field e ''ticket'' ticket) (\<lambda>_. Inr e)
      | _ \<Rightarrow> Inl refused_input))))"

definition bind_change :: "externals \<Rightarrow> pool \<Rightarrow> json \<Rightarrow> json \<Rightarrow> json \<Rightarrow> json \<Rightarrow> exn + json \<times> json" where
  "bind_change X G ticket reservation binding_record b =
     bindE (find_entry X G b ticket) (\<lambda>e.
     bindE (sub_lit e ''dispatch'') (\<lambda>sent. bindE (must (sent = JNull)) (\<lambda>_.
     bindE (sub_lit e ''binding'') (\<lambda>p.
     bindE (same_field p ''child_trust'' (pl_child_trust G)) (\<lambda>_.
     bindE (authenticate X reservation (pl_child_trust G)) (\<lambda>r.
     bindE (authenticate X binding_record (pl_child_trust G)) (\<lambda>d.
     bindE (same_two r ''parent_start_sha256'' p ''parent_start_sha256'') (\<lambda>_.
     bindE (same_two r ''child_id'' p ''child_id'') (\<lambda>_.
     bindE (same_two r ''budget_sha256'' p ''budget_sha256'') (\<lambda>_.
     bindE (same_two d ''reservation_sha256'' reservation ''sha256'') (\<lambda>_.
     bindE (same_two d ''request_sha256'' p ''request_sha256'') (\<lambda>_.
     bindE (same_two d ''request_identity'' p ''request_identity'') (\<lambda>_.
     bindE (same_field d ''observer'' (pl_observer G)) (\<lambda>_.
     bindE (same_two d ''common_reservation_sha256'' ticket ''sha256'') (\<lambda>_.
     bindE (sub_lit e ''key'') (\<lambda>key.
     (let dispatched = JDict [(lit ''reservation'', reservation), (lit ''binding'', binding_record)]
      in Inr (set_entry key ''dispatch'' dispatched b, dispatched))))))))))))))))))"

definition bind_dispatch :: "externals \<Rightarrow> pool_host \<Rightarrow> pool \<Rightarrow> json \<Rightarrow> json \<Rightarrow> json \<Rightarrow> json io" where
  "bind_dispatch X P G ticket reservation binding_record =
     change_pool X P G (\<lambda>b. readS (\<lambda>t. bind_change X G ticket reservation binding_record b))"

text \<open>What the observer hands over of one child.\<close>

record child_result =
  cr_reservation :: json
  cr_acquisition :: json
  cr_completion :: json
  cr_settlement :: json
  cr_stdout :: bytes
  cr_stderr :: bytes

definition console_row :: "json \<Rightarrow> string \<Rightarrow> exn + rat option" where
  "console_row record_body field =
     bindE (sub_lit record_body ''resource_rows'') (\<lambda>rows. bindE (axes rows field) (\<lambda>a.
     case map_of a (lit ''captured_console_bytes'') of
       Some v \<Rightarrow> Inr v
     | None \<Rightarrow> Inl (PyErr PyKeyError (lit ''captured_console_bytes''))))"

text \<open>The records of the child belong together and state the bytes that were handed over.\<close>

definition check_child_result ::
  "externals \<Rightarrow> pool \<Rightarrow> json \<Rightarrow> child_result \<Rightarrow> int \<Rightarrow> exn + json \<times> json \<times> json" where
  "check_child_result X G sent result n =
     bindE (sub_lit sent ''reservation'') (\<lambda>reservation.
     bindE (must (py_eq (cr_reservation result) reservation)) (\<lambda>_.
     bindE (authenticate X (cr_acquisition result) (pl_child_trust G)) (\<lambda>a.
     bindE (authenticate X (cr_completion result) (pl_child_trust G)) (\<lambda>c.
     bindE (authenticate X (cr_settlement result) (pl_child_trust G)) (\<lambda>s.
     bindE (sub_lit sent ''binding'') (\<lambda>br. bindE (custody_digest X br) (\<lambda>bd.
     bindE (same_field a ''binding_sha256'' (JStr bd)) (\<lambda>_.
     bindE (same_field a ''observer'' (pl_observer G)) (\<lambda>_.
     bindE (same_two a ''completion_sha256'' (cr_completion result) ''sha256'') (\<lambda>_.
     bindE (same_two a ''settlement_sha256'' (cr_settlement result) ''sha256'') (\<lambda>_.
     bindE (same_two c ''reservation_sha256'' reservation ''sha256'') (\<lambda>_.
     bindE (same_two s ''reservation_sha256'' reservation ''sha256'') (\<lambda>_.
     bindE (same_two s ''completion_sha256'' (cr_completion result) ''sha256'') (\<lambda>_.
     bindE (must (n \<le> output_hold)) (\<lambda>_.
     bindE (same_field a ''captured_bytes'' (JInt n)) (\<lambda>_.
     bindE (same_field a ''stdout_sha256'' (JStr (sha256_hex X (cr_stdout result)))) (\<lambda>_.
     bindE (same_field a ''stderr_sha256'' (JStr (sha256_hex X (cr_stderr result)))) (\<lambda>_.
     bindE (console_row c ''measured_amount'') (\<lambda>measured.
     bindE (must (measured = Some (of_int n))) (\<lambda>_. Inr (a, c, s)))))))))))))))))))))"

text \<open>
  \<open>known\<close>: performed by all three accounts, in time, whole and with exit status 0. The comparison of the three
  accounts stops at the first that differs.
\<close>

definition fully_known :: "json \<Rightarrow> json \<Rightarrow> json \<Rightarrow> exn + bool" where
  "fully_known a c s =
     bindE (sub_lit a ''service_performed'') (\<lambda>pa. bindE (sub_lit c ''service_performed'') (\<lambda>pc.
     if \<not> py_eq pa pc then Inr False
     else bindE (sub_lit s ''service_performed'') (\<lambda>ps.
       if \<not> (py_eq pc ps \<and> ps = jlit ''PERFORMED'') then Inr False
       else bindE (sub_lit a ''timed_out'') (\<lambda>late.
         if truthy late then Inr False
         else bindE (sub_lit a ''output_truncated'') (\<lambda>cut.
           if truthy cut then Inr False
           else bindE (sub_lit a ''exit_status'') (\<lambda>status. Inr (py_eq status (JInt 0))))))))"

definition settlement_body :: "json \<Rightarrow> json \<Rightarrow> child_result \<Rightarrow> bool \<Rightarrow> int \<Rightarrow> exn + json" where
  "settlement_body key ticket result sure n =
     bindE (sub_lit ticket ''sha256'') (\<lambda>ts.
     bindE (sub_lit (cr_acquisition result) ''sha256'') (\<lambda>acq.
     bindE (sub_lit (cr_settlement result) ''sha256'') (\<lambda>child.
     Inr (JDict [(lit ''schema'', jlit ''vfy.common-settlement/1''), (lit ''reservation_id'', key),
       (lit ''reservation_sha256'', ts), (lit ''acquisition_sha256'', acq), (lit ''child_settlement_sha256'', child),
       (lit ''retained_bytes'', JInt n), (lit ''dispatch_slots_consumed'', JInt 1),
       (lit ''state'', if sure then jlit ''KNOWN_LOCAL_RETAINED_OUTPUT'' else jlit ''UNKNOWN_HOLD_RETAINED''),
       (lit ''authority_granted'', JBool False), (lit ''automatic_retry'', JBool False)]))))"

definition settle_entry ::
  "externals \<Rightarrow> pool_host \<Rightarrow> pool \<Rightarrow> json \<Rightarrow> child_result \<Rightarrow> json \<Rightarrow> exn + json \<times> json" where
  "settle_entry X P G ticket result b =
     bindE (find_entry X G b ticket) (\<lambda>e.
     bindE (sub_lit e ''settlement'') (\<lambda>settlement. bindE (must (settlement = JNull)) (\<lambda>_.
     bindE (sub_lit e ''dispatch'') (\<lambda>sent. bindE (must (sent \<noteq> JNull)) (\<lambda>_.
     bindE (sub_lit e ''binding'') (\<lambda>p. bindE (same_field p ''child_trust'' (pl_child_trust G)) (\<lambda>_.
     (let n = int (length (cr_stdout result)) + int (length (cr_stderr result)) in
      bindE (check_child_result X G sent result n) (\<lambda>(a, c, s).
      bindE (fully_known a c s) (\<lambda>sure.
      bindE (if sure then bindE (console_row s ''settled_amount_or_UNKNOWN'') (\<lambda>v. must (v = Some (of_int n))) else Inr ()) (\<lambda>_.
      bindE (sub_lit e ''key'') (\<lambda>key.
      (let retained = (if sure then n else output_hold) in
       bindE (settlement_body key ticket result sure retained) (\<lambda>own.
       bindE (pool_envelope X P G own) (\<lambda>signed.
       Inr (set_entry key ''settlement'' signed (set_entry key ''retained_bytes'' (JInt retained) b), signed))))))))))))))))"

definition pool_settle :: "externals \<Rightarrow> pool_host \<Rightarrow> pool \<Rightarrow> json \<Rightarrow> child_result \<Rightarrow> json io" where
  "pool_settle X P G ticket result = change_pool X P G (\<lambda>b. readS (\<lambda>t. settle_entry X P G ticket result b))"

text \<open>The dispatch of a child under a pool is the observer's, which is not modelled: an argument.\<close>

definition dispatch_common :: "(pool \<Rightarrow> 'a io) \<Rightarrow> json \<Rightarrow> pool \<Rightarrow> 'a io" where
  "dispatch_common observe selected_observer G =
     bindS (readS (\<lambda>t. must (py_eq selected_observer (pl_observer G)))) (\<lambda>_. observe G)"

section \<open>Verification of a selected snapshot\<close>

text \<open>\<open>Path(s)\<close> is absolute and prints as \<open>s\<close>: no empty and no \<open>.\<close> part, but for the one of a double slash.\<close>

definition lexical_absolute :: "ustr \<Rightarrow> bool" where
  "lexical_absolute s \<longleftrightarrow>
     (case components s of
        [] # cs \<Rightarrow>
          (let parts = (case cs of [] # ds \<Rightarrow> ds | _ \<Rightarrow> cs)
           in parts = [] \<or> parts = [[]] \<or> list_all (\<lambda>c. c \<noteq> [] \<and> c \<noteq> lit ''.'') parts) \<and> cs \<noteq> []
      | _ \<Rightarrow> False)"

definition check_snapshot_config :: "json \<Rightarrow> json \<Rightarrow> exn + unit" where
  "check_snapshot_config config owner_trust =
     bindE (set_is config config_fields) (\<lambda>ok. bindE (must ok) (\<lambda>_.
     bindE (same_field config ''schema'' (JStr pool_profile)) (\<lambda>_.
     bindE (same_field config ''scope'' (jlit ''REVIEWED_LOCAL_VERIFIER_ONLY'')) (\<lambda>_.
     bindE (check_capacities config) (\<lambda>_.
     bindE (sub_lit config ''pool_id'') (\<lambda>i. bindE (must (plain_text i)) (\<lambda>_.
     bindE (sub_lit config ''owner_issuer'') (\<lambda>owner. bindE (must_hash owner) (\<lambda>_.
     must (case owner of JStr s \<Rightarrow> s \<in> set (keys (items owner_trust)) | _ \<Rightarrow> False))))))))))"

definition selected_trust :: "json \<Rightarrow> exn + json \<times> json" where
  "selected_trust e =
     bindE (sub_lit e ''binding'') (\<lambda>b.
     bindE (sub_lit b ''request_identity'') (\<lambda>i. bindE (sub_lit b ''child_trust'') (\<lambda>t.
     bindE (must_hash i) (\<lambda>_. Inr (i, t)))))"

definition selected_trusts :: "json list \<Rightarrow> exn + (json \<times> json) list" where
  "selected_trusts es = mapE selected_trust es"

text \<open>A dictionary with a key that is not a text equals no JSON object.\<close>

definition trusts_equal :: "(json \<times> json) list \<Rightarrow> json \<Rightarrow> bool" where
  "trusts_equal sel expected \<longleftrightarrow>
     list_all (\<lambda>(k, v). is_str k) sel \<and> py_eq (JDict (foldl (\<lambda>d (k, v). dset (the_str k) v d) [] sel)) expected"

definition capacity_report :: "externals \<Rightarrow> pool \<Rightarrow> json \<Rightarrow> int \<times> int \<Rightarrow> json" where
  "capacity_report X G b used =
     JDict [(lit ''state'', jlit ''VERIFIED_SELECTED_COMMON_CAPACITY_NOT_FRESHNESS''), (lit ''revision'', member b ''revision''),
       (lit ''pool_id'', member (pl_config G) ''pool_id''), (lit ''config_sha256'', JStr (sha256_hex X (pl_config_bytes G))),
       (lit ''used'', JDict [(lit ''dispatch_slots'', JInt (fst used)), (lit ''retained_output_bytes'', JInt (snd used))]),
       (lit ''capacities'', member (pl_config G) ''capacities''),
       (lit ''scope'', jlit ''CUMULATIVE_DISPATCH_SLOTS_AND_RETAINED_CAPTURED_PAYLOAD_ONLY''),
       (lit ''full_lifecycle_accounting'', jlit ''UNKNOWN''), (lit ''authority_granted'', JBool False),
       (lit ''automatic_retry'', JBool False)]"

text \<open>The view: a pool of the selected configuration, trust and observer that holds no key.\<close>

definition view_pool :: "ustr \<Rightarrow> json \<Rightarrow> bytes \<Rightarrow> json \<Rightarrow> json \<Rightarrow> pool" where
  "view_pool expected_root owner_trust config_bytes config observer =
     \<lparr>pl_root = expected_root, pl_seed = [], pl_issuer = [], pl_trust = owner_trust, pl_config_bytes = config_bytes,
      pl_config = config, pl_child_trust = JNull, pl_observer = observer\<rparr>"

definition verify_capacity_snapshot ::
  "externals \<Rightarrow> pool_host \<Rightarrow> bytes \<Rightarrow> json \<Rightarrow> bytes \<Rightarrow> ustr \<Rightarrow> json \<Rightarrow> json \<Rightarrow> json \<Rightarrow> exn + json" where
  "verify_capacity_snapshot X P snapshot owner_trust config_bytes expected_root expected_trusts observer minimum =
     bindE (must (length snapshot \<le> max_ledger_bytes)) (\<lambda>_.
     bindE (load_json_bytes config_bytes) (\<lambda>config.
     bindE (check_snapshot_config config owner_trust) (\<lambda>_.
     bindE (must (is_dict expected_trusts)) (\<lambda>_.
     bindE (must (lexical_absolute expected_root)) (\<lambda>_.
     (let G = view_pool expected_root owner_trust config_bytes config observer in
      bindE (load_json_bytes snapshot) (\<lambda>doc0.
      bindE (validate_record X P G doc0) (\<lambda>doc.
      (let b = member doc ''body'' in
       bindE (pool_entries b) (\<lambda>es.
       bindE (selected_trusts es) (\<lambda>sel.
       bindE (must_or ''Exact per-request child trust selections required.'' (trusts_equal sel expected_trusts)) (\<lambda>_.
       bindE (must (pool_integer minimum \<and> revision_ok (member b ''revision'') minimum)) (\<lambda>_.
       bindE (pool_usage b) (\<lambda>used. Inr (capacity_report X G b used)))))))))))))))"

end
