(* ===== verification/Conservation.thy ===== *)
theory Conservation
  imports Pool
begin

text \<open>
  What the common pool keeps: whatever its operations are called with and wherever the host stops them, the
  published state stays within the capacities, names no child twice and forgets no child.
\<close>

section \<open>What an entry and a state are\<close>

definition entry_name :: "json \<Rightarrow> json list" where
  "entry_name e = map (member (member e ''binding'')) logical_fields"

definition retained :: "json \<Rightarrow> int" where
  "retained e = (case get_lit e ''retained_bytes'' of Some (JInt n) \<Rightarrow> n | _ \<Rightarrow> 0)"

definition entry_kept :: "json \<Rightarrow> bool" where
  "entry_kept e \<longleftrightarrow> is_dict e \<and>
     (\<exists>d. get_lit e ''key'' = Some (JStr d)) \<and>
     (\<exists>n. get_lit e ''retained_bytes'' = Some (JInt n) \<and> 0 \<le> n \<and> n \<le> output_hold \<and>
          (get_lit e ''settlement'' = Some JNull \<longrightarrow> n = output_hold)) \<and>
     list_all hashable (entry_name e)"

definition roomy :: "json \<Rightarrow> json list \<Rightarrow> bool" where
  "roomy config es \<longleftrightarrow>
     (\<forall>n. capacity_of config ''dispatch_slots'' = Inr n \<longrightarrow> int (length es) \<le> n) \<and>
     (\<forall>n. capacity_of config ''retained_output_bytes'' = Inr n \<longrightarrow> sum_list (map retained es) \<le> n)"

definition named_apart :: "json list list \<Rightarrow> bool" where
  "named_apart names \<longleftrightarrow> sorted_wrt (\<lambda>x y. \<not> same_tuple x y) names"

definition pool_kept :: "json \<Rightarrow> json \<Rightarrow> bool" where
  "pool_kept config b \<longleftrightarrow>
     (\<exists>es. pool_entries b = Inr es \<and> (\<forall>e \<in> set es. entry_kept e) \<and> named_apart (map entry_name es) \<and> roomy config es)"

definition pool_names :: "json \<Rightarrow> json list list" where
  "pool_names b = (case pool_entries b of Inr es \<Rightarrow> map entry_name es | Inl e \<Rightarrow> [])"

lemma retained_get: "get_lit e ''retained_bytes'' = Some (JInt n) \<Longrightarrow> retained e = n"
  by (simp add: retained_def)

lemma entry_kept_bounds: "entry_kept e \<Longrightarrow> 0 \<le> retained e \<and> retained e \<le> output_hold"
  by (auto simp: entry_kept_def retained_def)

section \<open>What validation establishes\<close>

lemma logical_key_Inr:
  assumes "logical_key v = Inr l"
  shows "l = map (member v) logical_fields" and "list_all hashable l" and "\<forall>k \<in> set logical_fields. sub_lit v k = Inr (member v k)"
proof -
  from assms have l: "list_all2 (\<lambda>k w. sub_lit v k = Inr w) logical_fields l" and h: "\<forall>x \<in> set l. hashable x"
    by (auto simp: logical_key_def bindE_Inr_iff mapE_Inr_iff forE_Inr_iff must_hash_def split: if_splits)
  from h show "list_all hashable l" by (simp add: list_all_iff)
  show e: "l = map (member v) logical_fields"
  proof (rule nth_equalityI)
    show "length l = length (map (member v) logical_fields)" using l by (simp add: list_all2_lengthD)
    show "l ! i = map (member v) logical_fields ! i" if "i < length l" for i
      using list_all2_nthD2 [OF l that] that list_all2_lengthD [OF l] by (simp add: member_sub)
  qed
  show "\<forall>k \<in> set logical_fields. sub_lit v k = Inr (member v k)"
    using l unfolding e by (auto simp: list_all2_conv_all_nth in_set_conv_nth)
qed

lemma check_entry_Inr:
  assumes "check_entry X G issuer public (ids, names, events) e = Inr (ids', names', events')"
  shows "entry_kept e" and "names' = names @ [entry_name e]" and "\<forall>j \<in> set names. \<not> same_tuple j (entry_name e)"
proof -
  from assms obtain key binding name d settlement retained sent u where
      k: "sub_lit e ''key'' = Inr key" "key = JStr d"
    and b: "sub_lit e ''binding'' = Inr binding" "logical_key binding = Inr name"
    and n: "\<forall>j \<in> set names. \<not> same_tuple j name" "names @ [name] = names'"
    and r: "sub_lit e ''settlement'' = Inr settlement" "sub_lit e ''retained_bytes'' = Inr retained"
      "pool_integer retained" "case retained of JInt n \<Rightarrow> n \<le> output_hold | _ \<Rightarrow> False"
      "check_settlement X G issuer e sent settlement = Inr u"
    unfolding check_entry_def prod.case bindE_Inr_iff must_Inr sum.inject prod.inject
    by (elim exE conjE) (rule that)
  note l = logical_key_Inr [OF b(2)]
  have name: "entry_name e = name" using l(1) member_sub [OF b(1)] by (simp add: entry_name_def)
  obtain n where ret: "retained = JInt n" "0 \<le> n" "n \<le> output_hold"
    using r(3,4) by (cases retained) (auto simp: pool_integer_def)
  have "settlement = JNull \<Longrightarrow> n = output_hold"
    using r(2,5) ret(1) by (simp add: check_settlement_def)
  moreover have g: "is_dict e" "get_lit e ''key'' = Some (JStr d)" "get_lit e ''settlement'' = Some settlement"
      "get_lit e ''retained_bytes'' = Some (JInt n)"
    using sub_lit_dict [OF k(1)] sub_lit_dict [OF r(1)] sub_lit_dict [OF r(2)] k(2) ret(1) by simp_all
  ultimately show "entry_kept e" using ret l(2) by (simp add: entry_kept_def name)
  show "names' = names @ [entry_name e]" "\<forall>j \<in> set names. \<not> same_tuple j (entry_name e)"
    using n by (auto simp: name)
qed

lemma check_entries_Inr:
  "check_entries X G issuer public es (ids, names, events) = Inr (ids', names', events') \<Longrightarrow> named_apart names \<Longrightarrow>
     (\<forall>e \<in> set es. entry_kept e) \<and> names' = names @ map entry_name es \<and> named_apart names'"
proof (induction es arbitrary: ids names events)
  case (Cons e es)
  from Cons.prems(1) obtain ids1 names1 events1 where
      c: "check_entry X G issuer public (ids, names, events) e = Inr (ids1, names1, events1)"
      "check_entries X G issuer public es (ids1, names1, events1) = Inr (ids', names', events')"
    by (auto simp: bindE_Inr_iff)
  note e = check_entry_Inr [OF c(1)]
  have "named_apart names1" using Cons.prems(2) e(2,3) by (simp add: named_apart_def sorted_wrt_append)
  from Cons.IH [OF c(2) this] e(1,2) show ?case by auto
qed simp

lemma retained_of_kept: "entry_kept e \<Longrightarrow> retained_of e = Inr (retained e)" (is "_ \<Longrightarrow> ?thesis")
proof -
  assume "entry_kept e"
  then obtain n where n: "get_lit e ''retained_bytes'' = Some (JInt n)" by (auto simp: entry_kept_def)
  with get_lit_sub [OF n] show ?thesis by (simp add: retained_of_def retained_def)
qed

lemma usage_kept:
  assumes "pool_entries b = Inr es" "\<forall>e \<in> set es. entry_kept e"
  shows "pool_usage b = Inr (int (length es), sum_list (map retained es))"
proof -
  have "mapE retained_of es = Inr (map retained es)" by (rule mapE_Inr) (use assms(2) in \<open>simp add: retained_of_kept\<close>)
  then show ?thesis by (simp add: pool_usage_def assms(1))
qed

lemma within_roomy:
  assumes "within_capacities (int (length es), sum_list (map retained es)) config = Inr ()"
  shows "roomy config es"
proof -
  let ?used = "(int (length es), sum_list (map retained es))"
  from assms obtain c where c: "sub_lit config ''capacities'' = Inr c"
      "forE (\<lambda>(k, v). bindE (used_of ?used k) (\<lambda>u.
         case num_of v of Some n \<Rightarrow> must (u \<le> n) | None \<Rightarrow> Inl (PyErr PyTypeError (lit ''unorderable types'')))) (items c) = Inr ()"
    unfolding within_capacities_def bindE_Inr_iff [of _ _ "()"] by blast
  have each: "u \<le> n" if "(k, v) \<in> set (items c)" "used_of ?used k = Inr u" "num_of v = Some n" for k v u n
    using c(2) [unfolded forE_Inr_iff, THEN bspec, OF that(1)] that(2,3) by simp
  have "u \<le> n" if "capacity_of config k = Inr n" "used_of ?used (lit k) = Inr u" for k n u
  proof -
    from that(1) c(1) obtain v where v: "sub_lit c k = Inr v" "num_of v = Some n"
      by (auto simp: capacity_of_def bindE_Inr_iff split: option.splits)
    have "(lit k, v) \<in> set (items c)" using sub_lit_dict [OF v(1)] by (cases c) (auto dest: map_of_SomeD)
    from each [OF this that(2) v(2)] show ?thesis .
  qed
  then show ?thesis unfolding roomy_def by (simp add: used_of_def)
qed

lemma validated_kept:
  assumes "validate_record X P G doc = Inr doc'"
  shows "doc' = doc" and "\<exists>b. authenticate X doc (pl_trust G) = Inr b \<and> pool_kept (pl_config G) b"
proof -
  from assms obtain issuer b es public seen used where
      a: "authenticate X doc (pl_trust G) = Inr b" "pool_entries b = Inr es"
      "check_entries X G issuer public es ([], [], 0) = Inr seen" "pool_usage b = Inr used"
      "within_capacities used (pl_config G) = Inr ()" "doc' = doc"
    unfolding validate_record_def bindE_Inr_iff by (auto simp: bindE_Inr_iff)
  obtain ids names events where "seen = (ids, names, events)" by (cases seen) auto
  with check_entries_Inr [of X G issuer public es "[]" "[]" 0] a(3)
  have k: "\<forall>e \<in> set es. entry_kept e" "named_apart (map entry_name es)" by (auto simp: named_apart_def)
  have "roomy (pl_config G) es" using a(4,5) usage_kept [OF a(2) k(1)] by (intro within_roomy) simp
  with a k show "doc' = doc" "\<exists>b. authenticate X doc (pl_trust G) = Inr b \<and> pool_kept (pl_config G) b"
    by (auto simp: pool_kept_def)
qed

section \<open>Entries in place\<close>

lemma entries_list:
  assumes "pool_entries b = Inr es" "\<forall>e \<in> set es. entry_kept e" "es \<noteq> []"
  shows "get_lit b ''entries'' = Some (JList es)"
proof -
  from assms(1) obtain v where v: "sub_lit b ''entries'' = Inr v" "py_iter v = Inr es"
    by (auto simp: pool_entries_def bindE_Inr_iff)
  obtain e rest where "es = e # rest" using assms(3) by (cases es) auto
  moreover from this assms(2) have "is_dict e" by (simp add: entry_kept_def)
  ultimately have "v = JList es" using v(2) by (cases v) (auto simp: map_eq_Cons_conv)
  with sub_lit_dict [OF v(1)] show ?thesis by simp
qed

lemma pool_entries_list: "get_lit b ''entries'' = Some (JList es) \<Longrightarrow> pool_entries b = Inr es"
  using get_lit_sub [of b "''entries''"] by (simp add: pool_entries_def)

lemma get_entries_dict: "get_lit b ''entries'' = Some v \<Longrightarrow> is_dict b"
  by (cases b) simp_all

lemma update_first_map: "find P xs = Some x \<Longrightarrow> g (f x) = g x \<Longrightarrow> map g (update_first P f xs) = map g xs"
  by (induction xs) (auto split: if_splits)

lemma update_first_sum:
  "find P xs = Some x \<Longrightarrow> sum_list (map g (update_first P f xs)) = sum_list (map g xs) - g x + (g (f x) :: int)"
  by (induction xs) (auto split: if_splits)

lemma update_first_twice:
  "(\<And>x. x \<in> set xs \<Longrightarrow> P x \<Longrightarrow> P (f x)) \<Longrightarrow> update_first P g (update_first P f xs) = update_first P (\<lambda>x. g (f x)) xs"
  by (induction xs) auto

lemma length_update_first [simp]: "length (update_first P f xs) = length xs"
  by (induction xs) auto

text \<open>An entry may be replaced by one of the same name that retains no more.\<close>

lemma update_kept:
  assumes "get_lit b ''entries'' = Some (JList es)" "pool_kept config b" "find P es = Some e"
    and f: "entry_kept (f e)" "entry_name (f e) = entry_name e" "retained (f e) \<le> retained e"
    and g: "get_lit b' ''entries'' = Some (JList (update_first P f es))"
  shows "pool_kept config b'" and "pool_names b' = pool_names b"
proof -
  note p = pool_entries_list [OF assms(1)]
  note p' = pool_entries_list [OF g]
  have k: "\<forall>e \<in> set es. entry_kept e" "named_apart (map entry_name es)" "roomy config es"
    using assms(2) p by (auto simp: pool_kept_def)
  have n: "map entry_name (update_first P f es) = map entry_name es" using f(2) by (intro update_first_map [OF assms(3)])
  have "\<forall>e \<in> set (update_first P f es). entry_kept e"
    using set_update_first [OF assms(3), of f] k(1) f(1) by auto
  moreover have "roomy config (update_first P f es)"
    using k(3) f(3) update_first_sum [OF assms(3), of retained f] by (auto simp: roomy_def)
  ultimately show "pool_kept config b'" using p' k(2) n by (simp add: pool_kept_def)
  show "pool_names b' = pool_names b" by (simp add: pool_names_def p p' n)
qed

lemma filter_flags: "list_all2 (\<lambda>x y. y = P x) xs flags \<Longrightarrow> map fst (filter snd (zip xs flags)) = filter P xs"
  by (induction rule: list_all2_induct) auto

lemma find_only: "filter P xs = [x] \<Longrightarrow> Q x \<Longrightarrow> (\<And>y. y \<in> set xs \<Longrightarrow> Q y \<Longrightarrow> P y) \<Longrightarrow> find Q xs = Some x"
proof -
  assume f: "filter P xs = [x]" and q: "Q x" "\<And>y. y \<in> set xs \<Longrightarrow> Q y \<Longrightarrow> P y"
  have "x \<in> set (filter P xs)" using f by simp
  then have x: "x \<in> set xs" by simp
  obtain y where y: "find Q xs = Some y" using x q(1) by (cases "find Q xs") (auto simp: find_None_iff)
  then have "y \<in> set xs" "Q y" by (auto simp: find_Some_iff)
  with q(2) have "y \<in> set (filter P xs)" by simp
  with f y show ?thesis by simp
qed

lemma find_entry_Inr:
  assumes "find_entry X G b ticket = Inr e" "pool_kept config b"
  obtains es d where "get_lit b ''entries'' = Some (JList es)" "entry_kept e" "get_lit e ''key'' = Some (JStr d)"
    "find (has_id ''key'' (JStr d)) es = Some e" "e \<in> set es"
proof -
  from assms(1) obtain t es flags where f: "pool_entries b = Inr es"
      "mapE (\<lambda>e. bindE (sub_lit e ''key'') (\<lambda>k. bindE (sub_lit t ''reservation_id'') (\<lambda>i. Inr (py_eq k i)))) es = Inr flags"
      "(case map fst (filter snd (zip es flags)) of
          [e] \<Rightarrow> bindE (same_field e ''ticket'' ticket) (\<lambda>_. Inr e) | _ \<Rightarrow> Inl refused_input) = Inr e"
    unfolding find_entry_def bindE_Inr_iff [of "authenticate _ _ _"] bindE_Inr_iff [of "pool_entries _"] bindE_Inr_iff [of "mapE _ _"]
    by blast
  then have one: "map fst (filter snd (zip es flags)) = [e]" by (auto simp: bindE_Inr_iff split: list.splits)
  have k: "\<forall>e \<in> set es. entry_kept e" using assms(2) f(1) by (auto simp: pool_kept_def)
  define P where "P x \<longleftrightarrow> (\<exists>i. sub_lit t ''reservation_id'' = Inr i \<and> has_id ''key'' i x)" for x
  have "list_all2 (\<lambda>x y. y = P x) es flags"
    using f(2) unfolding mapE_Inr_iff
    by (rule list_all2_mono) (auto simp: bindE_Inr_iff P_def has_id_def sub_lit_get dest!: sub_lit_dict)
  with one have fl: "filter P es = [e]" by (simp add: filter_flags)
  then have e: "e \<in> set es" "P e" by (auto simp: filter_eq_Cons_iff)
  with k have ke: "entry_kept e" by simp
  then obtain d where d: "get_lit e ''key'' = Some (JStr d)" by (auto simp: entry_kept_def)
  have q: "P x" if "x \<in> set es" "has_id ''key'' (JStr d) x" for x
    using that(2) e(2) d by (auto simp: P_def has_id_def split: option.splits)
  have "has_id ''key'' (JStr d) e" using d by (simp add: has_id_def)
  from find_only [where Q = "has_id ''key'' (JStr d)", OF fl this q] have "find (has_id ''key'' (JStr d)) es = Some e" .
  moreover have "get_lit b ''entries'' = Some (JList es)" using entries_list [OF f(1) k] e(1) by force
  ultimately show thesis using that ke d e(1) by blast
qed

lemma get_set_entry:
  assumes "get_lit b ''entries'' = Some (JList es)"
  shows "get_lit (set_entry key k v b) ''entries'' = Some (JList (update_first (has_id ''key'' key) (set_member k v) es))"
  using get_entries_dict [OF assms] assms by (simp add: set_entry_def)

lemma get_set_two:
  assumes "get_lit b ''entries'' = Some (JList es)" "j \<noteq> ''key''"
  shows "get_lit (set_entry key k v (set_entry key j w b)) ''entries''
     = Some (JList (update_first (has_id ''key'' key) (\<lambda>e. set_member k v (set_member j w e)) es))"
proof -
  have "has_id ''key'' key (set_member j w x)" if "has_id ''key'' key x" for x
  proof -
    have "is_dict x" using that by (cases x) (simp_all add: has_id_def)
    with that assms(2) show ?thesis by (simp add: has_id_def)
  qed
  then have "update_first (has_id ''key'' key) (set_member k v) (update_first (has_id ''key'' key) (set_member j w) es)
     = update_first (has_id ''key'' key) (\<lambda>e. set_member k v (set_member j w e)) es"
    by (intro update_first_twice) simp
  with get_set_entry [OF get_set_entry [OF assms(1)]] show ?thesis by simp
qed

section \<open>What the operations keep\<close>

lemma bind_kept:
  assumes "bind_change X G ticket reservation document b = Inr (b', r)" "pool_kept config b"
  shows "pool_kept config b'" and "pool_names b' = pool_names b"
proof -
  from assms(1) obtain e key v where c: "find_entry X G b ticket = Inr e" "sub_lit e ''key'' = Inr key"
      "b' = set_entry key ''dispatch'' v b"
    unfolding bind_change_def bindE_Inr_iff Let_def by blast
  obtain es d where e: "get_lit b ''entries'' = Some (JList es)" "entry_kept e" "get_lit e ''key'' = Some (JStr d)"
      "find (has_id ''key'' (JStr d)) es = Some e"
    by (rule find_entry_Inr [OF c(1) assms(2)])
  have dict: "is_dict e" using e(2) by (simp add: entry_kept_def)
  have key: "key = JStr d" using sub_lit_dict [OF c(2)] e(3) by simp
  have n: "entry_name (set_member ''dispatch'' v e) = entry_name e"
    using dict by (simp add: entry_name_def member_def)
  have "entry_kept (set_member ''dispatch'' v e)" using e(2) dict n by (auto simp: entry_kept_def)
  moreover have "retained (set_member ''dispatch'' v e) \<le> retained e" using dict by (simp add: retained_def)
  moreover have "get_lit b' ''entries'' = Some (JList (update_first (has_id ''key'' (JStr d)) (set_member ''dispatch'' v) es))"
    unfolding c(3) key by (rule get_set_entry [OF e(1)])
  ultimately show "pool_kept config b'" "pool_names b' = pool_names b"
    using update_kept [where f = "set_member ''dispatch'' v", OF e(1) assms(2) e(4) _ n] by blast+
qed

text \<open>A settlement gives bytes back only of an outcome that is fully known, and never takes any.\<close>

definition given_back :: "json \<Rightarrow> json \<Rightarrow> json \<Rightarrow> child_result \<Rightarrow> bool" where
  "given_back a c s result \<longleftrightarrow>
     (\<forall>account \<in> {a, c, s}. get_lit account ''service_performed'' = Some (jlit ''PERFORMED'')) \<and>
     (\<exists>late. get_lit a ''timed_out'' = Some late \<and> \<not> truthy late) \<and>
     (\<exists>cut. get_lit a ''output_truncated'' = Some cut \<and> \<not> truthy cut) \<and>
     (\<exists>status. get_lit a ''exit_status'' = Some status \<and> num_of status = Some 0) \<and>
     console_row c ''measured_amount'' = Inr (Some (of_nat (length (cr_stdout result) + length (cr_stderr result)))) \<and>
     console_row s ''settled_amount_or_UNKNOWN'' = Inr (Some (of_nat (length (cr_stdout result) + length (cr_stderr result))))"

lemma performed_by_all:
  "py_eq pa pc \<Longrightarrow> py_eq pc ps \<Longrightarrow> ps = jlit ''PERFORMED'' \<Longrightarrow> pa = ps \<and> pc = ps"
  by (cases pc; cases pa) auto

text \<open>\<open>known\<close> is exactly the first four.\<close>

lemma fully_known_True:
  "fully_known a c s = Inr True \<longleftrightarrow>
     (\<forall>account \<in> {a, c, s}. get_lit account ''service_performed'' = Some (jlit ''PERFORMED'')) \<and>
     (\<exists>late. get_lit a ''timed_out'' = Some late \<and> \<not> truthy late) \<and>
     (\<exists>cut. get_lit a ''output_truncated'' = Some cut \<and> \<not> truthy cut) \<and>
     (\<exists>status. get_lit a ''exit_status'' = Some status \<and> num_of status = Some 0)" (is "_ \<longleftrightarrow> ?known")
proof
  have z: "py_eq status (JInt 0) \<longleftrightarrow> num_of status = Some 0" for status by (cases status) auto
  assume "fully_known a c s = Inr True"
  then obtain pa pc ps late cut status where k: "sub_lit a ''service_performed'' = Inr pa" "sub_lit c ''service_performed'' = Inr pc"
      "sub_lit s ''service_performed'' = Inr ps" "py_eq pa pc" "py_eq pc ps" "ps = jlit ''PERFORMED''"
      "sub_lit a ''timed_out'' = Inr late" "\<not> truthy late" "sub_lit a ''output_truncated'' = Inr cut" "\<not> truthy cut"
      "sub_lit a ''exit_status'' = Inr status" "py_eq status (JInt 0)"
    unfolding fully_known_def bindE_Inr_iff by (auto simp: bindE_Inr_iff split: if_split_asm)
  with performed_by_all [OF k(4-6)] show ?known by (auto simp: z dest!: sub_lit_dict)
next
  have z: "py_eq status (JInt 0) \<longleftrightarrow> num_of status = Some 0" for status by (cases status) auto
  assume ?known
  then obtain late cut status where k: "sub_lit a ''service_performed'' = Inr (jlit ''PERFORMED'')"
      "sub_lit c ''service_performed'' = Inr (jlit ''PERFORMED'')" "sub_lit s ''service_performed'' = Inr (jlit ''PERFORMED'')"
      "sub_lit a ''timed_out'' = Inr late" "\<not> truthy late" "sub_lit a ''output_truncated'' = Inr cut" "\<not> truthy cut"
      "sub_lit a ''exit_status'' = Inr status" "py_eq status (JInt 0)"
    using z by (auto dest!: get_lit_sub)
  then show "fully_known a c s = Inr True" by (simp add: fully_known_def)
qed

lemma settle_entry_Inr:
  assumes "settle_entry X P G ticket result b = Inr (b', signed)" "pool_kept config b"
  obtains es d e a c s r where "get_lit b ''entries'' = Some (JList es)" "find (has_id ''key'' (JStr d)) es = Some e"
    "entry_kept e" "get_lit e ''key'' = Some (JStr d)" "get_lit e ''settlement'' = Some JNull" "signed \<noteq> JNull" "0 \<le> r" "r \<le> output_hold"
    "get_lit b' ''entries'' = Some (JList (update_first (has_id ''key'' (JStr d))
       (\<lambda>e. set_member ''settlement'' signed (set_member ''retained_bytes'' (JInt r) e)) es))"
    "authenticate X (cr_acquisition result) (pl_child_trust G) = Inr a" "authenticate X (cr_completion result) (pl_child_trust G) = Inr c"
    "authenticate X (cr_settlement result) (pl_child_trust G) = Inr s"
    "r = (if given_back a c s result then int (length (cr_stdout result)) + int (length (cr_stderr result)) else output_hold)"
proof -
  define n where "n = int (length (cr_stdout result)) + int (length (cr_stderr result))"
  from assms(1) obtain e settlement sent acs where f: "find_entry X G b ticket = Inr e"
      "sub_lit e ''settlement'' = Inr settlement" "settlement = JNull" and t: "check_child_result X G sent result n = Inr acs"
    and rest: "(case acs of (a, c, s) \<Rightarrow> bindE (fully_known a c s) (\<lambda>sure.
      bindE (if sure then bindE (console_row s ''settled_amount_or_UNKNOWN'') (\<lambda>v. must (v = Some (of_int n))) else Inr ()) (\<lambda>_.
      bindE (sub_lit e ''key'') (\<lambda>key.
      bindE (settlement_body key ticket result sure (if sure then n else output_hold)) (\<lambda>own.
      bindE (pool_envelope X P G own) (\<lambda>signed.
      Inr (set_entry key ''settlement'' signed (set_entry key ''retained_bytes'' (JInt (if sure then n else output_hold)) b), signed)))))))
      = Inr (b', signed)"
    unfolding settle_entry_def Let_def n_def [symmetric] bindE_Inr_iff [of "find_entry X G b ticket"]
    unfolding bindE_Inr_iff [of "sub_lit _ _"] bindE_Inr_iff [of "must _"] bindE_Inr_iff [of "same_field _ _ _"]
      bindE_Inr_iff [of "check_child_result _ _ _ _ _"] must_Inr
    by blast
  obtain a c s where acs: "acs = (a, c, s)" by (cases acs)
  from rest obtain sure u key own where k: "fully_known a c s = Inr sure"
      "(if sure then bindE (console_row s ''settled_amount_or_UNKNOWN'') (\<lambda>v. must (v = Some (of_int n))) else Inr ()) = Inr u"
      "sub_lit e ''key'' = Inr key" "pool_envelope X P G own = Inr signed"
      "b' = set_entry key ''settlement'' signed (set_entry key ''retained_bytes'' (JInt (if sure then n else output_hold)) b)"
    unfolding acs prod.case bindE_Inr_iff [of "fully_known _ _ _"] by (auto simp: bindE_Inr_iff)
  from t have r: "authenticate X (cr_acquisition result) (pl_child_trust G) = Inr a"
      "authenticate X (cr_completion result) (pl_child_trust G) = Inr c" "authenticate X (cr_settlement result) (pl_child_trust G) = Inr s"
      "n \<le> output_hold" "console_row c ''measured_amount'' = Inr (Some (of_int n))"
    unfolding check_child_result_def acs bindE_Inr_iff by (auto simp: bindE_Inr_iff)
  have m: "of_int n = (of_nat (length (cr_stdout result) + length (cr_stderr result)) :: rat)" by (simp add: n_def)
  have known: "sure \<longleftrightarrow> fully_known a c s = Inr True" using k(1) by auto
  have g: "sure \<longleftrightarrow> given_back a c s result"
    using k(2) r(5) known unfolding given_back_def m [symmetric] by (auto simp: fully_known_True bindE_Inr_iff)
  obtain es d where e: "get_lit b ''entries'' = Some (JList es)" "entry_kept e" "get_lit e ''key'' = Some (JStr d)"
      "find (has_id ''key'' (JStr d)) es = Some e"
    by (rule find_entry_Inr [OF f(1) assms(2)])
  have key: "key = JStr d" using sub_lit_dict [OF k(3)] e(3) by simp
  have "get_lit e ''settlement'' = Some JNull" using sub_lit_dict [OF f(2)] f(3) by simp
  moreover have "signed \<noteq> JNull" using k(4) envelope_body(2) unfolding pool_envelope_def by blast
  moreover have "0 \<le> (if sure then n else output_hold)" "(if sure then n else output_hold) \<le> output_hold"
    using r(4) by (simp_all add: n_def output_hold_def)
  moreover note get_set_two [OF e(1), of "''retained_bytes''" key "''settlement''" signed "JInt (if sure then n else output_hold)", folded k(5)]
  ultimately show thesis using that [OF e(1) e(4) e(2,3)] r(1-3) g unfolding key n_def [symmetric] by simp
qed

lemma settle_kept:
  assumes "settle_entry X P G ticket result b = Inr (b', signed)" "pool_kept config b"
  shows "pool_kept config b'" and "pool_names b' = pool_names b"
proof -
  obtain es d e a c s r where e: "get_lit b ''entries'' = Some (JList es)" "find (has_id ''key'' (JStr d)) es = Some e"
    "entry_kept e" "get_lit e ''settlement'' = Some JNull" "signed \<noteq> JNull" "0 \<le> r" "r \<le> output_hold"
    "get_lit b' ''entries'' = Some (JList (update_first (has_id ''key'' (JStr d))
       (\<lambda>e. set_member ''settlement'' signed (set_member ''retained_bytes'' (JInt r) e)) es))"
    by (rule settle_entry_Inr [OF assms]) (rule that)
  let ?e = "set_member ''settlement'' signed (set_member ''retained_bytes'' (JInt r) e)"
  have dict: "is_dict e" using e(3) by (simp add: entry_kept_def)
  have n: "entry_name ?e = entry_name e" using dict by (simp add: entry_name_def member_def)
  have k: "entry_kept ?e" using e(3,5-7) dict n by (auto simp: entry_kept_def)
  have "retained e = output_hold" using e(3,4) by (auto simp: entry_kept_def retained_def)
  with e(7) dict have "retained ?e \<le> retained e" by (simp add: retained_def)
  from update_kept [where f = "\<lambda>e. set_member ''settlement'' signed (set_member ''retained_bytes'' (JInt r) e)",
      OF e(1) assms(2) e(2) k n this e(8)]
  show "pool_kept config b'" "pool_names b' = pool_names b" by simp_all
qed

text \<open>A reservation adds one entry, of a name that none before it has.\<close>

lemma same_all_False:
  "same_all v w ks = Inr False \<Longrightarrow> \<not> same_tuple (map (member v) ks) (map (member w) ks)"
proof (induction ks)
  case (Cons k ks)
  from Cons.prems obtain x y where x: "sub_lit v k = Inr x" "sub_lit w k = Inr y"
      "(if py_eq x y then same_all v w ks else Inr False) = Inr False"
    by (auto simp: bindE_Inr_iff)
  with Cons.IH member_sub [OF x(1)] member_sub [OF x(2)] show ?case
    by (auto simp: same_tuple_def split: if_splits)
qed simp

lemma findE_None: "findE t xs = Inr None \<Longrightarrow> \<forall>x \<in> set xs. t x = Inr False"
  by (induction xs) (auto simp: bindE_Inr_iff split: if_splits)

lemma reserve_kept:
  assumes "reserve_entry X P G binding key b = Inr (b', ticket)" "pool_kept (pl_config G) b"
    and "key = JStr d" "list_all hashable (map (member binding) logical_fields)"
  shows "pool_kept (pl_config G) b'" and "pool_names b' = pool_names b @ [map (member binding) logical_fields]"
proof -
  let ?e = "new_entry key binding ticket" and ?n = "map (member binding) logical_fields"
  from assms(1) obtain es used u where r: "pool_entries b = Inr es" "findE (held_by binding) es = Inr None"
      "pool_usage b = Inr used" "room_for_one used (pl_config G) = Inr u" "append_entry ?e b = Inr b'"
    unfolding reserve_entry_def bindE_Inr_iff must_Inr by blast
  have k: "\<forall>e \<in> set es. entry_kept e" "named_apart (map entry_name es)" "roomy (pl_config G) es"
    using assms(2) r(1) by (auto simp: pool_kept_def)
  have n: "entry_name ?e = ?n" by (simp add: entry_name_def new_entry_def member_def)
  have ke: "entry_kept ?e" using assms(3,4) n by (simp add: entry_kept_def) (simp add: new_entry_def output_hold_def)
  have "\<not> same_tuple (entry_name e) ?n" if "e \<in> set es" for e
  proof -
    from findE_None [OF r(2)] that have "held_by binding e = Inr False" by blast
    then obtain own where "sub_lit e ''binding'' = Inr own" "same_all own binding logical_fields = Inr False"
      by (auto simp: held_by_def bindE_Inr_iff split: if_splits)
    from same_all_False [OF this(2)] member_sub [OF this(1)] show ?thesis by (simp add: entry_name_def)
  qed
  then have apart: "named_apart (map entry_name (es @ [?e]))"
    using k(2) n by (auto simp: named_apart_def sorted_wrt_append)
  have used: "used = (int (length es), sum_list (map retained es))" using usage_kept [OF r(1) k(1)] r(3) by simp
  have "retained ?e = output_hold" by (simp add: retained_def new_entry_def)
  with r(4) have room: "roomy (pl_config G) (es @ [?e])"
    by (auto simp: used room_for_one_def bindE_Inr_iff roomy_def)
  from r(5) obtain es' where es': "get_lit b ''entries'' = Some (JList es')" "b' = set_member ''entries'' (JList (es' @ [?e])) b"
    by (auto simp: append_entry_def split: option.splits json.splits)
  have "es' = es" using pool_entries_list [OF es'(1)] r(1) by simp
  with es' get_entries_dict [OF es'(1)] have "get_lit b' ''entries'' = Some (JList (es @ [?e]))" by simp
  note p' = pool_entries_list [OF this]
  show "pool_kept (pl_config G) b'" using p' k(1) ke apart room by (auto simp: pool_kept_def)
  show "pool_names b' = pool_names b @ [?n]" by (simp add: pool_names_def p' r(1) n)
qed

end
