(* ===== verification/Pooling.thy ===== *)
theory Pooling
  imports Conservation "HOL-Library.Sublist"
begin

text \<open>
  The pool's operations over the tree: what they publish is well formed, keeps the invariant of theory
  \<open>Conservation\<close>, and is never torn.
\<close>

section \<open>A decoded START is well formed\<close>

definition wf_scan :: "('a \<Rightarrow> bool) \<Rightarrow> exn + 'a \<times> ustr \<Rightarrow> bool" where
  "wf_scan good x \<longleftrightarrow> (\<forall>v r. x = Inr (v, r) \<longrightarrow> good v \<and> wf_str r)"

lemma wf_scan_simps [simp]:
  "wf_scan good (Inl e)" "wf_scan good (Inr (v, r)) \<longleftrightarrow> good v \<and> wf_str r"
  "wf_scan good reject_float" "wf_scan good (reject_non_json_constant t)"
  by (simp_all add: wf_scan_def reject_float_def reject_non_json_constant_def)

lemma wf_scan_bind:
  "wf_scan good x \<Longrightarrow> (\<And>v r. good v \<Longrightarrow> wf_str r \<Longrightarrow> wf_scan good' (f (v, r))) \<Longrightarrow> wf_scan good' (bindE x f)"
  unfolding wf_scan_def by (auto simp: bindE_Inr_iff)

lemma wf_scan_list:
  "wf_str s \<Longrightarrow> (\<And>c r. c < 1114112 \<Longrightarrow> wf_str r \<Longrightarrow> wf_scan good (f c r)) \<Longrightarrow>
     wf_scan good (case skip_ws s of [] \<Rightarrow> Inl e | c # r \<Rightarrow> f c r)"
  using wf_skip_ws [of s] by (cases "skip_ws s") (simp_all add: wf_str_def)

lemma wf_scan_string: "wf_str s \<Longrightarrow> wf_scan wf_str (scanstring s)"
  using scanstring_scan [of s] by (auto simp: wf_scan_def string_scan_def)

lemma wf_object: "object_from_pairs ps = Inr d \<Longrightarrow> wf_pairs ps \<Longrightarrow> wf_json (JDict d)"
  by (auto simp: object_from_pairs_def split: if_splits)

lemma scan_with_wf:
  "(\<forall>s. wf_str s \<longrightarrow> wf_scan wf_json (scan_with conv n s)) \<and>
   (\<forall>s. wf_str s \<longrightarrow> wf_scan (list_all wf_json) (array_with conv n s)) \<and>
   (\<forall>s. wf_str s \<longrightarrow> wf_scan wf_pairs (object_with conv n s))"
proof (induction n)
  case (Suc n)
  then have IH: "wf_str s \<Longrightarrow> wf_scan wf_json (scan_with conv n s)" "wf_str s \<Longrightarrow> wf_scan (list_all wf_json) (array_with conv n s)"
    "wf_str s \<Longrightarrow> wf_scan wf_pairs (object_with conv n s)" for s by blast+
  have o: "wf_scan wf_pairs (object_with conv (Suc n) s)" if s: "wf_str s" for s
    unfolding object_with.simps
    by (rule wf_scan_bind [OF wf_scan_string [OF s]])
      (auto intro!: wf_scan_list wf_scan_bind [OF IH(1)] wf_scan_bind [OF IH(3)] wf_skip_ws)
  have a: "wf_scan (list_all wf_json) (array_with conv (Suc n) s)" if s: "wf_str s" for s
    unfolding array_with.simps
    by (rule wf_scan_bind [OF IH(1) [OF s]]) (auto intro!: wf_scan_list wf_scan_bind IH(2) wf_skip_ws)
  have num: "wf_scan wf_json (case match_number s of
      Some (t, is_float, r') \<Rightarrow> if is_float then reject_float else bindE (conv t) (\<lambda>i. Inr (JInt i, r'))
    | None \<Rightarrow> if starts ''NaN'' s then reject_non_json_constant ''NaN''
        else if starts ''Infinity'' s then reject_non_json_constant ''Infinity''
        else if starts ''-Infinity'' s then reject_non_json_constant ''-Infinity''
        else Inl syntax_failure)" if s: "wf_str s" for s
  proof (cases "match_number s")
    case (Some p)
    obtain t f r where p: "p = (t, f, r)" by (cases p) auto
    with Some have "match_number s = Some (t, f, r)" by simp
    from match_number_scan(2) [OF this s] show ?thesis
      unfolding Some p by (auto simp: wf_scan_def bindE_Inr_iff reject_float_def)
  qed simp
  have pairs: "wf_scan wf_json (bindE (object_with conv n s) (\<lambda>(pairs, r). bindE (object_from_pairs pairs) (\<lambda>d. Inr (JDict d, r))))"
    if s: "wf_str s" for s
    by (rule wf_scan_bind [OF IH(3) [OF s]]) (auto simp: wf_scan_def bindE_Inr_iff dest: wf_object)
  have items: "wf_scan wf_json (bindE (array_with conv n s) (\<lambda>(vs, r). Inr (JList vs, r)))" if s: "wf_str s" for s
    by (rule wf_scan_bind [OF IH(2) [OF s]]) (simp add: list_all_iff)
  have v: "wf_scan wf_json (scan_with conv (Suc n) s)" if s: "wf_str s" for s
  proof (cases s)
    case (Cons c r)
    have r: "wf_str r" using s Cons by (simp add: wf_str_def)
    show ?thesis
      unfolding scan_with.simps unfolding Cons list.case
      using num [OF s] wf_drop [OF r] r unfolding Cons
      by (auto intro!: wf_scan_list pairs items wf_scan_bind [OF wf_scan_string] simp: keys_def)
  qed simp
  from a o v show ?case by blast
qed simp

lemma decode_start_wf:
  assumes "decode_parent_start data = Inr v"
  shows "wf_json v"
proof -
  from assms obtain t where t: "decode_utf8 data = Inr t"
      "(case loads_with start_integer t of
          Inl e \<Rightarrow> if e = syntax_failure then refuse ''Malformed parent START JSON.'' else Inl e
        | Inr v \<Rightarrow> Inr v) = Inr v"
    unfolding decode_parent_start_def bindE_Inr_iff sum.inject by blast
  then have l: "loads_with start_integer t = Inr v" by (auto split: sum.splits if_splits)
  have "utf8_decode data = Some t" using t(1) by (auto simp: decode_utf8_def split: if_splits option.splits)
  then have "wf_str (skip_ws t)" by (intro wf_skip_ws utf8_decode_wf)
  then have "wf_scan wf_json (scan_with start_integer (2 * length t + 1) (skip_ws t))" using scan_with_wf by blast
  with l show ?thesis by (auto simp: loads_with_def wf_scan_def bindE_Inr_iff split: if_splits)
qed

section \<open>A reservation's binding\<close>

lemma parent_binding_Inr:
  assumes "parent_binding X start_bytes basis = Inr p"
  obtains s ids where "decode_parent_start start_bytes = Inr s"
    "\<forall>k \<in> {''task_key'', ''operation_id'', ''attempt_id''}. plain_text (member s k)" "distinct_texts ids"
    "p = JDict [(lit ''task_key'', member s ''task_key''), (lit ''task_identity'', member s ''task_identity''),
              (lit ''parent_binding'', JDict [(lit ''operation_id'', member s ''operation_id''),
                 (lit ''attempt_id'', member s ''attempt_id''), (lit ''start_sha256'', JStr (sha256_hex X start_bytes)),
                 (lit ''basis_artifact'', basis)]),
              (lit ''expected_child_ids'', JList ids)]"
proof -
  from assms obtain s ids where i: "decode_parent_start start_bytes = Inr s"
      "\<forall>k \<in> {''task_key'', ''operation_id'', ''attempt_id''}. plain_text (member s k)"
      "case ids of JList vs \<Rightarrow> distinct_texts vs | _ \<Rightarrow> False"
      "p = JDict [(lit ''task_key'', member s ''task_key''), (lit ''task_identity'', member s ''task_identity''),
              (lit ''parent_binding'', JDict [(lit ''operation_id'', member s ''operation_id''),
                 (lit ''attempt_id'', member s ''attempt_id''), (lit ''start_sha256'', JStr (sha256_hex X start_bytes)),
                 (lit ''basis_artifact'', basis)]),
              (lit ''expected_child_ids'', ids)]"
    unfolding parent_binding_def Let_def bindE_Inr_iff sum.inject must_Inr by blast
  then show thesis using that [OF i(1,2)] by (cases ids) auto
qed

lemma plain_hashable: "plain_text v \<Longrightarrow> hashable v"
  by (cases v) (simp_all add: plain_text_def)

definition sound_owner :: "externals \<Rightarrow> pool \<Rightarrow> bool" where
  "sound_owner X G \<longleftrightarrow> hash_text_ok X \<and> signs_bytes X \<and> wf_str (pl_issuer G) \<and> wf_str (pl_root G) \<and>
     wf_json (pl_config G) \<and> wf_json (pl_child_trust G) \<and> wf_json (pl_observer G)"

lemma pool_binding_facts:
  assumes "pool_binding X G Q request_bytes = Inr binding"
  shows "list_all hashable (map (member binding) logical_fields)"
    and "sound_owner X G \<Longrightarrow> wf_str (lg_root Q) \<Longrightarrow> wf_json binding"
proof -
  from assms obtain q p pool_id input u where b: "load_json_bytes request_bytes = Inr q"
      "parent_binding X (lg_start Q) (lg_basis Q) = Inr p" "check_dispatch_request X (lg_start Q) p q = Inr u"
      "sub_lit (pl_config G) ''pool_id'' = Inr pool_id" "sub_lit q ''input_sha256'' = Inr input"
    and e: "binding = JDict [(lit ''pool_id'', pool_id), (lit ''config_sha256'', JStr (sha256_hex X (pl_config_bytes G))),
       (lit ''pool_root'', JStr (pl_root G)), (lit ''task_key'', member p ''task_key''),
       (lit ''task_identity'', member p ''task_identity''), (lit ''parent_start_sha256'', JStr (sha256_hex X (lg_start Q))),
       (lit ''parent_operation_id'', member (member p ''parent_binding'') ''operation_id''),
       (lit ''parent_attempt_id'', member (member p ''parent_binding'') ''attempt_id''),
       (lit ''child_id'', member q ''child_id''), (lit ''request_identity'', member q ''identity_sha256''),
       (lit ''request_sha256'', JStr (sha256_hex X request_bytes)), (lit ''child_trust'', pl_child_trust G),
       (lit ''input_sha256'', input), (lit ''ledger_root'', JStr (lg_root Q)),
       (lit ''budget_sha256'', JStr (sha256_hex X (lg_budget Q))), (lit ''observer'', pl_observer G)]"
    unfolding pool_binding_def bindE_Inr_iff sum.inject by (elim exE conjE) (rule that; (assumption | (rule sym, assumption)))
  obtain s ids where p: "decode_parent_start (lg_start Q) = Inr s"
    "\<forall>k \<in> {''task_key'', ''operation_id'', ''attempt_id''}. plain_text (member s k)" "distinct_texts ids"
    "p = JDict [(lit ''task_key'', member s ''task_key''), (lit ''task_identity'', member s ''task_identity''),
              (lit ''parent_binding'', JDict [(lit ''operation_id'', member s ''operation_id''),
                 (lit ''attempt_id'', member s ''attempt_id''), (lit ''start_sha256'', JStr (sha256_hex X (lg_start Q))),
                 (lit ''basis_artifact'', lg_basis Q)]),
              (lit ''expected_child_ids'', JList ids)]"
    by (rule parent_binding_Inr [OF b(2)])
  have m: "member p ''task_key'' = member s ''task_key''" "member p ''task_identity'' = member s ''task_identity''"
    "member (member p ''parent_binding'') ''operation_id'' = member s ''operation_id''"
    "member (member p ''parent_binding'') ''attempt_id'' = member s ''attempt_id''"
    "sub_lit p ''expected_child_ids'' = Inr (JList ids)"
    by (simp_all add: p(4)) (simp_all add: member_def)
  from b(3) m(5) obtain child i where c: "sub_lit q ''child_id'' = Inr child" "i \<in> set ids" "py_eq i child"
    unfolding check_dispatch_request_def by (auto simp: bindE_Inr_iff)
  have "plain_text i" using p(3) c(2) by (simp add: distinct_texts_def list_all_iff)
  with c(3) have "hashable child" by (cases i; cases child) (simp_all add: plain_text_def)
  then have h: "hashable (member q ''child_id'')" using member_sub [OF c(1)] by simp
  have "hashable (member s ''task_key'')" "hashable (member s ''operation_id'')" "hashable (member s ''attempt_id'')"
    using p(2) by (simp_all add: plain_hashable)
  with h show "list_all hashable (map (member binding) logical_fields)"
    unfolding logical_fields_def e m by (simp add: member_def)
  assume o: "sound_owner X G" "wf_str (lg_root Q)"
  have ws: "wf_json s" by (rule decode_start_wf [OF p(1)])
  have wq: "wf_json q" using load_json_loadable(1) [OF b(1)] by (simp add: loadable_def)
  show "wf_json binding"
    unfolding e m using o wf_member [OF ws] wf_member [OF wq] wf_sub [OF wq b(5)] wf_sub [OF _ b(4)] wf_sha [of X]
    by (simp add: sound_owner_def keys_def)
qed

section \<open>What the operations hand over is well formed\<close>

lemma wf_pool_envelope: "pool_envelope X P G content = Inr e \<Longrightarrow> sound_owner X G \<Longrightarrow> wf_json content \<Longrightarrow> wf_json e"
  unfolding pool_envelope_def sound_owner_def by (rule wf_envelope) auto

lemma wf_set_entry:
  assumes "wf_json b" "wf_json v"
  shows "wf_json (set_entry key k v b)"
proof (cases "\<exists>es. get_lit b ''entries'' = Some (JList es)")
  case True
  then obtain es where g: "get_lit b ''entries'' = Some (JList es)" ..
  have "\<forall>e \<in> set es. wf_json e" using wf_dict_get [OF assms(1) g] by simp
  then have "wf_json (JList (update_first (has_id ''key'' key) (set_member k v) es))"
    using wf_update_first [of es wf_json "set_member k v" "has_id ''key'' key"] assms(2) by (simp add: wf_set_member)
  then show ?thesis by (simp add: set_entry_def g wf_set_member assms(1))
next
  case False
  then have "set_entry key k v b = b" by (auto simp: set_entry_def split: option.splits json.splits)
  with assms(1) show ?thesis by simp
qed

lemma wf_reserve_entry:
  assumes "reserve_entry X P G binding key b = Inr (b', ticket)" "sound_owner X G" "wf_json b" "wf_json binding" "wf_json key"
  shows "wf_json b'"
proof -
  from assms(1) have t: "pool_envelope X P G (ticket_body binding key) = Inr ticket"
    and a: "append_entry (new_entry key binding ticket) b = Inr b'"
    unfolding reserve_entry_def bindE_Inr_iff by auto
  have "wf_json (ticket_body binding key)"
    unfolding ticket_body_def by (intro wf_set_member assms(4,5)) (simp_all)
  then have "wf_json ticket" by (rule wf_pool_envelope [OF t assms(2)])
  then have e: "wf_json (new_entry key binding ticket)" using assms(4,5) by (simp add: new_entry_def keys_def)
  from a obtain es where es: "get_lit b ''entries'' = Some (JList es)"
      "b' = set_member ''entries'' (JList (es @ [new_entry key binding ticket])) b"
    by (auto simp: append_entry_def split: option.splits json.splits)
  have "\<forall>e \<in> set es. wf_json e" using wf_dict_get [OF assms(3) es(1)] by simp
  with e show ?thesis unfolding es(2) by (intro wf_set_member assms(3)) auto
qed

lemma wf_bind_change:
  assumes "bind_change X G ticket reservation document b = Inr (b', r)" "wf_json b" "wf_json reservation" "wf_json document"
  shows "wf_json b'"
proof -
  from assms(1) obtain key where
    "b' = set_entry key ''dispatch'' (JDict [(lit ''reservation'', reservation), (lit ''binding'', document)]) b"
    unfolding bind_change_def bindE_Inr_iff Let_def by blast
  with assms(2-4) show ?thesis by (auto intro!: wf_set_entry simp: keys_def)
qed

lemma wf_entry_found: "find_entry X G b ticket = Inr e \<Longrightarrow> wf_json b \<Longrightarrow> pool_kept config b \<Longrightarrow> wf_json e"
  using wf_dict_get by (elim find_entry_Inr) fastforce+

lemma wf_settle_entry:
  assumes "settle_entry X P G ticket result b = Inr (b', signed)" "sound_owner X G" "wf_json b" "pool_kept config b"
    "wf_json ticket" "wf_json (cr_acquisition result)" "wf_json (cr_settlement result)"
  shows "wf_json b'"
proof -
  from assms(1) obtain e key sure n own where k: "find_entry X G b ticket = Inr e" "sub_lit e ''key'' = Inr key"
      "settlement_body key ticket result sure n = Inr own" "pool_envelope X P G own = Inr signed"
      "b' = set_entry key ''settlement'' signed (set_entry key ''retained_bytes'' (JInt n) b)"
    unfolding settle_entry_def Let_def by (auto simp: bindE_Inr_iff split: prod.splits)
  have "wf_json e" by (rule wf_entry_found [OF k(1) assms(3,4)])
  then have "wf_json key" by (rule wf_sub) (rule k(2))
  with k(3) assms(5-7) have "wf_json own"
    by (auto simp: settlement_body_def bindE_Inr_iff keys_def dest: wf_sub)
  then have "wf_json signed" by (rule wf_pool_envelope [OF k(4) assms(2)])
  then show ?thesis unfolding k(5) by (intro wf_set_entry assms(3)) simp
qed

section \<open>The order of members carries nothing\<close>

lemma hashable_sort: "hashable v \<Longrightarrow> sort_json v = v"
  by (cases v) simp_all

lemma entry_sort:
  assumes "wf_json e" "entry_kept e"
  shows "entry_name (sort_json e) = entry_name e" and "retained (sort_json e) = retained e" and "entry_kept (sort_json e)"
proof -
  have b: "wf_json (member e ''binding'')" by (rule wf_member [OF assms(1)])
  have "member (member (sort_json e) ''binding'') k = sort_json (member (member e ''binding'') k)" for k
    by (simp add: member_sort [OF assms(1)] member_sort [OF b])
  moreover have "list_all hashable (entry_name e)" using assms(2) by (simp add: entry_kept_def)
  ultimately show n: "entry_name (sort_json e) = entry_name e"
    by (simp add: entry_name_def list_all_iff hashable_sort)
  note g = get_sort [OF assms(1)]
  show "retained (sort_json e) = retained e"
    using assms(2) by (auto simp: retained_def g entry_kept_def)
  show "entry_kept (sort_json e)"
    using assms(2) unfolding entry_kept_def n by (auto simp: g)
qed

lemma kept_dict: "pool_kept config b \<Longrightarrow> is_dict b"
  by (auto simp: pool_kept_def pool_entries_def bindE_Inr_iff dest: sub_lit_dict)

lemma pool_sort:
  assumes "wf_json b" "pool_kept config b"
  shows "pool_kept config (sort_json b)" and "pool_names (sort_json b) = pool_names b"
proof -
  from assms(2) obtain es where es: "pool_entries b = Inr es" "\<forall>e \<in> set es. entry_kept e"
      "named_apart (map entry_name es)" "roomy config es"
    by (auto simp: pool_kept_def)
  have s: "pool_entries (sort_json b) = Inr (map sort_json es)" and w: "\<forall>e \<in> set es. wf_json e"
  proof -
    show "pool_entries (sort_json b) = Inr (map sort_json es)"
    proof (cases "es = []")
      case True
      from es(1) obtain v where v: "sub_lit b ''entries'' = Inr v" "py_iter v = Inr []"
        by (auto simp: pool_entries_def bindE_Inr_iff True)
      then have "py_iter (sort_json v) = Inr []" by (cases v) simp_all
      with v(1) True show ?thesis by (simp add: pool_entries_def sub_sort [OF assms(1)])
    next
      case False
      from entries_list [OF es(1,2) this] have "get_lit (sort_json b) ''entries'' = Some (JList (map sort_json es))"
        by (simp add: get_sort [OF assms(1)])
      then show ?thesis by (rule pool_entries_list)
    qed
    show "\<forall>e \<in> set es. wf_json e"
    proof (cases "es = []")
      case False
      from wf_dict_get [OF assms(1) entries_list [OF es(1,2) this]] show ?thesis by simp
    qed simp
  qed
  have m: "map entry_name (map sort_json es) = map entry_name es" "map retained (map sort_json es) = map retained es"
    using w es(2) entry_sort(1,2) by simp_all
  show "pool_kept config (sort_json b)"
    using s es w m entry_sort(3) by (auto simp: pool_kept_def roomy_def simp del: map_map)
  show "pool_names (sort_json b) = pool_names b" using s es(1) m(1) by (simp add: pool_names_def del: map_map)
qed

lemma pool_other_member:
  assumes "is_dict b" "k \<noteq> ''entries''"
  shows "pool_kept config (set_member k v b) = pool_kept config b" and "pool_names (set_member k v b) = pool_names b"
  using assms by (simp_all add: pool_kept_def pool_names_def pool_entries_def)

section \<open>Publication\<close>

definition pool_body :: "externals \<Rightarrow> pool \<Rightarrow> bytes \<Rightarrow> exn + json" where
  "pool_body X G p = bindE (load_json_bytes p) (\<lambda>doc. authenticate X doc (pl_trust G))"

abbreviation pool_state :: "pool \<Rightarrow> fs_path" where
  "pool_state G \<equiv> ledger_file (pl_root G) ''state.json''"

lemma authenticated_body: "authenticate X doc trust = Inr b \<Longrightarrow> b = member doc ''body''"
  unfolding authenticate_def bindE_Inr_iff by blast

lemma published_pool:
  assumes "pool_successor X P G old b = Inr payload" "pool_body X G payload = Inr b'" "sound_owner X G"
    "wf_json b" "wf_json old" "pool_kept config b"
  shows "pool_kept config b' \<and> pool_names b' = pool_names b"
proof -
  from assms(1) obtain p n e where e: "sub_lit old ''sha256'' = Inr p"
      "pool_envelope X P G (set_member ''previous'' p (set_member ''revision'' (JInt n) b)) = Inr e" "raw e = Inr payload"
    by (auto simp: pool_successor_def bindE_Inr_iff split: option.splits)
  let ?b = "set_member ''previous'' p (set_member ''revision'' (JInt n) b)"
  have wb: "wf_json ?b" using wf_sub [OF assms(5) e(1)] assms(4) by (intro wf_set_member) simp_all
  then have w: "wf_json e" by (rule wf_pool_envelope [OF e(2) assms(3)])
  from assms(2) obtain doc where r: "load_json_bytes payload = Inr doc" "authenticate X doc (pl_trust G) = Inr b'"
    by (auto simp: pool_body_def bindE_Inr_iff)
  have "doc = sort_json e"
    using load_json_canonical [OF w e(3) [unfolded raw_def]] r(1) by (simp split: if_splits)
  moreover have "member e ''body'' = ?b"
    using envelope_body(1) e(2) unfolding pool_envelope_def by (intro member_sub) blast
  ultimately have "b' = sort_json ?b" using authenticated_body [OF r(2)] member_sort [OF w] by simp
  moreover have "pool_kept config ?b" "pool_names ?b = pool_names b"
    using assms(6) kept_dict [OF assms(6)] by (simp_all add: pool_other_member)
  ultimately show ?thesis using pool_sort [OF wb] by simp
qed

lemma loaded_pool_Inr:
  assumes "loaded_pool X P G t = Inr old"
  obtains b where "map_of t (ledger_file (pl_root G) ''pending.json'') = None" "map_of t (pool_state G) = Some (File b)"
    "load_json_bytes b = Inr old" "validate_record X P G old = Inr old"
proof -
  from assms obtain b doc where b: "pool_locked P (pl_root G) t = Inr ()" "read_state (ledger_of P) (pl_root G) t = Inr b"
      "load_json_bytes b = Inr doc" "validate_record X P G doc = Inr old"
    by (auto simp: loaded_pool_def bindE_Inr_iff)
  moreover have "old = doc" by (rule validated_kept(1) [OF b(4)])
  ultimately show thesis
    using that by (auto simp: pool_locked_def read_state_def read_ledger_file_def bindE_Inr_iff split: option.splits entry.splits)
qed

text \<open>What a change does to the tree leaves the state and the pending file alone until it is published.\<close>

definition undisturbed :: "pool \<Rightarrow> (json \<Rightarrow> (json \<times> json) io) \<Rightarrow> bool" where
  "undisturbed G fn \<longleftrightarrow> (\<forall>b h r h'. fn b h = (r, h') \<longrightarrow>
     (\<forall>n \<in> {''state.json'', ''pending.json''}.
        map_of (h_fs h') (ledger_file (pl_root G) n) = map_of (h_fs h) (ledger_file (pl_root G) n)))"

lemma change_pool_end:
  assumes "change_pool X P G fn h = (r, h')" "undisturbed G fn"
  shows "map_of (h_fs h') (pool_state G) = map_of (h_fs h) (pool_state G) \<or>
    (\<exists>old b result h1 h2 payload. loaded_pool X P G (h_fs h) = Inr old \<and> fn (member old ''body'') h1 = (Returned (b, result), h2) \<and>
       pool_successor X P G old b = Inr payload \<and> map_of (h_fs h') (pool_state G) = Some (File payload))"
    (is "?same \<or> ?new")
proof (cases "loaded_pool X P G (h_fs h)")
  case (Inl e)
  with assms(1) show ?thesis by (simp add: change_pool_def bindS_def readS_def)
next
  case (Inr old)
  obtain r1 h1 where f: "fn (member old ''body'') h = (r1, h1)" by force
  have u: "map_of (h_fs h1) (ledger_file (pl_root G) n) = map_of (h_fs h) (ledger_file (pl_root G) n)"
    if "n \<in> {''state.json'', ''pending.json''}" for n
    using assms(2) f that unfolding undisturbed_def by blast
  show ?thesis
  proof (cases "\<exists>b result payload. r1 = Returned (b, result) \<and> pool_successor X P G old b = Inr payload")
    case False
    then have "h' = h1" using assms(1) Inr f
      by (auto simp: change_pool_def bindS_def readS_def split: outcome.splits sum.splits)
    with u show ?thesis by simp
  next
    case True
    then obtain b result payload where r1: "r1 = Returned (b, result)" "pool_successor X P G old b = Inr payload" by blast
    obtain bytes where l: "map_of (h_fs h) (ledger_file (pl_root G) ''pending.json'') = None"
        "map_of (h_fs h) (pool_state G) = Some (File bytes)"
      by (rule loaded_pool_Inr [OF Inr])
    obtain r2 where r2: "publish_state (pl_root G) payload h1 = (r2, h')"
      using assms(1) Inr f r1
      by (cases "publish_state (pl_root G) payload h1") (auto simp: change_pool_def bindS_def readS_def returnS_def split: outcome.splits)
    have "map_of (h_fs h1) (ledger_file (pl_root G) ''pending.json'') = None" "map_of (h_fs h1) (pool_state G) = Some (File bytes)"
      using u l by simp_all
    from ensuresD [OF publish_state_ensures [OF this] refl r2]
    have "map_of (h_fs h') (pool_state G) = map_of (h_fs h1) (pool_state G) \<or> map_of (h_fs h') (pool_state G) = Some (File payload)"
      by (auto split: outcome.splits)
    then show ?thesis
    proof
      assume "map_of (h_fs h') (pool_state G) = map_of (h_fs h1) (pool_state G)"
      with u show ?thesis by simp
    next
      assume "map_of (h_fs h') (pool_state G) = Some (File payload)"
      with Inr f r1 show ?thesis by blast
    qed
  qed
qed

section \<open>The calls\<close>

text \<open>What a change makes of a body that is kept.\<close>

definition keeps_pool :: "pool \<Rightarrow> (json \<Rightarrow> (json \<times> json) io) \<Rightarrow> bool" where
  "keeps_pool G fn \<longleftrightarrow> (\<forall>b h b' result h'. fn b h = (Returned (b', result), h') \<longrightarrow> wf_json b \<longrightarrow> pool_kept (pl_config G) b \<longrightarrow>
     wf_json b' \<and> pool_kept (pl_config G) b' \<and> prefix (pool_names b) (pool_names b'))"

text \<open>The states of one pool over time: each is kept and names at least the children of the first.\<close>

definition pool_after :: "externals \<Rightarrow> pool \<Rightarrow> json list list \<Rightarrow> fs \<Rightarrow> bool" where
  "pool_after X G names t \<longleftrightarrow>
     (\<forall>p b. map_of t (pool_state G) = Some (File p) \<longrightarrow> pool_body X G p = Inr b \<longrightarrow>
        pool_kept (pl_config G) b \<and> prefix names (pool_names b))"

lemma change_pool_after:
  assumes "keeps_pool G fn" "undisturbed G fn" "sound_owner X G" "pool_after X G names (h_fs h)"
  shows "pool_after X G names (h_fs (snd (change_pool X P G fn h)))"
proof -
  obtain r h' where c: "change_pool X P G fn h = (r, h')" by force
  from change_pool_end [OF c assms(2)] show ?thesis
  proof
    assume "map_of (h_fs h') (pool_state G) = map_of (h_fs h) (pool_state G)"
    with assms(4) c show ?thesis by (simp add: pool_after_def)
  next
    assume "\<exists>old b result h1 h2 payload. loaded_pool X P G (h_fs h) = Inr old \<and> fn (member old ''body'') h1 = (Returned (b, result), h2) \<and>
       pool_successor X P G old b = Inr payload \<and> map_of (h_fs h') (pool_state G) = Some (File payload)"
    then obtain old b result h1 h2 payload where p: "loaded_pool X P G (h_fs h) = Inr old"
        "fn (member old ''body'') h1 = (Returned (b, result), h2)" "pool_successor X P G old b = Inr payload"
        "map_of (h_fs h') (pool_state G) = Some (File payload)"
      by blast
    obtain bytes where l: "map_of (h_fs h) (pool_state G) = Some (File bytes)" "load_json_bytes bytes = Inr old"
        "validate_record X P G old = Inr old"
      by (rule loaded_pool_Inr [OF p(1)])
    obtain b0 where b0: "authenticate X old (pl_trust G) = Inr b0" "pool_kept (pl_config G) b0"
      using validated_kept(2) [OF l(3)] by blast
    have m: "b0 = member old ''body''" by (rule authenticated_body [OF b0(1)])
    have wo: "wf_json old" using load_json_loadable(1) [OF l(2)] by (simp add: loadable_def)
    have "pool_body X G bytes = Inr b0" using l(2) b0(1) by (simp add: pool_body_def)
    with assms(4) l(1) have n0: "prefix names (pool_names b0)" by (simp add: pool_after_def)
    have k: "wf_json b" "pool_kept (pl_config G) b" "prefix (pool_names b0) (pool_names b)"
      using assms(1) p(2) b0(2) wf_member [OF wo] unfolding keeps_pool_def m by blast+
    have "pool_kept (pl_config G) b' \<and> prefix names (pool_names b')" if "pool_body X G payload = Inr b'" for b'
      using published_pool [OF p(3) that assms(3) k(1) wo k(2)] n0 k(3) prefix_order.order_trans by metis
    with p(4) c show ?thesis by (simp add: pool_after_def)
  qed
qed

lemma undisturbed_read: "undisturbed G (\<lambda>b. readS (f b))"
  by (auto simp: undisturbed_def readS_def split: sum.splits)

lemma keeps_read:
  "(\<And>t b b' result. f b t = Inr (b', result) \<Longrightarrow> wf_json b \<Longrightarrow> pool_kept (pl_config G) b \<Longrightarrow>
      wf_json b' \<and> pool_kept (pl_config G) b' \<and> prefix (pool_names b) (pool_names b')) \<Longrightarrow> keeps_pool G (\<lambda>b. readS (f b))"
  unfolding keeps_pool_def readS_def by (auto split: sum.splits)

text \<open>The marker lies beside the ledger's files and under a name of its own.\<close>

lemma fresh_elsewhere:
  assumes "q \<noteq> p"
  shows "ensures (\<lambda>t. map_of t q = x) (fresh_file p b) (\<lambda>u t. map_of t q = x) (\<lambda>t. map_of t q = x) (\<lambda>t. map_of t q = x)"
proof -
  have "ensures (\<lambda>t. map_of t q = x) (callS (os_create p)) (\<lambda>u t. map_of t q = x) (\<lambda>t. map_of t q = x) (\<lambda>t. map_of t q = x)"
    using assms by (intro ensures_call) (auto simp: os_create_Inr dest: os_Inl)
  moreover have "ensures (\<lambda>t. map_of t q = x) (callS (os_write p b)) (\<lambda>u t. map_of t q = x) (\<lambda>t. map_of t q = x) (\<lambda>t. map_of t q = x)"
    using assms by (intro ensures_call) (auto simp: os_write_Inr dest: os_Inl)
  ultimately show ?thesis unfolding fresh_file_def by (intro ensures_bind)
qed

lemma bind_partition_elsewhere:
  assumes "q \<noteq> ledger_file (lg_root Q) ''common-owner.json''"
  shows "ensures (\<lambda>t. map_of t q = x) (bind_partition X P G Q) (\<lambda>u t. map_of t q = x) (\<lambda>t. map_of t q = x) (\<lambda>t. map_of t q = x)"
  unfolding bind_partition_def Let_def
  by (intro ensures_bind [where M = "\<lambda>_ t. map_of t q = x"] ensures_read) (auto intro: fresh_elsewhere [OF assms] ensures_read)

lemma reserve_undisturbed: "undisturbed G (\<lambda>b. bindS (bind_partition X P G Q) (\<lambda>_. readS (f b)))"
  unfolding undisturbed_def
proof (intro allI impI ballI)
  fix b h r h' n assume r: "bindS (bind_partition X P G Q) (\<lambda>_. readS (f b)) h = (r, h')"
    and n: "n \<in> {''state.json'', ''pending.json''}"
  let ?q = "ledger_file (pl_root G) n"
  have "?q \<noteq> ledger_file (lg_root Q) ''common-owner.json''"
    using n by (auto simp: ledger_file_def lit_def)
  note e = bind_partition_elsewhere [OF this, of "map_of (h_fs h) ?q" X P G]
  have "ensures (\<lambda>t. map_of t ?q = map_of (h_fs h) ?q) (bindS (bind_partition X P G Q) (\<lambda>_. readS (f b)))
      (\<lambda>x t. map_of t ?q = map_of (h_fs h) ?q) (\<lambda>t. map_of t ?q = map_of (h_fs h) ?q) (\<lambda>t. map_of t ?q = map_of (h_fs h) ?q)"
    by (intro ensures_bind [OF e] ensures_read) auto
  from ensuresD [OF this refl r] show "map_of (h_fs h') ?q = map_of (h_fs h) ?q" by (cases r) auto
qed

text \<open>The calls of the class, each run by a process that the host may stop after any effect.\<close>

datatype pool_call =
    CallPoolReserve ledger bytes
  | CallPoolBind json json json
  | CallPoolSettle json child_result

fun run_pool_call :: "externals \<Rightarrow> pool_host \<Rightarrow> pool \<Rightarrow> pool_call \<Rightarrow> json io" where
  "run_pool_call X P G (CallPoolReserve Q request) = pool_reserve X P G Q request"
| "run_pool_call X P G (CallPoolBind ticket reservation document) = bind_dispatch X P G ticket reservation document"
| "run_pool_call X P G (CallPoolSettle ticket result) = pool_settle X P G ticket result"

fun after_pool_calls :: "externals \<Rightarrow> pool_host \<Rightarrow> pool \<Rightarrow> (pool_call \<times> nat option) list \<Rightarrow> fs \<Rightarrow> fs" where
  "after_pool_calls X P G [] t = t"
| "after_pool_calls X P G ((call, left) # calls) t =
     after_pool_calls X P G calls (h_fs (snd (run_pool_call X P G call \<lparr>h_fs = t, h_left = left\<rparr>)))"

fun python_pool_values :: "pool_call \<Rightarrow> bool" where
  "python_pool_values (CallPoolReserve Q request) = wf_str (lg_root Q)"
| "python_pool_values (CallPoolBind ticket reservation document) = (wf_json reservation \<and> wf_json document)"
| "python_pool_values (CallPoolSettle ticket result) =
     (wf_json ticket \<and> wf_json (cr_acquisition result) \<and> wf_json (cr_settlement result))"

lemma run_pool_call_after:
  assumes "python_pool_values call" "sound_owner X G" "pool_after X G names (h_fs h)"
  shows "pool_after X G names (h_fs (snd (run_pool_call X P G call h)))"
proof (cases call)
  case (CallPoolReserve Q request)
  have step: "keeps_pool G (\<lambda>b. bindS (bind_partition X P G Q) (\<lambda>_. readS (\<lambda>t. reserve_entry X P G binding (JStr d) b)))"
    if "pool_binding X G Q request = Inr binding" "custody_digest X binding = Inr d" for binding d
    unfolding keeps_pool_def
  proof (intro allI impI)
    fix b h b' result h'
    assume r: "bindS (bind_partition X P G Q) (\<lambda>_. readS (\<lambda>t. reserve_entry X P G binding (JStr d) b)) h = (Returned (b', result), h')"
      and w: "wf_json b" and k: "pool_kept (pl_config G) b"
    from r have e: "reserve_entry X P G binding (JStr d) b = Inr (b', result)"
      by (auto simp: bindS_def readS_def split: prod.splits outcome.splits sum.splits)
    note f = pool_binding_facts [OF that(1)]
    have "wf_json (JStr d)" using wf_custody_digest [OF that(2)] assms(2) by (simp add: sound_owner_def)
    with wf_reserve_entry [OF e assms(2) w] f(2) assms(1,2) CallPoolReserve have "wf_json b'" by simp
    with reserve_kept [OF e k refl f(1)]
    show "wf_json b' \<and> pool_kept (pl_config G) b' \<and> prefix (pool_names b) (pool_names b')" by simp
  qed
  show ?thesis
  proof (cases "bindE (pool_binding X G Q request) (\<lambda>b. bindE (custody_digest X b) (\<lambda>d. Inr (b, JStr d)))")
    case (Inl e)
    with assms(3) show ?thesis by (simp add: CallPoolReserve pool_reserve_def raiseS_def)
  next
    case (Inr p)
    then obtain binding d where b: "pool_binding X G Q request = Inr binding" "custody_digest X binding = Inr d" "p = (binding, JStr d)"
      by (auto simp: bindE_Inr_iff)
    from change_pool_after [OF step [OF b(1,2)] reserve_undisturbed assms(2,3)]
    show ?thesis by (simp add: CallPoolReserve pool_reserve_def b)
  qed
next
  case (CallPoolBind ticket reservation document)
  have "keeps_pool G (\<lambda>b. readS (\<lambda>t. bind_change X G ticket reservation document b))"
    using wf_bind_change bind_kept assms(1) by (intro keeps_read) (fastforce simp: CallPoolBind)
  from change_pool_after [OF this undisturbed_read assms(2,3)] show ?thesis by (simp add: CallPoolBind bind_dispatch_def)
next
  case (CallPoolSettle ticket result)
  have "keeps_pool G (\<lambda>b. readS (\<lambda>t. settle_entry X P G ticket result b))"
    using wf_settle_entry [OF _ assms(2)] settle_kept assms(1) by (intro keeps_read) (fastforce simp: CallPoolSettle)
  from change_pool_after [OF this undisturbed_read assms(2,3)] show ?thesis by (simp add: CallPoolSettle pool_settle_def)
qed

lemma after_pool_calls_after:
  "list_all (\<lambda>(c, left). python_pool_values c) calls \<Longrightarrow> sound_owner X G \<Longrightarrow> pool_after X G names t \<Longrightarrow>
     pool_after X G names (after_pool_calls X P G calls t)"
proof (induction calls arbitrary: t)
  case (Cons c calls)
  obtain call left where c: "c = (call, left)" by force
  have "pool_after X G names (h_fs (snd (run_pool_call X P G call \<lparr>h_fs = t, h_left = left\<rparr>)))"
    using Cons.prems c by (intro run_pool_call_after) simp_all
  with Cons c show ?case by simp
qed simp

section \<open>A sample pool\<close>

definition sample_name :: json where
  "sample_name = JDict [(lit ''child_id'', jlit ''c''), (lit ''child_trust'', sample_trust), (lit ''parent_attempt_id'', jlit ''a''),
     (lit ''parent_operation_id'', jlit ''o''), (lit ''task_key'', jlit ''t'')]"

definition sample_pool :: pool where
  "sample_pool = \<lparr>pl_root = lit ''/p'', pl_seed = [], pl_issuer = lit ''i'', pl_trust = sample_trust, pl_config_bytes = [],
     pl_config = JDict [(lit ''capacities'', JDict [(lit ''dispatch_slots'', JInt 3), (lit ''retained_output_bytes'', JInt 600000)])],
     pl_child_trust = sample_trust, pl_observer = JNull\<rparr>"

definition sample_pool_host :: pool_host where
  "sample_pool_host = \<lparr>ch_plain = \<lambda>n. True, ch_links = \<lambda>n. 1, ch_duplicate = \<lambda>fd. None, ch_descriptor = \<lambda>fd. None,
     lh_source = [], lh_public = \<lambda>k. Some [], ph_source = []\<rparr>"

definition sample_ticket :: json where
  "sample_ticket = sample_signed_by (JDict [(lit ''authority_granted'', JBool False), (lit ''reservation_id'', jlit ''k'')])"

definition sample_sent :: json where
  "sample_sent = JDict [(lit ''binding'', JDict []), (lit ''reservation'', JDict [(lit ''sha256'', JStr (replicate 64 48))])]"

text \<open>One child holds its slot and all of its share, and its dispatch is recorded.\<close>

definition sample_pool_body :: json where
  "sample_pool_body = JDict [(lit ''authority_granted'', JBool False), (lit ''entries'', JList [JDict [(lit ''binding'', sample_name),
     (lit ''dispatch'', sample_sent), (lit ''key'', jlit ''k''), (lit ''retained_bytes'', JInt 262144), (lit ''settlement'', JNull),
     (lit ''ticket'', sample_ticket)]])]"

lemma sample_pool_kept: "pool_kept (pl_config sample_pool) sample_pool_body"
proof -
  let ?e = "JDict [(lit ''binding'', sample_name), (lit ''dispatch'', sample_sent), (lit ''key'', jlit ''k''),
     (lit ''retained_bytes'', JInt 262144), (lit ''settlement'', JNull), (lit ''ticket'', sample_ticket)]"
  have "pool_entries sample_pool_body = Inr [?e]" by (simp add: sample_pool_body_def pool_entries_def)
  moreover have "entry_name ?e = [jlit ''t'', jlit ''o'', jlit ''a'', jlit ''c'']"
    by (simp add: entry_name_def member_def sample_name_def logical_fields_def)
  moreover from this have "entry_kept ?e" by (simp add: entry_kept_def output_hold_def)
  moreover have "retained ?e = 262144" by (simp add: retained_def)
  ultimately show ?thesis
    by (simp add: pool_kept_def named_apart_def roomy_def capacity_of_def sample_pool_def)
qed

lemma sample_trust_well_formed: "wf_json sample_trust" "canon_ok sample_trust" "jdepth sample_trust \<le> 3"
proof -
  have "wf_json (producer sample_externals sample_ledger_host)" "canon_ok (producer sample_externals sample_ledger_host)"
    "jdepth (producer sample_externals sample_ledger_host) = 1"
    by (simp_all add: producer_def keys_def sample_externals_def)
  then show "wf_json sample_trust" "canon_ok sample_trust" "jdepth sample_trust \<le> 3"
    by (simp_all add: sample_trust_def sample_ledger_def keys_def)
qed

lemma sample_pool_well_formed:
  "wf_json (sample_signed_by sample_pool_body)" "canon_ok (sample_signed_by sample_pool_body)" "jdepth (sample_signed_by sample_pool_body) \<le> 64"
  "wf_json sample_pool_body" "canon_ok sample_pool_body"
proof -
  have t: "wf_json sample_ticket" "canon_ok sample_ticket" "jdepth sample_ticket \<le> 2"
    using sample_producer by (simp_all add: sample_ticket_def sample_signed_by_def keys_def)
  have n: "wf_json sample_name" "canon_ok sample_name" "jdepth sample_name \<le> 4"
    using sample_trust_well_formed by (simp_all add: sample_name_def keys_def)
  have s: "wf_json sample_sent" "canon_ok sample_sent" "jdepth sample_sent \<le> 2"
    by (simp_all add: sample_sent_def keys_def)
  have b: "jdepth sample_pool_body \<le> 10" using t n s by (simp add: sample_pool_body_def)
  show c: "wf_json sample_pool_body" "canon_ok sample_pool_body" using t n s by (simp_all add: sample_pool_body_def keys_def safe_int_def min_safe_integer_def max_safe_integer_def)
  show "wf_json (sample_signed_by sample_pool_body)" "canon_ok (sample_signed_by sample_pool_body)" "jdepth (sample_signed_by sample_pool_body) \<le> 64"
    using sample_producer b c by (simp_all add: sample_signed_by_def keys_def)
qed

definition sample_pool_state :: bytes where
  "sample_pool_state = concat (map encode_char (jtext (sample_signed_by sample_pool_body)))"

lemma sample_pool_signed: "\<exists>b. pool_body sample_externals sample_pool sample_pool_state = Inr b \<and> b = sort_json sample_pool_body"
proof -
  note w = sample_pool_well_formed
  have "load_json_bytes sample_pool_state = Inr (sort_json (sample_signed_by sample_pool_body))"
    using load_json_canonical [OF w(1), of sample_pool_state] w(1-3)
    by (simp add: canonical_bytes_iff sample_pool_state_def max_depth_def)
  moreover have "sort_json (sample_signed_by sample_pool_body) = sample_signed_by (sort_json sample_pool_body)"
    by (rule sample_signed_sort)
  moreover have "get_lit (sort_json sample_pool_body) ''authority_granted'' = Some (JBool False)" "is_dict (sort_json sample_pool_body)"
    by code_simp+
  ultimately show ?thesis
    using sample_authentic [of "sort_json sample_pool_body"] w(4,5)
    by (simp add: pool_body_def sample_pool_def wf_sort canon_ok_sort)
qed

section \<open>Properties\<close>

text \<open>
  C10. The common pool never overcommits and never sells a child twice: from a published state that is kept,
  after any sequence of its calls, whatever they are given and wherever the host stops each, the published
  state takes no more slots and retains no more bytes than the configuration admits, no two of its entries name
  the same child, and every child it named before it still names.
\<close>

theorem pool_never_overcommits:
  assumes "sound_owner X G" "list_all (\<lambda>(c, left). python_pool_values c) calls"
    "map_of t (pool_state G) = Some (File p0)" "pool_body X G p0 = Inr b0" "pool_kept (pl_config G) b0"
    "map_of (after_pool_calls X P G calls t) (pool_state G) = Some (File p)" "pool_body X G p = Inr b"
  shows "\<exists>es. pool_entries b = Inr es \<and>
     (\<forall>n. capacity_of (pl_config G) ''dispatch_slots'' = Inr n \<longrightarrow> int (length es) \<le> n) \<and>
     (\<forall>n. capacity_of (pl_config G) ''retained_output_bytes'' = Inr n \<longrightarrow> sum_list (map retained es) \<le> n) \<and>
     sorted_wrt (\<lambda>e e'. \<not> same_tuple (entry_name e) (entry_name e')) es \<and>
     prefix (pool_names b0) (map entry_name es)"
proof -
  have "pool_after X G (pool_names b0) t" using assms(3-5) by (simp add: pool_after_def)
  from after_pool_calls_after [OF assms(2,1) this]
  have "pool_kept (pl_config G) b \<and> prefix (pool_names b0) (pool_names b)" using assms(6,7) by (simp add: pool_after_def)
  then show ?thesis by (auto simp: pool_kept_def pool_names_def named_apart_def roomy_def sorted_wrt_map)
qed

theorem pool_never_overcommits_witness:
  "let calls = [(CallPoolBind sample_ticket JNull JNull, Some 3), (CallPoolReserve sample_ledger [], None)];
       t = [(ledger_file (lit ''/p'') ''state.json'', File sample_pool_state)]
   in \<exists>b es. pool_body sample_externals sample_pool sample_pool_state = Inr b \<and> pool_entries b = Inr es \<and>
        map_of (after_pool_calls sample_externals sample_pool_host sample_pool calls t) (pool_state sample_pool) = Some (File sample_pool_state) \<and>
        sum_list (map retained es) \<le> 600000"
proof -
  let ?X = sample_externals and ?P = sample_pool_host and ?G = sample_pool
  let ?t = "[(ledger_file (lit ''/p'') ''state.json'', File sample_pool_state)]"
  let ?calls = "[(CallPoolBind sample_ticket JNull JNull, Some 3), (CallPoolReserve sample_ledger [], None)]"
  have root: "pl_root ?G = lit ''/p''" by (simp add: sample_pool_def)
  have no: "\<exists>e. loaded_pool ?X ?P ?G ?t = Inl e" by (simp add: loaded_pool_def pool_locked_def root)
  then have stay: "h_fs (snd (change_pool ?X ?P ?G fn \<lparr>h_fs = ?t, h_left = left\<rparr>)) = ?t" for fn left
    by (auto simp: change_pool_def bindS_def readS_def)
  have "load_json_bytes [] = Inl syntax_failure" by code_simp
  then have "pool_reserve ?X ?P ?G sample_ledger [] = raiseS syntax_failure" by (simp add: pool_reserve_def pool_binding_def)
  then have after: "after_pool_calls ?X ?P ?G ?calls ?t = ?t" by (simp add: bind_dispatch_def stay raiseS_def)
  obtain b where b: "pool_body ?X ?G sample_pool_state = Inr b" "b = sort_json sample_pool_body"
    using sample_pool_signed by blast
  have s: "sound_owner ?X ?G"
    using sample_hash sample_trust_well_formed
    by (simp add: sound_owner_def signs_bytes_def sample_pool_def keys_def) (simp add: sample_externals_def)
  have k: "pool_kept (pl_config ?G) b" unfolding b(2) by (rule pool_sort(1) [OF sample_pool_well_formed(4) sample_pool_kept])
  have py: "list_all (\<lambda>(c, left). python_pool_values c) ?calls" by (simp add: sample_ledger_def sample_ticket_def)
  have st: "map_of ?t (pool_state ?G) = Some (File sample_pool_state)" by (simp add: root)
  have "\<exists>es. pool_entries b = Inr es \<and>
     (\<forall>n. capacity_of (pl_config ?G) ''dispatch_slots'' = Inr n \<longrightarrow> int (length es) \<le> n) \<and>
     (\<forall>n. capacity_of (pl_config ?G) ''retained_output_bytes'' = Inr n \<longrightarrow> sum_list (map retained es) \<le> n) \<and>
     sorted_wrt (\<lambda>e e'. \<not> same_tuple (entry_name e) (entry_name e')) es \<and> prefix (pool_names b) (map entry_name es)"
    by (rule pool_never_overcommits [where P = sample_pool_host, OF s py st b(1) k _ b(1)]) (simp only: after st)
  moreover have "capacity_of (pl_config ?G) ''retained_output_bytes'' = Inr 600000" by (simp add: capacity_of_def sample_pool_def)
  ultimately show ?thesis using b(1) st unfolding Let_def after by blast
qed

text \<open>
  C11. A settlement gives capacity back only for what is fully known: it takes nothing, keeps the slot, and
  where it returns any of the bytes a child held, the three accounts that the child's issuer signed agree that
  the service was performed, in time, whole and with exit status 0, and both measured and settled output are
  the number of bytes handed over.
\<close>

theorem settling_returns_only_known:
  assumes "settle_entry X P G ticket result b = Inr (b', signed)" "pool_kept config b"
  shows "\<exists>slots held held'. pool_usage b = Inr (slots, held) \<and> pool_usage b' = Inr (slots, held') \<and> held' \<le> held \<and>
     (held' < held \<longrightarrow> (\<exists>a c s.
        authenticate X (cr_acquisition result) (pl_child_trust G) = Inr a \<and>
        authenticate X (cr_completion result) (pl_child_trust G) = Inr c \<and>
        authenticate X (cr_settlement result) (pl_child_trust G) = Inr s \<and> given_back a c s result))"
proof -
  obtain es d e a c s r where e: "get_lit b ''entries'' = Some (JList es)" "find (has_id ''key'' (JStr d)) es = Some e"
    "entry_kept e" "get_lit e ''settlement'' = Some JNull" "r \<le> output_hold"
    "get_lit b' ''entries'' = Some (JList (update_first (has_id ''key'' (JStr d))
       (\<lambda>e. set_member ''settlement'' signed (set_member ''retained_bytes'' (JInt r) e)) es))"
    and a: "authenticate X (cr_acquisition result) (pl_child_trust G) = Inr a"
      "authenticate X (cr_completion result) (pl_child_trust G) = Inr c" "authenticate X (cr_settlement result) (pl_child_trust G) = Inr s"
      "r = (if given_back a c s result then int (length (cr_stdout result)) + int (length (cr_stderr result)) else output_hold)"
    by (rule settle_entry_Inr [OF assms]) (rule that)
  let ?f = "\<lambda>e. set_member ''settlement'' signed (set_member ''retained_bytes'' (JInt r) e)"
  let ?es = "update_first (has_id ''key'' (JStr d)) ?f es"
  have k: "\<forall>e \<in> set es. entry_kept e" using assms(2) pool_entries_list [OF e(1)] by (auto simp: pool_kept_def)
  have k': "\<forall>e \<in> set ?es. entry_kept e"
    using settle_kept(1) [OF assms] pool_entries_list [OF e(6)] by (auto simp: pool_kept_def)
  have re: "retained e = output_hold" using e(3,4) by (auto simp: entry_kept_def retained_def)
  have rf: "retained (?f e) = r" using e(3) by (simp add: retained_def entry_kept_def)
  have sum: "sum_list (map retained ?es) = sum_list (map retained es) - output_hold + r"
    using update_first_sum [where f = ?f and g = retained, OF e(2)] re rf by simp
  show ?thesis
    using usage_kept [OF pool_entries_list [OF e(1)] k] usage_kept [OF pool_entries_list [OF e(6)] k'] sum e(5) a
    by (auto split: if_splits)
qed

text \<open>The child's signed accounts of an output of two bytes.\<close>

definition sample_account :: "(ustr \<times> json) list \<Rightarrow> json" where
  "sample_account own = JDict ((lit ''authority_granted'', JBool False) # (lit ''service_performed'', jlit ''PERFORMED'')
     # (lit ''completion_sha256'', JStr (replicate 64 48)) # (lit ''reservation_sha256'', JStr (replicate 64 48)) # own)"

definition sample_acquisition_own :: "(ustr \<times> json) list" where
  "sample_acquisition_own = [(lit ''binding_sha256'', JStr (replicate 64 48)), (lit ''observer'', JNull),
     (lit ''settlement_sha256'', JStr (replicate 64 48)), (lit ''captured_bytes'', JInt 2),
     (lit ''stdout_sha256'', JStr (replicate 64 48)), (lit ''stderr_sha256'', JStr (replicate 64 48)),
     (lit ''timed_out'', JBool False), (lit ''output_truncated'', JBool False), (lit ''exit_status'', JInt 0)]"

definition sample_measured :: json where
  "sample_measured = JList [sample_axis ''measured_amount'' ''2'']"

definition sample_settled :: json where
  "sample_settled = JList [JDict [(lit ''aggregation'', jlit ''SUM''), (lit ''axis_id'', jlit ''captured_console_bytes''),
     (lit ''measured_amount'', jlit ''2''), (lit ''scope'', jlit ''DIRECT_CHILD_CAPTURED_OUTPUT''),
     (lit ''settled_amount_or_UNKNOWN'', jlit ''2''), (lit ''unit'', jlit ''byte'')]]"

definition sample_child_result :: child_result where
  "sample_child_result = \<lparr>cr_reservation = JDict [(lit ''sha256'', JStr (replicate 64 48))],
     cr_acquisition = sample_signed_by (sample_account sample_acquisition_own),
     cr_completion = sample_signed_by (sample_account [(lit ''resource_rows'', sample_measured)]),
     cr_settlement = sample_signed_by (sample_account [(lit ''resource_rows'', sample_settled)]),
     cr_stdout = [111], cr_stderr = [10]\<rparr>"

lemma sample_accounts:
  "authenticate sample_externals (cr_acquisition sample_child_result) sample_trust = Inr (sample_account sample_acquisition_own)"
  "authenticate sample_externals (cr_completion sample_child_result) sample_trust
     = Inr (sample_account [(lit ''resource_rows'', sample_measured)])"
  "authenticate sample_externals (cr_settlement sample_child_result) sample_trust
     = Inr (sample_account [(lit ''resource_rows'', sample_settled)])"
  "authenticate sample_externals sample_ticket sample_trust
     = Inr (JDict [(lit ''authority_granted'', JBool False), (lit ''reservation_id'', jlit ''k'')])"
proof -
  have "wf_json (sample_account sample_acquisition_own)" "canon_ok (sample_account sample_acquisition_own)"
    by (simp_all add: sample_account_def sample_acquisition_own_def keys_def safe_int_def min_safe_integer_def max_safe_integer_def)
  then show "authenticate sample_externals (cr_acquisition sample_child_result) sample_trust = Inr (sample_account sample_acquisition_own)"
    unfolding sample_child_result_def child_result.simps by (rule sample_authentic) (simp_all add: sample_account_def)
  have "wf_json (sample_account [(lit ''resource_rows'', sample_measured)])" "canon_ok (sample_account [(lit ''resource_rows'', sample_measured)])"
    using sample_well_formed [of "''measured_amount''" "''2''"] by (simp_all add: sample_account_def sample_measured_def keys_def)
  then show "authenticate sample_externals (cr_completion sample_child_result) sample_trust
     = Inr (sample_account [(lit ''resource_rows'', sample_measured)])"
    unfolding sample_child_result_def child_result.simps by (rule sample_authentic) (simp_all add: sample_account_def)
  have "wf_json (sample_account [(lit ''resource_rows'', sample_settled)])" "canon_ok (sample_account [(lit ''resource_rows'', sample_settled)])"
    by (simp_all add: sample_account_def sample_settled_def keys_def)
  then show "authenticate sample_externals (cr_settlement sample_child_result) sample_trust
     = Inr (sample_account [(lit ''resource_rows'', sample_settled)])"
    unfolding sample_child_result_def child_result.simps by (rule sample_authentic) (simp_all add: sample_account_def)
  show "authenticate sample_externals sample_ticket sample_trust
     = Inr (JDict [(lit ''authority_granted'', JBool False), (lit ''reservation_id'', jlit ''k'')])"
    unfolding sample_ticket_def by (rule sample_authentic) (simp_all add: keys_def)
qed

lemma sample_rows:
  "console_row (sample_account [(lit ''resource_rows'', sample_measured)]) ''measured_amount'' = Inr (Some 2)"
  "console_row (sample_account [(lit ''resource_rows'', sample_settled)]) ''settled_amount_or_UNKNOWN'' = Inr (Some 2)"
  by code_simp+

lemma sample_known: "fully_known (sample_account sample_acquisition_own) (sample_account [(lit ''resource_rows'', sample_measured)])
   (sample_account [(lit ''resource_rows'', sample_settled)]) = Inr True"
  by code_simp

lemma sample_checked:
  "check_child_result sample_externals sample_pool sample_sent sample_child_result 2 = Inr (sample_account sample_acquisition_own,
     sample_account [(lit ''resource_rows'', sample_measured)], sample_account [(lit ''resource_rows'', sample_settled)])"
proof -
  have "custody_digest sample_externals (JDict []) = Inr (replicate 64 48)" by (rule sample_canonical(1)) (simp_all add: keys_def)
  moreover have "sub_lit (cr_completion sample_child_result) ''sha256'' = Inr (JStr (replicate 64 48))"
    "sub_lit (cr_settlement sample_child_result) ''sha256'' = Inr (JStr (replicate 64 48))"
    by (simp_all add: sample_child_result_def sample_signed_by_def)
  moreover have "sample_pool = sample_pool\<lparr>pl_child_trust := sample_trust, pl_observer := JNull\<rparr>" by (simp add: sample_pool_def)
  moreover have "pl_child_trust sample_pool = sample_trust" "pl_observer sample_pool = JNull" by (simp_all add: sample_pool_def)
  moreover have "sha256_hex sample_externals b = replicate 64 48" for b by (simp add: sample_externals_def)
  ultimately show ?thesis
    by (simp add: check_child_result_def sample_accounts sample_rows)
      (simp add: sample_child_result_def sample_sent_def sample_account_def sample_acquisition_own_def same_field_def same_two_def
        bindE_Inr_iff output_hold_def)
qed

lemma sample_envelope:
  assumes "wf_json content" "canon_ok content"
  shows "\<exists>e. pool_envelope sample_externals sample_pool_host sample_pool content = Inr e"
proof -
  let ?p = "producer sample_externals (ledger_of sample_pool_host)"
  have p: "wf_json ?p" "canon_ok ?p" by (simp_all add: producer_def keys_def sample_externals_def)
  let ?m = "[(lit ''issuer_identity'', jlit ''i''), (lit ''producer_identity'', ?p), (lit ''body'', content)]"
  let ?r = "JDict (?m @ [(lit ''signature'', JStr (hex_of (replicate 64 0)))])"
  have "hex_of (replicate 64 0) = replicate 128 48" by code_simp
  then have w: "wf_json (JDict ?m)" "canon_ok (JDict ?m)" "wf_json ?r" "canon_ok ?r"
    using assms p by (simp_all add: keys_def)
  from sample_canonical(2) [OF w(1,2)] obtain m where "raw (JDict ?m) = Inr m" by blast
  moreover have "ed25519_sign sample_externals k b = Some (replicate 64 0)" for k b by (simp add: sample_externals_def)
  ultimately show ?thesis
    using sample_canonical(1) [OF w(3,4)] by (simp add: pool_envelope_def envelope_def with_digest_def sample_pool_def Let_def)
qed

lemma sample_found:
  obtains e where "find_entry sample_externals sample_pool sample_pool_body sample_ticket = Inr e"
    "sub_lit e ''settlement'' = Inr JNull" "sub_lit e ''dispatch'' = Inr sample_sent" "sub_lit e ''binding'' = Inr sample_name"
    "sub_lit e ''key'' = Inr (jlit ''k'')"
proof -
  let ?e = "JDict [(lit ''binding'', sample_name), (lit ''dispatch'', sample_sent), (lit ''key'', jlit ''k''),
     (lit ''retained_bytes'', JInt 262144), (lit ''settlement'', JNull), (lit ''ticket'', sample_ticket)]"
  have "wf_json sample_ticket" using sample_producer by (simp add: sample_ticket_def sample_signed_by_def keys_def)
  then have "py_eq sample_ticket sample_ticket" by (rule py_eq_refl)
  moreover have "pool_entries sample_pool_body = Inr [?e]" by (simp add: sample_pool_body_def pool_entries_def)
  ultimately have "find_entry sample_externals sample_pool sample_pool_body sample_ticket = Inr ?e"
    using sample_accounts(4) by (simp add: find_entry_def sample_pool_def same_field_def)
  then show thesis by (rule that) simp_all
qed

lemma sample_settles:
  "\<exists>b' signed. settle_entry sample_externals sample_pool_host sample_pool sample_ticket sample_child_result sample_pool_body = Inr (b', signed)"
proof -
  obtain e where e: "find_entry sample_externals sample_pool sample_pool_body sample_ticket = Inr e"
    "sub_lit e ''settlement'' = Inr JNull" "sub_lit e ''dispatch'' = Inr sample_sent" "sub_lit e ''binding'' = Inr sample_name"
    "sub_lit e ''key'' = Inr (jlit ''k'')"
    by (rule sample_found)
  have t: "same_field sample_name ''child_trust'' (pl_child_trust sample_pool) = Inr ()"
    using py_eq_refl [OF sample_trust_well_formed(1)] by (simp add: same_field_def sample_name_def sample_pool_def)
  have d: "sub_lit sample_ticket ''sha256'' = Inr (JStr (replicate 64 48))"
    "sub_lit (cr_acquisition sample_child_result) ''sha256'' = Inr (JStr (replicate 64 48))"
    "sub_lit (cr_settlement sample_child_result) ''sha256'' = Inr (JStr (replicate 64 48))"
    by (simp_all add: sample_ticket_def sample_child_result_def sample_signed_by_def)
  obtain own where own: "settlement_body (jlit ''k'') sample_ticket sample_child_result True 2 = Inr own" "wf_json own" "canon_ok own"
    using d by (simp add: settlement_body_def keys_def safe_int_def min_safe_integer_def max_safe_integer_def)
  obtain signed where signed: "pool_envelope sample_externals sample_pool_host sample_pool own = Inr signed"
    using sample_envelope [OF own(2,3)] by blast
  have n: "int (length (cr_stdout sample_child_result)) + int (length (cr_stderr sample_child_result)) = 2"
    "sample_sent \<noteq> JNull"
    by (simp_all add: sample_child_result_def sample_sent_def)
  show ?thesis
    by (simp add: settle_entry_def Let_def e t n sample_checked sample_known sample_rows own(1) signed)
qed

theorem settling_returns_only_known_witness:
  "\<exists>b' signed slots held held'.
     settle_entry sample_externals sample_pool_host sample_pool sample_ticket sample_child_result sample_pool_body = Inr (b', signed) \<and>
     pool_usage sample_pool_body = Inr (slots, held) \<and> pool_usage b' = Inr (slots, held') \<and> held' \<le> held"
proof -
  obtain b' signed where s: "settle_entry sample_externals sample_pool_host sample_pool sample_ticket sample_child_result sample_pool_body
      = Inr (b', signed)"
    using sample_settles by blast
  from settling_returns_only_known [OF s sample_pool_kept] s show ?thesis by blast
qed

end
