(* ===== verification/Spec2Isabelle.thy ===== *)
theory Spec2Isabelle
  imports Pooling
begin

text \<open>
  Verification development of the verify-run runtime, the Python package \<^verbatim>\<open>src/vfy\<close>.

  The program. A rulebook (a YAML or JSON document with ordered rules and a \<open>when\<close> expression each) is
  loaded and pinned by digest; evidence about one candidate is collected into a snapshot that is
  frozen and sealed; the gate walks the rules over candidate and snapshot and answers ALLOW, BLOCK,
  HOLD or ERROR; an ALLOW can be turned into a signed, expiring, single-use authorization; the
  runner executes the authorized command once, spending the authorization first; and a signed receipt
  records the decision with the digests of everything it was made from, so that a later replay
  recomputes it. The store keeps records, bodies and spent nonces as files.

  Theories and code, in the order the theories build on each other. Names are those of the code.
    \<^item> \<open>Prelude\<close>, \<open>Values\<close>, \<open>Utf8\<close>: Python text as lists of code points with their order, results as sums,
      \<open>dict\<close>s as insertion-ordered association lists, strict UTF-8. \<open>Errors\<close>: \<^verbatim>\<open>errors.py\<close>, one constructor
      per exception class, and the exceptions of the standard library the code lets escape.
    \<^item> \<open>Canon\<close>: \<^verbatim>\<open>canon.py\<close>. \<open>JsonText\<close>, \<open>Yaml\<close>, \<open>Loading\<close>: \<^verbatim>\<open>load.py\<close>, with the scanner of the standard
      library's \<open>json\<close> transcribed and PyYAML's event parser as a parameter. \<open>Frozen\<close>: artifacts that keep
      canonical text and reload from it, as one locale that every artifact interprets.
    \<^item> \<open>Datetime\<close>, \<open>Decimal\<close>, \<open>Glob\<close>: the pure routines of \<^verbatim>\<open>rulebook.py\<close>, \<^verbatim>\<open>authorization.py\<close> and
      \<^verbatim>\<open>gate.py\<close> on instants, digit texts and glob patterns. \<open>Regex\<close>: patterns of the sources as expressions.
    \<^item> \<open>Externals\<close>: what is not in the repository, as one record of functions the definitions take as
      an argument (regular-expression engine, recursion bound, YAML events, SHA-256, Ed25519).
    \<^item> \<open>Schema\<close>, \<open>Validate\<close>: \<^verbatim>\<open>schema.py\<close>. \<open>Expression\<close>, \<open>Grammar\<close>: \<^verbatim>\<open>expr.py\<close>. \<open>Reordering\<close>: order
      of members carries no information. \<open>Samples\<close>: the concrete instance the witnesses run on.
    \<^item> \<open>Rulebook\<close>: \<^verbatim>\<open>rulebook.py\<close>. \<open>Snapshot\<close>: \<^verbatim>\<open>snapshot.py\<close>. \<open>Gate\<close>, \<open>Evaluation\<close>, \<open>Replay\<close>,
      \<open>Judgement\<close>: \<^verbatim>\<open>gate.py\<close>, its reference semantics and its properties. \<open>Authorization\<close>:
      \<^verbatim>\<open>authorization.py\<close>. \<open>Receipt\<close>: \<^verbatim>\<open>receipt.py\<close>.
    \<^item> \<open>Files\<close>: the store's file tree and the computations over it. One computation takes a number of
      effects after which the host stops; it ends with a value, an exception or the stop, and with
      the tree it leaves. \<open>Store\<close>, \<open>Commit\<close>: \<^verbatim>\<open>store.py\<close>. \<open>Effects\<close>: triples for the computations and the
      count of effects that suffices. \<open>Consumption\<close>, \<open>Interleaving\<close>, \<open>Listing\<close>, \<open>Durability\<close>:
      what the store promises, one promise per theory.
    \<^item> \<open>Custody\<close>: \<^verbatim>\<open>custody.py\<close>. \<open>Runner\<close>: \<^verbatim>\<open>runner.py\<close>. \<open>Execution\<close>: the guarantees of the runner's
      order of steps.
    \<^item> \<open>Wide\<close>, \<open>Ledger\<close>, \<open>Budget\<close>: \<^verbatim>\<open>child_ledger.py\<close>, from the decoder of the parent's START to
      the signed events, the exposure, the verification of a report and the published state. \<open>Exposure\<close>,
      \<open>Solvency\<close>, \<open>Bookkeeping\<close>, \<open>Publication\<close>: exposure as a sum over children, the invariant that each
      operation keeps, that a published state reads back as what was changed, and the two promises.
    \<^item> \<open>Evidence\<close>: the adapters of \<^verbatim>\<open>evidence/\<close>, over the tree below their root; what a launched command
      lets the runtime see is an argument, as for the runner.
    \<^item> \<open>Pool\<close>: \<^verbatim>\<open>common_capacity.py\<close>, the pool that the children of several ledgers share, published as a
      ledger's state is. \<open>Conservation\<close>: what its operations keep of a state's body. \<open>Pooling\<close>: the
      operations over the tree, and the two promises.

  What the lemma groups show.
    \<^item> Values: the canonical text determines the value up to member order, the strict loaders return only
      values that have one, and what was sealed reloads (\<open>json_loads_frozen_values\<close>,
      \<open>yaml_loads_frozen_values\<close>, \<open>exact_eq_canonical\<close>). The iterative routines equal their meaning:
      validation (\<open>validate_refines\<close>), glob (\<open>glob_correct\<close>), digit texts (\<open>compare_numeric_correct\<close>).
    \<^item> Decisions: the parser is total and its trees well formed; evaluation equals the three-valued
      meaning; the first rule that is not false decides, and an ERROR is exactly a failed preparation; an
      ALLOW is earned; the decision is the same on
      reloaded values, and a replay recomputes it.
    \<^item> Authority: a verified authorization is bound to rulebook, candidate and snapshot, in time and
      signed by an acceptable key; an issued one whose expiry lies from 1 March of year zero to the end of year
      9999 verifies (before, \<open>expiry_rendered\<close> shows the rendered expiry a day late). Spending it is atomic wherever the host
      stops, succeeds on a sound store, and happens at most once, in sequence (\<open>spent_at_most_once\<close>) and
      under every interleaving of system calls (\<open>no_interleaving_spends_twice\<close>, over a machine that
      \<open>consume_once_is_a_run\<close> shows the code's calls to be runs of). The locale \<open>single_use\<close> holds the
      argument once; the store's nonces and the custody claims interpret it.
    \<^item> Execution: nothing is launched whose authority was not verified and spent (\<open>nothing_runs_unspent\<close>);
      in any sequence of executions the launcher is called at most once per nonce
      (\<open>launched_at_most_once\<close>). The calls are counted where they happen: the launcher is an argument of the
      runner, and the theorem is about one that writes a byte into a log of its own whenever it is called.
    \<^item> Budgets: whatever the calls of the ledger and wherever the host stops them, the exposure of an axis
      exceeds its limit by no more than what the measured amounts of completions exceed their own
      reservations by (\<open>ledger_never_overcommits\<close>); a settlement adds nothing to that, and the published state is never torn (\<open>ledger_state_never_torn\<close>).
      A pool stays within its slots and bytes, sells no child twice and forgets none
      (\<open>pool_never_overcommits\<close>); only an outcome that the child's three signed accounts agree was
      performed, in time, whole and with exit status 0 gives bytes back (\<open>settling_returns_only_known\<close>).
    \<^item> Evidence: a file is read below its root with no link on the way (\<open>file_evidence_contained\<close>), and what
      either adapter returns is what a snapshot takes (\<open>evidence_admitted\<close>).

  Bounds and fuel. The parser's fuel is the length of the source, the glob's a multiple of
  |pattern| x |text|; \<open>parse_terminates\<close> and \<open>glob_correct\<close> show they do not run out.
  Validation takes the host's recursion limit as an argument: within the declared depth every limit
  large enough gives the same answer, and \<open>reference_cycle_admitted\<close> shows the schema for which
  none is. Spending returns within 67 effects: 64 staging slots and the three calls that commit.
  Integers are Python's, unbounded; the 4300-digit bound on their conversion is modelled, since a
  listing can meet it: it is the loader's only exception that is not a refusal (\<open>long_integer_ends_listing\<close>).

  Findings. \<open>gate._equal\<close> compares dictionaries with Python's \<open>==\<close>, which does not tell \<open>true\<close> from
  1 inside them; \<open>_add_seconds\<close> is a day late on the first day of year zero; \<open>build_registry\<close> accepts
  a \<open>$ref\<close> cycle; a snapshot whose values nest 62 to 64 levels is sealed and cannot be reloaded; a
  listing ends with the bare \<open>ValueError\<close> of an over-long integer; a reservation can publish a ledger
  state that nests too deep to be read again; a docstring of \<^verbatim>\<open>load.py\<close>
  promises a location the code does not give.

  Not modelled. Faults of the host that the file tree does not decide (a full disk, a permission) and
  the durability that \<open>fsync\<close> adds; the \<open>repr\<close> at the end of a few messages; the text of
  \<open>ExecutionRecordingFailed\<close>; the child process itself, which is a parameter that yields what the
  runtime observes of it; likewise the file names' encoding beyond what \<open>resolve\<close> refuses. The child observer
  measures a process with the host's clocks and is an argument of \<open>dispatch_common\<close>. The managed epoch of the
  pool, the workflow that chains these steps for the command line, the command line, the service layer and
  the repository's tools are not modelled; they call the operations above or keep books of their own.
\<close>

end
